(* ===== verification/Prelude.thy ===== *)
theory Prelude
  imports Main "HOL-Library.Word"
begin

text \<open>
  Shared vocabulary of the AIMv6 development: the machine integer types of
  \<open>include/sys/types.h\<close> and \<open>include/errno.h\<close>, the outcome of a kernel routine
  (a returned value, a kernel panic, an access the C program must not make, or a
  loop that does not end), and the generic facts on words and lists that the
  component theories use. The theorem collections declared here are extended by
  the components.
\<close>

unbundle bit_operations_syntax

section \<open>Machine integers\<close>

type_synonym u8 = "8 word"
type_synonym u16 = "16 word"
type_synonym u32 = "32 word"
type_synonym u64 = "64 word"

text \<open>
  \<open>size_t\<close> and \<open>unsigned long\<close> on the 32-bit targets (i386, ARMv7A, MIPS32),
  \<open>addr_t\<close> (always \<open>unsigned long long\<close>) and the flags word \<open>gfp_t\<close>.
  A C \<open>int\<close> that is only used as a return code is a HOL \<^typ>\<open>int\<close>.
\<close>

type_synonym size_t = "32 word"
type_synonym addr_t = "64 word"
type_synonym gfp_t = "32 word"

definition EOF :: int where "EOF = -1"

definition EPERM :: int where "EPERM = 1"
definition ENOENT :: int where "ENOENT = 2"
definition ENOMEM :: int where "ENOMEM = 12"
definition EFAULT :: int where "EFAULT = 14"
definition EEXIST :: int where "EEXIST = 17"
definition EINVAL :: int where "EINVAL = 22"

named_theorems errno_defs
declare EOF_def [errno_defs] ENOENT_def [errno_defs] ENOMEM_def [errno_defs]
  EFAULT_def [errno_defs] EEXIST_def [errno_defs] EINVAL_def [errno_defs]

section \<open>Outcomes\<close>

text \<open>
  A routine returns a value, stops in \<open>panic()\<close>, makes an access outside what its
  data structures describe (an out-of-range index, a pointer to nothing), or runs
  longer than the steps it was given.
\<close>

datatype 'a outcome = Ret 'a | Panic | Fault | Hang

fun obind :: "'a outcome \<Rightarrow> ('a \<Rightarrow> 'b outcome) \<Rightarrow> 'b outcome" where
  "obind (Ret x) f = f x"
| "obind Panic f = Panic"
| "obind Fault f = Fault"
| "obind Hang f = Hang"

lemma obind_Ret_conv: "obind m f = Ret y \<longleftrightarrow> (\<exists>x. m = Ret x \<and> f x = Ret y)"
  by (cases m) auto

lemma obind_cong [fundef_cong]:
  "m = m' \<Longrightarrow> (\<And>x. m' = Ret x \<Longrightarrow> f x = f' x) \<Longrightarrow> obind m f = obind m' f'"
  by (cases m') auto

definition kassert :: "bool \<Rightarrow> 'a outcome \<Rightarrow> 'a outcome" where
  "kassert c m = (if c then m else Panic)"

lemma kassert_Ret_conv [simp]: "kassert c m = Ret y \<longleftrightarrow> c \<and> m = Ret y"
  by (simp add: kassert_def)

definition returns :: "'a outcome \<Rightarrow> bool" where
  "returns m \<longleftrightarrow> (\<exists>x. m = Ret x)"

lemma returns_Ret [simp]: "returns (Ret x)"
  by (simp add: returns_def)

section \<open>Words\<close>

lemma unat_bound: "unat (x :: 'a :: len word) < 2 ^ LENGTH('a)"
  by (rule unsigned_less)

lemma unat_exp:
  assumes "k < LENGTH('a)"
  shows "unat (2 ^ k :: 'a :: len word) = 2 ^ k"
proof -
  have "(2 ^ k :: 'a word) = of_nat (2 ^ k)" by simp
  then show ?thesis using assms by (simp only: unat_of_nat) simp
qed

lemma unat_and_mask: "unat (x AND mask k :: 'a :: len word) = unat x mod 2 ^ k"
  by (simp only: take_bit_eq_mask [symmetric] unsigned_take_bit_eq) (simp add: take_bit_eq_mod)

lemma unat_add_no_overflow:
  "unat (a :: 'a :: len word) + unat b < 2 ^ LENGTH('a) \<Longrightarrow> unat (a + b) = unat a + unat b"
  by (simp add: unat_word_ariths)

lemma unat_sub_le: "(b :: 'a :: len word) \<le> a \<Longrightarrow> unat (a - b) = unat a - unat b"
  by (simp add: unat_sub word_le_nat_alt)

lemma unat_sub_wrap:
  assumes "(a :: 'a :: len word) < b"
  shows "unat (a - b) = 2 ^ LENGTH('a) + unat a - unat b"
proof -
  have ab: "unat a < unat b" using assms by (simp add: word_less_nat_alt)
  have "a - b = of_nat (2 ^ LENGTH('a) + unat a - unat b)"
  proof -
    have "unat b \<le> 2 ^ LENGTH('a) + unat a" using unat_bound [of b] by linarith
    then show ?thesis by (simp add: of_nat_diff)
  qed
  moreover have "2 ^ LENGTH('a) + unat a - unat b < 2 ^ LENGTH('a)"
    using ab unat_bound [of b] by linarith
  ultimately show ?thesis
    by (simp add: unat_of_nat)
qed

lemma unat_ucast_up:
  assumes "LENGTH('a) \<le> LENGTH('b)"
  shows "unat (ucast (x :: 'a :: len word) :: 'b :: len word) = unat x"
proof -
  have "unat x < 2 ^ LENGTH('a)" by (rule unat_bound)
  also have "\<dots> \<le> 2 ^ LENGTH('b)" using assms by simp
  finally show ?thesis by (simp add: unsigned_ucast_eq take_bit_nat_eq_self_iff)
qed

end
