(* ===== verification/Util.thy ===== *)
theory Util
  imports Prelude
begin

text \<open>
  The arithmetic macros of \<open>include/util.h\<close>, on unsigned words of any width (the
  macros are generic over the type of their argument), and what they compute. The
  \<open>ALIGN\<close> family is meant for powers of two; the facts below are stated for
  \<open>2 ^ k\<close> and hold for every argument, wrap-around included.
\<close>

section \<open>Definitions\<close>

definition ALIGN_MASK :: "'a :: len word \<Rightarrow> 'a word" where
  "ALIGN_MASK a = a - 1"

definition IS_ALIGNED :: "'a :: len word \<Rightarrow> 'a word \<Rightarrow> bool" where
  "IS_ALIGNED x a \<longleftrightarrow> x AND ALIGN_MASK a = 0"

definition ALIGN_ABOVE :: "'a :: len word \<Rightarrow> 'a word \<Rightarrow> 'a word" where
  "ALIGN_ABOVE x a = ((x - 1) OR ALIGN_MASK a) + 1"

definition ALIGN_BELOW :: "'a :: len word \<Rightarrow> 'a word \<Rightarrow> 'a word" where
  "ALIGN_BELOW x a = x AND NOT (ALIGN_MASK a)"

definition min2 :: "'a :: ord \<Rightarrow> 'a \<Rightarrow> 'a" where
  "min2 a b = (if a < b then a else b)"

definition max2 :: "'a :: ord \<Rightarrow> 'a \<Rightarrow> 'a" where
  "max2 a b = (if b < a then a else b)"

definition DIV_ROUND_UP :: "'a :: len word \<Rightarrow> 'a word \<Rightarrow> 'a word" where
  "DIV_ROUND_UP n d = (n + d - 1) div d"

definition ROUNDUP :: "'a :: len word \<Rightarrow> 'a word \<Rightarrow> 'a word" where
  "ROUNDUP x d = DIV_ROUND_UP x d * d"

definition ROUNDDOWN :: "'a :: len word \<Rightarrow> 'a word \<Rightarrow> 'a word" where
  "ROUNDDOWN x d = x - x mod d"

definition ROUND_CLOSEST :: "'a :: len word \<Rightarrow> 'a word \<Rightarrow> 'a word" where
  "ROUND_CLOSEST x d = (x + d div 2) div d"

text \<open>
  \<open>get_lowest_0\<close> shifts right while the low bit is set, unless every bit is set.
  The width bounds the number of shifts, since a zero enters at the top.
\<close>

fun get_lowest_0_loop :: "nat \<Rightarrow> 'a :: len word \<Rightarrow> int \<Rightarrow> int" where
  "get_lowest_0_loop 0 x i = i"
| "get_lowest_0_loop (Suc n) x i =
     (if x AND 1 = 1 then get_lowest_0_loop n (drop_bit 1 x) (i + 1) else i)"

definition get_lowest_0 :: "'a :: len word \<Rightarrow> int" where
  "get_lowest_0 x = (if x + 1 = 0 then -1 else get_lowest_0_loop LENGTH('a) x 0)"

section \<open>Alignment\<close>

lemma align_mask_pow2: "ALIGN_MASK (2 ^ k) = (mask k :: 'a :: len word)"
  by (simp add: ALIGN_MASK_def mask_eq_decr_exp)

lemma is_aligned_iff_dvd: "IS_ALIGNED (x :: 'a :: len word) (2 ^ k) \<longleftrightarrow> 2 ^ k dvd unat x"
  by (simp add: IS_ALIGNED_def align_mask_pow2 and_mask_dvd_nat)

lemma unat_align_below: "unat (ALIGN_BELOW (x :: 'a :: len word) (2 ^ k)) = unat x div 2 ^ k * 2 ^ k"
proof -
  have "x AND NOT (mask k) = x - (x AND mask k)"
  proof -
    have "x - (x AND mask k) = x AND NOT (x AND mask k)"
      by (rule disjunctive_diff) (simp add: bit_simps)
    also have "\<dots> = x AND NOT (mask k)" by (rule bit_word_eqI) (auto simp: bit_simps)
    finally show ?thesis by simp
  qed
  then have "unat (x AND NOT (mask k)) = unat x - unat (x AND mask k)"
    by (simp add: unat_sub_le word_and_le2)
  then show ?thesis
    by (simp add: ALIGN_BELOW_def align_mask_pow2 unat_and_mask minus_mod_eq_div_mult)
qed

lemma align_above_eq:
  assumes "k < LENGTH('a)"
  shows "ALIGN_ABOVE (x :: 'a :: len word) (2 ^ k) = ALIGN_BELOW (x - 1) (2 ^ k) + 2 ^ k"
proof -
  have "(x - 1) OR mask k = ((x - 1) AND NOT (mask k)) OR mask k"
    by (rule bit_word_eqI) (auto simp: bit_simps)
  also have "\<dots> = ((x - 1) AND NOT (mask k)) + mask k"
    by (rule disjunctive_add_eq_or [symmetric]) (simp add: bit_eq_iff bit_simps)
  finally show ?thesis
    by (simp add: ALIGN_ABOVE_def ALIGN_BELOW_def align_mask_pow2 mask_eq_decr_exp)
qed

lemma ceil_div_mult_pred:
  "0 < (n :: nat) \<Longrightarrow> 0 < m \<Longrightarrow> (n - 1) div m * m + m = (n + m - 1) div m * m"
proof -
  assume "0 < n" "0 < m"
  then have "(n + m - 1) div m = (n - 1) div m + 1"
    by (metis Nat.add_diff_assoc2 One_nat_def Suc_leI add.commute div_add_self2 not_gr_zero plus_1_eq_Suc)
  then show ?thesis by simp
qed

lemma unat_align_above:
  assumes k: "k < LENGTH('a)"
  shows "unat (ALIGN_ABOVE (x :: 'a :: len word) (2 ^ k)) =
    ((unat x + 2 ^ k - 1) div 2 ^ k * 2 ^ k) mod 2 ^ LENGTH('a)"
proof (cases "x = 0")
  case True
  have "(2 ^ k - 1) div (2 :: nat) ^ k = 0" by simp
  with True show ?thesis by (simp add: ALIGN_ABOVE_def)
next
  case False
  then have u: "unat (x - 1) = unat x - 1" and pos: "0 < unat x"
    by (simp_all add: unat_minus_one unat_gt_0)
  have "unat (ALIGN_ABOVE x (2 ^ k)) = ((unat x - 1) div 2 ^ k * 2 ^ k + 2 ^ k) mod 2 ^ LENGTH('a)"
    by (simp add: align_above_eq [OF k] unat_word_ariths unat_align_below u unat_exp [OF k])
  then show ?thesis
    using ceil_div_mult_pred [OF pos, of "2 ^ k"] by simp
qed

lemma unat_align_above_no_overflow:
  assumes "k < LENGTH('a)" and "unat x + 2 ^ k \<le> 2 ^ LENGTH('a)"
  shows "unat (ALIGN_ABOVE (x :: 'a :: len word) (2 ^ k)) = (unat x + 2 ^ k - 1) div 2 ^ k * 2 ^ k"
proof -
  have "(unat x + 2 ^ k - 1) div 2 ^ k * 2 ^ k \<le> unat x + 2 ^ k - 1"
    by (rule div_times_less_eq_dividend)
  also have "\<dots> < unat x + 2 ^ k" by simp
  finally show ?thesis using assms(2) by (simp add: unat_align_above [OF assms(1)])
qed

lemma align_above_least:
  assumes k: "k < LENGTH('a)" and ov: "unat x + 2 ^ k \<le> 2 ^ LENGTH('a)"
  defines "y \<equiv> ALIGN_ABOVE (x :: 'a :: len word) (2 ^ k)"
  shows "IS_ALIGNED y (2 ^ k)" and "unat x \<le> unat y" and "unat y < unat x + 2 ^ k"
proof -
  let ?q = "(unat x + 2 ^ k - 1) div 2 ^ k"
  have y: "unat y = ?q * 2 ^ k"
    unfolding y_def by (rule unat_align_above_no_overflow [OF k ov])
  show "IS_ALIGNED y (2 ^ k)" by (simp add: is_aligned_iff_dvd y)
  have m: "(unat x + 2 ^ k - 1) mod 2 ^ k < 2 ^ k" by simp
  have "?q * 2 ^ k + (unat x + 2 ^ k - 1) mod 2 ^ k = unat x + 2 ^ k - 1"
    by (rule div_mult_mod_eq)
  then show "unat x \<le> unat y" and "unat y < unat x + 2 ^ k"
    using m y by linarith+
qed

lemma align_below_greatest:
  defines "y \<equiv> \<lambda>x k. ALIGN_BELOW (x :: 'a :: len word) (2 ^ k)"
  shows "IS_ALIGNED (y x k) (2 ^ k)" and "unat (y x k) \<le> unat x"
    and "unat x < unat (y x k) + 2 ^ k"
proof -
  have y: "unat (y x k) = unat x div 2 ^ k * 2 ^ k"
    by (simp add: y_def unat_align_below)
  show "IS_ALIGNED (y x k) (2 ^ k)" by (simp add: is_aligned_iff_dvd y)
  have "unat x div 2 ^ k * 2 ^ k + unat x mod 2 ^ k = unat x" by (rule div_mult_mod_eq)
  moreover have "unat x mod 2 ^ k < 2 ^ k" by simp
  ultimately show "unat (y x k) \<le> unat x" and "unat x < unat (y x k) + 2 ^ k"
    using y by linarith+
qed

section \<open>Rounding to any divisor\<close>

lemma unat_roundup:
  assumes "0 < unat d" and "unat x + unat d \<le> 2 ^ LENGTH('a)"
  shows "unat (ROUNDUP (x :: 'a :: len word) d) = (unat x + unat d - 1) div unat d * unat d"
proof -
  have "(1 :: 'a word) \<le> d" using assms(1) by (simp add: word_le_nat_alt Suc_le_eq)
  then have d1: "unat (d - 1) = unat d - 1" by (simp add: unat_sub_le)
  have s: "unat (x + d - 1) = unat x + unat d - 1"
  proof -
    have "unat (x + (d - 1)) = unat x + (unat d - 1)"
      using assms d1 by (subst unat_add_no_overflow) linarith+
    then show ?thesis using assms(1) by (simp add: add_diff_eq)
  qed
  have "(unat x + unat d - 1) div unat d * unat d \<le> unat x + unat d - 1"
    by (rule div_times_less_eq_dividend)
  also have "\<dots> < 2 ^ LENGTH('a)" using assms by linarith
  finally show ?thesis
    by (simp add: ROUNDUP_def DIV_ROUND_UP_def unat_word_ariths(2) s unat_div mod_mult_left_eq)
qed

lemma unat_rounddown: "unat (ROUNDDOWN (x :: 'a :: len word) d) = unat x div unat d * unat d"
proof -
  have "x mod d \<le> x" by (simp add: word_le_nat_alt unat_mod)
  then have "unat (x - x mod d) = unat x - unat x mod unat d"
    by (simp only: unat_sub_le unat_mod)
  then show ?thesis by (simp only: ROUNDDOWN_def minus_mod_eq_div_mult)
qed

section \<open>The lowest zero bit\<close>

lemma and_one_eq_one_iff: "(x :: 'a :: len word) AND 1 = 1 \<longleftrightarrow> bit x 0"
  by (simp add: and_one_eq bit_0 odd_iff_mod_2_eq_one)

lemma get_lowest_0_loop_eq:
  "\<not> bit x p \<Longrightarrow> p < n \<Longrightarrow> (\<And>i. i < p \<Longrightarrow> bit x i) \<Longrightarrow> get_lowest_0_loop n x j = j + int p"
proof (induction n x j arbitrary: p rule: get_lowest_0_loop.induct)
  case (1 x j)
  then show ?case by simp
next
  case (2 n x j)
  show ?case
  proof (cases p)
    case 0
    with "2.prems" show ?thesis by (simp add: and_one_eq_one_iff)
  next
    case (Suc q)
    have "bit x 0" using "2.prems"(3) Suc by simp
    moreover have "get_lowest_0_loop n (drop_bit 1 x) (j + 1) = j + 1 + int q"
      by (rule "2.IH") (use "2.prems" Suc \<open>bit x 0\<close> in \<open>auto simp: and_one_eq_one_iff bit_simps\<close>)
    ultimately show ?thesis using Suc by (simp add: and_one_eq_one_iff)
  qed
qed

lemma get_lowest_0_eq:
  assumes "\<not> bit x p" and "p < LENGTH('a)" and "\<And>i. i < p \<Longrightarrow> bit x i"
  shows "get_lowest_0 (x :: 'a :: len word) = int p"
proof -
  have "x + 1 \<noteq> 0"
  proof
    assume "x + 1 = 0"
    then have "x = -1" by (simp add: eq_neg_iff_add_eq_0)
    with assms(1,2) show False by (simp add: bit_simps)
  qed
  then show ?thesis
    using get_lowest_0_loop_eq [OF assms] by (simp add: get_lowest_0_def)
qed

end
