(* ===== verification/Bitops.thy ===== *)
theory Bitops
  imports Util
begin

text \<open>
  Bit searching and bit counting: the portable routines of \<open>include/bitops.h\<close> for
  32-bit and for 64-bit \<open>unsigned long\<close>, the derived \<open>ffz\<close>/\<open>flz\<close> macros, the 64-bit
  variants on a 32-bit machine, the MIPS versions of \<open>include/arch/mips/arch-bitops.h\<close>
  over the \<open>clz\<close>/\<open>clo\<close> instructions and the i386 versions of
  \<open>include/arch/i386/arch-bitops.h\<close> over \<open>bsf\<close>/\<open>bsr\<close>. The portable routines are the
  reference for the others.
  Positions are 1-based and 0 means that no such bit exists.
\<close>

section \<open>The routines\<close>

text \<open>One step of the binary search of \<open>__generic_ffs\<close>, and the whole routine.\<close>

definition ffs_step :: "nat \<Rightarrow> nat \<times> 'a :: len word \<Rightarrow> nat \<times> 'a word" where
  "ffs_step k = (\<lambda>(num, word). if word AND mask k = 0 then (num + k, drop_bit k word) else (num, word))"

definition generic_ffs32 :: "u32 \<Rightarrow> nat" where
  "generic_ffs32 word =
     (if word = 0 then 0
      else let (num, w) = ffs_step 2 (ffs_step 4 (ffs_step 8 (ffs_step 16 (1, word))))
           in if w AND 1 = 0 then num + 1 else num)"

definition generic_ffs64 :: "u64 \<Rightarrow> nat" where
  "generic_ffs64 word =
     (if word = 0 then 0
      else let (num, w) = ffs_step 2 (ffs_step 4 (ffs_step 8 (ffs_step 16 (ffs_step 32 (1, word)))))
           in if w AND 1 = 0 then num + 1 else num)"

text \<open>One step of \<open>__generic_fls\<close>: the top \<open>k\<close> bits are tested with \<open>~0ul << (BITS_PER_LONG - k)\<close>.\<close>

definition fls_step :: "nat \<Rightarrow> nat \<times> 'a :: len word \<Rightarrow> nat \<times> 'a word" where
  "fls_step k = (\<lambda>(num, word).
     if word AND push_bit (LENGTH('a) - k) (-1) = 0 then (num - k, push_bit k word) else (num, word))"

definition generic_fls32 :: "u32 \<Rightarrow> nat" where
  "generic_fls32 word =
     (if word = 0 then 0
      else let (num, w) = fls_step 2 (fls_step 4 (fls_step 8 (fls_step 16 (32, word))))
           in if w AND push_bit 31 (-1) = 0 then num - 1 else num)"

definition generic_fls64 :: "u64 \<Rightarrow> nat" where
  "generic_fls64 word =
     (if word = 0 then 0
      else let (num, w) = fls_step 2 (fls_step 4 (fls_step 8 (fls_step 16 (fls_step 32 (64, word)))))
           in if w AND push_bit 63 (-1) = 0 then num - 1 else num)"

definition ffz32 :: "u32 \<Rightarrow> nat" where
  "ffz32 x = generic_ffs32 (NOT x)"

definition flz32 :: "u32 \<Rightarrow> nat" where
  "flz32 x = generic_fls32 (NOT x)"

text \<open>
  The 64-bit variants as compiled with \<open>BITS_PER_LONG == 32\<close>. The guard of
  \<open>__generic_ffz64\<close> tests the macro name in lower case, which the preprocessor reads
  as 0, so that branch is never compiled.
\<close>

definition generic_ffs64_on32 :: "u64 \<Rightarrow> nat" where
  "generic_ffs64_on32 word =
     (if (ucast word :: u32) = 0 then generic_ffs32 (ucast (drop_bit 32 word)) + 32
      else generic_ffs32 (ucast word))"

definition generic_fls64_on32 :: "u64 \<Rightarrow> nat" where
  "generic_fls64_on32 word =
     (if (ucast word :: u32) = 0 then generic_fls32 (ucast (drop_bit 32 word)) + 32
      else generic_fls32 (ucast word))"

definition generic_ffz64_on32 :: "u64 \<Rightarrow> nat" where
  "generic_ffz64_on32 word = ffz32 (ucast word)"

definition generic_flz64_on32 :: "u64 \<Rightarrow> nat" where
  "generic_flz64_on32 word =
     (if (ucast word :: u32) = 0 then flz32 (ucast (drop_bit 32 word)) + 32
      else flz32 (ucast word))"

definition hweight32 :: "u32 \<Rightarrow> u32" where
  "hweight32 w =
     (let res = w - (drop_bit 1 w AND 0x55555555);
          res = (res AND 0x33333333) + (drop_bit 2 res AND 0x33333333);
          res = (res + drop_bit 4 res) AND 0x0F0F0F0F;
          res = res + drop_bit 8 res
      in (res + drop_bit 16 res) AND 0xFF)"

definition hweight64_on32 :: "u64 \<Rightarrow> u32" where
  "hweight64_on32 w = hweight32 (ucast (drop_bit 32 w)) + hweight32 (ucast w)"

definition hweight64 :: "u64 \<Rightarrow> u32" where
  "hweight64 w =
     (let res = w - (drop_bit 1 w AND 0x5555555555555555);
          res = (res AND 0x3333333333333333) + (drop_bit 2 res AND 0x3333333333333333);
          res = (res + drop_bit 4 res) AND 0x0F0F0F0F0F0F0F0F;
          res = res + drop_bit 8 res;
          res = res + drop_bit 16 res
      in ucast ((res + drop_bit 32 res) AND 0xFF))"

definition count_zero_bits :: "u64 \<Rightarrow> u32" where
  "count_zero_bits x = hweight64 (NOT x)"

subsection \<open>MIPS\<close>

text \<open>The instructions \<open>clz\<close> and \<open>clo\<close>: the number of leading zeros and of leading ones.\<close>

primrec clz_below :: "'a :: len word \<Rightarrow> nat \<Rightarrow> nat" where
  "clz_below w 0 = 0"
| "clz_below w (Suc n) = (if bit w n then 0 else Suc (clz_below w n))"

definition clz :: "u32 \<Rightarrow> nat" where
  "clz w = clz_below w 32"

definition clo :: "u32 \<Rightarrow> nat" where
  "clo w = clz (NOT w)"

definition mips_fls :: "u32 \<Rightarrow> nat" where
  "mips_fls x = 32 - clz x"

definition mips_ffs :: "u32 \<Rightarrow> nat" where
  "mips_ffs x = mips_fls (x AND (- x))"

definition mips_flz :: "u32 \<Rightarrow> nat" where
  "mips_flz x = 32 - clo x"

definition mips_ffz :: "u32 \<Rightarrow> nat" where
  "mips_ffz x = mips_flz (NOT (NOT x AND (- NOT x)))"

subsection \<open>i386\<close>

text \<open>
  The instructions \<open>bsf\<close> and \<open>bsr\<close>: the index of the lowest and of the highest set bit, and
  \<open>None\<close> with the zero flag set. The \<open>jnz\<close> after them loads -1 in the second case.
\<close>

definition bsf :: "u32 \<Rightarrow> nat option" where
  "bsf w = find (bit w) [0..<32]"

definition bsr :: "u32 \<Rightarrow> nat option" where
  "bsr w = find (bit w) (rev [0..<32])"

definition i386_ffs :: "u32 \<Rightarrow> int" where
  "i386_ffs x = (case bsf x of Some r \<Rightarrow> int r | None \<Rightarrow> -1) + 1"

definition i386_fls :: "u32 \<Rightarrow> int" where
  "i386_fls x = (case bsr x of Some r \<Rightarrow> int r | None \<Rightarrow> -1) + 1"

definition i386_ffz :: "u32 \<Rightarrow> int" where
  "i386_ffz x = i386_ffs (NOT x)"

definition i386_flz :: "u32 \<Rightarrow> int" where
  "i386_flz x = i386_fls (NOT x)"

section \<open>What the searches find\<close>

definition first_bit :: "'a :: len word \<Rightarrow> nat \<Rightarrow> bool" where
  "first_bit w p \<longleftrightarrow> bit w p \<and> (\<forall>i < p. \<not> bit w i)"

definition last_bit :: "'a :: len word \<Rightarrow> nat \<Rightarrow> bool" where
  "last_bit w p \<longleftrightarrow> bit w p \<and> (\<forall>i > p. \<not> bit w i)"

lemma first_bit_exists: "w \<noteq> 0 \<Longrightarrow> \<exists>p. first_bit w p"
proof -
  assume "w \<noteq> 0"
  then obtain n where "bit w n" by (metis bit_eq_iff bit_0_eq bot_fun_def bot_bool_def)
  then have "first_bit w (LEAST n. bit w n)"
    unfolding first_bit_def using LeastI [of "bit w"] not_less_Least by blast
  then show ?thesis by blast
qed

lemma first_bit_unique: "first_bit w p \<Longrightarrow> first_bit w q \<Longrightarrow> p = q"
  unfolding first_bit_def by (metis linorder_neqE_nat)

lemma first_bit_less: "first_bit (w :: 'a :: len word) p \<Longrightarrow> p < LENGTH('a)"
  unfolding first_bit_def using bit_imp_le_length by blast

lemma last_bit_exists: "w \<noteq> 0 \<Longrightarrow> \<exists>p. last_bit (w :: 'a :: len word) p"
proof -
  assume "w \<noteq> 0"
  then obtain n where "bit w n" by (metis bit_eq_iff bit_0_eq bot_fun_def bot_bool_def)
  moreover have "finite {i. bit w i}"
    by (rule finite_subset [of _ "{..< LENGTH('a)}"]) (auto dest: bit_imp_le_length)
  ultimately have "last_bit w (Max {i. bit w i})"
    unfolding last_bit_def using Max_in [of "{i. bit w i}"] Max_ge [of "{i. bit w i}"]
    by (metis (no_types, lifting) empty_iff leD mem_Collect_eq)
  then show ?thesis by blast
qed

lemma and_mask_eq_0_iff: "w AND mask k = 0 \<longleftrightarrow> (\<forall>i < k. \<not> bit (w :: 'a :: len word) i)"
  by (auto simp: bit_eq_iff bit_simps) (meson bit_imp_le_length)

lemma ffs_step_first_bit:
  assumes "first_bit w p" and "p < 2 * k"
  shows "\<exists>q. first_bit (snd (ffs_step k (num, w))) q \<and> q < k \<and>
    fst (ffs_step k (num, w)) + q = num + p"
proof (cases "w AND mask k = 0")
  case True
  then have "k \<le> p" using assms(1) unfolding and_mask_eq_0_iff first_bit_def by (meson not_le)
  moreover have "first_bit (drop_bit k w) (p - k)"
    using assms(1) \<open>k \<le> p\<close> unfolding first_bit_def by (auto simp: bit_simps)
  ultimately show ?thesis using True assms(2) by (auto simp: ffs_step_def)
next
  case False
  then have "p < k" using assms(1) unfolding and_mask_eq_0_iff first_bit_def
    by (metis linorder_neqE_nat order.strict_trans)
  then show ?thesis using False assms(1) by (auto simp: ffs_step_def)
qed

lemma ffs_final:
  assumes "first_bit w q" and "q < 2" and "num + q = Suc p"
  shows "(if w AND 1 = 0 then num + 1 else num) = Suc p"
proof -
  have "w AND 1 = 0 \<longleftrightarrow> \<not> bit w 0" by (simp add: and_one_eq bit_0 even_iff_mod_2_eq_zero)
  moreover have "q = 0 \<longleftrightarrow> bit w 0"
    using assms(1) unfolding first_bit_def by (metis bot_nat_0.not_eq_extremum)
  ultimately show ?thesis using assms(2,3) by auto
qed

lemma ffs_step_chain:
  assumes "first_bit w q" and "q < 2 * k" and "num + q = m"
  obtains n' w' q' where "ffs_step k (num, w) = (n', w')" "first_bit w' q'" "q' < k" "n' + q' = m"
  using ffs_step_first_bit [OF assms(1,2), of num] assms(3) by (metis prod.collapse)

lemma ffs_tail:
  assumes "first_bit w q" and "q < 32" and "num + q = Suc p"
  shows "(case ffs_step 2 (ffs_step 4 (ffs_step 8 (ffs_step 16 (num, w)))) of
     (num, w) \<Rightarrow> if w AND 1 = 0 then num + 1 else num) = Suc p"
proof -
  obtain n1 w1 q1 where s1: "ffs_step 16 (num, w) = (n1, w1)"
    and q1: "first_bit w1 q1" "q1 < 16" "n1 + q1 = Suc p"
    by (rule ffs_step_chain [OF assms(1) _ assms(3), of 16]) (use assms(2) in auto)
  obtain n2 w2 q2 where s2: "ffs_step 8 (n1, w1) = (n2, w2)"
    and q2: "first_bit w2 q2" "q2 < 8" "n2 + q2 = Suc p"
    by (rule ffs_step_chain [OF q1(1) _ q1(3), of 8]) (use q1(2) in auto)
  obtain n3 w3 q3 where s3: "ffs_step 4 (n2, w2) = (n3, w3)"
    and q3: "first_bit w3 q3" "q3 < 4" "n3 + q3 = Suc p"
    by (rule ffs_step_chain [OF q2(1) _ q2(3), of 4]) (use q2(2) in auto)
  obtain n4 w4 q4 where s4: "ffs_step 2 (n3, w3) = (n4, w4)"
    and q4: "first_bit w4 q4" "q4 < 2" "n4 + q4 = Suc p"
    by (rule ffs_step_chain [OF q3(1) _ q3(3), of 2]) (use q3(2) in auto)
  show ?thesis using ffs_final [OF q4] by (simp add: s1 s2 s3 s4)
qed

lemma generic_ffs32_first_bit: "first_bit w p \<Longrightarrow> generic_ffs32 w = Suc p"
  using ffs_tail [of w p 1 p] first_bit_less [of w p]
  by (auto simp: generic_ffs32_def first_bit_def)

lemma generic_ffs64_first_bit:
  assumes "first_bit w p"
  shows "generic_ffs64 w = Suc p"
proof -
  obtain n0 w0 q0 where s0: "ffs_step 32 (1, w) = (n0, w0)"
    and q0: "first_bit w0 q0" "q0 < 32" "n0 + q0 = Suc p"
    by (rule ffs_step_chain [OF assms, of 32 1 "Suc p"]) (use first_bit_less [OF assms] in auto)
  have "w \<noteq> 0" using assms by (auto simp: first_bit_def)
  with s0 ffs_tail [OF q0] show ?thesis by (simp add: generic_ffs64_def)
qed

lemma and_high_eq_0_iff:
  assumes "k \<le> LENGTH('a)"
  shows "w AND push_bit (LENGTH('a) - k) (-1) = 0 \<longleftrightarrow>
    (\<forall>i \<ge> LENGTH('a) - k. \<not> bit (w :: 'a :: len word) i)"
  by (auto simp: bit_eq_iff bit_simps) (meson bit_imp_le_length linorder_not_le)+

lemma fls_step_chain:
  assumes "last_bit (w :: 'a :: len word) q" and "LENGTH('a) - 2 * k \<le> q" and "2 * k \<le> LENGTH('a)"
    and "num + q = LENGTH('a) + p"
  obtains n' w' q' where "fls_step k (num, w) = (n', w')" "last_bit w' q'"
    "LENGTH('a) - k \<le> q'" "n' + q' = LENGTH('a) + p"
proof (cases "w AND push_bit (LENGTH('a) - k) (-1) = 0")
  case True
  then have less: "q < LENGTH('a) - k"
    using assms(1,3) by (subst (asm) and_high_eq_0_iff) (auto simp: last_bit_def not_le [symmetric])
  then have "last_bit (push_bit k w) (q + k)"
    using assms(1) unfolding last_bit_def by (auto simp: bit_simps)
  with True less assms(2-4) that [of "num - k" "push_bit k w" "q + k"] show ?thesis
    by (auto simp: fls_step_def)
next
  case False
  then have "LENGTH('a) - k \<le> q"
    using assms(1,3) by (subst (asm) and_high_eq_0_iff) (auto simp: last_bit_def intro: leI order.trans)
  with False assms(1,4) that [of num w q] show ?thesis by (auto simp: fls_step_def)
qed

lemma last_bit_less: "last_bit (w :: 'a :: len word) p \<Longrightarrow> p < LENGTH('a)"
  unfolding last_bit_def using bit_imp_le_length by blast

lemma fls_final:
  assumes "last_bit (w :: 'a :: len word) q" and "LENGTH('a) - 2 \<le> q" and "num + q = LENGTH('a) + p"
    and "2 \<le> LENGTH('a)"
  shows "(if w AND push_bit (LENGTH('a) - 1) (-1) = 0 then num - 1 else num) = Suc p"
proof -
  have "w AND push_bit (LENGTH('a) - 1) (-1) = 0 \<longleftrightarrow> q \<noteq> LENGTH('a) - 1"
    using assms(1) last_bit_less [OF assms(1)] by (subst and_high_eq_0_iff)
      (auto simp: last_bit_def Suc_le_eq not_less_eq)
  then show ?thesis using assms(2-4) last_bit_less [OF assms(1)] by auto
qed

lemma fls_tail:
  assumes "last_bit (w :: 'a :: len word) q" and "LENGTH('a) - 32 \<le> q" and "32 \<le> LENGTH('a)"
    and "num + q = LENGTH('a) + p"
  shows "(case fls_step 2 (fls_step 4 (fls_step 8 (fls_step 16 (num, w)))) of
     (num, w) \<Rightarrow> if w AND push_bit (LENGTH('a) - 1) (-1) = 0 then num - 1 else num) = Suc p"
proof -
  obtain n1 w1 q1 where s1: "fls_step 16 (num, w) = (n1, w1)"
    and q1: "last_bit w1 q1" "LENGTH('a) - 16 \<le> q1" "n1 + q1 = LENGTH('a) + p"
    by (rule fls_step_chain [OF assms(1) _ _ assms(4), of 16]) (use assms(2,3) in auto)
  obtain n2 w2 q2 where s2: "fls_step 8 (n1, w1) = (n2, w2)"
    and q2: "last_bit w2 q2" "LENGTH('a) - 8 \<le> q2" "n2 + q2 = LENGTH('a) + p"
    by (rule fls_step_chain [OF q1(1) _ _ q1(3), of 8]) (use q1(2) assms(3) in auto)
  obtain n3 w3 q3 where s3: "fls_step 4 (n2, w2) = (n3, w3)"
    and q3: "last_bit w3 q3" "LENGTH('a) - 4 \<le> q3" "n3 + q3 = LENGTH('a) + p"
    by (rule fls_step_chain [OF q2(1) _ _ q2(3), of 4]) (use q2(2) assms(3) in auto)
  obtain n4 w4 q4 where s4: "fls_step 2 (n3, w3) = (n4, w4)"
    and q4: "last_bit w4 q4" "LENGTH('a) - 2 \<le> q4" "n4 + q4 = LENGTH('a) + p"
    by (rule fls_step_chain [OF q3(1) _ _ q3(3), of 2]) (use q3(2) assms(3) in auto)
  show ?thesis using fls_final [OF q4] assms(3) by (simp add: s1 s2 s3 s4)
qed

lemma generic_fls32_last_bit: "last_bit w p \<Longrightarrow> generic_fls32 w = Suc p"
  using fls_tail [of w p 32 p] by (auto simp: generic_fls32_def last_bit_def)

lemma generic_fls64_last_bit:
  assumes "last_bit w p"
  shows "generic_fls64 w = Suc p"
proof -
  obtain n0 w0 q0 where s0: "fls_step 32 (64, w) = (n0, w0)"
    and q0: "last_bit w0 q0" "LENGTH(64) - 32 \<le> q0" "n0 + q0 = LENGTH(64) + p"
    by (rule fls_step_chain [OF assms, of 32 64 p]) auto
  have "w \<noteq> 0" using assms by (auto simp: last_bit_def)
  with s0 fls_tail [OF q0(1,2) _ q0(3)] show ?thesis by (simp add: generic_fls64_def)
qed

lemma generic_zero [simp]:
  "generic_ffs32 0 = 0" "generic_fls32 0 = 0" "generic_ffs64 0 = 0" "generic_fls64 0 = 0"
  by (simp_all add: generic_ffs32_def generic_fls32_def generic_ffs64_def generic_fls64_def)

section \<open>The architectures' versions agree with the portable ones\<close>

lemma clz_below_last_bit: "last_bit w p \<Longrightarrow> p < n \<Longrightarrow> clz_below w n = n - 1 - p"
  by (induction n) (auto simp: last_bit_def less_Suc_eq)

lemma clz_below_zero: "clz_below 0 n = n"
  by (induction n) auto

lemma mips_fls_eq: "mips_fls w = generic_fls32 w"
proof (cases "w = 0")
  case True
  then show ?thesis by (simp add: mips_fls_def clz_def clz_below_zero)
next
  case False
  then obtain p where p: "last_bit w p" using last_bit_exists by blast
  then have "p < 32" using last_bit_less [of w p] by simp
  with p show ?thesis
    by (simp add: mips_fls_def clz_def clz_below_last_bit generic_fls32_last_bit)
qed

text \<open>\<open>x & -x\<close> keeps the lowest set bit of \<open>x\<close> only.\<close>

lemma and_uminus_odd: "odd (a :: 'a :: len word) \<Longrightarrow> a AND - a = 1"
proof -
  assume odd: "odd a"
  then have "a - 1 = a AND NOT 1"
    by (intro disjunctive_diff) (auto simp: bit_1_iff bit_0)
  then have "- a = NOT a OR 1"
    using minus_eq_not_minus_1 [of a] by (simp only: bit.de_Morgan_conj bit.double_compl)
  then have "a AND - a = a AND 1"
    by (simp only: bit.conj_disj_distrib bit.conj_cancel_right or.left_neutral)
  with odd show ?thesis by (simp add: and_one_eq odd_iff_mod_2_eq_one)
qed

lemma and_uminus_first_bit:
  assumes "first_bit (w :: 'a :: len word) p"
  shows "w AND - w = push_bit p 1"
proof -
  let ?a = "drop_bit p w"
  have w: "w = push_bit p ?a"
  proof (rule bit_word_eqI)
    fix n assume "n < LENGTH('a)"
    moreover have "p \<le> n" if "bit w n" using assms that by (meson first_bit_def leI)
    ultimately show "bit w n = bit (push_bit p ?a) n" by (auto simp: bit_simps)
  qed
  have "odd ?a" using assms by (simp add: first_bit_def bit_simps flip: bit_0)
  then have "?a AND - ?a = 1" by (rule and_uminus_odd)
  moreover have "- w = push_bit p (- ?a)" by (subst w) (simp add: push_bit_eq_mult)
  ultimately show ?thesis using w by (metis push_bit_and)
qed

lemma mips_ffs_eq: "mips_ffs w = generic_ffs32 w"
proof (cases "w = 0")
  case True
  then show ?thesis by (simp add: mips_ffs_def mips_fls_eq)
next
  case False
  then obtain p where p: "first_bit w p" using first_bit_exists by blast
  then have "p < 32" using first_bit_less [of w p] by simp
  then have "last_bit (push_bit p 1 :: u32) p" by (auto simp: last_bit_def bit_simps)
  with p show ?thesis
    by (simp add: mips_ffs_def mips_fls_eq and_uminus_first_bit generic_fls32_last_bit
        generic_ffs32_first_bit)
qed

lemma mips_z_eq: "mips_flz x = flz32 x" "mips_ffz x = ffz32 x"
proof -
  show flz: "mips_flz x = flz32 x" for x
    using mips_fls_eq [of "NOT x"] by (simp add: mips_flz_def mips_fls_def clo_def flz32_def)
  show "mips_ffz x = ffz32 x"
    using mips_ffs_eq [of "NOT x"] unfolding mips_ffz_def flz ffz32_def
    by (simp add: flz32_def mips_ffs_def mips_fls_eq)
qed

lemma bsf_conv: "bsf w = (if w = 0 then None else Some (generic_ffs32 w - 1))"
proof (cases "w = 0")
  case True
  then show ?thesis by (simp add: bsf_def find_None_iff)
next
  case False
  then obtain p where p: "first_bit w p" using first_bit_exists by blast
  then have "p < 32" using first_bit_less [of w p] by simp
  with p have "bsf w = Some p"
    by (auto simp: bsf_def find_Some_iff first_bit_def intro!: exI [of _ p])
  with p False show ?thesis by (simp add: generic_ffs32_first_bit)
qed

lemma bsr_conv: "bsr w = (if w = 0 then None else Some (generic_fls32 w - 1))"
proof (cases "w = 0")
  case True
  then show ?thesis by (simp add: bsr_def find_None_iff del: upt_Suc)
next
  case False
  then obtain p where p: "last_bit w p" using last_bit_exists by blast
  then have "p < 32" using last_bit_less [of w p] by simp
  with p have "bsr w = Some p"
    by (auto simp: bsr_def find_Some_iff last_bit_def rev_nth intro!: exI [of _ "31 - p"] simp del: upt_Suc)
  with p False show ?thesis by (simp add: generic_fls32_last_bit)
qed

section \<open>64-bit searches on a 32-bit machine\<close>

lemma low_word_eq_0_iff: "(ucast (w :: u64) :: u32) = 0 \<longleftrightarrow> (\<forall>i < 32. \<not> bit w i)"
  by (auto simp: bit_eq_iff bit_simps)

lemma generic_ffs64_on32_eq: "w \<noteq> 0 \<Longrightarrow> generic_ffs64_on32 w = generic_ffs64 w"
proof -
  assume "w \<noteq> 0"
  then obtain p where p: "first_bit w p" using first_bit_exists by blast
  then have bound: "p < 64" using first_bit_less [of w p] by simp
  show ?thesis
  proof (cases "p < 32")
    case True
    with p have "first_bit (ucast w :: u32) p" "(ucast w :: u32) \<noteq> 0"
      by (auto simp: first_bit_def bit_simps low_word_eq_0_iff)
    then show ?thesis
      using p by (simp add: generic_ffs64_on32_def generic_ffs32_first_bit generic_ffs64_first_bit)
  next
    case False
    with p bound have "first_bit (ucast (drop_bit 32 w) :: u32) (p - 32)" "(ucast w :: u32) = 0"
      by (auto simp: first_bit_def bit_simps low_word_eq_0_iff)
    then show ?thesis
      using p False
      by (simp add: generic_ffs64_on32_def generic_ffs32_first_bit generic_ffs64_first_bit)
  qed
qed

text \<open>
  On a 32-bit machine \<open>ffs64\<close> finds the lowest set bit of every non-zero word, but
  its sibling \<open>fls64\<close> tests the low half where the high half decides: whenever the low
  half is not 0 the answer is the one for the low half alone, and for 0 both return 32.
\<close>

theorem ffs64_fls64_on_32_bit:
  "(w \<noteq> 0 \<longrightarrow> generic_ffs64_on32 w = generic_ffs64 w) \<and>
   ((ucast w :: u32) \<noteq> 0 \<longrightarrow> generic_fls64_on32 w = generic_fls32 (ucast w)) \<and>
   generic_ffs64_on32 0 = 32 \<and> generic_fls64_on32 0 = 32"
  using generic_ffs64_on32_eq by (simp add: generic_fls64_on32_def generic_ffs64_on32_def)

theorem ffs64_fls64_on_32_bit_witness:
  "generic_ffs64_on32 0x100000000 = generic_ffs64 0x100000000 \<and>
   generic_fls64_on32 0x100000001 = 1 \<and> generic_fls64 0x100000001 = 33"
proof -
  have "generic_fls32 1 = 1" "generic_fls64 0x100000001 = 33" "generic_fls32 0x100000001 = 1"
    by code_simp+
  then show ?thesis
    using ffs64_fls64_on_32_bit [of "0x100000000"] ffs64_fls64_on_32_bit [of "0x100000001"] by simp
qed

text \<open>
  The bit searches of the three architectures are the same functions: the \<open>clz\<close>-based
  ones of MIPS and the \<open>bsf\<close>/\<open>bsr\<close>-based ones of i386 return what the portable routines
  return, for every word, 0 and all ones included.
\<close>

theorem arch_bitops_agree:
  "mips_fls x = generic_fls32 x \<and> mips_ffs x = generic_ffs32 x \<and>
   mips_flz x = flz32 x \<and> mips_ffz x = ffz32 x \<and>
   i386_fls x = int (generic_fls32 x) \<and> i386_ffs x = int (generic_ffs32 x) \<and>
   i386_flz x = int (flz32 x) \<and> i386_ffz x = int (ffz32 x)"
proof -
  have pos: "w \<noteq> 0 \<Longrightarrow> 0 < generic_ffs32 w \<and> 0 < generic_fls32 w" for w
    by (metis first_bit_exists last_bit_exists generic_ffs32_first_bit generic_fls32_last_bit
        zero_less_Suc)
  have "i386_ffs w = int (generic_ffs32 w)" "i386_fls w = int (generic_fls32 w)" for w
    using pos [of w] by (auto simp: i386_ffs_def i386_fls_def bsf_conv bsr_conv of_nat_diff)
  then show ?thesis
    by (simp add: mips_fls_eq mips_ffs_eq mips_z_eq i386_ffz_def i386_flz_def ffz32_def flz32_def)
qed

lemma search_characterisation:
  assumes "w \<noteq> z \<Longrightarrow> \<exists>q. P w q" and eq: "\<And>q. P w q \<Longrightarrow> f w = Suc q"
    and "f z = 0" and "\<And>q. \<not> P z q"
  shows "(f w = 0 \<longleftrightarrow> w = z) \<and> (f w = Suc p \<longleftrightarrow> P w p)"
proof (cases "w = z")
  case True
  with assms(3,4) show ?thesis by simp
next
  case False
  with assms(1) obtain q where q: "P w q" by blast
  then have "f w = Suc q" by (rule eq)
  then show ?thesis using False q eq [of p] assms(3) by (metis nat.distinct(1) nat.inject)
qed

lemma no_bit_0: "\<not> first_bit 0 q" "\<not> last_bit 0 q"
  by (simp_all add: first_bit_def last_bit_def)

text \<open>
  \<open>__generic_ffs\<close> returns 0 exactly for 0 and otherwise the 1-based position of the
  least significant set bit; \<open>__generic_fls\<close> does the same for the most significant one,
  for both widths of \<open>unsigned long\<close>.
\<close>

theorem generic_ffs_fls_correct:
  "(generic_ffs32 w = 0 \<longleftrightarrow> w = 0) \<and> (generic_ffs32 w = Suc p \<longleftrightarrow> first_bit w p) \<and>
   (generic_fls32 w = 0 \<longleftrightarrow> w = 0) \<and> (generic_fls32 w = Suc p \<longleftrightarrow> last_bit w p) \<and>
   (generic_ffs64 v = 0 \<longleftrightarrow> v = 0) \<and> (generic_ffs64 v = Suc p \<longleftrightarrow> first_bit v p) \<and>
   (generic_fls64 v = 0 \<longleftrightarrow> v = 0) \<and> (generic_fls64 v = Suc p \<longleftrightarrow> last_bit v p)"
  using search_characterisation [of w 0 first_bit generic_ffs32 p, OF first_bit_exists
      generic_ffs32_first_bit generic_zero(1) no_bit_0(1)]
    search_characterisation [of w 0 last_bit generic_fls32 p, OF last_bit_exists
      generic_fls32_last_bit generic_zero(2) no_bit_0(2)]
    search_characterisation [of v 0 first_bit generic_ffs64 p, OF first_bit_exists
      generic_ffs64_first_bit generic_zero(3) no_bit_0(1)]
    search_characterisation [of v 0 last_bit generic_fls64 p, OF last_bit_exists
      generic_fls64_last_bit generic_zero(4) no_bit_0(2)]
  by simp

end
