(* ===== verification/Hweight.thy ===== *)
theory Hweight
  imports Bitops
begin

text \<open>
  The Hamming weight of \<open>include/bitops.h\<close>: the routines that add neighbouring fields of a word in
  parallel count the bits that are set. A word is a list of digits in base \<open>2 ^ k\<close>; a step of the
  routines is an operation on the list.
\<close>

section \<open>Words as lists of digits\<close>

primrec fields :: "nat \<Rightarrow> nat list \<Rightarrow> nat" where
  "fields k [] = 0"
| "fields k (d # ds) = d + 2 ^ k * fields k ds"

lemma sq2: "(2 :: nat) ^ (2 * k) = 2 ^ k * 2 ^ k"
  by (simp add: mult_2 power_add)

lemma high_bit_zero:
  assumes "a < 2 ^ k" "k \<le> n"
  shows "\<not> bit (a :: nat) n"
proof -
  have "(2 :: nat) ^ k \<le> 2 ^ n" using assms(2) by (rule power_increasing) simp
  then have "a < 2 ^ n" using assms(1) by linarith
  then show ?thesis by (simp add: bit_iff_odd)
qed

lemma bit_digit:
  assumes "a < 2 ^ k"
  shows "bit (a + 2 ^ k * z :: nat) n \<longleftrightarrow> (if n < k then bit a n else bit z (n - k))"
proof -
  have "a AND push_bit k z = 0" using high_bit_zero [OF assms] by (intro bit_eqI) (auto simp: bit_simps not_less)
  then have "a + 2 ^ k * z = a OR push_bit k z" by (simp add: disjunctive_add_eq_or [symmetric] push_bit_eq_mult mult.commute)
  then show ?thesis using high_bit_zero [OF assms] by (auto simp: bit_simps not_less)
qed

lemma digit_and:
  assumes "d < 2 ^ k" "e < 2 ^ k"
  shows "(d + 2 ^ k * x) AND (e + 2 ^ k * y) = (d AND e) + 2 ^ k * (x AND y :: nat)"
proof (rule bit_eqI)
  fix n
  have "d AND e = take_bit k (d AND e)" using assms by (simp add: take_bit_and take_bit_nat_eq_self)
  then have de: "d AND e < 2 ^ k" by (metis take_bit_nat_less_exp)
  show "bit ((d + 2 ^ k * x) AND (e + 2 ^ k * y)) n = bit ((d AND e) + 2 ^ k * (x AND y)) n"
    unfolding bit_and_iff bit_digit [OF assms(1)] bit_digit [OF assms(2)] bit_digit [OF de] by auto
qed

lemma fields_and:
  assumes "length ds = length es" "\<forall>d \<in> set ds. d < 2 ^ k" "\<forall>e \<in> set es. e < 2 ^ k"
  shows "fields k ds AND fields k es = fields k (map2 (AND) ds es)"
  using assms by (induction ds es rule: list_induct2) (simp_all add: digit_and)

lemma fields_drop:
  assumes "d < 2 ^ k"
  shows "drop_bit k (fields k (d # ds)) = fields k ds"
  using assms by (simp add: drop_bit_eq_div)

lemma fields_drop_many:
  assumes "\<forall>d \<in> set ds. d < 2 ^ k"
  shows "drop_bit (k * m) (fields k ds) = fields k (drop m ds)"
  using assms
proof (induction m arbitrary: ds)
  case (Suc m)
  then show ?case
  proof (cases ds)
    case (Cons d xs)
    have "drop_bit (k * Suc m) (fields k ds) = drop_bit (k * m) (drop_bit k (fields k (d # xs)))"
      unfolding drop_bit_drop_bit Cons by (simp add: add.commute)
    also have "drop_bit k (fields k (d # xs)) = fields k xs" using Suc.prems Cons by (intro fields_drop) simp
    finally show ?thesis using Suc Cons by simp
  qed simp
qed simp

lemma fields_less:
  assumes "\<forall>d \<in> set ds. d < 2 ^ k"
  shows "fields k ds < 2 ^ (k * length ds)"
  using assms
proof (induction ds)
  case (Cons d ds)
  then have "Suc (fields k ds) \<le> 2 ^ (k * length ds)" by simp
  then have "2 ^ k * Suc (fields k ds) \<le> 2 ^ k * 2 ^ (k * length ds)" by (rule mult_le_mono2)
  moreover have "d < 2 ^ k" using Cons.prems by simp
  ultimately show ?case by (simp add: power_add)
qed simp

text \<open>The digits at even and at odd places, and the sums of neighbours.\<close>

fun evens :: "nat list \<Rightarrow> nat list" where
  "evens (a # b # xs) = a # evens xs" | "evens xs = []"

fun odds :: "nat list \<Rightarrow> nat list" where
  "odds (a # b # xs) = b # odds xs" | "odds xs = []"

fun pairs :: "nat list \<Rightarrow> nat list" where
  "pairs (a # b # xs) = (a + b) # pairs xs" | "pairs xs = []"

definition low_fields :: "nat \<Rightarrow> nat \<Rightarrow> nat" where
  "low_fields k n = fields (2 * k) (replicate n (2 ^ k - 1))"

lemma low_fields_rec [simp]:
  "low_fields k 0 = 0" "low_fields k (Suc n) = 2 ^ k - 1 + 2 ^ (2 * k) * low_fields k n"
  "low_fields k (numeral m) = 2 ^ k - 1 + 2 ^ (2 * k) * low_fields k (pred_numeral m)"
  by (simp_all add: low_fields_def numeral_eq_Suc)

lemma fields_split: "even (length ds) \<Longrightarrow> fields k ds = fields (2 * k) (evens ds) + 2 ^ k * fields (2 * k) (odds ds)"
  by (induction ds rule: evens.induct) (simp_all add: sq2 distrib_left mult.assoc mult.left_commute)

lemma fields_pairs: "even (length ds) \<Longrightarrow> fields k (pairs ds) = fields k (evens ds) + fields k (odds ds)"
  by (induction ds rule: evens.induct) (simp_all add: algebra_simps)

lemma pairs_props:
  assumes "even (length ds)"
  shows "sum_list (pairs ds) = sum_list ds" "length (pairs ds) = length ds div 2"
    "\<forall>d \<in> set ds. d \<le> c \<Longrightarrow> \<forall>d \<in> set (pairs ds). d \<le> 2 * c"
  using assms by (induction ds rule: evens.induct) (auto simp: add.assoc)

lemma select_even:
  assumes "\<forall>d \<in> set ds. d < 2 ^ k" "length ds = 2 * n"
  shows "fields k ds AND low_fields k n = fields (2 * k) (evens ds)"
  using assms
proof (induction ds arbitrary: n rule: evens.induct)
  case (1 a b xs)
  then obtain m where m: "n = Suc m" "length xs = 2 * m" by (cases n) auto
  have ab: "a < 2 ^ k" "b < 2 ^ k" using 1 by simp_all
  have "Suc a \<le> 2 ^ k" "Suc b \<le> 2 ^ k" using ab by simp_all
  then have "a + 2 ^ k * b < 2 ^ k + 2 ^ k * b" "2 ^ k * Suc b \<le> 2 ^ k * 2 ^ k" by (simp_all del: mult_Suc_right)
  then have s1: "a + 2 ^ k * b < 2 ^ (2 * k)" unfolding sq2 by simp
  have "(2 :: nat) ^ k * 1 \<le> 2 ^ k * 2 ^ k" by (rule mult_le_mono2) simp
  then have s2: "(2 :: nat) ^ k - 1 < 2 ^ (2 * k)" unfolding sq2 by (simp add: less_eq_Suc_le)
  have "(a + 2 ^ k * b) AND (2 ^ k - 1) = a"
    using digit_and [OF ab(1), of "2 ^ k - 1" b 0] take_bit_nat_eq_self [OF ab(1)] by (simp add: take_bit_eq_mask mask_eq_exp_minus_1)
  moreover have "fields k (a # b # xs) = (a + 2 ^ k * b) + 2 ^ (2 * k) * fields k xs" by (simp add: sq2 distrib_left mult.assoc)
  moreover have "low_fields k n = (2 ^ k - 1) + 2 ^ (2 * k) * low_fields k m" by (simp add: low_fields_def m(1))
  ultimately show ?case using digit_and [OF s1 s2, of "fields k xs" "low_fields k m"] 1(1) [OF _ m(2)] 1(2) by (simp only:) simp
qed (simp_all add: low_fields_def)

lemma select_odd:
  assumes "\<forall>d \<in> set ds. d < 2 ^ k" "length ds = 2 * n"
  shows "drop_bit k (fields k ds) AND low_fields k n = fields (2 * k) (odds ds)"
proof (cases ds)
  case Nil
  then show ?thesis by simp
next
  case (Cons d xs)
  have "odds (a # zs) = evens (zs @ [x])" if "odd (length zs)" for a x zs
    using that by (induction zs arbitrary: a x rule: evens.induct) auto
  moreover have "odd (length xs)" using assms(2) Cons by (metis dvd_triv_left even_Suc length_Cons)
  ultimately have o: "odds ds = evens (xs @ [0])" using Cons by blast
  have "fields k (xs @ [0]) = fields k xs" by (induction xs) simp_all
  then show ?thesis using select_even [of "xs @ [0]" k n] assms Cons o fields_drop [of d k xs] by simp
qed

section \<open>Steps\<close>

text \<open>The three kinds of steps of the routines: each adds neighbouring fields.\<close>

lemma weigh_sub:
  assumes "\<forall>d \<in> set ds. d < 2" "length ds = 2 * n"
  shows "fields 1 ds - (drop_bit 1 (fields 1 ds) AND low_fields 1 n) = fields 2 (pairs ds)"
    and "drop_bit 1 (fields 1 ds) AND low_fields 1 n \<le> fields 1 ds"
  using select_odd [of ds 1 n] fields_split [of ds 1] fields_pairs [of ds 2] assms by simp_all

lemma weigh_mask:
  assumes "\<forall>d \<in> set ds. d < 2 ^ k" "length ds = 2 * n"
  shows "(fields k ds AND low_fields k n) + (drop_bit k (fields k ds) AND low_fields k n) = fields (2 * k) (pairs ds)"
  using select_even [OF assms] select_odd [OF assms] fields_pairs [of ds "2 * k"] assms(2) by simp

lemma shift_sum:
  assumes "\<forall>d \<in> set ds. d < 2 ^ k"
  shows "fields k ds + drop_bit k (fields k ds) = fields k (map2 (+) ds (tl ds @ [0]))"
proof (cases ds)
  case (Cons d xs)
  have "fields k (d # xs) + fields k xs = fields k (map2 (+) (d # xs) (xs @ [0]))" for d
  proof (induction xs arbitrary: d)
    case (Cons a xs)
    have "fields k (map2 (+) (d # a # xs) ((a # xs) @ [0])) = (d + a) + 2 ^ k * fields k (map2 (+) (a # xs) (xs @ [0]))" by simp
    also have "\<dots> = fields k (d # a # xs) + fields k (a # xs)" unfolding Cons.IH [symmetric] by (simp add: distrib_left)
    finally show ?case ..
  qed simp
  then show ?thesis using Cons fields_drop [of d k xs] assms by simp
qed simp

lemma shift_sum_bound:
  fixes c :: nat
  assumes "\<forall>d \<in> set ds. d \<le> c"
  shows "\<forall>d \<in> set (map2 (+) ds (tl ds @ [0])). d \<le> 2 * c" "length (map2 (+) ds (tl ds @ [0])) = length ds"
proof -
  have t: "\<forall>d \<in> set (tl ds @ [0]). d \<le> c" using assms by (cases ds) auto
  have "x + y \<le> c + c" if "(x, y) \<in> set (zip ds (tl ds @ [0]))" for x y
    using set_zip_leftD [OF that] set_zip_rightD [OF that] assms t by (intro add_mono) blast+
  then show "\<forall>d \<in> set (map2 (+) ds (tl ds @ [0])). d \<le> 2 * c" by (auto simp: mult_2)
  show "length (map2 (+) ds (tl ds @ [0])) = length ds" by (cases ds) simp_all
qed

lemma weigh_add:
  assumes "\<forall>d \<in> set ds. d \<le> c" "2 * c < 2 ^ k" "length ds = 2 * n"
  shows "(fields k ds + drop_bit k (fields k ds)) AND low_fields k n = fields (2 * k) (pairs ds)"
proof -
  have e: "evens (map2 (+) xs (tl xs @ [0])) = pairs xs" if "even (length xs)" for xs
  proof -
    have "evens (map2 (+) (a # xs) (xs @ [0])) = pairs (a # xs)" if "odd (length xs)" for a xs
      using that by (induction xs arbitrary: a rule: evens.induct) auto
    then show ?thesis using that by (cases xs) auto
  qed
  have "\<forall>d \<in> set (map2 (+) ds (tl ds @ [0])). d < 2 ^ k" using shift_sum_bound(1) [OF assms(1)] assms(2) by force
  moreover have "\<forall>d \<in> set ds. d < 2 ^ k" using assms(1,2) by force
  ultimately show ?thesis using select_even [of "map2 (+) ds (tl ds @ [0])" k n] shift_sum [of ds k] e [of ds]
      shift_sum_bound(2) [OF assms(1)] assms(3) by simp
qed

definition bits_of :: "'a :: len word \<Rightarrow> nat list" where
  "bits_of w = map (\<lambda>i. of_bool (bit w i)) [0..<LENGTH('a)]"

lemma fields_bits_of: "fields 1 (bits_of w) = unat (w :: 'a :: len word)"
proof -
  have h: "fields 1 (map of_bool bs) = horner_sum of_bool 2 bs" for bs by (induction bs) simp_all
  have "bits_of w = map of_bool (map (bit (unat w)) [0..<LENGTH('a)])" by (simp add: bits_of_def bit_unsigned_iff)
  then have "fields 1 (bits_of w) = take_bit LENGTH('a) (unat w)" by (simp only: h horner_sum_bit_eq_take_bit)
  then show ?thesis using take_bit_nat_eq_self [OF unat_bound [of w]] by simp
qed

lemma sum_bits_of: "sum_list (bits_of w) = card {i. bit (w :: 'a :: len word) i}"
proof -
  have "sum_list (bits_of w) = (\<Sum>i \<in> {0..<LENGTH('a)}. of_bool (bit w i))" by (simp add: bits_of_def interv_sum_list_conv_sum_set_nat)
  also have "\<dots> = card ({0..<LENGTH('a)} \<inter> {i. bit w i})" by (simp add: of_bool_def sum.If_cases)
  also have "{0..<LENGTH('a)} \<inter> {i. bit w i} = {i. bit w i}" by (auto simp: bit_imp_le_length)
  finally show ?thesis .
qed

lemma bits_of_props: "\<forall>d \<in> set (bits_of w). d \<le> 1" "length (bits_of (w :: 'a :: len word)) = LENGTH('a)"
  by (simp_all add: bits_of_def)

text \<open>The fields of 8 bits after the first three steps, for words of \<open>n\<close> bytes.\<close>

lemma weigh_bytes:
  fixes w :: "'a :: len word"
  assumes n: "LENGTH('a) = 8 * n" and m: "unat m1 = low_fields 1 (4 * n)" "unat m2 = low_fields 2 (2 * n)" "unat m3 = low_fields 4 n"
    and r1: "r1 = w - (drop_bit 1 w AND m1)" and r2: "r2 = (r1 AND m2) + (drop_bit 2 r1 AND m2)"
  shows "\<exists>fs. length fs = n \<and> sum_list fs = card {i. bit w i} \<and> (\<forall>f \<in> set fs. f \<le> 8) \<and>
    unat ((r2 + drop_bit 4 r2) AND m3) = fields 8 fs"
proof -
  let ?d1 = "bits_of w" let ?d2 = "pairs ?d1" let ?d3 = "pairs ?d2" let ?d4 = "pairs ?d3"
  have l: "length ?d1 = 8 * n" using bits_of_props(2) [of w] n by simp
  have p1: "sum_list ?d2 = sum_list ?d1" "length ?d2 = 4 * n" "\<forall>d \<in> set ?d2. d \<le> 2"
    using pairs_props(1,2) [of ?d1] pairs_props(3) [of ?d1 1] bits_of_props(1) [of w] l by simp_all
  have p2: "sum_list ?d3 = sum_list ?d1" "length ?d3 = 2 * n" "\<forall>d \<in> set ?d3. d \<le> 4"
    using pairs_props(1,2) [of ?d2] pairs_props(3) [of ?d2 2] p1 by simp_all
  have p3: "sum_list ?d4 = sum_list ?d1" "length ?d4 = n" "\<forall>d \<in> set ?d4. d \<le> 8"
    using pairs_props(1,2) [of ?d3] pairs_props(3) [of ?d3 4] p2 by simp_all
  have b1: "\<forall>d \<in> set ?d1. d < 2" using bits_of_props(1) [of w] by force
  have b2: "\<forall>d \<in> set ?d2. d < 2 ^ 2" using p1(3) by force
  have b3: "\<forall>d \<in> set ?d3. d < 2 ^ 4" using p2(3) by force
  have u: "unat (x AND y) = unat x AND unat y" "unat (drop_bit j x) = drop_bit j (unat x)" for x y :: "'a word" and j
    by (simp_all only: unsigned_and_eq unat_drop_bit_eq)
  note s = weigh_sub [OF b1, of "4 * n", unfolded fields_bits_of]
  have "unat r1 = unat w - unat (drop_bit 1 w AND m1)"
    unfolding r1 by (rule unat_sub) (use s(2) l in \<open>simp add: word_le_nat_alt u m\<close>)
  then have e1: "unat r1 = fields 2 ?d2" using s(1) l by (simp add: u m)
  have "fields 4 ?d3 < 2 ^ LENGTH('a)" using fields_less [OF b3] p2(2) n by simp
  then have e2: "unat r2 = fields 4 ?d3"
    using weigh_mask [OF b2, of "2 * n"] p1(2) unfolding r2 by (simp add: unat_word_ariths u m e1)
  have lt: "fields 4 ?d3 + drop_bit 4 (fields 4 ?d3) < 2 ^ LENGTH('a)"
  proof -
    have "\<forall>d \<in> set (map2 (+) ?d3 (tl ?d3 @ [0])). d < 2 ^ 4" using shift_sum_bound(1) [OF p2(3)] by force
    from fields_less [OF this] show ?thesis unfolding shift_sum_bound(2) [OF p2(3)] shift_sum [OF b3] p2(2) n by simp
  qed
  have "unat ((r2 + drop_bit 4 r2) AND m3) = fields 8 ?d4"
    using weigh_add [OF p2(3), of 4 n] p2(2) lt by (simp add: unat_word_ariths u m e2)
  then show ?thesis using p3 sum_bits_of [of w] by (intro exI [of _ ?d4]) simp
qed

section \<open>The routines\<close>

lemma byte_and: "unat (x AND 0xFF :: 'a :: len word) = unat x mod 256" if "8 < LENGTH('a)"
proof -
  have "(0xFF :: 'a word) = mask 8" by (simp add: mask_eq_exp_minus_1)
  then show ?thesis by (simp only: unat_and_mask) simp
qed

lemma hweight32_counts: "unat (hweight32 w) = card {i. bit w i}"
proof -
  define r1 where "r1 = w - (drop_bit 1 w AND 0x55555555)"
  define r2 where "r2 = (r1 AND 0x33333333) + (drop_bit 2 r1 AND 0x33333333)"
  define r3 where "r3 = (r2 + drop_bit 4 r2) AND 0x0F0F0F0F"
  have "unat (0x55555555 :: u32) = low_fields 1 (4 * 4)" "unat (0x33333333 :: u32) = low_fields 2 (2 * 4)"
    "unat (0x0F0F0F0F :: u32) = low_fields 4 4"
    by (simp_all add: low_fields_rec)
  from weigh_bytes [OF _ this r1_def r2_def, folded r3_def]
  obtain fs where f: "length fs = 4" "sum_list fs = card {i. bit w i}" "\<forall>f \<in> set fs. f \<le> 8" "unat r3 = fields 8 fs" by auto
  have "length fs = Suc (Suc (Suc (Suc 0)))" using f(1) by simp
  then obtain a b c d where fs: "fs = [a, b, c, d]" by (auto simp: length_Suc_conv)
  have "hweight32 w = (let r = r3 + drop_bit 8 r3 in (r + drop_bit 16 r) AND 0xFF)"
    by (simp add: hweight32_def r1_def r2_def r3_def Let_def)
  moreover have "unat (r + drop_bit 16 r) mod 256 = a + b + c + d" if r: "r = r3 + drop_bit 8 r3" for r
  proof -
    have l: "a \<le> 8" "b \<le> 8" "c \<le> 8" "d \<le> 8" using f(3) fs by simp_all
    have "drop_bit 8 (fields 8 [a, b, c, d]) = fields 8 [b, c, d]" using l by (intro fields_drop) simp
    then have y: "unat r = fields 8 [a + b, b + c, c + d, d]" using l f(4) fs by (simp add: r unat_word_ariths unat_drop_bit_eq)
    have "drop_bit 16 (fields 8 [a + b, b + c, c + d, d]) = fields 8 [c + d, d]"
      using fields_drop_many [of "[a + b, b + c, c + d, d]" 8 2] l by simp
    then have "unat (r + drop_bit 16 r) = (a + b + c + d) + 256 * fields 8 [b + c + d, c + d, d]"
      using l y by (simp add: unat_word_ariths unat_drop_bit_eq)
    then show ?thesis using l by (simp only: mod_mult_self2) simp
  qed
  ultimately show ?thesis using f(2) fs by (simp add: Let_def byte_and)
qed

lemma hweight64_counts: "unat (hweight64 w) = card {i. bit w i}"
proof -
  define r1 where "r1 = w - (drop_bit 1 w AND 0x5555555555555555)"
  define r2 where "r2 = (r1 AND 0x3333333333333333) + (drop_bit 2 r1 AND 0x3333333333333333)"
  define r3 where "r3 = (r2 + drop_bit 4 r2) AND 0x0F0F0F0F0F0F0F0F"
  have "unat (0x5555555555555555 :: u64) = low_fields 1 (4 * 8)" "unat (0x3333333333333333 :: u64) = low_fields 2 (2 * 8)"
    "unat (0x0F0F0F0F0F0F0F0F :: u64) = low_fields 4 8"
    by (simp_all add: low_fields_rec)
  from weigh_bytes [OF _ this r1_def r2_def, folded r3_def]
  obtain fs where f: "length fs = 8" "sum_list fs = card {i. bit w i}" "\<forall>f \<in> set fs. f \<le> 8" "unat r3 = fields 8 fs" by auto
  have "length fs = Suc (Suc (Suc (Suc (Suc (Suc (Suc (Suc 0)))))))" using f(1) by simp
  then obtain a b c d e g h k where fs: "fs = [a, b, c, d, e, g, h, k]" by (auto simp: length_Suc_conv)
  have "hweight64 w = (let r = r3 + drop_bit 8 r3; r = r + drop_bit 16 r in ucast ((r + drop_bit 32 r) AND 0xFF))"
    by (simp add: hweight64_def r1_def r2_def r3_def Let_def)
  moreover have "unat (r' + drop_bit 32 r') mod 256 = a + b + c + d + e + g + h + k"
    if r: "r = r3 + drop_bit 8 r3" "r' = r + drop_bit 16 r" for r r'
  proof -
    have l: "a \<le> 8" "b \<le> 8" "c \<le> 8" "d \<le> 8" "e \<le> 8" "g \<le> 8" "h \<le> 8" "k \<le> 8" using f(3) fs by simp_all
    let ?y = "[a + b, b + c, c + d, d + e, e + g, g + h, h + k, k]"
    let ?z = "[a + b + c + d, b + c + d + e, c + d + e + g, d + e + g + h, e + g + h + k, g + h + k, h + k, k]"
    have "drop_bit 8 (fields 8 fs) = fields 8 (drop 1 fs)" using fields_drop_many [of fs 8 1] l fs by simp
    then have y: "unat r = fields 8 ?y" using l f(4) fs by (simp add: r unat_word_ariths unat_drop_bit_eq)
    have "drop_bit 16 (fields 8 ?y) = fields 8 (drop 2 ?y)" using fields_drop_many [of ?y 8 2] l by simp
    then have z: "unat r' = fields 8 ?z" using l y by (simp add: r(2) unat_word_ariths unat_drop_bit_eq)
    have "drop_bit 32 (fields 8 ?z) = fields 8 (drop 4 ?z)" using fields_drop_many [of ?z 8 4] l by simp
    then have "unat (r' + drop_bit 32 r') = (a + b + c + d + e + g + h + k) +
        256 * fields 8 [b + c + d + e + g + h + k, c + d + e + g + h + k, d + e + g + h + k, e + g + h + k, g + h + k, h + k, k]"
      using l z by (simp add: unat_word_ariths unat_drop_bit_eq)
    then show ?thesis using l by (simp only: mod_mult_self2) simp
  qed
  moreover have "unat (ucast (x AND 0xFF) :: u32) = unat x mod 256" for x :: u64
  proof -
    have "unat (ucast (x AND 0xFF) :: u32) = unat (x AND 0xFF) mod 2 ^ 32" by (simp add: unsigned_ucast_eq unsigned_take_bit_eq take_bit_eq_mod)
    then show ?thesis by (simp add: byte_and)
  qed
  ultimately show ?thesis using f(2) fs by (simp add: Let_def)
qed

lemma card_bits_halves: "card {i. bit (ucast (drop_bit 32 v) :: u32) i} + card {i. bit (ucast v :: u32) i} = card {i. bit (v :: u64) i}"
proof -
  let ?h = "{i. bit (ucast (drop_bit 32 v) :: u32) i}" and ?l = "{i. bit (ucast v :: u32) i}"
  have hl: "?h = {i. i < 32 \<and> bit v (32 + i)}" "?l = {i. i < 32 \<and> bit v i}" by (auto simp: bit_simps)
  have "{i. bit v i} = (\<lambda>i. 32 + i) ` ?h \<union> ?l"
  proof (intro set_eqI iffI)
    fix i assume "i \<in> {i. bit v i}"
    moreover from this have "i < 64" using bit_imp_le_length [of v i] by simp
    ultimately show "i \<in> (\<lambda>i. 32 + i) ` ?h \<union> ?l" unfolding hl
      by (cases "i < 32") (auto intro!: image_eqI [of i "\<lambda>i. 32 + i" "i - 32"])
  qed (auto simp: hl)
  moreover have "(\<lambda>i. 32 + i) ` ?h \<inter> ?l = {}" "finite ?h" "finite ?l" by (auto simp: hl)
  ultimately show ?thesis by (simp add: card_Un_disjoint card_image)
qed

text \<open>
  C30: Each routine for the Hamming weight returns the number of bits that are set: that of 32 bits, those of 64 bits on
  machines of 32 and of 64 bits; and \<open>count_zero_bits\<close> the number of the others.
\<close>

theorem hweight_counts:
  "unat (hweight32 w) = card {i. bit w i} \<and> unat (hweight64_on32 v) = card {i. bit v i} \<and>
   unat (hweight64 v) = card {i. bit v i} \<and> unat (count_zero_bits v) = card {i. i < 64 \<and> \<not> bit v i}"
proof -
  have "card {i. bit v i} \<le> card {0..<64 :: nat}" by (intro card_mono) (auto dest: bit_imp_le_length)
  then have "unat (hweight64_on32 v) = card {i. bit v i}"
    using card_bits_halves [of v] by (simp add: hweight64_on32_def unat_word_ariths hweight32_counts)
  moreover have "{i. bit (NOT v) i} = {i. i < 64 \<and> \<not> bit v i}" by (auto simp: bit_simps)
  then have "unat (count_zero_bits v) = card {i. i < 64 \<and> \<not> bit v i}" by (simp add: count_zero_bits_def hweight64_counts)
  ultimately show ?thesis by (simp add: hweight32_counts hweight64_counts)
qed

end
