(* ===== verification/DList.thy ===== *)
theory DList
  imports Prelude
begin

text \<open>
  The circular doubly linked lists of \<open>include/list.h\<close>. The \<open>struct list_head\<close> nodes live
  in an explicit heap of \<open>next\<close> and \<open>prev\<close> pointers, every operation performs the source's
  assignments in the source's order, and \<open>dlist h head xs\<close> says that the sentry node
  \<open>head\<close> links exactly the nodes \<open>xs\<close>, in both directions. The lemmas show that each
  operation implements the corresponding operation on HOL lists, that it leaves every
  other list of the heap alone, and that the \<open>for_each\<close> loops end and visit the nodes in
  order, the \<open>_safe\<close> ones also when the body unlinks the node it is given.
\<close>

section \<open>Nodes and operations\<close>

record 'n links =
  nxt :: "'n \<Rightarrow> 'n"
  prv :: "'n \<Rightarrow> 'n"

definition set_next :: "'n \<Rightarrow> 'n \<Rightarrow> 'n links \<Rightarrow> 'n links" where
  "set_next p v h = h\<lparr>nxt := (nxt h)(p := v)\<rparr>"

definition set_prev :: "'n \<Rightarrow> 'n \<Rightarrow> 'n links \<Rightarrow> 'n links" where
  "set_prev p v h = h\<lparr>prv := (prv h)(p := v)\<rparr>"

definition INIT_LIST_HEAD :: "'n \<Rightarrow> 'n links \<Rightarrow> 'n links" where
  "INIT_LIST_HEAD list h = set_prev list list (set_next list list h)"

text \<open>\<open>__list_add\<close>, with its four assignments.\<close>

definition list_add_between :: "'n \<Rightarrow> 'n \<Rightarrow> 'n \<Rightarrow> 'n links \<Rightarrow> 'n links" where
  "list_add_between new prev next h =
     (let h = set_prev next new h;
          h = set_next new next h;
          h = set_prev new prev h
      in set_next prev new h)"

definition list_add :: "'n \<Rightarrow> 'n \<Rightarrow> 'n links \<Rightarrow> 'n links" where
  "list_add new head h = list_add_between new head (nxt h head) h"

definition list_add_tail :: "'n \<Rightarrow> 'n \<Rightarrow> 'n links \<Rightarrow> 'n links" where
  "list_add_tail new head h = list_add_between new (prv h head) head h"

definition list_add_after :: "'n \<Rightarrow> 'n \<Rightarrow> 'n links \<Rightarrow> 'n links" where
  "list_add_after new head = list_add new head"

definition list_add_before :: "'n \<Rightarrow> 'n \<Rightarrow> 'n links \<Rightarrow> 'n links" where
  "list_add_before new head = list_add_tail new head"

text \<open>\<open>__list_del\<close>.\<close>

definition list_del_between :: "'n \<Rightarrow> 'n \<Rightarrow> 'n links \<Rightarrow> 'n links" where
  "list_del_between prev next h = set_next prev next (set_prev next prev h)"

definition list_del :: "'n \<Rightarrow> 'n links \<Rightarrow> 'n links" where
  "list_del entry h = list_del_between (prv h entry) (nxt h entry) h"

definition list_del_init :: "'n \<Rightarrow> 'n links \<Rightarrow> 'n links" where
  "list_del_init entry h = INIT_LIST_HEAD entry (list_del_between (prv h entry) (nxt h entry) h)"

definition list_is_last :: "'n \<Rightarrow> 'n \<Rightarrow> 'n links \<Rightarrow> bool" where
  "list_is_last list head h = (nxt h list = head)"

definition list_empty :: "'n \<Rightarrow> 'n links \<Rightarrow> bool" where
  "list_empty head h = (nxt h head = head)"

definition list_is_singular :: "'n \<Rightarrow> 'n links \<Rightarrow> bool" where
  "list_is_singular head h = (\<not> list_empty head h \<and> nxt h head = prv h head)"

text \<open>
  The loops. The body may change the rest of the state \<open>s\<close> and the heap; a loop over a
  corrupted list may run for ever, which is the value \<open>None\<close>.
\<close>

partial_function (option) for_each_from ::
  "('n \<Rightarrow> 'n links \<times> 's \<Rightarrow> 'n links \<times> 's) \<Rightarrow> 'n \<Rightarrow> 'n \<Rightarrow> 'n links \<times> 's \<Rightarrow> ('n links \<times> 's) option" where
  "for_each_from body head pos s =
     (if pos = head then Some s
      else let s' = body pos s in for_each_from body head (nxt (fst s') pos) s')"

definition for_each ::
  "('n \<Rightarrow> 'n links \<times> 's \<Rightarrow> 'n links \<times> 's) \<Rightarrow> 'n \<Rightarrow> 'n links \<times> 's \<Rightarrow> ('n links \<times> 's) option" where
  "for_each body head s = for_each_from body head (nxt (fst s) head) s"

partial_function (option) for_each_reverse_from ::
  "('n \<Rightarrow> 'n links \<times> 's \<Rightarrow> 'n links \<times> 's) \<Rightarrow> 'n \<Rightarrow> 'n \<Rightarrow> 'n links \<times> 's \<Rightarrow> ('n links \<times> 's) option" where
  "for_each_reverse_from body head pos s =
     (if pos = head then Some s
      else let s' = body pos s in for_each_reverse_from body head (prv (fst s') pos) s')"

definition for_each_reverse ::
  "('n \<Rightarrow> 'n links \<times> 's \<Rightarrow> 'n links \<times> 's) \<Rightarrow> 'n \<Rightarrow> 'n links \<times> 's \<Rightarrow> ('n links \<times> 's) option" where
  "for_each_reverse body head s = for_each_reverse_from body head (prv (fst s) head) s"

text \<open>
  \<open>for_each_safe\<close> and \<open>for_each_entry_safe\<close>: the successor is read before the body runs,
  and read again after it when the loop advances.
\<close>

partial_function (option) for_each_safe_from ::
  "('n \<Rightarrow> 'n links \<times> 's \<Rightarrow> 'n links \<times> 's) \<Rightarrow> 'n \<Rightarrow> 'n \<Rightarrow> 'n \<Rightarrow> 'n links \<times> 's \<Rightarrow> ('n links \<times> 's) option" where
  "for_each_safe_from body head pos n s =
     (if pos = head then Some s
      else let s' = body pos s in for_each_safe_from body head n (nxt (fst s') n) s')"

definition for_each_safe ::
  "('n \<Rightarrow> 'n links \<times> 's \<Rightarrow> 'n links \<times> 's) \<Rightarrow> 'n \<Rightarrow> 'n links \<times> 's \<Rightarrow> ('n links \<times> 's) option" where
  "for_each_safe body head s =
     (let pos = nxt (fst s) head; n = nxt (fst s) pos in for_each_safe_from body head pos n s)"

section \<open>Abstraction to HOL lists\<close>

fun chain :: "'n links \<Rightarrow> 'n list \<Rightarrow> bool" where
  "chain h (x # y # zs) \<longleftrightarrow> nxt h x = y \<and> prv h y = x \<and> chain h (y # zs)"
| "chain h _ \<longleftrightarrow> True"

definition dlist :: "'n links \<Rightarrow> 'n \<Rightarrow> 'n list \<Rightarrow> bool" where
  "dlist h head xs \<longleftrightarrow> distinct (head # xs) \<and> chain h (head # xs @ [head])"

lemma set_next_sel [simp]:
  "nxt (set_next p v h) = (nxt h)(p := v)" "prv (set_next p v h) = prv h"
  by (simp_all add: set_next_def)

lemma set_prev_sel [simp]:
  "prv (set_prev p v h) = (prv h)(p := v)" "nxt (set_prev p v h) = nxt h"
  by (simp_all add: set_prev_def)

lemma chain_split: "chain h (us @ x # vs) \<longleftrightarrow> chain h (us @ [x]) \<and> chain h (x # vs)"
proof (induction us)
  case Nil
  then show ?case by (cases vs) auto
next
  case (Cons u us)
  then show ?case by (cases us) auto
qed

lemma chain_cong:
  assumes "\<forall>x \<in> set (butlast zs). nxt h' x = nxt h x" and "\<forall>x \<in> set (tl zs). prv h' x = prv h x"
  shows "chain h' zs = chain h zs"
  using assms
proof (induction zs rule: induct_list012)
  case (3 x y zs)
  then show ?case by (cases zs) auto
qed auto

lemma dlist_empty_iff: "dlist h head [] \<longleftrightarrow> nxt h head = head \<and> prv h head = head"
  by (simp add: dlist_def)

lemma dlist_distinct: "dlist h head xs \<Longrightarrow> distinct (head # xs)"
  by (simp add: dlist_def)

lemma dlist_INIT_LIST_HEAD: "dlist (INIT_LIST_HEAD head h) head []"
  by (simp add: dlist_empty_iff INIT_LIST_HEAD_def)

lemma dlist_next: "dlist h head (xs @ x # ys) \<Longrightarrow> nxt h x = hd (ys @ [head])"
  using chain_split [of h "head # xs" x "ys @ [head]"] by (cases ys) (auto simp: dlist_def)

lemma dlist_prev: "dlist h head (xs @ x # ys) \<Longrightarrow> prv h x = last (head # xs)"
  using chain_split [of h "head # butlast xs" "last xs" "x # ys @ [head]"]
  by (cases xs rule: rev_cases) (auto simp: dlist_def)

lemma dlist_head_next: "dlist h head xs \<Longrightarrow> nxt h head = hd (xs @ [head])"
  by (cases xs) (auto simp: dlist_def)

lemma dlist_head_prev: "dlist h head xs \<Longrightarrow> prv h head = last (head # xs)"
  using chain_split [of h "head # butlast xs" "last xs" "[head]"]
  by (cases xs rule: rev_cases) (auto simp: dlist_def)

lemmas dlist_sel = dlist_next dlist_prev dlist_head_next dlist_head_prev

text \<open>\<open>__list_add\<close> inserts between two neighbours, \<open>__list_del\<close> joins two neighbours.\<close>

lemma chain_halves:
  assumes "distinct (head # xs @ ys)" and l: "head # xs = us @ [p]" and r: "ys @ [head] = n # vs"
    and "chain h (us @ [p])" and "chain h (n # vs)"
    and nxt: "\<And>x. x \<in> set (head # xs @ ys) \<Longrightarrow> x \<noteq> p \<Longrightarrow> nxt h' x = nxt h x"
    and prv: "\<And>x. x \<in> set (head # xs @ ys) \<Longrightarrow> x \<noteq> n \<Longrightarrow> prv h' x = prv h x"
  shows "chain h' (us @ [p])" "chain h' (n # vs)"
proof -
  have L: "set (us @ [p]) = insert head (set xs)" "set (tl (us @ [p])) = set xs" by (simp_all flip: l)
  have R: "set (n # vs) = insert head (set ys)" "set (butlast (n # vs)) = set ys" by (simp_all flip: r)
  have "distinct (us @ [p])" using assms(1) by (simp flip: l)
  have n: "n \<notin> set xs" "n \<notin> set vs" using assms(1) r by (cases ys; auto)+
  have p: "p \<notin> set us" "p \<notin> set ys" using \<open>distinct (us @ [p])\<close> L assms(1) by auto
  show "chain h' (us @ [p])"
  proof (subst chain_cong [of _ h' h])
    show "\<forall>x\<in>set (butlast (us @ [p])). nxt h' x = nxt h x" using L p nxt by auto
    show "\<forall>x\<in>set (tl (us @ [p])). prv h' x = prv h x" unfolding L using n prv by auto
  qed fact
  show "chain h' (n # vs)"
  proof (subst chain_cong [of _ h' h])
    show "\<forall>x\<in>set (butlast (n # vs)). nxt h' x = nxt h x" unfolding R using p nxt by auto
    show "\<forall>x\<in>set (tl (n # vs)). prv h' x = prv h x" using R n prv by auto
  qed fact
qed

lemma dlist_ends:
  obtains us p n vs where "head # xs = us @ [p]" "last (head # xs) = p"
    "ys @ [head] = n # vs" "hd (ys @ [head]) = n"
    "\<forall>zs. head # (xs @ zs @ ys) @ [head] = us @ p # zs @ n # vs"
proof -
  define p us n vs where "p = last (head # xs)" and "us = butlast (head # xs)"
    and "n = hd (ys @ [head])" and "vs = tl (ys @ [head])"
  have l: "head # xs = us @ [p]" by (simp add: us_def p_def)
  have r: "ys @ [head] = n # vs" by (simp add: n_def vs_def)
  have "head # xs @ zs = us @ p # zs" for zs using l by (metis append.assoc append_Cons append_Nil)
  moreover from this have "head # (xs @ zs @ ys) @ [head] = us @ p # zs @ n # vs" for zs
    by (simp add: r)
  ultimately show thesis by (intro that [OF l _ r]) (simp_all add: p_def n_def)
qed

lemma dlist_add_between:
  assumes "dlist h head (xs @ ys)" and new: "new \<notin> set (head # xs @ ys)"
  shows "dlist (list_add_between new (last (head # xs)) (hd (ys @ [head])) h) head (xs @ new # ys)"
proof -
  obtain us p n vs where l: "head # xs = us @ [p]" "last (head # xs) = p"
    and r: "ys @ [head] = n # vs" "hd (ys @ [head]) = n"
    and e: "\<forall>zs. head # (xs @ zs @ ys) @ [head] = us @ p # zs @ n # vs"
    by (rule dlist_ends [of head xs ys])
  define h' where "h' = list_add_between new p n h"
  have h': "nxt h' = (nxt h)(new := n, p := new)" "prv h' = (prv h)(n := new, new := p)"
    by (simp_all add: h'_def list_add_between_def Let_def)
  have old: "chain h (us @ p # n # vs)" and dist: "distinct (head # xs @ ys)"
    using assms(1) spec [OF e, of "[]"] by (simp_all add: dlist_def)
  have "chain h (us @ [p])" "chain h (n # vs)"
    using old chain_split [of h us p "n # vs"] by simp_all
  then have "chain h' (us @ [p])" "chain h' (n # vs)"
    by (rule chain_halves [OF dist l(1) r(1)]; use new in \<open>auto simp: h'\<close>)+
  moreover have "set (us @ [p]) = insert head (set xs)" by (simp flip: l(1))
  then have "chain h' [p, new, n]" using new r by (cases ys) (auto simp: h')
  ultimately have "chain h' (us @ p # [new] @ n # vs)"
    using chain_split [of h' us p "new # n # vs"] by simp
  then have "chain h' (head # (xs @ [new] @ ys) @ [head])" by (simp only: e)
  then show ?thesis using dist new unfolding dlist_def h'_def l r by auto
qed

lemma dlist_del_between:
  assumes "dlist h head (xs @ e # ys)"
  shows "dlist (list_del_between (last (head # xs)) (hd (ys @ [head])) h) head (xs @ ys)"
proof -
  obtain us p n vs where l: "head # xs = us @ [p]" "last (head # xs) = p"
    and r: "ys @ [head] = n # vs" "hd (ys @ [head]) = n"
    and eq: "\<forall>zs. head # (xs @ zs @ ys) @ [head] = us @ p # zs @ n # vs"
    by (rule dlist_ends [of head xs ys])
  define h' where "h' = list_del_between p n h"
  have h': "nxt h' = (nxt h)(p := n)" "prv h' = (prv h)(n := p)"
    by (simp_all add: h'_def list_del_between_def)
  have old: "chain h (us @ p # e # n # vs)" and dist: "distinct (head # xs @ ys)"
    using assms spec [OF eq, of "[e]"] by (simp_all add: dlist_def)
  have "chain h (us @ [p])" "chain h (n # vs)"
    using old chain_split [of h us p "e # n # vs"] by simp_all
  then have "chain h' (us @ [p])" "chain h' (n # vs)"
    by (rule chain_halves [OF dist l(1) r(1)]; auto simp: h')+
  then have "chain h' (us @ p # [] @ n # vs)"
    using chain_split [of h' us p "n # vs"] by (simp add: h')
  then have "chain h' (head # (xs @ [] @ ys) @ [head])" by (simp only: eq)
  then show ?thesis using dist unfolding dlist_def h'_def l r by auto
qed

section \<open>Every operation implements its list counterpart\<close>

lemma dlist_list_add: "dlist h head xs \<Longrightarrow> new \<notin> set (head # xs) \<Longrightarrow> dlist (list_add new head h) head (new # xs)"
  using dlist_add_between [of h head "[]" xs new] by (simp add: list_add_def dlist_head_next)

lemma dlist_list_add_tail:
  "dlist h head xs \<Longrightarrow> new \<notin> set (head # xs) \<Longrightarrow> dlist (list_add_tail new head h) head (xs @ [new])"
  using dlist_add_between [of h head xs "[]" new] by (simp add: list_add_tail_def dlist_head_prev)

lemma dlist_list_add_after:
  "dlist h head (xs @ e # ys) \<Longrightarrow> new \<notin> set (head # xs @ e # ys)
   \<Longrightarrow> dlist (list_add_after new e h) head (xs @ e # new # ys)"
  using dlist_add_between [of h head "xs @ [e]" ys new]
  by (simp add: list_add_after_def list_add_def dlist_next)

lemma dlist_list_add_before:
  "dlist h head (xs @ e # ys) \<Longrightarrow> new \<notin> set (head # xs @ e # ys)
   \<Longrightarrow> dlist (list_add_before new e h) head (xs @ new # e # ys)"
  using dlist_add_between [of h head xs "e # ys" new]
  by (simp add: list_add_before_def list_add_tail_def dlist_prev)

lemma dlist_list_del: "dlist h head (xs @ e # ys) \<Longrightarrow> dlist (list_del e h) head (xs @ ys)"
  using dlist_del_between [of h head xs e ys] by (simp add: list_del_def dlist_next dlist_prev)

text \<open>A list depends on the pointers of its own nodes only.\<close>

lemma dlist_frame:
  assumes "dlist h head xs"
    and "\<And>x. x \<in> set (head # xs) \<Longrightarrow> nxt h' x = nxt h x \<and> prv h' x = prv h x"
  shows "dlist h' head xs"
proof -
  have "set (butlast (head # xs @ [head])) \<subseteq> set (head # xs)"
    using in_set_butlastD [of _ "head # xs @ [head]"] by auto
  then have "chain h' (head # xs @ [head]) = chain h (head # xs @ [head])"
    using assms(2) by (intro chain_cong) auto
  with assms(1) show ?thesis by (simp add: dlist_def)
qed

lemma dlist_list_del_init:
  assumes "dlist h head (xs @ e # ys)"
  shows "dlist (list_del_init e h) head (xs @ ys)" "dlist (list_del_init e h) e []"
proof -
  have "dlist (list_del e h) head (xs @ ys)" using assms by (rule dlist_list_del)
  moreover have "e \<notin> set (head # xs @ ys)" using assms by (auto simp: dlist_def)
  ultimately show "dlist (list_del_init e h) head (xs @ ys)"
    by (elim dlist_frame) (auto simp: list_del_init_def list_del_def INIT_LIST_HEAD_def)
  show "dlist (list_del_init e h) e []"
    by (simp add: list_del_init_def dlist_INIT_LIST_HEAD)
qed

lemma dlist_list_empty: "dlist h head xs \<Longrightarrow> list_empty head h \<longleftrightarrow> xs = []"
  by (cases xs) (auto simp: dlist_def list_empty_def)

lemma dlist_list_is_last: "dlist h head (xs @ e # ys) \<Longrightarrow> list_is_last e head h \<longleftrightarrow> ys = []"
  using dlist_next [of h head xs e ys] dlist_distinct [of h head "xs @ e # ys"]
  by (cases ys) (auto simp: list_is_last_def)

lemma dlist_list_is_singular:
  assumes "dlist h head xs"
  shows "list_is_singular head h \<longleftrightarrow> length xs = 1"
proof (cases "length xs \<le> 1")
  case True
  then consider "xs = []" | x where "xs = [x]" by (cases xs) auto
  then show ?thesis
    using assms dlist_list_empty [OF assms] by cases (auto simp: list_is_singular_def dlist_def)
next
  case False
  then obtain x ys y where "xs = x # ys @ [y]" by (cases xs; cases "tl xs" rule: rev_cases) auto
  then show ?thesis
    using dlist_head_next [OF assms] dlist_head_prev [OF assms] dlist_distinct [OF assms]
    by (auto simp: list_is_singular_def)
qed

text \<open>The operations on one list leave every list with other nodes unchanged.\<close>

lemma list_ops_frame:
  assumes other: "dlist h head' zs" and own: "dlist h head xs"
    and disj: "set (head # xs) \<inter> set (head' # zs) = {}"
  shows "new \<notin> set (head' # zs) \<Longrightarrow> dlist (list_add new head h) head' zs"
    and "new \<notin> set (head' # zs) \<Longrightarrow> dlist (list_add_tail new head h) head' zs"
    and "e \<in> set xs \<Longrightarrow> dlist (list_del e h) head' zs"
proof -
  have "hd (xs @ [head]) \<in> set (head # xs)" "last (head # xs) \<in> set (head # xs)"
    by (cases xs) auto
  then have nb: "nxt h head \<notin> set (head' # zs)" "prv h head \<notin> set (head' # zs)"
    using disj unfolding dlist_head_next [OF own] dlist_head_prev [OF own] by blast+
  have hd: "head \<notin> set (head' # zs)" using disj by auto
  show "dlist (list_add new head h) head' zs" if "new \<notin> set (head' # zs)"
    using that nb hd
    by (intro dlist_frame [OF other]) (auto simp: list_add_def list_add_between_def Let_def)
  show "dlist (list_add_tail new head h) head' zs" if "new \<notin> set (head' # zs)"
    using that nb hd
    by (intro dlist_frame [OF other]) (auto simp: list_add_tail_def list_add_between_def Let_def)
  show "dlist (list_del e h) head' zs" if e: "e \<in> set xs"
  proof -
    obtain us vs where xs: "xs = us @ e # vs" using e by (auto dest: split_list)
    have "hd (vs @ [head]) \<in> set (head # xs)" "last (head # us) \<in> set (head # xs)"
      using last_in_set [of "head # us"] by (auto simp: xs hd_append)
    moreover have "nxt h e = hd (vs @ [head])" "prv h e = last (head # us)"
      using own unfolding xs by (rule dlist_next, rule dlist_prev)
    ultimately have "nxt h e \<notin> set (head' # zs)" "prv h e \<notin> set (head' # zs)"
      using disj by (metis disjoint_iff)+
    then show ?thesis
      by (intro dlist_frame [OF other]) (auto simp: list_del_def list_del_between_def)
  qed
qed

section \<open>The loops\<close>

lemma for_each_from_fold:
  assumes "dlist (fst s) head (xs @ ys)"
    and "\<And>x s. x \<in> set ys \<Longrightarrow> dlist (fst s) head (xs @ ys) \<Longrightarrow> dlist (fst (body x s)) head (xs @ ys)"
  shows "for_each_from body head (hd (ys @ [head])) s = Some (fold body ys s)"
  using assms
proof (induction ys arbitrary: xs s)
  case Nil
  then show ?case by (subst for_each_from.simps) (simp)
next
  case (Cons y ys)
  have step: "dlist (fst (body y s)) head ((xs @ [y]) @ ys)" using Cons.prems by simp
  have "y \<noteq> head" using Cons.prems(1) by (auto simp: dlist_def)
  moreover have "nxt (fst (body y s)) y = hd (ys @ [head])"
    using step by (intro dlist_next [of _ _ xs]) simp
  moreover have "for_each_from body head (hd (ys @ [head])) (body y s) = Some (fold body ys (body y s))"
    by (rule Cons.IH [OF step]) (use Cons.prems(2) in simp)
  ultimately show ?case by (subst for_each_from.simps) (simp add: Let_def)
qed

text \<open>A loop whose body keeps the list intact ends and runs the body once per node, in order.\<close>

lemma for_each_fold:
  assumes "dlist (fst s) head xs"
    and "\<And>x s. x \<in> set xs \<Longrightarrow> dlist (fst s) head xs \<Longrightarrow> dlist (fst (body x s)) head xs"
  shows "for_each body head s = Some (fold body xs s)"
  using for_each_from_fold [of s head "[]" xs body] assms
  by (simp add: for_each_def dlist_head_next)

lemma for_each_reverse_from_fold:
  assumes "dlist (fst s) head (ys @ xs)"
    and "\<And>x s. x \<in> set ys \<Longrightarrow> dlist (fst s) head (ys @ xs) \<Longrightarrow> dlist (fst (body x s)) head (ys @ xs)"
  shows "for_each_reverse_from body head (last (head # ys)) s = Some (fold body (rev ys) s)"
  using assms
proof (induction ys arbitrary: xs s rule: rev_induct)
  case Nil
  then show ?case by (subst for_each_reverse_from.simps) (simp)
next
  case (snoc y ys)
  have step: "dlist (fst (body y s)) head (ys @ y # xs)" using snoc.prems by simp
  have "y \<noteq> head" using snoc.prems(1) by (auto simp: dlist_def)
  moreover have "prv (fst (body y s)) y = last (head # ys)"
    using step by (rule dlist_prev)
  moreover have "for_each_reverse_from body head (last (head # ys)) (body y s)
      = Some (fold body (rev ys) (body y s))"
    by (rule snoc.IH [OF step]) (use snoc.prems(2) in simp)
  ultimately show ?case by (subst for_each_reverse_from.simps) (simp add: Let_def)
qed

lemma for_each_reverse_fold:
  assumes "dlist (fst s) head xs"
    and "\<And>x s. x \<in> set xs \<Longrightarrow> dlist (fst s) head xs \<Longrightarrow> dlist (fst (body x s)) head xs"
  shows "for_each_reverse body head s = Some (fold body (rev xs) s)"
  using for_each_reverse_from_fold [of s head xs "[]" body] assms
  by (simp add: for_each_reverse_def dlist_head_prev)

text \<open>
  The \<open>_safe\<close> loop with a body that may unlink the node it is given: it ends, runs the
  body on every node in order, and what stays linked are the nodes the body kept.
\<close>

definition unlink_body :: "('n \<Rightarrow> bool) \<Rightarrow> ('n \<Rightarrow> 's \<Rightarrow> 's) \<Rightarrow> 'n \<Rightarrow> 'n links \<times> 's \<Rightarrow> 'n links \<times> 's" where
  "unlink_body P f x = (\<lambda>(h, s). (if P x then list_del x h else h, f x s))"

lemma for_each_safe_from_unlink:
  assumes "dlist h head (xs @ ys)"
  shows "\<exists>h'. for_each_safe_from (unlink_body P f) head (hd (ys @ [head])) (nxt h (hd (ys @ [head]))) (h, s)
             = Some (h', fold f ys s) \<and> dlist h' head (xs @ filter (\<lambda>x. \<not> P x) ys)"
  using assms
proof (induction ys arbitrary: xs h s)
  case Nil
  then show ?case by (subst for_each_safe_from.simps) (simp)
next
  case (Cons y ys)
  define h1 where "h1 = (if P y then list_del y h else h)"
  define xs1 where "xs1 = (if P y then xs else xs @ [y])"
  have "dlist h1 head (xs1 @ ys)"
    using Cons.prems dlist_list_del [OF Cons.prems] by (simp add: h1_def xs1_def)
  from Cons.IH [OF this, of "f y s"] obtain h'
    where ih: "for_each_safe_from (unlink_body P f) head (hd (ys @ [head])) (nxt h1 (hd (ys @ [head])))
        (h1, f y s) = Some (h', fold f ys (f y s))"
      and h': "dlist h' head (xs1 @ filter (\<lambda>x. \<not> P x) ys)" by blast
  have "y \<noteq> head" using Cons.prems by (auto simp: dlist_def)
  moreover have "nxt h y = hd (ys @ [head])" using Cons.prems by (rule dlist_next)
  moreover have "unlink_body P f y (h, s) = (h1, f y s)" by (simp add: unlink_body_def h1_def)
  ultimately have "for_each_safe_from (unlink_body P f) head (hd ((y # ys) @ [head]))
      (nxt h (hd ((y # ys) @ [head]))) (h, s) = Some (h', fold f (y # ys) s)"
    using ih by (subst for_each_safe_from.simps) (simp add: Let_def)
  with h' show ?case by (auto simp: xs1_def)
qed

lemma for_each_safe_unlink:
  assumes "dlist h head xs"
  shows "\<exists>h'. for_each_safe (unlink_body P f) head (h, s) = Some (h', fold f xs s)
             \<and> dlist h' head (filter (\<lambda>x. \<not> P x) xs)"
  using for_each_safe_from_unlink [of h head "[]" xs P f s] assms
  by (simp add: for_each_safe_def Let_def dlist_head_next)

section \<open>The interface\<close>

text \<open>
  What clients of \<open>list.h\<close> rely on: a representation relation and the five operations the
  kernel uses to build and take apart its lists.
\<close>

locale list_interface =
  fixes rep :: "'h \<Rightarrow> 'n \<Rightarrow> 'n list \<Rightarrow> bool"
    and init :: "'n \<Rightarrow> 'h \<Rightarrow> 'h"
    and add :: "'n \<Rightarrow> 'n \<Rightarrow> 'h \<Rightarrow> 'h"
    and add_tail :: "'n \<Rightarrow> 'n \<Rightarrow> 'h \<Rightarrow> 'h"
    and del :: "'n \<Rightarrow> 'h \<Rightarrow> 'h"
  assumes rep_init: "rep (init head h) head []"
    and rep_add: "rep h head xs \<Longrightarrow> new \<notin> set (head # xs) \<Longrightarrow> rep (add new head h) head (new # xs)"
    and rep_add_tail: "rep h head xs \<Longrightarrow> new \<notin> set (head # xs) \<Longrightarrow> rep (add_tail new head h) head (xs @ [new])"
    and rep_del: "rep h head (xs @ e # ys) \<Longrightarrow> rep (del e h) head (xs @ ys)"
begin

lemma rep_fold_add_tail:
  "rep h head xs \<Longrightarrow> distinct (head # xs @ ys) \<Longrightarrow> rep (fold (\<lambda>x. add_tail x head) ys h) head (xs @ ys)"
proof (induction ys arbitrary: h xs)
  case (Cons y ys)
  have "rep (add_tail y head h) head (xs @ [y])" by (rule rep_add_tail) (use Cons.prems in auto)
  from Cons.IH [OF this] Cons.prems show ?case by simp
qed simp

lemma rep_fold_add:
  "rep h head xs \<Longrightarrow> distinct (head # xs @ ys) \<Longrightarrow> rep (fold (\<lambda>x. add x head) ys h) head (rev ys @ xs)"
proof (induction ys arbitrary: h xs)
  case (Cons y ys)
  have "rep (add y head h) head (y # xs)" by (rule rep_add) (use Cons.prems in auto)
  from Cons.IH [OF this] Cons.prems show ?case by simp
qed simp

lemma rep_fold_del:
  "rep h head (xs @ ys @ zs) \<Longrightarrow> rep (fold del ys h) head (xs @ zs)"
proof (induction ys arbitrary: h)
  case (Cons y ys)
  have "rep (del y h) head (xs @ ys @ zs)" using rep_del [of h head xs y "ys @ zs"] Cons.prems by simp
  from Cons.IH [OF this] show ?case by simp
qed simp

lemma rep_add_del: "rep h head xs \<Longrightarrow> new \<notin> set (head # xs) \<Longrightarrow> rep (del new (add new head h)) head xs"
  using rep_del [of "add new head h" head "[]" new xs] rep_add by simp

end

interpretation ll: list_interface dlist INIT_LIST_HEAD list_add list_add_tail list_del
  by unfold_locales
    (fact dlist_INIT_LIST_HEAD dlist_list_add dlist_list_add_tail dlist_list_del)+

text \<open>
  Appending distinct nodes to a fresh list and walking it visits them in the order they
  were appended; walking it backwards visits them in reverse order; and a safe walk that
  unlinks every node also visits all of them, in order, and leaves the list empty.
\<close>

theorem list_traversals:
  assumes "distinct (head # xs)"
    and h: "h = fold (\<lambda>x. list_add_tail x head) xs (INIT_LIST_HEAD head h0)"
  shows "for_each (\<lambda>x (h, s). (h, f x s)) head (h, s) = Some (h, fold f xs s) \<and>
    for_each_reverse (\<lambda>x (h, s). (h, f x s)) head (h, s) = Some (h, fold f (rev xs) s) \<and>
    (\<exists>h'. for_each_safe (unlink_body (\<lambda>_. True) f) head (h, s) = Some (h', fold f xs s) \<and> list_empty head h')"
proof (intro conjI)
  have rep: "dlist h head xs"
    using ll.rep_fold_add_tail [OF ll.rep_init, of head xs] assms(1) by (simp add: h)
  have fold: "fold (\<lambda>x (h, s). (h, f x s)) ys (h, s) = (h, fold f ys s)" for ys
    by (induction ys arbitrary: s) auto
  show "for_each (\<lambda>x (h, s). (h, f x s)) head (h, s) = Some (h, fold f xs s)"
    using rep by (subst for_each_fold [of _ _ xs]) (auto simp: fold)
  show "for_each_reverse (\<lambda>x (h, s). (h, f x s)) head (h, s) = Some (h, fold f (rev xs) s)"
    using rep by (subst for_each_reverse_fold [of _ _ xs]) (auto simp: fold)
  show "\<exists>h'. for_each_safe (unlink_body (\<lambda>_. True) f) head (h, s) = Some (h', fold f xs s) \<and> list_empty head h'"
    using for_each_safe_unlink [OF rep, of "\<lambda>_. True" f s] dlist_list_empty [of _ head "[]"] by auto
qed

definition example_heap :: "nat links" where
  "example_heap = fold (\<lambda>x. list_add_tail x 0) [4, 9, 7] (INIT_LIST_HEAD 0 \<lparr>nxt = id, prv = id\<rparr>)"

theorem list_traversals_witness:
  "for_each (\<lambda>x (h, s). (h, s @ [x])) 0 (example_heap, []) = Some (example_heap, [4, 9, 7]) \<and>
   for_each_reverse (\<lambda>x (h, s). (h, s @ [x])) 0 (example_heap, []) = Some (example_heap, [7, 9, 4])"
  using list_traversals [OF _ example_heap_def, of "\<lambda>x s. s @ [x]" "[]"] by simp

end
