(* ===== verification/NodeList.thy ===== *)
theory NodeList
  imports DList
begin

text \<open>
  Lists of structures that embed a \<open>struct list_head\<close>, as the kernel's components use them:
  a HOL list of records, each with the address \<open>key\<close> of its node. The operations are those
  of \<open>include/list.h\<close> with \<open>list_entry\<close> and the \<open>for_each_entry\<close> macros; every one of them
  is shown to be what the pointer operation of theory \<open>DList\<close> does to the nodes' addresses.
\<close>

section \<open>Operations\<close>

definition nl_find :: "('x \<Rightarrow> 'n) \<Rightarrow> 'n \<Rightarrow> 'x list \<Rightarrow> 'x option" where
  "nl_find key n xs = find (\<lambda>x. key x = n) xs"

definition nl_update :: "('x \<Rightarrow> 'n) \<Rightarrow> 'x \<Rightarrow> 'x list \<Rightarrow> 'x list" where
  "nl_update key x xs = map (\<lambda>y. if key y = key x then x else y) xs"

definition nl_del :: "('x \<Rightarrow> 'n) \<Rightarrow> 'n \<Rightarrow> 'x list \<Rightarrow> 'x list" where
  "nl_del key n xs = filter (\<lambda>y. key y \<noteq> n) xs"

fun nl_after :: "('x \<Rightarrow> 'n) \<Rightarrow> 'n \<Rightarrow> 'x \<Rightarrow> 'x list \<Rightarrow> 'x list" where
  "nl_after key n x [] = []"
| "nl_after key n x (y # ys) = (if key y = n then y # x # ys else y # nl_after key n x ys)"

fun nl_before :: "('x \<Rightarrow> 'n) \<Rightarrow> 'n \<Rightarrow> 'x \<Rightarrow> 'x list \<Rightarrow> 'x list" where
  "nl_before key n x [] = []"
| "nl_before key n x (y # ys) = (if key y = n then x # y # ys else y # nl_before key n x ys)"

text \<open>Successor and predecessor; \<open>None\<close> stands for the sentry node.\<close>

fun nl_next :: "('x \<Rightarrow> 'n) \<Rightarrow> 'n \<Rightarrow> 'x list \<Rightarrow> 'x option" where
  "nl_next key n [] = None"
| "nl_next key n (y # ys) =
     (if key y = n then (case ys of [] \<Rightarrow> None | z # _ \<Rightarrow> Some z) else nl_next key n ys)"

fun nl_prev :: "('x \<Rightarrow> 'n) \<Rightarrow> 'n \<Rightarrow> 'x list \<Rightarrow> 'x option" where
  "nl_prev key n (x # y # ys) = (if key x = n then None else if key y = n then Some x else nl_prev key n (y # ys))"
| "nl_prev key n _ = None"

section \<open>The operations around a given node\<close>

lemma nl_find_split: "key y \<notin> key ` set us \<Longrightarrow> nl_find key (key y) (us @ y # vs) = Some y"
  by (induction us) (auto simp: nl_find_def)

lemma nl_find_Some: "nl_find key n xs = Some y \<Longrightarrow> y \<in> set xs \<and> key y = n"
  by (auto simp: nl_find_def find_Some_iff in_set_conv_nth)

lemma nl_find_None: "nl_find key n xs = None \<longleftrightarrow> n \<notin> key ` set xs"
  by (auto simp: nl_find_def find_None_iff)

lemma nl_update_id: "key x \<notin> key ` set xs \<Longrightarrow> nl_update key x xs = xs"
  by (induction xs) (auto simp: nl_update_def)

lemma nl_update_split:
  "key x = key y \<Longrightarrow> key y \<notin> key ` set us \<Longrightarrow> key y \<notin> key ` set vs \<Longrightarrow>
   nl_update key x (us @ y # vs) = us @ x # vs"
  using nl_update_id [of key x us] nl_update_id [of key x vs] by (simp add: nl_update_def)

lemma nl_del_id: "n \<notin> key ` set xs \<Longrightarrow> nl_del key n xs = xs"
  by (induction xs) (auto simp: nl_del_def)

lemma nl_del_split:
  "key y \<notin> key ` set us \<Longrightarrow> key y \<notin> key ` set vs \<Longrightarrow> nl_del key (key y) (us @ y # vs) = us @ vs"
  using nl_del_id [of "key y" key us] nl_del_id [of "key y" key vs] by (simp add: nl_del_def)

lemma nl_after_split: "key y \<notin> key ` set us \<Longrightarrow> nl_after key (key y) x (us @ y # vs) = us @ y # x # vs"
  by (induction us) auto

lemma nl_before_split: "key y \<notin> key ` set us \<Longrightarrow> nl_before key (key y) x (us @ y # vs) = us @ x # y # vs"
  by (induction us) auto

lemma nl_next_split:
  "key y \<notin> key ` set us \<Longrightarrow> nl_next key (key y) (us @ y # vs) = (case vs of [] \<Rightarrow> None | z # _ \<Rightarrow> Some z)"
  by (induction us) auto

lemma nl_prev_split:
  "key y \<notin> key ` set us \<Longrightarrow> nl_prev key (key y) (us @ y # vs) = (if us = [] then None else Some (last us))"
proof (induction us)
  case Nil
  then show ?case by (cases vs) auto
next
  case (Cons u us)
  then show ?case by (cases us) auto
qed

lemma nl_after_mem: "n \<in> key ` set xs \<Longrightarrow> x \<in> set (nl_after key n x xs)"
  by (induction xs) auto

lemma nl_before_mem: "n \<in> key ` set xs \<Longrightarrow> x \<in> set (nl_before key n x xs)"
  by (induction xs) auto

lemma nl_update_keys: "key ` set (nl_update key x xs) = key ` set xs"
  by (induction xs) (auto simp: nl_update_def)

lemmas nl_split = nl_find_split nl_update_split nl_del_split nl_after_split nl_before_split
  nl_next_split nl_prev_split

section \<open>Refinement by the pointer operations\<close>

lemma nl_cut:
  assumes "y \<in> set xs" and "distinct (map key xs)"
  obtains us vs where "xs = us @ y # vs" "key y \<notin> key ` set us" "key y \<notin> key ` set vs"
  using assms by (auto dest!: split_list)

lemma dlist_nl_after:
  assumes "dlist h head (map key xs)" and "y \<in> set xs" and "key x \<notin> set (head # map key xs)"
  shows "dlist (list_add_after (key x) (key y) h) head (map key (nl_after key (key y) x xs))"
proof -
  have "distinct (map key xs)" using dlist_distinct [OF assms(1)] by simp
  with assms(2) obtain us vs where xs: "xs = us @ y # vs" and "key y \<notin> key ` set us" by (rule nl_cut)
  then show ?thesis
    using dlist_list_add_after [of h head "map key us" "key y" "map key vs" "key x"] assms(1,3)
    by (simp add: nl_after_split)
qed

lemma dlist_nl_before:
  assumes "dlist h head (map key xs)" and "y \<in> set xs" and "key x \<notin> set (head # map key xs)"
  shows "dlist (list_add_before (key x) (key y) h) head (map key (nl_before key (key y) x xs))"
proof -
  have "distinct (map key xs)" using dlist_distinct [OF assms(1)] by simp
  with assms(2) obtain us vs where xs: "xs = us @ y # vs" and "key y \<notin> key ` set us" by (rule nl_cut)
  then show ?thesis
    using dlist_list_add_before [of h head "map key us" "key y" "map key vs" "key x"] assms(1,3)
    by (simp add: nl_before_split)
qed

lemma dlist_nl_del:
  assumes "dlist h head (map key xs)" and "y \<in> set xs"
  shows "dlist (list_del (key y) h) head (map key (nl_del key (key y) xs))"
proof -
  have "distinct (map key xs)" using dlist_distinct [OF assms(1)] by simp
  with assms(2) obtain us vs where xs: "xs = us @ y # vs"
    and n: "key y \<notin> key ` set us" "key y \<notin> key ` set vs" by (rule nl_cut)
  with dlist_list_del [of h head "map key us" "key y" "map key vs"] assms(1)
  show ?thesis by (simp only: nl_del_split [OF n]) simp
qed

lemma dlist_nl_next:
  assumes "dlist h head (map key xs)" and "y \<in> set xs"
  shows "nxt h (key y) = (case nl_next key (key y) xs of None \<Rightarrow> head | Some z \<Rightarrow> key z)"
    and "list_is_last (key y) head h \<longleftrightarrow> nl_next key (key y) xs = None"
proof -
  have "distinct (map key xs)" using dlist_distinct [OF assms(1)] by simp
  with assms(2) obtain us vs where xs: "xs = us @ y # vs" and n: "key y \<notin> key ` set us" by (rule nl_cut)
  have d: "dlist h head (map key us @ key y # map key vs)" using assms(1) xs by simp
  show "nxt h (key y) = (case nl_next key (key y) xs of None \<Rightarrow> head | Some z \<Rightarrow> key z)"
    using dlist_next [OF d] n by (cases vs) (simp_all add: xs nl_next_split)
  show "list_is_last (key y) head h \<longleftrightarrow> nl_next key (key y) xs = None"
    using dlist_list_is_last [OF d] n by (cases vs) (simp_all add: xs nl_next_split)
qed

lemma dlist_nl_prev:
  assumes "dlist h head (map key xs)" and "y \<in> set xs"
  shows "prv h (key y) = (case nl_prev key (key y) xs of None \<Rightarrow> head | Some z \<Rightarrow> key z)"
proof -
  have "distinct (map key xs)" using dlist_distinct [OF assms(1)] by simp
  with assms(2) obtain us vs where xs: "xs = us @ y # vs" and n: "key y \<notin> key ` set us" by (rule nl_cut)
  have "dlist h head (map key us @ key y # map key vs)" using assms(1) xs by simp
  from dlist_prev [OF this] n show ?thesis by (simp add: xs nl_prev_split last_map)
qed

text \<open>
  C26: The operations on lists of structures used throughout the models are the pointer
  operations of \<open>list.h\<close>: inserting after or before a node, unlinking a node and reading
  its neighbours agree with the heap operations on the addresses of the list's nodes.
\<close>

theorem node_list_refinement:
  assumes "dlist h head (map key xs)" and "y \<in> set xs" and "key x \<notin> set (head # map key xs)"
  shows "dlist (list_add_after (key x) (key y) h) head (map key (nl_after key (key y) x xs)) \<and>
    dlist (list_add_before (key x) (key y) h) head (map key (nl_before key (key y) x xs)) \<and>
    dlist (list_add_tail (key x) head h) head (map key (xs @ [x])) \<and>
    dlist (list_add (key x) head h) head (map key (x # xs)) \<and>
    dlist (list_del (key y) h) head (map key (nl_del key (key y) xs)) \<and>
    nxt h (key y) = (case nl_next key (key y) xs of None \<Rightarrow> head | Some z \<Rightarrow> key z) \<and>
    prv h (key y) = (case nl_prev key (key y) xs of None \<Rightarrow> head | Some z \<Rightarrow> key z)"
  using dlist_nl_after [OF assms] dlist_nl_before [OF assms] dlist_nl_del [OF assms(1,2)]
    dlist_nl_next(1) [OF assms(1,2)] dlist_nl_prev [OF assms(1,2)]
    dlist_list_add [OF assms(1,3)] dlist_list_add_tail [OF assms(1,3)]
  by simp

theorem node_list_refinement_witness:
  "let h = fold (\<lambda>x. list_add_tail x 0) [4, 9, 7] (INIT_LIST_HEAD (0 :: nat) \<lparr>nxt = id, prv = id\<rparr>)
   in dlist (list_add_after 5 9 h) 0 [4, 9, 5, 7] \<and> dlist (list_del 9 h) 0 [4, 7]"
proof -
  let ?h = "fold (\<lambda>x. list_add_tail x 0) [4, 9, 7] (INIT_LIST_HEAD (0 :: nat) \<lparr>nxt = id, prv = id\<rparr>)"
  have "dlist ?h 0 (map fst [(4, True), (9, False), (7, True)])"
    using ll.rep_fold_add_tail [OF ll.rep_init, of "0 :: nat" "[4, 9, 7]"] by simp
  from node_list_refinement [OF this, of "(9, False)" "(5, True)"]
  show ?thesis by (simp add: nl_del_def)
qed

end
