(* ===== verification/Layout.thy ===== *)
theory Layout
  imports Util
begin

text \<open>
  Page size and address conversion: the constants and conversion macros of
  \<open>include/arch/i386/mmu.h\<close>, \<open>include/arch/armv7a/mmu.h\<close>, \<open>include/arch/mips/mmu.h\<close>,
  \<open>include/arch/mips/addrspace.h\<close> and \<open>include/mm.h\<close>. \<open>KERN_BASE\<close> is the default of
  \<open>configure.ac\<close>; the start of physical memory of an ARM board is a parameter.
\<close>

section \<open>Definitions\<close>

definition PAGE_SHIFT :: nat where
  "PAGE_SHIFT = 12"

definition PAGE_SIZE :: "'a :: len word" where
  "PAGE_SIZE = push_bit PAGE_SHIFT 1"

definition KERN_BASE :: u32 where
  "KERN_BASE = 0x80000000"

subsection \<open>i386\<close>

definition i386_premap :: "u32 \<Rightarrow> u32" where
  "i386_premap kva = kva - KERN_BASE"

definition i386_postmap :: "u32 \<Rightarrow> u32" where
  "i386_postmap pa = pa + KERN_BASE"

definition i386_kva2pa :: "u32 \<Rightarrow> u32" where
  "i386_kva2pa kva = kva - KERN_BASE"

definition i386_pa2kva :: "u32 \<Rightarrow> u32" where
  "i386_pa2kva pa = pa + KERN_BASE"

text \<open>\<open>premap_addr\<close> and \<open>postmap_addr\<close> of \<open>include/mm.h\<close>, over the architecture's conversion.\<close>

definition premap_addr :: "(u32 \<Rightarrow> u32) \<Rightarrow> u32 \<Rightarrow> u32" where
  "premap_addr premap a = (if KERN_BASE \<le> a then premap a else a)"

definition postmap_addr :: "(u32 \<Rightarrow> u32) \<Rightarrow> u32 \<Rightarrow> u32" where
  "postmap_addr postmap a = (if KERN_BASE \<le> a then a else postmap a)"

subsection \<open>ARM\<close>

definition arm_kva2pa :: "u32 \<Rightarrow> u32 \<Rightarrow> u32" where
  "arm_kva2pa RAM_PHYSBASE kva = kva + RAM_PHYSBASE - KERN_BASE"

definition arm_pa2kva :: "u32 \<Rightarrow> u32 \<Rightarrow> u32" where
  "arm_pa2kva RAM_PHYSBASE pa = pa - RAM_PHYSBASE + KERN_BASE"

subsection \<open>MIPS\<close>

definition KSEG0 :: u32 where "KSEG0 = 0x80000000"
definition KSEG1 :: u32 where "KSEG1 = 0xa0000000"
definition KSSEG :: u32 where "KSSEG = 0xc0000000"
definition LOWRAM_TOP :: u32 where "LOWRAM_TOP = 0x10000000"

definition TO_CAC :: "u32 \<Rightarrow> u32" where
  "TO_CAC x = KSEG0 + x"

definition TO_UNCAC :: "u32 \<Rightarrow> u32" where
  "TO_UNCAC x = KSEG1 + x"

definition mips_kva2pa :: "u32 \<Rightarrow> u32" where
  "mips_kva2pa a =
     (if a > KSEG1 then a - KSEG1
      else if a > KSEG0 then a - KSEG0
      else if a > KSSEG then a - KSSEG + LOWRAM_TOP
      else -1)"

definition mips_pa2kva :: "u32 \<Rightarrow> u32" where
  "mips_pa2kva x = (if x > LOWRAM_TOP then x - LOWRAM_TOP + KSSEG else TO_CAC x)"

definition KSEG0_64 :: u64 where "KSEG0_64 = 0xffffffff80000000"
definition KSEG1_64 :: u64 where "KSEG1_64 = 0xffffffffa0000000"
definition XKPHY :: u64 where "XKPHY = 0x8000000000000000"
definition IO_CAC_BASE_64 :: u64 where "IO_CAC_BASE_64 = XKPHY + 0x1800000000000000"
definition IO_UNCAC_BASE_64 :: u64 where "IO_UNCAC_BASE_64 = XKPHY + 0x1000000000000000"

definition mips64_kva2pa :: "u64 \<Rightarrow> u64" where
  "mips64_kva2pa a =
     (if a > KSEG1_64 then a - KSEG1_64
      else if a > KSEG0_64 then a - KSEG0_64
      else if a > IO_CAC_BASE_64 then a - IO_CAC_BASE_64
      else if a > IO_UNCAC_BASE_64 then a - IO_UNCAC_BASE_64
      else -1)"

definition mips64_pa2kva :: "u64 \<Rightarrow> u64" where
  "mips64_pa2kva x = IO_CAC_BASE_64 + x"

section \<open>Lemmas\<close>

lemma PAGE_SIZE_eq [simp]: "PAGE_SIZE = (4096 :: u32)" "PAGE_SIZE = (4096 :: u64)"
  by (simp_all add: PAGE_SIZE_def PAGE_SHIFT_def)

lemma i386_conversion_inverse [simp]:
  "i386_kva2pa (i386_pa2kva a) = a" "i386_pa2kva (i386_kva2pa a) = a"
  by (simp_all add: i386_kva2pa_def i386_pa2kva_def)

lemma arm_conversion_inverse [simp]:
  "arm_kva2pa b (arm_pa2kva b a) = a" "arm_pa2kva b (arm_kva2pa b a) = a"
  by (simp_all add: arm_kva2pa_def arm_pa2kva_def)

lemma mips_low_round_trip:
  assumes "0 < x" and "x \<le> LOWRAM_TOP"
  shows "mips_kva2pa (mips_pa2kva x) = x"
proof -
  have "unat x \<le> 0x10000000" "0 < unat x"
    using assms by (simp_all add: word_le_nat_alt LOWRAM_TOP_def unat_gt_0)
  then have "KSEG0 + x > KSEG0" "\<not> KSEG0 + x > KSEG1"
    by (simp_all add: word_less_nat_alt KSEG0_def KSEG1_def unat_word_ariths)
  then have "mips_kva2pa (KSEG0 + x) = x" by (simp add: mips_kva2pa_def)
  moreover have "mips_pa2kva x = KSEG0 + x" using assms(2) by (simp add: mips_pa2kva_def TO_CAC_def leD)
  ultimately show ?thesis by simp
qed

lemma mips_high_round_trip:
  assumes "LOWRAM_TOP < x" and "x < 0x50000000"
  shows "mips_kva2pa (mips_pa2kva x) = x + 0x10000000"
proof -
  have "unat (x - LOWRAM_TOP) = unat x - 0x10000000"
    using assms by (simp add: unat_sub_le word_less_nat_alt word_le_nat_alt LOWRAM_TOP_def)
  moreover have "0x10000000 < unat x" "unat x < 0x50000000"
    using assms by (simp_all add: word_less_nat_alt LOWRAM_TOP_def)
  ultimately have "x - LOWRAM_TOP + KSSEG > KSEG1"
    by (simp add: word_less_nat_alt KSEG1_def KSSEG_def unat_word_ariths(1))
  with assms show ?thesis
    by (simp add: mips_pa2kva_def mips_kva2pa_def KSEG1_def KSSEG_def LOWRAM_TOP_def)
qed

text \<open>
  Physical and kernel virtual addresses convert back and forth on i386 and ARM; on
  MIPS32 that holds for the low 256 MB of memory except for address 0, whose kernel
  address converts to all ones, while every address above converts back to an address
  256 MB too high, because \<open>kva2pa\<close> tests \<open>KSEG1\<close> before \<open>KSSEG\<close>.
\<close>

theorem address_conversion:
  "i386_kva2pa (i386_pa2kva a) = a \<and> arm_kva2pa b (arm_pa2kva b a) = a \<and>
   (0 < a \<and> a \<le> LOWRAM_TOP \<longrightarrow> mips_kva2pa (mips_pa2kva a) = a) \<and>
   mips_kva2pa (mips_pa2kva 0) = -1 \<and>
   (LOWRAM_TOP < a \<and> a < 0x50000000 \<longrightarrow> mips_kva2pa (mips_pa2kva a) = a + 0x10000000)"
proof -
  have "mips_kva2pa (mips_pa2kva 0) = -1"
    by (simp add: mips_pa2kva_def mips_kva2pa_def TO_CAC_def KSEG0_def KSEG1_def KSSEG_def LOWRAM_TOP_def)
  then show ?thesis using mips_low_round_trip mips_high_round_trip by simp
qed

theorem address_conversion_witness:
  "mips_kva2pa (mips_pa2kva 0x2000) = 0x2000 \<and>
   mips_kva2pa (mips_pa2kva 0x10001000) = 0x20001000"
  using address_conversion [of "0x2000" 0] address_conversion [of "0x10001000" 0]
  by (simp add: LOWRAM_TOP_def)

end
