(* ===== verification/KmemState.thy ===== *)
theory KmemState
  imports NodeList Layout
begin

text \<open>
  The state of the kernel's memory allocators: the static variables of
  \<open>kern/mm/pmm/ff.c\<close>, \<open>kern/mm/pmm/pmm.c\<close>, \<open>kern/mm/vmm/flff.c\<close> and \<open>kern/mm/vmm/vmm.c\<close>
  in one record, because the page allocator and the object allocator call each other. The
  two tables of function pointers become values of a datatype. A structure that embeds a
  list node is a record with the address of that structure; the header in front of an
  object that is currently handed out is found in the map \<open>alloc_hdrs\<close>, and accessing a
  header or a node that does not exist is the outcome \<open>Fault\<close>.
\<close>

record pages =
  paddr :: addr_t
  psize :: addr_t
  pflags :: gfp_t

record block =
  bnode :: u32
  bpaddr :: addr_t
  bsize :: addr_t
  bflags :: gfp_t

record blockhdr =
  haddr :: u32
  hsize :: u32
  hfree :: bool
  hflags :: gfp_t

datatype page_allocator = PDummy | PFirstFit

datatype simple_allocator = SDummy | SBootstrap | SProper

record kmem =
  ff_head :: "block list"
  ff_free_space :: addr_t
  pallocator :: page_allocator
  boot_head :: "blockhdr list"
  simple_head :: "blockhdr list"
  alloc_hdrs :: "u32 \<Rightarrow> blockhdr option"
  sallocator :: simple_allocator

text \<open>The two lists of \<open>flff.c\<close>.\<close>

datatype heap = Boot | Proper

fun hdrs :: "heap \<Rightarrow> kmem \<Rightarrow> blockhdr list" where
  "hdrs Boot st = boot_head st"
| "hdrs Proper st = simple_head st"

fun set_hdrs :: "heap \<Rightarrow> blockhdr list \<Rightarrow> kmem \<Rightarrow> kmem" where
  "set_hdrs Boot xs st = st\<lparr>boot_head := xs\<rparr>"
| "set_hdrs Proper xs st = st\<lparr>simple_head := xs\<rparr>"

text \<open>The types of the entry points through which the two allocators call each other.\<close>

type_synonym kmalloc_fn = "u32 \<Rightarrow> gfp_t \<Rightarrow> kmem \<Rightarrow> (u32 \<times> kmem) outcome"
type_synonym kfree_fn = "u32 \<Rightarrow> kmem \<Rightarrow> kmem outcome"
type_synonym alloc_pages_fn = "pages \<Rightarrow> kmem \<Rightarrow> (int \<times> pages \<times> kmem) outcome"
type_synonym free_pages_fn = "pages \<Rightarrow> kmem \<Rightarrow> kmem outcome"

lemma hdrs_set_hdrs [simp]: "hdrs h (set_hdrs h xs st) = xs"
  by (cases h) auto

lemma set_hdrs_sel [simp]:
  "ff_head (set_hdrs h xs st) = ff_head st" "ff_free_space (set_hdrs h xs st) = ff_free_space st"
  "alloc_hdrs (set_hdrs h xs st) = alloc_hdrs st" "sallocator (set_hdrs h xs st) = sallocator st"
  "pallocator (set_hdrs h xs st) = pallocator st"
  by (cases h; simp)+

lemma hdrs_update [simp]:
  "hdrs h (st\<lparr>ff_head := a\<rparr>) = hdrs h st" "hdrs h (st\<lparr>ff_free_space := b\<rparr>) = hdrs h st"
  "hdrs h (st\<lparr>alloc_hdrs := c\<rparr>) = hdrs h st" "hdrs h (st\<lparr>pallocator := d\<rparr>) = hdrs h st"
  "hdrs h (st\<lparr>sallocator := e\<rparr>) = hdrs h st"
  by (cases h; simp)+

end
