(* ===== verification/FreeList.thy ===== *)
theory FreeList
  imports Prelude
begin

text \<open>
  The abstract specification shared by the two free-list allocators, the page allocator of
  \<open>kern/mm/pmm/ff.c\<close> and the object allocator of \<open>kern/mm/vmm/flff.c\<close>: an address-ordered
  list of disjoint intervals of natural numbers, its cover (the set of free addresses),
  cutting an interval from the front of a block, and inserting an interval with merging of
  direct neighbours. A list without touching neighbours is determined by its cover.
\<close>

type_synonym ivl = "nat \<times> nat"

definition iend :: "ivl \<Rightarrow> nat" where
  "iend i = fst i + snd i"

definition points :: "ivl \<Rightarrow> nat set" where
  "points i = {fst i ..< iend i}"

definition cover :: "ivl list \<Rightarrow> nat set" where
  "cover xs = (\<Union>i \<in> set xs. points i)"

text \<open>Sorted and disjoint; and moreover with a gap between any two intervals.\<close>

definition ordered :: "ivl list \<Rightarrow> bool" where
  "ordered xs \<longleftrightarrow> (\<forall>i \<in> set xs. 0 < snd i) \<and> sorted_wrt (\<lambda>i j. iend i \<le> fst j) xs"

definition coalesced :: "ivl list \<Rightarrow> bool" where
  "coalesced xs \<longleftrightarrow> (\<forall>i \<in> set xs. 0 < snd i) \<and> sorted_wrt (\<lambda>i j. iend i < fst j) xs"

definition total :: "ivl list \<Rightarrow> nat" where
  "total xs = sum_list (map snd xs)"

definition merge_down :: "ivl list \<Rightarrow> ivl \<Rightarrow> ivl list \<times> ivl" where
  "merge_down pre i =
     (if pre \<noteq> [] \<and> iend (last pre) = fst i
      then (butlast pre, (fst (last pre), snd (last pre) + snd i)) else (pre, i))"

definition merge_up :: "ivl \<Rightarrow> ivl list \<Rightarrow> ivl \<times> ivl list" where
  "merge_up i post =
     (if post \<noteq> [] \<and> iend i = fst (hd post) then ((fst i, snd i + snd (hd post)), tl post) else (i, post))"

definition fl_add :: "ivl \<Rightarrow> ivl list \<Rightarrow> ivl list" where
  "fl_add i xs =
     (let pre = takeWhile (\<lambda>j. fst j < fst i) xs;
          post = dropWhile (\<lambda>j. fst j < fst i) xs;
          (pre, i) = merge_down pre i;
          (i, post) = merge_up i post
      in pre @ i # post)"

text \<open>Cutting \<open>s\<close> units from the front of the first interval with at least \<open>s\<close> units.\<close>

fun fl_cut :: "nat \<Rightarrow> ivl list \<Rightarrow> (nat \<times> ivl list) option" where
  "fl_cut s [] = None"
| "fl_cut s ((a, l) # xs) =
     (if s \<le> l then Some (a, if l = s then xs else (a + s, l - s) # xs)
      else map_option (\<lambda>(p, ys). (p, (a, l) # ys)) (fl_cut s xs))"

section \<open>Covers\<close>

lemma iend_pair [simp]: "iend (a, l) = a + l"
  by (simp add: iend_def)

lemma points_pair [simp]: "points (a, l) = {a ..< a + l}"
  by (simp add: points_def)

lemma cover_simps [simp]:
  "cover [] = {}" "cover (i # xs) = points i \<union> cover xs" "cover (xs @ ys) = cover xs \<union> cover ys"
  by (auto simp: cover_def)

lemma total_simps [simp]:
  "total [] = 0" "total (i # xs) = snd i + total xs" "total (xs @ ys) = total xs + total ys"
  by (auto simp: total_def)

lemma ordered_Nil [simp]: "ordered []" and coalesced_Nil [simp]: "coalesced []"
  by (simp_all add: ordered_def coalesced_def)

lemma ordered_Cons: "ordered (i # xs) \<longleftrightarrow> 0 < snd i \<and> (\<forall>j \<in> set xs. iend i \<le> fst j) \<and> ordered xs"
  by (auto simp: ordered_def)

lemma coalesced_Cons: "coalesced (i # xs) \<longleftrightarrow> 0 < snd i \<and> (\<forall>j \<in> set xs. iend i < fst j) \<and> coalesced xs"
  by (auto simp: coalesced_def)

lemma ordered_append:
  "ordered (xs @ ys) \<longleftrightarrow> ordered xs \<and> ordered ys \<and> (\<forall>i \<in> set xs. \<forall>j \<in> set ys. iend i \<le> fst j)"
  by (auto simp: ordered_def sorted_wrt_append)

lemma coalesced_append:
  "coalesced (xs @ ys) \<longleftrightarrow> coalesced xs \<and> coalesced ys \<and> (\<forall>i \<in> set xs. \<forall>j \<in> set ys. iend i < fst j)"
  by (auto simp: coalesced_def sorted_wrt_append)

lemma coalesced_ordered: "coalesced xs \<Longrightarrow> ordered xs"
  unfolding coalesced_def ordered_def
  by (auto intro: sorted_wrt_mono_rel [of xs "\<lambda>i j. iend i < fst j"])

lemma disjoint_points_iff:
  assumes "0 < snd i" and "0 < snd j"
  shows "points i \<inter> points j = {} \<longleftrightarrow> iend i \<le> fst j \<or> iend j \<le> fst i"
proof
  assume "points i \<inter> points j = {}"
  then have "max (fst i) (fst j) \<notin> points i \<inter> points j" by simp
  then show "iend i \<le> fst j \<or> iend j \<le> fst i"
    using assms by (auto simp: points_def iend_def max_def split: if_splits)
qed (auto simp: points_def)

lemma points_cover_disjoint: "points i \<inter> cover xs = {} \<Longrightarrow> j \<in> set xs \<Longrightarrow> points i \<inter> points j = {}"
  by (auto simp: cover_def)

lemma total_cover: "ordered xs \<Longrightarrow> total xs = card (cover xs)"
proof (induction xs)
  case (Cons i xs)
  have "points i \<inter> cover xs = {}"
    using Cons.prems by (fastforce simp: ordered_Cons cover_def points_def iend_def)
  moreover have "finite (cover xs)" "finite (points i)" by (auto simp: cover_def points_def)
  ultimately have "card (cover (i # xs)) = card (points i) + card (cover xs)"
    by (simp add: card_Un_disjoint)
  with Cons show ?case by (simp add: ordered_Cons points_def iend_def)
qed simp

section \<open>Insertion\<close>

lemma merge_down_cover:
  "merge_down pre i = (pre', i') \<Longrightarrow> cover pre' \<union> points i' = cover pre \<union> points i"
  by (cases pre rule: rev_cases) (auto simp: merge_down_def points_def iend_def split: if_splits)

lemma merge_down_iend: "merge_down pre i = (pre', i') \<Longrightarrow> iend i' = iend i"
  by (auto simp: merge_down_def iend_def split: if_splits)

lemma merge_up_cover:
  "merge_up i post = (i', post') \<Longrightarrow> points i' \<union> cover post' = points i \<union> cover post"
  by (cases post) (auto simp: merge_up_def points_def iend_def split: if_splits)

lemma fl_add_cover: "cover (fl_add i xs) = cover xs \<union> points i"
proof -
  let ?pre = "takeWhile (\<lambda>j. fst j < fst i) xs" and ?post = "dropWhile (\<lambda>j. fst j < fst i) xs"
  obtain pre i1 where d: "merge_down ?pre i = (pre, i1)" by (rule prod.exhaust)
  obtain i2 post where u: "merge_up i1 ?post = (i2, post)" by (rule prod.exhaust)
  have "cover xs = cover ?pre \<union> cover ?post"
    by (simp flip: cover_simps(3))
  then show ?thesis
    using merge_down_cover [OF d] merge_up_cover [OF u] by (auto simp: fl_add_def d u)
qed

lemma fl_add_total: "total (fl_add i xs) = total xs + snd i"
proof -
  have down: "total pre' + snd i' = total pre + snd i" if "merge_down pre i = (pre', i')" for pre pre' i'
    using that by (cases pre rule: rev_cases) (auto simp: merge_down_def split: if_splits)
  have up: "snd i' + total post' = snd j + total post" if "merge_up j post = (i', post')" for j post post' i'
    using that by (cases post) (auto simp: merge_up_def split: if_splits)
  let ?pre = "takeWhile (\<lambda>j. fst j < fst i) xs" and ?post = "dropWhile (\<lambda>j. fst j < fst i) xs"
  obtain pre i1 where d: "merge_down ?pre i = (pre, i1)" by (rule prod.exhaust)
  obtain i2 post where u: "merge_up i1 ?post = (i2, post)" by (rule prod.exhaust)
  have "total xs = total ?pre + total ?post" by (simp flip: total_simps(3))
  with down [OF d] up [OF u] show ?thesis by (simp add: fl_add_def d u)
qed

lemma fl_add_length: "length (fl_add i xs) \<le> Suc (length xs)"
proof -
  let ?pre = "takeWhile (\<lambda>j. fst j < fst i) xs" and ?post = "dropWhile (\<lambda>j. fst j < fst i) xs"
  obtain pre i1 where d: "merge_down ?pre i = (pre, i1)" by (rule prod.exhaust)
  obtain i2 post where u: "merge_up i1 ?post = (i2, post)" by (rule prod.exhaust)
  have "length pre \<le> length ?pre" using d by (auto simp: merge_down_def split: if_splits)
  moreover have "length post \<le> length ?post" using u by (auto simp: merge_up_def split: if_splits)
  moreover have "length xs = length ?pre + length ?post" by (simp flip: length_append)
  ultimately show ?thesis by (simp add: fl_add_def d u)
qed

text \<open>A property of intervals that joining neighbours keeps is kept by insertion.\<close>

definition join_closed :: "(ivl \<Rightarrow> bool) \<Rightarrow> bool" where
  "join_closed P \<longleftrightarrow> (\<forall>i j. P i \<and> P j \<and> iend i = fst j \<longrightarrow> P (fst i, snd i + snd j))"

lemma join_closedD: "join_closed P \<Longrightarrow> P i \<Longrightarrow> P j \<Longrightarrow> iend i = fst j \<Longrightarrow> P (fst i, snd i + snd j)"
  unfolding join_closed_def by blast

lemma merge_down_all:
  assumes join: "join_closed P"
    and "merge_down pre i = (pre', i')" and "\<forall>j \<in> set pre. P j" and "P i"
  shows "(\<forall>j \<in> set pre'. P j) \<and> P i'"
proof (cases "pre \<noteq> [] \<and> iend (last pre) = fst i")
  case True
  then have "pre' = butlast pre" "i' = (fst (last pre), snd (last pre) + snd i)"
    using assms(2) by (simp_all add: merge_down_def)
  then show ?thesis
    using True assms(3,4) join_closedD [OF join, of "last pre" i] by (auto dest: in_set_butlastD)
next
  case False
  then have "pre' = pre" "i' = i" using assms(2) by (simp_all add: merge_down_def split: if_splits)
  with assms(3,4) show ?thesis by simp
qed

lemma merge_up_all:
  assumes join: "join_closed P"
    and "merge_up i post = (i', post')" and "\<forall>j \<in> set post. P j" and "P i"
  shows "(\<forall>j \<in> set post'. P j) \<and> P i'"
proof (cases "post \<noteq> [] \<and> iend i = fst (hd post)")
  case True
  then have "post' = tl post" "i' = (fst i, snd i + snd (hd post))"
    using assms(2) by (simp_all add: merge_up_def)
  then show ?thesis
    using True assms(3,4) join_closedD [OF join, of i "hd post"] by (auto dest: list.set_sel(2))
next
  case False
  then have "post' = post" "i' = i" using assms(2) by (simp_all add: merge_up_def split: if_splits)
  with assms(3,4) show ?thesis by simp
qed

lemma fl_add_all:
  assumes join: "join_closed P"
    and "\<forall>j \<in> set xs. P j" and "P i"
  shows "\<forall>j \<in> set (fl_add i xs). P j"
proof -
  define pre post where "pre = takeWhile (\<lambda>j. fst j < fst i) xs" and "post = dropWhile (\<lambda>j. fst j < fst i) xs"
  have all: "\<forall>j \<in> set pre. P j" "\<forall>j \<in> set post. P j"
    using assms(2) by (auto simp: pre_def post_def dest: set_takeWhileD set_dropWhileD)
  obtain pre1 i1 where d: "merge_down pre i = (pre1, i1)" by (rule prod.exhaust)
  obtain i2 post1 where u: "merge_up i1 post = (i2, post1)" by (rule prod.exhaust)
  have 1: "(\<forall>j \<in> set pre1. P j) \<and> P i1"
    by (rule merge_down_all [OF join d all(1) assms(3)])
  have "(\<forall>j \<in> set post1. P j) \<and> P i2"
    by (rule merge_up_all [OF join u all(2) conjunct2 [OF 1]])
  with 1 show ?thesis by (auto simp: fl_add_def d u simp flip: pre_def post_def)
qed

text \<open>
  Inserting an interval that no free interval meets: everything before the insertion point
  ends before it, everything after it starts after it.
\<close>

lemma split_around:
  assumes "ordered xs" and "0 < snd i" and "points i \<inter> cover xs = {}"
  defines "pre \<equiv> takeWhile (\<lambda>j. fst j < fst i) xs" and "post \<equiv> dropWhile (\<lambda>j. fst j < fst i) xs"
  shows "xs = pre @ post" and "\<forall>j \<in> set pre. iend j \<le> fst i" and "\<forall>j \<in> set post. iend i \<le> fst j"
proof -
  show xs: "xs = pre @ post" by (simp add: pre_def post_def)
  have pos: "0 < snd j" if "j \<in> set xs" for j using assms(1) that by (simp add: ordered_def)
  have cases: "iend i \<le> fst j \<or> iend j \<le> fst i" if "j \<in> set xs" for j
    using disjoint_points_iff [OF assms(2) pos [OF that]] points_cover_disjoint [OF assms(3) that] by simp
  show "\<forall>j \<in> set pre. iend j \<le> fst i"
  proof
    fix j assume j: "j \<in> set pre"
    then have "fst j < fst i" unfolding pre_def using set_takeWhileD by fast
    with cases [of j] j assms(2) xs show "iend j \<le> fst i" by (auto simp: iend_def)
  qed
  have "sorted_wrt (\<lambda>j k. fst j \<le> fst k) xs"
    using assms(1) unfolding ordered_def
    by (auto intro: sorted_wrt_mono_rel [of xs "\<lambda>i j. iend i \<le> fst j"] simp: iend_def)
  then have "sorted_wrt (\<lambda>j k. fst j \<le> fst k) post" using xs by (simp add: sorted_wrt_append)
  moreover have "fst i \<le> fst (hd post)" if "post \<noteq> []"
    using that hd_dropWhile [of "\<lambda>j. fst j < fst i" xs] unfolding post_def by simp
  ultimately have "\<forall>j \<in> set post. fst i \<le> fst j" by (cases post) auto
  then show "\<forall>j \<in> set post. iend i \<le> fst j"
    using cases pos xs by (fastforce simp: iend_def)
qed

lemma fl_add_ordered:
  assumes "ordered xs" and "0 < snd i" and "points i \<inter> cover xs = {}"
  shows "ordered (fl_add i xs)"
proof -
  define pre post where "pre = takeWhile (\<lambda>j. fst j < fst i) xs" and "post = dropWhile (\<lambda>j. fst j < fst i) xs"
  note sp = split_around [OF assms, folded pre_def post_def]
  have o: "ordered pre" "ordered post" using assms(1) sp(1) by (simp_all add: ordered_append)
  obtain pre1 i1 where d: "merge_down pre i = (pre1, i1)" by (rule prod.exhaust)
  obtain i2 post1 where u: "merge_up i1 post = (i2, post1)" by (rule prod.exhaust)
  have 1: "ordered pre1" "0 < snd i1" "\<forall>j \<in> set pre1. iend j \<le> fst i1" "iend i1 = iend i"
    using d o(1) sp(2) assms(2)
    by (cases pre rule: rev_cases; auto simp: merge_down_def ordered_append iend_def split: if_splits)+
  have 2: "ordered post1" "0 < snd i2" "\<forall>j \<in> set post1. iend i2 \<le> fst j" "fst i2 = fst i1"
    using u o(2) sp(3) 1(2,4)
    by (cases post; auto simp: merge_up_def ordered_Cons iend_def split: if_splits)+
  have "\<forall>j \<in> set pre1. \<forall>k \<in> set post1. iend j \<le> fst k"
    using 1(3) 2(2,3,4) by (fastforce simp: iend_def)
  with 1 2 have "ordered (pre1 @ i2 # post1)" by (auto simp: ordered_append ordered_Cons)
  then show ?thesis by (simp add: fl_add_def d u flip: pre_def post_def)
qed

lemma fl_add_coalesced:
  assumes "coalesced xs" and "0 < snd i" and "points i \<inter> cover xs = {}"
  shows "coalesced (fl_add i xs)"
proof -
  define pre post where "pre = takeWhile (\<lambda>j. fst j < fst i) xs" and "post = dropWhile (\<lambda>j. fst j < fst i) xs"
  note sp = split_around [OF coalesced_ordered [OF assms(1)] assms(2,3), folded pre_def post_def]
  have o: "coalesced pre" "coalesced post" using assms(1) sp(1) by (simp_all add: coalesced_append)
  obtain pre1 i1 where d: "merge_down pre i = (pre1, i1)" by (rule prod.exhaust)
  obtain i2 post1 where u: "merge_up i1 post = (i2, post1)" by (rule prod.exhaust)
  have 1: "coalesced pre1" "0 < snd i1" "\<forall>j \<in> set pre1. iend j < fst i1" "iend i1 = iend i"
    using d o(1) sp(2) assms(2)
    by (cases pre rule: rev_cases; fastforce simp: merge_down_def coalesced_append iend_def split: if_splits)+
  have 2: "coalesced post1" "0 < snd i2" "\<forall>j \<in> set post1. iend i2 < fst j" "fst i2 = fst i1"
    using u o(2) sp(3) 1(2,4)
    by (cases post; fastforce simp: merge_up_def coalesced_Cons iend_def split: if_splits)+
  have "\<forall>j \<in> set pre1. \<forall>k \<in> set post1. iend j < fst k"
    using 1(3) 2(2,3,4) by (fastforce simp: iend_def)
  with 1 2 have "coalesced (pre1 @ i2 # post1)" by (auto simp: coalesced_append coalesced_Cons)
  then show ?thesis by (simp add: fl_add_def d u flip: pre_def post_def)
qed

section \<open>A coalesced list is determined by its cover\<close>

lemma Min_cover:
  assumes "ordered (i # xs)"
  shows "fst i \<in> cover (i # xs)" and "\<And>p. p \<in> cover (i # xs) \<Longrightarrow> fst i \<le> p"
proof -
  show "fst i \<in> cover (i # xs)" using assms by (simp add: points_def iend_def ordered_Cons)
  fix p assume "p \<in> cover (i # xs)"
  then consider "p \<in> points i" | j where "j \<in> set xs" "p \<in> points j" by (auto simp: cover_def)
  then show "fst i \<le> p"
    by cases (use assms in \<open>fastforce simp: points_def ordered_Cons iend_def\<close>)+
qed

lemma iend_not_cover: "coalesced (i # xs) \<Longrightarrow> iend i \<notin> cover (i # xs)"
  by (fastforce simp: coalesced_Cons cover_def points_def)

lemma cover_tail:
  assumes "ordered (i # xs)"
  shows "cover xs = cover (i # xs) - points i"
  using assms by (fastforce simp: ordered_Cons cover_def points_def)

lemma iend_le_of_cover:
  assumes "coalesced (i # xs)" and "coalesced (j # ys)" and "cover (i # xs) = cover (j # ys)"
    and "fst i = fst j"
  shows "iend i \<le> iend j"
proof (rule ccontr)
  assume "\<not> iend i \<le> iend j"
  moreover have "0 < snd j" using assms(2) by (simp add: coalesced_Cons)
  ultimately have "iend j \<in> points i" using assms(4) by (simp add: points_def iend_def)
  with assms(3) iend_not_cover [OF assms(2)] show False by auto
qed

lemma coalesced_unique:
  "coalesced xs \<Longrightarrow> coalesced ys \<Longrightarrow> cover xs = cover ys \<Longrightarrow> xs = ys"
proof (induction xs arbitrary: ys)
  case Nil
  then show ?case using Min_cover(1) [OF coalesced_ordered] by (cases ys) fastforce+
next
  case (Cons i xs)
  obtain j zs where ys: "ys = j # zs"
    using Cons.prems Min_cover(1) [OF coalesced_ordered [OF Cons.prems(1)]] by (cases ys) auto
  note o = coalesced_ordered [OF Cons.prems(1)] coalesced_ordered [OF Cons.prems(2) [unfolded ys]]
  have fst: "fst i = fst j"
    using Min_cover [OF o(1)] Min_cover [OF o(2)] Cons.prems(3) ys by (metis order_antisym)
  moreover have "iend i = iend j"
    using iend_le_of_cover [of i xs j zs] iend_le_of_cover [of j zs i xs] Cons.prems fst ys
    by (simp add: order_antisym)
  ultimately have "i = j" by (simp add: prod_eq_iff iend_def)
  then have "cover xs = cover zs"
    using cover_tail [OF o(1)] cover_tail [OF o(2)] Cons.prems(3) ys by simp
  with Cons.IH [of zs] Cons.prems ys \<open>i = j\<close> show ?case by (simp add: coalesced_Cons)
qed

section \<open>Cutting\<close>

lemma fl_cut_Some:
  "fl_cut s xs = Some (a, ys) \<Longrightarrow>
   \<exists>pre l post. xs = pre @ (a, l) # post \<and> s \<le> l \<and> (\<forall>j \<in> set pre. snd j < s)
     \<and> ys = pre @ (if l = s then [] else [(a + s, l - s)]) @ post"
proof (induction s xs arbitrary: ys rule: fl_cut.induct)
  case (2 s b m xs)
  show ?case
  proof (cases "s \<le> m")
    case True
    with 2(2) show ?thesis by (intro exI [of _ "[]"] exI [of _ m] exI [of _ xs]) auto
  next
    case False
    with 2(2) obtain zs where zs: "fl_cut s xs = Some (a, zs)" "ys = (b, m) # zs" by auto
    from 2(1) [OF False zs(1)] obtain pre l post where "xs = pre @ (a, l) # post" "s \<le> l"
      "\<forall>j \<in> set pre. snd j < s" "zs = pre @ (if l = s then [] else [(a + s, l - s)]) @ post" by blast
    with False zs(2) show ?thesis
      by (intro exI [of _ "(b, m) # pre"] exI [of _ l] exI [of _ post]) auto
  qed
qed simp

lemma fl_cut_None: "fl_cut s xs = None \<longleftrightarrow> (\<forall>i \<in> set xs. snd i < s)"
  by (induction s xs rule: fl_cut.induct) (auto simp: not_le)

text \<open>The list with \<open>s\<close> units cut from the front of one of its intervals.\<close>

lemma cut_cover:
  assumes "ordered (pre @ (a, l) # post)" and l: "s \<le> l"
  shows "{a ..< a + s} \<subseteq> cover (pre @ (a, l) # post)"
    and "cover (pre @ (if l = s then [] else [(a + s, l - s)]) @ post)
      = cover (pre @ (a, l) # post) - {a ..< a + s}"
proof -
  show "{a ..< a + s} \<subseteq> cover (pre @ (a, l) # post)" using l by auto
  have pre: "{a ..< a + l} \<inter> cover pre = {}"
  proof -
    have "iend j \<le> a" if "j \<in> set pre" for j using assms(1) that by (auto simp: ordered_append)
    then show ?thesis by (fastforce simp: cover_def points_def)
  qed
  have post: "{a ..< a + l} \<inter> cover post = {}"
  proof -
    have "a + l \<le> fst j" if "j \<in> set post" for j
      using assms(1) that by (auto simp: ordered_append ordered_Cons)
    then show ?thesis by (fastforce simp: cover_def points_def)
  qed
  have "cover (pre @ (if l = s then [] else [(a + s, l - s)]) @ post)
      = cover pre \<union> {a + s ..< a + l} \<union> cover post" using l by auto
  moreover have "cover (pre @ (a, l) # post) = cover pre \<union> {a ..< a + l} \<union> cover post" by auto
  moreover have "{a ..< a + l} - {a ..< a + s} = {a + s ..< a + l}" using l by auto
  moreover have "{a ..< a + s} \<subseteq> {a ..< a + l}" using l by auto
  ultimately show "cover (pre @ (if l = s then [] else [(a + s, l - s)]) @ post)
      = cover (pre @ (a, l) # post) - {a ..< a + s}" using pre post by blast
qed

lemma cut_ordered:
  "ordered (pre @ (a, l) # post) \<Longrightarrow> s \<le> l \<Longrightarrow> ordered (pre @ (if l = s then [] else [(a + s, l - s)]) @ post)"
  by (fastforce simp: ordered_append ordered_Cons)

text \<open>The list with the middle \<open>A ..< B\<close> of one of its intervals taken out.\<close>

lemma punch_hole:
  assumes o: "ordered (pre @ (a, l) # post)" and b: "a \<le> A" "A < B" "B \<le> a + l"
    and ys: "ys = pre @ (if a < A then [(a, A - a)] else []) @ (if B < a + l then [(B, a + l - B)] else []) @ post"
  shows "ordered ys" and "cover ys = cover (pre @ (a, l) # post) - {A ..< B}"
proof -
  have pre: "iend j \<le> a" if "j \<in> set pre" for j using o that by (auto simp: ordered_append)
  have post: "a + l \<le> fst j" if "j \<in> set post" for j using o that by (auto simp: ordered_append ordered_Cons)
  have pp: "iend i \<le> fst j" if "i \<in> set pre" "j \<in> set post" for i j
    using pre [OF that(1)] post [OF that(2)] by simp
  have parts: "ordered pre" "ordered post" using o by (simp_all add: ordered_append ordered_Cons)
  have "ordered ((if a < A then [(a, A - a)] else []) @ (if B < a + l then [(B, a + l - B)] else []) @ post)"
    using b parts(2) post by (fastforce simp: ordered_append ordered_Cons)
  then show "ordered ys"
    unfolding ys ordered_append [of pre] using parts(1) pre pp b by (fastforce split: if_splits)
  have "{A ..< B} \<inter> cover pre = {}" using pre b by (fastforce simp: cover_def points_def)
  moreover have "{A ..< B} \<inter> cover post = {}" using post b by (fastforce simp: cover_def points_def)
  moreover have "cover ys = cover pre \<union> ({a ..< A} \<union> {B ..< a + l}) \<union> cover post"
    using b unfolding ys by auto
  moreover have "{a ..< A} \<union> {B ..< a + l} = {a ..< a + l} - {A ..< B}" using b by auto
  ultimately show "cover ys = cover (pre @ (a, l) # post) - {A ..< B}" by auto
qed

lemma fl_cut_cover:
  assumes "fl_cut s xs = Some (a, ys)" and "ordered xs"
  shows "{a ..< a + s} \<subseteq> cover xs" "cover ys = cover xs - {a ..< a + s}"
proof -
  obtain pre l post where xs: "xs = pre @ (a, l) # post" and l: "s \<le> l"
    and ys: "ys = pre @ (if l = s then [] else [(a + s, l - s)]) @ post"
    using fl_cut_Some [OF assms(1)] by blast
  show "{a ..< a + s} \<subseteq> cover xs" "cover ys = cover xs - {a ..< a + s}"
    using cut_cover [of pre a l post s] assms(2) l unfolding xs ys by blast+
qed

lemma fl_cut_total: "fl_cut s xs = Some (a, ys) \<Longrightarrow> total ys + s = total xs"
  by (auto dest!: fl_cut_Some)

lemma fl_cut_ordered: "fl_cut s xs = Some (a, ys) \<Longrightarrow> ordered xs \<Longrightarrow> ordered ys"
  using cut_ordered by (fastforce dest!: fl_cut_Some)

lemma fl_cut_coalesced: "fl_cut s xs = Some (a, ys) \<Longrightarrow> coalesced xs \<Longrightarrow> coalesced ys"
  by (fastforce dest!: fl_cut_Some simp: coalesced_append coalesced_Cons)

text \<open>Giving back what was cut restores a coalesced list exactly.\<close>

lemma fl_add_cut:
  assumes "fl_cut s xs = Some (a, ys)" and "coalesced xs" and "0 < s"
  shows "fl_add (a, s) ys = xs"
proof (rule coalesced_unique)
  note c = fl_cut_cover [OF assms(1) coalesced_ordered [OF assms(2)]]
  show "coalesced (fl_add (a, s) ys)"
    by (rule fl_add_coalesced [OF fl_cut_coalesced [OF assms(1,2)]]) (use c assms(3) in auto)
  show "cover (fl_add (a, s) ys) = cover xs" using c by (auto simp: fl_add_cover)
qed fact

end
