(* ===== verification/Pmm.thy ===== *)
theory Pmm
  imports KmemState FreeList
begin

text \<open>
  The first-fit page allocator of \<open>kern/mm/pmm/ff.c\<close> and the dispatch of
  \<open>kern/mm/pmm/pmm.c\<close>. The allocator keeps its blocks in objects it obtains with
  \<open>kmalloc\<close> and releases with \<open>kfree\<close>, which are arguments here: the object allocator may in
  turn call the page allocator. A \<open>return NULL\<close> from a function of type \<open>int\<close> is the value 0.
\<close>

section \<open>The allocator\<close>

text \<open>\<open>sizeof(struct block)\<close> on a 32-bit machine.\<close>

definition sizeof_block :: u32 where
  "sizeof_block = 32"

fun first_fit :: "addr_t \<Rightarrow> block list \<Rightarrow> block option" where
  "first_fit sz [] = None"
| "first_fit sz (this # rest) = (if bsize this \<ge> sz then Some this else first_fit sz rest)"

definition ff_alloc :: "kfree_fn \<Rightarrow> alloc_pages_fn" where
  "ff_alloc kfree pages st =
     (if \<not> IS_ALIGNED (psize pages) PAGE_SIZE then Ret (0, pages, st)
      else if psize pages > ff_free_space st then Ret (0, pages, st)
      else case first_fit (psize pages) (ff_head st) of
        None \<Rightarrow> Ret (EOF, pages, st)
      | Some this \<Rightarrow>
          let pages = pages\<lparr>paddr := bpaddr this\<rparr>;
              this = this\<lparr>bpaddr := bpaddr this + psize pages, bsize := bsize this - psize pages\<rparr>;
              st = st\<lparr>ff_head := nl_update bnode this (ff_head st)\<rparr>
          in obind (if bsize this = 0
                    then kfree (bnode this) (st\<lparr>ff_head := nl_del bnode (bnode this) (ff_head st)\<rparr>)
                    else Ret st)
               (\<lambda>st. Ret (0, pages, st\<lparr>ff_free_space := ff_free_space st - psize pages\<rparr>)))"

text \<open>The loop of \<open>__free\<close> that finds the block in front of the freed one.\<close>

fun ff_scan :: "addr_t \<Rightarrow> block option \<Rightarrow> block list \<Rightarrow> block option" where
  "ff_scan a prev [] = prev"
| "ff_scan a prev (tmp # rest) = (if bpaddr tmp \<ge> a then prev else ff_scan a (Some tmp) rest)"

definition ff_link :: "block option \<Rightarrow> block \<Rightarrow> block list \<Rightarrow> block list" where
  "ff_link prev this xs = (case prev of Some p \<Rightarrow> nl_after bnode (bnode p) this xs | None \<Rightarrow> this # xs)"

definition ff_merge_down :: "kfree_fn \<Rightarrow> block option \<Rightarrow> block \<Rightarrow> kmem \<Rightarrow> (u32 \<times> kmem) outcome" where
  "ff_merge_down kfree prev this st =
     (case prev of
        None \<Rightarrow> Ret (bnode this, st)
      | Some p \<Rightarrow>
          if bpaddr p + bsize p = bpaddr this then
            let p = p\<lparr>bsize := bsize p + bsize this\<rparr>;
                st = st\<lparr>ff_head := nl_del bnode (bnode this) (nl_update bnode p (ff_head st))\<rparr>
            in obind (kfree (bnode this) st) (\<lambda>st. Ret (bnode p, st))
          else Ret (bnode this, st))"

definition ff_merge_up :: "kfree_fn \<Rightarrow> u32 \<Rightarrow> kmem \<Rightarrow> kmem outcome" where
  "ff_merge_up kfree node st =
     (case nl_find bnode node (ff_head st) of
        None \<Rightarrow> Fault
      | Some this \<Rightarrow>
          (case nl_next bnode node (ff_head st) of
             None \<Rightarrow> Ret st
           | Some next \<Rightarrow>
               if bpaddr this + bsize this = bpaddr next then
                 let this = this\<lparr>bsize := bsize this + bsize next\<rparr>;
                     st = st\<lparr>ff_head := nl_del bnode (bnode next) (nl_update bnode this (ff_head st))\<rparr>
                 in kfree (bnode next) st
               else Ret st))"

definition ff_free :: "kmalloc_fn \<Rightarrow> kfree_fn \<Rightarrow> free_pages_fn" where
  "ff_free kmalloc kfree pages st =
     (if \<not> IS_ALIGNED (paddr pages) PAGE_SIZE then Ret st
      else if \<not> IS_ALIGNED (psize pages) PAGE_SIZE then Ret st
      else obind (kmalloc sizeof_block 0 st) (\<lambda>(node, st).
        if node = 0 then Panic
        else
          let this = \<lparr>bnode = node, bpaddr = paddr pages, bsize = psize pages, bflags = pflags pages\<rparr>;
              prev = ff_scan (bpaddr this) None (ff_head st);
              st = st\<lparr>ff_head := ff_link prev this (ff_head st)\<rparr>
          in obind (ff_merge_down kfree prev this st) (\<lambda>(node, st).
               obind (ff_merge_up kfree node st) (\<lambda>st.
                 Ret (st\<lparr>ff_free_space := ff_free_space st + psize pages\<rparr>)))))"

definition ff_get_free :: "kmem \<Rightarrow> addr_t" where
  "ff_get_free st = ff_free_space st"

definition set_page_allocator :: "page_allocator \<Rightarrow> kmem \<Rightarrow> kmem" where
  "set_page_allocator a st = st\<lparr>pallocator := a\<rparr>"

definition page_allocator_init :: "kmem \<Rightarrow> int \<times> kmem" where
  "page_allocator_init st =
     (0, set_page_allocator PFirstFit (st\<lparr>ff_free_space := 0, ff_head := []\<rparr>))"

text \<open>
  \<open>page_allocator_move\<close>: every block is replaced by a copy in an object of the current
  allocator, and the old object is given back to the old one. The loop follows the
  list's pointers, so it starts each round from the node it reached; \<open>flags\<close> is left as
  \<open>kmalloc\<close> returned it, which is the argument \<open>junk\<close>. The loop may run \<open>n\<close> rounds.
\<close>

fun move_loop :: "nat \<Rightarrow> kmalloc_fn \<Rightarrow> kfree_fn \<Rightarrow> gfp_t \<Rightarrow> block option \<Rightarrow> kmem \<Rightarrow> kmem outcome" where
  "move_loop n kmalloc old_free junk None st = Ret st"
| "move_loop 0 kmalloc old_free junk (Some this) st = Hang"
| "move_loop (Suc n) kmalloc old_free junk (Some this) st =
     obind (kmalloc sizeof_block 0 st) (\<lambda>(new, st).
       if new = 0 then Panic
       else case nl_find bnode (bnode this) (ff_head st) of
         None \<Rightarrow> Fault
       | Some this \<Rightarrow>
           let copy = \<lparr>bnode = new, bpaddr = bpaddr this, bsize = bsize this, bflags = junk\<rparr>;
               st = st\<lparr>ff_head := nl_after bnode (bnode this) copy (ff_head st)\<rparr>;
               st = st\<lparr>ff_head := nl_del bnode (bnode this) (ff_head st)\<rparr>
           in obind (old_free (bnode this) st) (\<lambda>st.
                if nl_find bnode new (ff_head st) = None then Fault
                else move_loop n kmalloc old_free junk (nl_next bnode new (ff_head st)) st))"

definition page_allocator_move :: "nat \<Rightarrow> kmalloc_fn \<Rightarrow> kfree_fn \<Rightarrow> gfp_t \<Rightarrow> kmem \<Rightarrow> kmem outcome" where
  "page_allocator_move n kmalloc old_free junk st =
     move_loop n kmalloc old_free junk (case ff_head st of [] \<Rightarrow> None | b # _ \<Rightarrow> Some b) st"

section \<open>Dispatch: pmm.c\<close>

definition dummy_page_alloc :: alloc_pages_fn where
  "dummy_page_alloc pages st = Ret (EOF, pages, st)"

definition dummy_page_free :: free_pages_fn where
  "dummy_page_free pages st = Ret st"

definition dummy_get_free :: "kmem \<Rightarrow> addr_t" where
  "dummy_get_free st = 0"

definition alloc_pages :: "kfree_fn \<Rightarrow> pages option \<Rightarrow> kmem \<Rightarrow> (int \<times> pages option \<times> kmem) outcome" where
  "alloc_pages kfree p st =
     (case p of
        None \<Rightarrow> Ret (EOF, None, st)
      | Some pages \<Rightarrow>
          obind ((case pallocator st of PDummy \<Rightarrow> dummy_page_alloc | PFirstFit \<Rightarrow> ff_alloc kfree) pages st)
            (\<lambda>(r, pages, st). Ret (r, Some pages, st)))"

definition free_pages :: "kmalloc_fn \<Rightarrow> kfree_fn \<Rightarrow> free_pages_fn" where
  "free_pages kmalloc kfree pages st =
     (case pallocator st of PDummy \<Rightarrow> dummy_page_free | PFirstFit \<Rightarrow> ff_free kmalloc kfree) pages st"

definition get_free_memory :: "kmem \<Rightarrow> addr_t" where
  "get_free_memory st = (case pallocator st of PDummy \<Rightarrow> dummy_get_free | PFirstFit \<Rightarrow> ff_get_free) st"

section \<open>Well-formed page lists\<close>

definition bivl :: "block \<Rightarrow> ivl" where
  "bivl b = (unat (bpaddr b), unat (bsize b))"

definition pivl :: "pages \<Rightarrow> ivl" where
  "pivl p = (unat (paddr p), unat (psize p))"

definition ff_ivls :: "kmem \<Rightarrow> ivl list" where
  "ff_ivls st = map bivl (ff_head st)"

definition page_ivl :: "ivl \<Rightarrow> bool" where
  "page_ivl i \<longleftrightarrow> 4096 dvd fst i \<and> 4096 dvd snd i \<and> iend i < 2 ^ 64"

text \<open>
  The invariant: page-aligned non-empty blocks in ascending order with a gap between any
  two of them, and \<open>__free_space\<close> is the sum of their sizes.
\<close>

definition ff_wf :: "kmem \<Rightarrow> bool" where
  "ff_wf st \<longleftrightarrow> coalesced (ff_ivls st) \<and> (\<forall>i \<in> set (ff_ivls st). page_ivl i)
     \<and> unat (ff_free_space st) = total (ff_ivls st)"

text \<open>The addresses of the free pages.\<close>

definition free_set :: "kmem \<Rightarrow> nat set" where
  "free_set st = cover (ff_ivls st)"

lemma is_page_aligned [simp]: "IS_ALIGNED (x :: u64) 4096 \<longleftrightarrow> 4096 dvd unat x"
  using is_aligned_iff_dvd [of x 12] by simp

lemma page_ivl_cut:
  assumes "fl_cut s xs = Some (a, ys)" and "\<forall>i \<in> set xs. page_ivl i" and "4096 dvd s"
  shows "\<forall>i \<in> set ys. page_ivl i"
proof -
  obtain pre l post where *: "xs = pre @ (a, l) # post" "s \<le> l"
    "ys = pre @ (if l = s then [] else [(a + s, l - s)]) @ post"
    using fl_cut_Some [OF assms(1)] by blast
  have "page_ivl (a, l)" using assms(2) * by simp
  then have "page_ivl (a + s, l - s)" using *(2) assms(3) by (auto simp: page_ivl_def dvd_diff_nat)
  with assms(2) * show ?thesis by auto
qed

lemma page_ivl_join: "join_closed page_ivl"
  unfolding join_closed_def page_ivl_def iend_def fst_conv snd_conv by (metis add.assoc dvd_add)

lemmas merge_down_page = merge_down_all [OF page_ivl_join]
lemmas page_ivl_add = fl_add_all [OF page_ivl_join]

lemma total_bound:
  assumes "ordered xs" and "\<forall>i \<in> set xs. page_ivl i"
  shows "total xs < 2 ^ 64"
proof -
  have "cover xs \<subseteq> {..< 2 ^ 64 - 1}" using assms(2) by (fastforce simp: cover_def points_def page_ivl_def)
  then have "card (cover xs) \<le> card {..< (2 ^ 64 - 1 :: nat)}" by (intro card_mono) auto
  then show ?thesis using total_cover [OF assms(1)] by simp
qed

section \<open>The loops\<close>

lemma first_fit_None: "first_fit s xs = None \<longleftrightarrow> fl_cut (unat s) (map bivl xs) = None"
  by (induction s xs rule: first_fit.induct) (auto simp: bivl_def word_le_nat_alt)

lemma first_fit_Some:
  "first_fit s xs = Some b \<Longrightarrow>
   \<exists>us vs. xs = us @ b # vs \<and> s \<le> bsize b \<and>
     fl_cut (unat s) (map bivl xs) =
       Some (unat (bpaddr b), map bivl us @
         (if bsize b = s then [] else [(unat (bpaddr b) + unat s, unat (bsize b) - unat s)]) @ map bivl vs)"
proof (induction s xs rule: first_fit.induct)
  case (2 s c xs)
  show ?case
  proof (cases "s \<le> bsize c")
    case True
    with 2(2) have "c = b" by simp
    with True show ?thesis
      by (intro exI [of _ "[] :: block list", OF exI [of _ xs]])
        (auto simp: bivl_def word_le_nat_alt unsigned_word_eqI)
  next
    case False
    with 2 obtain us vs where "xs = us @ b # vs" "s \<le> bsize b" "fl_cut (unat s) (map bivl xs) =
       Some (unat (bpaddr b), map bivl us @
         (if bsize b = s then [] else [(unat (bpaddr b) + unat s, unat (bsize b) - unat s)]) @ map bivl vs)"
      by auto
    with False show ?thesis
      by (intro exI [of _ "c # us", OF exI [of _ vs]])
        (simp add: bivl_def [of c] word_le_nat_alt)
  qed
qed simp

lemma ff_scan_eq:
  "ff_scan a p xs = (let pre = takeWhile (\<lambda>b. bpaddr b < a) xs in if pre = [] then p else Some (last pre))"
  by (induction a p xs rule: ff_scan.induct) (auto simp: Let_def not_le)

lemma distinct_key_split: "distinct (map key xs) \<Longrightarrow> xs = us @ y # vs \<Longrightarrow> key y \<notin> key ` set us \<and> key y \<notin> key ` set vs"
  by auto

lemma ff_link_eq:
  assumes "distinct (map bnode xs)"
  shows "ff_link (ff_scan a None xs) this xs =
    takeWhile (\<lambda>b. bpaddr b < a) xs @ this # dropWhile (\<lambda>b. bpaddr b < a) xs"
proof (cases "takeWhile (\<lambda>b. bpaddr b < a) xs" rule: rev_cases)
  case Nil
  then show ?thesis by (cases xs) (auto simp: ff_scan_eq ff_link_def split: if_splits)
next
  case (snoc us p)
  then have xs: "xs = us @ p # dropWhile (\<lambda>b. bpaddr b < a) xs"
    using takeWhile_dropWhile_id [of "\<lambda>b. bpaddr b < a" xs] by simp
  have "bnode p \<notin> bnode ` set us" using distinct_key_split [OF assms xs] by simp
  with xs have "nl_after bnode (bnode p) this xs = us @ p # this # dropWhile (\<lambda>b. bpaddr b < a) xs"
    by (metis nl_after_split)
  then show ?thesis by (simp add: ff_scan_eq ff_link_def snoc)
qed

lemma ff_alloc_fit:
  assumes "IS_ALIGNED (psize pages) PAGE_SIZE" and "psize pages \<le> ff_free_space st"
    and "first_fit (psize pages) (ff_head st) = Some b"
    and "b' = b\<lparr>bpaddr := bpaddr b + psize pages, bsize := bsize b - psize pages\<rparr>"
    and "xs = nl_update bnode b' (ff_head st)"
  shows "ff_alloc kfree pages st =
    obind (if bsize b = psize pages then kfree (bnode b) (st\<lparr>ff_head := nl_del bnode (bnode b) xs\<rparr>)
           else Ret (st\<lparr>ff_head := xs\<rparr>))
      (\<lambda>st. Ret (0, pages\<lparr>paddr := bpaddr b\<rparr>, st\<lparr>ff_free_space := ff_free_space st - psize pages\<rparr>))"
  using assms by (simp add: ff_alloc_def Let_def leD)

lemma neighbour_iff:
  "unat a + unat b < 2 ^ 64 \<Longrightarrow> (a + b = (c :: u64)) \<longleftrightarrow> unat a + unat b = unat c"
  using unat_add_no_overflow [of a b] by (auto simp: word_unat_eq_iff)

lemma bivl_grow:
  assumes "iend (bivl b) = fst (bivl c)" and "iend (bivl c) < 2 ^ 64"
  shows "bivl (b\<lparr>bsize := bsize b + bsize c\<rparr>) = (fst (bivl b), snd (bivl b) + snd (bivl c))"
  using assms by (simp add: bivl_def unat_add_no_overflow)

lemma ff_wf_add:
  assumes "ff_wf st" and "page_ivl i" and "0 < snd i" and "points i \<inter> free_set st = {}"
    and "unat (ff_free_space st' - ff_free_space st) = snd i"
    and "ff_ivls st' = fl_add i (ff_ivls st)"
  shows "ff_wf st'"
proof -
  have c: "coalesced (ff_ivls st')"
    unfolding assms(6) using assms(1-4) by (intro fl_add_coalesced) (simp_all add: ff_wf_def free_set_def)
  have p: "\<forall>j \<in> set (ff_ivls st'). page_ivl j"
    unfolding assms(6) using assms(1,2) by (intro page_ivl_add) (simp_all add: ff_wf_def)
  have t: "total (ff_ivls st') = unat (ff_free_space st) + snd i"
    using assms(1,6) by (simp add: fl_add_total ff_wf_def)
  have "total (ff_ivls st') < 2 ^ 64" using total_bound [OF coalesced_ordered [OF c] p] .
  then have "unat (ff_free_space st + (ff_free_space st' - ff_free_space st)) = total (ff_ivls st')"
    using t assms(5) unat_add_no_overflow [of "ff_free_space st" "ff_free_space st' - ff_free_space st"]
    by simp
  with c p show ?thesis by (simp add: ff_wf_def)
qed

section \<open>What the page allocator needs from the object allocator\<close>

definition ff_same :: "kmem \<Rightarrow> kmem \<Rightarrow> bool" where
  "ff_same st st' \<longleftrightarrow> ff_head st' = ff_head st \<and> ff_free_space st' = ff_free_space st
     \<and> pallocator st' = pallocator st"

text \<open>
  An object store: in a state with \<open>room\<close> an allocation returns a new live object, a live
  object can be freed, and neither touches the page allocator's own variables.
\<close>

locale object_store =
  fixes kmalloc :: kmalloc_fn
    and kfree :: kfree_fn
    and inv :: "kmem \<Rightarrow> bool"
    and live :: "kmem \<Rightarrow> u32 \<Rightarrow> bool"
    and room :: "kmem \<Rightarrow> bool"
  assumes kmalloc_room: "inv st \<Longrightarrow> room st \<Longrightarrow>
      \<exists>p st'. kmalloc sizeof_block 0 st = Ret (p, st') \<and> p \<noteq> 0 \<and> \<not> live st p
        \<and> live st' = (live st)(p := True) \<and> inv st' \<and> ff_same st st'"
    and kfree_live: "inv st \<Longrightarrow> live st p \<Longrightarrow>
      \<exists>st'. kfree p st = Ret st' \<and> live st' = (live st)(p := False) \<and> inv st' \<and> ff_same st st'"
    and store_frame: "inv (st\<lparr>ff_head := xs\<rparr>) = inv st" "inv (st\<lparr>ff_free_space := n\<rparr>) = inv st"
      "live (st\<lparr>ff_head := xs\<rparr>) = live st" "live (st\<lparr>ff_free_space := n\<rparr>) = live st"
begin

definition nodes_ok :: "kmem \<Rightarrow> bool" where
  "nodes_ok st \<longleftrightarrow> inv st \<and> distinct (map bnode (ff_head st)) \<and> (\<forall>b \<in> set (ff_head st). live st (bnode b))"

definition ff_ok :: "kmem \<Rightarrow> bool" where
  "ff_ok st \<longleftrightarrow> nodes_ok st \<and> ff_wf st"

text \<open>The live objects that do not belong to the page allocator.\<close>

definition foreign :: "kmem \<Rightarrow> u32 set" where
  "foreign st = {p. live st p \<and> p \<notin> bnode ` set (ff_head st)}"

lemma kfree_unlinked:
  assumes "inv st" and "distinct (map bnode xs)" and "\<forall>b \<in> set xs. live st (bnode b)"
    and "live st p" and "p \<notin> bnode ` set xs"
  shows "\<exists>st'. kfree p (st\<lparr>ff_head := xs\<rparr>) = Ret st' \<and> ff_head st' = xs \<and>
    ff_free_space st' = ff_free_space st \<and> nodes_ok st' \<and> pallocator st' = pallocator st \<and>
    foreign st' = {q. live st q \<and> q \<noteq> p \<and> q \<notin> bnode ` set xs}"
proof -
  obtain st' where "kfree p (st\<lparr>ff_head := xs\<rparr>) = Ret st'" and l: "live st' = (live st)(p := False)"
    and "inv st'" and same: "ff_same (st\<lparr>ff_head := xs\<rparr>) st'"
    using kfree_live [of "st\<lparr>ff_head := xs\<rparr>" p] assms(1,4) by (auto simp: store_frame)
  moreover have "\<forall>b \<in> set xs. live st' (bnode b)" using assms(3,5) l by auto
  ultimately show ?thesis using assms(2) by (auto simp: ff_same_def nodes_ok_def foreign_def)
qed

lemma nodes_ok_update:
  assumes "nodes_ok st" and "map bnode xs = map bnode (ff_head st)"
  shows "nodes_ok (st\<lparr>ff_head := xs\<rparr>)"
proof -
  have "bnode ` set xs = bnode ` set (ff_head st)" using assms(2) by (metis list.set_map)
  then have "\<forall>b \<in> set xs. live st (bnode b)" using assms(1)
    unfolding nodes_ok_def by (metis (no_types) imageE imageI)
  with assms show ?thesis by (simp add: nodes_ok_def store_frame)
qed

lemma ff_alloc_refines:
  assumes ok: "ff_ok st" and al: "IS_ALIGNED (psize pages) PAGE_SIZE" and le: "psize pages \<le> ff_free_space st"
  shows "case fl_cut (unat (psize pages)) (ff_ivls st) of
      None \<Rightarrow> ff_alloc kfree pages st = Ret (EOF, pages, st)
    | Some (a, ys) \<Rightarrow> \<exists>st'. ff_alloc kfree pages st = Ret (0, pages\<lparr>paddr := of_nat a\<rparr>, st')
        \<and> ff_ok st' \<and> ff_ivls st' = ys \<and> pallocator st' = pallocator st \<and> foreign st' = foreign st"
proof (cases "first_fit (psize pages) (ff_head st)")
  case None
  then have "fl_cut (unat (psize pages)) (ff_ivls st) = None" by (simp add: first_fit_None ff_ivls_def)
  with None al le show ?thesis by (simp add: ff_alloc_def leD)
next
  case (Some b)
  define s where "s = psize pages"
  define b' where "b' = b\<lparr>bpaddr := bpaddr b + s, bsize := bsize b - s\<rparr>"
  obtain us vs ys where xs: "ff_head st = us @ b # vs" and s: "s \<le> bsize b"
    and cut: "fl_cut (unat s) (ff_ivls st) = Some (unat (bpaddr b), ys)"
    and ys: "ys = map bivl us @
         (if bsize b = s then [] else [(unat (bpaddr b) + unat s, unat (bsize b) - unat s)]) @ map bivl vs"
    using first_fit_Some [OF Some] by (auto simp: ff_ivls_def s_def)
  have nodes: "nodes_ok st" and wf: "ff_wf st" using ok by (simp_all add: ff_ok_def)
  have key: "bnode b \<notin> bnode ` set us" "bnode b \<notin> bnode ` set vs"
    using nodes distinct_key_split [OF _ xs] by (auto simp: nodes_ok_def)
  have "page_ivl (bivl b)" using wf xs by (simp add: ff_wf_def ff_ivls_def)
  then have bound: "unat (bpaddr b) + unat (bsize b) < 2 ^ 64" by (simp add: page_ivl_def bivl_def)
  have "unat s \<le> unat (bsize b)" using s by (simp add: word_le_nat_alt)
  with bound have bi: "bivl b' = (unat (bpaddr b) + unat s, unat (bsize b) - unat s)"
    using s by (simp add: bivl_def b'_def unat_sub_le unat_add_no_overflow)
  have n: "bnode b' = bnode b" by (simp add: b'_def)
  have upd: "nl_update bnode b' (ff_head st) = us @ b' # vs"
    unfolding xs by (rule nl_update_split) (use key n in auto)
  have del: "nl_del bnode (bnode b) (us @ b' # vs) = us @ vs"
    using nl_del_split [of bnode b' us vs] key n by simp
  have "\<exists>st1. (if bsize b = s then kfree (bnode b) (st\<lparr>ff_head := us @ vs\<rparr>)
          else Ret (st\<lparr>ff_head := us @ b' # vs\<rparr>)) = Ret st1 \<and> nodes_ok st1 \<and> ff_ivls st1 = ys
        \<and> ff_free_space st1 = ff_free_space st \<and> pallocator st1 = pallocator st \<and> foreign st1 = foreign st"
  proof (cases "bsize b = s")
    case True
    have "\<exists>st1. kfree (bnode b) (st\<lparr>ff_head := us @ vs\<rparr>) = Ret st1 \<and> ff_head st1 = us @ vs \<and>
      ff_free_space st1 = ff_free_space st \<and> nodes_ok st1 \<and> pallocator st1 = pallocator st \<and>
      foreign st1 = {q. live st q \<and> q \<noteq> bnode b \<and> q \<notin> bnode ` set (us @ vs)}"
      by (rule kfree_unlinked) (use nodes xs key in \<open>auto simp: nodes_ok_def\<close>)
    moreover have "foreign st = {q. live st q \<and> q \<noteq> bnode b \<and> q \<notin> bnode ` set (us @ vs)}"
      by (auto simp: foreign_def xs)
    ultimately show ?thesis using True by (auto simp: ff_ivls_def ys)
  next
    case False
    have "nodes_ok (st\<lparr>ff_head := us @ b' # vs\<rparr>)" by (rule nodes_ok_update [OF nodes]) (simp add: xs n)
    with False show ?thesis by (simp add: ff_ivls_def ys bi foreign_def store_frame xs n)
  qed
  moreover have "ff_alloc kfree pages st =
    obind (if bsize b = s then kfree (bnode b) (st\<lparr>ff_head := us @ vs\<rparr>) else Ret (st\<lparr>ff_head := us @ b' # vs\<rparr>))
      (\<lambda>st. Ret (0, pages\<lparr>paddr := bpaddr b\<rparr>, st\<lparr>ff_free_space := ff_free_space st - s\<rparr>))"
    using ff_alloc_fit [OF al le Some b'_def [unfolded s_def] refl] unfolding upd del s_def .
  ultimately obtain st1 where st1: "ff_alloc kfree pages st =
      Ret (0, pages\<lparr>paddr := bpaddr b\<rparr>, st1\<lparr>ff_free_space := ff_free_space st - s\<rparr>)"
      "nodes_ok st1" "ff_ivls st1 = ys" "pallocator st1 = pallocator st" "foreign st1 = foreign st"
    by auto
  have "4096 dvd unat s" using al by (simp add: s_def)
  then have "coalesced ys" "\<forall>i \<in> set ys. page_ivl i"
    using wf fl_cut_coalesced [OF cut] page_ivl_cut [OF cut] by (simp_all add: ff_wf_def)
  moreover have "unat (ff_free_space st - s) = total ys"
    using wf fl_cut_total [OF cut] unat_sub_le [OF le] by (simp add: ff_wf_def s_def)
  ultimately have "ff_wf (st1\<lparr>ff_free_space := ff_free_space st - s\<rparr>)"
    using st1(3) by (simp add: ff_wf_def ff_ivls_def)
  with st1 cut show ?thesis
    by (simp add: ff_ok_def nodes_ok_def store_frame ff_ivls_def foreign_def s_def)
qed

lemma ff_merge_down_ok:
  assumes nodes: "nodes_ok st" and xs: "ff_head st = pre @ this # post"
    and prev: "prev = (if pre = [] then None else Some (last pre))"
    and bounds: "\<forall>b \<in> set pre. iend (bivl b) < 2 ^ 64" "iend (bivl this) < 2 ^ 64"
  shows "\<exists>pre' this' st'. ff_merge_down kfree prev this st = Ret (bnode this', st') \<and> nodes_ok st'
    \<and> ff_head st' = pre' @ this' # post \<and> merge_down (map bivl pre) (bivl this) = (map bivl pre', bivl this')
    \<and> ff_free_space st' = ff_free_space st \<and> pallocator st' = pallocator st \<and> foreign st' = foreign st"
proof (cases "pre \<noteq> [] \<and> iend (bivl (last pre)) = fst (bivl this)")
  case False
  have "ff_merge_down kfree prev this st = Ret (bnode this, st)"
  proof (cases "pre = []")
    case True
    then show ?thesis by (simp add: ff_merge_down_def prev)
  next
    case ne: False
    then have "bpaddr (last pre) + bsize (last pre) \<noteq> bpaddr this"
      using False bounds(1) neighbour_iff [of "bpaddr (last pre)" "bsize (last pre)"] by (simp add: bivl_def)
    with ne show ?thesis by (simp add: ff_merge_down_def prev)
  qed
  moreover have "merge_down (map bivl pre) (bivl this) = (map bivl pre, bivl this)"
    using False by (auto simp: merge_down_def last_map)
  ultimately show ?thesis using nodes xs by blast
next
  case True
  define p us where "p = last pre" and "us = butlast pre"
  have pre: "pre = us @ [p]" using True by (simp add: p_def us_def)
  define p' where "p' = p\<lparr>bsize := bsize p + bsize this\<rparr>"
  have n: "bnode p' = bnode p" by (simp add: p'_def)
  have "distinct (map bnode (us @ p # this # post))" using nodes xs pre by (simp add: nodes_ok_def)
  then have key: "bnode p \<notin> bnode ` set us" "bnode p \<notin> bnode ` set (this # post)"
    "bnode this \<notin> bnode ` set (us @ [p'])" "bnode this \<notin> bnode ` set post" by (auto simp: n)
  have upd: "nl_update bnode p' (ff_head st) = (us @ [p']) @ this # post"
    unfolding xs pre using nl_update_split [of bnode p' p us "this # post"] key n by simp
  have del: "nl_del bnode (bnode this) ((us @ [p']) @ this # post) = us @ p' # post"
    by (subst nl_del_split) (use key in auto)
  have relink: "nl_del bnode (bnode this) (nl_update bnode p' (ff_head st)) = us @ p' # post"
    by (simp only: upd del)
  have nb: "bpaddr p + bsize p = bpaddr this"
    using True bounds(1) neighbour_iff [of "bpaddr p" "bsize p"] unfolding pre by (simp add: bivl_def)
  have "\<exists>st'. kfree (bnode this) (st\<lparr>ff_head := us @ p' # post\<rparr>) = Ret st' \<and> ff_head st' = us @ p' # post \<and>
    ff_free_space st' = ff_free_space st \<and> nodes_ok st' \<and> pallocator st' = pallocator st \<and>
    foreign st' = {q. live st q \<and> q \<noteq> bnode this \<and> q \<notin> bnode ` set (us @ p' # post)}"
    by (rule kfree_unlinked) (use nodes xs pre key n in \<open>auto simp: nodes_ok_def\<close>)
  moreover have "foreign st = {q. live st q \<and> q \<noteq> bnode this \<and> q \<notin> bnode ` set (us @ p' # post)}"
    by (auto simp: foreign_def xs pre n)
  moreover have "ff_merge_down kfree prev this st =
      obind (kfree (bnode this) (st\<lparr>ff_head := us @ p' # post\<rparr>)) (\<lambda>st. Ret (bnode p', st))"
    using nb by (simp add: ff_merge_down_def prev pre relink Let_def flip: p'_def)
  moreover have "merge_down (map bivl pre) (bivl this) = (map bivl us, bivl p')"
    using True bivl_grow [of p this] bounds(2) by (simp add: merge_down_def pre p'_def)
  ultimately show ?thesis by auto
qed

lemma ff_merge_up_ok:
  assumes nodes: "nodes_ok st" and xs: "ff_head st = pre @ this # post"
    and bounds: "iend (bivl this) < 2 ^ 64" "\<forall>b \<in> set post. iend (bivl b) < 2 ^ 64"
  shows "\<exists>this' post' st'. ff_merge_up kfree (bnode this) st = Ret st' \<and> nodes_ok st'
    \<and> ff_head st' = pre @ this' # post' \<and> merge_up (bivl this) (map bivl post) = (bivl this', map bivl post')
    \<and> ff_free_space st' = ff_free_space st \<and> pallocator st' = pallocator st \<and> foreign st' = foreign st"
proof -
  have dist: "distinct (map bnode (pre @ this # post))" using nodes xs by (simp add: nodes_ok_def)
  then have find: "nl_find bnode (bnode this) (ff_head st) = Some this"
    and next': "nl_next bnode (bnode this) (ff_head st) = (case post of [] \<Rightarrow> None | z # _ \<Rightarrow> Some z)"
    unfolding xs by (auto intro!: nl_find_split nl_next_split)
  show ?thesis
  proof (cases "post \<noteq> [] \<and> iend (bivl this) = fst (bivl (hd post))")
    case False
    have "ff_merge_up kfree (bnode this) st = Ret st"
    proof (cases post)
      case Nil
      then show ?thesis by (simp add: ff_merge_up_def find next')
    next
      case (Cons c vs)
      then have "bpaddr this + bsize this \<noteq> bpaddr c"
        using False bounds(1) neighbour_iff [of "bpaddr this" "bsize this"] by (simp add: bivl_def)
      with Cons show ?thesis by (simp add: ff_merge_up_def find next')
    qed
    moreover have "merge_up (bivl this) (map bivl post) = (bivl this, map bivl post)"
      using False by (auto simp: merge_up_def hd_map)
    ultimately show ?thesis using nodes xs by blast
  next
    case True
    then obtain c vs where post: "post = c # vs" by (cases post) auto
    define t where "t = this\<lparr>bsize := bsize this + bsize c\<rparr>"
    have n: "bnode t = bnode this" by (simp add: t_def)
    have key: "bnode this \<notin> bnode ` set pre" "bnode this \<notin> bnode ` set (c # vs)"
      "bnode c \<notin> bnode ` set (pre @ [t])" "bnode c \<notin> bnode ` set vs"
      using dist post by (auto simp: n)
    have upd: "nl_update bnode t (ff_head st) = (pre @ [t]) @ c # vs"
      unfolding xs post using nl_update_split [of bnode t this pre "c # vs"] key n by simp
    have del: "nl_del bnode (bnode c) ((pre @ [t]) @ c # vs) = pre @ t # vs"
      by (subst nl_del_split) (use key in auto)
    have relink: "nl_del bnode (bnode c) (nl_update bnode t (ff_head st)) = pre @ t # vs"
      by (simp only: upd del)
    have nb: "bpaddr this + bsize this = bpaddr c"
      using True bounds(1) post neighbour_iff [of "bpaddr this" "bsize this"] by (simp add: bivl_def)
    have "\<exists>st'. kfree (bnode c) (st\<lparr>ff_head := pre @ t # vs\<rparr>) = Ret st' \<and> ff_head st' = pre @ t # vs \<and>
      ff_free_space st' = ff_free_space st \<and> nodes_ok st' \<and> pallocator st' = pallocator st \<and>
      foreign st' = {q. live st q \<and> q \<noteq> bnode c \<and> q \<notin> bnode ` set (pre @ t # vs)}"
      by (rule kfree_unlinked) (use nodes xs post key n in \<open>auto simp: nodes_ok_def\<close>)
    moreover have "foreign st = {q. live st q \<and> q \<noteq> bnode c \<and> q \<notin> bnode ` set (pre @ t # vs)}"
      by (auto simp: foreign_def xs post n)
    moreover have "ff_merge_up kfree (bnode this) st = kfree (bnode c) (st\<lparr>ff_head := pre @ t # vs\<rparr>)"
      using nb by (simp add: ff_merge_up_def find next' post relink Let_def flip: t_def)
    moreover have "merge_up (bivl this) (map bivl post) = (bivl t, map bivl vs)"
      using True bivl_grow [of this c] bounds(2) post by (simp add: merge_up_def t_def)
    ultimately show ?thesis by auto
  qed
qed

lemma ff_free_refines:
  assumes ok: "ff_ok st" and room: "room st"
    and al: "IS_ALIGNED (paddr pages) PAGE_SIZE" "IS_ALIGNED (psize pages) PAGE_SIZE"
    and pos: "0 < psize pages" and bound: "iend (pivl pages) < 2 ^ 64"
    and disj: "points (pivl pages) \<inter> free_set st = {}"
  shows "\<exists>st'. ff_free kmalloc kfree pages st = Ret st' \<and> ff_ok st'
    \<and> ff_ivls st' = fl_add (pivl pages) (ff_ivls st) \<and> pallocator st' = pallocator st \<and> foreign st' = foreign st"
proof -
  have nodes: "nodes_ok st" and wf: "ff_wf st" using ok by (simp_all add: ff_ok_def)
  obtain node st1 where m: "kmalloc sizeof_block 0 st = Ret (node, st1)" "node \<noteq> 0" "\<not> live st node"
    and l1: "live st1 = (live st)(node := True)" and "inv st1" and "ff_same st st1"
    using kmalloc_room [OF _ room] nodes by (auto simp: nodes_ok_def)
  then have same: "ff_head st1 = ff_head st" "ff_free_space st1 = ff_free_space st"
    "pallocator st1 = pallocator st" by (simp_all add: ff_same_def)
  define this where "this = \<lparr>bnode = node, bpaddr = paddr pages, bsize = psize pages, bflags = pflags pages\<rparr>"
  define pre post where "pre = takeWhile (\<lambda>b. bpaddr b < paddr pages) (ff_head st)"
    and "post = dropWhile (\<lambda>b. bpaddr b < paddr pages) (ff_head st)"
  have split: "ff_head st = pre @ post" by (simp add: pre_def post_def)
  have bi: "bivl this = pivl pages" by (simp add: this_def bivl_def pivl_def)
  define prev where "prev = (if pre = [] then None else Some (last pre))"
  have scan: "ff_scan (paddr pages) None (ff_head st) = prev"
    by (simp add: ff_scan_eq Let_def prev_def pre_def)
  have dist: "distinct (map bnode (ff_head st))" using nodes by (simp add: nodes_ok_def)
  define st2 where "st2 = st1\<lparr>ff_head := pre @ this # post\<rparr>"
  have "node \<notin> bnode ` set (ff_head st)" using nodes m(3) by (auto simp: nodes_ok_def)
  then have nodes2: "nodes_ok st2"
    using nodes \<open>inv st1\<close> l1 split by (auto simp: nodes_ok_def st2_def store_frame this_def)
  have bounds: "\<forall>b \<in> set (ff_head st). iend (bivl b) < 2 ^ 64"
    using wf by (auto simp: ff_wf_def ff_ivls_def page_ivl_def)
  obtain pre' this' st3 where d: "ff_merge_down kfree prev this st2 = Ret (bnode this', st3)"
    and nodes3: "nodes_ok st3" and h3: "ff_head st3 = pre' @ this' # post"
    and md: "merge_down (map bivl pre) (bivl this) = (map bivl pre', bivl this')"
    and s3: "ff_free_space st3 = ff_free_space st2" "pallocator st3 = pallocator st2" "foreign st3 = foreign st2"
    using ff_merge_down_ok [OF nodes2 _ prev_def, of this post] bounds bound split bi
    by (auto simp: st2_def)
  have pt: "page_ivl (bivl this)" using al bound unfolding bi by (simp add: page_ivl_def pivl_def)
  have "\<forall>j \<in> set (map bivl pre). page_ivl j" using wf split by (simp add: ff_wf_def ff_ivls_def)
  from merge_down_page [OF md this pt] have "page_ivl (bivl this')" by (rule conjunct2)
  then obtain this'' post' st4 where u: "ff_merge_up kfree (bnode this') st3 = Ret st4"
    and nodes4: "nodes_ok st4" and h4: "ff_head st4 = pre' @ this'' # post'"
    and mu: "merge_up (bivl this') (map bivl post) = (bivl this'', map bivl post')"
    and s4: "ff_free_space st4 = ff_free_space st3" "pallocator st4 = pallocator st3" "foreign st4 = foreign st3"
    using ff_merge_up_ok [OF nodes3 h3] bounds split by (auto simp: page_ivl_def)
  define st5 where "st5 = st4\<lparr>ff_free_space := ff_free_space st4 + psize pages\<rparr>"
  have link: "ff_link prev this (ff_head st) = pre @ this # post"
    using ff_link_eq [OF dist, of "paddr pages" this] by (simp add: scan pre_def post_def)
  have "bpaddr this = paddr pages" by (simp add: this_def)
  then have res: "ff_free kmalloc kfree pages st = Ret st5"
    using al m d [unfolded st2_def] u
    by (simp add: ff_free_def same st5_def scan link Let_def flip: this_def)
  have tw: "takeWhile (\<lambda>j. fst j < fst (pivl pages)) (ff_ivls st) = map bivl pre"
    "dropWhile (\<lambda>j. fst j < fst (pivl pages)) (ff_ivls st) = map bivl post"
    by (simp_all add: ff_ivls_def takeWhile_map dropWhile_map pre_def post_def comp_def bivl_def
        pivl_def word_less_nat_alt)
  have ivls: "ff_ivls st5 = fl_add (pivl pages) (ff_ivls st)"
    unfolding fl_add_def tw using md mu h4 bi by (simp add: st5_def ff_ivls_def)
  have "ff_wf st5"
    by (rule ff_wf_add [OF wf _ _ _ _ ivls])
      (use al pos bound disj s3 s4 same in
        \<open>simp_all add: st5_def st2_def pivl_def word_less_nat_alt page_ivl_def free_set_def\<close>)
  moreover have "nodes_ok st5" using nodes4 by (simp add: nodes_ok_def st5_def store_frame)
  moreover have "foreign st2 = foreign st"
    using \<open>node \<notin> bnode ` set (ff_head st)\<close> m(3) split
    by (auto simp: foreign_def st2_def store_frame l1 this_def)
  then have "foreign st5 = foreign st" using s3(3) s4(3) by (simp add: foreign_def st5_def store_frame)
  ultimately show ?thesis using res ivls s3 s4 same by (simp add: ff_ok_def st5_def st2_def)
qed

text \<open>Giving back what was just handed out restores the free list and the counter.\<close>

lemma ff_alloc_free:
  assumes ok: "ff_ok st" and al: "IS_ALIGNED (psize pages) PAGE_SIZE" and pos: "0 < psize pages"
    and le: "psize pages \<le> ff_free_space st"
    and a: "ff_alloc kfree pages st = Ret (0, pages', st1)" and room: "room st1"
  shows "\<exists>st2. ff_free kmalloc kfree pages' st1 = Ret st2 \<and> ff_ok st2 \<and> ff_ivls st2 = ff_ivls st
    \<and> ff_free_space st2 = ff_free_space st \<and> pallocator st2 = pallocator st1 \<and> foreign st2 = foreign st1"
proof -
  obtain q ys where cut: "fl_cut (unat (psize pages)) (ff_ivls st) = Some (q, ys)"
    using ff_alloc_refines [OF ok al le] a by (cases "fl_cut (unat (psize pages)) (ff_ivls st)") (auto simp: EOF_def)
  then have p': "pages' = pages\<lparr>paddr := of_nat q\<rparr>" and ok1: "ff_ok st1" and iv1: "ff_ivls st1 = ys"
    using ff_alloc_refines [OF ok al le] a by auto
  have wf: "ff_wf st" using ok by (simp add: ff_ok_def)
  then have c: "coalesced (ff_ivls st)" by (simp add: ff_wf_def)
  obtain pre l post where "ff_ivls st = pre @ (q, l) # post" and l: "unat (psize pages) \<le> l"
    using fl_cut_Some [OF cut] by blast
  then have pg: "page_ivl (q, l)" using wf by (simp add: ff_wf_def)
  then have q: "unat (of_nat q :: u64) = q" by (simp add: page_ivl_def unat_of_nat)
  have piv: "pivl pages' = (q, unat (psize pages))" by (simp add: p' pivl_def q)
  have "\<exists>st2. ff_free kmalloc kfree pages' st1 = Ret st2 \<and> ff_ok st2
    \<and> ff_ivls st2 = fl_add (pivl pages') (ff_ivls st1) \<and> pallocator st2 = pallocator st1 \<and> foreign st2 = foreign st1"
  proof (rule ff_free_refines [OF ok1 room])
    show "IS_ALIGNED (paddr pages') PAGE_SIZE"
      using pg by (simp add: p' q page_ivl_def)
    show "points (pivl pages') \<inter> free_set st1 = {}"
      using fl_cut_cover [OF cut coalesced_ordered [OF c]] by (auto simp: piv free_set_def iv1)
    show "iend (pivl pages') < 2 ^ 64" using pg l by (simp add: piv page_ivl_def)
  qed (use al pos p' in simp_all)
  moreover have "fl_add (pivl pages') (ff_ivls st1) = ff_ivls st"
    using fl_add_cut [OF cut c] pos by (simp add: piv iv1 word_less_nat_alt)
  ultimately obtain st2 where st2: "ff_free kmalloc kfree pages' st1 = Ret st2" "ff_ok st2"
    "ff_ivls st2 = ff_ivls st" "pallocator st2 = pallocator st1" "foreign st2 = foreign st1" by auto
  moreover from this have "unat (ff_free_space st2) = unat (ff_free_space st)"
    using wf by (simp add: ff_ok_def ff_wf_def)
  ultimately show ?thesis by (auto simp: word_unat_eq_iff)
qed

end

end
