(* ===== verification/Flff.thy ===== *)
theory Flff
  imports Pmm
begin

text \<open>
  The object allocator of \<open>kern/mm/vmm/flff.c\<close>, a first-fit free list whose headers sit in
  front of the objects, and the dispatch of \<open>kmalloc\<close>, \<open>kfree\<close> and \<open>ksize\<close> of
  \<open>kern/mm/vmm/vmm.c\<close>. The allocator asks for pages and gives whole pages back through
  \<open>alloc_pages\<close> and \<open>free_pages\<close>, which are the arguments
  \<open>getpages\<close> and \<open>putpages\<close> here. Memory that the source reads
  before it was written (the flags of the bootstrap block) is the argument \<open>junk\<close>. \<open>pa2kva\<close> adds \<open>KERN_BASE\<close>,
  as on i386; 32-bit MIPS does the same up to \<open>LOWRAM_TOP\<close>, and so does ARM where \<open>RAM_PHYSBASE\<close> is 0.
\<close>

section \<open>The allocator\<close>

definition ALLOC_ALIGN :: u32 where
  "ALLOC_ALIGN = 16"

text \<open>\<open>sizeof(struct blockhdr)\<close> on a 32-bit machine, padding included.\<close>

definition sizeof_blockhdr :: u32 where
  "sizeof_blockhdr = 32"

definition PAYLOAD :: "u32 \<Rightarrow> u32" where
  "PAYLOAD bh = bh + sizeof_blockhdr"

definition HEADER :: "u32 \<Rightarrow> u32" where
  "HEADER payload = payload - sizeof_blockhdr"

fun flff_first_fit :: "u32 \<Rightarrow> blockhdr list \<Rightarrow> blockhdr option" where
  "flff_first_fit allocsize [] = None"
| "flff_first_fit allocsize (this # rest) =
     (if hsize this \<ge> allocsize then Some this else flff_first_fit allocsize rest)"

text \<open>The loops that look for the insertion point, and \<open>list_add_before\<close> at it.\<close>

fun flff_scan :: "u32 \<Rightarrow> blockhdr list \<Rightarrow> blockhdr option" where
  "flff_scan this [] = None"
| "flff_scan this (tmp # rest) = (if haddr tmp \<ge> this then Some tmp else flff_scan this rest)"

definition flff_insert :: "blockhdr \<Rightarrow> blockhdr list \<Rightarrow> blockhdr list" where
  "flff_insert this xs =
     (case flff_scan (haddr this) xs of
        Some tmp \<Rightarrow> nl_before haddr (haddr tmp) this xs
      | None \<Rightarrow> xs @ [this])"

text \<open>The branch of \<open>__alloc\<close> that asks for pages; \<open>None\<close> is its \<open>return NULL\<close>.\<close>

definition flff_grow :: "alloc_pages_fn \<Rightarrow> heap \<Rightarrow> u32 \<Rightarrow> gfp_t \<Rightarrow> kmem \<Rightarrow> (blockhdr option \<times> kmem) outcome" where
  "flff_grow getpages h sz flags st =
     obind (getpages \<lparr>paddr = 0, psize = ucast (ALIGN_ABOVE sz PAGE_SIZE), pflags = flags\<rparr> st)
       (\<lambda>(r, pages, st).
          if r = EOF then Ret (None, st)
          else
            let this = \<lparr>haddr = i386_pa2kva (ucast (paddr pages)), hsize = ucast (psize pages),
                        hfree = True, hflags = flags\<rparr>
            in Ret (Some this, set_hdrs h (flff_insert this (hdrs h st)) st))"

text \<open>The rest of \<open>__alloc\<close>, once a block of the list is chosen.\<close>

definition flff_take :: "heap \<Rightarrow> blockhdr \<Rightarrow> u32 \<Rightarrow> kmem \<Rightarrow> u32 \<times> kmem" where
  "flff_take h this allocsize st =
     (let newsize = hsize this - allocsize;
          xs = hdrs h st;
          (this, xs) =
            (if newsize \<ge> sizeof_blockhdr + ALLOC_ALIGN then
               let newblock = \<lparr>haddr = haddr this + allocsize, hsize = newsize,
                               hfree = True, hflags = hflags this\<rparr>;
                   this = this\<lparr>hsize := allocsize\<rparr>
               in (this, nl_after haddr (haddr this) newblock (nl_update haddr this xs))
             else (this, xs));
          this = this\<lparr>hfree := False\<rparr>;
          xs = nl_del haddr (haddr this) xs;
          st = set_hdrs h xs st
      in (PAYLOAD (haddr this), st\<lparr>alloc_hdrs := (alloc_hdrs st)(haddr this := Some this)\<rparr>))"

definition flff_alloc :: "alloc_pages_fn \<Rightarrow> heap \<Rightarrow> kmalloc_fn" where
  "flff_alloc getpages h sz flags st =
     (let sz = ALIGN_ABOVE sz ALLOC_ALIGN;
          allocsize = sz + sizeof_blockhdr
      in obind (case flff_first_fit allocsize (hdrs h st) of
                  Some this \<Rightarrow> Ret (Some this, st)
                | None \<Rightarrow> flff_grow getpages h sz flags st)
           (\<lambda>(fit, st).
              case fit of
                None \<Rightarrow> Ret (0, st)
              | Some this \<Rightarrow> Ret (flff_take h this allocsize st)))"

definition flff_merge_down :: "blockhdr \<Rightarrow> blockhdr list \<Rightarrow> blockhdr \<times> blockhdr list" where
  "flff_merge_down this xs =
     (case nl_prev haddr (haddr this) xs of
        None \<Rightarrow> (this, xs)
      | Some tmp \<Rightarrow>
          if haddr tmp + hsize tmp = haddr this then
            let tmp = tmp\<lparr>hsize := hsize tmp + hsize this\<rparr>
            in (tmp, nl_del haddr (haddr this) (nl_update haddr tmp xs))
          else (this, xs))"

definition flff_merge_up :: "blockhdr \<Rightarrow> blockhdr list \<Rightarrow> blockhdr \<times> blockhdr list" where
  "flff_merge_up this xs =
     (case nl_next haddr (haddr this) xs of
        None \<Rightarrow> (this, xs)
      | Some tmp \<Rightarrow>
          if haddr this + hsize this = haddr tmp then
            let this = this\<lparr>hsize := hsize this + hsize tmp\<rparr>
            in (this, nl_del haddr (haddr tmp) (nl_update haddr this xs))
          else (this, xs))"

text \<open>The tail of \<open>__free\<close>: whole pages inside the merged block go back to the page allocator.\<close>

definition flff_return_pages :: "free_pages_fn \<Rightarrow> heap \<Rightarrow> blockhdr \<Rightarrow> blockhdr list \<Rightarrow> kmem \<Rightarrow> kmem outcome" where
  "flff_return_pages putpages h this xs st =
     (let bend = haddr this + hsize this;
          first_border = ALIGN_ABOVE (haddr this) PAGE_SIZE;
          last_border = ALIGN_BELOW bend PAGE_SIZE
      in if first_border < last_border then
           let pages = \<lparr>paddr = ucast first_border, psize = ucast (last_border - first_border),
                        pflags = hflags this\<rparr>;
               xs = (if last_border < bend then
                       nl_after haddr (haddr this)
                         \<lparr>haddr = last_border, hsize = bend - last_border, hfree = True, hflags = hflags this\<rparr> xs
                     else xs);
               xs = (if first_border > haddr this then
                       nl_update haddr (this\<lparr>hsize := first_border - haddr this\<rparr>) xs
                     else nl_del haddr (haddr this) xs)
           in putpages pages (set_hdrs h xs st)
         else Ret (set_hdrs h xs st))"

definition flff_free :: "free_pages_fn \<Rightarrow> heap \<Rightarrow> kfree_fn" where
  "flff_free putpages h obj st =
     (case alloc_hdrs st (HEADER obj) of
        None \<Rightarrow> Fault
      | Some this \<Rightarrow>
          let this = this\<lparr>hfree := True\<rparr>;
              st = st\<lparr>alloc_hdrs := (alloc_hdrs st)(HEADER obj := None)\<rparr>;
              xs = flff_insert this (hdrs h st);
              (this, xs) = flff_merge_down this xs;
              (this, xs) = flff_merge_up this xs
          in flff_return_pages putpages h this xs st)"

definition flff_size :: "u32 \<Rightarrow> kmem \<Rightarrow> u32 outcome" where
  "flff_size obj st =
     (case alloc_hdrs st (HEADER obj) of
        None \<Rightarrow> Fault
      | Some this \<Rightarrow> Ret (hsize this - sizeof_blockhdr))"

section \<open>Dispatch: vmm.c\<close>

definition set_simple_allocator :: "simple_allocator option \<Rightarrow> kmem \<Rightarrow> kmem" where
  "set_simple_allocator a st = (case a of None \<Rightarrow> st | Some a \<Rightarrow> st\<lparr>sallocator := a\<rparr>)"

definition get_simple_allocator :: "kmem \<Rightarrow> simple_allocator" where
  "get_simple_allocator st = sallocator st"

definition simple_allocator_bootstrap :: "u32 \<Rightarrow> u32 \<Rightarrow> gfp_t \<Rightarrow> kmem \<Rightarrow> int \<times> kmem" where
  "simple_allocator_bootstrap pt sz junk st =
     (let block = \<lparr>haddr = pt, hsize = sz, hfree = True, hflags = junk\<rparr>;
          st = st\<lparr>boot_head := [block]\<rparr>
      in (0, set_simple_allocator (Some SBootstrap) st))"

definition simple_allocator_init :: "kmem \<Rightarrow> int \<times> kmem" where
  "simple_allocator_init st =
     (0, set_simple_allocator (Some SProper) (st\<lparr>simple_head := []\<rparr>))"

text \<open>The three members of a \<open>struct simple_allocator\<close>, per value of the function pointers.\<close>

definition simple_alloc_of :: "alloc_pages_fn \<Rightarrow> simple_allocator \<Rightarrow> kmalloc_fn" where
  "simple_alloc_of getpages a sz flags st =
     (case a of
        SDummy \<Rightarrow> Ret (0, st)
      | SBootstrap \<Rightarrow> flff_alloc getpages Boot sz flags st
      | SProper \<Rightarrow> flff_alloc getpages Proper sz flags st)"

definition simple_free_of :: "free_pages_fn \<Rightarrow> simple_allocator \<Rightarrow> kfree_fn" where
  "simple_free_of putpages a obj st =
     (case a of
        SDummy \<Rightarrow> Ret st
      | SBootstrap \<Rightarrow> flff_free putpages Boot obj st
      | SProper \<Rightarrow> flff_free putpages Proper obj st)"

definition simple_size_of :: "simple_allocator \<Rightarrow> u32 \<Rightarrow> kmem \<Rightarrow> u32 outcome" where
  "simple_size_of a obj st = (case a of SDummy \<Rightarrow> Ret 0 | _ \<Rightarrow> flff_size obj st)"

definition kmalloc :: "alloc_pages_fn \<Rightarrow> kmalloc_fn" where
  "kmalloc getpages sz flags st = simple_alloc_of getpages (sallocator st) sz flags st"

definition kfree :: "free_pages_fn \<Rightarrow> kfree_fn" where
  "kfree putpages obj st = (if obj \<noteq> 0 then simple_free_of putpages (sallocator st) obj st else Ret st)"

definition ksize :: "u32 \<Rightarrow> kmem \<Rightarrow> u32 outcome" where
  "ksize obj st = (if obj \<noteq> 0 then simple_size_of (sallocator st) obj st else Ret 0)"

section \<open>Well-formed heaps\<close>

definition hivl :: "blockhdr \<Rightarrow> ivl" where
  "hivl x = (unat (haddr x), unat (hsize x))"

definition hivls :: "heap \<Rightarrow> kmem \<Rightarrow> ivl list" where
  "hivls h st = map hivl (hdrs h st)"

definition hdr_ivl :: "ivl \<Rightarrow> bool" where
  "hdr_ivl i \<longleftrightarrow> 16 dvd fst i \<and> 16 dvd snd i \<and> 0 < snd i \<and> iend i < 2 ^ 32"

text \<open>
  The invariant: the free blocks are in ascending order and disjoint, every block is a
  positive multiple of 16 bytes at a multiple of 16, and the objects handed out are
  disjoint from each other and from the free blocks.
\<close>

definition heap_wf :: "heap \<Rightarrow> kmem \<Rightarrow> bool" where
  "heap_wf h st \<longleftrightarrow> ordered (hivls h st) \<and> (\<forall>i \<in> set (hivls h st). hdr_ivl i)
     \<and> (\<forall>a x. alloc_hdrs st a = Some x \<longrightarrow> haddr x = a \<and> hdr_ivl (hivl x)
          \<and> points (hivl x) \<inter> cover (hivls h st) = {})
     \<and> (\<forall>a b x y. alloc_hdrs st a = Some x \<and> alloc_hdrs st b = Some y \<and> a \<noteq> b
          \<longrightarrow> points (hivl x) \<inter> points (hivl y) = {})"

lemma ordered_distinct_fst: "ordered xs \<Longrightarrow> distinct (map fst xs)"
proof (induction xs)
  case (Cons i xs)
  then show ?case by (fastforce simp: ordered_Cons iend_def)
qed simp

lemma ordered_distinct_haddr: "ordered (map hivl xs) \<Longrightarrow> distinct (map haddr xs)"
proof -
  assume "ordered (map hivl xs)"
  then have "distinct (map (unat \<circ> haddr) xs)"
    using ordered_distinct_fst [of "map hivl xs"] by (simp add: comp_def hivl_def)
  then show ?thesis by (simp add: distinct_map inj_on_def)
qed

lemma neighbour32_iff:
  "unat a + unat b < 2 ^ 32 \<Longrightarrow> (a + b = (c :: u32)) \<longleftrightarrow> unat a + unat b = unat c"
  using unat_add_no_overflow [of a b] by (auto simp: word_unat_eq_iff)

lemma hivl_grow:
  assumes "iend (hivl b) = fst (hivl c)" and "iend (hivl c) < 2 ^ 32"
  shows "hivl (b\<lparr>hsize := hsize b + hsize c\<rparr>) = (fst (hivl b), snd (hivl b) + snd (hivl c))"
  using assms by (simp add: hivl_def unat_add_no_overflow)

section \<open>The loops\<close>

lemma flff_first_fit_Some:
  "flff_first_fit s xs = Some b \<Longrightarrow> \<exists>us vs. xs = us @ b # vs \<and> s \<le> hsize b \<and> (\<forall>u \<in> set us. hsize u < s)"
proof (induction s xs rule: flff_first_fit.induct)
  case (2 s c xs)
  show ?case
  proof (cases "s \<le> hsize c")
    case True
    with 2(2) show ?thesis by (intro exI [of _ "[] :: blockhdr list", OF exI [of _ xs]]) auto
  next
    case False
    with 2 obtain us vs where "xs = us @ b # vs" "s \<le> hsize b" "\<forall>u \<in> set us. hsize u < s" by auto
    with False show ?thesis by (intro exI [of _ "c # us", OF exI [of _ vs]]) auto
  qed
qed simp

lemma flff_first_fit_None: "flff_first_fit s xs = None \<longleftrightarrow> (\<forall>x \<in> set xs. hsize x < s)"
  by (induction s xs rule: flff_first_fit.induct) (auto simp: not_le)

lemma flff_insert_mem: "this \<in> set (flff_insert this xs)"
proof (cases "flff_scan (haddr this) xs")
  case (Some tmp)
  then have "tmp \<in> set xs" by (induction xs) (auto split: if_splits)
  with Some show ?thesis by (simp add: flff_insert_def nl_before_mem)
qed (simp add: flff_insert_def)

lemma flff_insert_eq:
  assumes "distinct (map haddr xs)"
  shows "flff_insert this xs =
    takeWhile (\<lambda>y. haddr y < haddr this) xs @ this # dropWhile (\<lambda>y. haddr y < haddr this) xs"
  using assms unfolding flff_insert_def
proof (induction xs)
  case (Cons y xs)
  show ?case
  proof (cases "haddr this \<le> haddr y")
    case True
    then show ?thesis by (auto simp: not_less [symmetric])
  next
    case False
    have ne: "haddr tmp \<noteq> haddr y" if "flff_scan (haddr this) xs = Some tmp" for tmp
    proof -
      have "tmp \<in> set zs" if "flff_scan (haddr this) zs = Some tmp" for zs
        using that by (induction zs) (auto split: if_splits)
      with \<open>flff_scan (haddr this) xs = Some tmp\<close> Cons.prems show ?thesis by (metis distinct.simps(2) list.simps(9) image_eqI list.set_map)
    qed
    from False Cons show ?thesis by (auto simp: not_le split: option.splits dest: ne)
  qed
qed simp

section \<open>Taking a block\<close>

lemma flff_take_eq:
  assumes xs: "hdrs h st = us @ this # vs"
    and key: "haddr this \<notin> haddr ` set us" "haddr this \<notin> haddr ` set vs"
    and fits: "a \<le> hsize this" and nz: "a \<noteq> 0" and nowrap: "unat (haddr this) + unat (hsize this) < 2 ^ 32"
  shows "\<exists>x rest. flff_take h this a st = (PAYLOAD (haddr this),
      (set_hdrs h (us @ rest @ vs) st)\<lparr>alloc_hdrs := (alloc_hdrs st)(haddr this := Some x)\<rparr>)
    \<and> haddr x = haddr this \<and> a \<le> hsize x \<and> hsize x \<le> hsize this
    \<and> (hsize x = a \<or> hsize x = hsize this \<and> hsize this - a < sizeof_blockhdr + ALLOC_ALIGN)
    \<and> map hivl rest = (if hsize x = hsize this then []
        else [(unat (haddr this) + unat (hsize x), unat (hsize this) - unat (hsize x))])"
proof (cases "hsize this - a \<ge> sizeof_blockhdr + ALLOC_ALIGN")
  case False
  define x where "x = this\<lparr>hfree := False\<rparr>"
  have "flff_take h this a st = (PAYLOAD (haddr this),
      (set_hdrs h (us @ [] @ vs) st)\<lparr>alloc_hdrs := (alloc_hdrs st)(haddr this := Some x)\<rparr>)"
    using False key by (simp add: flff_take_def Let_def xs nl_del_split x_def)
  then show ?thesis using fits False by (intro exI [of _ x, OF exI [of _ "[]"]]) (simp add: x_def not_le)
next
  case True
  define this1 where "this1 = this\<lparr>hsize := a\<rparr>"
  define new where "new = \<lparr>haddr = haddr this + a, hsize = hsize this - a, hfree = True, hflags = hflags this\<rparr>"
  define x where "x = this1\<lparr>hfree := False\<rparr>"
  have ne: "hsize this \<noteq> a" using True by (auto simp: sizeof_blockhdr_def ALLOC_ALIGN_def)
  have le: "unat a \<le> unat (hsize this)" using fits by (simp add: word_le_nat_alt)
  have nw: "unat (haddr this + a) = unat (haddr this) + unat a"
    using le nowrap by (intro unat_add_no_overflow) simp
  have "haddr new \<noteq> haddr this" using nz by (simp add: new_def)
  moreover have "nl_after haddr (haddr this) new (nl_update haddr this1 (us @ this # vs)) = us @ this1 # new # vs"
    using nl_update_split [of haddr this1 this us vs] nl_after_split [of haddr this1 us new vs] key
    by (simp add: this1_def)
  moreover have "nl_del haddr (haddr this1) (us @ this1 # new # vs) = us @ new # vs"
    using key \<open>haddr new \<noteq> haddr this\<close> by (intro nl_del_split) (auto simp: this1_def)
  ultimately have "flff_take h this a st = (PAYLOAD (haddr this),
      (set_hdrs h (us @ [new] @ vs) st)\<lparr>alloc_hdrs := (alloc_hdrs st)(haddr this := Some x)\<rparr>)"
    using True by (simp add: flff_take_def Let_def xs x_def this1_def flip: new_def)
  then show ?thesis using fits ne le
    by (intro exI [of _ x, OF exI [of _ "[new]"]])
      (simp add: x_def this1_def new_def hivl_def nw unat_sub_le)
qed

lemma heap_wf_alloc:
  assumes "heap_wf h st" and "alloc_hdrs st a = Some x"
  shows "haddr x = a" "hdr_ivl (hivl x)" "points (hivl x) \<inter> cover (hivls h st) = {}"
  using assms unfolding heap_wf_def by blast+

lemma heap_wf_allocs:
  "heap_wf h st \<Longrightarrow> alloc_hdrs st a = Some x \<Longrightarrow> alloc_hdrs st b = Some y \<Longrightarrow> a \<noteq> b
   \<Longrightarrow> points (hivl x) \<inter> points (hivl y) = {}"
  unfolding heap_wf_def by blast

lemma flff_take_wf:
  assumes wf: "heap_wf h st" and mem: "this \<in> set (hdrs h st)"
    and fits: "a \<le> hsize this" and nz: "a \<noteq> 0" and al: "16 dvd unat a"
  shows "\<exists>x st'. flff_take h this a st = (PAYLOAD (haddr this), st') \<and> heap_wf h st'
    \<and> alloc_hdrs st (haddr this) = None \<and> alloc_hdrs st' = (alloc_hdrs st)(haddr this := Some x)
    \<and> haddr x = haddr this \<and> a \<le> hsize x
    \<and> (hsize x = a \<or> hsize x = hsize this \<and> hsize this - a < sizeof_blockhdr + ALLOC_ALIGN)
    \<and> points (hivl x) \<subseteq> cover (hivls h st)
    \<and> cover (hivls h st') = cover (hivls h st) - points (hivl x)
    \<and> (\<exists>us vs. hivls h st = us @ hivl this # vs \<and> hivls h st' = us @
        (if snd (hivl this) = snd (hivl x) then []
         else [(fst (hivl this) + snd (hivl x), snd (hivl this) - snd (hivl x))]) @ vs)
    \<and> ff_same st st' \<and> sallocator st' = sallocator st"
proof -
  have ord: "ordered (map hivl (hdrs h st))" using wf by (simp add: heap_wf_def hivls_def)
  obtain us vs where xs: "hdrs h st = us @ this # vs"
    and key: "haddr this \<notin> haddr ` set us" "haddr this \<notin> haddr ` set vs"
    using nl_cut [OF mem ordered_distinct_haddr [OF ord]] by metis
  have hi: "hdr_ivl (hivl this)" using wf mem by (simp add: heap_wf_def hivls_def)
  then have nowrap: "unat (haddr this) + unat (hsize this) < 2 ^ 32" by (simp add: hdr_ivl_def hivl_def)
  obtain x rest where res: "flff_take h this a st = (PAYLOAD (haddr this),
      (set_hdrs h (us @ rest @ vs) st)\<lparr>alloc_hdrs := (alloc_hdrs st)(haddr this := Some x)\<rparr>)"
    and x: "haddr x = haddr this" "a \<le> hsize x" "hsize x \<le> hsize this" "hsize x = a \<or> hsize x = hsize this \<and> hsize this - a < sizeof_blockhdr + ALLOC_ALIGN"
    and rest: "map hivl rest = (if hsize x = hsize this then []
        else [(unat (haddr this) + unat (hsize x), unat (hsize this) - unat (hsize x))])"
    using flff_take_eq [OF xs key fits nz nowrap] by blast
  define st' where "st' = (set_hdrs h (us @ rest @ vs) st)\<lparr>alloc_hdrs := (alloc_hdrs st)(haddr this := Some x)\<rparr>"
  define b l s where "b = unat (haddr this)" and "l = unat (hsize this)" and "s = unat (hsize x)"
  have s: "s \<le> l" "16 dvd s" "0 < s"
    using x(2-4) hi al nz by (auto simp: s_def l_def word_le_nat_alt hdr_ivl_def hivl_def unat_gt_0)
  have ivs: "hivls h st = map hivl us @ (b, l) # map hivl vs"
    by (simp add: hivls_def xs hivl_def b_def l_def)
  have px: "hivl x = (b, s)" by (simp add: hivl_def x b_def s_def)
  have ivs': "hivls h st' = map hivl us @ (if l = s then [] else [(b + s, l - s)]) @ map hivl vs"
    using rest by (auto simp: hivls_def st'_def b_def l_def s_def word_unat_eq_iff)
  have cov: "points (hivl x) \<subseteq> cover (hivls h st)" "cover (hivls h st') = cover (hivls h st) - points (hivl x)"
    using cut_cover [of "map hivl us" b l "map hivl vs" s] ord s(1) unfolding px ivs ivs'
    by (simp_all add: xs hivl_def b_def l_def)
  have "ordered (hivls h st')"
    unfolding ivs' by (rule cut_ordered) (use ord ivs s in \<open>simp_all add: hivls_def\<close>)
  moreover have "\<forall>i \<in> set (hivls h st'). hdr_ivl i"
  proof -
    have "hdr_ivl (b + s, l - s)" if "l \<noteq> s"
      using hi s that by (auto simp: hdr_ivl_def hivl_def b_def l_def)
    then show ?thesis using wf ivs ivs' by (auto simp: heap_wf_def)
  qed
  moreover have hx: "hdr_ivl (hivl x)" using hi s unfolding px by (auto simp: hdr_ivl_def hivl_def b_def l_def)
  moreover have disj: "points (hivl y) \<inter> points (hivl x) = {}" "points (hivl y) \<inter> cover (hivls h st') = {}"
    if "alloc_hdrs st c = Some y" for c y
    using heap_wf_alloc(3) [OF wf that] cov by blast+
  moreover have none: "alloc_hdrs st (haddr this) = None"
  proof (rule ccontr)
    assume "alloc_hdrs st (haddr this) \<noteq> None"
    then obtain y where y: "alloc_hdrs st (haddr this) = Some y" by auto
    then have "haddr y = haddr this" "hdr_ivl (hivl y)" using heap_wf_alloc [OF wf] by auto
    then have "b \<in> points (hivl y) \<inter> points (hivl x)"
      using s px by (auto simp: hivl_def hdr_ivl_def b_def)
    with disj(1) [OF y] show False by blast
  qed
  moreover have "points (hivl x) \<inter> cover (hivls h st') = {}" using cov by auto
  moreover have al': "alloc_hdrs st' = (alloc_hdrs st)(haddr this := Some x)" by (simp add: st'_def)
  ultimately have "heap_wf h st'"
    using wf x(1) unfolding heap_wf_def al' by (auto split: if_splits simp: Int_commute)
  moreover have ti: "hivl this = (b, l)" by (simp add: hivl_def b_def l_def)
  ultimately show ?thesis
    using res x cov none al' ivs ivs'
    by (intro exI [of _ x, OF exI [of _ st']]) (auto simp: ff_same_def st'_def px ti)
qed

section \<open>Giving a block back\<close>

lemma flff_merge_down_ok:
  assumes dist: "distinct (map haddr (pre @ this # post))"
    and bounds: "\<forall>b \<in> set pre. iend (hivl b) < 2 ^ 32" "iend (hivl this) < 2 ^ 32"
  shows "\<exists>pre' this'. flff_merge_down this (pre @ this # post) = (this', pre' @ this' # post)
    \<and> merge_down (map hivl pre) (hivl this) = (map hivl pre', hivl this')
    \<and> distinct (map haddr (pre' @ this' # post))"
proof -
  have prev: "nl_prev haddr (haddr this) (pre @ this # post) = (if pre = [] then None else Some (last pre))"
    using dist by (intro nl_prev_split) auto
  show ?thesis
  proof (cases "pre \<noteq> [] \<and> iend (hivl (last pre)) = fst (hivl this)")
    case False
    have "pre \<noteq> [] \<Longrightarrow> haddr (last pre) + hsize (last pre) \<noteq> haddr this"
      using False bounds(1) neighbour32_iff [of "haddr (last pre)" "hsize (last pre)"] by (simp add: hivl_def)
    then have "flff_merge_down this (pre @ this # post) = (this, pre @ this # post)"
      by (simp add: flff_merge_down_def prev)
    moreover have "merge_down (map hivl pre) (hivl this) = (map hivl pre, hivl this)"
      using False by (auto simp: merge_down_def last_map)
    ultimately show ?thesis using dist by blast
  next
    case True
    define p us where "p = last pre" and "us = butlast pre"
    have pre: "pre = us @ [p]" using True by (simp add: p_def us_def)
    define p' where "p' = p\<lparr>hsize := hsize p + hsize this\<rparr>"
    have n: "haddr p' = haddr p" by (simp add: p'_def)
    have key: "haddr p \<notin> haddr ` set us" "haddr p \<notin> haddr ` set (this # post)"
      "haddr this \<notin> haddr ` set (us @ [p'])" "haddr this \<notin> haddr ` set post"
      using dist unfolding pre by (auto simp: n)
    have upd: "nl_update haddr p' (pre @ this # post) = (us @ [p']) @ this # post"
      unfolding pre using nl_update_split [of haddr p' p us "this # post"] key n by simp
    have "nl_del haddr (haddr this) ((us @ [p']) @ this # post) = us @ p' # post"
      by (subst nl_del_split) (use key in auto)
    then have relink: "nl_del haddr (haddr this) (nl_update haddr p' (pre @ this # post)) = us @ p' # post"
      by (simp only: upd)
    have nb: "haddr p + hsize p = haddr this"
      using True bounds(1) neighbour32_iff [of "haddr p" "hsize p"] unfolding pre by (simp add: hivl_def)
    have "flff_merge_down this (pre @ this # post) = (p', us @ p' # post)"
      using True nb unfolding flff_merge_down_def prev by (simp add: relink flip: p_def p'_def)
    moreover have "merge_down (map hivl pre) (hivl this) = (map hivl us, hivl p')"
      using True hivl_grow [of p this] bounds(2) by (simp add: merge_down_def pre p'_def)
    moreover have "distinct (map haddr (us @ p' # post))" using dist unfolding pre by (auto simp: n)
    ultimately show ?thesis by blast
  qed
qed

lemma flff_merge_up_ok:
  assumes dist: "distinct (map haddr (pre @ this # post))"
    and bounds: "iend (hivl this) < 2 ^ 32" "\<forall>b \<in> set post. iend (hivl b) < 2 ^ 32"
  shows "\<exists>this' post'. flff_merge_up this (pre @ this # post) = (this', pre @ this' # post')
    \<and> merge_up (hivl this) (map hivl post) = (hivl this', map hivl post')
    \<and> distinct (map haddr (pre @ this' # post'))"
proof -
  have next': "nl_next haddr (haddr this) (pre @ this # post) = (case post of [] \<Rightarrow> None | z # _ \<Rightarrow> Some z)"
    using dist by (intro nl_next_split) auto
  show ?thesis
  proof (cases "post \<noteq> [] \<and> iend (hivl this) = fst (hivl (hd post))")
    case False
    have "post \<noteq> [] \<Longrightarrow> haddr this + hsize this \<noteq> haddr (hd post)"
      using False bounds(1) neighbour32_iff [of "haddr this" "hsize this"] by (simp add: hivl_def)
    then have "flff_merge_up this (pre @ this # post) = (this, pre @ this # post)"
      unfolding flff_merge_up_def next' by (cases post) simp_all
    moreover have "merge_up (hivl this) (map hivl post) = (hivl this, map hivl post)"
      using False by (auto simp: merge_up_def hd_map)
    ultimately show ?thesis using dist by blast
  next
    case True
    then obtain c vs where post: "post = c # vs" by (cases post) auto
    define t where "t = this\<lparr>hsize := hsize this + hsize c\<rparr>"
    have n: "haddr t = haddr this" by (simp add: t_def)
    have key: "haddr this \<notin> haddr ` set pre" "haddr this \<notin> haddr ` set (c # vs)"
      "haddr c \<notin> haddr ` set (pre @ [t])" "haddr c \<notin> haddr ` set vs"
      using dist post by (auto simp: n)
    have upd: "nl_update haddr t (pre @ this # post) = (pre @ [t]) @ c # vs"
      unfolding post using nl_update_split [of haddr t this pre "c # vs"] key n by simp
    have "nl_del haddr (haddr c) ((pre @ [t]) @ c # vs) = pre @ t # vs"
      by (subst nl_del_split) (use key in auto)
    then have relink: "nl_del haddr (haddr c) (nl_update haddr t (pre @ this # post)) = pre @ t # vs"
      by (simp only: upd)
    have nb: "haddr this + hsize this = haddr c"
      using True bounds(1) post neighbour32_iff [of "haddr this" "hsize this"] by (simp add: hivl_def)
    have "flff_merge_up this (pre @ this # post) = (t, pre @ t # vs)"
      using nb relink unfolding flff_merge_up_def next' by (simp add: post flip: t_def)
    moreover have "merge_up (hivl this) (map hivl post) = (hivl t, map hivl vs)"
      using True hivl_grow [of this c] bounds(2) post by (simp add: merge_up_def t_def)
    moreover have "distinct (map haddr (pre @ t # vs))" using dist unfolding post by (auto simp: n)
    ultimately show ?thesis by blast
  qed
qed

text \<open>Insertion and the two merges together are \<open>fl_add\<close>.\<close>

lemma flff_free_list:
  assumes ord: "ordered (map hivl xs)" and all: "\<forall>x \<in> set xs. hdr_ivl (hivl x)" and hthis: "hdr_ivl (hivl this)"
    and disj: "points (hivl this) \<inter> cover (map hivl xs) = {}"
  shows "\<exists>pre this' post.
    (let (this, xs) = flff_merge_down this (flff_insert this xs) in flff_merge_up this xs) = (this', pre @ this' # post)
    \<and> map hivl (pre @ this' # post) = fl_add (hivl this) (map hivl xs)
    \<and> distinct (map haddr (pre @ this' # post))"
proof -
  define pre post where "pre = takeWhile (\<lambda>y. haddr y < haddr this) xs"
    and "post = dropWhile (\<lambda>y. haddr y < haddr this) xs"
  have dist: "distinct (map haddr xs)" using ord by (rule ordered_distinct_haddr)
  have ins: "flff_insert this xs = pre @ this # post" using flff_insert_eq [OF dist] by (simp add: pre_def post_def)
  have xs: "xs = pre @ post" by (simp add: pre_def post_def)
  have "haddr this \<notin> haddr ` set xs"
  proof
    assume "haddr this \<in> haddr ` set xs"
    then obtain y where y: "y \<in> set xs" "haddr y = haddr this" by auto
    then have "fst (hivl this) \<in> points (hivl this) \<inter> points (hivl y)"
      using all hthis by (auto simp: hivl_def hdr_ivl_def)
    with y(1) disj show False by (auto simp: cover_def)
  qed
  then have dist2: "distinct (map haddr (pre @ this # post))" using dist unfolding xs by auto
  have b: "\<forall>b \<in> set xs. iend (hivl b) < 2 ^ 32" "iend (hivl this) < 2 ^ 32"
    using all hthis by (auto simp: hdr_ivl_def)
  obtain pre' this' where md: "flff_merge_down this (pre @ this # post) = (this', pre' @ this' # post)"
      "merge_down (map hivl pre) (hivl this) = (map hivl pre', hivl this')"
      "distinct (map haddr (pre' @ this' # post))"
    using flff_merge_down_ok [OF dist2] b xs by auto
  have "iend (hivl this') = iend (hivl this)" using md(2) by (rule merge_down_iend)
  then obtain this'' post' where mu: "flff_merge_up this' (pre' @ this' # post) = (this'', pre' @ this'' # post')"
      "merge_up (hivl this') (map hivl post) = (hivl this'', map hivl post')"
      "distinct (map haddr (pre' @ this'' # post'))"
    using flff_merge_up_ok [OF md(3)] b xs by auto
  have tw: "takeWhile (\<lambda>j. fst j < fst (hivl this)) (map hivl xs) = map hivl pre"
    "dropWhile (\<lambda>j. fst j < fst (hivl this)) (map hivl xs) = map hivl post"
    by (simp_all add: takeWhile_map dropWhile_map pre_def post_def comp_def hivl_def word_less_nat_alt)
  have "map hivl (pre' @ this'' # post') = fl_add (hivl this) (map hivl xs)"
    unfolding fl_add_def tw using md(2) mu(2) by simp
  with md(1) mu(1,3) ins show ?thesis by auto
qed

lemma hdr_ivl_join: "join_closed hdr_ivl"
  unfolding join_closed_def hdr_ivl_def iend_def fst_conv snd_conv by (metis add.assoc add_pos_pos dvd_add)

lemmas hdr_ivl_add = fl_add_all [OF hdr_ivl_join]

text \<open>\<open>__free\<close> up to the point where it looks for whole pages.\<close>

lemma flff_free_eq:
  assumes wf: "heap_wf h st" and x: "alloc_hdrs st (HEADER obj) = Some x"
  defines "st1 \<equiv> st\<lparr>alloc_hdrs := (alloc_hdrs st)(HEADER obj := None)\<rparr>"
  shows "\<exists>pre this post. flff_free putpages h obj st = flff_return_pages putpages h this (pre @ this # post) st1
    \<and> map hivl (pre @ this # post) = fl_add (hivl x) (hivls h st)
    \<and> distinct (map haddr (pre @ this # post)) \<and> heap_wf h (set_hdrs h (pre @ this # post) st1)"
proof -
  note al = heap_wf_alloc [OF wf x]
  define y where "y = x\<lparr>hfree := True\<rparr>"
  have iy: "hivl y = hivl x" by (simp add: y_def hivl_def)
  have base: "ordered (hivls h st)" "\<forall>i \<in> set (hivls h st). hdr_ivl i" using wf by (simp_all add: heap_wf_def)
  obtain pre this post where
    res: "(let (this, xs) = flff_merge_down y (flff_insert y (hdrs h st)) in flff_merge_up this xs)
        = (this, pre @ this # post)"
    and iv: "map hivl (pre @ this # post) = fl_add (hivl x) (hivls h st)"
    and dist: "distinct (map haddr (pre @ this # post))"
    using flff_free_list [of "hdrs h st" y] base al(2,3) by (auto simp: iy hivls_def)
  have "flff_free putpages h obj st = flff_return_pages putpages h this (pre @ this # post) st1"
    using x res by (simp add: flff_free_def st1_def Let_def y_def case_prod_unfold)
  moreover have "heap_wf h (set_hdrs h (pre @ this # post) st1)"
  proof -
    have o: "ordered (fl_add (hivl x) (hivls h st))"
      by (rule fl_add_ordered [OF base(1) _ al(3)]) (use al(2) in \<open>simp add: hdr_ivl_def\<close>)
    moreover have "\<forall>i \<in> set (fl_add (hivl x) (hivls h st)). hdr_ivl i"
      by (rule hdr_ivl_add [OF base(2) al(2)])
    moreover have "points (hivl z) \<inter> cover (fl_add (hivl x) (hivls h st)) = {}"
      if "alloc_hdrs st c = Some z" "c \<noteq> HEADER obj" for c z
      unfolding fl_add_cover
      using heap_wf_alloc(3) [OF wf that(1)] heap_wf_allocs [OF wf that(1) x that(2)] by blast
    ultimately show ?thesis
      using wf iv unfolding heap_wf_def by (auto simp: st1_def hivls_def split: if_splits)
  qed
  ultimately show ?thesis using iv dist by blast
qed

text \<open>A block shorter than a page contains no whole page.\<close>

lemma no_whole_page:
  fixes a :: u32
  assumes "unat a + 4096 \<le> 2 ^ 32" and "unat s < 4096" and "unat a + unat s < 2 ^ 32"
  shows "\<not> ALIGN_ABOVE a PAGE_SIZE < ALIGN_BELOW (a + s) PAGE_SIZE"
proof -
  let ?A = "(unat a + 4095) div 4096 * 4096" and ?B = "(unat a + unat s) div 4096 * 4096"
  have above: "unat (ALIGN_ABOVE a (2 ^ 12)) = ?A"
    using unat_align_above_no_overflow [of 12 a] assms(1) by simp
  have below: "unat (ALIGN_BELOW (a + s) (2 ^ 12)) = ?B"
    using unat_align_below [of "a + s" 12] unat_add_no_overflow [of a s] assms(3) by simp
  have "unat a + unat s < (unat a + 4095) div 4096 * 4096 + 4096"
    using assms(2) div_mult_mod_eq [of "unat a + 4095" 4096] mod_less_divisor [of 4096 "unat a + 4095"] by linarith
  then have "(unat a + unat s) div 4096 < (unat a + 4095) div 4096 + 1"
    by (simp add: less_mult_imp_div_less)
  then have "?B \<le> ?A" by simp
  with above below show ?thesis by (simp add: word_less_nat_alt)
qed

lemma heap_wf_shrink:
  assumes "heap_wf h st" and "ordered (hivls h st')" and "\<forall>i \<in> set (hivls h st'). hdr_ivl i"
    and "cover (hivls h st') \<subseteq> cover (hivls h st)" and "alloc_hdrs st' = alloc_hdrs st"
  shows "heap_wf h st'"
  using assms unfolding heap_wf_def by (simp only:) blast

text \<open>Returning whole pages punches a hole into the merged block.\<close>

lemma flff_return_pages_eq:
  assumes wf: "heap_wf h (set_hdrs h (pre @ this # post) st)" and dist: "distinct (map haddr (pre @ this # post))"
    and low: "unat (haddr this) + 4096 \<le> 2 ^ 32"
    and A: "A = ALIGN_ABOVE (haddr this) PAGE_SIZE" and B: "B = ALIGN_BELOW (haddr this + hsize this) PAGE_SIZE"
    and AB: "A < B"
  shows "\<exists>st'. flff_return_pages putpages h this (pre @ this # post) st
      = putpages \<lparr>paddr = ucast A, psize = ucast (B - A), pflags = hflags this\<rparr> st'
    \<and> heap_wf h st' \<and> cover (hivls h st') = cover (map hivl (pre @ this # post)) - {unat A ..< unat B}
    \<and> {unat A ..< unat B} \<subseteq> cover (map hivl (pre @ this # post))
    \<and> ff_same st st' \<and> alloc_hdrs st' = alloc_hdrs st \<and> sallocator st' = sallocator st"
proof -
  define E where "E = haddr this + hsize this"
  define new where "new = \<lparr>haddr = B, hsize = E - B, hfree = True, hflags = hflags this\<rparr>"
  define low where "low = this\<lparr>hsize := A - haddr this\<rparr>"
  define up where "up = (if B < E then [new] else [])"
  define ys where "ys = pre @ (if haddr this < A then [low] else []) @ up @ post"
  have hi: "hdr_ivl (hivl this)" using wf by (simp add: heap_wf_def hivls_def)
  then have e: "unat E = unat (haddr this) + unat (hsize this)"
    by (simp add: E_def hdr_ivl_def hivl_def unat_add_no_overflow)
  have Ale: "unat (haddr this) \<le> unat A" and dA: "16 dvd unat A"
  proof -
    have "IS_ALIGNED A (2 ^ 12)" "unat (haddr this) \<le> unat A"
      using align_above_least [of 12 "haddr this"] assms(3) by (simp_all add: A)
    then have "4096 dvd unat A" using is_aligned_iff_dvd [of A 12] by simp
    then show "unat (haddr this) \<le> unat A" "16 dvd unat A"
      using \<open>unat (haddr this) \<le> unat A\<close> by (auto elim: dvd_trans [rotated])
  qed
  have b: "unat B = unat E div 4096 * 4096" using unat_align_below [of E 12] by (simp add: B E_def)
  then have BE: "unat B \<le> unat E" and dB: "16 dvd unat B" by (auto simp: dvd_mult)
  have AB': "unat A < unat B" using AB by (simp add: word_less_nat_alt)
  have key: "haddr this \<notin> haddr ` set pre" "haddr this \<notin> haddr ` set post" using dist by auto
  have nb: "haddr new \<noteq> haddr this" using Ale AB' by (auto simp: new_def)
  have lists: "(if haddr this < A then nl_update haddr low (if B < E then nl_after haddr (haddr this) new (pre @ this # post) else pre @ this # post)
      else nl_del haddr (haddr this) (if B < E then nl_after haddr (haddr this) new (pre @ this # post) else pre @ this # post)) = ys"
  proof -
    have after: "(if B < E then nl_after haddr (haddr this) new (pre @ this # post) else pre @ this # post)
        = pre @ this # up @ post" using key by (simp add: nl_after_split up_def)
    have k2: "haddr this \<notin> haddr ` set (up @ post)" using key nb by (auto simp: up_def)
    have "nl_update haddr low (pre @ this # up @ post) = pre @ low # up @ post"
      by (rule nl_update_split) (use key k2 in \<open>auto simp: low_def\<close>)
    moreover have "nl_del haddr (haddr this) (pre @ this # up @ post) = pre @ up @ post"
      by (rule nl_del_split) (use key k2 in auto)
    ultimately show ?thesis by (simp add: after ys_def)
  qed
  define st' where "st' = set_hdrs h ys st"
  have call: "flff_return_pages putpages h this (pre @ this # post) st
      = putpages \<lparr>paddr = ucast A, psize = ucast (B - A), pflags = hflags this\<rparr> st'"
    unfolding flff_return_pages_def Let_def A [symmetric] E_def [symmetric] B [folded E_def, symmetric]
      new_def [symmetric] low_def [symmetric] lists st'_def using AB by simp
  have iv: "hivls h st' = map hivl pre @ (if unat (haddr this) < unat A then [(unat (haddr this), unat A - unat (haddr this))] else [])
      @ (if unat B < unat (haddr this) + unat (hsize this) then [(unat B, unat (haddr this) + unat (hsize this) - unat B)] else []) @ map hivl post"
    using Ale BE by (simp add: st'_def hivls_def ys_def up_def low_def new_def hivl_def word_less_nat_alt
        word_le_nat_alt unat_sub_le e [symmetric])
  have o: "ordered (map hivl pre @ (unat (haddr this), unat (hsize this)) # map hivl post)"
    using wf by (simp add: heap_wf_def hivls_def hivl_def)
  note hole = punch_hole [OF o Ale AB' _ iv, unfolded e [symmetric], OF BE]
  have cov: "cover (hivls h st') = cover (map hivl (pre @ this # post)) - {unat A ..< unat B}"
    using hole(2) by (simp add: hivl_def [of this])
  have "hdr_ivl i" if "i \<in> set (hivls h st')" for i
    using that hi dA dB Ale AB' BE wf unfolding iv
    by (auto simp: hdr_ivl_def hivl_def [of this] heap_wf_def hivls_def dvd_diff_nat e split: if_splits)
  moreover have "cover (hivls h st') \<subseteq> cover (hivls h (set_hdrs h (pre @ this # post) st))"
    unfolding cov by (simp add: hivls_def)
  ultimately have wf': "heap_wf h st'"
    using heap_wf_shrink [OF wf hole(1)] by (simp add: st'_def)
  have "{unat A ..< unat B} \<subseteq> cover (map hivl (pre @ this # post))"
    using Ale BE e by (auto simp: hivl_def [of this])
  with call wf' cov show ?thesis by (auto simp: st'_def ff_same_def)
qed

section \<open>Properties\<close>

text \<open>
  C5: if a free block is large enough, \<open>__alloc\<close> takes the first such block: the object is
  16-byte aligned, \<open>ksize\<close> of it is at least the size asked for, its memory was free and
  belongs to no other object, exactly that memory leaves the free list, and the heap stays
  well-formed without asking for pages.
\<close>

theorem flff_alloc_fit:
  assumes wf: "heap_wf h st" and small: "unat sz + 48 \<le> 2 ^ 32"
    and fit: "flff_first_fit (ALIGN_ABOVE sz ALLOC_ALIGN + sizeof_blockhdr) (hdrs h st) = Some this"
  shows "\<exists>x s st'. flff_alloc getpages h sz flags st = Ret (PAYLOAD (haddr this), st') \<and> heap_wf h st'
    \<and> 16 dvd unat (PAYLOAD (haddr this)) \<and> flff_size (PAYLOAD (haddr this)) st' = Ret s \<and> unat sz \<le> unat s
    \<and> alloc_hdrs st (haddr this) = None \<and> alloc_hdrs st' = (alloc_hdrs st)(haddr this := Some x)
    \<and> points (hivl x) \<subseteq> cover (hivls h st) \<and> cover (hivls h st') = cover (hivls h st) - points (hivl x)
    \<and> ff_same st st'"
proof -
  define a where "a = ALIGN_ABOVE sz ALLOC_ALIGN + sizeof_blockhdr"
  have low: "unat (ALIGN_ABOVE sz (2 ^ 4)) = (unat sz + 15) div 16 * 16"
    using unat_align_above_no_overflow [of 4 sz] small by simp
  have up: "(unat sz + 15) div 16 * 16 \<le> unat sz + 15" by (rule div_times_less_eq_dividend)
  have ge: "unat sz \<le> (unat sz + 15) div 16 * 16"
    using div_mult_mod_eq [of "unat sz + 15" 16] mod_less_divisor [of 16 "unat sz + 15"] by linarith
  have ua: "unat a = (unat sz + 15) div 16 * 16 + 32"
    unfolding a_def sizeof_blockhdr_def using low up small
    by (subst unat_add_no_overflow) (simp_all add: ALLOC_ALIGN_def)
  obtain us vs where "hdrs h st = us @ this # vs" and fits: "a \<le> hsize this"
    using flff_first_fit_Some [OF fit] by (auto simp: a_def)
  then have mem: "this \<in> set (hdrs h st)" by simp
  have "a \<noteq> 0" "16 dvd unat a" using ua by (auto simp: dvd_add)
  from flff_take_wf [OF wf mem fits this] obtain x st' where
    t: "flff_take h this a st = (PAYLOAD (haddr this), st')" "heap_wf h st'"
      "alloc_hdrs st (haddr this) = None" "alloc_hdrs st' = (alloc_hdrs st)(haddr this := Some x)"
      "haddr x = haddr this" "a \<le> hsize x" "points (hivl x) \<subseteq> cover (hivls h st)"
      "cover (hivls h st') = cover (hivls h st) - points (hivl x)" "ff_same st st'" by blast
  have "flff_alloc getpages h sz flags st = Ret (PAYLOAD (haddr this), st')"
    using fit t(1) by (simp add: flff_alloc_def Let_def a_def)
  moreover have "flff_size (PAYLOAD (haddr this)) st' = Ret (hsize x - sizeof_blockhdr)"
    by (simp add: flff_size_def HEADER_def PAYLOAD_def t(4))
  moreover have "unat sz \<le> unat (hsize x - sizeof_blockhdr)"
    using t(6) ua ge by (simp add: unat_sub_le word_le_nat_alt sizeof_blockhdr_def)
  moreover have "16 dvd unat (PAYLOAD (haddr this))"
  proof -
    have "hdr_ivl (hivl this)" using wf mem by (simp add: heap_wf_def hivls_def)
    then have "16 dvd unat (haddr this)" "unat (haddr this) + 32 < 2 ^ 32"
      using fits ua by (auto simp: hdr_ivl_def hivl_def word_le_nat_alt)
    then show ?thesis
      using unat_add_no_overflow [of "haddr this" "32 :: u32"] by (simp add: PAYLOAD_def sizeof_blockhdr_def)
  qed
  ultimately show ?thesis using t by blast
qed

definition example_heap_state :: kmem where
  "example_heap_state = \<lparr>ff_head = [], ff_free_space = 0, pallocator = PFirstFit, boot_head = [],
     simple_head = [\<lparr>haddr = 0x80200000, hsize = 64, hfree = True, hflags = 0\<rparr>,
                    \<lparr>haddr = 0x80200100, hsize = 512, hfree = True, hflags = 0\<rparr>],
     alloc_hdrs = Map.empty(0x80200040 \<mapsto> \<lparr>haddr = 0x80200040, hsize = 192, hfree = False, hflags = 0\<rparr>),
     sallocator = SProper\<rparr>"

lemma example_heap_wf: "heap_wf Proper example_heap_state"
  by (auto simp: example_heap_state_def heap_wf_def hivls_def hivl_def ordered_Cons hdr_ivl_def split: if_splits)

theorem flff_alloc_fit_witness:
  "\<exists>s st'. flff_alloc (\<lambda>_ _. Hang) Proper 100 0 example_heap_state = Ret (0x80200120, st')
    \<and> heap_wf Proper st' \<and> flff_size 0x80200120 st' = Ret s \<and> 100 \<le> unat s"
proof -
  have "flff_first_fit (ALIGN_ABOVE 100 ALLOC_ALIGN + sizeof_blockhdr) (hdrs Proper example_heap_state)
      = Some \<lparr>haddr = 0x80200100, hsize = 512, hfree = True, hflags = 0\<rparr>"
    by (simp add: example_heap_state_def ALIGN_ABOVE_def ALIGN_MASK_def ALLOC_ALIGN_def sizeof_blockhdr_def)
  from flff_alloc_fit [OF example_heap_wf _ this, of "\<lambda>_ _. Hang" 0]
  show ?thesis by (auto simp: PAYLOAD_def sizeof_blockhdr_def)
qed

text \<open>
  C6: freeing an object gives its memory back: after merging, the free list together with
  the whole pages handed to \<open>free_pages\<close> covers exactly what was free before plus the
  object, nothing twice, and the heap stays well-formed. The pages are described by their
  addresses in the heap, which are kernel virtual addresses.
\<close>

theorem flff_free_conserves:
  assumes wf: "heap_wf h st" and x: "alloc_hdrs st (HEADER obj) = Some x"
    and low: "\<forall>i \<in> insert (hivl x) (set (hivls h st)). iend i + 4096 \<le> 2 ^ 32"
  shows "\<exists>(A :: u32) (B :: u32) flags st'. flff_free putpages h obj st =
      (if A < B then putpages \<lparr>paddr = ucast A, psize = ucast (B - A), pflags = flags\<rparr> st' else Ret st')
    \<and> heap_wf h st' \<and> IS_ALIGNED A PAGE_SIZE \<and> IS_ALIGNED B PAGE_SIZE
    \<and> cover (hivls h st') \<union> {unat A ..< unat B} = cover (hivls h st) \<union> points (hivl x)
    \<and> cover (hivls h st') \<inter> {unat A ..< unat B} = {}
    \<and> alloc_hdrs st' = (alloc_hdrs st)(HEADER obj := None) \<and> ff_same st st'"
proof -
  define st1 where "st1 = st\<lparr>alloc_hdrs := (alloc_hdrs st)(HEADER obj := None)\<rparr>"
  obtain pre this post where res: "flff_free putpages h obj st
      = flff_return_pages putpages h this (pre @ this # post) st1"
    and iv: "map hivl (pre @ this # post) = fl_add (hivl x) (hivls h st)"
    and dist: "distinct (map haddr (pre @ this # post))"
    and wf1: "heap_wf h (set_hdrs h (pre @ this # post) st1)"
    using flff_free_eq [OF wf x] unfolding st1_def by blast
  define A B where "A = ALIGN_ABOVE (haddr this) PAGE_SIZE"
    and "B = ALIGN_BELOW (haddr this + hsize this) PAGE_SIZE"
  have "join_closed (\<lambda>i. iend i + 4096 \<le> 2 ^ 32)" by (simp add: join_closed_def iend_def)
  from fl_add_all [OF this, of "hivls h st" "hivl x"] low
  have "\<forall>i \<in> set (map hivl (pre @ this # post)). iend i + 4096 \<le> 2 ^ 32" unfolding iv by blast
  then have thislow: "unat (haddr this) + 4096 \<le> 2 ^ 32" by (simp add: hivl_def)
  have al: "IS_ALIGNED A PAGE_SIZE" "IS_ALIGNED B PAGE_SIZE"
    using align_above_least(1) [of 12 "haddr this"] thislow
      is_aligned_iff_dvd [of B 12] unat_align_below [of "haddr this + hsize this" 12]
    by (simp_all add: A_def B_def)
  have cov: "cover (map hivl (pre @ this # post)) = cover (hivls h st) \<union> points (hivl x)"
    unfolding iv by (rule fl_add_cover)
  show ?thesis
  proof (cases "A < B")
    case True
    obtain st' where st': "flff_return_pages putpages h this (pre @ this # post) st1
        = putpages \<lparr>paddr = ucast A, psize = ucast (B - A), pflags = hflags this\<rparr> st'" "heap_wf h st'"
      "cover (hivls h st') = cover (map hivl (pre @ this # post)) - {unat A ..< unat B}"
      "{unat A ..< unat B} \<subseteq> cover (map hivl (pre @ this # post))"
      "ff_same st1 st'" "alloc_hdrs st' = alloc_hdrs st1"
      using flff_return_pages_eq [OF wf1 dist thislow A_def B_def True, of putpages] by blast
    then show ?thesis using True res cov al
      by (intro exI [of _ A, OF exI [of _ B, OF exI [of _ "hflags this", OF exI [of _ st']]]])
        (auto simp: st1_def ff_same_def)
  next
    case False
    define st2 where "st2 = set_hdrs h (pre @ this # post) st1"
    have "flff_return_pages putpages h this (pre @ this # post) st1 = Ret st2"
      using False by (simp add: flff_return_pages_def A_def B_def st2_def)
    moreover have "{unat A ..< unat B} = {}" using False by (simp add: word_less_nat_alt)
    moreover have "cover (hivls h st2) = cover (hivls h st) \<union> points (hivl x)"
      using cov by (simp add: st2_def hivls_def)
    moreover have "flff_free putpages h obj st = (if A < B then
        putpages \<lparr>paddr = ucast A, psize = ucast (B - A), pflags = 0\<rparr> st2 else Ret st2)"
      using False res calculation(1) by simp
    moreover have "heap_wf h st2" "alloc_hdrs st2 = (alloc_hdrs st)(HEADER obj := None)" "ff_same st st2"
      using wf1 by (simp_all add: st2_def st1_def ff_same_def)
    ultimately show ?thesis using al
      by (intro exI [of _ A, OF exI [of _ B, OF exI [of _ "0 :: gfp_t", OF exI [of _ st2]]]]) simp
  qed
qed

theorem flff_free_conserves_witness:
  "\<exists>st'. flff_free (\<lambda>_ _. Hang) Proper 0x80200060 example_heap_state = Ret st' \<and> heap_wf Proper st'
    \<and> cover (hivls Proper st') = {0x80200000 ..< 0x80200300}"
proof -
  let ?x = "\<lparr>haddr = 0x80200040, hsize = 192, hfree = False, hflags = 0\<rparr>"
  have x: "alloc_hdrs example_heap_state (HEADER 0x80200060) = Some ?x"
    by (simp add: example_heap_state_def HEADER_def sizeof_blockhdr_def)
  have low: "\<forall>i \<in> insert (hivl ?x) (set (hivls Proper example_heap_state)). iend i + 4096 \<le> 2 ^ 32"
    by (simp add: hivl_def hivls_def example_heap_state_def)
  have cov: "cover (hivls Proper example_heap_state) \<union> points (hivl ?x) = {0x80200000 ..< 0x80200300}"
    by (auto simp: hivl_def hivls_def example_heap_state_def)
  from flff_free_conserves [OF example_heap_wf x low, of "\<lambda>_ _. Hang", unfolded cov]
  obtain A B :: u32 and flags st' where res: "flff_free (\<lambda>_ _. Hang) Proper 0x80200060 example_heap_state =
      (if A < B then Hang else Ret st')" and st': "heap_wf Proper st'"
      "cover (hivls Proper st') \<union> {unat A ..< unat B} = {0x80200000 ..< 0x80200300}"
      and al: "IS_ALIGNED A PAGE_SIZE" "IS_ALIGNED B PAGE_SIZE" by blast
  have "\<not> A < B"
  proof
    assume "A < B"
    have d: "4096 dvd unat A" "4096 dvd unat B"
      using al is_aligned_iff_dvd [of A 12] is_aligned_iff_dvd [of B 12] by simp_all
    have "unat A < unat B" using \<open>A < B\<close> by (simp add: word_less_nat_alt)
    moreover have "{unat A ..< unat B} \<subseteq> {0x80200000 ..< 0x80200300}" using st'(2) by blast
    ultimately have "unat A \<in> {0x80200000 ..< 0x80200300}" "unat B - 1 \<in> {0x80200000 ..< 0x80200300}" by force+
    then have "0x80200000 \<le> unat A" "unat B \<le> 0x80200300" by auto
    moreover obtain k m where "unat A = 4096 * k" "unat B = 4096 * m" using d by (auto elim!: dvdE)
    moreover from this have "k < m" using \<open>unat A < unat B\<close> by simp
    ultimately show False by linarith
  qed
  then have "{unat A ..< unat B} = {}" by (simp add: word_less_nat_alt)
  with res st' \<open>\<not> A < B\<close> show ?thesis by simp
qed

text \<open>
  When no free block fits, the pages asked for do not include the header. For a size
  whose last 32 bytes end a page, the remaining size wraps around: the allocation
  succeeds and leaves a free block of almost 4 GB behind the pages it got.
\<close>

theorem flff_alloc_underflow:
  assumes none: "flff_first_fit (ALIGN_ABOVE sz ALLOC_ALIGN + sizeof_blockhdr) (hdrs h st) = None"
    and pages: "getpages \<lparr>paddr = 0, psize = ucast (ALIGN_ABOVE (ALIGN_ABOVE sz ALLOC_ALIGN) PAGE_SIZE), pflags = flags\<rparr> st
      = Ret (0, pages, st1)"
    and size: "ucast (psize pages) = ALIGN_ABOVE (ALIGN_ABOVE sz ALLOC_ALIGN) PAGE_SIZE"
    and short: "unat (ALIGN_ABOVE (ALIGN_ABOVE sz ALLOC_ALIGN) PAGE_SIZE) < unat (ALIGN_ABOVE sz ALLOC_ALIGN) + 32"
      "ALIGN_ABOVE sz ALLOC_ALIGN \<le> ALIGN_ABOVE (ALIGN_ABOVE sz ALLOC_ALIGN) PAGE_SIZE"
      "unat (ALIGN_ABOVE sz ALLOC_ALIGN) + 32 < 2 ^ 32"
  shows "\<exists>st' new. flff_alloc getpages h sz flags st = Ret (PAYLOAD (i386_pa2kva (ucast (paddr pages))), st')
    \<and> new \<in> set (hdrs h st') \<and> 2 ^ 32 - 32 \<le> unat (hsize new)"
proof -
  define sz' where "sz' = ALIGN_ABOVE sz ALLOC_ALIGN"
  define a where "a = sz' + sizeof_blockhdr"
  define this where "this = \<lparr>haddr = i386_pa2kva (ucast (paddr pages)), hsize = ucast (psize pages),
    hfree = True, hflags = flags\<rparr>"
  define st2 where "st2 = set_hdrs h (flff_insert this (hdrs h st1)) st1"
  define P where "P = ALIGN_ABOVE sz' PAGE_SIZE"
  have ua: "unat a = unat sz' + 32"
    using short(3) unat_add_no_overflow [of sz' "32 :: u32"] by (simp add: a_def sz'_def sizeof_blockhdr_def)
  have sh: "unat P < unat sz' + 32" "unat sz' \<le> unat P" using short by (simp_all add: P_def sz'_def word_le_nat_alt)
  have hs: "hsize this = P" using size by (simp add: this_def P_def sz'_def)
  have new: "unat (hsize this - a) = 2 ^ 32 - (unat a - unat P)"
    unfolding hs using sh ua unat_bound [of a] by (subst unat_sub_wrap) (simp_all add: word_less_nat_alt)
  define nb where "nb = \<lparr>haddr = haddr this + a, hsize = hsize this - a, hfree = True, hflags = hflags this\<rparr>"
  have split: "hsize this - a \<ge> sizeof_blockhdr + ALLOC_ALIGN"
    using new ua sh by (simp add: word_le_nat_alt sizeof_blockhdr_def ALLOC_ALIGN_def)
  define this1 where "this1 = this\<lparr>hsize := a\<rparr>"
  define xs where "xs = nl_del haddr (haddr this) (nl_after haddr (haddr this) nb (nl_update haddr this1 (hdrs h st2)))"
  have take: "\<exists>st'. flff_take h this a st2 = (PAYLOAD (haddr this), st') \<and> hdrs h st' = xs"
    using split by (simp add: flff_take_def Let_def xs_def nb_def this1_def)
  then obtain st' where st': "flff_take h this a st2 = (PAYLOAD (haddr this), st')" "hdrs h st' = xs" by blast
  have "this \<in> set (flff_insert this (hdrs h st1))" by (rule flff_insert_mem)
  then have "haddr this \<in> haddr ` set (nl_update haddr this1 (hdrs h st2))"
    unfolding nl_update_keys by (simp add: st2_def)
  then have "nb \<in> set (nl_after haddr (haddr this) nb (nl_update haddr this1 (hdrs h st2)))" by (rule nl_after_mem)
  moreover have "haddr nb \<noteq> haddr this" using ua by (auto simp: nb_def)
  ultimately have "nb \<in> set (hdrs h st')" by (simp add: st'(2) xs_def nl_del_def)
  moreover have "2 ^ 32 - 32 \<le> unat (hsize nb)" using new ua sh by (simp add: nb_def)
  moreover have "flff_alloc getpages h sz flags st = Ret (PAYLOAD (haddr this), st')"
    using none pages st'(1)
    by (simp add: flff_alloc_def flff_grow_def Let_def EOF_def st2_def this_def a_def sz'_def)
  ultimately show ?thesis by (auto simp: this_def)
qed

theorem flff_alloc_underflow_witness:
  "\<exists>st' new. flff_alloc (\<lambda>pages st. Ret (0, pages\<lparr>paddr := 0x300000\<rparr>, st)) Proper 4096 0 example_heap_state
      = Ret (0x80300020, st') \<and> new \<in> set (hdrs Proper st') \<and> 2 ^ 32 - 32 \<le> unat (hsize new)"
proof -
  have a: "ALIGN_ABOVE 4096 ALLOC_ALIGN = (4096 :: u32)" "ALIGN_ABOVE 4096 4096 = (4096 :: u32)"
    by (simp_all add: ALIGN_ABOVE_def ALIGN_MASK_def ALLOC_ALIGN_def)
  have "flff_first_fit (ALIGN_ABOVE 4096 ALLOC_ALIGN + sizeof_blockhdr) (hdrs Proper example_heap_state) = None"
    by (simp add: a example_heap_state_def sizeof_blockhdr_def)
  from flff_alloc_underflow [OF this, of "\<lambda>pages st. Ret (0, pages\<lparr>paddr := 0x300000\<rparr>, st)" 0]
  show ?thesis by (simp add: a PAYLOAD_def sizeof_blockhdr_def i386_pa2kva_def KERN_BASE_def)
qed

end
