(* ===== verification/BootHeap.thy ===== *)
theory BootHeap
  imports Flff
begin

text \<open>
  The bootstrap object allocator: \<open>flff.c\<close> on the 1 KB pool that \<open>master_init\<close> keeps on its
  stack. While it serves only the page allocator, whose objects have one size, the pool is
  always partitioned into 64-byte objects and free blocks, no whole page ever lies inside
  it, and so the bootstrap allocator is an object store in the sense of theory \<open>Pmm\<close>.
\<close>

definition boot_inv :: "nat \<Rightarrow> kmem \<Rightarrow> bool" where
  "boot_inv base st \<longleftrightarrow> sallocator st = SBootstrap \<and> heap_wf Boot st \<and> base + 8192 \<le> 2 ^ 32
     \<and> cover (hivls Boot st) \<union> (\<Union>x \<in> ran (alloc_hdrs st). points (hivl x)) = {base ..< base + 1024}
     \<and> (\<forall>i \<in> set (hivls Boot st). 64 dvd snd i)
     \<and> (\<forall>x \<in> ran (alloc_hdrs st). hsize x = 64)"

definition boot_live :: "kmem \<Rightarrow> u32 \<Rightarrow> bool" where
  "boot_live st p \<longleftrightarrow> alloc_hdrs st (HEADER p) \<noteq> None"

definition boot_room :: "kmem \<Rightarrow> bool" where
  "boot_room st \<longleftrightarrow> boot_head st \<noteq> []"

lemma HEADER_PAYLOAD [simp]: "HEADER (PAYLOAD a) = a"
  by (simp add: HEADER_def PAYLOAD_def)

lemma HEADER_eq_iff: "HEADER p = a \<longleftrightarrow> p = PAYLOAD a"
  by (auto simp: HEADER_def PAYLOAD_def)

lemma points_subset_bounds:
  assumes "points i \<subseteq> {base ..< base + n}" and "0 < snd i"
  shows "base \<le> fst i" "iend i \<le> base + n"
proof -
  have "fst i \<in> points i" "iend i - 1 \<in> points i" using assms(2) by (auto simp: points_def iend_def)
  then have "fst i \<in> {base ..< base + n}" "iend i - 1 \<in> {base ..< base + n}" using assms(1) by blast+
  then show "base \<le> fst i" "iend i \<le> base + n" by auto
qed

lemma boot_kmalloc:
  assumes inv: "boot_inv base st" and room: "boot_room st"
  shows "\<exists>p st'. kmalloc getpages sizeof_block 0 st = Ret (p, st') \<and> p \<noteq> 0 \<and> \<not> boot_live st p
    \<and> boot_live st' = (boot_live st)(p := True) \<and> boot_inv base st' \<and> ff_same st st'"
proof -
  have wf: "heap_wf Boot st" and sa: "sallocator st = SBootstrap" using inv by (simp_all add: boot_inv_def)
  have "flff_first_fit 64 (boot_head st) \<noteq> None"
  proof -
    have "hd (boot_head st) \<in> set (boot_head st)" using room by (simp add: boot_room_def)
    moreover from this have "hivl (hd (boot_head st)) \<in> set (hivls Boot st)" by (simp add: hivls_def)
    then have "64 dvd snd (hivl (hd (boot_head st)))" "hdr_ivl (hivl (hd (boot_head st)))"
      using inv by (auto simp: boot_inv_def heap_wf_def)
    then have "64 \<le> hsize (hd (boot_head st))"
      by (simp add: hdr_ivl_def hivl_def dvd_imp_le word_le_nat_alt)
    ultimately show ?thesis by (auto simp: flff_first_fit_None not_less)
  qed
  then obtain this where ff: "flff_first_fit 64 (boot_head st) = Some this" by auto
  then have mem: "this \<in> set (hdrs Boot st)" and fits: "64 \<le> hsize this"
    using flff_first_fit_Some [OF ff] by auto
  have "hivl this \<in> set (hivls Boot st)" using mem by (simp add: hivls_def)
  then have d64: "64 dvd unat (hsize this)" using inv by (auto simp: boot_inv_def hivl_def)
  have al: "16 dvd unat (64 :: u32)" by simp
  obtain x st' where take: "flff_take Boot this 64 st = (PAYLOAD (haddr this), st')" and wf': "heap_wf Boot st'"
    and none: "alloc_hdrs st (haddr this) = None"
    and alloc': "alloc_hdrs st' = (alloc_hdrs st)(haddr this := Some x)"
    and x: "haddr x = haddr this"
      "hsize x = 64 \<or> hsize x = hsize this \<and> hsize this - 64 < sizeof_blockhdr + ALLOC_ALIGN"
    and sub: "points (hivl x) \<subseteq> cover (hivls Boot st)"
    and cov: "cover (hivls Boot st') = cover (hivls Boot st) - points (hivl x)"
    and cut: "\<exists>us vs. hivls Boot st = us @ hivl this # vs \<and> hivls Boot st' = us @
        (if snd (hivl this) = snd (hivl x) then []
         else [(fst (hivl this) + snd (hivl x), snd (hivl this) - snd (hivl x))]) @ vs"
    and same: "ff_same st st'" "sallocator st' = sallocator st"
    using flff_take_wf [OF wf mem fits _ al] by (auto simp del: split_paired_Ex)
  have size: "hsize x = 64"
  proof (rule ccontr)
    assume ne: "hsize x \<noteq> 64"
    obtain k where k: "unat (hsize this) = 64 * k" using d64 by blast
    have "unat (hsize this - 64) < 48"
      using x(2) ne by (simp add: word_less_nat_alt sizeof_blockhdr_def ALLOC_ALIGN_def)
    then have "64 * k - 64 < 48" using fits by (simp add: unat_sub_le k)
    moreover have "64 \<le> 64 * k" using fits by (simp add: word_le_nat_alt flip: k)
    ultimately have "k = 1" by presburger
    then have "hsize this = 64" using k by (simp add: word_unat_eq_iff)
    with ne x(2) show False by simp
  qed
  have ran: "ran (alloc_hdrs st') = insert x (ran (alloc_hdrs st))" using none by (simp add: alloc' ran_map_upd)
  have sp: "hivl x = (unat (haddr this), 64)" by (simp add: hivl_def size x(1))
  have inv': "boot_inv base st'"
  proof -
    have "cover (hivls Boot st') \<union> (\<Union>y \<in> ran (alloc_hdrs st'). points (hivl y))
        = cover (hivls Boot st) \<union> (\<Union>y \<in> ran (alloc_hdrs st). points (hivl y))"
      unfolding ran cov using sub by auto
    moreover have "\<forall>i \<in> set (hivls Boot st'). 64 dvd snd i"
    proof -
      obtain us vs where iv: "hivls Boot st = us @ hivl this # vs" "hivls Boot st' = us @
        (if snd (hivl this) = snd (hivl x) then []
         else [(fst (hivl this) + snd (hivl x), snd (hivl this) - snd (hivl x))]) @ vs" using cut by blast
      have "64 dvd snd (hivl this) - snd (hivl x)" using d64 by (simp add: hivl_def size dvd_diff_nat)
      then show ?thesis using inv iv by (auto simp: boot_inv_def)
    qed
    ultimately show ?thesis using inv wf' same(2) size ran by (simp add: boot_inv_def)
  qed
  have "hdr_ivl (hivl this)" using wf mem by (simp add: heap_wf_def hivls_def)
  then have "unat (haddr this) + 64 < 2 ^ 32" using fits by (simp add: hdr_ivl_def hivl_def word_le_nat_alt)
  then have "unat (PAYLOAD (haddr this)) = unat (haddr this) + 32"
    using unat_add_no_overflow [of "haddr this" "32 :: u32"] by (simp add: PAYLOAD_def sizeof_blockhdr_def)
  then have nz: "PAYLOAD (haddr this) \<noteq> 0" by auto
  have "kmalloc getpages sizeof_block 0 st = Ret (PAYLOAD (haddr this), st')"
    using ff take by (simp add: kmalloc_def simple_alloc_of_def sa flff_alloc_def sizeof_block_def
        sizeof_blockhdr_def ALIGN_ABOVE_def ALIGN_MASK_def ALLOC_ALIGN_def)
  moreover have "boot_live st' = (boot_live st)(PAYLOAD (haddr this) := True)"
    by (auto simp: boot_live_def alloc' HEADER_eq_iff fun_eq_iff)
  ultimately show ?thesis using nz none inv' same(1) by (auto simp: boot_live_def)
qed

lemma ran_upd_None:
  assumes "heap_wf h st" and "alloc_hdrs st a = Some x"
  shows "ran ((alloc_hdrs st)(a := None)) = ran (alloc_hdrs st) - {x}"
proof -
  have "y \<noteq> x" if "alloc_hdrs st b = Some y" "b \<noteq> a" for b y
    using heap_wf_alloc(1) [OF assms] heap_wf_alloc(1) [OF assms(1) that(1)] that(2) by auto
  with assms(2) show ?thesis by (auto simp: ran_def split: if_splits) (metis option.inject)
qed

lemma boot_kfree:
  assumes inv: "boot_inv base st" and live: "boot_live st p"
  shows "\<exists>st'. kfree putpages p st = Ret st' \<and> boot_live st' = (boot_live st)(p := False)
    \<and> boot_inv base st' \<and> ff_same st st'"
proof -
  have wf: "heap_wf Boot st" and sa: "sallocator st = SBootstrap" and base: "base + 8192 \<le> 2 ^ 32"
    using inv by (simp_all add: boot_inv_def)
  obtain x where x: "alloc_hdrs st (HEADER p) = Some x" using live by (auto simp: boot_live_def)
  note al = heap_wf_alloc [OF wf x]
  have xr: "x \<in> ran (alloc_hdrs st)" using x by (auto simp: ran_def)
  define st1 where "st1 = st\<lparr>alloc_hdrs := (alloc_hdrs st)(HEADER p := None)\<rparr>"
  obtain pre this post where res: "flff_free putpages Boot p st
      = flff_return_pages putpages Boot this (pre @ this # post) st1"
    and iv: "map hivl (pre @ this # post) = fl_add (hivl x) (hivls Boot st)"
    and wf1: "heap_wf Boot (set_hdrs Boot (pre @ this # post) st1)"
    using flff_free_eq [OF wf x] unfolding st1_def by blast
  define st2 where "st2 = set_hdrs Boot (pre @ this # post) st1"
  have pool: "cover (hivls Boot st) \<union> (\<Union>y \<in> ran (alloc_hdrs st). points (hivl y)) = {base ..< base + 1024}"
    using inv by (simp add: boot_inv_def)
  have iv2: "hivls Boot st2 = fl_add (hivl x) (hivls Boot st)" using iv by (simp add: hivls_def st2_def)
  have cov: "cover (hivls Boot st2) = cover (hivls Boot st) \<union> points (hivl x)"
    unfolding iv2 by (rule fl_add_cover)
  have ran2: "ran (alloc_hdrs st2) = ran (alloc_hdrs st) - {x}"
    using ran_upd_None [OF wf x] by (simp add: st2_def st1_def)
  have region: "base \<le> fst (hivl y)" "iend (hivl y) \<le> base + 1024" if "y = this \<or> y = x" for y
  proof -
    have "points (hivl y) \<subseteq> {base ..< base + 1024}"
    proof (cases "y = this")
      case True
      have "points (hivl this) \<subseteq> cover (hivls Boot st2)" by (auto simp: hivls_def st2_def)
      with True cov pool xr show ?thesis by blast
    next
      case False
      with that pool xr show ?thesis by blast
    qed
    moreover have "0 < snd (hivl y)"
      using that al(2) wf1 by (auto simp: hdr_ivl_def heap_wf_def hivls_def)
    ultimately show "base \<le> fst (hivl y)" "iend (hivl y) \<le> base + 1024"
      by (rule points_subset_bounds)+
  qed
  have "\<not> ALIGN_ABOVE (haddr this) PAGE_SIZE < ALIGN_BELOW (haddr this + hsize this) PAGE_SIZE"
    by (rule no_whole_page) (use region [of this] base in \<open>simp_all add: hivl_def\<close>)
  then have "flff_free putpages Boot p st = Ret st2"
    unfolding res by (simp add: flff_return_pages_def st2_def)
  moreover have "p \<noteq> 0"
  proof
    assume "p = 0"
    then have "unat (haddr x) = 2 ^ 32 - 32" using al(1) by (simp add: HEADER_def sizeof_blockhdr_def)
    with region [of x] base show False by (simp add: hivl_def)
  qed
  ultimately have "kfree putpages p st = Ret st2" by (simp add: kfree_def simple_free_of_def sa)
  moreover have "boot_live st2 = (boot_live st)(p := False)"
    by (auto simp: boot_live_def st2_def st1_def fun_eq_iff HEADER_def)
  moreover have "boot_inv base st2"
  proof -
    have "cover (hivls Boot st2) \<union> (\<Union>y \<in> ran (alloc_hdrs st2). points (hivl y)) = {base ..< base + 1024}"
      unfolding cov ran2 using pool xr by blast
    moreover have "\<forall>i \<in> set (hivls Boot st2). 64 dvd snd i"
    proof -
      have "hsize x = 64" using inv xr by (simp add: boot_inv_def)
      then have "64 dvd snd (hivl x)" by (simp add: hivl_def)
      moreover have "join_closed (\<lambda>i. 64 dvd snd i)" by (simp add: join_closed_def)
      ultimately show ?thesis
        unfolding iv2 using inv by (intro fl_add_all) (simp_all add: boot_inv_def)
    qed
    ultimately show ?thesis
      using inv wf1 ran2 by (simp add: boot_inv_def flip: st2_def) (simp add: st2_def st1_def)
  qed
  moreover have "ff_same st st2" by (simp add: ff_same_def st2_def st1_def)
  ultimately show ?thesis by blast
qed

lemma heap_wf_frame [simp]:
  "heap_wf h (st\<lparr>ff_head := xs\<rparr>) = heap_wf h st" "heap_wf h (st\<lparr>ff_free_space := n\<rparr>) = heap_wf h st"
  by (simp_all add: heap_wf_def hivls_def)

interpretation boot: object_store "kmalloc getpages" "kfree putpages" "boot_inv base" boot_live boot_room
  for getpages putpages base
proof unfold_locales
  fix st xs n
  show "boot_inv base (st\<lparr>ff_head := xs\<rparr>) = boot_inv base st"
    "boot_inv base (st\<lparr>ff_free_space := n\<rparr>) = boot_inv base st"
    by (simp_all add: boot_inv_def hivls_def)
  show "boot_live (st\<lparr>ff_head := xs\<rparr>) = boot_live st" "boot_live (st\<lparr>ff_free_space := n\<rparr>) = boot_live st"
    by (simp_all add: boot_live_def fun_eq_iff)
qed (fact boot_kmalloc boot_kfree)+

section \<open>The page allocator on top of the bootstrap allocator\<close>

text \<open>
  The invariant of the boot phase: both allocators are well-formed, and the objects of the
  bootstrap allocator are exactly the blocks of the page allocator.
\<close>

definition pmm_inv :: "nat \<Rightarrow> kmem \<Rightarrow> bool" where
  "pmm_inv base st \<longleftrightarrow> boot_inv base st \<and> ff_wf st \<and> pallocator st = PFirstFit
     \<and> distinct (map bnode (ff_head st)) \<and> (\<forall>p. boot_live st p \<longleftrightarrow> p \<in> bnode ` set (ff_head st))"

lemma pmm_inv_iff:
  "pmm_inv base st \<longleftrightarrow> boot.ff_ok base st \<and> boot.foreign st = {} \<and> pallocator st = PFirstFit"
  unfolding pmm_inv_def boot.ff_ok_def boot.nodes_ok_def boot.foreign_def by auto

text \<open>Fewer than 16 objects leave room in the pool, and so does a page list with fewer than 16 blocks.\<close>

lemma boot_room_live:
  assumes inv: "boot_inv base st" and objs: "{p. boot_live st p} \<subseteq> A" "finite A" "card A < 16"
  shows "boot_room st"
proof (rule ccontr)
  assume "\<not> boot_room st"
  then have "cover (hivls Boot st) = {}" by (simp add: boot_room_def hivls_def)
  then have pool: "(\<Union>x \<in> ran (alloc_hdrs st). points (hivl x)) = {base ..< base + 1024}"
    and size: "\<forall>x \<in> ran (alloc_hdrs st). hsize x = 64" and wf: "heap_wf Boot st"
    using inv by (simp_all add: boot_inv_def)
  have inj: "inj_on (\<lambda>x. PAYLOAD (haddr x)) (ran (alloc_hdrs st))"
  proof (rule inj_onI)
    fix x y assume "x \<in> ran (alloc_hdrs st)" "y \<in> ran (alloc_hdrs st)" "PAYLOAD (haddr x) = PAYLOAD (haddr y)"
    then obtain a b where ab: "alloc_hdrs st a = Some x" "alloc_hdrs st b = Some y" and "haddr x = haddr y"
      by (auto simp: ran_def PAYLOAD_def)
    then have "a = b" using heap_wf_alloc(1) [OF wf] by metis
    with ab show "x = y" by simp
  qed
  have sub: "(\<lambda>x. PAYLOAD (haddr x)) ` ran (alloc_hdrs st) \<subseteq> A"
  proof
    fix p assume "p \<in> (\<lambda>x. PAYLOAD (haddr x)) ` ran (alloc_hdrs st)"
    then obtain a x where a: "alloc_hdrs st a = Some x" and p: "p = PAYLOAD (haddr x)" by (auto simp: ran_def)
    then have "boot_live st p" using heap_wf_alloc(1) [OF wf a] by (simp add: boot_live_def)
    then show "p \<in> A" using objs(1) by blast
  qed
  have fin: "finite (ran (alloc_hdrs st))" by (rule inj_on_finite [OF inj sub objs(2)])
  have card: "card (ran (alloc_hdrs st)) \<le> card A"
    by (rule card_inj_on_le [OF inj sub objs(2)])
  have "1024 = card (\<Union>x \<in> ran (alloc_hdrs st). points (hivl x))" by (simp add: pool)
  also have "\<dots> \<le> (\<Sum>x \<in> ran (alloc_hdrs st). card (points (hivl x)))" using fin by (rule card_UN_le)
  also have "\<dots> = (\<Sum>x \<in> ran (alloc_hdrs st). 64)" by (rule sum.cong) (use size in \<open>auto simp: hivl_def\<close>)
  also have "\<dots> = 64 * card (ran (alloc_hdrs st))" by simp
  finally show False using card objs(3) by simp
qed

lemma boot_room_count:
  assumes inv: "pmm_inv base st" and len: "length (ff_head st) < 16"
  shows "boot_room st"
proof (rule boot_room_live)
  show "boot_inv base st" "{p. boot_live st p} \<subseteq> bnode ` set (ff_head st)" using inv by (auto simp: pmm_inv_def)
  show "card (bnode ` set (ff_head st)) < 16"
    using card_image_le [of "set (ff_head st)" bnode] card_length [of "ff_head st"] len by simp
qed simp

lemma pmm_alloc:
  assumes inv: "pmm_inv base st" and al: "IS_ALIGNED (psize pages) PAGE_SIZE"
    and le: "psize pages \<le> get_free_memory st"
  shows "case first_fit (psize pages) (ff_head st) of
      None \<Rightarrow> alloc_pages (kfree putpages) (Some pages) st = Ret (EOF, Some pages, st)
    | Some b \<Rightarrow> \<exists>st'. alloc_pages (kfree putpages) (Some pages) st = Ret (0, Some (pages\<lparr>paddr := bpaddr b\<rparr>), st')
        \<and> pmm_inv base st' \<and> points (pivl (pages\<lparr>paddr := bpaddr b\<rparr>)) \<subseteq> free_set st
        \<and> free_set st' = free_set st - points (pivl (pages\<lparr>paddr := bpaddr b\<rparr>))
        \<and> unat (get_free_memory st') = unat (get_free_memory st) - unat (psize pages)"
proof -
  have ok: "boot.ff_ok base st" and fst: "boot.foreign st = {}" and pa: "pallocator st = PFirstFit"
    using inv by (simp_all add: pmm_inv_iff)
  have le': "psize pages \<le> ff_free_space st" using le pa by (simp add: get_free_memory_def ff_get_free_def)
  note ref = boot.ff_alloc_refines [OF ok al le', of putpages]
  have call: "alloc_pages (kfree putpages) (Some pages) st
      = obind (ff_alloc (kfree putpages) pages st) (\<lambda>(r, pages, st). Ret (r, Some pages, st))"
    by (simp add: alloc_pages_def pa)
  show ?thesis
  proof (cases "first_fit (psize pages) (ff_head st)")
    case None
    then have "fl_cut (unat (psize pages)) (ff_ivls st) = None" by (simp add: first_fit_None ff_ivls_def)
    with ref None show ?thesis by (simp add: call)
  next
    case (Some b)
    obtain ys where cut: "fl_cut (unat (psize pages)) (ff_ivls st) = Some (unat (bpaddr b), ys)"
      using first_fit_Some [OF Some] by (auto simp: ff_ivls_def)
    with ref obtain st' where st': "ff_alloc (kfree putpages) pages st = Ret (0, pages\<lparr>paddr := bpaddr b\<rparr>, st')"
      "boot.ff_ok base st'" "ff_ivls st' = ys" "pallocator st' = pallocator st" "boot.foreign st' = boot.foreign st"
      by auto
    have wf: "ff_wf st" "ff_wf st'" using ok st'(2) by (simp_all add: boot.ff_ok_def)
    then have "ordered (ff_ivls st)" by (simp add: ff_wf_def coalesced_ordered)
    from fl_cut_cover [OF cut this] have c: "points (pivl (pages\<lparr>paddr := bpaddr b\<rparr>)) \<subseteq> free_set st"
      "free_set st' = free_set st - points (pivl (pages\<lparr>paddr := bpaddr b\<rparr>))"
      by (simp_all add: free_set_def pivl_def st'(3))
    have "unat (ff_free_space st') = unat (ff_free_space st) - unat (psize pages)"
      using wf fl_cut_total [OF cut] st'(3) by (simp add: ff_wf_def)
    with st' c pa fst Some show ?thesis
      by (simp add: call pmm_inv_iff get_free_memory_def ff_get_free_def)
  qed
qed

lemma pmm_free:
  assumes inv: "pmm_inv base st" and len: "length (ff_head st) < 16"
    and al: "IS_ALIGNED (paddr pages) PAGE_SIZE" "IS_ALIGNED (psize pages) PAGE_SIZE"
    and pos: "0 < psize pages" and bound: "iend (pivl pages) < 2 ^ 64"
    and disj: "points (pivl pages) \<inter> free_set st = {}"
  shows "\<exists>st'. free_pages (kmalloc getpages) (kfree putpages) pages st = Ret st' \<and> pmm_inv base st'
    \<and> free_set st' = free_set st \<union> points (pivl pages)
    \<and> unat (get_free_memory st') = unat (get_free_memory st) + unat (psize pages)
    \<and> length (ff_head st') \<le> Suc (length (ff_head st))"
proof -
  have ok: "boot.ff_ok base st" and fst: "boot.foreign st = {}" and pa: "pallocator st = PFirstFit"
    using inv by (simp_all add: pmm_inv_iff)
  have room: "boot_room st" using inv len by (rule boot_room_count)
  obtain st' where st': "ff_free (kmalloc getpages) (kfree putpages) pages st = Ret st'" "boot.ff_ok base st'"
      "ff_ivls st' = fl_add (pivl pages) (ff_ivls st)" "pallocator st' = pallocator st"
      "boot.foreign st' = boot.foreign st"
    using boot.ff_free_refines [OF ok room al pos bound disj] by blast
  have wf: "ff_wf st" "ff_wf st'" using ok st'(2) by (simp_all add: boot.ff_ok_def)
  have "unat (ff_free_space st') = unat (ff_free_space st) + unat (psize pages)"
    using wf by (simp add: ff_wf_def st'(3) fl_add_total pivl_def)
  moreover have "length (ff_head st') = length (fl_add (pivl pages) (ff_ivls st))"
    using st'(3) by (simp add: ff_ivls_def flip: st'(3)) (metis ff_ivls_def length_map)
  then have "length (ff_head st') \<le> Suc (length (ff_head st))"
    using fl_add_length [of "pivl pages" "ff_ivls st"] by (simp add: ff_ivls_def)
  ultimately show ?thesis using st' pa fst
    by (simp add: free_pages_def pmm_inv_iff free_set_def fl_add_cover get_free_memory_def ff_get_free_def)
qed

lemma pmm_alloc_free:
  assumes inv: "pmm_inv base st" and al: "IS_ALIGNED (psize pages) PAGE_SIZE" and pos: "0 < psize pages"
    and le: "psize pages \<le> get_free_memory st" and len: "length (ff_head st1) < 16"
    and a: "alloc_pages (kfree putpages) (Some pages) st = Ret (0, Some pages', st1)"
  shows "\<exists>st2. free_pages (kmalloc getpages) (kfree putpages) pages' st1 = Ret st2 \<and> pmm_inv base st2
    \<and> ff_ivls st2 = ff_ivls st \<and> get_free_memory st2 = get_free_memory st"
proof -
  have ok: "boot.ff_ok base st" and fst: "boot.foreign st = {}" and pa: "pallocator st = PFirstFit"
    using inv by (simp_all add: pmm_inv_iff)
  have le': "psize pages \<le> ff_free_space st" using le pa by (simp add: get_free_memory_def ff_get_free_def)
  have ffa: "ff_alloc (kfree putpages) pages st = Ret (0, pages', st1)"
    using a by (auto simp: alloc_pages_def pa obind_Ret_conv split: prod.splits)
  have p: "pmm_inv base st1"
    using pmm_alloc [OF inv al le, of putpages] a by (auto split: option.splits simp: EOF_def)
  obtain st2 where st2: "ff_free (kmalloc getpages) (kfree putpages) pages' st1 = Ret st2"
    "boot.ff_ok base st2" "ff_ivls st2 = ff_ivls st" "ff_free_space st2 = ff_free_space st"
    "pallocator st2 = pallocator st1" "boot.foreign st2 = boot.foreign st1"
    using boot.ff_alloc_free [OF ok al pos le' ffa boot_room_count [OF p len]] by auto
  then show ?thesis using p pa
    by (auto simp: free_pages_def pmm_inv_iff get_free_memory_def ff_get_free_def)
qed

end
