(* ===== verification/Kmem.thy ===== *)
theory Kmem
  imports BootHeap
begin

text \<open>
  The two allocators linked with each other, as the kernel links them: \<open>kmalloc\<close> and
  \<open>kfree\<close> of \<open>vmm.c\<close> over \<open>alloc_pages\<close> and \<open>free_pages\<close> of \<open>pmm.c\<close> and the other way
  round. \<open>linked n\<close> allows \<open>n\<close> nested calls across the two; a deeper nesting is \<open>Hang\<close>.
  The second part is the memory part of \<open>master_init\<close> of \<open>kern/init/init.c\<close>.
\<close>

section \<open>Linking\<close>

record kops =
  k_malloc :: kmalloc_fn
  k_free :: kfree_fn
  p_alloc :: alloc_pages_fn
  p_free :: free_pages_fn

definition by_ref :: "(pages option \<Rightarrow> kmem \<Rightarrow> (int \<times> pages option \<times> kmem) outcome) \<Rightarrow> alloc_pages_fn" where
  "by_ref f pages st =
     obind (f (Some pages) st) (\<lambda>(r, p, st). Ret (r, case p of Some q \<Rightarrow> q | None \<Rightarrow> pages, st))"

definition link_step :: "kops \<Rightarrow> kops" where
  "link_step k =
     \<lparr>k_malloc = kmalloc (p_alloc k), k_free = kfree (p_free k),
      p_alloc = by_ref (alloc_pages (k_free k)), p_free = free_pages (k_malloc k) (k_free k)\<rparr>"

primrec linked :: "nat \<Rightarrow> kops" where
  "linked 0 = \<lparr>k_malloc = \<lambda>_ _ _. Hang, k_free = \<lambda>_ _. Hang, p_alloc = \<lambda>_ _. Hang, p_free = \<lambda>_ _. Hang\<rparr>"
| "linked (Suc n) = link_step (linked n)"

section \<open>The memory part of master\_init\<close>

definition BOOTSTRAP_POOL_SIZE :: u32 where
  "BOOTSTRAP_POOL_SIZE = 1024"

definition kmem_reset :: kmem where
  "kmem_reset = \<lparr>ff_head = [], ff_free_space = 0, pallocator = PDummy, boot_head = [],
     simple_head = [], alloc_hdrs = Map.empty, sallocator = SDummy\<rparr>"

primrec free_all :: "free_pages_fn \<Rightarrow> pages list \<Rightarrow> kmem \<Rightarrow> kmem outcome" where
  "free_all free [] st = Ret st"
| "free_all free (p # ps) st = obind (free p st) (free_all free ps)"

text \<open>
  \<open>add_memory_pages\<close> is the architecture's: the list of the blocks it frees is an argument,
  as are the address of the pool on the stack and the contents of uninitialised memory.
  The first part sets up the two allocators and registers the memory, the second one moves
  the page allocator to the final object allocator.
\<close>

definition boot_register :: "nat \<Rightarrow> u32 \<Rightarrow> gfp_t \<Rightarrow> pages list \<Rightarrow> kmem \<Rightarrow> kmem outcome" where
  "boot_register n bootstrap_pool junk memory st =
     (let st = snd (simple_allocator_bootstrap bootstrap_pool BOOTSTRAP_POOL_SIZE junk st);
          st = snd (page_allocator_init st)
      in free_all (p_free (linked n)) memory st)"

definition boot_switch :: "nat \<Rightarrow> gfp_t \<Rightarrow> kmem \<Rightarrow> kmem outcome" where
  "boot_switch n junk st =
     (let old = get_simple_allocator st;
          st = snd (simple_allocator_init st)
      in page_allocator_move n (k_malloc (linked n)) (simple_free_of (p_free (linked n)) old) junk st)"

definition master_init_mm :: "nat \<Rightarrow> u32 \<Rightarrow> gfp_t \<Rightarrow> pages list \<Rightarrow> kmem \<Rightarrow> kmem outcome" where
  "master_init_mm n bootstrap_pool junk memory st =
     obind (boot_register n bootstrap_pool junk memory st) (boot_switch n junk)"

text \<open>
  \<open>pgalloc\<close> and \<open>pgfree\<close> of \<open>mmu.h\<close>: the \<open>struct pages\<close> on the stack is not initialised,
  so its address field is \<open>junk\<close> unless \<open>alloc_pages\<close> writes it.
\<close>

definition pgalloc :: "alloc_pages_fn \<Rightarrow> addr_t \<Rightarrow> kmem \<Rightarrow> (addr_t \<times> kmem) outcome" where
  "pgalloc getpages junk st =
     obind (getpages \<lparr>paddr = junk, psize = PAGE_SIZE, pflags = 0\<rparr> st)
       (\<lambda>(r, p, st). Ret (if r \<noteq> 0 then -1 else paddr p, st))"

definition pgfree :: "free_pages_fn \<Rightarrow> addr_t \<Rightarrow> kmem \<Rightarrow> kmem outcome" where
  "pgfree putpages pa st = putpages \<lparr>paddr = pa, psize = PAGE_SIZE, pflags = 0\<rparr> st"

section \<open>Registering memory at boot\<close>

lemma linked_page_ops:
  "p_free (linked (Suc (Suc n))) = free_pages (kmalloc (p_alloc (linked n))) (kfree (p_free (linked n)))"
  "p_alloc (linked (Suc (Suc n))) = by_ref (alloc_pages (kfree (p_free (linked n))))"
  by (simp_all add: link_step_def)

lemma bootstrapped:
  assumes "16 dvd unat pool" and "unat pool + 8192 \<le> 2 ^ 32"
    and st: "st = snd (page_allocator_init (snd (simple_allocator_bootstrap pool BOOTSTRAP_POOL_SIZE junk kmem_reset)))"
  shows "pmm_inv (unat pool) st" and "free_set st = {}" and "ff_head st = []" and "get_free_memory st = 0"
proof -
  have h: "hdrs Boot st = [\<lparr>haddr = pool, hsize = 1024, hfree = True, hflags = junk\<rparr>]"
    "alloc_hdrs st = Map.empty" "sallocator st = SBootstrap" "pallocator st = PFirstFit"
    and ff: "ff_head st = []" "ff_free_space st = 0"
    unfolding st by (simp_all add: simple_allocator_bootstrap_def page_allocator_init_def set_page_allocator_def
        set_simple_allocator_def kmem_reset_def BOOTSTRAP_POOL_SIZE_def)
  then have "boot_inv (unat pool) st"
    using assms(1,2) by (simp add: boot_inv_def heap_wf_def hivls_def hivl_def ordered_Cons hdr_ivl_def)
  with h ff show "pmm_inv (unat pool) st"
    by (simp add: pmm_inv_def ff_wf_def ff_ivls_def boot_live_def)
  show "free_set st = {}" "ff_head st = []" "get_free_memory st = 0"
    using h ff by (simp_all add: free_set_def ff_ivls_def get_free_memory_def ff_get_free_def)
qed

definition region_ok :: "pages \<Rightarrow> bool" where
  "region_ok p \<longleftrightarrow> IS_ALIGNED (paddr p) PAGE_SIZE \<and> IS_ALIGNED (psize p) PAGE_SIZE \<and> 0 < psize p
     \<and> iend (pivl p) < 2 ^ 64"

definition regions_disjoint :: "pages list \<Rightarrow> bool" where
  "regions_disjoint ps \<longleftrightarrow> sorted_wrt (\<lambda>p q. points (pivl p) \<inter> points (pivl q) = {}) ps"

lemma free_all_regions:
  assumes "pmm_inv base st" and "length (ff_head st) + length ps \<le> 16"
    and "\<forall>p \<in> set ps. region_ok p" and "regions_disjoint ps"
    and "\<forall>p \<in> set ps. points (pivl p) \<inter> free_set st = {}"
  shows "\<exists>st'. free_all (free_pages (kmalloc g) (kfree f)) ps st = Ret st' \<and> pmm_inv base st'
    \<and> free_set st' = free_set st \<union> (\<Union>p \<in> set ps. points (pivl p))
    \<and> unat (get_free_memory st') = unat (get_free_memory st) + (\<Sum>p \<leftarrow> ps. unat (psize p))"
  using assms
proof (induction ps arbitrary: st)
  case (Cons p ps)
  have r: "region_ok p" "points (pivl p) \<inter> free_set st = {}" "length (ff_head st) < 16"
    using Cons.prems by simp_all
  obtain st1 where st1: "free_pages (kmalloc g) (kfree f) p st = Ret st1" "pmm_inv base st1"
    "free_set st1 = free_set st \<union> points (pivl p)"
    "unat (get_free_memory st1) = unat (get_free_memory st) + unat (psize p)"
    "length (ff_head st1) \<le> Suc (length (ff_head st))"
    using pmm_free [OF Cons.prems(1) r(3) _ _ _ _ r(2)] r(1) unfolding region_ok_def by blast
  have "\<forall>q \<in> set ps. points (pivl q) \<inter> free_set st1 = {}"
    using Cons.prems(4,5) unfolding st1(3) regions_disjoint_def by (auto simp: Int_Un_distrib)
  moreover have "length (ff_head st1) + length ps \<le> 16" using st1(5) Cons.prems(2) by simp
  ultimately obtain st' where st': "free_all (free_pages (kmalloc g) (kfree f)) ps st1 = Ret st'" "pmm_inv base st'"
    "free_set st' = free_set st1 \<union> (\<Union>p \<in> set ps. points (pivl p))"
    "unat (get_free_memory st') = unat (get_free_memory st1) + (\<Sum>p \<leftarrow> ps. unat (psize p))"
    using Cons.IH [OF st1(2)] Cons.prems(3,4) by (auto simp: regions_disjoint_def)
  then show ?case using st1 by auto
qed simp

section \<open>Properties\<close>

text \<open>A concrete state of the boot phase: one block of 16 pages, kept in the first object of the pool.\<close>

definition example_kmem :: kmem where
  "example_kmem =
     \<lparr>ff_head = [\<lparr>bnode = 0x80050020, bpaddr = 0x100000, bsize = 0x10000, bflags = 0\<rparr>],
      ff_free_space = 0x10000, pallocator = PFirstFit,
      boot_head = [\<lparr>haddr = 0x80050040, hsize = 960, hfree = True, hflags = 0\<rparr>],
      simple_head = [],
      alloc_hdrs = Map.empty(0x80050000 \<mapsto> \<lparr>haddr = 0x80050000, hsize = 64, hfree = False, hflags = 0\<rparr>),
      sallocator = SBootstrap\<rparr>"

lemma example_kmem_inv: "pmm_inv 0x80050000 example_kmem"
proof -
  have "boot_inv 0x80050000 example_kmem"
    by (auto simp: boot_inv_def heap_wf_def hivls_def hivl_def ordered_Cons hdr_ivl_def example_kmem_def split: if_splits)
  then show ?thesis
    by (auto simp: pmm_inv_def ff_wf_def ff_ivls_def bivl_def coalesced_Cons page_ivl_def boot_live_def
        HEADER_eq_iff PAYLOAD_def sizeof_blockhdr_def example_kmem_def)
qed

text \<open>
  C1: a request for pages, in every state of the boot phase, in which the bootstrap allocator
  serves the page allocator. A request for a whole number of pages that is not larger than the
  free memory gets the start of the first block that is large enough: the range was free,
  exactly that range leaves the free set, the free memory shrinks by its size and the invariant
  of both allocators is kept; if no block is large enough the call returns \<open>EOF\<close> and changes
  nothing. Any other request returns 0 and changes nothing, the request included.
\<close>

theorem alloc_pages_first_fit:
  assumes "pmm_inv base st"
  shows "if IS_ALIGNED (psize pages) PAGE_SIZE \<and> psize pages \<le> get_free_memory st
    then case first_fit (psize pages) (ff_head st) of
        None \<Rightarrow> alloc_pages (kfree putpages) (Some pages) st = Ret (EOF, Some pages, st)
      | Some b \<Rightarrow> \<exists>st'. alloc_pages (kfree putpages) (Some pages) st = Ret (0, Some (pages\<lparr>paddr := bpaddr b\<rparr>), st')
          \<and> pmm_inv base st' \<and> points (pivl (pages\<lparr>paddr := bpaddr b\<rparr>)) \<subseteq> free_set st
          \<and> free_set st' = free_set st - points (pivl (pages\<lparr>paddr := bpaddr b\<rparr>))
          \<and> unat (get_free_memory st') = unat (get_free_memory st) - unat (psize pages)
    else alloc_pages (kfree putpages) (Some pages) st = Ret (0, Some pages, st)"
proof (cases "IS_ALIGNED (psize pages) PAGE_SIZE \<and> psize pages \<le> get_free_memory st")
  case True
  then show ?thesis using pmm_alloc [OF assms] by simp
next
  case False
  moreover have "pallocator st = PFirstFit" using assms by (simp add: pmm_inv_def)
  ultimately have "alloc_pages (kfree putpages) (Some pages) st = Ret (0, Some pages, st)"
    by (auto simp: alloc_pages_def ff_alloc_def get_free_memory_def ff_get_free_def)
  then show ?thesis by (simp only: if_not_P [OF False])
qed

lemmas example_kmem_simps =
  example_kmem_def get_free_memory_def ff_get_free_def pivl_def free_set_def ff_ivls_def bivl_def

theorem alloc_pages_first_fit_witness:
  "(\<exists>st'. alloc_pages (kfree (\<lambda>_ _. Hang)) (Some \<lparr>paddr = 0, psize = 0x4000, pflags = 0\<rparr>) example_kmem
      = Ret (0, Some \<lparr>paddr = 0x100000, psize = 0x4000, pflags = 0\<rparr>, st')
    \<and> pmm_inv 0x80050000 st' \<and> unat (get_free_memory st') = 0xC000) \<and>
   alloc_pages (kfree (\<lambda>_ _. Hang)) (Some \<lparr>paddr = 5, psize = 0x4001, pflags = 0\<rparr>) example_kmem
      = Ret (0, Some \<lparr>paddr = 5, psize = 0x4001, pflags = 0\<rparr>, example_kmem)"
  using alloc_pages_first_fit [OF example_kmem_inv, of "\<lparr>paddr = 0, psize = 0x4000, pflags = 0\<rparr>" "\<lambda>_ _. Hang"]
    alloc_pages_first_fit [OF example_kmem_inv, of "\<lparr>paddr = 5, psize = 0x4001, pflags = 0\<rparr>" "\<lambda>_ _. Hang"]
  by (auto simp: example_kmem_simps)

text \<open>
  C2: in the boot phase, freeing a page-aligned non-empty range that is not free adds exactly that range to the
  free set, merges it with its neighbours so that the list stays coalesced, adds its size to
  the free memory and keeps the invariant, as long as the list has fewer than 16 blocks.
\<close>

theorem free_pages_adds_range:
  assumes "pmm_inv base st" and "length (ff_head st) < 16"
    and "IS_ALIGNED (paddr pages) PAGE_SIZE" "IS_ALIGNED (psize pages) PAGE_SIZE"
    and "0 < psize pages" and "iend (pivl pages) < 2 ^ 64"
    and "points (pivl pages) \<inter> free_set st = {}"
  shows "\<exists>st'. free_pages (kmalloc getpages) (kfree putpages) pages st = Ret st' \<and> pmm_inv base st'
    \<and> free_set st' = free_set st \<union> points (pivl pages)
    \<and> unat (get_free_memory st') = unat (get_free_memory st) + unat (psize pages)
    \<and> length (ff_head st') \<le> Suc (length (ff_head st))"
  using assms by (rule pmm_free)

theorem free_pages_adds_range_witness:
  "\<exists>st'. free_pages (kmalloc (\<lambda>_ _. Hang)) (kfree (\<lambda>_ _. Hang)) \<lparr>paddr = 0x110000, psize = 0x2000, pflags = 0\<rparr> example_kmem
      = Ret st' \<and> pmm_inv 0x80050000 st' \<and> free_set st' = {0x100000 ..< 0x112000}
      \<and> unat (get_free_memory st') = 0x12000"
proof -
  let ?p = "\<lparr>paddr = 0x110000, psize = 0x2000, pflags = 0\<rparr>"
  have "points (pivl ?p) \<inter> free_set example_kmem = {}" by (auto simp: example_kmem_simps)
  from free_pages_adds_range [OF example_kmem_inv _ _ _ _ _ this, of "\<lambda>_ _. Hang" "\<lambda>_ _. Hang"]
  obtain st' where "free_pages (kmalloc (\<lambda>_ _. Hang)) (kfree (\<lambda>_ _. Hang)) ?p example_kmem = Ret st'"
    "pmm_inv 0x80050000 st'" "free_set st' = free_set example_kmem \<union> points (pivl ?p)"
    "unat (get_free_memory st') = unat (get_free_memory example_kmem) + unat (psize ?p)"
    by (auto simp: example_kmem_simps)
  moreover have "free_set example_kmem \<union> points (pivl ?p) = {0x100000 ..< 0x112000}"
    by (auto simp: example_kmem_simps)
  ultimately show ?thesis by (simp add: example_kmem_simps)
qed

text \<open>
  C3: in the boot phase, freeing the non-empty range that was just allocated, with fewer than
  16 blocks in the list, restores the ranges of the list of free blocks and the free memory exactly.
\<close>

theorem alloc_free_round_trip:
  assumes "pmm_inv base st" and "IS_ALIGNED (psize pages) PAGE_SIZE" and "0 < psize pages"
    and "psize pages \<le> get_free_memory st" and "length (ff_head st1) < 16"
    and "alloc_pages (kfree putpages) (Some pages) st = Ret (0, Some pages', st1)"
  shows "\<exists>st2. free_pages (kmalloc getpages) (kfree putpages) pages' st1 = Ret st2 \<and> pmm_inv base st2
    \<and> ff_ivls st2 = ff_ivls st \<and> get_free_memory st2 = get_free_memory st"
  using assms by (rule pmm_alloc_free)

definition example_kmem_cut :: kmem where
  "example_kmem_cut = example_kmem
     \<lparr>ff_head := [\<lparr>bnode = 0x80050020, bpaddr = 0x104000, bsize = 0xC000, bflags = 0\<rparr>], ff_free_space := 0xC000\<rparr>"

theorem alloc_free_round_trip_witness:
  "\<exists>st2. free_pages (kmalloc (\<lambda>_ _. Hang)) (kfree (\<lambda>_ _. Hang))
      \<lparr>paddr = 0x100000, psize = 0x4000, pflags = 0\<rparr> example_kmem_cut = Ret st2
    \<and> pmm_inv 0x80050000 st2 \<and> ff_ivls st2 = [(0x100000, 0x10000)]"
proof -
  have "alloc_pages (kfree (\<lambda>_ _. Hang)) (Some \<lparr>paddr = 0, psize = 0x4000, pflags = 0\<rparr>) example_kmem
      = Ret (0, Some \<lparr>paddr = 0x100000, psize = 0x4000, pflags = 0\<rparr>, example_kmem_cut)"
    by (simp add: alloc_pages_def ff_alloc_def nl_update_def example_kmem_def example_kmem_cut_def)
  from alloc_free_round_trip [OF example_kmem_inv _ _ _ _ this, of "\<lambda>_ _. Hang"]
  show ?thesis by (auto simp: example_kmem_simps example_kmem_cut_def)
qed

text \<open>
  At boot, up to 16 disjoint page-aligned memory regions can be registered from the
  1 KB bootstrap pool: registration returns, the free set is exactly the union of the
  regions, the free memory is the sum of their sizes and both allocators are well-formed.
\<close>

theorem boot_registers_memory:
  assumes "16 dvd unat pool" and "unat pool + 8192 \<le> 2 ^ 32" and "length memory \<le> 16"
    and "\<forall>p \<in> set memory. region_ok p" and "regions_disjoint memory"
  shows "\<exists>st. boot_register (Suc (Suc n)) pool junk memory kmem_reset = Ret st \<and> pmm_inv (unat pool) st
    \<and> free_set st = (\<Union>p \<in> set memory. points (pivl p))
    \<and> unat (get_free_memory st) = (\<Sum>p \<leftarrow> memory. unat (psize p))"
proof -
  define st0 where "st0 = snd (page_allocator_init (snd (simple_allocator_bootstrap pool BOOTSTRAP_POOL_SIZE junk kmem_reset)))"
  note b = bootstrapped [OF assms(1,2) st0_def]
  have "length (ff_head st0) + length memory \<le> 16" using assms(3) b(3) by simp
  from free_all_regions [OF b(1) this assms(4,5), of "p_alloc (linked n)" "p_free (linked n)"] b(2,4)
  show ?thesis by (simp add: boot_register_def Let_def linked_page_ops del: linked.simps flip: st0_def)
qed

theorem boot_registers_memory_witness:
  "\<exists>st. boot_register (Suc (Suc 0)) 0x80050000 7
      [\<lparr>paddr = 0x100000, psize = 0x10000, pflags = 0\<rparr>, \<lparr>paddr = 0x200000, psize = 0x4000, pflags = 0\<rparr>] kmem_reset = Ret st
    \<and> pmm_inv 0x80050000 st \<and> unat (get_free_memory st) = 0x14000"
proof -
  let ?m = "[\<lparr>paddr = 0x100000, psize = 0x10000, pflags = 0\<rparr>, \<lparr>paddr = 0x200000, psize = 0x4000, pflags = 0\<rparr>]"
  have "\<forall>p \<in> set ?m. region_ok p" "regions_disjoint ?m"
    by (auto simp: region_ok_def regions_disjoint_def pivl_def)
  from boot_registers_memory [of "0x80050000" ?m 0 7, OF _ _ _ this]
  show ?thesis by auto
qed

text \<open>
  C7: a request that is not a whole number of pages, or for more memory than is free, is
  reported as a success: the page allocator returns 0 and leaves the request as it was.
  The single-page allocation of the page tables then returns the stack garbage it had in
  the address field when memory has run out.
\<close>

theorem alloc_pages_failure_as_success:
  assumes "pallocator st = PFirstFit"
    and "\<not> IS_ALIGNED (psize pages) PAGE_SIZE \<or> ff_free_space st < psize pages"
  shows "alloc_pages release (Some pages) st = Ret (0, Some pages, st)
    \<and> (ff_free_space st < PAGE_SIZE \<longrightarrow> pgalloc (by_ref (alloc_pages release)) junk st = Ret (junk, st))"
  using assms by (auto simp: alloc_pages_def ff_alloc_def pgalloc_def by_ref_def)

theorem alloc_pages_failure_as_success_witness:
  "alloc_pages (\<lambda>_ _. Hang) (Some \<lparr>paddr = 0, psize = 0x20000, pflags = 0\<rparr>) example_kmem
    = Ret (0, Some \<lparr>paddr = 0, psize = 0x20000, pflags = 0\<rparr>, example_kmem)"
  using alloc_pages_failure_as_success [of example_kmem "\<lparr>paddr = 0, psize = 0x20000, pflags = 0\<rparr>" "\<lambda>_ _. Hang"]
  by (simp add: example_kmem_def)

text \<open>
  The whole memory part of \<open>master_init\<close>, evaluated: with two regions the page allocator
  ends up in the new object allocator, which took one page, and the bootstrap pool is empty
  again. With a first region of a single page the move uses a block it has lost: taking
  that page for the first new object empties the block the loop stands on.
\<close>

definition example_memory :: "pages list" where
  "example_memory = [\<lparr>paddr = 0x100000, psize = 0x10000, pflags = 0\<rparr>, \<lparr>paddr = 0x200000, psize = 0x4000, pflags = 0\<rparr>]"

lemma master_init_mm_run:
  "case master_init_mm 10 0x80050000 7 example_memory kmem_reset of
     Ret st \<Rightarrow> map (\<lambda>b. (bpaddr b, bsize b)) (ff_head st) = [(0x101000, 0xF000), (0x200000, 0x4000)]
       \<and> get_free_memory st = 0x13000 \<and> map (\<lambda>x. (haddr x, hsize x)) (boot_head st) = [(0x80050000, 1024)]
       \<and> pallocator st = PFirstFit \<and> sallocator st = SProper \<and> distinct (map bnode (ff_head st))
   | _ \<Rightarrow> False"
  by code_simp

lemma master_init_mm_single_page:
  "case master_init_mm 10 0x80050000 7 [\<lparr>paddr = 0x100000, psize = 0x1000, pflags = 0\<rparr>] kmem_reset of
     Fault \<Rightarrow> True | _ \<Rightarrow> False"
  by code_simp

end
