(* ===== verification/PgTable.thy ===== *)
theory PgTable
  imports Kmem
begin

text \<open>
  The part of the page table code that the architectures have in common. Memory is a map
  from the kernel virtual address of a word to the word; only words of page tables are ever
  accessed. The loops of \<open>map_pages\<close> and \<open>unmap_pages\<close>, textually the same in
  \<open>kern/arch/i386/pgtable.c\<close> and \<open>kern/arch/mips/pgtable.c\<close>, take the architecture's
  \<open>__getpagedesc\<close> and its descriptor as arguments. Their correctness is proved once, in a
  locale whose laws say what \<open>__getpagedesc\<close> does to the leaf tables.
\<close>

section \<open>Memory\<close>

type_synonym 'w mem = "'w word \<Rightarrow> 'w word"

type_synonym 'w ptstate = "'w mem \<times> kmem"

definition cell :: "'w :: len word \<Rightarrow> 'w word \<Rightarrow> 'w word" where
  "cell base i = base + of_nat (LENGTH('w) div 8) * i"

definition zero_page :: "'w :: len word \<Rightarrow> 'w mem \<Rightarrow> 'w mem" where
  "zero_page p mem = (\<lambda>a. if unat (a - p) < 4096 then 0 else mem a)"

definition VMA_EXEC :: u32 where "VMA_EXEC = 0x01"
definition VMA_WRITE :: u32 where "VMA_WRITE = 0x02"
definition VMA_READ :: u32 where "VMA_READ = 0x04"

definition PTE_LOWMASK :: "'w :: len word" where "PTE_LOWMASK = 0xfff"

definition PTE_PADDR :: "'w :: len word \<Rightarrow> 'w word" where
  "PTE_PADDR pte = pte AND NOT PTE_LOWMASK"

definition PTE_FLAGS :: "'w :: len word \<Rightarrow> 'w word" where
  "PTE_FLAGS pte = pte AND PTE_LOWMASK"

section \<open>The loops\<close>

type_synonym ('w, 'd) getdesc = "'w word \<Rightarrow> bool \<Rightarrow> 'd \<Rightarrow> 'w ptstate \<Rightarrow> (int \<times> 'd \<times> 'w ptstate) outcome"

text \<open>The first pass: allocate leaf tables and look for conflicts; returns where it stopped.\<close>

fun map_check :: "('w :: len, 'd) getdesc \<Rightarrow> ('d \<Rightarrow> 'w word) \<Rightarrow> ('w word \<Rightarrow> bool) \<Rightarrow> nat \<Rightarrow> addr_t \<Rightarrow> addr_t \<Rightarrow>
    'w word \<Rightarrow> 'd \<Rightarrow> 'w ptstate \<Rightarrow> (int \<times> 'w word \<times> 'd \<times> 'w ptstate) outcome" where
  "map_check getpagedesc entry present 0 pcur pend vcur pd s = Hang"
| "map_check getpagedesc entry present (Suc n) pcur pend vcur pd s =
     (if pcur < pend then
        obind (getpagedesc vcur True pd s) (\<lambda>(retcode, pd, s).
          if retcode = - ENOMEM then Ret (retcode, vcur, pd, s)
          else if present (fst s (entry pd)) then Ret (- EEXIST, vcur, pd, s)
          else map_check getpagedesc entry present n (pcur + PAGE_SIZE) pend (vcur + PAGE_SIZE) pd s)
      else Ret (0, vcur, pd, s))"

text \<open>The second pass: fill the entries. The result of \<open>__getpagedesc\<close> is not looked at.\<close>

fun map_fill :: "('w :: len, 'd) getdesc \<Rightarrow> ('d \<Rightarrow> 'w word) \<Rightarrow> addr_t \<Rightarrow> nat \<Rightarrow> addr_t \<Rightarrow> addr_t \<Rightarrow>
    'w word \<Rightarrow> 'd \<Rightarrow> 'w ptstate \<Rightarrow> 'w ptstate outcome" where
  "map_fill getpagedesc entry perm 0 pcur pend vcur pd s = Hang"
| "map_fill getpagedesc entry perm (Suc n) pcur pend vcur pd s =
     (if pcur < pend then
        obind (getpagedesc vcur False pd s) (\<lambda>(_, pd, mem, st).
          map_fill getpagedesc entry perm n (pcur + PAGE_SIZE) pend (vcur + PAGE_SIZE) pd
            (mem(entry pd := ucast (pcur OR perm)), st))
      else Ret s)"

text \<open>
  With aligned arguments each loop makes \<open>size / PAGE_SIZE\<close> rounds, one more step is the
  final test.
\<close>

definition map_range :: "('w :: len, 'd) getdesc \<Rightarrow> ('d \<Rightarrow> 'w word) \<Rightarrow> ('w word \<Rightarrow> bool) \<Rightarrow> addr_t \<Rightarrow>
    ('w word \<Rightarrow> 'w word \<Rightarrow> 'w ptstate \<Rightarrow> 'w ptstate outcome) \<Rightarrow>
    'w word \<Rightarrow> addr_t \<Rightarrow> 'w word \<Rightarrow> 'd \<Rightarrow> 'w ptstate \<Rightarrow> (int \<times> 'w ptstate) outcome" where
  "map_range getpagedesc entry present perm rollback vaddr pa sz pd s =
     (if \<not> IS_ALIGNED pa PAGE_SIZE \<or> \<not> IS_ALIGNED sz PAGE_SIZE \<or> \<not> IS_ALIGNED vaddr PAGE_SIZE
      then Ret (- EINVAL, s)
      else
        let pend = pa + ucast sz; rounds = Suc (unat sz div 4096)
        in obind (map_check getpagedesc entry present rounds pa pend vaddr pd s) (\<lambda>(retcode, vcur, pd, s).
             if retcode \<noteq> 0 then obind (rollback vaddr (vcur - vaddr) s) (\<lambda>s. Ret (retcode, s))
             else obind (map_fill getpagedesc entry perm rounds pa pend vaddr pd s) (\<lambda>s. Ret (0, s))))"

text \<open>
  \<open>unmap_pages\<close>: the physical address of the first page is stored, every further entry is
  compared with the address expected next.
\<close>

fun unmap_loop :: "('w :: len, 'd) getdesc \<Rightarrow> ('d \<Rightarrow> 'w word) \<Rightarrow> nat \<Rightarrow> 'w word \<Rightarrow> 'w word \<Rightarrow> int \<Rightarrow> addr_t \<Rightarrow>
    'd \<Rightarrow> addr_t option \<Rightarrow> 'w ptstate \<Rightarrow> (int \<times> addr_t option \<times> 'w ptstate) outcome" where
  "unmap_loop getpagedesc entry 0 vcur vend unmapped pcur pd out s = Hang"
| "unmap_loop getpagedesc entry (Suc n) vcur vend unmapped pcur pd out s =
     (if vcur < vend then
        obind (getpagedesc vcur False pd s) (\<lambda>(ret, pd, mem, st).
          if ret < 0 then Panic
          else if unmapped = 0 then
            let pcur = ucast (PTE_PADDR (mem (entry pd)))
            in unmap_loop getpagedesc entry n (vcur + PAGE_SIZE) vend (unmapped + 4096) (pcur + PAGE_SIZE) pd
                 (Some pcur) (mem(entry pd := 0), st)
          else if ucast (mem (entry pd)) \<noteq> pcur then Ret (unmapped, out, (mem, st))
          else unmap_loop getpagedesc entry n (vcur + PAGE_SIZE) vend (unmapped + 4096) (pcur + PAGE_SIZE) pd
                 out (mem(entry pd := 0), st))
      else Ret (unmapped, out, s))"

definition unmap_range :: "('w :: len, 'd) getdesc \<Rightarrow> ('d \<Rightarrow> 'w word) \<Rightarrow>
    ('w word \<Rightarrow> 'w word \<Rightarrow> 'w ptstate \<Rightarrow> 'w ptstate outcome) \<Rightarrow>
    'w word \<Rightarrow> 'w word \<Rightarrow> 'd \<Rightarrow> 'w ptstate \<Rightarrow> (int \<times> addr_t option \<times> 'w ptstate) outcome" where
  "unmap_range getpagedesc entry release vaddr sz pd s =
     obind (unmap_loop getpagedesc entry (unat sz div 4096 + 2) vaddr (vaddr + sz) 0 0 pd None s)
       (\<lambda>(unmapped, out, s). obind (release vaddr (of_int unmapped) s) (\<lambda>s. Ret (unmapped, out, s)))"

section \<open>Page numbers\<close>

definition page :: "'w :: len word \<Rightarrow> 'w word" where
  "page v = drop_bit 12 v"

definition nth_page :: "'w :: len word \<Rightarrow> nat \<Rightarrow> 'w word" where
  "nth_page v i = v + of_nat (i * 4096)"

lemma PAGE_SIZE_any: "PAGE_SIZE = (4096 :: 'w :: len word)"
  by (simp add: PAGE_SIZE_def PAGE_SHIFT_def)

lemma nth_page_0 [simp]: "nth_page v 0 = v"
  by (simp add: nth_page_def)

lemma nth_page_Suc: "nth_page (v + 4096) i = nth_page v (Suc i)"
  by (simp add: nth_page_def algebra_simps)

lemma unat_of_nat_small: "k < 2 ^ LENGTH('w) \<Longrightarrow> unat (of_nat k :: 'w :: len word) = k"
  by (simp add: unat_of_nat)

lemma unat_nth_page:
  assumes "unat (v :: 'w :: len word) + n * 4096 \<le> 2 ^ LENGTH('w)" and "i < n"
  shows "unat (nth_page v i) = unat v + i * 4096"
proof -
  have l: "unat v + i * 4096 < 2 ^ LENGTH('w)" using assms by linarith
  then have "unat (of_nat (i * 4096) :: 'w word) = i * 4096" by (intro unat_of_nat_small) linarith
  then show ?thesis unfolding nth_page_def using l by (subst unat_add_no_overflow) simp_all
qed

lemma unat_page: "unat (page v) = unat v div 4096"
proof -
  have "unat (drop_bit 12 v) = drop_bit 12 (unat v)" by (rule unat_drop_bit_eq)
  then show ?thesis unfolding page_def by (simp only: drop_bit_eq_div) simp
qed

lemma page_eq_iff: "page v = page w \<longleftrightarrow> unat v div 4096 = unat w div 4096"
  by (simp add: word_unat_eq_iff unat_page)

lemma nth_page_inj:
  assumes "unat (v :: 'w :: len word) + n * 4096 \<le> 2 ^ LENGTH('w)" and "i < n" and "j < n"
    and "page (nth_page v i) = page (nth_page v j)"
  shows "i = j"
  using assms by (simp add: page_eq_iff unat_nth_page)


lemma next_page_neq:
  assumes "13 \<le> LENGTH('w)"
  shows "page (v + 4096) \<noteq> page (v :: 'w :: len word)"
proof
  assume "page (v + 4096) = page v"
  then have e: "unat (v + 4096) div 4096 = unat v div 4096" by (simp add: page_eq_iff)
  have "(2 :: nat) ^ 13 \<le> 2 ^ LENGTH('w)" using assms by (intro power_increasing) simp_all
  then have p: "8192 \<le> (2 :: nat) ^ LENGTH('w)" by simp
  then have "unat (of_nat 4096 :: 'w word) = 4096" by (intro unat_of_nat_small) simp
  then have u4: "unat (4096 :: 'w word) = 4096" by simp
  show False
  proof (cases "unat v + 4096 < 2 ^ LENGTH('w)")
    case True
    then show False using e u4 by (simp add: unat_add_no_overflow)
  next
    case False
    then have big: "2 ^ LENGTH('w) \<le> unat v + 4096" by simp
    have "unat (v + 4096) = (unat v + 4096) mod 2 ^ LENGTH('w)" by (simp only: unat_word_ariths u4)
    also have "\<dots> = unat v + 4096 - 2 ^ LENGTH('w)"
    proof -
      have "unat v + 4096 - 2 ^ LENGTH('w) < 2 ^ LENGTH('w)" using unat_bound [of v] p by linarith
      then show ?thesis using big by (simp add: le_mod_geq)
    qed
    finally have "unat (v + 4096) < 4096" using unat_bound [of v] by linarith
    then have "unat v div 4096 = 0" using e by simp
    then have "unat v < 4096" by (simp add: div_eq_0_iff)
    then show False using big p by linarith
  qed
qed

section \<open>Cells of a page\<close>

text \<open>A page-aligned table with its entries, on a machine with at least 12 address bits.\<close>

definition in_table :: "'w :: len word \<Rightarrow> 'w word \<Rightarrow> bool" where
  "in_table t i \<longleftrightarrow> 4096 dvd unat t \<and> (LENGTH('w) div 8) * unat i < 4096"

lemma aligned_4096: "IS_ALIGNED (x :: u32) 4096 \<longleftrightarrow> 4096 dvd unat x"
  using is_aligned_iff_dvd [of x 12] by simp

lemma aligned_bound:
  assumes "4096 dvd unat (t :: 'w :: len word)" and "12 \<le> LENGTH('w)"
  shows "unat t + 4096 \<le> 2 ^ LENGTH('w)"
proof -
  have "(2 :: nat) ^ 12 dvd 2 ^ LENGTH('w)" using assms(2) by (rule le_imp_power_dvd)
  then obtain b :: nat where b: "2 ^ LENGTH('w) = 4096 * b" by (auto simp: dvd_def)
  obtain a where a: "unat t = 4096 * a" using assms(1) by blast
  have "a < b" using unat_bound [of t] a b by simp
  then show ?thesis using a b by simp
qed

lemma unat_cell:
  assumes "in_table (t :: 'w :: len word) i" and "12 \<le> LENGTH('w)"
  shows "unat (cell t i) = unat t + (LENGTH('w) div 8) * unat i"
proof -
  let ?b = "LENGTH('w) div 8"
  have t: "4096 dvd unat t" and i: "?b * unat i < 4096" using assms(1) by (simp_all add: in_table_def)
  have "unat t + 4096 \<le> 2 ^ LENGTH('w)" using t assms(2) by (rule aligned_bound)
  then have l: "unat t + ?b * unat i < 2 ^ LENGTH('w)" using i by linarith
  have "of_nat ?b * i = of_nat (?b * unat i)" by simp
  then have "unat (of_nat ?b * i) = ?b * unat i"
    using l by (metis unat_of_nat_small add_lessD1 add.commute)
  then show ?thesis unfolding cell_def using l by (subst unat_add_no_overflow) simp_all
qed

lemma page_cell: "in_table (t :: 'w :: len word) i \<Longrightarrow> 12 \<le> LENGTH('w) \<Longrightarrow> page (cell t i) = page t"
  by (auto simp: page_eq_iff unat_cell in_table_def)

lemma aligned_page_inj: "4096 dvd unat t \<Longrightarrow> 4096 dvd unat u \<Longrightarrow> page t = page u \<longleftrightarrow> t = u"
  by (auto simp: page_eq_iff) (metis dvd_div_mult_self word_unat_eq_iff)

lemma cell_inj:
  assumes "in_table (t :: 'w :: len word) i" and "in_table u j" and "12 \<le> LENGTH('w)" and "cell t i = cell u j"
  shows "t = u \<and> i = j"
proof -
  have "page t = page u" using page_cell [OF assms(1,3)] page_cell [OF assms(2,3)] assms(4) by simp
  then have "t = u" using assms(1,2) aligned_page_inj unfolding in_table_def by blast
  moreover have "unat t + (LENGTH('w) div 8) * unat i = unat u + (LENGTH('w) div 8) * unat j"
    using unat_cell [OF assms(1,3)] unat_cell [OF assms(2,3)] assms(4) by simp
  moreover have "0 < LENGTH('w) div 8" using assms(3) by simp
  ultimately show ?thesis by (simp add: word_unat_eq_iff)
qed

lemma zero_page_iff:
  assumes "4096 dvd unat (p :: 'w :: len word)" and "12 \<le> LENGTH('w)"
  shows "unat (a - p) < 4096 \<longleftrightarrow> page a = page p"
proof -
  obtain k where k: "unat p = 4096 * k" using assms(1) by blast
  show ?thesis
  proof (cases "p \<le> a")
    case True
    then have u: "unat (a - p) = unat a - unat p" "unat p \<le> unat a" by (simp_all add: unat_sub_le word_le_nat_alt)
    have "unat a - 4096 * k < 4096 \<longleftrightarrow> unat a div 4096 = k" using u(2) k by auto
    then show ?thesis using u k by (simp add: page_eq_iff)
  next
    case False
    then have "unat (a - p) = 2 ^ LENGTH('w) + unat a - unat p" by (intro unat_sub_wrap) simp
    moreover have "unat p + 4096 \<le> 2 ^ LENGTH('w)" using assms by (rule aligned_bound)
    ultimately have "4096 \<le> unat (a - p)" by linarith
    moreover have "unat a < 4096 * k" using False k by (simp add: word_le_nat_alt)
    then have "unat a div 4096 < k" by (simp add: div_less_iff_less_mult mult.commute)
    ultimately show ?thesis using k by (simp add: page_eq_iff)
  qed
qed

lemma zero_page_apply:
  "4096 dvd unat (p :: 'w :: len word) \<Longrightarrow> 12 \<le> LENGTH('w) \<Longrightarrow> zero_page p mem a = (if page a = page p then 0 else mem a)"
  by (simp add: zero_page_def zero_page_iff)

section \<open>What the loops rely on\<close>

text \<open>
  \<open>slot mem v\<close> is the address of the leaf entry for \<open>v\<close>, if the tables above it exist.
  \<open>wf\<close> keeps the tables apart from each other and from the pages the allocator has left,
  \<open>room\<close> counts these pages and \<open>cost\<close> bounds how many one call takes.
\<close>

locale leaf_tables =
  fixes getpagedesc :: "('w :: len, 'd) getdesc" and entry :: "'d \<Rightarrow> 'w word"
    and wf :: "'w ptstate \<Rightarrow> bool" and room :: "kmem \<Rightarrow> nat" and cost :: nat
    and valid :: "'w word \<Rightarrow> bool" and slot :: "'w mem \<Rightarrow> 'w word \<Rightarrow> 'w word option"
  assumes create: "\<lbrakk>wf (mem, st); valid v; cost \<le> room st\<rbrakk> \<Longrightarrow>
      \<exists>pd' mem' st'. getpagedesc v True pd (mem, st) = Ret (0, pd', mem', st') \<and> wf (mem', st') \<and>
        slot mem' v = Some (entry pd') \<and> room st \<le> room st' + cost \<and>
        (\<forall>w a. valid w \<longrightarrow> slot mem w = Some a \<longrightarrow> slot mem' w = Some a \<and> mem' a = mem a) \<and>
        (\<forall>w a. valid w \<longrightarrow> slot mem w = None \<longrightarrow> slot mem' w = Some a \<longrightarrow> mem' a = 0)"
    and find_entry: "\<lbrakk>wf (mem, st); valid v; slot mem v = Some a\<rbrakk> \<Longrightarrow>
      \<exists>pd'. getpagedesc v False pd (mem, st) = Ret (0, pd', mem, st) \<and> entry pd' = a"
    and store: "\<lbrakk>wf (mem, st); valid v; slot mem v = Some a\<rbrakk> \<Longrightarrow>
      wf (mem(a := x), st) \<and> (\<forall>w. valid w \<longrightarrow> slot (mem(a := x)) w = slot mem w)"
    and separate: "\<lbrakk>wf (mem, st); valid v; valid w; slot mem v = Some a; slot mem w = Some a\<rbrakk> \<Longrightarrow> page v = page w"
    and same_page: "\<lbrakk>valid v; valid w; page v = page w\<rbrakk> \<Longrightarrow> slot mem v = slot mem w"
begin

definition entry_at :: "'w mem \<Rightarrow> 'w word \<Rightarrow> 'w word" where
  "entry_at mem v = (case slot mem v of None \<Rightarrow> 0 | Some a \<Rightarrow> mem a)"

lemma entry_at_create:
  assumes "wf (mem, st)" and "valid v" and "cost \<le> room st"
  obtains pd' mem' st' where "getpagedesc v True pd (mem, st) = Ret (0, pd', mem', st')" and "wf (mem', st')"
    and "slot mem' v = Some (entry pd')" and "room st \<le> room st' + cost"
    and "\<forall>w. valid w \<longrightarrow> entry_at mem' w = entry_at mem w"
    and "\<forall>w. valid w \<longrightarrow> slot mem w \<noteq> None \<longrightarrow> slot mem' w \<noteq> None"
proof -
  obtain pd' mem' st' where c: "getpagedesc v True pd (mem, st) = Ret (0, pd', mem', st')" "wf (mem', st')"
    "slot mem' v = Some (entry pd')" "room st \<le> room st' + cost"
    and old: "\<forall>w a. valid w \<longrightarrow> slot mem w = Some a \<longrightarrow> slot mem' w = Some a \<and> mem' a = mem a"
    and new: "\<forall>w a. valid w \<longrightarrow> slot mem w = None \<longrightarrow> slot mem' w = Some a \<longrightarrow> mem' a = 0"
    using create [OF assms, of pd] by blast
  have "entry_at mem' w = entry_at mem w" if "valid w" for w
    using old new that by (cases "slot mem w"; cases "slot mem' w") (auto simp: entry_at_def)
  with c old that show thesis by blast
qed

lemma entry_at_store:
  assumes "wf (mem, st)" and "valid v" and "slot mem v = Some a" and "valid w"
  shows "entry_at (mem(a := x)) w = (if page w = page v then x else entry_at mem w)"
proof -
  have s: "slot (mem(a := x)) w = slot mem w" using store [OF assms(1-3), of x] assms(4) by blast
  show ?thesis
  proof (cases "page w = page v")
    case True
    then show ?thesis using same_page [OF assms(4,2)] assms(3) s by (simp add: entry_at_def)
  next
    case False
    then have "slot mem w \<noteq> Some a" using separate [OF assms(1,2,4,3)] by auto
    then show ?thesis using False s by (auto simp: entry_at_def split: option.split)
  qed
qed

lemma map_check_free:
  assumes "wf s" and "\<forall>i < n. valid (nth_page v i) \<and> \<not> present (entry_at (fst s) (nth_page v i))"
    and "n * cost \<le> room (snd s)" and "unat pcur + n * 4096 < 2 ^ 64" and "pend = pcur + of_nat (n * 4096)" and "n < fuel"
  shows "\<exists>pd' s'. map_check getpagedesc entry present fuel pcur pend v pd s = Ret (0, nth_page v n, pd', s') \<and> wf s' \<and>
    (\<forall>w. valid w \<longrightarrow> entry_at (fst s') w = entry_at (fst s) w) \<and>
    (\<forall>w. valid w \<longrightarrow> slot (fst s) w \<noteq> None \<longrightarrow> slot (fst s') w \<noteq> None) \<and>
    (\<forall>i < n. slot (fst s') (nth_page v i) \<noteq> None)"
  using assms
proof (induction n arbitrary: fuel pcur v pd s)
  case 0
  then show ?case by (cases fuel) auto
next
  case (Suc n)
  obtain mem st where s: "s = (mem, st)" by (cases s)
  obtain f where f: "fuel = Suc f" using Suc.prems(6) by (cases fuel) auto
  have v: "valid v" "\<not> present (entry_at mem v)" using Suc.prems(2) s by (auto dest: spec [of _ 0])
  have "cost \<le> room st" "wf (mem, st)" using Suc.prems(1,3) s by simp_all
  then obtain pd' mem' st' where c: "getpagedesc v True pd (mem, st) = Ret (0, pd', mem', st')" "wf (mem', st')"
    "slot mem' v = Some (entry pd')" "room st \<le> room st' + cost"
    and e: "\<forall>w. valid w \<longrightarrow> entry_at mem' w = entry_at mem w"
    and m: "\<forall>w. valid w \<longrightarrow> slot mem w \<noteq> None \<longrightarrow> slot mem' w \<noteq> None"
    using entry_at_create [OF _ v(1), of mem st pd] by blast
  have "unat (of_nat (Suc n * 4096) :: u64) = Suc n * 4096"
    using Suc.prems(4) by (intro unat_of_nat_small) simp
  then have lt: "pcur < pend"
    using Suc.prems(4,5) by (simp add: word_less_nat_alt unat_add_no_overflow)
  have np: "\<not> present (mem' (entry pd'))" using v(2) spec [OF e, of v] v(1) c(3) by (simp add: entry_at_def)
  have "unat (pcur + 4096) = unat pcur + 4096"
    using Suc.prems(4) by (subst unat_add_no_overflow) simp_all
  then have pc: "unat (pcur + 4096) + n * 4096 < 2 ^ 64" "pend = (pcur + 4096) + of_nat (n * 4096)"
    using Suc.prems(4,5) by (simp_all add: algebra_simps)
  have v2: "\<forall>i < n. valid (nth_page (v + 4096) i) \<and> \<not> present (entry_at (fst (mem', st')) (nth_page (v + 4096) i))"
    using Suc.prems(2) e s by (auto simp: nth_page_Suc)
  have r2: "n * cost \<le> room (snd (mem', st'))" using Suc.prems(3) c(4) s by simp
  have fu: "n < f" using Suc.prems(6) f by simp
  obtain pd'' s' where i: "map_check getpagedesc entry present f (pcur + 4096) pend (v + 4096) pd' (mem', st') = Ret (0, nth_page (v + 4096) n, pd'', s')"
    "wf s'" "\<forall>w. valid w \<longrightarrow> entry_at (fst s') w = entry_at mem' w"
    "\<forall>w. valid w \<longrightarrow> slot mem' w \<noteq> None \<longrightarrow> slot (fst s') w \<noteq> None"
    "\<forall>i < n. slot (fst s') (nth_page (v + 4096) i) \<noteq> None"
    using Suc.IH [OF c(2) v2 r2 pc fu, of pd'] by auto
  have "slot (fst s') (nth_page v j) \<noteq> None" if "j < Suc n" for j
    using that i(4,5) c(3) v(1) by (cases j) (auto simp: nth_page_Suc)
  moreover have "map_check getpagedesc entry present fuel pcur pend v pd s = Ret (0, nth_page v (Suc n), pd'', s')"
    using f lt c(1) np i(1) s by (simp add: nth_page_Suc ENOMEM_def PAGE_SIZE_any)
  ultimately show ?case using i(2-4) e m s by fastforce
qed


lemma map_fill_entries:
  assumes "wf s" and "\<forall>i < n. valid (nth_page v i) \<and> slot (fst s) (nth_page v i) \<noteq> None"
    and "unat v + n * 4096 \<le> 2 ^ LENGTH('w)"
    and "unat pcur + n * 4096 < 2 ^ 64" and "pend = pcur + of_nat (n * 4096)" and "n < fuel"
  shows "\<exists>s'. map_fill getpagedesc entry perm fuel pcur pend v pd s = Ret s' \<and> wf s' \<and> snd s' = snd s \<and>
    (\<forall>w. valid w \<longrightarrow> slot (fst s') w = slot (fst s) w) \<and>
    (\<forall>i < n. entry_at (fst s') (nth_page v i) = ucast ((pcur + of_nat (i * 4096)) OR perm)) \<and>
    (\<forall>w. valid w \<longrightarrow> (\<forall>i < n. page w \<noteq> page (nth_page v i)) \<longrightarrow> entry_at (fst s') w = entry_at (fst s) w)"
  using assms
proof (induction n arbitrary: fuel pcur v pd s)
  case 0
  then show ?case by (cases fuel) auto
next
  case (Suc n)
  obtain mem st where s: "s = (mem, st)" by (cases s)
  obtain f where f: "fuel = Suc f" using Suc.prems(6) by (cases fuel) auto
  have v: "valid v" "slot mem v \<noteq> None" using Suc.prems(2) s by (auto dest: spec [of _ 0])
  then obtain a where a: "slot mem v = Some a" by auto
  have wf: "wf (mem, st)" using Suc.prems(1) s by simp
  obtain pd' where pd': "getpagedesc v False pd (mem, st) = Ret (0, pd', mem, st)" "entry pd' = a"
    using find_entry [OF wf v(1) a] by blast
  let ?x = "ucast (pcur OR perm) :: 'w word"
  let ?mem = "mem(a := ?x)"
  have wf': "wf (?mem, st)" and sl: "\<forall>w. valid w \<longrightarrow> slot ?mem w = slot mem w"
    using store [OF wf v(1) a, of ?x] by blast+
  have "unat (of_nat (Suc n * 4096) :: u64) = Suc n * 4096"
    using Suc.prems(4) by (intro unat_of_nat_small) simp
  then have lt: "pcur < pend"
    using Suc.prems(4,5) by (simp add: word_less_nat_alt unat_add_no_overflow)
  have "unat (pcur + 4096) = unat pcur + 4096"
    using Suc.prems(4) by (subst unat_add_no_overflow) simp_all
  then have pc: "unat (pcur + 4096) + n * 4096 < 2 ^ 64" "pend = (pcur + 4096) + of_nat (n * 4096)"
    using Suc.prems(4,5) by (simp_all add: algebra_simps)
  have v2: "\<forall>i < n. valid (nth_page (v + 4096) i) \<and> slot (fst (?mem, st)) (nth_page (v + 4096) i) \<noteq> None"
    using Suc.prems(2) sl s by (auto simp: nth_page_Suc)
  have vb: "unat (v + 4096) + n * 4096 \<le> 2 ^ LENGTH('w)" if "n \<noteq> 0"
  proof -
    have "unat (nth_page v 1) = unat v + 1 * 4096" using that by (intro unat_nth_page [OF Suc.prems(3)]) simp
    then have "unat (v + 4096) = unat v + 4096" by (simp add: nth_page_def)
    then show ?thesis using Suc.prems(3) by simp
  qed
  have fu: "n < f" using Suc.prems(6) f by simp
  show ?case
  proof (cases "n = 0")
    case True
    obtain f' where f': "f = Suc f'" using Suc.prems(6) f by (cases f) auto
    have "\<not> pcur + 4096 < pend" using pc(2) True by simp
    then have "map_fill getpagedesc entry perm fuel pcur pend v pd s = Ret (?mem, st)"
      using f f' lt pd' s by (simp add: PAGE_SIZE_any)
    then show ?thesis
      using wf' sl entry_at_store [OF wf v(1) a] v(1) s True by auto
  next
    case False
    with vb have vb': "unat (v + 4096) + n * 4096 \<le> 2 ^ LENGTH('w)" by simp
    obtain s' where i: "map_fill getpagedesc entry perm f (pcur + 4096) pend (v + 4096) pd' (?mem, st) = Ret s'" "wf s'" "snd s' = st"
      "\<forall>w. valid w \<longrightarrow> slot (fst s') w = slot ?mem w"
      "\<forall>i < n. entry_at (fst s') (nth_page (v + 4096) i) = ucast ((pcur + 4096 + of_nat (i * 4096)) OR perm)"
      "\<forall>w. valid w \<longrightarrow> (\<forall>i < n. page w \<noteq> page (nth_page (v + 4096) i)) \<longrightarrow> entry_at (fst s') w = entry_at ?mem w"
      using Suc.IH [OF wf' v2 vb' pc fu, of pd'] unfolding fst_conv snd_conv by blast
    have ne: "page v \<noteq> page (nth_page v (Suc j))" if "j < n" for j
      using nth_page_inj [OF Suc.prems(3), of 0 "Suc j"] that by auto
    have first: "entry_at (fst s') v = ?x"
      using i(6) ne v(1) entry_at_store [OF wf v(1) a v(1)] by (simp add: nth_page_Suc)
    have "entry_at (fst s') (nth_page v j) = ucast ((pcur + of_nat (j * 4096)) OR perm)" if "j < Suc n" for j
      using that i(5) first by (cases j) (auto simp: nth_page_Suc algebra_simps)
    moreover have "entry_at (fst s') w = entry_at mem w" if w: "valid w" "\<forall>j < Suc n. page w \<noteq> page (nth_page v j)" for w
    proof -
      have "page w \<noteq> page v" using w(2) by (auto dest: spec [of _ 0])
      then show ?thesis
        using i(6) w entry_at_store [OF wf v(1) a w(1)] by (simp add: nth_page_Suc)
    qed
    moreover have "map_fill getpagedesc entry perm fuel pcur pend v pd s = Ret s'"
      using f lt pd' i(1) s by (simp add: PAGE_SIZE_any)
    ultimately show ?thesis using i(2-4) sl s by auto
  qed
qed

lemma map_range_maps:
  assumes "wf s" and "\<forall>i < n. valid (nth_page v i) \<and> \<not> present (entry_at (fst s) (nth_page v i))"
    and "n * cost \<le> room (snd s)" and "unat v + n * 4096 \<le> 2 ^ LENGTH('w)" and "unat pa + n * 4096 < 2 ^ 64"
    and "IS_ALIGNED pa PAGE_SIZE" and "IS_ALIGNED sz PAGE_SIZE" and "IS_ALIGNED v PAGE_SIZE" and sz: "unat sz = n * 4096"
  shows "\<exists>s'. map_range getpagedesc entry present perm rollback v pa sz pd s = Ret (0, s') \<and> wf s' \<and>
    (\<forall>i < n. entry_at (fst s') (nth_page v i) = ucast ((pa + of_nat (i * 4096)) OR perm)) \<and>
    (\<forall>w. valid w \<longrightarrow> (\<forall>i < n. page w \<noteq> page (nth_page v i)) \<longrightarrow> entry_at (fst s') w = entry_at (fst s) w)"
proof -
  have e: "(ucast sz :: u64) = of_nat (n * 4096)"
    using sz by (metis of_nat_unat)
  have f: "n < Suc (unat sz div 4096)" using sz by simp
  obtain pd' s1 where c: "map_check getpagedesc entry present (Suc (unat sz div 4096)) pa (pa + ucast sz) v pd s = Ret (0, nth_page v n, pd', s1)"
    "wf s1" "\<forall>w. valid w \<longrightarrow> entry_at (fst s1) w = entry_at (fst s) w" "\<forall>i < n. slot (fst s1) (nth_page v i) \<noteq> None"
    using map_check_free [OF assms(1-3,5) _ f, of "pa + ucast sz" pd] e by auto
  have v: "\<forall>i < n. valid (nth_page v i) \<and> slot (fst s1) (nth_page v i) \<noteq> None" using c(4) assms(2) by blast
  obtain s' where m: "map_fill getpagedesc entry perm (Suc (unat sz div 4096)) pa (pa + ucast sz) v pd' s1 = Ret s'" "wf s'"
    "\<forall>i < n. entry_at (fst s') (nth_page v i) = ucast ((pa + of_nat (i * 4096)) OR perm)"
    "\<forall>w. valid w \<longrightarrow> (\<forall>i < n. page w \<noteq> page (nth_page v i)) \<longrightarrow> entry_at (fst s') w = entry_at (fst s1) w"
    using map_fill_entries [OF c(2) v assms(4,5) _ f, of "pa + ucast sz" perm pd'] e by auto
  have "map_range getpagedesc entry present perm rollback v pa sz pd s = Ret (0, s')"
    using assms(6-8) c(1) m(1) by (simp add: map_range_def Let_def)
  then show ?thesis using m c(3) by metis
qed


text \<open>
  An unmapping loop ends after its first page when there is only one, or when the second
  entry is not exactly the expected address.
\<close>

lemma unmap_loop_first:
  assumes wf: "wf (mem, st)" and v: "valid v" "slot mem v = Some a" and "v < vend"
    and two: "v + 4096 < vend \<Longrightarrow> valid (v + 4096) \<and> page (v + 4096) \<noteq> page v \<and> slot mem (v + 4096) = Some b \<and>
      (ucast (mem b) :: u64) \<noteq> ucast (PTE_PADDR (mem a)) + 4096"
  shows "unmap_loop getpagedesc entry (Suc (Suc n)) v vend 0 p pd out (mem, st) =
    Ret (4096, Some (ucast (PTE_PADDR (mem a))), (mem(a := 0), st))"
proof -
  obtain pd' where pd': "getpagedesc v False pd (mem, st) = Ret (0, pd', mem, st)" "entry pd' = a"
    using find_entry [OF wf v] by blast
  show ?thesis
  proof (cases "v + 4096 < vend")
    case False
    then show ?thesis using pd' assms(4) by (simp add: PAGE_SIZE_any Let_def)
  next
    case True
    note t = two [OF True]
    have wf': "wf (mem(a := 0), st)" and sl: "slot (mem(a := 0)) (v + 4096) = Some b"
      using store [OF wf v, of 0] t by auto
    have "b \<noteq> a" using separate [OF wf _ v(1), of "v + 4096" a] t v(2) by metis
    obtain pd2 where "getpagedesc (v + 4096) False pd' (mem(a := 0), st) = Ret (0, pd2, mem(a := 0), st)" "entry pd2 = b"
      using find_entry [OF wf' _ sl] t by blast
    then show ?thesis using pd' assms(4) True t \<open>b \<noteq> a\<close> by (simp add: PAGE_SIZE_any Let_def)
  qed
qed

end

end
