(* ===== verification/PageSource.thy ===== *)
theory PageSource
  imports Kmem
begin

text \<open>
  Single pages: what the page table code expects of \<open>pgalloc\<close>, as a locale, and its
  interpretation by \<open>pgalloc\<close> of \<open>mmu.h\<close> over the page allocator of theory \<open>Pmm\<close>. As long as a
  page is left, \<open>pgalloc\<close> returns one and takes exactly that one away. In the boot phase every free
  page counts as left. Later, whatever object allocator serves the page allocator, the pages of
  the first block but its last one do: they are handed out without freeing the block.
\<close>

locale page_source =
  fixes galloc :: "kmem \<Rightarrow> (addr_t \<times> kmem) outcome" and inv :: "kmem \<Rightarrow> bool" and avail :: "kmem \<Rightarrow> addr_t set"
  assumes take_page: "\<lbrakk>inv st; avail st \<noteq> {}\<rbrakk> \<Longrightarrow>
      \<exists>pa st'. galloc st = Ret (pa, st') \<and> inv st' \<and> pa \<in> avail st \<and> avail st' = avail st - {pa}"
    and avail_aligned: "pa \<in> avail st \<Longrightarrow> 4096 dvd unat pa"
begin

lemma avail_finite: "finite (avail st)"
  by simp

lemma avail_not_error:
  assumes "pa \<in> avail st"
  shows "pa \<noteq> -1"
proof
  assume "pa = -1"
  moreover have "unat (-1 :: u64) = 18446744073709551615" by (simp add: unsigned_minus_1_eq_mask mask_eq_exp_minus_1)
  ultimately show False using avail_aligned [OF assms] by simp
qed

lemma take_page_room:
  assumes "inv st" and "0 < card (avail st)"
  obtains pa st' where "galloc st = Ret (pa, st')" and "inv st'" and "pa \<in> avail st" and "pa \<noteq> -1"
    and "avail st' = avail st - {pa}" and "card (avail st) = Suc (card (avail st'))"
proof -
  have "avail st \<noteq> {}" using assms(2) by auto
  then obtain pa st' where t: "galloc st = Ret (pa, st')" "inv st'" "pa \<in> avail st" "avail st' = avail st - {pa}"
    using take_page [OF assms(1)] by blast
  moreover have "card (avail st) = Suc (card (avail st'))"
    unfolding t(4) using card.remove [OF avail_finite t(3)] .
  ultimately show thesis using that avail_not_error by blast
qed

end

section \<open>The boot phase\<close>

definition page_points :: "addr_t \<Rightarrow> nat set" where
  "page_points pa = {unat pa ..< unat pa + 4096}"

definition free_page_set :: "kmem \<Rightarrow> addr_t set" where
  "free_page_set st = {pa. 4096 dvd unat pa \<and> page_points pa \<subseteq> free_set st}"

lemma page_points_disjoint:
  assumes "4096 dvd unat p" and "4096 dvd unat q" and "p \<noteq> q"
  shows "page_points p \<inter> page_points q = {}"
proof -
  obtain a b where ab: "unat p = 4096 * a" "unat q = 4096 * b" using assms(1,2) by blast
  have "a \<noteq> b" using assms(3) ab by (metis word_unat_eq_iff)
  then have "a < b \<or> b < a" by linarith
  then show ?thesis using ab by (auto simp: page_points_def)
qed

lemma boot_take_page:
  assumes inv: "pmm_inv base st" and ne: "free_page_set st \<noteq> {}"
  shows "\<exists>pa st'. pgalloc (by_ref (alloc_pages (kfree putpages))) junk st = Ret (pa, st') \<and> pmm_inv base st' \<and>
    pa \<in> free_page_set st \<and> free_page_set st' = free_page_set st - {pa}"
proof -
  define p where "p = \<lparr>paddr = junk, psize = 4096 :: addr_t, pflags = 0\<rparr>"
  have wf: "ff_wf st" and pf: "pallocator st = PFirstFit" using inv by (simp_all add: pmm_inv_def)
  have ord: "coalesced (ff_ivls st)" and pg: "\<forall>i \<in> set (ff_ivls st). page_ivl i"
    and tot: "unat (ff_free_space st) = total (ff_ivls st)" using wf by (simp_all add: ff_wf_def)
  obtain q where q: "page_points q \<subseteq> free_set st" using ne by (auto simp: free_page_set_def)
  then have "unat q \<in> cover (ff_ivls st)" by (auto simp: page_points_def free_set_def)
  then obtain i where i: "i \<in> set (ff_ivls st)" by (auto simp: cover_def)
  have "0 < snd i" using ord i by (simp add: coalesced_def)
  moreover have "4096 dvd snd i" using pg i by (simp add: page_ivl_def)
  ultimately have big: "4096 \<le> snd i" by (simp add: dvd_imp_le)
  have "snd i \<le> total (ff_ivls st)" using i by (auto simp: total_def intro: member_le_sum_list)
  then have "psize p \<le> get_free_memory st"
    using big tot pf by (simp add: p_def get_free_memory_def ff_get_free_def word_le_nat_alt)
  moreover have "IS_ALIGNED (psize p) PAGE_SIZE" by (simp add: p_def)
  moreover obtain b where b: "first_fit 4096 (ff_head st) = Some b"
    using big i by (cases "first_fit 4096 (ff_head st)") (auto simp: first_fit_None fl_cut_None ff_ivls_def)
  ultimately obtain st' where st': "alloc_pages (kfree putpages) (Some p) st = Ret (0, Some (p\<lparr>paddr := bpaddr b\<rparr>), st')"
    "pmm_inv base st'" "points (pivl (p\<lparr>paddr := bpaddr b\<rparr>)) \<subseteq> free_set st"
    "free_set st' = free_set st - points (pivl (p\<lparr>paddr := bpaddr b\<rparr>))"
    using pmm_alloc [OF inv, of p putpages] by (auto simp: p_def)
  have pts: "points (pivl (p\<lparr>paddr := bpaddr b\<rparr>)) = page_points (bpaddr b)"
    by (simp add: pivl_def p_def page_points_def)
  have "b \<in> set (ff_head st)" using first_fit_Some [OF b] by auto
  then have al: "4096 dvd unat (bpaddr b)" using pg by (auto simp: ff_ivls_def page_ivl_def bivl_def)
  have mem: "bpaddr b \<in> free_page_set st" using al st'(3) pts by (simp add: free_page_set_def)
  have "free_page_set st' = free_page_set st - {bpaddr b}"
  proof (intro set_eqI iffI)
    fix x assume "x \<in> free_page_set st'"
    moreover have "unat x \<in> page_points x" by (simp add: page_points_def)
    ultimately show "x \<in> free_page_set st - {bpaddr b}"
      by (auto simp: free_page_set_def st'(4) pts)
  next
    fix x assume "x \<in> free_page_set st - {bpaddr b}"
    then show "x \<in> free_page_set st'"
      using page_points_disjoint [of x "bpaddr b"] al by (auto simp: free_page_set_def st'(4) pts)
  qed
  moreover have "pgalloc (by_ref (alloc_pages (kfree putpages))) junk st = Ret (bpaddr b, st')"
    using st'(1) by (simp add: pgalloc_def by_ref_def p_def)
  ultimately show ?thesis using st'(2) mem by blast
qed

section \<open>Every phase\<close>

definition ff_serving :: "kmem \<Rightarrow> bool" where
  "ff_serving st \<longleftrightarrow> ff_wf st \<and> pallocator st = PFirstFit \<and> distinct (map bnode (ff_head st))"

definition front_pages :: "kmem \<Rightarrow> addr_t set" where
  "front_pages st = (case ff_head st of
       [] \<Rightarrow> {}
     | b # _ \<Rightarrow> {pa. 4096 dvd unat pa \<and> unat (bpaddr b) \<le> unat pa \<and> unat pa + 4096 < unat (bpaddr b) + unat (bsize b)})"

lemma front_pages_cut:
  assumes "4096 dvd unat (a :: addr_t)"
  shows "{pa. 4096 dvd unat pa \<and> unat a + 4096 \<le> unat pa \<and> unat pa + 4096 < e} =
    {pa. 4096 dvd unat pa \<and> unat a \<le> unat pa \<and> unat pa + 4096 < e} - {a}"
proof -
  have "unat a + 4096 \<le> unat pa" if "4096 dvd unat pa" "unat a \<le> unat pa" "pa \<noteq> a" for pa
  proof -
    have "unat a < unat pa" using that(2,3) by (simp add: word_unat_eq_iff)
    moreover have "4096 dvd unat pa - unat a" using that(1) assms by (rule dvd_diff_nat)
    ultimately have "4096 \<le> unat pa - unat a" by (intro dvd_imp_le) simp_all
    then show ?thesis using that(2) by linarith
  qed
  then show ?thesis by auto
qed

lemma running_take_page:
  assumes inv: "ff_serving st" and ne: "front_pages st \<noteq> {}"
  shows "\<exists>pa st'. pgalloc (by_ref (alloc_pages release)) junk st = Ret (pa, st') \<and> ff_serving st' \<and>
    pa \<in> front_pages st \<and> front_pages st' = front_pages st - {pa}"
proof -
  obtain b vs where xs: "ff_head st = b # vs" using ne by (cases "ff_head st") (auto simp: front_pages_def)
  define b' where "b' = b\<lparr>bpaddr := bpaddr b + 4096, bsize := bsize b - 4096\<rparr>"
  define st' where "st' = st\<lparr>ff_head := b' # vs, ff_free_space := ff_free_space st - 4096\<rparr>"
  have wf: "ff_wf st" and pf: "pallocator st = PFirstFit" and dis: "bnode b \<notin> bnode ` set vs"
    using inv xs by (simp_all add: ff_serving_def)
  have big: "4096 < unat (bsize b)" using ne xs by (auto simp: front_pages_def)
  have pg: "page_ivl (bivl b)" and tot: "unat (ff_free_space st) = total (ff_ivls st)" using wf xs by (simp_all add: ff_wf_def ff_ivls_def)
  have al: "4096 dvd unat (bpaddr b)" and bound: "unat (bpaddr b) + unat (bsize b) < 2 ^ 64"
    using pg by (simp_all add: page_ivl_def bivl_def)
  have bi: "bivl b' = (unat (bpaddr b) + 4096, unat (bsize b) - 4096)"
    using bound big by (simp add: bivl_def b'_def unat_sub_le unat_add_no_overflow word_le_nat_alt)
  have cut: "fl_cut 4096 (ff_ivls st) = Some (unat (bpaddr b), ff_ivls st')"
    using big by (simp add: ff_ivls_def xs st'_def bi) (simp add: bivl_def)
  have le: "4096 \<le> unat (ff_free_space st)" using big tot by (simp add: ff_ivls_def xs bivl_def)
  have "unat (ff_free_space st - 4096) = total (ff_ivls st')"
    using fl_cut_total [OF cut] tot le by (simp add: unat_sub_le word_le_nat_alt)
  then have "ff_wf st'"
    using wf fl_cut_coalesced [OF cut] page_ivl_cut [OF cut] by (simp add: ff_wf_def st'_def)
  then have serving: "ff_serving st'"
    using inv xs by (simp add: ff_serving_def st'_def b'_def)
  have fit: "first_fit 4096 (ff_head st) = Some b" using big by (simp add: xs word_le_nat_alt)
  have upd: "nl_update bnode b' (ff_head st) = b' # vs"
    using nl_update_split [of bnode b' b "[]" vs] dis xs by (simp add: b'_def)
  have "bsize b \<noteq> 4096" using big by auto
  then have "alloc_pages release (Some \<lparr>paddr = junk, psize = 4096, pflags = 0\<rparr>) st =
      Ret (0, Some \<lparr>paddr = bpaddr b, psize = 4096, pflags = 0\<rparr>, st')"
    using ff_alloc_fit [of "\<lparr>paddr = junk, psize = 4096, pflags = 0\<rparr>" st b b' _ release, OF _ _ _ _ refl] fit le upd pf
    by (simp add: alloc_pages_def b'_def word_le_nat_alt st'_def)
  then have "pgalloc (by_ref (alloc_pages release)) junk st = Ret (bpaddr b, st')"
    by (simp add: pgalloc_def by_ref_def)
  moreover have "bpaddr b \<in> front_pages st" using al big by (simp add: front_pages_def xs)
  moreover have "front_pages st' = front_pages st - {bpaddr b}"
    using front_pages_cut [OF al, of "unat (bpaddr b) + unat (bsize b)"] bi big
    by (simp add: front_pages_def xs st'_def bivl_def)
  ultimately show ?thesis using serving by blast
qed

text \<open>The two phases: booting on a pool at a base, and any later time.\<close>

datatype phase = Booting nat | Running

fun page_inv :: "phase \<Rightarrow> kmem \<Rightarrow> bool" where
  "page_inv (Booting base) st = pmm_inv base st"
| "page_inv Running st = ff_serving st"

fun page_avail :: "phase \<Rightarrow> kmem \<Rightarrow> addr_t set" where
  "page_avail (Booting base) st = free_page_set st"
| "page_avail Running st = front_pages st"

interpretation phase_pages: page_source "pgalloc (by_ref (alloc_pages (kfree putpages))) junk" "page_inv phase" "page_avail phase"
  for putpages junk phase
proof unfold_locales
  show "\<exists>pa st'. pgalloc (by_ref (alloc_pages (kfree putpages))) junk st = Ret (pa, st') \<and> page_inv phase st' \<and>
      pa \<in> page_avail phase st \<and> page_avail phase st' = page_avail phase st - {pa}"
    if "page_inv phase st" "page_avail phase st \<noteq> {}" for st
    using that boot_take_page running_take_page by (cases phase) simp_all
  show "4096 dvd unat pa" if "pa \<in> page_avail phase st" for pa st
    using that by (cases phase) (auto simp: free_page_set_def front_pages_def split: list.splits)
qed

lemma example_booting:
  "page_inv (Booting 0x80050000) example_kmem" "0x100000 \<in> page_avail (Booting 0x80050000) example_kmem"
  "pa \<in> page_avail (Booting 0x80050000) example_kmem \<Longrightarrow> unat pa < 0x110000"
  using example_kmem_inv by (auto simp: free_page_set_def page_points_def example_kmem_simps)

text \<open>The running phase is reached: the state that the memory part of \<open>master_init\<close> leaves with two regions.\<close>

lemma example_running:
  obtains st where "master_init_mm 10 0x80050000 7 example_memory kmem_reset = Ret st" "page_inv Running st"
    "{0x101000, 0x102000, 0x103000} \<subseteq> page_avail Running st"
    "\<forall>pa \<in> page_avail Running st. 0x101000 \<le> unat pa \<and> unat pa < 0x110000"
proof -
  define run where "run = master_init_mm 10 0x80050000 7 example_memory kmem_reset"
  obtain st where run: "run = Ret st"
    and blocks: "map (\<lambda>b. (bpaddr b, bsize b)) (ff_head st) = [(0x101000, 0xF000), (0x200000, 0x4000)]"
    and st: "get_free_memory st = 0x13000" "pallocator st = PFirstFit" "distinct (map bnode (ff_head st))"
    using master_init_mm_run unfolding run_def [symmetric] by (cases run) auto
  obtain b c where h: "ff_head st = [b, c]" "bpaddr b = 0x101000" "bsize b = 0xF000" "bpaddr c = 0x200000" "bsize c = 0x4000"
    using blocks by (auto simp: map_eq_Cons_conv)
  have "ff_ivls st = [(0x101000, 0xF000), (0x200000, 0x4000)]" by (simp add: ff_ivls_def h bivl_def)
  then have "ff_serving st"
    using st by (simp add: ff_serving_def ff_wf_def coalesced_Cons page_ivl_def get_free_memory_def ff_get_free_def)
  then have inv: "page_inv Running st" by simp
  have av: "page_avail Running st = {pa. 4096 dvd unat pa \<and> 0x101000 \<le> unat pa \<and> unat pa + 4096 < 0x110000}"
    by (simp add: front_pages_def h)
  have mem: "0x101000 \<in> page_avail Running st" "0x102000 \<in> page_avail Running st" "0x103000 \<in> page_avail Running st"
    unfolding av by simp_all
  show thesis by (rule that [OF run [unfolded run_def] inv]) (use mem in blast, unfold av, simp)
qed

end
