(* ===== verification/I386Pg.thy ===== *)
theory I386Pg
  imports PgTable PageSource
begin

text \<open>
  The page tables of i386, \<open>kern/arch/i386/pgtable.c\<close> with \<open>include/arch/i386/mmu.h\<close>: a page
  directory and leaf tables of 1024 entries. \<open>PTX\<close> does not cut the page number to ten bits,
  so the code works as intended for the first 4 MB of the address space only.
\<close>

section \<open>Definitions\<close>

definition XPAGE_SHIFT :: nat where "XPAGE_SHIFT = 22"

definition XPAGE_SIZE :: "'w :: len word" where "XPAGE_SIZE = push_bit XPAGE_SHIFT 1"

definition PTE_P :: u32 where "PTE_P = 0x1"
definition PTE_R :: u32 where "PTE_R = 0x2"
definition PTE_U :: u32 where "PTE_U = 0x4"
definition PTE_S :: u32 where "PTE_S = 0x80"

definition mkxpte :: "addr_t \<Rightarrow> u32 \<Rightarrow> u32" where
  "mkxpte pa flags = ucast (ALIGN_BELOW pa XPAGE_SIZE OR ucast flags)"

definition mkpte :: "addr_t \<Rightarrow> u32 \<Rightarrow> u32" where
  "mkpte pa flags = ucast (ALIGN_BELOW pa PAGE_SIZE OR ucast flags)"

definition i386_PTX :: "u32 \<Rightarrow> u32" where
  "i386_PTX vaddr = drop_bit 12 vaddr"

definition i386_PDX :: "u32 \<Rightarrow> u32" where
  "i386_PDX vaddr = drop_bit 22 vaddr"

definition i386_XPTX :: "u32 \<Rightarrow> u32" where
  "i386_XPTX vaddr = drop_bit XPAGE_SHIFT vaddr"

record i386_pagedesc =
  i_pdep :: u32
  i_ptep :: u32
  i_pdx :: u32
  i_ptx :: u32

definition i386_entry :: "i386_pagedesc \<Rightarrow> u32" where
  "i386_entry pd = cell (i_ptep pd) (i_ptx pd)"

definition i386_present :: "u32 \<Rightarrow> bool" where
  "i386_present e \<longleftrightarrow> e AND PTE_P \<noteq> 0"

definition i386_getpagedesc :: "(kmem \<Rightarrow> (addr_t \<times> kmem) outcome) \<Rightarrow> u32 \<Rightarrow> (32, i386_pagedesc) getdesc" where
  "i386_getpagedesc galloc pgindex addr create pd s =
     (case s of (mem, st) \<Rightarrow>
        let pd = pd\<lparr>i_pdep := pgindex, i_pdx := i386_PDX addr\<rparr>;
            pde = cell pgindex (i_pdx pd)
        in if i386_present (mem pde) then
             Ret (0, pd\<lparr>i_ptep := i386_pa2kva (PTE_PADDR (mem pde)), i_ptx := i386_PTX addr\<rparr>, mem, st)
           else if \<not> create then Ret (- ENOENT, pd, mem, st)
           else obind (galloc st) (\<lambda>(pa, st).
             if pa = -1 then Ret (- ENOMEM, pd, mem, st)
             else
               let pd = pd\<lparr>i_ptep := i386_pa2kva (ucast pa)\<rparr>;
                   mem = (zero_page (i_ptep pd) mem)(pde := mkpte pa (PTE_P OR PTE_R OR PTE_U))
               in Ret (0, pd\<lparr>i_ptx := i386_PTX addr\<rparr>, mem, st)))"

definition i386_table_empty :: "32 mem \<Rightarrow> u32 \<Rightarrow> bool" where
  "i386_table_empty mem pte \<longleftrightarrow> list_all (\<lambda>i. \<not> i386_present (mem (cell pte (of_nat i)))) [0..<1024]"

text \<open>
  The loop of \<open>__free_intermediate_pgtable\<close>. The entry holds a physical address, from which
  \<open>kva2pa\<close> once more subtracts the kernel base before the page is freed.
\<close>

fun i386_free_dirs :: "(addr_t \<Rightarrow> kmem \<Rightarrow> kmem outcome) \<Rightarrow> u32 \<Rightarrow> nat list \<Rightarrow> 32 ptstate \<Rightarrow> 32 ptstate outcome" where
  "i386_free_dirs gfree pgindex [] s = Ret s"
| "i386_free_dirs gfree pgindex (pdx # rest) (mem, st) =
     (let pde = cell pgindex (of_nat pdx)
      in if i386_table_empty mem (i386_pa2kva (PTE_PADDR (mem pde))) then
           obind (gfree (ucast (i386_kva2pa (PTE_PADDR (mem pde)))) st)
             (\<lambda>st. i386_free_dirs gfree pgindex rest (mem(pde := mem pde AND NOT PTE_P), st))
         else i386_free_dirs gfree pgindex rest (mem, st))"

definition i386_free_intermediate :: "(addr_t \<Rightarrow> kmem \<Rightarrow> kmem outcome) \<Rightarrow> u32 \<Rightarrow> u32 \<Rightarrow> u32 \<Rightarrow> 32 ptstate \<Rightarrow> 32 ptstate outcome" where
  "i386_free_intermediate gfree pgindex vaddr sz =
     i386_free_dirs gfree pgindex [unat (i386_PDX vaddr)..<Suc (unat (i386_PDX (vaddr + sz - PAGE_SIZE)))]"

definition i386_init_pgindex :: "(kmem \<Rightarrow> (addr_t \<times> kmem) outcome) \<Rightarrow> 32 ptstate \<Rightarrow> (u32 \<times> 32 ptstate) outcome" where
  "i386_init_pgindex galloc s =
     (case s of (mem, st) \<Rightarrow>
        obind (galloc st) (\<lambda>(pa, st).
          if pa = -1 then Ret (0, mem, st)
          else let pgindex = i386_pa2kva (ucast pa) in Ret (pgindex, zero_page pgindex mem, st)))"

definition i386_destroy_pgindex :: "(addr_t \<Rightarrow> kmem \<Rightarrow> kmem outcome) \<Rightarrow> u32 \<Rightarrow> 32 ptstate \<Rightarrow> 32 ptstate outcome" where
  "i386_destroy_pgindex gfree pgindex s =
     (case s of (mem, st) \<Rightarrow> obind (gfree (ucast (i386_kva2pa pgindex)) st) (\<lambda>st. Ret (mem, st)))"

definition i386_pgtable_perm :: "u32 \<Rightarrow> u32" where
  "i386_pgtable_perm vma_flags = PTE_P OR PTE_U OR (if vma_flags AND VMA_WRITE \<noteq> 0 then PTE_R else 0)"

definition i386_map_pages :: "(kmem \<Rightarrow> (addr_t \<times> kmem) outcome) \<Rightarrow> (addr_t \<Rightarrow> kmem \<Rightarrow> kmem outcome) \<Rightarrow> i386_pagedesc \<Rightarrow>
    u32 \<Rightarrow> u32 \<Rightarrow> addr_t \<Rightarrow> u32 \<Rightarrow> u32 \<Rightarrow> 32 ptstate \<Rightarrow> (int \<times> 32 ptstate) outcome" where
  "i386_map_pages galloc gfree junk pgindex vaddr pa sz flags =
     map_range (i386_getpagedesc galloc pgindex) i386_entry i386_present (ucast (i386_pgtable_perm flags))
       (i386_free_intermediate gfree pgindex) vaddr pa sz junk"

text \<open>The descriptor of \<open>unmap_pages\<close> is initialised with zeros.\<close>

definition i386_unmap_pages :: "(kmem \<Rightarrow> (addr_t \<times> kmem) outcome) \<Rightarrow> (addr_t \<Rightarrow> kmem \<Rightarrow> kmem outcome) \<Rightarrow>
    u32 \<Rightarrow> u32 \<Rightarrow> u32 \<Rightarrow> 32 ptstate \<Rightarrow> (int \<times> addr_t option \<times> 32 ptstate) outcome" where
  "i386_unmap_pages galloc gfree pgindex vaddr sz =
     unmap_range (i386_getpagedesc galloc pgindex) i386_entry (i386_free_intermediate gfree pgindex) vaddr sz
       \<lparr>i_pdep = 0, i_ptep = 0, i_pdx = 0, i_ptx = 0\<rparr>"

section \<open>The first four megabytes\<close>

definition i386_low :: "u32 \<Rightarrow> bool" where
  "i386_low v \<longleftrightarrow> v < 0x400000"

definition i386_pde0 :: "u32 \<Rightarrow> 32 mem \<Rightarrow> u32" where
  "i386_pde0 pgindex mem = mem pgindex"

definition i386_leaf :: "u32 \<Rightarrow> u32" where
  "i386_leaf pde = i386_pa2kva (PTE_PADDR pde)"

definition i386_slot :: "u32 \<Rightarrow> 32 mem \<Rightarrow> u32 \<Rightarrow> u32 option" where
  "i386_slot pgindex mem v =
     (if i386_present (i386_pde0 pgindex mem) then Some (cell (i386_leaf (i386_pde0 pgindex mem)) (i386_PTX v)) else None)"

definition i386_wf :: "(kmem \<Rightarrow> bool) \<Rightarrow> (kmem \<Rightarrow> addr_t set) \<Rightarrow> u32 \<Rightarrow> 32 ptstate \<Rightarrow> bool" where
  "i386_wf ok avail pgindex s \<longleftrightarrow> (case s of (mem, st) \<Rightarrow>
     ok st \<and> 4096 dvd unat pgindex \<and>
     (i386_present (i386_pde0 pgindex mem) \<longrightarrow> i386_leaf (i386_pde0 pgindex mem) \<noteq> pgindex) \<and>
     (\<forall>pa \<in> avail st. pa < 0x80000000 \<and> i386_pa2kva (ucast pa) \<noteq> pgindex \<and>
        (i386_present (i386_pde0 pgindex mem) \<longrightarrow> i386_leaf (i386_pde0 pgindex mem) \<noteq> i386_pa2kva (ucast pa))))"

lemma i386_low_index: "i386_low v \<Longrightarrow> i386_PDX v = 0" "i386_low v \<Longrightarrow> i386_PTX v < 1024"
proof -
  assume "i386_low v"
  then have u: "unat v < 0x400000" by (simp add: i386_low_def word_less_nat_alt)
  have "unat (i386_PDX v) = unat v div 2 ^ 22" "unat (i386_PTX v) = unat v div 2 ^ 12"
    unfolding i386_PDX_def i386_PTX_def unat_drop_bit_eq by (simp_all add: drop_bit_eq_div)
  then have "unat (i386_PDX v) = 0" "unat (i386_PTX v) < 1024" using u by simp_all
  then show "i386_PDX v = 0" "i386_PTX v < 1024" by (simp_all add: unat_eq_0 word_less_nat_alt)
qed

lemma in_table_i386: "4096 dvd unat (t :: u32) \<Longrightarrow> i < 1024 \<Longrightarrow> in_table t i"
  by (simp add: in_table_def word_less_nat_alt)

lemma unat_PTE_PADDR: "unat (PTE_PADDR (e :: u32)) = unat e div 4096 * 4096"
  using unat_align_below [of e 12] by (simp add: PTE_PADDR_def PTE_LOWMASK_def ALIGN_BELOW_def ALIGN_MASK_def)

lemma i386_leaf_aligned: "4096 dvd unat (i386_leaf pde)"
proof -
  have "unat (i386_leaf pde) = (unat pde div 4096 * 4096 + 0x80000000) mod 2 ^ 32"
    by (simp add: i386_leaf_def i386_pa2kva_def KERN_BASE_def unat_word_ariths unat_PTE_PADDR)
  moreover have "(4096 :: nat) dvd 2 ^ 32" by simp
  ultimately show ?thesis by (simp add: dvd_mod)
qed

lemma i386_pa2kva_low:
  assumes "pa < (0x80000000 :: addr_t)"
  shows "unat (i386_pa2kva (ucast pa)) = 0x80000000 + unat pa"
proof -
  have u: "unat pa < 0x80000000" using assms by (simp add: word_less_nat_alt)
  then have "unat (ucast pa :: u32) = unat pa" by (simp add: unsigned_ucast_eq take_bit_nat_eq_self_iff)
  then show ?thesis using u by (simp add: i386_pa2kva_def KERN_BASE_def unat_add_no_overflow)
qed

lemma mkpte_leaf:
  assumes "4096 dvd unat pa"
  shows "i386_present (mkpte pa (PTE_P OR PTE_R OR PTE_U))" and "i386_leaf (mkpte pa (PTE_P OR PTE_R OR PTE_U)) = i386_pa2kva (ucast pa)"
proof -
  have f: "PTE_P OR PTE_R OR PTE_U = 7" by (simp add: PTE_P_def PTE_R_def PTE_U_def)
  have "unat pa div 2 ^ 12 * 2 ^ 12 = unat pa" using assms by simp
  then have "unat (ALIGN_BELOW pa (2 ^ 12)) = unat pa" by (simp only: unat_align_below)
  then have ab: "ALIGN_BELOW pa 4096 = pa" by (simp add: word_unat_eq_iff)
  have m: "(0xfff :: u32) = mask 12" "(7 :: u32) = mask 3" by (simp_all add: mask_eq_exp_minus_1)
  have "unat pa mod 2 ^ 12 = 0" using assms by simp
  then have low: "pa AND mask 12 = 0" by (metis unat_and_mask unat_eq_0)
  have lb: "\<not> bit pa i" if "i < 12" for i
    using arg_cong [OF low, of "\<lambda>x. bit x i"] that by (simp add: bit_simps)
  have "mkpte pa 7 = ucast pa OR 7" by (rule bit_word_eqI) (simp add: mkpte_def ab bit_simps)
  then have e: "mkpte pa 7 = ucast pa OR mask 3" by (simp only: m(2))
  have "bit (mkpte pa 7 AND 1) 0" unfolding e by (simp add: bit_simps)
  then have "mkpte pa 7 AND 1 \<noteq> 0" by auto
  then show "i386_present (mkpte pa (PTE_P OR PTE_R OR PTE_U))"
    unfolding i386_present_def by (simp only: f) (simp add: PTE_P_def)
  have "bit (PTE_PADDR (mkpte pa 7)) n = bit (ucast pa :: u32) n" if "n < 32" for n
    using lb [of n] that unfolding e PTE_PADDR_def PTE_LOWMASK_def m(1) by (cases "n < 12") (auto simp: bit_simps)
  then have "PTE_PADDR (mkpte pa 7) = ucast pa" by (intro bit_word_eqI) simp
  then show "i386_leaf (mkpte pa (PTE_P OR PTE_R OR PTE_U)) = i386_pa2kva (ucast pa)"
    unfolding i386_leaf_def by (simp only: f)
qed

lemma i386_page_low: "i386_low v \<Longrightarrow> i386_low w \<Longrightarrow> page v = page w \<longleftrightarrow> i386_PTX v = i386_PTX w"
  by (simp add: page_def i386_PTX_def)

lemma cell_0 [simp]: "cell t 0 = t"
  by (simp add: cell_def)

lemma i386_pde0_store:
  assumes "i386_wf ok avail pgindex (mem, st)" and "i386_low v" and "i386_slot pgindex mem v = Some a"
  shows "i386_pde0 pgindex (mem(a := x)) = i386_pde0 pgindex mem"
proof -
  define t where "t = i386_leaf (i386_pde0 pgindex mem)"
  have t: "a = cell t (i386_PTX v)" "t \<noteq> pgindex" "4096 dvd unat pgindex"
    using assms by (auto simp: i386_slot_def i386_wf_def t_def split: if_splits)
  have "cell pgindex 0 \<noteq> a"
    using cell_inj [of pgindex 0 t "i386_PTX v"] in_table_i386 [OF t(3), of 0]
      in_table_i386 [of t "i386_PTX v"] i386_leaf_aligned i386_low_index(2) [OF assms(2)] t(1,2)
    by (auto simp: t_def)
  then show ?thesis by (simp add: i386_pde0_def)
qed

context page_source
begin

lemma i386_create:
  assumes wf: "i386_wf inv avail pgindex (mem, st)" and v: "i386_low v" and room: "1 \<le> card (avail st)"
  shows "\<exists>pd' mem' st'. i386_getpagedesc galloc pgindex v True pd (mem, st) = Ret (0, pd', mem', st') \<and>
    i386_wf inv avail pgindex (mem', st') \<and> i386_slot pgindex mem' v = Some (i386_entry pd') \<and>
    card (avail st) \<le> card (avail st') + 1 \<and>
    (\<forall>w a. i386_low w \<longrightarrow> i386_slot pgindex mem w = Some a \<longrightarrow> i386_slot pgindex mem' w = Some a \<and> mem' a = mem a) \<and>
    (\<forall>w a. i386_low w \<longrightarrow> i386_slot pgindex mem w = None \<longrightarrow> i386_slot pgindex mem' w = Some a \<longrightarrow> mem' a = 0)"
proof (cases "i386_present (i386_pde0 pgindex mem)")
  case True
  then show ?thesis
    using wf i386_low_index(1) [OF v]
    by (intro exI) (auto simp: i386_getpagedesc_def i386_slot_def i386_entry_def i386_pde0_def i386_leaf_def Let_def)
next
  case False
  have al: "4096 dvd unat pgindex" and inv: "inv st"
    and av: "\<forall>pa \<in> avail st. pa < 0x80000000 \<and> i386_pa2kva (ucast pa) \<noteq> pgindex"
    using wf by (simp_all add: i386_wf_def)
  obtain pa st' where g: "galloc st = Ret (pa, st')" "inv st'" "pa \<in> avail st" "pa \<noteq> -1" "avail st' = avail st - {pa}"
    "card (avail st) = Suc (card (avail st'))"
    using take_page_room [OF inv] room by auto
  define t where "t = i386_pa2kva (ucast pa)"
  define pde where "pde = mkpte pa (PTE_P OR PTE_R OR PTE_U)"
  define mem' where "mem' = (zero_page t mem)(pgindex := pde)"
  have pal: "4096 dvd unat pa" by (rule avail_aligned [OF g(3)])
  have pde: "i386_present pde" "i386_leaf pde = t" using mkpte_leaf [OF pal] by (simp_all add: pde_def t_def)
  have t: "t \<noteq> pgindex" "unat t = 0x80000000 + unat pa" "4096 dvd unat t"
    using av g(3) i386_pa2kva_low [of pa] pal by (auto simp: t_def)
  have new: "mem' (cell t (i386_PTX w)) = 0" if "i386_low w" for w
  proof -
    have it: "in_table t (i386_PTX w)" using in_table_i386 [OF t(3)] i386_low_index(2) [OF that] by simp
    have "cell t (i386_PTX w) \<noteq> cell pgindex 0"
      using cell_inj [OF it in_table_i386 [OF al, of 0]] t(1) by auto
    then show ?thesis using page_cell [OF it] t(3) by (simp add: mem'_def zero_page_apply)
  qed
  have p0: "i386_pde0 pgindex mem' = pde" by (simp add: i386_pde0_def mem'_def)
  have q: "i386_pa2kva (ucast q) \<noteq> t" if "q \<in> avail st'" for q
    using av g(5) that i386_pa2kva_low [of q] t(2) by (metis DiffE add_left_cancel insertI1 word_unat_eq_iff)
  have "i386_wf inv avail pgindex (mem', st')"
    using g(2,5) al t(1) av q by (auto simp: i386_wf_def p0 pde)
  moreover have "i386_getpagedesc galloc pgindex v True pd (mem, st) =
    Ret (0, pd\<lparr>i_pdep := pgindex, i_pdx := 0, i_ptep := t, i_ptx := i386_PTX v\<rparr>, mem', st')"
    using False g(1,4) i386_low_index(1) [OF v]
    by (simp add: i386_getpagedesc_def i386_pde0_def Let_def t_def mem'_def pde_def)
  ultimately show ?thesis
    using False new g(6) by (auto simp: i386_slot_def p0 pde i386_entry_def)
qed

lemma i386_leaf_tables:
  "leaf_tables (i386_getpagedesc galloc pgindex) i386_entry (i386_wf inv avail pgindex) (\<lambda>st. card (avail st)) 1
     i386_low (i386_slot pgindex)"
proof
  fix mem :: "32 mem" and st :: kmem and v a :: u32 and pd
  assume "i386_low v" and "i386_slot pgindex mem v = Some a"
  then show "\<exists>pd'. i386_getpagedesc galloc pgindex v False pd (mem, st) = Ret (0, pd', mem, st) \<and> i386_entry pd' = a"
    using i386_low_index(1) [of v]
    by (auto simp: i386_getpagedesc_def i386_slot_def i386_pde0_def i386_leaf_def i386_entry_def Let_def split: if_splits)
next
  fix mem :: "32 mem" and st :: kmem and v a x :: u32
  assume a: "i386_wf inv avail pgindex (mem, st)" "i386_low v" "i386_slot pgindex mem v = Some a"
  show "i386_wf inv avail pgindex (mem(a := x), st) \<and>
    (\<forall>w. i386_low w \<longrightarrow> i386_slot pgindex (mem(a := x)) w = i386_slot pgindex mem w)"
    using a(1) i386_pde0_store [OF a, of x] by (simp add: i386_wf_def i386_slot_def)
next
  fix mem :: "32 mem" and st :: kmem and v w a :: u32
  assume a: "i386_low v" "i386_low w" "i386_slot pgindex mem v = Some a" "i386_slot pgindex mem w = Some a"
  define t where "t = i386_leaf (i386_pde0 pgindex mem)"
  have "cell t (i386_PTX v) = cell t (i386_PTX w)" "4096 dvd unat t"
    using a(3,4) i386_leaf_aligned by (auto simp: i386_slot_def t_def split: if_splits)
  then have "i386_PTX v = i386_PTX w"
    using cell_inj [of t "i386_PTX v" t "i386_PTX w"] in_table_i386 i386_low_index(2) a(1,2) by simp
  then show "page v = page w" using i386_page_low [OF a(1,2)] by simp
next
  fix mem :: "32 mem" and v w :: u32
  assume "i386_low v" "i386_low w" "page v = page w"
  then show "i386_slot pgindex mem v = i386_slot pgindex mem w"
    using i386_page_low by (simp add: i386_slot_def)
qed (rule i386_create)

end

interpretation i386: leaf_tables "i386_getpagedesc (pgalloc (by_ref (alloc_pages (kfree putpages))) junk) pgindex" i386_entry
    "i386_wf (page_inv phase) (page_avail phase) pgindex" "\<lambda>st. card (page_avail phase st)" 1 i386_low "i386_slot pgindex"
  for putpages junk phase pgindex
  by (rule phase_pages.i386_leaf_tables)


section \<open>What the processor finds\<close>

text \<open>The entry the processor reads for an address, with ten bits of index at each level; 0 if there is none.\<close>

definition i386_walk :: "u32 \<Rightarrow> 32 mem \<Rightarrow> u32 \<Rightarrow> u32" where
  "i386_walk pgindex mem v =
     (let pde = mem (cell pgindex (drop_bit 22 v))
      in if i386_present pde then mem (cell (i386_leaf pde) (drop_bit 12 v AND 0x3ff)) else 0)"

lemma i386_entry_at:
  assumes "i386_low v"
  shows "i386.entry_at pgindex mem v = i386_walk pgindex mem v"
proof -
  have "(0x3ff :: u32) = mask 10" by (simp add: mask_eq_exp_minus_1)
  then have "unat (i386_PTX v AND 0x3ff) = unat (i386_PTX v) mod 1024"
    using unat_and_mask [of "i386_PTX v" 10] by simp
  also have "\<dots> = unat (i386_PTX v)" using i386_low_index(2) [OF assms] by (simp add: word_less_nat_alt)
  finally have "i386_PTX v AND 0x3ff = i386_PTX v" by (simp only: word_unat_eq_iff)
  then show ?thesis
    using i386_low_index(1) [OF assms]
    by (simp add: i386.entry_at_def i386_slot_def i386_walk_def i386_pde0_def i386_PTX_def i386_PDX_def Let_def)
qed

lemma i386_perm_ucast: "ucast (x OR ucast (i386_pgtable_perm flags) :: u64) = (ucast x :: u32) OR i386_pgtable_perm flags"
  by (rule bit_word_eqI) (auto simp: bit_simps)

text \<open>
  C13: mapping pages on i386 below 4 MB, while booting or later: for page-aligned arguments and a
  range of pages that are not present, with as many pages left as the range has, \<open>map_pages\<close>
  returns 0 (what is left is every free page while booting, and later the pages of the first free
  block but its last, with any object allocator behind the page allocator); then
  the processor finds for every page of the range the entry of its physical page with the
  permissions of the flags, and for every other page below 4 MB what it found before.
\<close>

theorem i386_map_pages_low:
  assumes "i386_wf (page_inv phase) (page_avail phase) pgindex s"
    and "\<forall>i < n. \<not> i386_present (i386_walk pgindex (fst s) (nth_page v i))"
    and "n \<le> card (page_avail phase (snd s))"
    and "IS_ALIGNED v PAGE_SIZE" and "IS_ALIGNED pa PAGE_SIZE" and "unat sz = n * 4096"
    and "unat v + n * 4096 \<le> 0x400000" and "unat pa + n * 4096 < 2 ^ 64"
  shows "\<exists>s'. i386_map_pages (pgalloc (by_ref (alloc_pages (kfree putpages))) junk) gfree pd pgindex v pa sz flags s = Ret (0, s') \<and>
    i386_wf (page_inv phase) (page_avail phase) pgindex s' \<and>
    (\<forall>i < n. i386_walk pgindex (fst s') (nth_page v i) = ucast (pa + of_nat (i * 4096)) OR i386_pgtable_perm flags) \<and>
    (\<forall>w. w < 0x400000 \<longrightarrow> (\<forall>i < n. page w \<noteq> page (nth_page v i)) \<longrightarrow> i386_walk pgindex (fst s') w = i386_walk pgindex (fst s) w)"
proof -
  have al: "IS_ALIGNED sz PAGE_SIZE" using assms(6) by (simp add: aligned_4096)
  have bound: "unat v + n * 4096 \<le> 2 ^ LENGTH(32)" using assms(7) by simp
  have low: "i386_low (nth_page v i)" if "i < n" for i
    using unat_nth_page [OF bound that] that assms(7) by (simp add: i386_low_def word_less_nat_alt)
  then have fresh: "\<forall>i < n. i386_low (nth_page v i) \<and> \<not> i386_present (i386.entry_at pgindex (fst s) (nth_page v i))"
    using assms(2) by (simp add: i386_entry_at)
  have room: "n * 1 \<le> card (page_avail phase (snd s))" using assms(3) by simp
  obtain s' where s': "i386_map_pages (pgalloc (by_ref (alloc_pages (kfree putpages))) junk) gfree pd pgindex v pa sz flags s = Ret (0, s')"
    "i386_wf (page_inv phase) (page_avail phase) pgindex s'"
    "\<forall>i < n. i386.entry_at pgindex (fst s') (nth_page v i) = ucast (pa + of_nat (i * 4096) OR ucast (i386_pgtable_perm flags))"
    "\<forall>w. i386_low w \<longrightarrow> (\<forall>i < n. page w \<noteq> page (nth_page v i)) \<longrightarrow> i386.entry_at pgindex (fst s') w = i386.entry_at pgindex (fst s) w"
    unfolding i386_map_pages_def
    using i386.map_range_maps [OF assms(1) fresh room bound assms(8,5) al assms(4,6), where
        perm = "ucast (i386_pgtable_perm flags)" and rollback = "i386_free_intermediate gfree pgindex" and pd = pd
        and putpages = putpages and junk = junk] by blast
  then show ?thesis
    using low by (auto simp: i386_entry_at i386_perm_ucast i386_low_def)
qed

lemma example_i386_wf:
  assumes "page_inv phase st" and "\<forall>pa \<in> page_avail phase st. unat pa < 0x110000"
  shows "i386_wf (page_inv phase) (page_avail phase) 0x80200000 (\<lambda>_. 0, st)"
proof -
  have "pa < 0x80000000 \<and> i386_pa2kva (ucast pa) \<noteq> 0x80200000" if "pa \<in> page_avail phase st" for pa
  proof -
    have u: "unat pa < 0x110000" using that assms(2) by simp
    then have l: "pa < 0x80000000" by (simp add: word_less_nat_alt)
    have "unat (i386_pa2kva (ucast pa)) < 0x80110000" using i386_pa2kva_low [OF l] u by simp
    then show ?thesis using l by auto
  qed
  then show ?thesis using assms(1) by (simp add: i386_wf_def i386_pde0_def i386_present_def)
qed

theorem i386_map_pages_low_witness:
  "\<exists>st s'. master_init_mm 10 0x80050000 7 example_memory kmem_reset = Ret st \<and>
    i386_map_pages (pgalloc (by_ref (alloc_pages (kfree (\<lambda>_ _. Hang)))) 0) (\<lambda>_ _. Hang)
      \<lparr>i_pdep = 0, i_ptep = 0, i_pdx = 0, i_ptx = 0\<rparr> 0x80200000 0x100000 0x300000 0x1000 VMA_WRITE (\<lambda>_. 0, st) = Ret (0, s') \<and>
    i386_walk 0x80200000 (fst s') 0x100000 = 0x300007"
proof -
  obtain st where st: "master_init_mm 10 0x80050000 7 example_memory kmem_reset = Ret st" "page_inv Running st"
    "0x101000 \<in> page_avail Running st" "\<forall>pa \<in> page_avail Running st. unat pa < 0x110000"
    by (rule example_running) blast
  then have "0 < card (page_avail Running st)" by (auto simp: card_gt_0_iff)
  then have "\<exists>s'. i386_map_pages (pgalloc (by_ref (alloc_pages (kfree (\<lambda>_ _. Hang)))) 0) (\<lambda>_ _. Hang)
      \<lparr>i_pdep = 0, i_ptep = 0, i_pdx = 0, i_ptx = 0\<rparr> 0x80200000 0x100000 0x300000 0x1000 VMA_WRITE (\<lambda>_. 0, st) = Ret (0, s') \<and>
    i386_walk 0x80200000 (fst s') 0x100000 = 0x300007"
    using i386_map_pages_low [OF example_i386_wf [OF st(2,4)], of 1 "0x100000" "0x300000" "0x1000" "\<lambda>_ _. Hang" 0 "\<lambda>_ _. Hang"
        "\<lparr>i_pdep = 0, i_ptep = 0, i_pdx = 0, i_ptx = 0\<rparr>" VMA_WRITE]
    by (auto simp: i386_walk_def aligned_4096 i386_pgtable_perm_def VMA_WRITE_def PTE_P_def PTE_U_def PTE_R_def
        i386_present_def simp del: page_avail.simps)
  with st(1) show ?thesis by blast
qed

text \<open>
  C23: where i386 puts a page table entry: relative to the leaf table, the entry for \<open>v\<close> lies
  at four times the whole page number of \<open>v\<close>. It is inside the 4 KB table exactly for
  addresses below 4 MB; above, \<open>map_pages\<close> and \<open>unmap_pages\<close> read and write memory outside
  the table.
\<close>

theorem i386_entry_placement:
  assumes "i386_getpagedesc galloc pgindex v create pd s = Ret (0, pd', s')"
  shows "unat (i386_entry pd' - i_ptep pd') = 4 * (unat v div 4096) \<and>
    (unat (i386_entry pd' - i_ptep pd') < 4096 \<longleftrightarrow> v < 0x400000)"
proof -
  have "i_ptx pd' = i386_PTX v"
    using assms by (auto simp: i386_getpagedesc_def Let_def obind_Ret_conv ENOENT_def ENOMEM_def split: prod.splits if_splits)
  then have "i386_entry pd' - i_ptep pd' = 4 * i386_PTX v" by (simp add: i386_entry_def cell_def)
  moreover have x: "unat (i386_PTX v) = unat v div 4096"
    unfolding i386_PTX_def unat_drop_bit_eq by (simp add: drop_bit_eq_div)
  moreover have "unat v div 4096 < 2 ^ 20" using unat_bound [of v] by (simp add: less_mult_imp_div_less)
  ultimately have "unat (i386_entry pd' - i_ptep pd') = 4 * (unat v div 4096)" by (simp add: unat_word_ariths)
  moreover have "4 * (unat v div 4096) < 4096 \<longleftrightarrow> v < 0x400000" by (auto simp: word_less_nat_alt)
  ultimately show ?thesis by simp
qed

theorem i386_entry_placement_witness:
  "\<exists>pd' s'. i386_getpagedesc (\<lambda>st. Ret (0x101000, st)) 0x80200000 0x400000 True
      \<lparr>i_pdep = 0, i_ptep = 0, i_pdx = 0, i_ptx = 0\<rparr> (\<lambda>_. 0, kmem_reset) = Ret (0, pd', s') \<and>
    unat (i386_entry pd' - i_ptep pd') = 4096"
proof -
  obtain pd' s' where g: "i386_getpagedesc (\<lambda>st. Ret (0x101000, st)) 0x80200000 0x400000 True
      \<lparr>i_pdep = 0, i_ptep = 0, i_pdx = 0, i_ptx = 0\<rparr> (\<lambda>_. 0, kmem_reset) = Ret (0, pd', s')"
    by (simp add: i386_getpagedesc_def i386_present_def Let_def)
  from i386_entry_placement [OF this] have "unat (i386_entry pd' - i_ptep pd') = 4096" by simp
  with g show ?thesis by blast
qed

end
