(* ===== verification/EarlyMap.thy ===== *)
theory EarlyMap
  imports I386Pg
begin

text \<open>
  Early mappings: the queues of \<open>kern/mm/mmu.c\<close> and their i386 side in \<open>kern/arch/i386/mm.c\<close>
  and \<open>kern/arch/i386/arch_init.c\<close>, which fill the boot page directory with 4 MB pages and
  register the memory the firmware reports. A function pointer of a handler queue is a value
  of any type, applying a handler is logged.
\<close>

section \<open>The queues of mmu.c\<close>

definition KMMAP_BASE :: u32 where "KMMAP_BASE = 0xf0000000"
definition RESERVED_BASE :: u32 where "RESERVED_BASE = 0xfffff000"

definition EARLY_MAPPING_MEMORY :: int where "EARLY_MAPPING_MEMORY = 0"
definition EARLY_MAPPING_KMMAP :: int where "EARLY_MAPPING_KMMAP = 1"
definition EARLY_MAPPING_TEMP :: int where "EARLY_MAPPING_TEMP = 2"

record early_mapping =
  em_paddr :: addr_t
  em_vaddr :: u32
  em_size :: u32
  em_type :: int

definition EARLY_MAPPING_QUEUE_LENGTH :: nat where "EARLY_MAPPING_QUEUE_LENGTH = 10"

text \<open>The array keeps its length; only its first \<open>em_count\<close> elements are in use.\<close>

record early_state =
  em_count :: nat
  em_queue :: "early_mapping list"
  mem_top :: u32
  kmmap_top :: u32

definition early_mapping_clear :: "early_state \<Rightarrow> early_state" where
  "early_mapping_clear st = st\<lparr>em_count := 0, mem_top := KERN_BASE, kmmap_top := KMMAP_BASE\<rparr>"

definition early_mapping_add :: "early_mapping \<Rightarrow> early_state \<Rightarrow> (int \<times> early_state) outcome" where
  "early_mapping_add entry st =
     (if em_count st > EARLY_MAPPING_QUEUE_LENGTH then Panic
      else if em_count st = EARLY_MAPPING_QUEUE_LENGTH then Ret (EOF, st)
      else Ret (0, st\<lparr>em_queue := (em_queue st)[em_count st := entry], em_count := em_count st + 1\<rparr>))"

definition early_mapping_add_memory :: "addr_t \<Rightarrow> u32 \<Rightarrow> early_state \<Rightarrow> (u32 \<times> early_state) outcome" where
  "early_mapping_add_memory base sz st =
     (if mem_top st \<ge> KMMAP_BASE then Ret (0, st)
      else
        let sz = (if sz > KMMAP_BASE - mem_top st then KMMAP_BASE - mem_top st else sz);
            desc = \<lparr>em_paddr = base, em_vaddr = mem_top st, em_size = sz, em_type = EARLY_MAPPING_MEMORY\<rparr>
        in obind (early_mapping_add desc st) (\<lambda>(ret, st).
             if ret \<noteq> 0 then Ret (0, st) else Ret (sz, st\<lparr>mem_top := mem_top st + sz\<rparr>)))"

definition early_mapping_add_kmmap :: "addr_t \<Rightarrow> u32 \<Rightarrow> early_state \<Rightarrow> (u32 \<times> early_state) outcome" where
  "early_mapping_add_kmmap base sz st =
     (if kmmap_top st \<ge> RESERVED_BASE then Ret (of_int EOF, st)
      else
        let desc = \<lparr>em_paddr = base, em_vaddr = kmmap_top st, em_size = sz, em_type = EARLY_MAPPING_KMMAP\<rparr>
        in obind (early_mapping_add desc st) (\<lambda>(ret, st).
             if ret \<noteq> 0 then Ret (0, st)
             else let st = st\<lparr>kmmap_top := kmmap_top st + sz\<rparr> in Ret (kmmap_top st - sz, st)))"

text \<open>A pointer into the queue is its index, \<open>None\<close> is NULL.\<close>

definition early_mapping_next :: "int option \<Rightarrow> early_state \<Rightarrow> int option" where
  "early_mapping_next base st =
     (let next = (case base of None \<Rightarrow> 0 | Some b \<Rightarrow> b + 1)
      in if next < 0 \<or> next \<ge> int (em_count st) then None else Some next)"

text \<open>
  The loop of \<open>page_index_init\<close> over the entries, with the architecture's
  \<open>page_index_early_map\<close> as an argument.
\<close>

fun page_index_loop :: "(addr_t \<Rightarrow> u32 \<Rightarrow> u32 \<Rightarrow> 'm \<Rightarrow> (int \<times> 'm) outcome) \<Rightarrow> nat \<Rightarrow> int option \<Rightarrow> early_state \<Rightarrow> 'm \<Rightarrow>
    (int \<times> 'm) outcome" where
  "page_index_loop early_map 0 mapping st mem = Hang"
| "page_index_loop early_map (Suc n) mapping st mem =
     (case mapping of
        None \<Rightarrow> Ret (0, mem)
      | Some i \<Rightarrow>
          let m = em_queue st ! nat i
          in obind (early_map (em_paddr m) (em_vaddr m) (em_size m) mem) (\<lambda>(ret, mem).
               if ret = EOF then Ret (EOF, mem)
               else page_index_loop early_map n (early_mapping_next mapping st) st mem))"

definition page_index_init :: "('m \<Rightarrow> 'm) \<Rightarrow> (addr_t \<Rightarrow> u32 \<Rightarrow> u32 \<Rightarrow> 'm \<Rightarrow> (int \<times> 'm) outcome) \<Rightarrow> early_state \<Rightarrow> 'm \<Rightarrow>
    (int \<times> 'm) outcome" where
  "page_index_init clear early_map st mem =
     page_index_loop early_map (em_count st + 1) (early_mapping_next None st) st (clear mem)"

section \<open>Handler queues\<close>

definition MMU_HANDLER_QUEUE_LENGTH :: nat where "MMU_HANDLER_QUEUE_LENGTH = 10"

record 'h handlers =
  h_count :: nat
  h_queue :: "'h list"

definition mmu_handlers_clear :: "'h handlers \<Rightarrow> 'h handlers" where
  "mmu_handlers_clear h = h\<lparr>h_count := 0\<rparr>"

definition mmu_handlers_add :: "'h \<Rightarrow> 'h handlers \<Rightarrow> (int \<times> 'h handlers) outcome" where
  "mmu_handlers_add entry h =
     (if h_count h > MMU_HANDLER_QUEUE_LENGTH then Panic
      else if h_count h = MMU_HANDLER_QUEUE_LENGTH then Ret (EOF, h)
      else Ret (0, h\<lparr>h_queue := (h_queue h)[h_count h := entry], h_count := h_count h + 1\<rparr>))"

text \<open>Every handler is a state transformer.\<close>

definition mmu_handlers_apply :: "('s \<Rightarrow> 's) handlers \<Rightarrow> 's \<Rightarrow> 's" where
  "mmu_handlers_apply h s = fold (\<lambda>i s. (h_queue h ! i) s) [0..<h_count h] s"

definition JUMP_HANDLER_QUEUE_LENGTH :: nat where "JUMP_HANDLER_QUEUE_LENGTH = 10"

definition jump_handlers_clear :: "'h handlers \<Rightarrow> 'h handlers" where
  "jump_handlers_clear h = h\<lparr>h_count := 0\<rparr>"

definition jump_handlers_add :: "'h \<Rightarrow> 'h handlers \<Rightarrow> (int \<times> 'h handlers) outcome" where
  "jump_handlers_add entry h =
     (if h_count h > JUMP_HANDLER_QUEUE_LENGTH then Panic
      else if h_count h = JUMP_HANDLER_QUEUE_LENGTH then Ret (EOF, h)
      else Ret (0, h\<lparr>h_queue := (h_queue h)[h_count h := entry], h_count := h_count h + 1\<rparr>))"

definition jump_handlers_apply :: "('s \<Rightarrow> 's) handlers \<Rightarrow> 's \<Rightarrow> 's" where
  "jump_handlers_apply h s = fold (\<lambda>i s. (h_queue h ! i) s) [0..<h_count h] s"

section \<open>The boot page directory of i386\<close>

definition i386_page_index_clear :: "u32 \<Rightarrow> 32 mem \<Rightarrow> 32 mem" where
  "i386_page_index_clear index mem = zero_page index mem"

text \<open>The loop over 4 MB pages; with aligned arguments 1024 rounds are enough.\<close>

fun early_map_loop :: "u32 \<Rightarrow> nat \<Rightarrow> addr_t \<Rightarrow> u32 \<Rightarrow> u32 \<Rightarrow> 32 mem \<Rightarrow> 32 mem outcome" where
  "early_map_loop index 0 pa va vend mem = Hang"
| "early_map_loop index (Suc n) pa va vend mem =
     (if va < vend then
        early_map_loop index n (pa + XPAGE_SIZE) (va + XPAGE_SIZE) vend
          (mem(cell index (i386_XPTX va) := mkxpte pa (PTE_P OR PTE_R OR PTE_S)))
      else Ret mem)"

definition i386_page_index_early_map :: "u32 \<Rightarrow> addr_t \<Rightarrow> u32 \<Rightarrow> u32 \<Rightarrow> 32 mem \<Rightarrow> (int \<times> 32 mem) outcome" where
  "i386_page_index_early_map index pa vaddr len mem =
     (if \<not> (IS_ALIGNED pa XPAGE_SIZE \<and> IS_ALIGNED vaddr XPAGE_SIZE \<and> IS_ALIGNED len XPAGE_SIZE) then Ret (-1, mem)
      else obind (early_map_loop index 1025 pa vaddr (vaddr + len) mem) (\<lambda>mem. Ret (0, mem)))"

section \<open>Memory reported by the firmware\<close>

definition E820_RAM :: u32 where "E820_RAM = 1"
definition HIGHMEM_BASE :: u64 where "HIGHMEM_BASE = 0x100000"

record e820entry =
  e_start :: u64
  e_size :: u64
  e_type :: u32

text \<open>
  \<open>probe_memory\<close>: \<open>desc.vaddr\<close> and \<open>desc.size\<close> are 32 bits wide, the sum with the 64-bit size
  is cut to 32 bits by the assignment to \<open>vaddr\<close>, and the comparisons are signed. The result
  of \<open>early_mapping_add\<close> is not looked at.
\<close>

fun probe_memory :: "e820entry list \<Rightarrow> u32 \<Rightarrow> early_state \<Rightarrow> (u32 \<times> early_state) outcome" where
  "probe_memory [] mem_size st = Ret (mem_size, st)"
| "probe_memory (e # es) mem_size st =
     (if e_type e = E820_RAM then
        let pa = ALIGN_BELOW (ucast (e_start e) :: u32) XPAGE_SIZE;
            dva = KERN_BASE + pa;
            vaddr = ucast (ALIGN_ABOVE ((ucast dva :: u64) + e_size e) XPAGE_SIZE) :: u32;
            top = (if sint KMMAP_BASE < sint vaddr then KMMAP_BASE else vaddr);
            desc = \<lparr>em_paddr = ucast pa, em_vaddr = dva, em_size = top - dva, em_type = EARLY_MAPPING_MEMORY\<rparr>
        in obind (early_mapping_add desc st) (\<lambda>(_, st).
           obind (early_mapping_add (desc\<lparr>em_vaddr := pa\<rparr>) st) (\<lambda>(_, st).
             let mem_size = max2 mem_size (ucast (e_start e) + ucast (e_size e))
             in if sint vaddr > sint KMMAP_BASE then Ret (mem_size, st) else probe_memory es mem_size st))
      else probe_memory es mem_size st)"

text \<open>
  \<open>__init_free_pages\<close> and \<open>add_memory_pages\<close>: \<open>span\<close> is 32 bits wide, and the block from
  \<open>kmalloc\<close> is used without a test. Writing through NULL is a fault.
\<close>

definition i386_init_free_pages :: "kops \<Rightarrow> addr_t \<Rightarrow> addr_t \<Rightarrow> kmem \<Rightarrow> kmem outcome" where
  "i386_init_free_pages k start end st =
     (let start = ALIGN_ABOVE start PAGE_SIZE;
          end = ALIGN_BELOW end PAGE_SIZE;
          span = (ucast (end - start) :: u32)
      in obind (k_malloc k 24 0 st) (\<lambda>(p, st).
           if p = 0 then Fault
           else p_free k \<lparr>paddr = start, psize = ucast span, pflags = 0\<rparr> st))"

fun i386_add_memory_pages :: "kops \<Rightarrow> u32 \<Rightarrow> e820entry list \<Rightarrow> kmem \<Rightarrow> kmem outcome" where
  "i386_add_memory_pages k kern_end_pa [] st = Ret st"
| "i386_add_memory_pages k kern_end_pa (e # es) st =
     (let start = e_start e
      in if start \<ge> HIGHMEM_BASE \<and> e_type e = E820_RAM then
           let end = start + e_size e
           in obind (if ucast kern_end_pa \<ge> start \<and> ucast kern_end_pa < end
                     then i386_init_free_pages k (ucast kern_end_pa) end st
                     else i386_init_free_pages k start end st)
                (i386_add_memory_pages k kern_end_pa es)
         else i386_add_memory_pages k kern_end_pa es st)"


section \<open>The queue\<close>

definition early_mappings :: "early_state \<Rightarrow> early_mapping list" where
  "early_mappings st = take (em_count st) (em_queue st)"

definition early_wf :: "early_state \<Rightarrow> bool" where
  "early_wf st \<longleftrightarrow> length (em_queue st) = EARLY_MAPPING_QUEUE_LENGTH \<and> em_count st \<le> EARLY_MAPPING_QUEUE_LENGTH"

lemma early_mapping_add_eq:
  assumes "early_wf st"
  shows "early_mapping_add e st =
    (if length (early_mappings st) = EARLY_MAPPING_QUEUE_LENGTH then Ret (EOF, st)
     else Ret (0, st\<lparr>em_queue := (em_queue st)[em_count st := e], em_count := em_count st + 1\<rparr>))"
    and "em_count st < EARLY_MAPPING_QUEUE_LENGTH \<Longrightarrow>
      early_mappings (st\<lparr>em_queue := (em_queue st)[em_count st := e], em_count := em_count st + 1\<rparr>) = early_mappings st @ [e]"
    and "em_count st < EARLY_MAPPING_QUEUE_LENGTH \<Longrightarrow>
      early_wf (st\<lparr>em_queue := (em_queue st)[em_count st := e], em_count := em_count st + 1\<rparr>)"
  using assms by (auto simp: early_wf_def early_mapping_add_def early_mappings_def take_Suc_conv_app_nth)

text \<open>A reference for the loop over the queue: a walk along a list of mappings that stops at the first error.\<close>

primrec map_all :: "(addr_t \<Rightarrow> u32 \<Rightarrow> u32 \<Rightarrow> 'm \<Rightarrow> (int \<times> 'm) outcome) \<Rightarrow> early_mapping list \<Rightarrow> 'm \<Rightarrow> (int \<times> 'm) outcome" where
  "map_all f [] mem = Ret (0, mem)"
| "map_all f (m # ms) mem =
     obind (f (em_paddr m) (em_vaddr m) (em_size m) mem) (\<lambda>(ret, mem). if ret = EOF then Ret (EOF, mem) else map_all f ms mem)"

lemma page_index_loop_from:
  assumes "early_wf st" and "i \<le> em_count st" and "em_count st - i < n"
    and "p = (if i < em_count st then Some (int i) else None)"
  shows "page_index_loop f n p st mem = map_all f (drop i (early_mappings st)) mem"
  using assms(2-)
proof (induction n arbitrary: i mem p)
  case (Suc n)
  show ?case
  proof (cases "i < em_count st")
    case True
    then have nth: "drop i (early_mappings st) = em_queue st ! i # drop (Suc i) (early_mappings st)"
      using assms(1) by (simp add: early_mappings_def early_wf_def Cons_nth_drop_Suc [symmetric])
    have "early_mapping_next (Some (int i)) st = (if Suc i < em_count st then Some (int (Suc i)) else None)"
      by (auto simp: early_mapping_next_def)
    then have "page_index_loop f n (early_mapping_next (Some (int i)) st) st m = map_all f (drop (Suc i) (early_mappings st)) m" for m
      using Suc.prems True by (intro Suc.IH) auto
    then show ?thesis using True Suc.prems(3) by (simp add: nth Let_def cong: if_cong)
  next
    case False
    then have "drop i (early_mappings st) = []" by (simp add: early_mappings_def)
    then show ?thesis using False Suc.prems(3) by simp
  qed
qed simp

text \<open>
  \<open>page_index_init\<close> visits exactly the mappings that were added, in the order in which
  they were added, and ends: the loop over \<open>early_mapping_next\<close> is a walk along the list of
  registered mappings after clearing the page index, stopping at the first \<open>EOF\<close>. Adding a
  mapping appends it to that list, until ten mappings are registered and \<open>EOF\<close> is returned.
\<close>

theorem page_index_init_visits:
  assumes "early_wf st"
  shows "page_index_init clear f st mem = map_all f (early_mappings st) (clear mem) \<and>
    (if length (early_mappings st) < 10
     then \<exists>st'. early_mapping_add e st = Ret (0, st') \<and> early_wf st' \<and> early_mappings st' = early_mappings st @ [e]
     else early_mapping_add e st = Ret (EOF, st))"
proof -
  have len: "length (early_mappings st) = em_count st" using assms by (simp add: early_mappings_def early_wf_def)
  have "early_mapping_next None st = (if 0 < em_count st then Some (int 0) else None)"
    by (simp add: early_mapping_next_def)
  then have "page_index_init clear f st mem = map_all f (early_mappings st) (clear mem)"
    using page_index_loop_from [OF assms, of 0 "em_count st + 1" "early_mapping_next None st" f "clear mem"]
    by (simp add: page_index_init_def)
  moreover have "em_count st \<le> 10" using assms by (simp add: early_wf_def EARLY_MAPPING_QUEUE_LENGTH_def)
  ultimately show ?thesis
    using early_mapping_add_eq [OF assms, of e] len by (auto simp: EARLY_MAPPING_QUEUE_LENGTH_def)
qed

definition example_early :: early_state where
  "example_early = early_mapping_clear
     \<lparr>em_count = 7, em_queue = replicate 10 \<lparr>em_paddr = 0, em_vaddr = 0, em_size = 0, em_type = 0\<rparr>, mem_top = 0, kmmap_top = 0\<rparr>"

theorem page_index_init_visits_witness:
  "\<exists>st'. early_mapping_add \<lparr>em_paddr = 0, em_vaddr = 0x80000000, em_size = 0x400000, em_type = 0\<rparr> example_early = Ret (0, st') \<and>
    early_mappings st' = [\<lparr>em_paddr = 0, em_vaddr = 0x80000000, em_size = 0x400000, em_type = 0\<rparr>]"
proof -
  have "early_wf example_early" "early_mappings example_early = []"
    by (simp_all add: example_early_def early_mapping_clear_def early_wf_def early_mappings_def EARLY_MAPPING_QUEUE_LENGTH_def)
  with page_index_init_visits [of example_early] show ?thesis by force
qed

section \<open>Registering memory\<close>

text \<open>
  The calls of early initialisation code as a step relation: \<open>early_mapping_add_memory\<close>,
  \<open>early_mapping_add_kmmap\<close>, and \<open>early_mapping_add\<close> with one of the mappings of \<open>direct\<close>. The ARM build
  registers one mapping of type \<open>EARLY_MAPPING_TEMP\<close> directly, the MIPS builds none, and
  \<open>probe_memory\<close> of i386 every range of memory twice.
\<close>

inductive early_step :: "(early_mapping \<Rightarrow> bool) \<Rightarrow> early_state \<Rightarrow> early_state \<Rightarrow> bool" for direct where
  memory: "early_mapping_add_memory base sz st = Ret (r, st') \<Longrightarrow> early_step direct st st'"
| kmmap: "early_mapping_add_kmmap base sz st = Ret (r, st') \<Longrightarrow> early_step direct st st'"
| add: "direct entry \<Longrightarrow> early_mapping_add entry st = Ret (ret, st') \<Longrightarrow> early_step direct st st'"

inductive early_reach :: "(early_mapping \<Rightarrow> bool) \<Rightarrow> early_state \<Rightarrow> bool" for direct where
  start: "length (em_queue st) = EARLY_MAPPING_QUEUE_LENGTH \<Longrightarrow> early_reach direct (early_mapping_clear st)"
| step: "early_reach direct st \<Longrightarrow> early_step direct st st' \<Longrightarrow> early_reach direct st'"

inductive_cases early_stepE: "early_step direct st st'"

definition arm_direct :: "early_mapping \<Rightarrow> bool" where
  "arm_direct m \<longleftrightarrow> em_type m = EARLY_MAPPING_TEMP \<and> em_vaddr m = ucast (em_paddr m)"

definition i386_direct :: "early_mapping \<Rightarrow> bool" where
  "i386_direct m \<longleftrightarrow> em_type m = EARLY_MAPPING_MEMORY \<and>
     (em_vaddr m = ucast (em_paddr m) \<or> em_vaddr m = KERN_BASE + ucast (em_paddr m))"

definition memory_ranges :: "early_state \<Rightarrow> (nat \<times> nat) list" where
  "memory_ranges st = map (\<lambda>m. (unat (em_vaddr m), unat (em_size m)))
     (filter (\<lambda>m. em_type m = EARLY_MAPPING_MEMORY) (early_mappings st))"

definition memory_inv :: "early_state \<Rightarrow> bool" where
  "memory_inv st \<longleftrightarrow> early_wf st \<and> unat KERN_BASE \<le> unat (mem_top st) \<and> unat (mem_top st) \<le> unat KMMAP_BASE \<and>
     (\<forall>r \<in> set (memory_ranges st). unat KERN_BASE \<le> fst r \<and> fst r + snd r \<le> unat (mem_top st)) \<and>
     sorted_wrt (\<lambda>r q. fst r + snd r \<le> fst q) (memory_ranges st)"

lemma memory_inv_add_memory:
  assumes inv: "memory_inv st" and add: "early_mapping_add_memory base sz st = Ret (r, st')"
  shows "memory_inv st'"
proof (cases "mem_top st \<ge> KMMAP_BASE")
  case True
  then show ?thesis using add inv by (simp add: early_mapping_add_memory_def)
next
  case False
  define s where "s = (if sz > KMMAP_BASE - mem_top st then KMMAP_BASE - mem_top st else sz)"
  define e where "e = \<lparr>em_paddr = base, em_vaddr = mem_top st, em_size = s, em_type = EARLY_MAPPING_MEMORY\<rparr>"
  have wf: "early_wf st" and lo: "unat KERN_BASE \<le> unat (mem_top st)" using inv by (simp_all add: memory_inv_def)
  have "unat (KMMAP_BASE - mem_top st) = unat KMMAP_BASE - unat (mem_top st)" using False by (simp add: unat_sub_le)
  then have "unat s \<le> unat KMMAP_BASE - unat (mem_top st)" by (auto simp: s_def word_less_nat_alt)
  moreover have "unat (mem_top st) \<le> unat KMMAP_BASE" using inv by (simp add: memory_inv_def)
  ultimately have s: "unat (mem_top st) + unat s \<le> unat KMMAP_BASE" by simp
  then have top: "unat (mem_top st + s) = unat (mem_top st) + unat s"
    using unat_bound [of KMMAP_BASE] by (intro unat_add_no_overflow) simp
  show ?thesis
  proof (cases "em_count st < EARLY_MAPPING_QUEUE_LENGTH")
    case True
    define st1 where "st1 = st\<lparr>em_queue := (em_queue st)[em_count st := e], em_count := em_count st + 1\<rparr>"
    have m: "early_mappings st1 = early_mappings st @ [e]" "early_wf st1"
      using early_mapping_add_eq(2,3) [OF wf True, of e] by (simp_all add: st1_def)
    have "st' = st1\<lparr>mem_top := mem_top st + s\<rparr>"
      using add False True by (auto simp: early_mapping_add_memory_def early_mapping_add_def Let_def s_def e_def st1_def)
    moreover have "memory_ranges (st1\<lparr>mem_top := mem_top st + s\<rparr>) = memory_ranges st @ [(unat (mem_top st), unat s)]"
      using m(1) by (simp add: memory_ranges_def e_def early_mappings_def)
    ultimately show ?thesis
      using inv m(2) top s lo by (auto simp: memory_inv_def sorted_wrt_append early_wf_def)
  next
    case no: False
    then have "st' = st"
      using add False wf by (auto simp: early_mapping_add_memory_def early_mapping_add_def Let_def EOF_def early_wf_def)
    then show ?thesis using inv by simp
  qed
qed

lemma memory_inv_add_kmmap:
  assumes inv: "memory_inv st" and add: "early_mapping_add_kmmap base sz st = Ret (r, st')"
  shows "memory_inv st'"
proof -
  define e where "e = \<lparr>em_paddr = base, em_vaddr = kmmap_top st, em_size = sz, em_type = EARLY_MAPPING_KMMAP\<rparr>"
  have wf: "early_wf st" using inv by (simp add: memory_inv_def)
  have "st' = st \<or> em_count st < EARLY_MAPPING_QUEUE_LENGTH \<and>
    st' = st\<lparr>em_queue := (em_queue st)[em_count st := e], em_count := em_count st + 1, kmmap_top := kmmap_top st + sz\<rparr>"
  proof (cases "kmmap_top st \<ge> RESERVED_BASE \<or> em_count st = EARLY_MAPPING_QUEUE_LENGTH")
    case True
    then show ?thesis using add
      by (elim disjE) (simp_all add: early_mapping_add_kmmap_def early_mapping_add_def EOF_def split: if_splits)
  next
    case False
    then have "em_count st < EARLY_MAPPING_QUEUE_LENGTH" using wf by (simp add: early_wf_def)
    then show ?thesis using add False
      by (simp add: early_mapping_add_kmmap_def early_mapping_add_def Let_def e_def) metis
  qed
  then consider "st' = st" | "em_count st < EARLY_MAPPING_QUEUE_LENGTH"
    "st' = st\<lparr>em_queue := (em_queue st)[em_count st := e], em_count := em_count st + 1, kmmap_top := kmmap_top st + sz\<rparr>"
    by blast
  then show ?thesis
  proof cases
    case 2
    have "early_mappings st' = early_mappings st @ [e]" "early_wf st'" "mem_top st' = mem_top st"
      using early_mapping_add_eq(2,3) [OF wf 2(1), of e] 2(2) by (simp_all add: early_mappings_def early_wf_def)
    then show ?thesis
      using inv by (simp add: memory_inv_def memory_ranges_def e_def EARLY_MAPPING_KMMAP_def EARLY_MAPPING_MEMORY_def)
  qed (use inv in simp)
qed

text \<open>Every state keeps the queue well-formed; without direct calls for memory it keeps \<open>memory_inv\<close>.\<close>

lemma early_mapping_add_wf:
  assumes "early_wf st" and "early_mapping_add e st = Ret (r, st')"
  shows "early_wf st' \<and> mem_top st' = mem_top st \<and> (early_mappings st' = early_mappings st \<or> early_mappings st' = early_mappings st @ [e])"
  using assms early_mapping_add_eq(2,3) [OF assms(1), of e]
  by (auto simp: early_mapping_add_def early_wf_def split: if_splits)

lemma early_wf_other [simp]:
  "early_wf (st\<lparr>mem_top := a\<rparr>) = early_wf st" "early_wf (st\<lparr>kmmap_top := a\<rparr>) = early_wf st"
  by (simp_all add: early_wf_def)

lemma early_add_memory_wf:
  "early_wf st \<Longrightarrow> early_mapping_add_memory base sz st = Ret (r, st') \<Longrightarrow> early_wf st'"
  by (auto simp: early_mapping_add_memory_def Let_def obind_Ret_conv dest: early_mapping_add_wf split: if_splits prod.splits)

lemma early_add_kmmap_wf:
  "early_wf st \<Longrightarrow> early_mapping_add_kmmap base sz st = Ret (r, st') \<Longrightarrow> early_wf st'"
  by (auto simp: early_mapping_add_kmmap_def Let_def obind_Ret_conv dest: early_mapping_add_wf split: if_splits prod.splits)

lemma early_reach_wf: "early_reach direct st \<Longrightarrow> early_wf st"
proof (induction rule: early_reach.induct)
  case (start st)
  then show ?case by (simp add: early_wf_def early_mapping_clear_def)
next
  case (step st st')
  then show ?case using early_mapping_add_wf early_add_memory_wf early_add_kmmap_wf by (blast elim: early_stepE)
qed

lemma memory_inv_add:
  assumes "memory_inv st" and "early_mapping_add e st = Ret (r, st')" and "em_type e \<noteq> EARLY_MAPPING_MEMORY"
  shows "memory_inv st'"
proof -
  have "early_wf st" using assms(1) by (simp add: memory_inv_def)
  note e = early_mapping_add_wf [OF this assms(2)]
  then have "memory_ranges st' = memory_ranges st" using assms(3) by (auto simp: memory_ranges_def)
  then show ?thesis using assms(1) e by (simp add: memory_inv_def)
qed

lemma early_reach_memory_inv:
  assumes "early_reach direct st" and "\<forall>e. direct e \<longrightarrow> em_type e \<noteq> EARLY_MAPPING_MEMORY"
  shows "memory_inv st"
  using assms(1)
proof (induction rule: early_reach.induct)
  case (start st)
  then show ?case
    by (simp add: memory_inv_def early_mapping_clear_def early_wf_def memory_ranges_def early_mappings_def KERN_BASE_def
        KMMAP_BASE_def)
next
  case (step st st')
  from step.hyps(2) show ?case
    using memory_inv_add_memory [OF step.IH] memory_inv_add_kmmap [OF step.IH] memory_inv_add [OF step.IH] assms(2)
    by (auto elim: early_stepE)
qed

text \<open>\<open>probe_memory\<close> always returns, and everything it registers is at its physical address or at \<open>KERN_BASE\<close> above it.\<close>

definition i386_probed :: "early_state \<Rightarrow> bool" where
  "i386_probed st \<longleftrightarrow> early_reach i386_direct st \<and> (\<forall>m \<in> set (early_mappings st). i386_direct m)"

lemma i386_probed_add:
  assumes "i386_probed st" and "i386_direct e"
  shows "\<exists>r st'. early_mapping_add e st = Ret (r, st') \<and> i386_probed st'"
proof -
  have wf: "early_wf st" using assms(1) early_reach_wf by (auto simp: i386_probed_def)
  then obtain r st' where a: "early_mapping_add e st = Ret (r, st')"
    by (cases "em_count st = EARLY_MAPPING_QUEUE_LENGTH") (auto simp: early_mapping_add_def early_wf_def)
  have "early_reach i386_direct st'"
    using assms a by (auto simp: i386_probed_def intro: early_reach.step early_step.add)
  then show ?thesis using early_mapping_add_wf [OF wf a] assms a by (auto simp: i386_probed_def)
qed

lemma probe_memory_probed:
  assumes "i386_probed st"
  shows "\<exists>mem_size' st'. probe_memory es mem_size st = Ret (mem_size', st') \<and> i386_probed st'"
  using assms
proof (induction es arbitrary: mem_size st)
  case (Cons e es)
  define pa where "pa = ALIGN_BELOW (ucast (e_start e) :: u32) XPAGE_SIZE"
  define vaddr where "vaddr = (ucast (ALIGN_ABOVE ((ucast (KERN_BASE + pa) :: u64) + e_size e) XPAGE_SIZE) :: u32)"
  define d where "d = \<lparr>em_paddr = ucast pa, em_vaddr = KERN_BASE + pa,
    em_size = (if sint KMMAP_BASE < sint vaddr then KMMAP_BASE else vaddr) - (KERN_BASE + pa), em_type = EARLY_MAPPING_MEMORY\<rparr>"
  have "(ucast (ucast pa :: u64) :: u32) = pa" by (rule bit_word_eqI) (auto simp: bit_simps)
  then have d: "i386_direct d" "i386_direct (d\<lparr>em_vaddr := pa\<rparr>)" by (simp_all add: i386_direct_def d_def)
  obtain r1 st1 where st1: "early_mapping_add d st = Ret (r1, st1)" "i386_probed st1"
    using i386_probed_add [OF Cons.prems d(1)] by blast
  obtain r2 st2 where st2: "early_mapping_add (d\<lparr>em_vaddr := pa\<rparr>) st1 = Ret (r2, st2)" "i386_probed st2"
    using i386_probed_add [OF st1(2) d(2)] by blast
  show ?case
  proof (cases "e_type e = E820_RAM")
    case True
    have "probe_memory (e # es) mem_size st = (let mem_size = max2 mem_size (ucast (e_start e) + ucast (e_size e))
        in if sint vaddr > sint KMMAP_BASE then Ret (mem_size, st2) else probe_memory es mem_size st2)"
      using True st1(1) st2(1)
      by (cases "sint KMMAP_BASE < sint vaddr") (simp_all add: pa_def [symmetric] vaddr_def [symmetric] Let_def d_def)
    then show ?thesis using Cons.IH [OF st2(2)] st2(2) by (simp add: Let_def)
  next
    case False
    then show ?thesis using Cons.IH [OF Cons.prems] by simp
  qed
qed simp

text \<open>The map of a machine with 128 MB: both halves overlap themselves, since the ranges are widened to 4 MB.\<close>

lemma probe_memory_run:
  "case probe_memory [\<lparr>e_start = 0, e_size = 0x9fc00, e_type = E820_RAM\<rparr>, \<lparr>e_start = 0x9fc00, e_size = 0x60400, e_type = 2\<rparr>,
       \<lparr>e_start = 0x100000, e_size = 0x7f00000, e_type = E820_RAM\<rparr>] 0 example_early of
     Ret (mem_size, st) \<Rightarrow> mem_size = 0x8000000 \<and>
       map (\<lambda>m. (em_paddr m, em_vaddr m, em_size m)) (early_mappings st) =
         [(0, 0x80000000, 0x400000), (0, 0, 0x400000), (0, 0x80000000, 0x8000000), (0, 0, 0x8000000)]
   | _ \<Rightarrow> False"
  by code_simp

text \<open>
  C15: early initialisation registers at most ten mappings, whatever it asks for. On ARM and MIPS,
  where no mapping of memory is registered by a direct call of \<open>early_mapping_add\<close>, every state that
  it reaches has memory mappings that are pairwise disjoint, in ascending order, and between the
  kernel base and the dynamic mapping area, which they never enter, whatever sizes are asked
  for. On i386, where \<open>probe_memory\<close> registers memory by direct calls, this does not hold (each
  range is registered at \<open>KERN_BASE\<close> above its physical address and then at that address itself);
  there \<open>probe_memory\<close> returns for every map of the firmware, and every mapping that it leaves is
  at one of these two addresses, so that two mappings in the same half never disagree.
\<close>

theorem early_memory_mappings_disjoint:
  "(early_reach direct st \<longrightarrow> length (early_mappings st) \<le> 10 \<and>
     ((\<forall>e. direct e \<longrightarrow> em_type e \<noteq> EARLY_MAPPING_MEMORY) \<longrightarrow>
       (\<forall>r \<in> set (memory_ranges st). unat KERN_BASE \<le> fst r \<and> fst r + snd r \<le> unat KMMAP_BASE) \<and>
       sorted_wrt (\<lambda>r q. fst r + snd r \<le> fst q) (memory_ranges st))) \<and>
   (early_wf st \<longrightarrow> (\<exists>mem_size' st'. probe_memory es mem_size (early_mapping_clear st) = Ret (mem_size', st') \<and>
     length (early_mappings st') \<le> 10 \<and> (\<forall>m \<in> set (early_mappings st'). em_type m = EARLY_MAPPING_MEMORY \<and>
       (em_vaddr m = ucast (em_paddr m) \<or> em_vaddr m = KERN_BASE + ucast (em_paddr m)))))"
proof -
  have ten: "length (early_mappings st) \<le> 10" if "early_wf st" for st
    using that by (simp add: early_mappings_def early_wf_def EARLY_MAPPING_QUEUE_LENGTH_def)
  have "length (early_mappings st) \<le> 10" if "early_reach direct st" using ten early_reach_wf [OF that] .
  moreover have "(\<forall>r \<in> set (memory_ranges st). unat KERN_BASE \<le> fst r \<and> fst r + snd r \<le> unat KMMAP_BASE) \<and>
      sorted_wrt (\<lambda>r q. fst r + snd r \<le> fst q) (memory_ranges st)"
    if "early_reach direct st" and "\<forall>e. direct e \<longrightarrow> em_type e \<noteq> EARLY_MAPPING_MEMORY"
    using early_reach_memory_inv [OF that] by (force simp: memory_inv_def)
  moreover have "\<exists>mem_size' st'. probe_memory es mem_size (early_mapping_clear st) = Ret (mem_size', st') \<and>
     length (early_mappings st') \<le> 10 \<and> (\<forall>m \<in> set (early_mappings st'). em_type m = EARLY_MAPPING_MEMORY \<and>
       (em_vaddr m = ucast (em_paddr m) \<or> em_vaddr m = KERN_BASE + ucast (em_paddr m)))" if "early_wf st"
  proof -
    have "early_reach i386_direct (early_mapping_clear st)" using that by (auto simp: early_wf_def intro: early_reach.start)
    then have "i386_probed (early_mapping_clear st)" by (simp add: i386_probed_def early_mappings_def early_mapping_clear_def)
    then obtain m st' where "probe_memory es mem_size (early_mapping_clear st) = Ret (m, st')" "i386_probed st'"
      using probe_memory_probed by blast
    then show ?thesis using ten early_reach_wf by (auto simp: i386_probed_def i386_direct_def)
  qed
  ultimately show ?thesis by blast
qed

theorem early_memory_mappings_disjoint_witness:
  "\<exists>st1 st. early_mapping_add \<lparr>em_paddr = 0x100000, em_vaddr = 0x100000, em_size = 0x400000, em_type = EARLY_MAPPING_TEMP\<rparr> example_early
      = Ret (0, st1) \<and>
    early_mapping_add_memory 0 0xFFFFFFFF st1 = Ret (0x70000000, st) \<and> memory_ranges st = [(0x80000000, 0x70000000)] \<and>
    (\<forall>r \<in> set (memory_ranges st). fst r + snd r \<le> unat KMMAP_BASE)"
proof -
  have r: "replicate 10 x = x # x # replicate 8 x" for x :: early_mapping by (simp add: numeral_eq_Suc)
  let ?e = "\<lparr>em_paddr = 0x100000, em_vaddr = 0x100000, em_size = 0x400000, em_type = EARLY_MAPPING_TEMP\<rparr> :: early_mapping"
  obtain st1 st where st1: "early_mapping_add ?e example_early = Ret (0, st1)"
    and st: "early_mapping_add_memory 0 0xFFFFFFFF st1 = Ret (0x70000000, st)" "memory_ranges st = [(0x80000000, 0x70000000)]"
    by (simp add: early_mapping_add_memory_def early_mapping_add_def example_early_def early_mapping_clear_def
        KMMAP_BASE_def KERN_BASE_def EARLY_MAPPING_QUEUE_LENGTH_def memory_ranges_def early_mappings_def Let_def
        EARLY_MAPPING_MEMORY_def EARLY_MAPPING_TEMP_def r)
  have "arm_direct ?e" by (simp add: arm_direct_def)
  moreover have "early_reach arm_direct example_early"
    unfolding example_early_def by (rule early_reach.start) (simp add: EARLY_MAPPING_QUEUE_LENGTH_def)
  ultimately have "early_reach arm_direct st"
    using st1 st(1) by (blast intro: early_reach.step early_step.memory early_step.add)
  moreover have "\<forall>e. arm_direct e \<longrightarrow> em_type e \<noteq> EARLY_MAPPING_MEMORY"
    by (simp add: arm_direct_def EARLY_MAPPING_TEMP_def EARLY_MAPPING_MEMORY_def)
  ultimately show ?thesis using early_memory_mappings_disjoint [of arm_direct st] st1 st by blast
qed

section \<open>What the early map does\<close>

text \<open>The translation of an address by a present 4 MB page of the directory.\<close>

definition i386_big_walk :: "u32 \<Rightarrow> 32 mem \<Rightarrow> u32 \<Rightarrow> u32 option" where
  "i386_big_walk index mem va =
     (let e = mem (cell index (drop_bit 22 va))
      in if e AND PTE_P \<noteq> 0 \<and> e AND PTE_S \<noteq> 0 then Some (ALIGN_BELOW e XPAGE_SIZE + (va AND mask 22)) else None)"

lemma XPAGE_SIZE_eq: "XPAGE_SIZE = (2 ^ 22 :: 'w :: len word)"
  by (simp add: XPAGE_SIZE_def XPAGE_SHIFT_def push_bit_eq_mult)

lemma mkxpte_parts:
  assumes "2 ^ 22 dvd unat pa"
  shows "mkxpte pa (PTE_P OR PTE_R OR PTE_S) AND PTE_P \<noteq> 0" "mkxpte pa (PTE_P OR PTE_R OR PTE_S) AND PTE_S \<noteq> 0"
    "ALIGN_BELOW (mkxpte pa (PTE_P OR PTE_R OR PTE_S)) XPAGE_SIZE = ucast pa"
proof -
  have f: "PTE_P OR PTE_R OR PTE_S = 0x83" by (simp add: PTE_P_def PTE_R_def PTE_S_def)
  have "unat pa div 2 ^ 22 * 2 ^ 22 = unat pa" using assms by (simp only: dvd_div_mult_self)
  then have "unat (ALIGN_BELOW pa (2 ^ 22)) = unat pa" by (simp only: unat_align_below)
  then have ab: "ALIGN_BELOW pa (2 ^ 22) = pa" by (simp only: word_unat_eq_iff)
  have "unat pa mod 2 ^ 22 = 0" using assms by (simp only: dvd_imp_mod_0)
  then have low: "pa AND mask 22 = 0" by (metis unat_and_mask unat_eq_0)
  have lb: "\<not> bit pa i" if "i < 22" for i
    using arg_cong [OF low, of "\<lambda>x. bit x i"] that by (simp add: bit_simps)
  have e: "mkxpte pa 0x83 = ucast pa OR 0x83"
    unfolding mkxpte_def XPAGE_SIZE_eq ab by (rule bit_word_eqI) (simp add: bit_simps)
  have c: "(0x83 :: u32) = 1 OR 2 OR 128" "(128 :: u32) = push_bit 7 1" "(2 :: u32) = push_bit 1 1" by simp_all
  have b: "bit (0x83 :: u32) n \<longleftrightarrow> n = 0 \<or> n = 1 \<or> n = 7" for n
    unfolding c(1) bit_or_iff unfolding c(2,3) by (simp only: bit_push_bit_iff bit_1_iff) auto
  have "bit (mkxpte pa 0x83 AND 1) 0" "bit (mkxpte pa 0x83 AND 0x80) 7"
    using b [of 0] b [of 7] unfolding e bit_and_iff bit_or_iff by simp_all
  then have "mkxpte pa 0x83 AND 1 \<noteq> 0" "mkxpte pa 0x83 AND 0x80 \<noteq> 0" by auto
  then show "mkxpte pa (PTE_P OR PTE_R OR PTE_S) AND PTE_P \<noteq> 0" "mkxpte pa (PTE_P OR PTE_R OR PTE_S) AND PTE_S \<noteq> 0"
    by (simp_all only: f) (simp_all add: PTE_P_def PTE_S_def)
  have "bit (ALIGN_BELOW (mkxpte pa 0x83) (2 ^ 22)) n = bit (ucast pa :: u32) n" if "n < 32" for n
    unfolding e ALIGN_BELOW_def align_mask_pow2 bit_and_iff bit_or_iff bit_not_iff bit_mask_iff bit_ucast_iff
    using lb [of n] b [of n] that by (cases "n < 22") simp_all
  then have "ALIGN_BELOW (mkxpte pa 0x83) (2 ^ 22) = ucast pa" by (intro bit_word_eqI) simp
  then show "ALIGN_BELOW (mkxpte pa (PTE_P OR PTE_R OR PTE_S)) XPAGE_SIZE = ucast pa"
    by (simp only: f XPAGE_SIZE_eq)
qed


definition big_flags :: u32 where
  "big_flags = PTE_P OR PTE_R OR PTE_S"

lemma unat_XPTX: "unat (i386_XPTX va) = unat va div 2 ^ 22"
  unfolding i386_XPTX_def XPAGE_SHIFT_def unat_drop_bit_eq by (simp add: drop_bit_eq_div)

lemma early_map_loop_maps:
  assumes "4096 dvd unat index" and "2 ^ 22 dvd unat va" and "unat va + n * 2 ^ 22 < 2 ^ 32" and "unat vend = unat va + n * 2 ^ 22" and "n < fuel"
  shows "\<exists>mem'. early_map_loop index fuel pa va vend mem = Ret mem' \<and>
    (\<forall>i < 1024. mem' (cell index i) = (if unat va div 2 ^ 22 \<le> unat i \<and> unat i < unat va div 2 ^ 22 + n
      then mkxpte (pa + of_nat ((unat i - unat va div 2 ^ 22) * 2 ^ 22)) big_flags else mem (cell index i)))"
  using assms(2-)
proof (induction n arbitrary: fuel va pa mem)
  case 0
  then show ?case by (cases fuel) (auto simp: word_less_nat_alt)
next
  case (Suc n)
  obtain f where f: "fuel = Suc f" using Suc.prems(4) by (cases fuel) auto
  have lt: "va < vend" using Suc.prems(3) by (simp add: word_less_nat_alt)
  obtain k where k: "unat va = 2 ^ 22 * k" using Suc.prems(1) by blast
  have x: "unat (i386_XPTX va) = k" by (simp add: unat_XPTX k)
  have up: "unat (va + XPAGE_SIZE) = unat va + 2 ^ 22"
    unfolding XPAGE_SIZE_eq using Suc.prems(2) by (subst unat_add_no_overflow) simp_all
  have k4: "k < 1024" using Suc.prems(2) k by simp
  let ?mem = "mem(cell index (i386_XPTX va) := mkxpte pa big_flags)"
  have p1: "2 ^ 22 dvd unat (va + XPAGE_SIZE)" unfolding up using Suc.prems(1) by simp
  have p2: "unat (va + XPAGE_SIZE) + n * 2 ^ 22 < 2 ^ 32" "unat vend = unat (va + XPAGE_SIZE) + n * 2 ^ 22" "n < f"
    using Suc.prems f up by simp_all
  have k1: "unat (va + XPAGE_SIZE) div 2 ^ 22 = Suc k" unfolding up k by simp
  obtain mem' where m: "early_map_loop index f (pa + XPAGE_SIZE) (va + XPAGE_SIZE) vend ?mem = Ret mem'"
    "\<forall>i < 1024. mem' (cell index i) = (if Suc k \<le> unat i \<and> unat i < Suc k + n
      then mkxpte (pa + XPAGE_SIZE + of_nat ((unat i - Suc k) * 2 ^ 22)) big_flags else ?mem (cell index i))"
    using Suc.IH [OF p1 p2, of "pa + XPAGE_SIZE" ?mem] unfolding k1 by blast
  have "mem' (cell index i) = (if k \<le> unat i \<and> unat i < k + Suc n
      then mkxpte (pa + of_nat ((unat i - k) * 2 ^ 22)) big_flags else mem (cell index i))" if i: "i < 1024" for i
  proof -
    have c: "cell index i = cell index (i386_XPTX va) \<longleftrightarrow> i = i386_XPTX va"
      using cell_inj [OF in_table_i386 [OF assms(1) i] in_table_i386 [OF assms(1)], of "i386_XPTX va"] k4 x
      by (auto simp: word_less_nat_alt)
    have iv: "i = i386_XPTX va \<longleftrightarrow> unat i = k" using x by (auto simp: word_unat_eq_iff)
    show ?thesis
    proof (cases "unat i \<le> k")
      case True
      then show ?thesis using m(2) i c iv by auto
    next
      case False
      then have "unat i - k = Suc (unat i - Suc k)" by simp
      then have e: "pa + XPAGE_SIZE + of_nat ((unat i - Suc k) * 2 ^ 22) = pa + of_nat ((unat i - k) * 2 ^ 22)"
        by (simp add: XPAGE_SIZE_eq algebra_simps)
      show ?thesis unfolding m(2) [rule_format, OF i] e using False c iv by simp
    qed
  qed
  then show ?case using f lt m(1) by (simp add: k big_flags_def)
qed

lemma ucast_add_of_nat: "(ucast ((pa :: u64) + of_nat j) :: u32) = ucast pa + of_nat j"
proof -
  have "(ucast (pa + of_nat j) :: u32) = of_nat (unat (pa + of_nat j))" by simp
  also have "\<dots> = of_nat (unat pa + j)"
    unfolding word_of_nat_eq_iff unat_word_ariths unat_of_nat take_bit_eq_mod
    by (simp add: mod_mod_cancel mod_simps)
  finally show ?thesis by simp
qed

lemma big_page_address:
  assumes pa: "2 ^ 22 dvd unat (pa :: u64)" and va: "unat (va :: u32) = 2 ^ 22 * k" and le: "k \<le> unat (w :: u32) div 2 ^ 22"
  defines "e \<equiv> mkxpte (pa + of_nat ((unat w div 2 ^ 22 - k) * 2 ^ 22)) (PTE_P OR PTE_R OR PTE_S)"
  shows "(e AND PTE_P \<noteq> 0) = True" and "(e AND PTE_S \<noteq> 0) = True" and "ALIGN_BELOW e XPAGE_SIZE + (w AND mask 22) = ucast pa + (w - va)"
proof -
  define J where "J = (unat w div 2 ^ 22 - k) * 2 ^ 22"
  have "unat (pa + of_nat J) = (unat pa + J) mod 2 ^ 64" by (simp add: unat_word_ariths unat_of_nat mod_simps)
  moreover have "2 ^ 22 dvd (unat pa + J) mod 2 ^ 64"
    by (rule dvd_mod) (use pa in \<open>simp_all add: J_def\<close>)
  ultimately have d: "2 ^ 22 dvd unat (pa + of_nat J)" by simp
  show "(e AND PTE_P \<noteq> 0) = True" "(e AND PTE_S \<noteq> 0) = True"
    using mkxpte_parts(1,2) [OF d] by (simp_all add: e_def J_def)
  have a: "ALIGN_BELOW e XPAGE_SIZE = ucast pa + of_nat J"
    unfolding e_def J_def [symmetric] mkxpte_parts(3) [OF d] ucast_add_of_nat ..
  have "unat va \<le> unat w" using va le by (simp add: less_eq_div_iff_mult_less_eq algebra_simps)
  then have "w - va = of_nat (unat w - unat va)" by (simp add: of_nat_diff)
  also have "unat w - unat va = J + unat w mod 2 ^ 22"
    unfolding va J_def using le div_mult_mod_eq [of "unat w" "2 ^ 22"] by (simp add: algebra_simps diff_mult_distrib)
  finally have "w - va = of_nat J + of_nat (unat w mod 2 ^ 22)" by simp
  moreover have "w AND mask 22 = of_nat (unat w mod 2 ^ 22)" by (simp only: unat_and_mask [symmetric]) simp
  ultimately show "ALIGN_BELOW e XPAGE_SIZE + (w AND mask 22) = ucast pa + (w - va)" by (simp add: a)
qed

text \<open>
  C14: the early map of i386: with arguments aligned to 4 MB and a range that ends below 4 GB,
  \<open>page_index_early_map\<close> returns 0, the processor then translates every address of the range
  to the physical address at the same distance from the start, and every other address as
  before. With arguments that are not aligned it returns -1 and changes nothing.
\<close>

theorem i386_early_map_translates:
  assumes "4096 dvd unat index"
  shows "(if IS_ALIGNED pa XPAGE_SIZE \<and> IS_ALIGNED va XPAGE_SIZE \<and> IS_ALIGNED len XPAGE_SIZE
    then unat va + unat len < 2 ^ 32 \<longrightarrow> (\<exists>mem'. i386_page_index_early_map index pa va len mem = Ret (0, mem') \<and>
      (\<forall>w. i386_big_walk index mem' w = (if va \<le> w \<and> w < va + len then Some (ucast pa + (w - va)) else i386_big_walk index mem w)))
    else i386_page_index_early_map index pa va len mem = Ret (-1, mem))"
proof (cases "IS_ALIGNED pa XPAGE_SIZE \<and> IS_ALIGNED va XPAGE_SIZE \<and> IS_ALIGNED len XPAGE_SIZE")
  case False
  then show ?thesis unfolding if_not_P [OF False] i386_page_index_early_map_def by (simp only: simp_thms if_True)
next
  case True
  have "\<exists>mem'. i386_page_index_early_map index pa va len mem = Ret (0, mem') \<and>
      (\<forall>w. i386_big_walk index mem' w = (if va \<le> w \<and> w < va + len then Some (ucast pa + (w - va)) else i386_big_walk index mem w))"
    if bound: "unat va + unat len < 2 ^ 32"
  proof -
    have al: "2 ^ 22 dvd unat pa" "2 ^ 22 dvd unat va" "2 ^ 22 dvd unat len"
      using True unfolding XPAGE_SIZE_eq is_aligned_iff_dvd by simp_all
    then obtain n where n: "unat len = n * 2 ^ 22" by (metis dvdE mult.commute)
    obtain k where k: "unat va = 2 ^ 22 * k" using al(2) by blast
    have ve: "unat (va + len) = unat va + n * 2 ^ 22" using bound n by (simp add: unat_add_no_overflow)
    have fuel: "n < 1025" using bound n by simp
    obtain mem' where m: "early_map_loop index 1025 pa va (va + len) mem = Ret mem'"
      "\<forall>i < 1024. mem' (cell index i) = (if k \<le> unat i \<and> unat i < k + n
        then mkxpte (pa + of_nat ((unat i - k) * 2 ^ 22)) big_flags else mem (cell index i))"
      using early_map_loop_maps [OF assms al(2) _ ve fuel, of pa mem] bound n unfolding k by auto
    have "i386_big_walk index mem' w = (if va \<le> w \<and> w < va + len then Some (ucast pa + (w - va)) else i386_big_walk index mem w)" for w
    proof -
      have i: "i386_XPTX w < 1024" "unat (i386_XPTX w) = unat w div 2 ^ 22"
        using unat_bound [of w] by (simp_all add: word_less_nat_alt unat_XPTX less_mult_imp_div_less)
      have d: "drop_bit 22 w = i386_XPTX w" by (simp add: i386_XPTX_def XPAGE_SHIFT_def)
      have rng: "va \<le> w \<and> w < va + len \<longleftrightarrow> k \<le> unat w div 2 ^ 22 \<and> unat w div 2 ^ 22 < k + n"
        unfolding word_le_nat_alt word_less_nat_alt ve k by (simp add: less_eq_div_iff_mult_less_eq div_less_iff_less_mult algebra_simps)
      show ?thesis
      proof (cases "k \<le> unat w div 2 ^ 22 \<and> unat w div 2 ^ 22 < k + n")
        case False
        then have "mem' (cell index (drop_bit 22 w)) = mem (cell index (drop_bit 22 w))"
          unfolding d m(2) [rule_format, OF i(1)] i(2) by (simp only: if_False)
        then show ?thesis unfolding rng if_not_P [OF False] i386_big_walk_def by (simp only:)
      next
        case True
        have e: "mem' (cell index (drop_bit 22 w)) = mkxpte (pa + of_nat ((unat w div 2 ^ 22 - k) * 2 ^ 22)) big_flags"
          unfolding d m(2) [rule_format, OF i(1)] i(2) using True by (simp only: simp_thms if_True)
        have "k \<le> unat w div 2 ^ 22" using True by simp
        from big_page_address [OF al(1) k this]
        have "i386_big_walk index mem' w = Some (ucast pa + (w - va))"
          unfolding i386_big_walk_def Let_def e big_flags_def by (simp only: simp_thms if_True)
        then show ?thesis using True rng by simp
      qed
    qed
    then show ?thesis using True m(1) by (simp add: i386_page_index_early_map_def)
  qed
  then show ?thesis using True by simp
qed


theorem i386_early_map_translates_witness:
  "\<exists>mem'. i386_page_index_early_map 0x1000 0x400000 0x80400000 0x800000 (\<lambda>_. 0) = Ret (0, mem') \<and>
    i386_big_walk 0x1000 mem' 0x80812345 = Some 0x812345"
proof -
  have "IS_ALIGNED (0x400000 :: u64) XPAGE_SIZE" "IS_ALIGNED (0x80400000 :: u32) XPAGE_SIZE" "IS_ALIGNED (0x800000 :: u32) XPAGE_SIZE"
    unfolding XPAGE_SIZE_eq is_aligned_iff_dvd by simp_all
  then show ?thesis
    using i386_early_map_translates [of "0x1000" "0x400000" "0x80400000" "0x800000" "\<lambda>_. 0"] by auto
qed

end
