(* ===== verification/Slab.thy ===== *)
theory Slab
  imports Kmem Bitops "HOL-Library.Multiset"
begin

text \<open>
  The caching allocator of \<open>kern/mm/vmm/slab.c\<close> and its dispatch in \<open>kern/mm/vmm/vmm.c\<close>.
  A cache holds three lists of slabs of 32 objects each, with a bitmap of four bytes per
  slab. Slabs and heads are objects of \<open>kmalloc\<close>, their memory comes from \<open>alloc_pages\<close>;
  both are reached through a table \<open>kops\<close> of theory \<open>Kmem\<close>. The constructor and destructor
  a client supplies are modelled by a log of the objects they are called on. The lock of a
  cache is a flag, and taking a lock that is held never returns.
\<close>

section \<open>Data\<close>

definition SLAB_MASK_CHARS :: nat where
  "SLAB_MASK_CHARS = 4"

definition SLAB_ENTRIES :: u32 where
  "SLAB_ENTRIES = 32"

definition SLAB_MIN_SIZE :: u32 where
  "SLAB_MIN_SIZE = PAGE_SIZE div SLAB_ENTRIES"

record slab =
  sl_node :: u32
  sl_vaddr :: u32
  sl_used :: "u8 list"

record slab_head =
  slab_size :: u32
  sempty :: "slab list"
  spartial :: "slab list"
  sfull :: "slab list"

datatype obj_event = Created u32 | Destroyed u32

record allocator_cache =
  c_locked :: bool
  c_head :: "(u32 \<times> slab_head) option"
  c_size :: u32
  c_align :: u32
  c_flags :: gfp_t
  c_ctor :: bool
  c_dtor :: bool
  c_log :: "obj_event list"

text \<open>\<open>sizeof(struct slab)\<close> and \<open>sizeof(struct slab_head)\<close> on a 32-bit machine.\<close>

definition sizeof_slab :: u32 where
  "sizeof_slab = 16"

definition sizeof_slab_head :: u32 where
  "sizeof_slab_head = 28"

section \<open>Operations\<close>

definition is_full :: "slab \<Rightarrow> bool" where
  "is_full s \<longleftrightarrow> (\<forall>b \<in> set (take SLAB_MASK_CHARS (sl_used s)). b = 0xFF)"

definition is_empty :: "slab \<Rightarrow> bool" where
  "is_empty s \<longleftrightarrow> (\<forall>b \<in> set (take SLAB_MASK_CHARS (sl_used s)). b = 0)"

text \<open>The constructor loop of \<open>__extend\<close>; it may not end.\<close>

partial_function (option) construct_from :: "u32 \<Rightarrow> u32 \<Rightarrow> u32 \<Rightarrow> u32 \<Rightarrow> obj_event list \<Rightarrow> obj_event list option" where
  "construct_from vaddr sz ssize off log =
     (if off < ssize then construct_from vaddr sz ssize (off + sz) (log @ [Created (vaddr + off)])
      else Some log)"

definition slab_extend :: "kops \<Rightarrow> allocator_cache \<Rightarrow> kmem \<Rightarrow> (int \<times> allocator_cache \<times> kmem) outcome" where
  "slab_extend k cache st =
     (case c_head cache of
        None \<Rightarrow> Fault
      | Some (ha, head) \<Rightarrow>
          obind (k_malloc k sizeof_slab 0 st) (\<lambda>(node, st).
            if node = 0 then Ret (EOF, cache, st)
            else obind (p_alloc k \<lparr>paddr = 0, psize = ucast (slab_size head), pflags = c_flags cache\<rparr> st)
              (\<lambda>(ret, pages, st).
                 if ret < 0 then obind (k_free k node st) (\<lambda>st. Ret (EOF, cache, st))
                 else
                   let vaddr = i386_pa2kva (ucast (paddr pages));
                       slab = \<lparr>sl_node = node, sl_vaddr = vaddr, sl_used = replicate SLAB_MASK_CHARS 0\<rparr>;
                       log = (if c_ctor cache then construct_from vaddr (c_size cache) (slab_size head) 0 (c_log cache)
                              else Some (c_log cache))
                   in case log of
                        None \<Rightarrow> Hang
                      | Some log \<Rightarrow>
                          Ret (0, cache\<lparr>c_head := Some (ha, head\<lparr>sempty := slab # sempty head\<rparr>), c_log := log\<rparr>, st))))"

text \<open>The loop of \<open>__trim\<close> over the list of empty slabs.\<close>

primrec trim_slabs :: "kops \<Rightarrow> allocator_cache \<Rightarrow> u32 \<Rightarrow> slab list \<Rightarrow> kmem \<Rightarrow> kmem outcome" where
  "trim_slabs k cache ssize [] st = Ret st"
| "trim_slabs k cache ssize (slab # rest) st =
     obind (p_free k \<lparr>paddr = ucast (i386_kva2pa (sl_vaddr slab)), psize = ucast ssize, pflags = c_flags cache\<rparr> st)
       (\<lambda>st. obind (k_free k (sl_node slab) st) (trim_slabs k cache ssize rest))"

definition slab_trim :: "kops \<Rightarrow> allocator_cache \<Rightarrow> kmem \<Rightarrow> (allocator_cache \<times> kmem) outcome" where
  "slab_trim k cache st =
     (case c_head cache of
        None \<Rightarrow> Fault
      | Some (ha, head) \<Rightarrow>
          obind (trim_slabs k cache (slab_size head) (sempty head) st)
            (\<lambda>st. Ret (cache\<lparr>c_head := Some (ha, head\<lparr>sempty := []\<rparr>)\<rparr>, st)))"

definition slab_size_of :: "u32 \<Rightarrow> u32 \<Rightarrow> u32" where
  "slab_size_of sz align =
     (let sz = (if sz < SLAB_MIN_SIZE then SLAB_MIN_SIZE else sz);
          sz = ALIGN_ABOVE sz align;
          sz = (if sz > PAGE_SIZE div 2 then ALIGN_ABOVE sz PAGE_SIZE else sz)
      in ALIGN_ABOVE (sz * SLAB_ENTRIES) PAGE_SIZE)"

definition slab_create :: "kops \<Rightarrow> allocator_cache \<Rightarrow> kmem \<Rightarrow> (int \<times> allocator_cache \<times> kmem) outcome" where
  "slab_create k cache st =
     obind (k_malloc k sizeof_slab_head 0 st) (\<lambda>(ha, st).
       if ha = 0 then Ret (EOF, cache, st)
       else
         let head = \<lparr>slab_size = slab_size_of (c_size cache) (c_align cache),
                     sempty = [], spartial = [], sfull = []\<rparr>
         in Ret (0, cache\<lparr>c_head := Some (ha, head)\<rparr>, st))"

definition slab_destroy :: "kops \<Rightarrow> allocator_cache \<Rightarrow> kmem \<Rightarrow> (int \<times> allocator_cache \<times> kmem) outcome" where
  "slab_destroy k cache st =
     (case c_head cache of
        None \<Rightarrow> Fault
      | Some (ha, head) \<Rightarrow>
          if spartial head \<noteq> [] then Ret (EOF, cache, st)
          else if sfull head \<noteq> [] then Ret (EOF, cache, st)
          else obind (slab_trim k cache st) (\<lambda>(cache, st).
            obind (k_free k ha st) (\<lambda>st. Ret (0, cache\<lparr>c_head := None\<rparr>, st))))"

text \<open>
  The search for a free object: \<open>ffz\<close> takes an \<open>unsigned long\<close>, so the byte is extended
  with zeros. Reading past the bitmap is \<open>None\<close>.
\<close>

fun find_object :: "u8 list \<Rightarrow> nat \<Rightarrow> (nat \<times> nat) option" where
  "find_object [] i = None"
| "find_object (b # bs) i =
     (let j = int (ffz32 (ucast b)) - 1
      in if j = -1 then find_object bs (Suc i) else Some (i, nat j))"

text \<open>Everything of \<open>__alloc\<close> after the slab is chosen.\<close>

definition slab_take :: "allocator_cache \<Rightarrow> u32 \<Rightarrow> slab_head \<Rightarrow> slab \<Rightarrow> (u32 \<times> allocator_cache) outcome" where
  "slab_take cache ha head slab =
     (case find_object (sl_used slab) 0 of
        None \<Rightarrow> Fault
      | Some (i, j) \<Rightarrow>
          let byte = ucast ((ucast (sl_used slab ! i) :: u32) OR push_bit j 1);
              was_empty = (sempty head \<noteq> [] \<and> sl_node (hd (sempty head)) = sl_node slab);
              slab = slab\<lparr>sl_used := (sl_used slab)[i := byte]\<rparr>;
              obj = sl_vaddr slab + of_nat (i * 8 + j) * c_size cache;
              head = head\<lparr>sempty := nl_update sl_node slab (sempty head),
                          spartial := nl_update sl_node slab (spartial head)\<rparr>;
              unlinked = head\<lparr>sempty := nl_del sl_node (sl_node slab) (sempty head),
                              spartial := nl_del sl_node (sl_node slab) (spartial head)\<rparr>;
              head = (if is_full slab then unlinked\<lparr>sfull := slab # sfull unlinked\<rparr>
                      else if was_empty then unlinked\<lparr>spartial := slab # spartial unlinked\<rparr>
                      else head)
          in Ret (obj, cache\<lparr>c_head := Some (ha, head)\<rparr>))"

definition slab_alloc :: "kops \<Rightarrow> allocator_cache \<Rightarrow> kmem \<Rightarrow> (u32 \<times> allocator_cache \<times> kmem) outcome" where
  "slab_alloc k cache st =
     (case c_head cache of
        None \<Rightarrow> Fault
      | Some (ha, head) \<Rightarrow>
          (case spartial head of
             slab # _ \<Rightarrow> obind (slab_take cache ha head slab) (\<lambda>(obj, cache). Ret (obj, cache, st))
           | [] \<Rightarrow>
               obind (if sempty head = [] then slab_extend k cache st else Ret (0, cache, st))
                 (\<lambda>(ret, cache, st).
                    if ret < 0 then Ret (0, cache, st)
                    else case c_head cache of
                      None \<Rightarrow> Fault
                    | Some (ha, head) \<Rightarrow>
                        (case sempty head of
                           [] \<Rightarrow> Fault
                         | slab # _ \<Rightarrow> obind (slab_take cache ha head slab) (\<lambda>(obj, cache). Ret (obj, cache, st))))))"

definition slab_contains :: "u32 \<Rightarrow> u32 \<Rightarrow> slab \<Rightarrow> bool" where
  "slab_contains ssize obj tmp \<longleftrightarrow> sl_vaddr tmp \<le> obj \<and> obj < sl_vaddr tmp + ssize"

text \<open>Everything of \<open>__free\<close> after the slab is found.\<close>

definition slab_put :: "allocator_cache \<Rightarrow> u32 \<Rightarrow> slab_head \<Rightarrow> slab \<Rightarrow> u32 \<Rightarrow> (int \<times> allocator_cache) outcome" where
  "slab_put cache ha head slab obj =
     (let cache = (if c_dtor cache then cache\<lparr>c_log := c_log cache @ [Destroyed obj]\<rparr> else cache)
      in if c_size cache = 0 then Fault
         else
           let i = unat ((obj - sl_vaddr slab) div c_size cache); j = i mod 8; i = i div 8
           in if length (sl_used slab) \<le> i then Fault
              else
                let byte = ucast ((ucast (sl_used slab ! i) :: u32) AND NOT (push_bit j 1));
                    was_full = (sfull head \<noteq> [] \<and> sl_node (hd (sfull head)) = sl_node slab);
                    slab = slab\<lparr>sl_used := (sl_used slab)[i := byte]\<rparr>;
                    head = head\<lparr>sfull := nl_update sl_node slab (sfull head),
                                spartial := nl_update sl_node slab (spartial head)\<rparr>;
                    unlinked = head\<lparr>sfull := nl_del sl_node (sl_node slab) (sfull head),
                                    spartial := nl_del sl_node (sl_node slab) (spartial head)\<rparr>;
                    head = (if is_empty slab then unlinked\<lparr>sempty := slab # sempty unlinked\<rparr>
                            else if was_full then unlinked\<lparr>spartial := slab # spartial unlinked\<rparr>
                            else head)
                in Ret (0, cache\<lparr>c_head := Some (ha, head)\<rparr>))"

definition slab_free :: "allocator_cache \<Rightarrow> u32 \<Rightarrow> (int \<times> allocator_cache) outcome" where
  "slab_free cache obj =
     (case c_head cache of
        None \<Rightarrow> Fault
      | Some (ha, head) \<Rightarrow>
          (case (case find (slab_contains (slab_size head) obj) (sfull head) of
                   Some s \<Rightarrow> Some s
                 | None \<Rightarrow> find (slab_contains (slab_size head) obj) (spartial head)) of
             None \<Rightarrow> Ret (EOF, cache)
           | Some slab \<Rightarrow> slab_put cache ha head slab obj))"


section \<open>The dispatch of vmm.c\<close>

datatype caching_allocator = CDummy | CSlab

definition set_caching_allocator :: "caching_allocator option \<Rightarrow> caching_allocator \<Rightarrow> caching_allocator" where
  "set_caching_allocator allocator cur = (case allocator of None \<Rightarrow> cur | Some a \<Rightarrow> a)"

definition slab_init :: "caching_allocator \<Rightarrow> int \<times> caching_allocator" where
  "slab_init cur = (0, set_caching_allocator (Some CSlab) cur)"

fun caching_create :: "caching_allocator \<Rightarrow> kops \<Rightarrow> allocator_cache \<Rightarrow> kmem \<Rightarrow> (int \<times> allocator_cache \<times> kmem) outcome" where
  "caching_create CDummy k cache st = Ret (EOF, cache, st)"
| "caching_create CSlab k cache st = slab_create k cache st"

fun caching_destroy :: "caching_allocator \<Rightarrow> kops \<Rightarrow> allocator_cache \<Rightarrow> kmem \<Rightarrow> (int \<times> allocator_cache \<times> kmem) outcome" where
  "caching_destroy CDummy k cache st = Ret (EOF, cache, st)"
| "caching_destroy CSlab k cache st = slab_destroy k cache st"

fun caching_alloc :: "caching_allocator \<Rightarrow> kops \<Rightarrow> allocator_cache \<Rightarrow> kmem \<Rightarrow> (u32 \<times> allocator_cache \<times> kmem) outcome" where
  "caching_alloc CDummy k cache st = Ret (0, cache, st)"
| "caching_alloc CSlab k cache st = slab_alloc k cache st"

fun caching_free :: "caching_allocator \<Rightarrow> allocator_cache \<Rightarrow> u32 \<Rightarrow> (int \<times> allocator_cache) outcome" where
  "caching_free CDummy cache obj = Ret (EOF, cache)"
| "caching_free CSlab cache obj = slab_free cache obj"

fun caching_trim :: "caching_allocator \<Rightarrow> kops \<Rightarrow> allocator_cache \<Rightarrow> kmem \<Rightarrow> (allocator_cache \<times> kmem) outcome" where
  "caching_trim CDummy k cache st = Ret (cache, st)"
| "caching_trim CSlab k cache st = slab_trim k cache st"

definition lock_cache :: "allocator_cache \<Rightarrow> allocator_cache outcome" where
  "lock_cache cache = (if c_locked cache then Hang else Ret (cache\<lparr>c_locked := True\<rparr>))"

definition unlock_cache :: "allocator_cache \<Rightarrow> allocator_cache" where
  "unlock_cache cache = cache\<lparr>c_locked := False\<rparr>"

text \<open>The cache argument of the entry points is a pointer, \<open>None\<close> is \<open>NULL\<close>.\<close>

definition cache_create :: "caching_allocator \<Rightarrow> kops \<Rightarrow> allocator_cache option \<Rightarrow> kmem \<Rightarrow> (int \<times> allocator_cache option \<times> kmem) outcome" where
  "cache_create a k cache st =
     (case cache of
        None \<Rightarrow> Ret (EOF, None, st)
      | Some cache \<Rightarrow>
          obind (caching_create a k (cache\<lparr>c_locked := False\<rparr>) st) (\<lambda>(ret, cache, st). Ret (ret, Some cache, st)))"

definition cache_destroy :: "caching_allocator \<Rightarrow> kops \<Rightarrow> allocator_cache option \<Rightarrow> kmem \<Rightarrow> (int \<times> allocator_cache option \<times> kmem) outcome" where
  "cache_destroy a k cache st =
     (case cache of
        None \<Rightarrow> Ret (EOF, None, st)
      | Some cache \<Rightarrow>
          obind (lock_cache cache) (\<lambda>cache.
            obind (caching_destroy a k cache st) (\<lambda>(ret, cache, st). Ret (ret, Some (unlock_cache cache), st))))"

definition cache_alloc :: "caching_allocator \<Rightarrow> kops \<Rightarrow> allocator_cache option \<Rightarrow> kmem \<Rightarrow> (u32 \<times> allocator_cache option \<times> kmem) outcome" where
  "cache_alloc a k cache st =
     (case cache of
        None \<Rightarrow> Ret (0, None, st)
      | Some cache \<Rightarrow>
          obind (lock_cache cache) (\<lambda>cache.
            obind (caching_alloc a k cache st) (\<lambda>(obj, cache, st). Ret (obj, Some (unlock_cache cache), st))))"

definition cache_free :: "caching_allocator \<Rightarrow> allocator_cache option \<Rightarrow> u32 \<Rightarrow> (int \<times> allocator_cache option) outcome" where
  "cache_free a cache obj =
     (case cache of
        None \<Rightarrow> Ret (0, None)
      | Some cache \<Rightarrow>
          obind (lock_cache cache) (\<lambda>cache.
            obind (caching_free a cache obj) (\<lambda>(ret, cache). Ret (ret, Some (unlock_cache cache)))))"

definition cache_trim :: "caching_allocator \<Rightarrow> kops \<Rightarrow> allocator_cache option \<Rightarrow> kmem \<Rightarrow> (allocator_cache option \<times> kmem) outcome" where
  "cache_trim a k cache st =
     (case cache of
        None \<Rightarrow> Ret (None, st)
      | Some cache \<Rightarrow>
          obind (lock_cache cache) (\<lambda>cache.
            obind (caching_trim a k cache st) (\<lambda>(cache, st). Ret (Some (unlock_cache cache), st))))"

section \<open>The bitmap\<close>

lemma ffz_byte:
  assumes "(b :: u8) \<noteq> 0xFF"
  obtains j where "ffz32 (ucast b) = Suc j" "j < 8" "\<not> bit b j" "\<forall>i < j. bit b i"
proof -
  have "\<exists>i < 8. \<not> bit b i"
  proof (rule ccontr)
    assume "\<not> (\<exists>i < 8. \<not> bit b i)"
    then have "b = mask 8" by (intro bit_eqI) (simp add: bit_mask_iff)
    with assms show False by (simp add: mask_eq_exp_minus_1)
  qed
  then obtain i where i: "i < 8" "\<not> bit b i" by blast
  then have "bit (NOT (ucast b :: u32)) i" by (simp add: bit_simps)
  then have "NOT (ucast b :: u32) \<noteq> 0" by (metis bit_0_eq bot_apply bot_bool_def)
  then obtain p where p: "first_bit (NOT (ucast b :: u32)) p" using first_bit_exists by blast
  then have n: "bit (NOT (ucast b :: u32)) p" "\<forall>q < p. \<not> bit (NOT (ucast b :: u32)) q"
    by (simp_all add: first_bit_def)
  have q: "bit b q" if "q < p" for q
    using n(2) that first_bit_less [OF p] by (simp add: bit_simps)
  moreover have "p < 8" using i q [of i] by (cases "p \<le> i") auto
  moreover have "\<not> bit b p" using n(1) by (simp add: bit_simps)
  ultimately show thesis using that [of p] generic_ffs32_first_bit [OF p] by (simp add: ffz32_def)
qed

lemma ffz_byte_full: "ffz32 (ucast (0xFF :: u8)) = 9"
  by code_simp

definition take_byte :: "nat \<Rightarrow> u8 \<Rightarrow> u8" where
  "take_byte j b = ucast ((ucast b :: u32) OR push_bit j 1)"

definition put_byte :: "nat \<Rightarrow> u8 \<Rightarrow> u8" where
  "put_byte j b = ucast ((ucast b :: u32) AND NOT (push_bit j 1))"

lemma bit_take_byte: "bit (take_byte j b) i \<longleftrightarrow> i < 8 \<and> (bit b i \<or> i = j)"
  by (auto simp: take_byte_def bit_simps)

lemma bit_put_byte: "bit (put_byte j b) i \<longleftrightarrow> bit b i \<and> i \<noteq> j"
  by (auto simp: put_byte_def bit_simps dest: bit_imp_le_length)

lemma put_take_byte: "\<not> bit b j \<Longrightarrow> put_byte j (take_byte j b) = b"
  by (rule bit_eqI) (auto simp: bit_put_byte bit_take_byte dest: bit_imp_le_length)

lemma take_byte_8 [simp]: "take_byte 8 b = b"
  by (rule bit_eqI) (auto simp: bit_take_byte dest: bit_imp_le_length)


definition free_index :: "u8 \<Rightarrow> nat" where
  "free_index b = ffz32 (ucast b) - 1"

lemma free_index_pos: "0 < ffz32 (ucast (b :: u8))"
proof (cases "b = 0xFF")
  case True
  then show ?thesis using ffz_byte_full by simp
next
  case False
  then show ?thesis by (rule ffz_byte) simp
qed

lemma find_object_Cons: "find_object (b # bs) 0 = Some (0, free_index b)"
  using free_index_pos [of b] by (auto simp: free_index_def Let_def nat_diff_distrib')

lemma free_index_free:
  assumes "b \<noteq> 0xFF"
  shows "free_index b < 8" and "\<not> bit b (free_index b)" and "i < free_index b \<Longrightarrow> bit b i"
proof -
  obtain j where j: "ffz32 (ucast b) = Suc j" "j < 8" "\<not> bit b j" "\<forall>i < j. bit b i"
    using ffz_byte [OF assms] by blast
  then have "free_index b = j" by (simp add: free_index_def)
  with j show "free_index b < 8" "\<not> bit b (free_index b)" "i < free_index b \<Longrightarrow> bit b i" by simp_all
qed

lemma free_index_full [simp]: "free_index 0xFF = 8"
  by (simp add: free_index_def ffz_byte_full [simplified])

lemma mask_8_eq: "(mask 8 :: u8) = 0xFF"
  by (simp add: mask_eq_exp_minus_1)

lemma free_index_mask: "free_index (mask (min n 8)) = min n 8"
proof (cases "n < 8")
  case True
  have b: "bit (mask n :: u8) i \<longleftrightarrow> i < n" for i using True by (auto simp: bit_mask_iff)
  have ne: "(mask n :: u8) \<noteq> 0xFF"
  proof
    assume "(mask n :: u8) = 0xFF"
    then have "(mask n :: u8) = mask 8" by (simp add: mask_8_eq)
    then have "bit (mask n :: u8) n" using True by (simp add: bit_mask_iff)
    then show False by (simp add: b)
  qed
  have "\<not> n < free_index (mask n)"
  proof
    assume "n < free_index (mask n)"
    from free_index_free(3) [OF ne this] show False by (simp add: b)
  qed
  moreover have "\<not> free_index (mask n) < n" using free_index_free(2) [OF ne] by (simp add: b)
  ultimately show ?thesis using True by simp
qed (simp add: mask_8_eq)

lemma take_byte_mask: "take_byte (min n 8) (mask (min n 8)) = mask (min (Suc n) 8)"
  by (rule bit_eqI) (auto simp: bit_take_byte bit_mask_iff)

section \<open>Allocation from a slab\<close>

lemma slab_take_eq:
  assumes "sl_used slab = b # bs"
  shows "slab_take cache ha head slab =
    (let s = slab\<lparr>sl_used := take_byte (free_index b) b # bs\<rparr>;
         head' = head\<lparr>sempty := nl_update sl_node s (sempty head), spartial := nl_update sl_node s (spartial head)\<rparr>;
         unl = head'\<lparr>sempty := nl_del sl_node (sl_node s) (sempty head'),
                     spartial := nl_del sl_node (sl_node s) (spartial head')\<rparr>
     in Ret (sl_vaddr slab + of_nat (free_index b) * c_size cache,
         cache\<lparr>c_head := Some (ha,
           if is_full s then unl\<lparr>sfull := s # sfull unl\<rparr>
           else if sempty head \<noteq> [] \<and> sl_node (hd (sempty head)) = sl_node slab
             then unl\<lparr>spartial := s # spartial unl\<rparr> else head')\<rparr>))"
  using assms by (simp add: slab_take_def find_object_Cons Let_def take_byte_def cong: if_cong
      del: find_object.simps)

text \<open>A slab with room outside its first byte is never seen as full.\<close>

definition open_slab :: "slab \<Rightarrow> bool" where
  "open_slab s \<longleftrightarrow> (\<exists>b bs. sl_used s = b # bs \<and> (\<exists>x \<in> set (take 3 bs). x \<noteq> 0xFF))"

lemma open_slab_not_full: "open_slab s \<Longrightarrow> sl_used s = b # bs \<Longrightarrow> \<not> is_full (s\<lparr>sl_used := c # bs\<rparr>)"
  by (auto simp: open_slab_def is_full_def SLAB_MASK_CHARS_def eval_nat_numeral)

lemma slab_alloc_partial:
  assumes "c_head cache = Some (ha, head)" and "spartial head = s # ps"
    and "open_slab s" and "sl_used s = b # bs"
    and "sl_node s \<notin> sl_node ` set (sempty head @ ps)"
  shows "slab_alloc k cache st = Ret (sl_vaddr s + of_nat (free_index b) * c_size cache,
    cache\<lparr>c_head := Some (ha, head\<lparr>spartial := s\<lparr>sl_used := take_byte (free_index b) b # bs\<rparr> # ps\<rparr>)\<rparr>, st)"
proof -
  let ?s = "s\<lparr>sl_used := take_byte (free_index b) b # bs\<rparr>"
  have "nl_update sl_node ?s (sempty head) = sempty head" "nl_update sl_node ?s ps = ps"
    using assms(5) by (auto intro!: nl_update_id)
  then have u: "nl_update sl_node ?s (sempty head) = sempty head" "nl_update sl_node ?s (s # ps) = ?s # ps"
    by (simp_all add: nl_update_def)
  have e: "\<not> (sempty head \<noteq> [] \<and> sl_node (hd (sempty head)) = sl_node s)"
    using assms(5) by (metis UnCI hd_in_set image_eqI set_append)
  show ?thesis
    using assms(1,2) open_slab_not_full [OF assms(3,4)] u e
    by (auto simp: slab_alloc_def slab_take_eq [OF assms(4)] Let_def)
qed

lemma slab_alloc_empty:
  assumes "c_head cache = Some (ha, head)" and "spartial head = []" and "sempty head = s # rest"
    and "open_slab s" and "sl_used s = b # bs" and "sl_node s \<notin> sl_node ` set rest"
  shows "slab_alloc k cache st = Ret (sl_vaddr s + of_nat (free_index b) * c_size cache,
    cache\<lparr>c_head := Some (ha, head\<lparr>sempty := rest, spartial := [s\<lparr>sl_used := take_byte (free_index b) b # bs\<rparr>]\<rparr>)\<rparr>, st)"
proof -
  let ?s = "s\<lparr>sl_used := take_byte (free_index b) b # bs\<rparr>"
  have "nl_update sl_node ?s rest = rest" "nl_del sl_node (sl_node s) rest = rest"
    using assms(6) by (auto intro!: nl_update_id nl_del_id)
  then have u: "nl_update sl_node ?s (s # rest) = ?s # rest" "nl_del sl_node (sl_node s) (?s # rest) = rest"
    by (simp_all add: nl_update_def nl_del_def)
  show ?thesis
    using assms(1-3) open_slab_not_full [OF assms(4,5)] u
    by (simp add: slab_alloc_def slab_take_eq [OF assms(5)] Let_def nl_update_def nl_del_def)
qed

primrec alloc_many :: "kops \<Rightarrow> nat \<Rightarrow> allocator_cache \<Rightarrow> kmem \<Rightarrow> (u32 list \<times> allocator_cache \<times> kmem) outcome" where
  "alloc_many k 0 cache st = Ret ([], cache, st)"
| "alloc_many k (Suc n) cache st =
     obind (alloc_many k n cache st) (\<lambda>(objs, cache, st).
       obind (slab_alloc k cache st) (\<lambda>(obj, cache, st). Ret (objs @ [obj], cache, st)))"

lemma alloc_many_fresh:
  assumes "c_head cache = Some (ha, head)" and "spartial head = []" and "sempty head = s # rest"
    and "sl_used s = [0, 0, 0, 0]" and "sl_node s \<notin> sl_node ` set rest"
  shows "alloc_many k (Suc n) cache st = Ret (map (\<lambda>i. sl_vaddr s + of_nat (min i 8) * c_size cache) [0..<Suc n],
    cache\<lparr>c_head := Some (ha, head\<lparr>sempty := rest,
      spartial := [s\<lparr>sl_used := [mask (min (Suc n) 8), 0, 0, 0]\<rparr>]\<rparr>)\<rparr>, st)"
proof (induction n)
  case 0
  have o: "open_slab s" using assms(4) by (simp add: open_slab_def)
  have i: "free_index (0 :: u8) = 0" using free_index_mask [of 0] by simp
  have t: "take_byte 0 0 = 1" using take_byte_mask [of 0] by simp
  show ?case
    using slab_alloc_empty [OF assms(1-3) o assms(4,5), of k st] by (simp add: i t)
next
  case (Suc n)
  let ?s = "s\<lparr>sl_used := [mask (min (Suc n) 8), 0, 0, 0]\<rparr>"
  let ?head = "head\<lparr>sempty := rest, spartial := [?s]\<rparr>"
  let ?c = "cache\<lparr>c_head := Some (ha, ?head)\<rparr>"
  have o: "open_slab ?s" by (simp add: open_slab_def)
  have "slab_alloc k ?c st = Ret (sl_vaddr s + of_nat (min (Suc n) 8) * c_size cache,
      cache\<lparr>c_head := Some (ha, head\<lparr>sempty := rest,
        spartial := [s\<lparr>sl_used := [mask (min (Suc (Suc n)) 8), 0, 0, 0]\<rparr>]\<rparr>)\<rparr>, st)"
    using slab_alloc_partial [of ?c ha ?head ?s "[]" "mask (min (Suc n) 8)" "[0, 0, 0]" k st]
      o assms(5) free_index_mask [of "Suc n"] take_byte_mask [of "Suc n"]
    by simp
  then show ?case by (simp only: alloc_many.simps(2) [of k "Suc n"] Suc.IH obind.simps prod.case) simp
qed


section \<open>The invariant of a cache\<close>

text \<open>
  The slabs of a cache have different nodes and disjoint memory that does not wrap around;
  slabs on the list of empty slabs have no object in use and those on the partial list have
  one. The full list is not restricted: \<open>__free\<close> leaves a slab there that is not the first.
\<close>

definition slabs :: "slab_head \<Rightarrow> slab list" where
  "slabs head = sempty head @ spartial head @ sfull head"

definition geo :: "slab \<Rightarrow> u32 \<times> u32" where
  "geo s = (sl_node s, sl_vaddr s)"

definition geo_wf :: "nat \<Rightarrow> (u32 \<times> u32) list \<Rightarrow> bool" where
  "geo_wf n gs \<longleftrightarrow> distinct (map fst gs) \<and> (\<forall>g \<in> set gs. unat (snd g) + n < 2 ^ 32) \<and>
     (\<forall>g \<in> set gs. \<forall>h \<in> set gs. g \<noteq> h \<longrightarrow> unat (snd g) + n \<le> unat (snd h) \<or> unat (snd h) + n \<le> unat (snd g))"

definition head_wf :: "u32 \<Rightarrow> slab_head \<Rightarrow> bool" where
  "head_wf sz head \<longleftrightarrow> geo_wf (unat (slab_size head)) (map geo (slabs head)) \<and>
     (\<forall>s \<in> set (slabs head). length (sl_used s) = SLAB_MASK_CHARS) \<and>
     0 < sz \<and> unat SLAB_ENTRIES * unat sz \<le> unat (slab_size head) \<and>
     (\<forall>s \<in> set (sempty head). is_empty s) \<and> (\<forall>s \<in> set (spartial head). \<not> is_empty s)"

definition cache_wf :: "allocator_cache \<Rightarrow> bool" where
  "cache_wf cache \<longleftrightarrow> (case c_head cache of None \<Rightarrow> False | Some (ha, head) \<Rightarrow> head_wf (c_size cache) head)"

lemma geo_wf_mset:
  assumes "mset gs = mset hs"
  shows "geo_wf n gs = geo_wf n hs"
proof -
  have "mset (map fst gs) = mset (map fst hs)" using assms by simp
  then have "distinct (map fst gs) = distinct (map fst hs)" by (rule mset_eq_imp_distinct_iff)
  then show ?thesis using mset_eq_setD [OF assms] by (simp add: geo_wf_def)
qed

lemma nl_mset:
  assumes "s \<in> set xs" and "distinct (map key xs)" and "key s' = key s"
  shows "mset (nl_update key s' xs) = mset xs - {#s#} + {#s'#}"
    and "mset (nl_del key (key s) xs) = mset xs - {#s#}"
proof -
  obtain us vs where x: "xs = us @ s # vs" "key s \<notin> key ` set us" "key s \<notin> key ` set vs"
    using nl_cut [OF assms(1,2)] by blast
  show "mset (nl_update key s' xs) = mset xs - {#s#} + {#s'#}"
    unfolding x(1) by (subst nl_update_split) (use x assms(3) in auto)
  show "mset (nl_del key (key s) xs) = mset xs - {#s#}"
    unfolding x(1) by (subst nl_del_split) (use x in auto)
qed

lemma head_wf_distinct: "head_wf sz head \<Longrightarrow> distinct (map sl_node (slabs head))"
  by (simp add: head_wf_def geo_wf_def geo_def comp_def)

lemma nl_del_eq_update: "key s' = key s \<Longrightarrow> nl_del key (key s) (nl_update key s' xs) = nl_del key (key s) xs"
  by (induction xs) (auto simp: nl_del_def nl_update_def)

lemma distinct_hd_tl: "distinct (map f (x # xs)) \<Longrightarrow> f x \<notin> f ` set xs"
  by simp



lemma head_wf_replace:
  assumes wf: "head_wf sz head" and s: "s \<in> set (slabs head)" and g: "geo s' = geo s"
    and "length (sl_used s') = SLAB_MASK_CHARS" and "slab_size head' = slab_size head"
    and m: "mset (slabs head') = mset (slabs head) - {#s#} + {#s'#}"
    and "\<forall>s \<in> set (sempty head'). is_empty s" and "\<forall>s \<in> set (spartial head'). \<not> is_empty s"
  shows "head_wf sz head'"
proof -
  have "image_mset geo (mset (slabs head')) = image_mset geo (mset (slabs head))"
    using s g unfolding m by (simp add: image_mset_Diff)
  then have "mset (map geo (slabs head')) = mset (map geo (slabs head))" by simp
  from geo_wf_mset [OF this] have "geo_wf (unat (slab_size head)) (map geo (slabs head'))"
    using wf by (simp add: head_wf_def)
  moreover have "set (slabs head') \<subseteq> insert s' (set (slabs head))"
    using arg_cong [OF m, of set_mset] by (auto dest: in_diffD)
  ultimately show ?thesis using assms by (auto simp: head_wf_def)
qed

lemma nl_update_append: "nl_update key x (xs @ ys) = nl_update key x xs @ nl_update key x ys"
  by (simp add: nl_update_def)

lemma nl_del_append: "nl_del key n (xs @ ys) = nl_del key n xs @ nl_del key n ys"
  by (simp add: nl_del_def)

lemma set_nl_update: "y \<in> set (nl_update key x xs) \<Longrightarrow> y \<in> set xs \<or> y = x"
  by (auto simp: nl_update_def split: if_splits)

lemma set_nl_del: "set (nl_del key n xs) \<subseteq> set xs"
  by (auto simp: nl_del_def)

lemma not_in_other_list:
  assumes "distinct (map key (xs @ ys @ zs))"
  shows "s \<in> set xs \<union> set ys \<Longrightarrow> key s \<notin> key ` set zs"
    and "s \<in> set xs \<Longrightarrow> key s \<notin> key ` set ys \<union> key ` set zs"
    and "s \<in> set ys \<Longrightarrow> key s \<notin> key ` set xs"
    and "s \<in> set ys \<union> set zs \<Longrightarrow> key s \<notin> key ` set xs"
  using assms by auto

text \<open>Replacing a slab in place, and moving it to the front of a list, on the slabs of a cache.\<close>

lemma replaced_slabs:
  assumes "head_wf sz head" and "s \<in> set (slabs head)" and "geo s' = geo s"
  shows "mset (nl_update sl_node s' (slabs head)) = mset (slabs head) - {#s#} + {#s'#}"
    and "mset (s' # nl_del sl_node (sl_node s) (slabs head)) = mset (slabs head) - {#s#} + {#s'#}"
  using nl_mset [OF assms(2) head_wf_distinct [OF assms(1)], of s'] assms(3) by (simp_all add: geo_def)

lemma take_byte_nonzero: "take_byte (free_index b) b \<noteq> 0"
proof
  assume z: "take_byte (free_index b) b = 0"
  have "\<not> bit b i" for i
    using bit_take_byte [of "free_index b" b i] z by (auto dest: bit_imp_le_length)
  then have "b = 0" by (simp add: bit_eq_iff)
  moreover have "take_byte (free_index 0) 0 = 1"
    using free_index_mask [of 0] take_byte_mask [of 0] by simp
  ultimately show False using z by simp
qed

lemma slab_take_wf:
  assumes wf: "head_wf (c_size cache) head" and c: "c_head cache = Some (ha, head)"
    and s: "s \<in> set (spartial head) \<or> (\<exists>es. sempty head = s # es)"
  shows "\<exists>cache' b. slab_take cache ha head s = Ret (sl_vaddr s + of_nat (free_index b) * c_size cache, cache') \<and>
    sl_used s ! 0 = b \<and> cache_wf cache' \<and> c_size cache' = c_size cache"
proof -
  have mem: "s \<in> set (slabs head)" using s by (auto simp: slabs_def)
  then have "length (sl_used s) = 4" using wf by (simp add: head_wf_def SLAB_MASK_CHARS_def)
  then obtain b bs where u: "sl_used s = b # bs" by (cases "sl_used s") auto
  define s' where "s' = s\<lparr>sl_used := take_byte (free_index b) b # bs\<rparr>"
  have s': "geo s' = geo s" "length (sl_used s') = SLAB_MASK_CHARS" "sl_node s' = sl_node s"
    using u \<open>length (sl_used s) = 4\<close> by (simp_all add: s'_def geo_def SLAB_MASK_CHARS_def)
  have ne: "\<not> is_empty s'"
    using take_byte_nonzero [of b] by (simp add: s'_def is_empty_def SLAB_MASK_CHARS_def)
  define up where "up = nl_update sl_node s'"
  define del :: "slab list \<Rightarrow> slab list" where "del = nl_del sl_node (sl_node s)"
  have d: "distinct (map sl_node (sempty head @ spartial head @ sfull head))"
    using head_wf_distinct [OF wf] by (simp add: slabs_def)
  have nf: "sl_node s \<notin> sl_node ` set (sfull head)"
    using not_in_other_list(1) [OF d, of s] s by auto
  then have f: "up (sfull head) = sfull head" "del (sfull head) = sfull head"
    unfolding up_def del_def using s' by (simp_all add: nl_update_id nl_del_id)
  have m: "mset (up (sempty head) @ up (spartial head) @ sfull head) = mset (slabs head) - {#s#} + {#s'#}"
    "mset (s' # del (sempty head) @ del (spartial head) @ sfull head) = mset (slabs head) - {#s#} + {#s'#}"
    using replaced_slabs [OF wf mem s'(1)] f
    by (simp_all add: slabs_def nl_update_append nl_del_append up_def del_def)
  have dd: "del (up xs) = del xs" for xs
    unfolding up_def del_def using s'(3) by (rule nl_del_eq_update)
  have e: "\<forall>t \<in> set (sempty head). is_empty t" "\<forall>t \<in> set (spartial head). \<not> is_empty t"
    using wf by (simp_all add: head_wf_def)
  let ?unl = "head\<lparr>sempty := del (sempty head), spartial := del (spartial head)\<rparr>"
  define h where "h = (if is_full s' then ?unl\<lparr>sfull := s' # sfull head\<rparr>
    else if sempty head \<noteq> [] \<and> sl_node (hd (sempty head)) = sl_node s
      then ?unl\<lparr>spartial := s' # del (spartial head)\<rparr>
    else head\<lparr>sempty := up (sempty head), spartial := up (spartial head)\<rparr>)"
  have "slab_take cache ha head s = Ret (sl_vaddr s + of_nat (free_index b) * c_size cache, cache\<lparr>c_head := Some (ha, h)\<rparr>)"
    using slab_take_eq [OF u, of cache ha head] dd
    by (simp add: Let_def s'_def [symmetric] s'(3) up_def [symmetric] del_def [symmetric] h_def)
  moreover have "head_wf (c_size cache) h"
  proof (rule head_wf_replace [OF wf mem s'(1,2)])
    show "slab_size h = slab_size head" by (simp add: h_def)
    show "mset (slabs h) = mset (slabs head) - {#s#} + {#s'#}"
      using m by (auto simp: h_def slabs_def ac_simps)
    have "s \<in> set (spartial head)" if "\<not> (sempty head \<noteq> [] \<and> sl_node (hd (sempty head)) = sl_node s)"
      using s that by auto
    then have "up (sempty head) = sempty head" if "\<not> (sempty head \<noteq> [] \<and> sl_node (hd (sempty head)) = sl_node s)"
      using not_in_other_list(3) [OF d, of s] that s'(3) unfolding up_def by (simp add: nl_update_id)
    then show "\<forall>t \<in> set (sempty h). is_empty t"
      using e(1) set_nl_del [of sl_node "sl_node s" "sempty head"] by (auto simp: h_def del_def)
    show "\<forall>t \<in> set (spartial h). \<not> is_empty t"
      using e(2) ne set_nl_del [of sl_node "sl_node s" "spartial head"]
      by (auto simp: h_def del_def up_def dest: set_nl_update)
  qed
  ultimately show ?thesis using u by (auto simp: cache_wf_def)
qed


lemma slab_put_wf:
  assumes wf: "head_wf (c_size cache) head"
    and s: "s \<in> set (sfull head) \<or> s \<in> set (spartial head)"
    and put: "slab_put cache ha head s obj = Ret (r, cache')"
  shows "cache_wf cache'"
proof -
  have mem: "s \<in> set (slabs head)" using s by (auto simp: slabs_def)
  have len: "length (sl_used s) = SLAB_MASK_CHARS" using wf mem by (simp add: head_wf_def)
  define i where "i = unat ((obj - sl_vaddr s) div c_size cache)"
  define s' where "s' = s\<lparr>sl_used := (sl_used s)[i div 8 := put_byte (i mod 8) (sl_used s ! (i div 8))]\<rparr>"
  have s': "geo s' = geo s" "length (sl_used s') = SLAB_MASK_CHARS" "sl_node s' = sl_node s"
    using len by (simp_all add: s'_def geo_def)
  define up where "up = nl_update sl_node s'"
  define del :: "slab list \<Rightarrow> slab list" where "del = nl_del sl_node (sl_node s)"
  have d: "distinct (map sl_node (sempty head @ spartial head @ sfull head))"
    using head_wf_distinct [OF wf] by (simp add: slabs_def)
  have "sl_node s \<notin> sl_node ` set (sempty head)"
    using not_in_other_list(4) [OF d, of s] s by auto
  then have f: "up (sempty head) = sempty head" "del (sempty head) = sempty head"
    unfolding up_def del_def using s' by (simp_all add: nl_update_id nl_del_id)
  have m: "mset (sempty head @ up (spartial head) @ up (sfull head)) = mset (slabs head) - {#s#} + {#s'#}"
    "mset (s' # sempty head @ del (spartial head) @ del (sfull head)) = mset (slabs head) - {#s#} + {#s'#}"
    using replaced_slabs [OF wf mem s'(1)] f
    by (simp_all add: slabs_def nl_update_append nl_del_append up_def del_def)
  have dd: "del (up xs) = del xs" for xs
    unfolding up_def del_def using s'(3) by (rule nl_del_eq_update)
  have e: "\<forall>t \<in> set (sempty head). is_empty t" "\<forall>t \<in> set (spartial head). \<not> is_empty t"
    using wf by (simp_all add: head_wf_def)
  let ?unl = "head\<lparr>sfull := del (sfull head), spartial := del (spartial head)\<rparr>"
  define h where "h = (if is_empty s' then ?unl\<lparr>sempty := s' # sempty head\<rparr>
    else if sfull head \<noteq> [] \<and> sl_node (hd (sfull head)) = sl_node s
      then ?unl\<lparr>spartial := s' # del (spartial head)\<rparr>
    else head\<lparr>sfull := up (sfull head), spartial := up (spartial head)\<rparr>)"
  have "c_head cache' = Some (ha, h)" "c_size cache' = c_size cache"
    using put dd unfolding slab_put_def put_byte_def [symmetric]
    by (auto simp: Let_def i_def [symmetric] s'_def [symmetric] s'(3) up_def [symmetric]
        del_def [symmetric] h_def split: if_splits)
  moreover have "head_wf (c_size cache) h"
  proof (rule head_wf_replace [OF wf mem s'(1,2)])
    show "slab_size h = slab_size head" by (simp add: h_def)
    show "mset (slabs h) = mset (slabs head) - {#s#} + {#s'#}"
      using m by (auto simp: h_def slabs_def ac_simps)
    show "\<forall>t \<in> set (sempty h). is_empty t" using e(1) by (simp add: h_def)
    show "\<forall>t \<in> set (spartial h). \<not> is_empty t"
      using e(2) set_nl_del [of sl_node "sl_node s" "spartial head"]
      by (auto simp: h_def del_def up_def dest: set_nl_update)
  qed
  ultimately show ?thesis by (simp add: cache_wf_def)
qed

lemma object_in_slab:
  assumes "head_wf sz head" and "s \<in> set (slabs head)"
    and n: "n < 32"
  shows "unat (sl_vaddr s + of_nat n * sz) = unat (sl_vaddr s) + n * unat sz"
    and "slab_contains (slab_size head) (sl_vaddr s + of_nat n * sz) s"
    and "unat ((sl_vaddr s + of_nat n * sz - sl_vaddr s) div sz) = n"
proof -
  have b: "unat (sl_vaddr s) + unat (slab_size head) < 2 ^ 32" "32 * unat sz \<le> unat (slab_size head)" "0 < unat sz"
    using assms by (auto simp: head_wf_def geo_wf_def geo_def SLAB_ENTRIES_def unat_gt_0)
  have "n * unat sz < 32 * unat sz" using n b(3) by simp
  then have l: "n * unat sz < unat (slab_size head)" using b(2) by (rule less_le_trans)
  have k: "unat (of_nat n :: u32) = n" using n by (simp add: unat_of_nat)
  have "unat (of_nat n * sz) = n * unat sz mod 2 ^ 32" by (simp add: unat_word_ariths k)
  then have m: "unat (of_nat n * sz) = n * unat sz" using l b(1) by (simp only: mod_less)
  show u: "unat (sl_vaddr s + of_nat n * sz) = unat (sl_vaddr s) + n * unat sz"
    using unat_add_no_overflow [of "sl_vaddr s" "of_nat n * sz"] l b(1) unfolding m by simp
  have "unat (sl_vaddr s + slab_size head) = unat (sl_vaddr s) + unat (slab_size head)"
    using b(1) by (simp add: unat_add_no_overflow)
  then show "slab_contains (slab_size head) (sl_vaddr s + of_nat n * sz) s"
    unfolding slab_contains_def word_le_nat_alt word_less_nat_alt u using l by simp
  show "unat ((sl_vaddr s + of_nat n * sz - sl_vaddr s) div sz) = n"
    using b(3) m by (simp add: unat_div_distrib)
qed

lemma free_index_le: "free_index b \<le> 8"
  using free_index_free(1) [of b] by (cases "b = 0xFF") (auto simp del: free_index_full simp: free_index_full [simplified])

lemma find_mem: "find P xs = Some y \<Longrightarrow> y \<in> set xs \<and> P y"
  by (auto simp: find_Some_iff)

lemma slab_free_wf:
  assumes "cache_wf cache" and f: "slab_free cache p = Ret (r, cache')"
  shows "cache_wf cache'"
proof -
  obtain ha head where c: "c_head cache = Some (ha, head)" and wf: "head_wf (c_size cache) head"
    using assms(1) by (auto simp: cache_wf_def split: option.splits)
  let ?P = "slab_contains (slab_size head) p"
  show ?thesis
  proof (cases "find ?P (sfull head)")
    case None
    show ?thesis
    proof (cases "find ?P (spartial head)")
      case None
      then show ?thesis using f c assms(1) \<open>find ?P (sfull head) = None\<close> by (simp add: slab_free_def)
    next
      case (Some s)
      then have "slab_put cache ha head s p = Ret (r, cache')"
        using f c \<open>find ?P (sfull head) = None\<close> by (simp add: slab_free_def)
      then show ?thesis using slab_put_wf [OF wf] find_mem [OF Some] by blast
    qed
  next
    case (Some s)
    then have "slab_put cache ha head s p = Ret (r, cache')" using f c by (simp add: slab_free_def)
    then show ?thesis using slab_put_wf [OF wf] find_mem [OF Some] by blast
  qed
qed

lemma object_not_elsewhere:
  assumes "head_wf sz head" and "s \<in> set (slabs head)" and "t \<in> set (slabs head)" and "sl_node t \<noteq> sl_node s" and "n < 32"
  shows "\<not> slab_contains (slab_size head) (sl_vaddr s + of_nat n * sz) t"
proof -
  have g: "unat (sl_vaddr t) + unat (slab_size head) < 2 ^ 32"
    "unat (sl_vaddr s) + unat (slab_size head) < 2 ^ 32"
    "unat (sl_vaddr t) + unat (slab_size head) \<le> unat (sl_vaddr s) \<or> unat (sl_vaddr s) + unat (slab_size head) \<le> unat (sl_vaddr t)"
    using assms(1-4) by (auto simp: head_wf_def geo_wf_def geo_def)
  then have e: "unat (sl_vaddr t + slab_size head) = unat (sl_vaddr t) + unat (slab_size head)"
    "unat (sl_vaddr s + slab_size head) = unat (sl_vaddr s) + unat (slab_size head)"
    by (simp_all add: unat_add_no_overflow)
  have "unat (sl_vaddr s) \<le> unat (sl_vaddr s + of_nat n * sz)"
    "unat (sl_vaddr s + of_nat n * sz) < unat (sl_vaddr s) + unat (slab_size head)"
    using object_in_slab(2) [OF assms(1,2,5)] e by (simp_all add: slab_contains_def word_le_nat_alt word_less_nat_alt)
  then show ?thesis
    using g(3) e unfolding slab_contains_def word_le_nat_alt word_less_nat_alt by linarith
qed

lemma slab_put_taken:
  assumes wf: "head_wf (c_size cache) head" and s: "s \<in> set (slabs head)" and u: "sl_used s = b # bs" and b: "b \<noteq> 0xFF"
    and "sl_node s \<notin> sl_node ` set (sfull head')" and "spartial head' = s\<lparr>sl_used := take_byte (free_index b) b # bs\<rparr> # ps"
    and "sl_node s \<notin> sl_node ` set ps"
  shows "slab_put (cache\<lparr>c_head := h\<rparr>) ha head' (s\<lparr>sl_used := take_byte (free_index b) b # bs\<rparr>)
      (sl_vaddr s + of_nat (free_index b) * c_size cache) =
    Ret (0, cache\<lparr>c_log := c_log cache @ (if c_dtor cache then [Destroyed (sl_vaddr s + of_nat (free_index b) * c_size cache)] else []),
      c_head := Some (ha, if is_empty s then head'\<lparr>spartial := ps, sempty := s # sempty head'\<rparr> else head'\<lparr>spartial := s # ps\<rparr>)\<rparr>)"
proof -
  let ?s = "s\<lparr>sl_used := take_byte (free_index b) b # bs\<rparr>"
  have i: "free_index b < 8" using free_index_free(1) [OF b] .
  then have idx: "unat ((sl_vaddr s + of_nat (free_index b) * c_size cache - sl_vaddr s) div c_size cache) = free_index b"
    using object_in_slab(3) [OF wf s] by simp
  have sz: "c_size cache \<noteq> 0" using wf by (auto simp: head_wf_def)
  have r: "?s\<lparr>sl_used := put_byte (free_index b) (take_byte (free_index b) b) # bs\<rparr> = s"
    using put_take_byte [OF free_index_free(2) [OF b]] u by simp
  have n: "nl_update sl_node s (sfull head') = sfull head'" "nl_del sl_node (sl_node s) (sfull head') = sfull head'"
    "nl_update sl_node s ps = ps" "nl_del sl_node (sl_node s) ps = ps"
    using assms(5,7) by (simp_all add: nl_update_id nl_del_id)
  have p: "nl_update sl_node s (?s # ps) = s # ps" "nl_del sl_node (sl_node s) (s # ps) = ps"
    using n(3,4) by (simp_all add: nl_update_def nl_del_def)
  have f: "(sfull head' \<noteq> [] \<and> sl_node (hd (sfull head')) = sl_node s) = False"
    using assms(5) by (metis hd_in_set image_eqI)
  have self: "head'\<lparr>sfull := sfull head'\<rparr> = head'" by simp
  have q: "ucast ((ucast (take_byte (free_index b) b) :: u32) AND NOT (push_bit (free_index b) 1)) = b"
    using put_take_byte [OF free_index_free(2) [OF b]] by (simp add: put_byte_def)
  have uu: "s\<lparr>sl_used := b # bs\<rparr> = s" using u by simp
  show ?thesis
    using sz i idx
    by (cases "c_dtor cache") (simp_all add: slab_put_def Let_def q [unfolded push_bit_of_1] uu n p f assms(6) self)
qed


lemma slab_size_of_bounds:
  assumes "unat sz \<le> 2 ^ 20" and "k \<le> 12"
  shows "IS_ALIGNED (slab_size_of sz (2 ^ k)) PAGE_SIZE" and "32 * unat sz \<le> unat (slab_size_of sz (2 ^ k))"
proof -
  have P: "(PAGE_SIZE :: u32) = 2 ^ 12" by simp
  have p: "(2 :: nat) ^ k \<le> 2 ^ 12" using assms(2) by (intro power_increasing) simp_all
  define a where "a = (if sz < SLAB_MIN_SIZE then SLAB_MIN_SIZE else sz)"
  have a: "unat sz \<le> unat a" "unat a \<le> 2 ^ 20"
    using assms(1) by (auto simp: a_def SLAB_MIN_SIZE_def SLAB_ENTRIES_def word_less_nat_alt)
  define b where "b = ALIGN_ABOVE a (2 ^ k)"
  have b: "unat a \<le> unat b" "unat b < unat a + 2 ^ k"
    unfolding b_def by (rule align_above_least; use a p assms(2) in simp)+
  define c where "c = (if b > PAGE_SIZE div 2 then ALIGN_ABOVE b PAGE_SIZE else b)"
  have "unat b \<le> unat (ALIGN_ABOVE b (2 ^ 12))" "unat (ALIGN_ABOVE b (2 ^ 12)) < unat b + 2 ^ 12"
    by (rule align_above_least; use a b p in simp)+
  then have c: "unat b \<le> unat c" "unat c < unat b + 2 ^ 12" unfolding c_def P by simp_all
  have cu: "unat c < 2 ^ 21" using a b c p by simp
  then have m: "unat (c * SLAB_ENTRIES) = unat c * 32"
    by (simp add: SLAB_ENTRIES_def unat_word_ariths)
  have ov: "unat (c * SLAB_ENTRIES) + 2 ^ 12 \<le> 2 ^ LENGTH(32)" unfolding m using cu by simp
  have e: "slab_size_of sz (2 ^ k) = ALIGN_ABOVE (c * SLAB_ENTRIES) (2 ^ 12)"
    by (simp only: slab_size_of_def Let_def a_def [symmetric] b_def [symmetric] c_def [symmetric])
      (simp only: P)
  show "IS_ALIGNED (slab_size_of sz (2 ^ k)) PAGE_SIZE"
    unfolding e P by (rule align_above_least(1)) (use ov in simp_all)
  have "unat (c * SLAB_ENTRIES) \<le> unat (slab_size_of sz (2 ^ k))"
    unfolding e by (rule align_above_least(2)) (use ov in simp_all)
  then show "32 * unat sz \<le> unat (slab_size_of sz (2 ^ k))"
    using a b c unfolding m by linarith
qed

definition example_cache :: allocator_cache where
  "example_cache =
     \<lparr>c_locked = False,
      c_head = Some (0x80002000,
        \<lparr>slab_size = 0x1000, sempty = [\<lparr>sl_node = 0x80002020, sl_vaddr = 0x80004000, sl_used = [0, 0, 0, 0]\<rparr>],
         spartial = [\<lparr>sl_node = 0x80002040, sl_vaddr = 0x80006000, sl_used = [0x0B, 0, 0, 0]\<rparr>], sfull = []\<rparr>),
      c_size = 0x40, c_align = 8, c_flags = 0, c_ctor = False, c_dtor = False, c_log = []\<rparr>"

lemma example_cache_wf: "cache_wf example_cache"
  by (simp add: example_cache_def cache_wf_def head_wf_def geo_wf_def slabs_def geo_def SLAB_MASK_CHARS_def
      SLAB_ENTRIES_def is_empty_def)

text \<open>
  C8: a cache keeps its invariant: an allocation for which some slab is on the partial or the
  empty list returns an address inside one of the cache's slabs and keeps the slabs' nodes
  and memory apart and the lists sorted by use, and so does every \<open>cache_free\<close> that returns,
  whatever pointer it is given.
\<close>

theorem slab_invariant:
  assumes "cache_wf cache" and "c_head cache = Some (ha, head)"
  shows "(spartial head \<noteq> [] \<or> sempty head \<noteq> [] \<longrightarrow>
      (\<exists>obj cache'. slab_alloc k cache st = Ret (obj, cache', st) \<and> cache_wf cache' \<and>
        (\<exists>s \<in> set (slabs head). slab_contains (slab_size head) obj s))) \<and>
    (slab_free cache p = Ret (r, cache'') \<longrightarrow> cache_wf cache'')"
proof
  have wf: "head_wf (c_size cache) head" using assms by (simp add: cache_wf_def)
  show "spartial head \<noteq> [] \<or> sempty head \<noteq> [] \<longrightarrow>
      (\<exists>obj cache'. slab_alloc k cache st = Ret (obj, cache', st) \<and> cache_wf cache' \<and>
        (\<exists>s \<in> set (slabs head). slab_contains (slab_size head) obj s))"
  proof
    assume ne: "spartial head \<noteq> [] \<or> sempty head \<noteq> []"
    define s where "s = (if spartial head \<noteq> [] then hd (spartial head) else hd (sempty head))"
    have s: "s \<in> set (spartial head) \<or> (\<exists>es. sempty head = s # es)"
      using ne by (auto simp: s_def neq_Nil_conv)
    then have mem: "s \<in> set (slabs head)" by (auto simp: slabs_def)
    obtain cache' b where c: "slab_take cache ha head s = Ret (sl_vaddr s + of_nat (free_index b) * c_size cache, cache')"
      "cache_wf cache'" using slab_take_wf [OF wf assms(2) s] by blast
    have "slab_alloc k cache st = obind (slab_take cache ha head s) (\<lambda>(obj, cache). Ret (obj, cache, st))"
      using ne assms(2) by (auto simp: slab_alloc_def s_def neq_Nil_conv split: list.split)
    moreover have "slab_contains (slab_size head) (sl_vaddr s + of_nat (free_index b) * c_size cache) s"
      using object_in_slab(2) [OF wf mem] free_index_le [of b] by simp
    ultimately show "\<exists>obj cache'. slab_alloc k cache st = Ret (obj, cache', st) \<and> cache_wf cache' \<and>
        (\<exists>s \<in> set (slabs head). slab_contains (slab_size head) obj s)"
      using c mem by auto
  qed
  show "slab_free cache p = Ret (r, cache'') \<longrightarrow> cache_wf cache''"
    using slab_free_wf [OF assms(1)] by blast
qed


theorem slab_invariant_witness:
  "\<exists>obj cache'. slab_alloc (linked 0) example_cache kmem_reset = Ret (obj, cache', kmem_reset) \<and> cache_wf cache'"
proof -
  obtain ha head where h: "c_head example_cache = Some (ha, head)" "spartial head \<noteq> []"
    by (simp add: example_cache_def)
  show ?thesis
    using slab_invariant [OF example_cache_wf h(1), of "linked 0" kmem_reset] h(2) by blast
qed

text \<open>
  Creating a cache for objects of up to 1 MB with a power of two of at most a page as
  alignment sets up empty lists that satisfy the invariant: a slab is a whole number of
  pages with room for 32 objects. When no memory is left for the head, the result is \<open>EOF\<close>
  and the cache is as before.
\<close>

theorem slab_create_establishes:
  assumes "0 < c_size cache" and "c_size cache \<le> 2 ^ 20" and "c_align cache = 2 ^ n" and "n \<le> 12"
    and "k_malloc k sizeof_slab_head 0 st = Ret (ha, st')"
  shows "if ha = 0 then cache_create CSlab k (Some cache) st = Ret (EOF, Some (cache\<lparr>c_locked := False\<rparr>), st')
    else \<exists>cache' head. cache_create CSlab k (Some cache) st = Ret (0, Some cache', st') \<and> cache_wf cache' \<and>
      c_head cache' = Some (ha, head) \<and> slabs head = [] \<and> IS_ALIGNED (slab_size head) PAGE_SIZE \<and> \<not> c_locked cache'"
proof -
  have "unat (c_size cache) \<le> 2 ^ 20" using assms(2) by (simp add: word_le_nat_alt)
  from slab_size_of_bounds [OF this assms(4)] show ?thesis
    using assms
    by (simp add: cache_create_def slab_create_def Let_def cache_wf_def head_wf_def geo_wf_def slabs_def
        SLAB_ENTRIES_def)
qed

theorem slab_create_establishes_witness:
  "\<exists>cache' head. cache_create CSlab \<lparr>k_malloc = \<lambda>_ _ st. Ret (0x80003000, st), k_free = \<lambda>_ st. Ret st,
      p_alloc = \<lambda>p st. Ret (0, p, st), p_free = \<lambda>_ st. Ret st\<rparr> (Some example_cache) kmem_reset =
      Ret (0, Some cache', kmem_reset) \<and> cache_wf cache' \<and> c_head cache' = Some (0x80003000, head) \<and> slabs head = []"
proof -
  let ?k = "\<lparr>k_malloc = \<lambda>_ _ st. Ret (0x80003000, st), k_free = \<lambda>_ st. Ret st,
      p_alloc = \<lambda>p st. Ret (0, p, st), p_free = \<lambda>_ st. Ret st\<rparr>"
  have "0 < c_size example_cache" "c_size example_cache \<le> 2 ^ 20" "c_align example_cache = 2 ^ 3"
    by (simp_all add: example_cache_def)
  from slab_create_establishes [OF this, of ?k kmem_reset "0x80003000" kmem_reset]
  show ?thesis by auto
qed

text \<open>
  C10: what a run of allocations from a fresh slab returns. The first eight get the objects 0
  to 7 in order; from the ninth on every allocation returns object 8, because \<open>ffz\<close> of a
  byte with all bits set finds bit 8 of the extended word, which the store into the byte
  drops. The objects 9 to 31 are never handed out.
\<close>

theorem slab_alloc_sequence:
  assumes "c_head cache = Some (ha, head)" and "spartial head = []" and "sempty head = s # rest"
    and "sl_used s = [0, 0, 0, 0]" and "sl_node s \<notin> sl_node ` set rest"
  shows "\<exists>cache'. alloc_many k n cache st =
    Ret (map (\<lambda>i. sl_vaddr s + of_nat (min i 8) * c_size cache) [0..<n], cache', st)"
proof (cases n)
  case (Suc m)
  then show ?thesis using alloc_many_fresh [OF assms, of k m st] by blast
qed simp

theorem slab_alloc_sequence_witness:
  "\<exists>cache'. alloc_many (linked 0) 10
      (example_cache\<lparr>c_head := Some (0, \<lparr>slab_size = 0x1000,
         sempty = [\<lparr>sl_node = 0x80002020, sl_vaddr = 0x80004000, sl_used = [0, 0, 0, 0]\<rparr>], spartial = [], sfull = []\<rparr>)\<rparr>)
      kmem_reset =
    Ret ([0x80004000, 0x80004040, 0x80004080, 0x800040C0, 0x80004100, 0x80004140, 0x80004180, 0x800041C0,
          0x80004200, 0x80004200], cache', kmem_reset)"
proof -
  let ?s = "\<lparr>sl_node = 0x80002020, sl_vaddr = 0x80004000, sl_used = [0, 0, 0, 0]\<rparr> :: slab"
  let ?c = "example_cache\<lparr>c_head := Some (0, \<lparr>slab_size = 0x1000, sempty = [?s], spartial = [], sfull = []\<rparr>)\<rparr>"
  have "[0..<10] = [0, 1, 2, 3, 4, 5, 6, 7, 8, 9]" by (simp add: upt_rec)
  then show ?thesis
    using slab_alloc_sequence [of ?c 0 _ ?s "[]" "linked 0" 10 kmem_reset]
    by (simp add: example_cache_def min_def)
qed


lemma find_none_elsewhere:
  assumes "head_wf sz head" and "s \<in> set (slabs head)" and "n < 32"
    and "set xs \<subseteq> set (slabs head)" and "sl_node s \<notin> sl_node ` set xs"
  shows "find (slab_contains (slab_size head) (sl_vaddr s + of_nat n * sz)) xs = None"
proof -
  have "\<not> slab_contains (slab_size head) (sl_vaddr s + of_nat n * sz) t" if "t \<in> set xs" for t
    using object_not_elsewhere [OF assms(1,2) _ _ assms(3), of t] that assms(4,5) by (metis imageI subsetD)
  then show ?thesis by (simp add: find_None_iff)
qed

text \<open>
  C9: an object of the first eight of a slab makes the round trip: allocating it from the
  slab in use, or from an empty slab when none is in use, and freeing it returns 0 and
  leaves the lists and bitmaps of the cache exactly as they were; the destructor, if the
  cache has one, is called once, on that object.
\<close>

theorem slab_alloc_free:
  assumes wf: "cache_wf cache" and c: "c_head cache = Some (ha, head)"
    and s: "spartial head = s # ps \<or> spartial head = [] \<and> ps = [] \<and> sempty head = s # es"
    and u: "sl_used s = [b, 0, 0, 0]" and b: "b \<noteq> 0xFF"
  shows "\<exists>obj cache'. slab_alloc k cache st = Ret (obj, cache', st) \<and>
    slab_free cache' obj = Ret (0, cache\<lparr>c_log := c_log cache @ (if c_dtor cache then [Destroyed obj] else [])\<rparr>)"
proof -
  have hw: "head_wf (c_size cache) head" using wf c by (simp add: cache_wf_def)
  have mem: "s \<in> set (slabs head)" using s by (auto simp: slabs_def)
  have d: "distinct (map sl_node (slabs head))" by (rule head_wf_distinct [OF hw])
  have e: "is_empty s \<longleftrightarrow> spartial head = []" using s hw by (auto simp: head_wf_def)
  define obj where "obj = sl_vaddr s + of_nat (free_index b) * c_size cache"
  define s' where "s' = s\<lparr>sl_used := take_byte (free_index b) b # [0, 0, 0]\<rparr>"
  define h where "h = head\<lparr>sempty := (if spartial head = [] then es else sempty head), spartial := s' # ps\<rparr>"
  have o: "open_slab s" using u by (simp add: open_slab_def)
  have nd: "sl_node s \<notin> sl_node ` set (sfull head)" "sl_node s \<notin> sl_node ` set ps"
    using d s by (auto simp: slabs_def)
  have "slab_alloc k cache st = Ret (obj, cache\<lparr>c_head := Some (ha, h)\<rparr>, st)"
  proof (cases "spartial head = []")
    case True
    then show ?thesis
      using slab_alloc_empty [OF c True _ o u, of es k st] s d
      by (auto simp: obj_def h_def s'_def slabs_def)
  next
    case False
    then have "sl_node s \<notin> sl_node ` set (sempty head @ ps)" "spartial head = s # ps"
      using s d by (auto simp: slabs_def image_Un)
    then show ?thesis
      using slab_alloc_partial [OF c _ o u, of ps k st] by (simp add: obj_def h_def s'_def)
  qed
  moreover have n: "free_index b < 32" using free_index_le [of b] by simp
  have "find (slab_contains (slab_size h) obj) (sfull h) = None"
    using find_none_elsewhere [OF hw mem n, of "sfull head"] nd(1) by (auto simp: h_def obj_def slabs_def)
  moreover have "slab_contains (slab_size h) obj s'"
    using object_in_slab(2) [OF hw mem n] by (simp add: h_def obj_def s'_def slab_contains_def)
  ultimately have "slab_alloc k cache st = Ret (obj, cache\<lparr>c_head := Some (ha, h)\<rparr>, st)"
    "slab_free (cache\<lparr>c_head := Some (ha, h)\<rparr>) obj = slab_put (cache\<lparr>c_head := Some (ha, h)\<rparr>) ha h s' obj"
    by (simp_all add: slab_free_def h_def)
  moreover have "(if is_empty s then h\<lparr>spartial := ps, sempty := s # sempty h\<rparr> else h\<lparr>spartial := s # ps\<rparr>) = head"
    using s e by (auto simp: h_def)
  ultimately show ?thesis
    using slab_put_taken [OF hw mem u b, of h ps "Some (ha, h)" ha] nd c
    by (simp add: h_def [symmetric] s'_def obj_def) (simp add: h_def s'_def)
qed

theorem slab_alloc_free_witness:
  "\<exists>obj cache'. slab_alloc (linked 0) example_cache kmem_reset = Ret (obj, cache', kmem_reset) \<and>
    slab_free cache' obj = Ret (0, example_cache)"
proof -
  have "\<exists>ha head. c_head example_cache = Some (ha, head) \<and>
    spartial head = [\<lparr>sl_node = 0x80002040, sl_vaddr = 0x80006000, sl_used = [0x0B, 0, 0, 0]\<rparr>]"
    by (simp add: example_cache_def)
  then obtain ha head where h: "c_head example_cache = Some (ha, head)"
    "spartial head = [\<lparr>sl_node = 0x80002040, sl_vaddr = 0x80006000, sl_used = [0x0B, 0, 0, 0]\<rparr>]" by blast
  show ?thesis
    using slab_alloc_free [OF example_cache_wf h(1) disjI1 [OF h(2)], of "0x0B" "linked 0" kmem_reset]
    by (simp add: example_cache_def)
qed

end
