(* ===== verification/ArmMm.thy ===== *)
theory ArmMm
  imports EarlyMap Slab
begin

text \<open>
  Memory management of ARMv7-A, \<open>kern/arch/armv7a/mm.c\<close> with \<open>include/arch/armv7a/mmu.h\<close>:
  first-level tables of 4096 sections of 1 MB, second-level tables of 256 pages. Tables come
  from two caches; allocating from and freeing to them are fields of a table of operations
  over the memory and the state of the caches. The code uses the physical address in a
  first-level entry as a pointer to the second-level table, and so does the model.
\<close>

section \<open>Constants\<close>

definition ARM_SECT_SHIFT :: nat where "ARM_SECT_SHIFT = 20"
definition ARM_SECT_SIZE :: "'w :: len word" where "ARM_SECT_SIZE = push_bit ARM_SECT_SHIFT 1"
definition ARM_PAGE_SHIFT :: nat where "ARM_PAGE_SHIFT = 12"
definition ARM_PAGE_SIZE :: "'w :: len word" where "ARM_PAGE_SIZE = push_bit ARM_PAGE_SHIFT 1"

definition ARM_PT_AP_USER_NONE :: u32 where "ARM_PT_AP_USER_NONE = 0x1"
definition ARM_PT_AP_USER_READ :: u32 where "ARM_PT_AP_USER_READ = 0x2"
definition ARM_PT_AP_USER_BOTH :: u32 where "ARM_PT_AP_USER_BOTH = 0x3"
definition ARM_PT_L1_TABLE_BASE_MASK :: u32 where "ARM_PT_L1_TABLE_BASE_MASK = 0xFFFFFC00"
definition ARM_PT_L1_SECT_BASE_MASK :: u32 where "ARM_PT_L1_SECT_BASE_MASK = 0xFFF00000"
definition ARM_PT_L1_TYPE_MASK :: u32 where "ARM_PT_L1_TYPE_MASK = 0x3"
definition ARM_PT_L1_SECT :: u32 where "ARM_PT_L1_SECT = 0x2"
definition ARM_PT_L1_TABLE :: u32 where "ARM_PT_L1_TABLE = 0x1"
definition ARM_PT_L2_PAGE_BASE_MASK :: u32 where "ARM_PT_L2_PAGE_BASE_MASK = 0xFFFFF000"
definition ARM_PT_L2_PAGE :: u32 where "ARM_PT_L2_PAGE = 0x2"
definition ARM_PT_L1_LENGTH :: nat where "ARM_PT_L1_LENGTH = 4096"
definition ARM_PT_L2_LENGTH :: nat where "ARM_PT_L2_LENGTH = 256"
definition ARM_PT_L1_SIZE :: u32 where "ARM_PT_L1_SIZE = of_nat ARM_PT_L1_LENGTH * 4"
definition ARM_PT_L2_SIZE :: u32 where "ARM_PT_L2_SIZE = of_nat ARM_PT_L2_LENGTH * 4"

definition MAP_TYPE_MASK :: u32 where "MAP_TYPE_MASK = 0x30000"
definition MAP_USER_MEM :: u32 where "MAP_USER_MEM = 0x00000"
definition MAP_KERN_MEM :: u32 where "MAP_KERN_MEM = 0x10000"
definition MAP_PRIV_DEV :: u32 where "MAP_PRIV_DEV = 0x20000"
definition MAP_SHARED_DEV :: u32 where "MAP_SHARED_DEV = 0x30000"

section \<open>Operations\<close>

type_synonym 'k astate = "32 mem \<times> 'k"

record 'k arm_ops =
  l1_alloc :: "'k astate \<Rightarrow> (u32 \<times> 'k astate) outcome"
  l1_free :: "u32 \<Rightarrow> 'k astate \<Rightarrow> 'k astate outcome"
  l2_alloc :: "'k astate \<Rightarrow> (u32 \<times> 'k astate) outcome"
  l2_free :: "u32 \<Rightarrow> 'k astate \<Rightarrow> 'k astate outcome"

definition arm_page_index_clear :: "u32 \<Rightarrow> 32 mem \<Rightarrow> 32 mem" where
  "arm_page_index_clear index mem = (\<lambda>a. if unat (a - index) < unat ARM_PT_L1_SIZE then 0 else mem a)"

definition pt_l2_clear :: "u32 \<Rightarrow> 32 mem \<Rightarrow> 32 mem" where
  "pt_l2_clear pt mem = (\<lambda>a. if unat (a - pt) < unat ARM_PT_L2_SIZE then 0 else mem a)"

text \<open>\<open>convert_flags\<close>: the fields of an entry.\<close>

record arm_attr =
  at_ap :: u32
  at_tex :: u32
  at_c :: u32
  at_b :: u32
  at_s :: u32
  at_xn :: u32

definition convert_flags :: "u32 \<Rightarrow> arm_attr" where
  "convert_flags flags =
     (let ap = (if flags AND VMA_WRITE \<noteq> 0 then ARM_PT_AP_USER_BOTH
                else if flags AND VMA_READ \<noteq> 0 then ARM_PT_AP_USER_READ else ARM_PT_AP_USER_NONE);
          xn = (if flags AND VMA_EXEC \<noteq> 0 then 0 else 1);
          f = flags AND MAP_TYPE_MASK
      in if f = MAP_USER_MEM then \<lparr>at_ap = ap, at_tex = 1, at_c = 1, at_b = 1, at_s = 1, at_xn = xn\<rparr>
         else if f = MAP_KERN_MEM then \<lparr>at_ap = ap, at_tex = 1, at_c = 1, at_b = 1, at_s = 1, at_xn = xn\<rparr>
         else if f = MAP_PRIV_DEV then \<lparr>at_ap = ap, at_tex = 2, at_c = 0, at_b = 0, at_s = 0, at_xn = xn\<rparr>
         else if f = MAP_SHARED_DEV then \<lparr>at_ap = ap, at_tex = 0, at_c = 0, at_b = 1, at_s = 0, at_xn = xn\<rparr>
         else \<lparr>at_ap = ap, at_tex = 1, at_c = 1, at_b = 1, at_s = 1, at_xn = xn\<rparr>)"

definition l1_entry :: "u32 \<Rightarrow> u32 \<Rightarrow> u32" where
  "l1_entry page_table vaddr = cell page_table (drop_bit ARM_SECT_SHIFT vaddr)"

definition l2_entry :: "u32 \<Rightarrow> u32 \<Rightarrow> u32" where
  "l2_entry t2 vaddr = cell t2 (drop_bit ARM_PAGE_SHIFT vaddr AND 0xFF)"

definition arm_unmap_l1 :: "'k arm_ops \<Rightarrow> u32 \<Rightarrow> u32 \<Rightarrow> 'k astate \<Rightarrow> 'k astate outcome" where
  "arm_unmap_l1 u page_table vaddr s =
     (let entry = fst s (l1_entry page_table vaddr)
      in obind (if entry AND ARM_PT_L1_TYPE_MASK = ARM_PT_L1_TABLE then l2_free u (entry AND ARM_PT_L1_TABLE_BASE_MASK) s else Ret s)
           (\<lambda>(mem, k). Ret (mem(l1_entry page_table vaddr := 0), k)))"

definition sect_entry :: "addr_t \<Rightarrow> u32 \<Rightarrow> u32" where
  "sect_entry pa flags =
     (let t = convert_flags flags
      in ARM_PT_L1_SECT OR ucast pa OR push_bit 16 (at_s t) OR push_bit 12 (at_tex t) OR push_bit 10 (at_ap t)
         OR push_bit 4 (at_xn t) OR push_bit 3 (at_c t) OR push_bit 2 (at_b t))"

definition arm_map_sect :: "'k arm_ops \<Rightarrow> u32 \<Rightarrow> addr_t \<Rightarrow> u32 \<Rightarrow> u32 \<Rightarrow> 'k astate \<Rightarrow> 'k astate outcome" where
  "arm_map_sect u page_table pa vaddr flags s =
     obind (arm_unmap_l1 u page_table vaddr s) (\<lambda>(mem, k). Ret (mem(l1_entry page_table vaddr := sect_entry pa flags), k))"

text \<open>\<open>physbase\<close> is the configured start of physical memory.\<close>

definition arm_map_table :: "u32 \<Rightarrow> 'k arm_ops \<Rightarrow> u32 \<Rightarrow> u32 \<Rightarrow> 'k astate \<Rightarrow> 'k astate outcome" where
  "arm_map_table physbase u page_table vaddr s =
     (if fst s (l1_entry page_table vaddr) AND ARM_PT_L1_TYPE_MASK = ARM_PT_L1_TABLE then Ret s
      else obind (l2_alloc u s) (\<lambda>(l2, mem, k).
        kassert (l2 \<noteq> 0) (Ret (mem(l1_entry page_table vaddr := ARM_PT_L1_TABLE OR arm_kva2pa physbase l2), k))))"

definition page_entry :: "addr_t \<Rightarrow> u32 \<Rightarrow> u32" where
  "page_entry pa flags =
     (let t = convert_flags flags
      in ARM_PT_L2_PAGE OR ucast pa OR push_bit 10 (at_s t) OR push_bit 6 (at_tex t) OR push_bit 4 (at_ap t)
         OR push_bit 3 (at_c t) OR push_bit 2 (at_b t) OR at_xn t)"

definition arm_map_page :: "u32 \<Rightarrow> 'k arm_ops \<Rightarrow> u32 \<Rightarrow> addr_t \<Rightarrow> u32 \<Rightarrow> u32 \<Rightarrow> 'k astate \<Rightarrow> 'k astate outcome" where
  "arm_map_page physbase u page_table pa vaddr flags s =
     obind (arm_map_table physbase u page_table (ALIGN_BELOW vaddr ARM_SECT_SIZE) s) (\<lambda>(mem, k).
       let e1 = mem (l1_entry page_table vaddr);
           t2 = e1 AND ARM_PT_L1_TABLE_BASE_MASK
       in Ret (mem(l2_entry t2 vaddr := page_entry pa flags), k))"

text \<open>The loop of the early map, with enough rounds for a range that does not wrap.\<close>

fun arm_early_loop :: "'k arm_ops \<Rightarrow> nat \<Rightarrow> u32 \<Rightarrow> addr_t \<Rightarrow> u32 \<Rightarrow> u32 \<Rightarrow> 'k astate \<Rightarrow> 'k astate outcome" where
  "arm_early_loop u 0 index pa va vend s = Hang"
| "arm_early_loop u (Suc n) index pa va vend s =
     (if va < vend then
        obind (arm_map_sect u index pa va (MAP_SHARED_DEV OR VMA_EXEC) s)
          (arm_early_loop u n index (pa + ARM_SECT_SIZE) (va + ARM_SECT_SIZE) vend)
      else Ret s)"

definition arm_page_index_early_map :: "'k arm_ops \<Rightarrow> u32 \<Rightarrow> addr_t \<Rightarrow> u32 \<Rightarrow> u32 \<Rightarrow> 'k astate \<Rightarrow> (int \<times> 'k astate) outcome" where
  "arm_page_index_early_map u index pa va len s =
     (if IS_ALIGNED pa ARM_SECT_SIZE \<and> IS_ALIGNED va ARM_SECT_SIZE \<and> \<not> IS_ALIGNED len ARM_SECT_SIZE then Ret (EOF, s)
      else obind (arm_early_loop u 4098 index pa va (va + len) s) (\<lambda>s. Ret (0, s)))"

definition arm_add_memory_pages :: "u32 \<Rightarrow> kops \<Rightarrow> u32 \<Rightarrow> addr_t \<Rightarrow> kmem \<Rightarrow> kmem outcome" where
  "arm_add_memory_pages physbase k kern_end mem_size st =
     p_free k \<lparr>paddr = ucast (premap_addr (arm_kva2pa physbase) kern_end),
               psize = mem_size - (ucast kern_end - ucast KERN_BASE), pflags = 0\<rparr> st"

text \<open>The two caches that \<open>arch_mm_init\<close> creates, with the clearing routines as constructor and destructor.\<close>

definition sizeof_allocator_cache :: u32 where "sizeof_allocator_cache = 28"

definition pt_cache :: "u32 \<Rightarrow> allocator_cache" where
  "pt_cache sz = \<lparr>c_locked = False, c_head = None, c_size = sz, c_align = sz, c_flags = 0, c_ctor = True, c_dtor = True, c_log = []\<rparr>"

definition new_pt_cache :: "caching_allocator \<Rightarrow> kops \<Rightarrow> u32 \<Rightarrow> kmem \<Rightarrow> (allocator_cache option \<times> kmem) outcome" where
  "new_pt_cache a k sz st =
     obind (k_malloc k sizeof_allocator_cache 0 st) (\<lambda>(p, st).
       kassert (p \<noteq> 0) (obind (cache_create a k (Some (pt_cache sz)) st) (\<lambda>(r, c, st). kassert (r = 0) (Ret (c, st)))))"

definition arch_mm_init :: "caching_allocator \<Rightarrow> kops \<Rightarrow> kmem \<Rightarrow> (allocator_cache option \<times> allocator_cache option \<times> kmem) outcome" where
  "arch_mm_init a k st =
     obind (new_pt_cache a k ARM_PT_L1_SIZE st) (\<lambda>(l1, st).
       obind (new_pt_cache a k ARM_PT_L2_SIZE st) (\<lambda>(l2, st). Ret (l1, l2, st)))"

definition arm_init_pgindex :: "'k arm_ops \<Rightarrow> 'k astate \<Rightarrow> (u32 \<times> 'k astate) outcome" where
  "arm_init_pgindex u s = l1_alloc u s"

primrec free_l2_tables :: "'k arm_ops \<Rightarrow> u32 \<Rightarrow> nat list \<Rightarrow> 'k astate \<Rightarrow> 'k astate outcome" where
  "free_l2_tables u table [] s = Ret s"
| "free_l2_tables u table (i # is) s =
     (let e = fst s (cell table (of_nat i))
      in obind (if e AND ARM_PT_L1_TYPE_MASK = ARM_PT_L1_TABLE then l2_free u (e AND ARM_PT_L1_TABLE_BASE_MASK) s else Ret s)
           (free_l2_tables u table is))"

definition arm_destroy_pgindex :: "'k arm_ops \<Rightarrow> u32 \<Rightarrow> 'k astate \<Rightarrow> 'k astate outcome" where
  "arm_destroy_pgindex u pgindex s = obind (free_l2_tables u pgindex [0..<ARM_PT_L1_LENGTH] s) (l1_free u pgindex)"

text \<open>The size is a multiple of the page size, so the number of pages is a bound on the rounds.\<close>

fun arm_map_loop :: "u32 \<Rightarrow> 'k arm_ops \<Rightarrow> nat \<Rightarrow> u32 \<Rightarrow> u32 \<Rightarrow> addr_t \<Rightarrow> u32 \<Rightarrow> u32 \<Rightarrow> 'k astate \<Rightarrow> 'k astate outcome" where
  "arm_map_loop physbase u 0 pgindex vaddr pa sz flags s = Hang"
| "arm_map_loop physbase u (Suc n) pgindex vaddr pa sz flags s =
     (if 0 < sz then
        if IS_ALIGNED vaddr ARM_SECT_SIZE \<and> IS_ALIGNED pa ARM_SECT_SIZE \<and> ARM_SECT_SIZE \<le> sz then
          obind (arm_map_sect u pgindex pa vaddr flags s)
            (arm_map_loop physbase u n pgindex (vaddr + ARM_SECT_SIZE) (pa + ARM_SECT_SIZE) (sz - ARM_SECT_SIZE) flags)
        else
          obind (arm_map_page physbase u pgindex pa vaddr flags s)
            (arm_map_loop physbase u n pgindex (vaddr + ARM_PAGE_SIZE) (pa + ARM_PAGE_SIZE) (sz - ARM_PAGE_SIZE) flags)
      else Ret s)"

definition arm_map_pages :: "u32 \<Rightarrow> 'k arm_ops \<Rightarrow> u32 \<Rightarrow> u32 \<Rightarrow> addr_t \<Rightarrow> u32 \<Rightarrow> u32 \<Rightarrow> 'k astate \<Rightarrow> (int \<times> 'k astate) outcome" where
  "arm_map_pages physbase u pgindex vaddr pa sz flags s =
     (if pgindex = 0 then Ret (EOF, s)
      else if \<not> (IS_ALIGNED vaddr ARM_PAGE_SIZE \<and> IS_ALIGNED pa ARM_PAGE_SIZE \<and> IS_ALIGNED sz ARM_PAGE_SIZE) then Ret (EOF, s)
      else obind (arm_map_loop physbase u (Suc (unat sz div 4096)) pgindex vaddr pa sz flags s) (\<lambda>s. Ret (0, s)))"

definition get_mapped :: "u32 \<Rightarrow> 32 mem \<Rightarrow> u32 \<Rightarrow> addr_t \<times> u32" where
  "get_mapped pt mem vaddr =
     (let e1 = mem (l1_entry pt vaddr)
      in if e1 AND ARM_PT_L1_TYPE_MASK = ARM_PT_L1_TABLE then
           (let e2 = mem (l2_entry (e1 AND ARM_PT_L1_TABLE_BASE_MASK) vaddr)
            in (ucast (e2 AND ARM_PT_L2_PAGE_BASE_MASK), ARM_PAGE_SIZE))
         else if e1 AND ARM_PT_L1_TYPE_MASK = ARM_PT_L1_SECT then (ucast (e1 AND ARM_PT_L1_SECT_BASE_MASK), ARM_SECT_SIZE)
         else (0, 0))"

text \<open>\<open>unmap_pages\<close> only reads the tables; \<open>*paddr\<close> is never written.\<close>

fun arm_unmap_loop :: "nat \<Rightarrow> u32 \<Rightarrow> 32 mem \<Rightarrow> u32 \<Rightarrow> u32 \<Rightarrow> addr_t \<Rightarrow> u32 \<Rightarrow> u32 \<Rightarrow> int outcome" where
  "arm_unmap_loop 0 table mem vaddr sz head_paddr block_size this_size = Hang"
| "arm_unmap_loop (Suc n) table mem vaddr sz head_paddr block_size this_size =
     (if block_size < sz then
        let vaddr = vaddr + this_size; (this_paddr, this_size) = get_mapped table mem vaddr
        in if this_size = 0 \<or> this_paddr \<noteq> head_paddr + ucast block_size then Ret (sint block_size)
           else arm_unmap_loop n table mem vaddr sz head_paddr (block_size + this_size) this_size
      else Ret (sint block_size))"

definition arm_unmap_pages :: "u32 \<Rightarrow> 32 mem \<Rightarrow> u32 \<Rightarrow> u32 \<Rightarrow> int outcome" where
  "arm_unmap_pages table mem vaddr sz =
     (let (head_paddr, block_size) = get_mapped table mem vaddr
      in if block_size = 0 then Ret 0
         else arm_unmap_loop (unat sz div 4096 + 2) table mem vaddr sz head_paddr block_size block_size)"

section \<open>Sections\<close>

lemma ARM_SECT_SIZE_eq: "ARM_SECT_SIZE = (2 ^ 20 :: 'w :: len word)"
  by (simp add: ARM_SECT_SIZE_def ARM_SECT_SHIFT_def push_bit_eq_mult)

lemma ARM_PAGE_SIZE_eq: "ARM_PAGE_SIZE = (2 ^ 12 :: 'w :: len word)"
  by (simp add: ARM_PAGE_SIZE_def ARM_PAGE_SHIFT_def push_bit_eq_mult)

text \<open>The translation by a section of the first-level table; second-level tables are not followed.\<close>

definition arm_sect_walk :: "u32 \<Rightarrow> 32 mem \<Rightarrow> u32 \<Rightarrow> u32 option" where
  "arm_sect_walk pt mem va =
     (let e = mem (cell pt (drop_bit 20 va))
      in if e AND 3 = 2 then Some ((e AND 0xFFF00000) + (va AND mask 20)) else None)"

lemma sect_entry_low:
  "\<exists>low. sect_entry pa flags = ucast pa OR low \<and> low AND 3 = 2 \<and> low AND 0xFFF00000 = 0"
proof -
  let ?t = "convert_flags flags"
  define low where "low = ARM_PT_L1_SECT OR push_bit 16 (at_s ?t) OR push_bit 12 (at_tex ?t) OR push_bit 10 (at_ap ?t)
         OR push_bit 4 (at_xn ?t) OR push_bit 3 (at_c ?t) OR push_bit 2 (at_b ?t)"
  have e: "sect_entry pa flags = ucast pa OR low"
    unfolding sect_entry_def Let_def low_def by (simp only: or.assoc or.left_commute)
  have a: "at_ap ?t \<in> {1, 2, 3}" "at_xn ?t \<in> {0, 1}"
    "(at_tex ?t, at_c ?t, at_b ?t, at_s ?t) \<in> {(1, 1, 1, 1), (2, 0, 0, 0), (0, 0, 1, 0)}"
    unfolding convert_flags_def Let_def
    by (simp_all add: ARM_PT_AP_USER_BOTH_def ARM_PT_AP_USER_READ_def ARM_PT_AP_USER_NONE_def split: if_split)
  have "low AND 3 = 2 \<and> low AND 0xFFF00000 = 0"
    using a unfolding low_def ARM_PT_L1_SECT_def by (elim insertE emptyE) (simp_all add: push_bit_eq_mult)
  then show ?thesis using e by blast
qed

lemma sect_entry_parts:
  assumes "2 ^ 20 dvd unat (pa :: u64)"
  shows "sect_entry pa flags AND 3 = 2" "sect_entry pa flags AND 0xFFF00000 = ucast pa"
proof -
  obtain low where low: "sect_entry pa flags = ucast pa OR low" "low AND 3 = 2" "low AND 0xFFF00000 = 0"
    using sect_entry_low by blast
  have "unat pa mod 2 ^ 20 = 0" using assms by (simp only: dvd_imp_mod_0)
  then have low20: "pa AND mask 20 = 0" by (metis unat_and_mask unat_eq_0)
  have lb: "\<not> bit pa i" if "i < 20" for i
    using arg_cong [OF low20, of "\<lambda>x. bit x i"] that by (simp add: bit_simps)
  have m: "(3 :: u32) = mask 2" "(0xFFF00000 :: u32) = NOT (mask 20)" by (simp_all add: mask_eq_exp_minus_1)
  have "(ucast pa :: u32) AND 3 = 0" unfolding m(1)
    by (rule bit_word_eqI) (use lb in \<open>auto simp: bit_simps\<close>)
  then show "sect_entry pa flags AND 3 = 2" unfolding low(1) by (simp only: bit.conj_disj_distrib2 low(2)) simp
  have "(ucast pa :: u32) AND 0xFFF00000 = ucast pa" unfolding m(2)
    by (rule bit_word_eqI) (use lb in \<open>auto simp: bit_simps intro: leI\<close>)
  then show "sect_entry pa flags AND 0xFFF00000 = ucast pa" unfolding low(1) by (simp only: bit.conj_disj_distrib2 low(3)) simp
qed

lemma cell_l1_inj:
  assumes "i < (4096 :: u32)" "j < 4096"
  shows "cell pt i = cell pt j \<longleftrightarrow> i = j"
proof -
  have u: "unat (4 * x) = 4 * unat x" if "x < (4096 :: u32)" for x
    using that by (simp add: word_less_nat_alt unat_word_ariths)
  have "4 * i = 4 * j \<longleftrightarrow> i = j" using u [OF assms(1)] u [OF assms(2)] by (auto simp: word_unat_eq_iff)
  then show ?thesis by (simp add: cell_def)
qed

lemma unat_l1_index: "unat (drop_bit 20 (va :: u32)) = unat va div 2 ^ 20"
  unfolding unat_drop_bit_eq by (simp add: drop_bit_eq_div)

lemma arm_map_sect_free:
  assumes "mem (l1_entry pt va) AND 3 \<noteq> 1"
  shows "arm_map_sect u pt pa va flags (mem, k) = Ret (mem(l1_entry pt va := sect_entry pa flags), k)"
  using assms by (simp add: arm_map_sect_def arm_unmap_l1_def ARM_PT_L1_TYPE_MASK_def ARM_PT_L1_TABLE_def Let_def)

lemma arm_map_loop_sections:
  assumes "2 ^ 20 dvd unat va" "2 ^ 20 dvd unat pa" and "unat va + n * 2 ^ 20 \<le> 2 ^ 32" and "unat sz = n * 2 ^ 20" and "n < fuel"
    and "\<forall>i < 4096. unat va div 2 ^ 20 \<le> unat i \<and> unat i < unat va div 2 ^ 20 + n \<longrightarrow> mem (cell pt i) AND 3 \<noteq> 1"
  shows "\<exists>mem'. arm_map_loop physbase u fuel pt va pa sz flags (mem, k) = Ret (mem', k) \<and>
    (\<forall>i < 4096. mem' (cell pt i) = (if unat va div 2 ^ 20 \<le> unat i \<and> unat i < unat va div 2 ^ 20 + n
      then sect_entry (pa + of_nat ((unat i - unat va div 2 ^ 20) * 2 ^ 20)) flags else mem (cell pt i)))"
  using assms
proof (induction n arbitrary: fuel va pa sz mem)
  case 0
  then have "sz = 0" by (simp add: unat_eq_0)
  then show ?case using 0 by (cases fuel) auto
next
  case (Suc n)
  obtain f where f: "fuel = Suc f" using Suc.prems(5) by (cases fuel) auto
  obtain j where j: "unat va = 2 ^ 20 * j" using Suc.prems(1) by blast
  have j4: "j < 4096" using Suc.prems(3) j by simp
  have x: "unat (drop_bit 20 va) = j" by (simp add: unat_l1_index j)
  have jd: "unat va div 2 ^ 20 = j" by (simp add: j)
  have le: "ARM_SECT_SIZE \<le> sz" "0 < sz" using Suc.prems(4) by (simp_all add: ARM_SECT_SIZE_eq word_le_nat_alt word_less_nat_alt)
  have sz: "unat (sz - ARM_SECT_SIZE) = n * 2 ^ 20"
    using le(1) Suc.prems(4) by (simp add: unat_sub ARM_SECT_SIZE_eq)
  have al: "IS_ALIGNED va ARM_SECT_SIZE" "IS_ALIGNED pa ARM_SECT_SIZE"
    unfolding ARM_SECT_SIZE_eq is_aligned_iff_dvd using Suc.prems(1,2) .
  let ?mem = "mem(cell pt (drop_bit 20 va) := sect_entry pa flags)"
  have step: "arm_map_sect u pt pa va flags (mem, k) = Ret (?mem, k)"
  proof -
    have "mem (cell pt (drop_bit 20 va)) AND 3 \<noteq> 1"
      using Suc.prems(6) [rule_format, of "drop_bit 20 va"] x j4 jd by (simp add: word_less_nat_alt)
    then show ?thesis using arm_map_sect_free [of mem pt va] by (simp add: l1_entry_def ARM_SECT_SHIFT_def)
  qed
  have c: "cell pt i = cell pt (drop_bit 20 va) \<longleftrightarrow> unat i = j" if "i < 4096" for i
    using cell_l1_inj [OF that, of "drop_bit 20 va" pt] x j4 by (auto simp: word_less_nat_alt word_unat_eq_iff)
  have pa2: "2 ^ 20 dvd unat (pa + ARM_SECT_SIZE)"
  proof -
    have "unat (pa + ARM_SECT_SIZE) = (unat pa + 2 ^ 20) mod 2 ^ 64" by (simp add: ARM_SECT_SIZE_eq unat_word_ariths)
    moreover have "2 ^ 20 dvd (unat pa + 2 ^ 20) mod 2 ^ 64" by (rule dvd_mod) (use Suc.prems(2) in simp_all)
    ultimately show ?thesis by simp
  qed
  show ?case
  proof (cases "n = 0")
    case True
    then have "arm_map_loop physbase u f pt (va + ARM_SECT_SIZE) (pa + ARM_SECT_SIZE) (sz - ARM_SECT_SIZE) flags (?mem, k) = Ret (?mem, k)"
      using sz Suc.prems(5) f by (cases f) (simp_all add: unat_eq_0)
    then show ?thesis using f le al step c True jd by auto
  next
    case False
    have up: "unat (va + ARM_SECT_SIZE) = unat va + 2 ^ 20"
      unfolding ARM_SECT_SIZE_eq using Suc.prems(3) False by (subst unat_add_no_overflow) simp_all
    have k1: "unat (va + ARM_SECT_SIZE) div 2 ^ 20 = Suc j" unfolding up j by simp
    have p: "2 ^ 20 dvd unat (va + ARM_SECT_SIZE)" "unat (va + ARM_SECT_SIZE) + n * 2 ^ 20 \<le> 2 ^ 32" "n < f"
      unfolding up using Suc.prems f by simp_all
    have free: "\<forall>i < 4096. Suc j \<le> unat i \<and> unat i < Suc j + n \<longrightarrow> ?mem (cell pt i) AND 3 \<noteq> 1"
      using Suc.prems(6) c unfolding jd by simp
    obtain mem' where m: "arm_map_loop physbase u f pt (va + ARM_SECT_SIZE) (pa + ARM_SECT_SIZE) (sz - ARM_SECT_SIZE) flags (?mem, k) = Ret (mem', k)"
      "\<forall>i < 4096. mem' (cell pt i) = (if Suc j \<le> unat i \<and> unat i < Suc j + n
        then sect_entry (pa + ARM_SECT_SIZE + of_nat ((unat i - Suc j) * 2 ^ 20)) flags else ?mem (cell pt i))"
      using Suc.IH [OF p(1) pa2 p(2) sz p(3), of ?mem] free unfolding k1 by blast
    have "mem' (cell pt i) = (if j \<le> unat i \<and> unat i < j + Suc n
        then sect_entry (pa + of_nat ((unat i - j) * 2 ^ 20)) flags else mem (cell pt i))" if i: "i < 4096" for i
    proof (cases "unat i \<le> j")
      case True
      then show ?thesis using m(2) i c by auto
    next
      case F: False
      then have "unat i - j = Suc (unat i - Suc j)" by simp
      then have e: "pa + ARM_SECT_SIZE + of_nat ((unat i - Suc j) * 2 ^ 20) = pa + of_nat ((unat i - j) * 2 ^ 20)"
        by (simp add: ARM_SECT_SIZE_eq algebra_simps)
      show ?thesis unfolding m(2) [rule_format, OF i] e using F c [OF i] by simp
    qed
    then show ?thesis using f le al step m(1) unfolding jd by auto
  qed
qed

lemma sect_address:
  assumes pa: "2 ^ 20 dvd unat (pa :: u64)" and va: "unat (va :: u32) = 2 ^ 20 * k" and le: "k \<le> unat (w :: u32) div 2 ^ 20"
    and e_def: "e = sect_entry (pa + of_nat ((unat w div 2 ^ 20 - k) * 2 ^ 20)) flags"
  shows "e AND 3 = 2" and "(e AND 0xFFF00000) + (w AND mask 20) = ucast pa + (w - va)"
proof -
  define J where "J = (unat w div 2 ^ 20 - k) * 2 ^ 20"
  have "unat (pa + of_nat J) = (unat pa + J) mod 2 ^ 64" by (simp add: unat_word_ariths unat_of_nat mod_simps)
  moreover have "2 ^ 20 dvd (unat pa + J) mod 2 ^ 64"
    by (rule dvd_mod) (use pa in \<open>simp_all add: J_def\<close>)
  ultimately have d: "2 ^ 20 dvd unat (pa + of_nat J)" by simp
  show "e AND 3 = 2" using sect_entry_parts(1) [OF d] by (simp add: e_def J_def)
  have a: "e AND 0xFFF00000 = ucast pa + of_nat J"
    unfolding e_def J_def [symmetric] sect_entry_parts(2) [OF d] ucast_add_of_nat ..
  have "unat va \<le> unat w" using va le by (simp add: less_eq_div_iff_mult_less_eq algebra_simps)
  then have "w - va = of_nat (unat w - unat va)" by (simp add: of_nat_diff)
  also have "unat w - unat va = J + unat w mod 2 ^ 20"
    unfolding va J_def using le div_mult_mod_eq [of "unat w" "2 ^ 20"] by (simp add: algebra_simps diff_mult_distrib)
  finally have "w - va = of_nat J + of_nat (unat w mod 2 ^ 20)" by simp
  moreover have "w AND mask 20 = of_nat (unat w mod 2 ^ 20)" by (simp only: unat_and_mask [symmetric]) simp
  ultimately show "(e AND 0xFFF00000) + (w AND mask 20) = ucast pa + (w - va)" by (simp add: a)
qed

text \<open>What the processor finds in a table with the entries of a range of \<open>n\<close> sections.\<close>

lemma sections_walk:
  assumes pa: "2 ^ 20 dvd unat pa" and va: "unat va = 2 ^ 20 * j"
    and m: "\<forall>i < 4096. mem' (cell pt i) = (if j \<le> unat i \<and> unat i < j + n
      then sect_entry (pa + of_nat ((unat i - j) * 2 ^ 20)) flags else mem (cell pt i))"
  shows "arm_sect_walk pt mem' w =
      (if unat va \<le> unat w \<and> unat w < unat va + n * 2 ^ 20 then Some (ucast pa + (w - va)) else arm_sect_walk pt mem w)"
proof -
  have i: "drop_bit 20 w < 4096" using unat_bound [of w] by (simp add: word_less_nat_alt unat_l1_index less_mult_imp_div_less)
  have rng: "unat va \<le> unat w \<and> unat w < unat va + n * 2 ^ 20 \<longleftrightarrow> j \<le> unat w div 2 ^ 20 \<and> unat w div 2 ^ 20 < j + n"
    unfolding va by (simp add: less_eq_div_iff_mult_less_eq div_less_iff_less_mult algebra_simps)
  note e = m [rule_format, OF i, unfolded unat_l1_index]
  show ?thesis
  proof (cases "j \<le> unat w div 2 ^ 20 \<and> unat w div 2 ^ 20 < j + n")
    case False
    then show ?thesis unfolding rng if_not_P [OF False] arm_sect_walk_def e by (simp only:)
  next
    case True
    then have "j \<le> unat w div 2 ^ 20" by simp
    note a = sect_address [OF pa va this refl, of flags]
    have "arm_sect_walk pt mem' w = Some (ucast pa + (w - va))"
      unfolding arm_sect_walk_def Let_def e if_P [OF True] a(2) using a(1) by simp
    then show ?thesis using True rng by simp
  qed
qed

text \<open>On whole sections the early map does what the loop of \<open>map_pages\<close> does.\<close>

lemma arm_early_loop_eq:
  assumes "2 ^ 20 dvd unat va" "2 ^ 20 dvd unat pa" and "unat va + n * 2 ^ 20 < 2 ^ 32" "n < fuel"
    and "unat sz = n * 2 ^ 20" "vend = va + sz"
  shows "arm_early_loop u fuel pt pa va vend s = arm_map_loop physbase u fuel pt va pa sz (MAP_SHARED_DEV OR VMA_EXEC) s"
  using assms
proof (induction n arbitrary: fuel va pa sz s)
  case 0
  then have "sz = 0" by (simp add: unat_eq_0)
  then show ?case using 0 by (cases fuel) auto
next
  case (Suc n)
  obtain f where f: "fuel = Suc f" using Suc.prems(4) by (cases fuel) auto
  have le: "ARM_SECT_SIZE \<le> sz" "0 < sz" using Suc.prems(5) by (simp_all add: ARM_SECT_SIZE_eq word_le_nat_alt word_less_nat_alt)
  have sz: "unat (sz - ARM_SECT_SIZE) = n * 2 ^ 20" using le(1) Suc.prems(5) by (simp add: unat_sub ARM_SECT_SIZE_eq)
  have ve: "unat vend = unat va + unat sz" unfolding Suc.prems(6) using Suc.prems(3,5) by (subst unat_add_no_overflow) simp_all
  then have lt: "va < vend" using Suc.prems(5) by (simp add: word_less_nat_alt)
  have al: "IS_ALIGNED va ARM_SECT_SIZE" "IS_ALIGNED pa ARM_SECT_SIZE"
    unfolding ARM_SECT_SIZE_eq is_aligned_iff_dvd using Suc.prems(1,2) .
  have up: "unat (va + ARM_SECT_SIZE) = unat va + 2 ^ 20"
    unfolding ARM_SECT_SIZE_eq using Suc.prems(3) by (subst unat_add_no_overflow) simp_all
  have pa2: "2 ^ 20 dvd unat (pa + ARM_SECT_SIZE)"
  proof -
    have "unat (pa + ARM_SECT_SIZE) = (unat pa + 2 ^ 20) mod 2 ^ 64" by (simp add: ARM_SECT_SIZE_eq unat_word_ariths)
    moreover have "2 ^ 20 dvd (unat pa + 2 ^ 20) mod 2 ^ 64" by (rule dvd_mod) (use Suc.prems(2) in simp_all)
    ultimately show ?thesis by simp
  qed
  have p: "2 ^ 20 dvd unat (va + ARM_SECT_SIZE)" "unat (va + ARM_SECT_SIZE) + n * 2 ^ 20 < 2 ^ 32" "n < f"
    unfolding up using Suc.prems f by simp_all
  have "arm_early_loop u f pt (pa + ARM_SECT_SIZE) (va + ARM_SECT_SIZE) vend =
      arm_map_loop physbase u f pt (va + ARM_SECT_SIZE) (pa + ARM_SECT_SIZE) (sz - ARM_SECT_SIZE) (MAP_SHARED_DEV OR VMA_EXEC)"
    by (rule ext, rule Suc.IH [OF p(1) pa2 p(2,3) sz]) (simp add: Suc.prems(6))
  then show ?case using f lt le al by simp
qed

definition no_tables :: "u32 \<Rightarrow> 32 mem \<Rightarrow> bool" where
  "no_tables pt mem \<longleftrightarrow> (\<forall>i < 4096. mem (cell pt i) AND 3 \<noteq> 1)"

lemma arm_early_map_sections:
  assumes "2 ^ 20 dvd unat va" "2 ^ 20 dvd unat pa" "2 ^ 20 dvd unat sz" and "unat va + unat sz < 2 ^ 32" and "no_tables pt mem"
  shows "\<exists>mem'. arm_page_index_early_map u pt pa va sz (mem, k) = Ret (0, mem', k) \<and> no_tables pt mem' \<and>
    (\<forall>w. arm_sect_walk pt mem' w =
      (if unat va \<le> unat w \<and> unat w < unat va + unat sz then Some (ucast pa + (w - va)) else arm_sect_walk pt mem w))"
proof -
  obtain n where n: "unat sz = n * 2 ^ 20" using assms(3) by (metis dvdE mult.commute)
  obtain j where j: "unat va = 2 ^ 20 * j" using assms(1) by blast
  have jd: "unat va div 2 ^ 20 = j" by (simp add: j)
  have b: "unat va + n * 2 ^ 20 < 2 ^ 32" using assms(4) n by simp
  have fuel: "n < 4098" using b by simp
  have t: "\<forall>i < 4096. unat va div 2 ^ 20 \<le> unat i \<and> unat i < unat va div 2 ^ 20 + n \<longrightarrow> mem (cell pt i) AND 3 \<noteq> 1"
    using assms(5) by (simp add: no_tables_def)
  obtain mem' where m: "arm_map_loop 0 u 4098 pt va pa sz (MAP_SHARED_DEV OR VMA_EXEC) (mem, k) = Ret (mem', k)"
    "\<forall>i < 4096. mem' (cell pt i) = (if j \<le> unat i \<and> unat i < j + n
      then sect_entry (pa + of_nat ((unat i - j) * 2 ^ 20)) (MAP_SHARED_DEV OR VMA_EXEC) else mem (cell pt i))"
    using arm_map_loop_sections [OF assms(1,2) less_imp_le [OF b] n fuel t, of 0 u "MAP_SHARED_DEV OR VMA_EXEC" k] unfolding jd by blast
  have s: "sect_entry x (MAP_SHARED_DEV OR VMA_EXEC) AND 3 = 2" if "2 ^ 20 dvd unat x" for x using sect_entry_parts(1) [OF that] .
  have d: "2 ^ 20 dvd unat (pa + of_nat (i * 2 ^ 20))" for i
  proof -
    have "unat (pa + of_nat (i * 2 ^ 20)) = (unat pa + i * 2 ^ 20) mod 2 ^ 64" by (simp add: unat_word_ariths unat_of_nat mod_simps)
    moreover have "2 ^ 20 dvd (unat pa + i * 2 ^ 20) mod 2 ^ 64" by (rule dvd_mod) (use assms(2) in simp_all)
    ultimately show ?thesis by simp
  qed
  have "mem' (cell pt i) AND 3 \<noteq> 1" if "i < 4096" for i
    unfolding m(2) [rule_format, OF that] using s [OF d, of "unat i - j"] assms(5) that by (simp only: no_tables_def split: if_split) simp
  then have "no_tables pt mem'" by (simp add: no_tables_def)
  moreover have "arm_page_index_early_map u pt pa va sz (mem, k) = Ret (0, mem', k)"
    using arm_early_loop_eq [OF assms(1,2) b fuel n refl, of u pt "(mem, k)" 0] m(1) assms(3)
    unfolding arm_page_index_early_map_def ARM_SECT_SIZE_eq is_aligned_iff_dvd by simp
  ultimately show ?thesis using sections_walk [OF assms(2) j m(2)] n by auto
qed

text \<open>
  C17: Mapping a range of whole sections on ARM, in a first-level table without second-level tables,
  returns 0 without touching the caches; the processor then translates every address of the
  range to the physical address at the same distance and every other address as before.
\<close>

theorem arm_map_pages_sections:
  assumes "pt \<noteq> 0" and "2 ^ 20 dvd unat va" "2 ^ 20 dvd unat pa" "2 ^ 20 dvd unat sz" and "unat va + unat sz \<le> 2 ^ 32"
    and "\<forall>i < 4096. mem (cell pt i) AND 3 \<noteq> 1"
  shows "\<exists>mem'. arm_map_pages physbase u pt va pa sz flags (mem, k) = Ret (0, mem', k) \<and>
    (\<forall>w. arm_sect_walk pt mem' w =
      (if unat va \<le> unat w \<and> unat w < unat va + unat sz then Some (ucast pa + (w - va)) else arm_sect_walk pt mem w))"
proof -
  obtain n where n: "unat sz = n * 2 ^ 20" using assms(4) by (metis dvdE mult.commute)
  obtain j where j: "unat va = 2 ^ 20 * j" using assms(2) by blast
  have jd: "unat va div 2 ^ 20 = j" by (simp add: j)
  have fuel: "n < Suc (unat sz div 4096)" unfolding n by simp
  obtain mem' where m: "arm_map_loop physbase u (Suc (unat sz div 4096)) pt va pa sz flags (mem, k) = Ret (mem', k)"
    "\<forall>i < 4096. mem' (cell pt i) = (if j \<le> unat i \<and> unat i < j + n
      then sect_entry (pa + of_nat ((unat i - j) * 2 ^ 20)) flags else mem (cell pt i))"
    using arm_map_loop_sections [OF assms(2,3) _ n fuel, of mem pt physbase u flags k] assms(5,6) n unfolding jd by auto
  note walk = sections_walk [OF assms(3) j m(2), folded n]
  have d: "(2 :: nat) ^ 12 dvd 2 ^ 20" by (rule le_imp_power_dvd) simp
  have "IS_ALIGNED va ARM_PAGE_SIZE" "IS_ALIGNED pa ARM_PAGE_SIZE" "IS_ALIGNED sz ARM_PAGE_SIZE"
    unfolding ARM_PAGE_SIZE_eq is_aligned_iff_dvd using assms(2-4) by (blast intro: dvd_trans [OF d])+
  then show ?thesis using m(1) walk assms(1) by (auto simp: arm_map_pages_def)
qed

theorem arm_map_pages_sections_witness:
  "\<exists>mem'. arm_map_pages 0 \<lparr>l1_alloc = (\<lambda>s. Ret (0, s)), l1_free = (\<lambda>p s. Ret s), l2_alloc = (\<lambda>s. Ret (0, s)), l2_free = (\<lambda>p s. Ret s)\<rparr>
     0x4000 0x80100000 0x300000 0x200000 7 (\<lambda>_. 0, ()) = Ret (0, mem', ()) \<and> arm_sect_walk 0x4000 mem' 0x80212345 = Some 0x412345"
proof -
  have n: "(0x4000 :: u32) \<noteq> 0" by simp
  have d: "2 ^ 20 dvd unat (0x80100000 :: u32)" "2 ^ 20 dvd unat (0x300000 :: u64)" "2 ^ 20 dvd unat (0x200000 :: u32)" by simp_all
  have l: "unat (0x80100000 :: u32) + unat (0x200000 :: u32) \<le> 2 ^ 32" by simp
  have z: "\<forall>i < 4096. (\<lambda>_. 0 :: u32) (cell 0x4000 i) AND 3 \<noteq> 1" by simp
  let ?u = "\<lparr>l1_alloc = (\<lambda>s. Ret (0, s)), l1_free = (\<lambda>p s. Ret s), l2_alloc = (\<lambda>s. Ret (0, s)), l2_free = (\<lambda>p s. Ret s)\<rparr> :: unit arm_ops"
  obtain mem' where m: "arm_map_pages 0 ?u 0x4000 0x80100000 0x300000 0x200000 7 (\<lambda>_. 0, ()) = Ret (0, mem', ())"
    "\<forall>w. arm_sect_walk 0x4000 mem' w = (if unat (0x80100000 :: u32) \<le> unat w \<and> unat w < unat (0x80100000 :: u32) + unat (0x200000 :: u32)
      then Some (ucast (0x300000 :: u64) + (w - 0x80100000)) else arm_sect_walk 0x4000 (\<lambda>_. 0) w)"
    using arm_map_pages_sections [OF n d l z, of 0 ?u 7 "()"] by blast
  have "arm_sect_walk 0x4000 mem' 0x80212345 = Some 0x412345" unfolding m(2) [rule_format] by simp
  then show ?thesis using m(1) by blast
qed

end
