(* ===== verification/MemReg.thy ===== *)
theory MemReg
  imports ArmMm Bitops
begin

text \<open>
  Registering physical memory with the page allocator at boot: \<open>add_memory_pages\<close> of the three
  architectures, for MIPS of the machines MSIM (\<open>mach-msim/memory.c\<close>) and Loongson 3A
  (\<open>mach-loongson3a/memory.c\<close>). The routines of i386 and MIPS keep a \<open>struct pages\<close> in an object of the
  bootstrap allocator, which serves the page allocator at the same time.
\<close>

section \<open>MSIM\<close>

text \<open>
  The size of a \<open>struct pages\<close> is 24. The block from \<open>kmalloc\<close> is used without a test: writing
  through NULL is a fault.
\<close>

definition sizeof_pages :: u32 where "sizeof_pages = 24"

definition add_region :: "kops \<Rightarrow> addr_t \<Rightarrow> addr_t \<Rightarrow> kmem \<Rightarrow> kmem outcome" where
  "add_region k pa sz st =
     obind (k_malloc k sizeof_pages 0 st) (\<lambda>(p, st).
       if p = 0 then Fault else p_free k \<lparr>paddr = pa, psize = sz, pflags = 0\<rparr> st)"

text \<open>\<open>HIGHRAM_BASE\<close> and \<open>HIGHRAM_SIZE\<close> are set when the kernel is configured.\<close>

definition msim_add_memory_pages :: "addr_t \<Rightarrow> addr_t \<Rightarrow> kops \<Rightarrow> u32 \<Rightarrow> kmem \<Rightarrow> kmem outcome" where
  "msim_add_memory_pages highram_base highram_size k kern_end st =
     (let pa = ucast (mips_kva2pa (ALIGN_ABOVE kern_end PAGE_SIZE))
      in obind (add_region k pa (ucast LOWRAM_TOP - pa) st) (\<lambda>st.
           if highram_size \<noteq> 0 then add_region k highram_base highram_size st else Ret st))"

section \<open>Loongson 3A\<close>

definition LOONGSON3A_CPU_WIN_BASE :: u64 where "LOONGSON3A_CPU_WIN_BASE = 0x3ff00000"
definition LOONGSON3A_CPU_WINx_BASEADDR :: "u64 \<Rightarrow> u64" where
  "LOONGSON3A_CPU_WINx_BASEADDR x = LOONGSON3A_CPU_WIN_BASE + x * 8"
definition LOONGSON3A_CPU_WINx_MASKADDR :: "u64 \<Rightarrow> u64" where
  "LOONGSON3A_CPU_WINx_MASKADDR x = LOONGSON3A_CPU_WINx_BASEADDR x + 0x40"
definition LOONGSON3A_CORE_WINS :: nat where "LOONGSON3A_CORE_WINS = 8"

text \<open>
  The registers of the machine are the function \<open>read64\<close>. The shift \<open>1 << n\<close> is one of the type
  \<open>int\<close> and undefined from 31 on, which is a fault.
\<close>

definition int_shift :: "u32 \<Rightarrow> u64 outcome" where
  "int_shift n = (if n < 31 then Ret (push_bit (unat n) 1) else Fault)"

primrec probe_windows :: "(u64 \<Rightarrow> u64) \<Rightarrow> u64 list \<Rightarrow> u64 \<times> u64 \<Rightarrow> (u64 \<times> u64) outcome" where
  "probe_windows read64 [] r = Ret r"
| "probe_windows read64 (j # js) r =
     (let base = read64 (LOONGSON3A_CPU_WINx_BASEADDR j);
          mask = read64 (LOONGSON3A_CPU_WINx_MASKADDR j);
          (rambase, ramsize) = r
      in if base AND 0xfffffffff0000000 = 0x10000000 then probe_windows read64 js r
         else if base AND 0xfffffffff0000000 = 0 then probe_windows read64 js r
         else obind (int_shift (count_zero_bits mask)) (\<lambda>n.
           probe_windows read64 js (min rambase base, ramsize + n)))"

text \<open>The allocator state is of any type: \<open>malloc\<close> and \<open>putpages\<close> are those of the 64-bit build.\<close>

definition loongson_add_memory_pages ::
  "(u64 \<Rightarrow> u64) \<Rightarrow> (u64 \<Rightarrow> 's \<Rightarrow> (u64 \<times> 's) outcome) \<Rightarrow> (pages \<Rightarrow> 's \<Rightarrow> 's outcome) \<Rightarrow> u64 \<Rightarrow> 's \<Rightarrow> 's outcome" where
  "loongson_add_memory_pages read64 malloc putpages kern_end st =
     obind (probe_windows read64 (map of_nat [0..<LOONGSON3A_CORE_WINS]) (-1, 0)) (\<lambda>(rambase, ramsize).
       obind (malloc 24 st) (\<lambda>(p, st).
         let reserved_space = mips64_kva2pa (ALIGN_ABOVE kern_end PAGE_SIZE)
         in if p = 0 then Fault
            else putpages \<lparr>paddr = rambase + reserved_space, psize = ramsize - reserved_space, pflags = 0\<rparr> st))"

section \<open>Registration from the bootstrap pool\<close>

text \<open>The state in which \<open>master_init\<close> calls \<open>add_memory_pages\<close>.\<close>

definition boot_state :: "u32 \<Rightarrow> gfp_t \<Rightarrow> kmem" where
  "boot_state pool junk =
     snd (page_allocator_init (snd (simple_allocator_bootstrap pool BOOTSTRAP_POOL_SIZE junk kmem_reset)))"

text \<open>At most \<open>n\<close> objects of the pool are in use, for blocks of the page allocator or for other things.\<close>

definition reg_inv :: "nat \<Rightarrow> nat \<Rightarrow> kmem \<Rightarrow> bool" where
  "reg_inv base n st \<longleftrightarrow> boot.ff_ok base st \<and> finite (boot.foreign st) \<and> pallocator st = PFirstFit
     \<and> length (ff_head st) + card (boot.foreign st) \<le> n"

lemma reg_inv_room:
  assumes "reg_inv base n st" "n < 16"
  shows "boot_room st"
proof (rule boot_room_live)
  let ?A = "bnode ` set (ff_head st) \<union> boot.foreign st"
  show "boot_inv base st" using assms(1) by (simp add: reg_inv_def boot.ff_ok_def boot.nodes_ok_def)
  show "{p. boot_live st p} \<subseteq> ?A" by (auto simp: boot.foreign_def)
  show "finite ?A" using assms(1) by (simp add: reg_inv_def)
  have "card ?A \<le> card (bnode ` set (ff_head st)) + card (boot.foreign st)" by (rule card_Un_le)
  also have "card (bnode ` set (ff_head st)) \<le> length (ff_head st)"
    using card_image_le [of "set (ff_head st)" bnode] card_length [of "ff_head st"] by simp
  finally show "card ?A < 16" using assms by (simp add: reg_inv_def)
qed

lemma reg_kmalloc:
  assumes "reg_inv base n st" "n < 16"
  shows "\<exists>p st'. kmalloc g sizeof_pages 0 st = Ret (p, st') \<and> p \<noteq> 0 \<and> reg_inv base (Suc n) st' \<and>
    free_set st' = free_set st \<and> get_free_memory st' = get_free_memory st"
proof -
  have r: "boot_room st" by (rule reg_inv_room [OF assms])
  have b: "boot_inv base st" using assms(1) by (simp add: reg_inv_def boot.ff_ok_def boot.nodes_ok_def)
  obtain p st' where m: "kmalloc g sizeof_block 0 st = Ret (p, st')" "p \<noteq> 0" "\<not> boot_live st p"
    "boot_live st' = (boot_live st)(p := True)" "boot_inv base st'" "ff_same st st'"
    using boot_kmalloc [OF b r] by blast
  have s: "kmalloc g sizeof_pages 0 st = kmalloc g sizeof_block 0 st"
    using b by (simp add: kmalloc_def simple_alloc_of_def boot_inv_def flff_alloc_def sizeof_block_def sizeof_pages_def
        sizeof_blockhdr_def ALIGN_ABOVE_def ALIGN_MASK_def ALLOC_ALIGN_def)
  have same: "ff_head st' = ff_head st" "ff_free_space st' = ff_free_space st" "pallocator st' = pallocator st"
    using m(6) by (simp_all add: ff_same_def)
  have np: "p \<notin> bnode ` set (ff_head st)" using assms(1) m(3) by (auto simp: reg_inv_def boot.ff_ok_def boot.nodes_ok_def)
  have f: "boot.foreign st' = insert p (boot.foreign st)" "p \<notin> boot.foreign st"
    using np m(3) by (auto simp: boot.foreign_def m(4) same(1))
  have "reg_inv base (Suc n) st'"
    using assms(1) m(4,5) f same by (auto simp: reg_inv_def boot.ff_ok_def boot.nodes_ok_def ff_wf_def ff_ivls_def)
  then show ?thesis using m(1,2) s same assms(1)
    by (auto simp: reg_inv_def free_set_def ff_ivls_def get_free_memory_def ff_get_free_def)
qed

lemma reg_free:
  assumes "reg_inv base n st" "n < 16" "region_ok p" "points (pivl p) \<inter> free_set st = {}"
  shows "\<exists>st'. free_pages (kmalloc g) (kfree f) p st = Ret st' \<and> reg_inv base (Suc n) st' \<and>
    free_set st' = free_set st \<union> points (pivl p) \<and>
    unat (get_free_memory st') = unat (get_free_memory st) + unat (psize p)"
proof -
  have ok: "boot.ff_ok base st" and pa: "pallocator st = PFirstFit" using assms(1) by (simp_all add: reg_inv_def)
  have r: "boot_room st" by (rule reg_inv_room [OF assms(1,2)])
  obtain st' where st': "ff_free (kmalloc g) (kfree f) p st = Ret st'" "boot.ff_ok base st'"
      "ff_ivls st' = fl_add (pivl p) (ff_ivls st)" "pallocator st' = pallocator st"
      "boot.foreign st' = boot.foreign st"
    using boot.ff_free_refines [OF ok r _ _ _ _ assms(4)] assms(3) unfolding region_ok_def by blast
  have wf: "ff_wf st" "ff_wf st'" using ok st'(2) by (simp_all add: boot.ff_ok_def)
  have "unat (ff_free_space st') = unat (ff_free_space st) + unat (psize p)"
    using wf by (simp add: ff_wf_def st'(3) fl_add_total pivl_def)
  moreover have "length (ff_ivls st') \<le> Suc (length (ff_ivls st))" unfolding st'(3) by (rule fl_add_length)
  then have "length (ff_head st') \<le> Suc (length (ff_head st))" by (simp add: ff_ivls_def)
  ultimately show ?thesis using st' assms(1) pa
    by (auto simp: free_pages_def reg_inv_def free_set_def fl_add_cover get_free_memory_def ff_get_free_def)
qed

text \<open>What a step of the registration of the region \<open>p\<close> does to the allocators.\<close>

definition registers :: "nat \<Rightarrow> nat \<Rightarrow> pages list \<Rightarrow> kmem \<Rightarrow> kmem outcome \<Rightarrow> bool" where
  "registers base n ps st r \<longleftrightarrow> (\<exists>st'. r = Ret st' \<and> reg_inv base n st' \<and>
     free_set st' = free_set st \<union> (\<Union>p \<in> set ps. points (pivl p)) \<and>
     unat (get_free_memory st') = unat (get_free_memory st) + (\<Sum>p \<leftarrow> ps. unat (psize p)))"

lemma linked_boot_ops:
  "k_malloc (linked (Suc (Suc n))) = kmalloc (p_alloc (linked (Suc n)))"
  "p_free (linked (Suc (Suc n))) = free_pages (kmalloc (p_alloc (linked n))) (kfree (p_free (linked n)))"
  by (simp_all add: link_step_def)

lemma add_region_registers:
  assumes "reg_inv base n st" "n < 15" "region_ok \<lparr>paddr = pa, psize = sz, pflags = 0\<rparr>"
    and "points (unat pa, unat sz) \<inter> free_set st = {}"
  shows "registers base (Suc (Suc n)) [\<lparr>paddr = pa, psize = sz, pflags = 0\<rparr>] st (add_region (linked (Suc (Suc m))) pa sz st)"
proof -
  let ?p = "\<lparr>paddr = pa, psize = sz, pflags = 0\<rparr>"
  have "n < 16" using assms(2) by simp
  then obtain q st1 where m: "kmalloc (p_alloc (linked (Suc m))) sizeof_pages 0 st = Ret (q, st1)" "q \<noteq> 0"
    "reg_inv base (Suc n) st1" "free_set st1 = free_set st" "get_free_memory st1 = get_free_memory st"
    using reg_kmalloc [OF assms(1)] by blast
  have "points (pivl ?p) \<inter> free_set st1 = {}" using assms(4) m(4) by (simp add: pivl_def)
  with reg_free [OF m(3) _ assms(3)] assms(2) show ?thesis
    using m by (fastforce simp: registers_def add_region_def linked_boot_ops simp del: linked.simps)
qed

text \<open>One registration after another.\<close>

lemma registers_obind:
  assumes "registers base n ps st r" and "\<And>st'. reg_inv base n st' \<Longrightarrow>
      free_set st' = free_set st \<union> (\<Union>p \<in> set ps. points (pivl p)) \<Longrightarrow> registers base n' qs st' (f st')"
  shows "registers base n' (ps @ qs) st (obind r f)"
proof -
  obtain st1 where st1: "r = Ret st1" "reg_inv base n st1" "free_set st1 = free_set st \<union> (\<Union>p \<in> set ps. points (pivl p))"
    "unat (get_free_memory st1) = unat (get_free_memory st) + (\<Sum>p \<leftarrow> ps. unat (psize p))"
    using assms(1) by (auto simp: registers_def)
  from assms(2) [OF st1(2,3)] show ?thesis by (auto simp: registers_def st1)
qed

lemma boot_state_reg_inv:
  assumes "16 dvd unat pool" "unat pool + 8192 \<le> 2 ^ 32"
  shows "reg_inv (unat pool) 0 (boot_state pool junk)" "free_set (boot_state pool junk) = {}" "get_free_memory (boot_state pool junk) = 0"
  using bootstrapped [OF assms boot_state_def] by (simp_all add: reg_inv_def pmm_inv_iff)

section \<open>The regions of i386\<close>

text \<open>The entries of the firmware that count, and the region that one of them gives.\<close>

definition usable :: "e820entry \<Rightarrow> bool" where
  "usable e \<longleftrightarrow> e_start e \<ge> HIGHMEM_BASE \<and> e_type e = E820_RAM"

definition e820_pages :: "u32 \<Rightarrow> e820entry \<Rightarrow> pages" where
  "e820_pages kern_end_pa e =
     (let stop = e_start e + e_size e;
          start = (if e_start e \<le> ucast kern_end_pa \<and> ucast kern_end_pa < stop then ucast kern_end_pa else e_start e)
      in \<lparr>paddr = ALIGN_ABOVE start PAGE_SIZE, psize = ALIGN_BELOW stop PAGE_SIZE - ALIGN_ABOVE start PAGE_SIZE, pflags = 0\<rparr>)"

lemma i386_step_region:
  assumes "psize (e820_pages kern_end_pa e) < 2 ^ 32"
  shows "(let start = e_start e; end = start + e_size e
          in if ucast kern_end_pa \<ge> start \<and> ucast kern_end_pa < end then i386_init_free_pages k (ucast kern_end_pa) end st
             else i386_init_free_pages k start end st)
    = add_region k (paddr (e820_pages kern_end_pa e)) (psize (e820_pages kern_end_pa e)) st"
proof -
  have s: "ucast (ucast x :: u32) = x" if "x < 4294967296" for x :: u64
    using that by (simp add: word_unat_eq_iff word_less_nat_alt unsigned_ucast_eq unsigned_take_bit_eq unat_mod_distrib take_bit_eq_mod)
  have u: "i386_init_free_pages k a b st = add_region k (ALIGN_ABOVE a PAGE_SIZE) (ALIGN_BELOW b PAGE_SIZE - ALIGN_ABOVE a PAGE_SIZE) st"
    if "ALIGN_BELOW b PAGE_SIZE - ALIGN_ABOVE a PAGE_SIZE < 4294967296" for a b
    unfolding i386_init_free_pages_def add_region_def sizeof_pages_def Let_def s [OF that] ..
  show ?thesis using assms by (auto simp: e820_pages_def Let_def u split: if_splits)
qed

lemma i386_registers:
  assumes "reg_inv base n st" "n + 2 * length (filter usable es) \<le> 16"
    and "\<forall>e \<in> set es. usable e \<longrightarrow> region_ok (e820_pages ke e) \<and> psize (e820_pages ke e) < 2 ^ 32 \<and>
      points (pivl (e820_pages ke e)) \<inter> free_set st = {}"
    and "regions_disjoint (map (e820_pages ke) (filter usable es))"
  shows "\<exists>n'. registers base n' (map (e820_pages ke) (filter usable es)) st (i386_add_memory_pages (linked (Suc (Suc m))) ke es st)"
  using assms
proof (induction es arbitrary: n st)
  case Nil
  then show ?case by (auto simp: registers_def)
next
  case (Cons e es)
  show ?case
  proof (cases "usable e")
    case False
    then have "i386_add_memory_pages (linked (Suc (Suc m))) ke (e # es) st = i386_add_memory_pages (linked (Suc (Suc m))) ke es st"
      by (auto simp: usable_def Let_def simp del: linked.simps)
    then show ?thesis using Cons.IH [OF Cons.prems(1)] Cons.prems False by simp
  next
    case True
    let ?p = "e820_pages ke e" and ?k = "linked (Suc (Suc m))"
    have p: "?p = \<lparr>paddr = paddr ?p, psize = psize ?p, pflags = 0\<rparr>" by (simp add: e820_pages_def Let_def)
    have ok: "region_ok ?p" "psize ?p < 2 ^ 32" "points (pivl ?p) \<inter> free_set st = {}" using Cons.prems(3) True by auto
    have e: "i386_add_memory_pages ?k ke (e # es) st =
        obind (add_region ?k (paddr ?p) (psize ?p) st) (i386_add_memory_pages ?k ke es)"
      using True i386_step_region [OF ok(2), of ?k st] by (simp add: usable_def Let_def del: linked.simps)
    have "n < 15" using Cons.prems(2) True by simp
    then have r: "registers base (Suc (Suc n)) [?p] st (add_region ?k (paddr ?p) (psize ?p) st)"
      using add_region_registers [OF Cons.prems(1), of "paddr ?p" "psize ?p" m] ok p by (simp add: pivl_def)
    then obtain st1 where st1: "add_region ?k (paddr ?p) (psize ?p) st = Ret st1" "reg_inv base (Suc (Suc n)) st1"
      "free_set st1 = free_set st \<union> points (pivl ?p)" by (auto simp: registers_def)
    have "\<exists>n'. registers base n' (map (e820_pages ke) (filter usable es)) st1 (i386_add_memory_pages ?k ke es st1)"
    proof (rule Cons.IH [OF st1(2)])
      show "Suc (Suc n) + 2 * length (filter usable es) \<le> 16" using Cons.prems(2) True by simp
      show "regions_disjoint (map (e820_pages ke) (filter usable es))" using Cons.prems(4) True by (simp add: regions_disjoint_def)
      show "\<forall>e \<in> set es. usable e \<longrightarrow> region_ok (e820_pages ke e) \<and> psize (e820_pages ke e) < 2 ^ 32 \<and>
          points (pivl (e820_pages ke e)) \<inter> free_set st1 = {}"
        using Cons.prems(3,4) True unfolding st1(3) by (auto simp: regions_disjoint_def Int_Un_distrib)
    qed
    then obtain n' where "registers base n' (map (e820_pages ke) (filter usable es)) st1 (i386_add_memory_pages ?k ke es st1)" ..
    then have "registers base n' ([?p] @ map (e820_pages ke) (filter usable es)) st
        (obind (add_region ?k (paddr ?p) (psize ?p) st) (i386_add_memory_pages ?k ke es))"
      using registers_obind [OF r] st1(1) r by (auto simp: registers_def)
    then show ?thesis using True unfolding e by auto
  qed
qed

section \<open>The property\<close>

text \<open>The region of the low memory of MSIM behind a kernel of \<open>ko\<close> bytes, and that of ARM.\<close>

definition msim_low :: "nat \<Rightarrow> pages" where
  "msim_low ko = (let lo = (ko + 4095) div 4096 * 4096 in \<lparr>paddr = of_nat lo, psize = of_nat (0x10000000 - lo), pflags = 0\<rparr>)"

definition arm_pages :: "u32 \<Rightarrow> nat \<Rightarrow> addr_t \<Rightarrow> pages" where
  "arm_pages physbase ko mem_size = \<lparr>paddr = of_nat (unat physbase + ko), psize = mem_size - of_nat ko, pflags = 0\<rparr>"

lemma msim_low_parts:
  assumes "unat (ke :: u32) = 0x80000000 + ko" "0 < ko" "ko < 0x0FFFF000"
  shows "msim_low ko = \<lparr>paddr = ucast (mips_kva2pa (ALIGN_ABOVE ke PAGE_SIZE)),
      psize = ucast LOWRAM_TOP - ucast (mips_kva2pa (ALIGN_ABOVE ke PAGE_SIZE)), pflags = 0\<rparr>"
    and "region_ok (msim_low ko)" and "points (pivl (msim_low ko)) \<subseteq> {..< 0x10000000}"
proof -
  define lo where "lo = (ko + 4095) div 4096 * 4096"
  have b: "0 < lo" "lo \<le> 0x0FFFF000" "4096 dvd lo" using assms(2,3) by (simp_all add: lo_def)
  have "unat (ALIGN_ABOVE ke (2 ^ 12)) = (unat ke + 2 ^ 12 - 1) div 2 ^ 12 * 2 ^ 12"
    by (rule unat_align_above_no_overflow) (use assms(1,3) in simp_all)
  moreover have "(2147487743 + ko) div 4096 = 524288 + (ko + 4095) div 4096"
    using div_mult_self3 [of 4096 524288 "ko + 4095"] by (simp add: add.commute)
  ultimately have a: "unat (ALIGN_ABOVE ke PAGE_SIZE) = 0x80000000 + lo" by (simp add: assms(1) lo_def)
  have k: "unat (mips_kva2pa (ALIGN_ABOVE ke PAGE_SIZE)) = lo"
    using a b by (simp add: mips_kva2pa_def KSEG1_def KSEG0_def word_less_nat_alt unat_sub word_le_nat_alt)
  then have p: "ucast (mips_kva2pa (ALIGN_ABOVE ke PAGE_SIZE)) = (of_nat lo :: u64)" by (metis of_nat_unat)
  have s: "of_nat (0x10000000 - lo) = (ucast LOWRAM_TOP - of_nat lo :: u64)" using b(2) by (simp add: LOWRAM_TOP_def of_nat_diff)
  show "msim_low ko = \<lparr>paddr = ucast (mips_kva2pa (ALIGN_ABOVE ke PAGE_SIZE)),
      psize = ucast LOWRAM_TOP - ucast (mips_kva2pa (ALIGN_ABOVE ke PAGE_SIZE)), pflags = 0\<rparr>"
    unfolding p by (simp add: msim_low_def Let_def lo_def [symmetric] s)
  obtain sz where sz: "0x10000000 - lo = sz" "lo + sz = 0x10000000" using b(2) by simp
  have "(4096 :: nat) dvd 0x10000000" by simp
  from dvd_diff_nat [OF this b(3)] have d: "4096 dvd sz" by (simp only: sz(1))
  have m: "msim_low ko = \<lparr>paddr = of_nat lo, psize = of_nat sz, pflags = 0\<rparr>" by (simp add: msim_low_def Let_def lo_def [symmetric] sz(1))
  have u: "unat (of_nat lo :: u64) = lo" "unat (of_nat sz :: u64) = sz" using sz(2) by (simp_all add: unat_of_nat)
  have "0 < sz" using b(2) sz(2) by simp
  then show "region_ok (msim_low ko)" unfolding m region_ok_def using b(3) d sz(2) u by (simp add: pivl_def iend_def word_less_nat_alt)
  show "points (pivl (msim_low ko)) \<subseteq> {..< 0x10000000}" unfolding m using sz(2) u by (auto simp: pivl_def points_def iend_def)
qed

lemma msim_registers:
  assumes "reg_inv base 0 st" "free_set st = {}" and ke: "unat ke = 0x80000000 + ko" "0 < ko" "ko < 0x0FFFF000"
    and hi: "hs \<noteq> 0 \<Longrightarrow> region_ok \<lparr>paddr = hb, psize = hs, pflags = 0\<rparr> \<and> 0x10000000 \<le> unat hb"
  shows "\<exists>n'. registers base n' (msim_low ko # (if hs = 0 then [] else [\<lparr>paddr = hb, psize = hs, pflags = 0\<rparr>])) st
    (msim_add_memory_pages hb hs (linked (Suc (Suc m))) ke st)"
proof -
  note lo = msim_low_parts [OF ke]
  let ?k = "linked (Suc (Suc m))" and ?lo = "msim_low ko" and ?hi = "\<lparr>paddr = hb, psize = hs, pflags = 0\<rparr>"
  have e: "msim_add_memory_pages hb hs ?k ke st = obind (add_region ?k (paddr ?lo) (psize ?lo) st)
      (\<lambda>st. if hs \<noteq> 0 then add_region ?k hb hs st else Ret st)"
    by (simp add: msim_add_memory_pages_def Let_def lo(1) del: linked.simps)
  have "?lo = \<lparr>paddr = paddr ?lo, psize = psize ?lo, pflags = 0\<rparr>" by (simp add: lo(1))
  then have r: "registers base (Suc (Suc 0)) [?lo] st (add_region ?k (paddr ?lo) (psize ?lo) st)"
    using add_region_registers [OF assms(1), of "paddr ?lo" "psize ?lo" m] lo(2) assms(2) by (simp del: linked.simps)
  show ?thesis
  proof (cases "hs = 0")
    case True
    then show ?thesis unfolding e using r by (auto simp: registers_def simp del: linked.simps)
  next
    case False
    have "registers base (Suc (Suc (Suc (Suc 0)))) [?hi] st1 (add_region ?k hb hs st1)"
      if "reg_inv base (Suc (Suc 0)) st1" "free_set st1 = free_set st \<union> (\<Union>p \<in> set [?lo]. points (pivl p))" for st1
    proof -
      have "points (unat hb, unat hs) \<subseteq> {0x10000000 ..}" using hi [OF False] by (auto simp: points_def)
      then have "points (unat hb, unat hs) \<inter> free_set st1 = {}" using that(2) assms(2) lo(3) by fastforce
      then show ?thesis using add_region_registers [OF that(1), of hb hs m] hi [OF False] by (simp del: linked.simps)
    qed
    from registers_obind [OF r this] show ?thesis unfolding e using False by (auto simp del: linked.simps)
  qed
qed

lemma arm_registers:
  assumes "reg_inv base 0 st" "free_set st = {}" and ke: "unat ke = unat KERN_BASE + ko" and "region_ok (arm_pages physbase ko mem_size)"
    and "unat physbase + ko < 2 ^ 32"
  shows "\<exists>n'. registers base n' [arm_pages physbase ko mem_size] st (arm_add_memory_pages physbase (linked (Suc (Suc m))) ke mem_size st)"
proof -
  have e: "ucast ke = (ucast KERN_BASE + of_nat ko :: u64)" "ke = KERN_BASE + of_nat ko"
    using arg_cong [OF ke, of "of_nat :: nat \<Rightarrow> u64"] arg_cong [OF ke, of "of_nat :: nat \<Rightarrow> u32"]
    by (simp_all only: of_nat_add of_nat_unat) simp
  have k: "ke - KERN_BASE = of_nat ko" "KERN_BASE \<le> ke" using e(2) ke by (simp_all add: word_le_nat_alt)
  have ko: "unat (of_nat ko :: u32) = ko" using ke unat_bound [of ke] by (simp add: unat_of_nat)
  have "arm_kva2pa physbase ke = physbase + of_nat ko" using k(1) by (simp add: arm_kva2pa_def algebra_simps)
  then have "unat (arm_kva2pa physbase ke) = unat physbase + ko" using assms(5) ko by (simp add: unat_word_ariths)
  from arg_cong [OF this, of "of_nat :: nat \<Rightarrow> u64"]
  have p: "ucast (premap_addr (arm_kva2pa physbase) ke) = (of_nat (unat physbase + ko) :: u64)"
    using k(2) by (simp only: premap_addr_def if_True of_nat_unat)
  have d: "ucast ke - ucast KERN_BASE = (of_nat ko :: u64)" by (simp add: e(1))
  have "arm_add_memory_pages physbase (linked (Suc (Suc m))) ke mem_size st =
      free_pages (kmalloc (p_alloc (linked m))) (kfree (p_free (linked m))) (arm_pages physbase ko mem_size) st"
    unfolding arm_add_memory_pages_def p d arm_pages_def linked_boot_ops ..
  moreover have "points (pivl (arm_pages physbase ko mem_size)) \<inter> free_set st = {}" using assms(2) by simp
  ultimately show ?thesis using reg_free [OF assms(1) _ assms(4)] by (fastforce simp: registers_def)
qed

text \<open>
  C4: Registering memory at boot. From the state in which the bootstrap pool of 1 KB serves both allocators,
  \<open>add_memory_pages\<close> returns, the free memory is exactly that of the regions and its amount the sum
  of their sizes: on i386 for up to eight entries of RAM of the firmware that are apart and below 4 GB in size,
  each cut to whole pages and to what lies behind the kernel; on MSIM for the low memory behind the kernel up
  to 256 MB and the configured high memory; on ARM for the memory behind the kernel.
\<close>

theorem add_memory_pages_registers:
  assumes "16 dvd unat pool" "unat pool + 8192 \<le> 2 ^ 32" and st: "st = boot_state pool junk" and k: "k = linked (Suc (Suc m))"
  shows "(length (filter usable es) \<le> 8 \<and> regions_disjoint (map (e820_pages kern_end_pa) (filter usable es)) \<and>
      (\<forall>e \<in> set (filter usable es). region_ok (e820_pages kern_end_pa e) \<and> psize (e820_pages kern_end_pa e) < 2 ^ 32) \<longrightarrow>
      (\<exists>n. registers (unat pool) n (map (e820_pages kern_end_pa) (filter usable es)) st (i386_add_memory_pages k kern_end_pa es st))) \<and>
    (unat ke = 0x80000000 + ko \<and> 0 < ko \<and> ko < 0x0FFFF000 \<and>
      (hs \<noteq> 0 \<longrightarrow> region_ok \<lparr>paddr = hb, psize = hs, pflags = 0\<rparr> \<and> 0x10000000 \<le> unat hb) \<longrightarrow>
      (\<exists>n. registers (unat pool) n (msim_low ko # (if hs = 0 then [] else [\<lparr>paddr = hb, psize = hs, pflags = 0\<rparr>])) st
         (msim_add_memory_pages hb hs k ke st))) \<and>
    (unat ke = unat KERN_BASE + ko \<and> region_ok (arm_pages physbase ko mem_size) \<and> unat physbase + ko < 2 ^ 32 \<longrightarrow>
      (\<exists>n. registers (unat pool) n [arm_pages physbase ko mem_size] st (arm_add_memory_pages physbase k ke mem_size st)))"
proof -
  note b = boot_state_reg_inv [OF assms(1,2), of junk, folded st]
  show ?thesis
    unfolding k
  proof (intro conjI impI; elim conjE)
    assume "length (filter usable es) \<le> 8" "regions_disjoint (map (e820_pages kern_end_pa) (filter usable es))"
      "\<forall>e \<in> set (filter usable es). region_ok (e820_pages kern_end_pa e) \<and> psize (e820_pages kern_end_pa e) < 2 ^ 32"
    then show "\<exists>n. registers (unat pool) n (map (e820_pages kern_end_pa) (filter usable es)) st
        (i386_add_memory_pages (linked (Suc (Suc m))) kern_end_pa es st)"
      by (intro i386_registers [OF b(1)]) (simp_all add: b(2))
  next
    assume "unat ke = 0x80000000 + ko" "0 < ko" "ko < 0x0FFFF000"
      "hs \<noteq> 0 \<longrightarrow> region_ok \<lparr>paddr = hb, psize = hs, pflags = 0\<rparr> \<and> 0x10000000 \<le> unat hb"
    then show "\<exists>n. registers (unat pool) n (msim_low ko # (if hs = 0 then [] else [\<lparr>paddr = hb, psize = hs, pflags = 0\<rparr>])) st
        (msim_add_memory_pages hb hs (linked (Suc (Suc m))) ke st)"
      by (intro msim_registers [OF b(1,2)]) blast+
  next
    assume "unat ke = unat KERN_BASE + ko" "region_ok (arm_pages physbase ko mem_size)" "unat physbase + ko < 2 ^ 32"
    then show "\<exists>n. registers (unat pool) n [arm_pages physbase ko mem_size] st
        (arm_add_memory_pages physbase (linked (Suc (Suc m))) ke mem_size st)"
      by (rule arm_registers [OF b(1,2)])
  qed
qed

theorem add_memory_pages_registers_witness:
  "\<exists>st. msim_add_memory_pages 0x20000000 0x10000000 (linked (Suc (Suc 0))) 0x80012345 (boot_state 0x80050000 7) = Ret st \<and>
    free_set st = {0x13000 ..< 0x10000000} \<union> {0x20000000 ..< 0x30000000} \<and> unat (get_free_memory st) = 0x1FFED000"
proof -
  have h: "region_ok \<lparr>paddr = 0x20000000, psize = 0x10000000, pflags = 0\<rparr>" by (simp add: region_ok_def pivl_def iend_def)
  have b: "16 dvd unat (0x80050000 :: u32)" "unat (0x80050000 :: u32) + 8192 \<le> 2 ^ 32" by simp_all
  have "\<exists>n. registers (unat (0x80050000 :: u32)) n (msim_low 0x12345 # (if (0x10000000 :: u64) = 0 then []
      else [\<lparr>paddr = 0x20000000, psize = 0x10000000, pflags = 0\<rparr>])) (boot_state 0x80050000 7)
      (msim_add_memory_pages 0x20000000 0x10000000 (linked (Suc (Suc 0))) 0x80012345 (boot_state 0x80050000 7))"
    using add_memory_pages_registers [OF b refl refl, of "[]" 0 7 0 "0x80012345" "0x12345" "0x10000000" "0x20000000" 0 0] h by simp
  moreover have "pivl (msim_low 0x12345) = (0x13000, 0xFFED000)" "psize (msim_low 0x12345) = 0xFFED000"
    by (simp_all add: msim_low_def pivl_def)
  ultimately show ?thesis
    using boot_state_reg_inv [OF b, of 7] by (fastforce simp: registers_def pivl_def points_def iend_def simp del: linked.simps)
qed

text \<open>
  On the mappings that a comment of \<open>mach-loongson3a/memory.c\<close> gives as the default, the probe finds what the
  comment says: 4 GB of memory from address 2 GB on. A mask with 31 or more zero bits makes the
  shift undefined.
\<close>

definition loongson_default :: "u64 \<Rightarrow> u64" where
  "loongson_default a =
     (case map_of (zip [LOONGSON3A_CPU_WINx_BASEADDR j. j \<leftarrow> [0, 1, 2, 3, 4, 5, 6, 7]]
         [0x1fc00000, 0x10000000, 0, 0x100000, 0x80000000, 0x80100000, 0x100000000, 0x100100000]
       @ zip [LOONGSON3A_CPU_WINx_MASKADDR j. j \<leftarrow> [0, 1, 2, 3, 4, 5, 6, 7]]
         [0xfffffffffff00000, 0xfffffffff0000000, 0xfffffffff0100000, 0xfffffffff0100000,
          0xffffffff80100000, 0xffffffff80100000, 0xffffffff80100000, 0xffffffff80100000]) a of
       Some v \<Rightarrow> v | None \<Rightarrow> 0)"

lemma loongson_default_probe:
  "probe_windows loongson_default (map of_nat [0..<LOONGSON3A_CORE_WINS]) (-1, 0) = Ret (0x80000000, 0x100000000)"
  by code_simp

lemma loongson_shift_undefined:
  "probe_windows (\<lambda>a. if a = LOONGSON3A_CPU_WINx_MASKADDR 0 then 0xffffffff00000000 else 0x80000000) [0] r = Fault"
  by (cases r) (simp add: LOONGSON3A_CPU_WINx_BASEADDR_def LOONGSON3A_CPU_WINx_MASKADDR_def LOONGSON3A_CPU_WIN_BASE_def
      int_shift_def count_zero_bits_def hweight64_def Let_def)

end
