(* ===== verification/KernInit.thy ===== *)
theory KernInit
  imports MemReg
begin

text \<open>
  The second stage of the kernel, \<open>master_init\<close> of \<open>kern/init/init.c\<close>: the memory of an architecture is
  registered, the page allocator moves to the final object allocator, and the caches are tried out.
  The initialisation of devices, traps and initcalls that comes between is modelled with its parts.
\<close>

section \<open>Memory\<close>

text \<open>\<open>add_memory\<close> is \<open>add_memory_pages\<close> of the architecture, over the entry points of the allocators.\<close>

definition master_init_mem :: "nat \<Rightarrow> u32 \<Rightarrow> gfp_t \<Rightarrow> (kops \<Rightarrow> kmem \<Rightarrow> kmem outcome) \<Rightarrow> kmem outcome" where
  "master_init_mem n bootstrap_pool junk add_memory =
     obind (add_memory (linked n) (boot_state bootstrap_pool junk)) (boot_switch n junk)"

section \<open>The test of the caches\<close>

definition test_cache :: allocator_cache where
  "test_cache = \<lparr>c_locked = False, c_head = None, c_size = 1024, c_align = 1024, c_flags = 0, c_ctor = False, c_dtor = False, c_log = []\<rparr>"

text \<open>The result is what the test prints: the addresses and the result of \<open>cache_destroy\<close>.\<close>

definition cache_test :: "caching_allocator \<Rightarrow> kops \<Rightarrow> kmem \<Rightarrow> (u32 list \<times> int \<times> kmem) outcome" where
  "cache_test al k st =
     obind (cache_create al k (Some test_cache) st) (\<lambda>(_, cache, st).
     obind (cache_alloc al k cache st) (\<lambda>(a, cache, st).
     obind (cache_alloc al k cache st) (\<lambda>(b, cache, st).
     obind (cache_alloc al k cache st) (\<lambda>(c, cache, st).
     obind (cache_free al cache a) (\<lambda>(_, cache).
     obind (cache_free al cache b) (\<lambda>(_, cache).
     obind (cache_free al cache c) (\<lambda>(_, cache).
     obind (cache_alloc al k cache st) (\<lambda>(a2, cache, st).
     obind (cache_free al cache a2) (\<lambda>(_, cache).
     obind (cache_destroy al k cache st) (\<lambda>(ret, cache, st).
     obind (cache_create al k cache st) (\<lambda>(_, cache, st).
     obind (cache_alloc al k cache st) (\<lambda>(a3, cache, st).
       Ret ([a, b, c, a2, a3], ret, st)))))))))))))"

section \<open>A run\<close>

text \<open>
  The memory of MSIM behind a kernel that ends at \<open>0x80012345\<close>, through registration, the move of the page
  allocator and the test: the objects are 1 KB apart in one page of a slab, a freed object is
  given out again, and the cache can be destroyed and created anew.
\<close>

declare construct_from.simps [code]

definition run_result :: "(u32 list \<times> int \<times> kmem) outcome \<Rightarrow> (u32 list \<times> int \<times> addr_t) option" where
  "run_result r = (case r of Ret (printed, ret, st) \<Rightarrow> Some (printed, ret, get_free_memory st) | _ \<Rightarrow> None)"

lemma msim_master_init_run:
  "run_result (obind (master_init_mem 12 0x80050000 7 (\<lambda>k. msim_add_memory_pages 0 0 k 0x80012345)) (cache_test CSlab (linked 12))) =
     Some ([0x80014000, 0x80014400, 0x80014800, 0x80014000, 0x80014000], 0, 0xFFE4000)"
  by code_simp

end
