(* ===== verification/MipsPg.thy ===== *)
theory MipsPg
  imports PgTable PageSource
begin

text \<open>
  The page tables of 32-bit MIPS, \<open>kern/arch/mips/pgtable.c\<close> with \<open>include/arch/mips/pgtable.h\<close>:
  a directory of 1024 kernel virtual addresses of leaf tables with 1024 entries each.
\<close>

section \<open>Definitions\<close>

definition PTE_CACHEABLE :: u32 where "PTE_CACHEABLE = 0x600"
definition PTE_DIRTY :: u32 where "PTE_DIRTY = 0x100"
definition PTE_VALID :: u32 where "PTE_VALID = 0x080"
definition PTE_GLOBAL :: u32 where "PTE_GLOBAL = 0x040"

definition NR_PTENTRIES :: nat where "NR_PTENTRIES = 1024"

definition mips_PDX :: "u32 \<Rightarrow> u32" where
  "mips_PDX va = drop_bit 22 va AND 0x3ff"

definition mips_PTX :: "u32 \<Rightarrow> u32" where
  "mips_PTX va = drop_bit 12 va AND 0x3ff"

record mips_pagedesc =
  m_pdev :: u32
  m_ptev :: u32
  m_pdx :: u32
  m_ptx :: u32

definition mips_entry :: "mips_pagedesc \<Rightarrow> u32" where
  "mips_entry pd = cell (m_ptev pd) (m_ptx pd)"

definition mips_getpagedesc :: "(kmem \<Rightarrow> (addr_t \<times> kmem) outcome) \<Rightarrow> u32 \<Rightarrow> (32, mips_pagedesc) getdesc" where
  "mips_getpagedesc galloc pgindex addr create pd s =
     (case s of (mem, st) \<Rightarrow>
        let pd = pd\<lparr>m_pdev := pgindex, m_pdx := mips_PDX addr\<rparr>;
            pde = cell pgindex (m_pdx pd)
        in if mem pde \<noteq> 0 then Ret (0, pd\<lparr>m_ptev := mem pde, m_ptx := mips_PTX addr\<rparr>, mem, st)
           else if \<not> create then Ret (- ENOENT, pd, mem, st)
           else obind (galloc st) (\<lambda>(pa, st).
             if pa = -1 then Ret (- ENOMEM, pd, mem, st)
             else
               let pd = pd\<lparr>m_ptev := mips_pa2kva (ucast pa)\<rparr>;
                   mem = (zero_page (m_ptev pd) mem)(pde := m_ptev pd)
               in Ret (0, pd\<lparr>m_ptx := mips_PTX addr\<rparr>, mem, st)))"

definition mips_table_empty :: "32 mem \<Rightarrow> u32 \<Rightarrow> bool" where
  "mips_table_empty mem pte \<longleftrightarrow> list_all (\<lambda>i. mem (cell pte (of_nat i)) = 0) [0..<NR_PTENTRIES]"

text \<open>The loop of \<open>__free_intermediate_pgtable\<close>; reading a table through NULL is a fault.\<close>

fun mips_free_dirs :: "(addr_t \<Rightarrow> kmem \<Rightarrow> kmem outcome) \<Rightarrow> u32 \<Rightarrow> nat list \<Rightarrow> 32 ptstate \<Rightarrow> 32 ptstate outcome" where
  "mips_free_dirs gfree pgindex [] s = Ret s"
| "mips_free_dirs gfree pgindex (pdx # rest) (mem, st) =
     (let pde = cell pgindex (of_nat pdx)
      in if mem pde = 0 then Fault
         else if mips_table_empty mem (mem pde) then
           obind (gfree (ucast (mips_kva2pa (mem pde))) st)
             (\<lambda>st. mips_free_dirs gfree pgindex rest (mem(pde := 0), st))
         else mips_free_dirs gfree pgindex rest (mem, st))"

definition mips_free_intermediate :: "(addr_t \<Rightarrow> kmem \<Rightarrow> kmem outcome) \<Rightarrow> u32 \<Rightarrow> u32 \<Rightarrow> u32 \<Rightarrow> 32 ptstate \<Rightarrow> 32 ptstate outcome" where
  "mips_free_intermediate gfree pgindex vaddr sz =
     mips_free_dirs gfree pgindex [unat (mips_PDX vaddr)..<Suc (unat (mips_PDX (vaddr + sz - PAGE_SIZE)))]"

text \<open>\<open>init_pgindex\<close> returns 0 for NULL.\<close>

definition mips_init_pgindex :: "(kmem \<Rightarrow> (addr_t \<times> kmem) outcome) \<Rightarrow> 32 ptstate \<Rightarrow> (u32 \<times> 32 ptstate) outcome" where
  "mips_init_pgindex galloc s =
     (case s of (mem, st) \<Rightarrow>
        obind (galloc st) (\<lambda>(pa, st).
          if pa = -1 then Ret (0, mem, st)
          else let pgindex = mips_pa2kva (ucast pa) in Ret (pgindex, zero_page pgindex mem, st)))"

definition mips_destroy_pgindex :: "(addr_t \<Rightarrow> kmem \<Rightarrow> kmem outcome) \<Rightarrow> u32 \<Rightarrow> 32 ptstate \<Rightarrow> 32 ptstate outcome" where
  "mips_destroy_pgindex gfree pgindex s =
     (case s of (mem, st) \<Rightarrow> obind (gfree (ucast (mips_kva2pa pgindex)) st) (\<lambda>st. Ret (mem, st)))"

definition mach_pgtable_perm :: "u32 \<Rightarrow> u32" where
  "mach_pgtable_perm vma_flags = 0"

definition mips_pgtable_perm :: "u32 \<Rightarrow> u32" where
  "mips_pgtable_perm vma_flags =
     PTE_VALID OR PTE_GLOBAL OR PTE_CACHEABLE OR (if vma_flags AND VMA_WRITE \<noteq> 0 then PTE_DIRTY else 0) OR
     mach_pgtable_perm vma_flags"

text \<open>The descriptor on the stack of \<open>map_pages\<close> is not initialised.\<close>

definition mips_map_pages :: "(kmem \<Rightarrow> (addr_t \<times> kmem) outcome) \<Rightarrow> (addr_t \<Rightarrow> kmem \<Rightarrow> kmem outcome) \<Rightarrow> mips_pagedesc \<Rightarrow>
    u32 \<Rightarrow> u32 \<Rightarrow> addr_t \<Rightarrow> u32 \<Rightarrow> u32 \<Rightarrow> 32 ptstate \<Rightarrow> (int \<times> 32 ptstate) outcome" where
  "mips_map_pages galloc gfree junk pgindex vaddr pa sz flags =
     map_range (mips_getpagedesc galloc pgindex) mips_entry (\<lambda>e. e \<noteq> 0) (ucast (mips_pgtable_perm flags))
       (mips_free_intermediate gfree pgindex) vaddr pa sz junk"

definition mips_unmap_pages :: "(kmem \<Rightarrow> (addr_t \<times> kmem) outcome) \<Rightarrow> (addr_t \<Rightarrow> kmem \<Rightarrow> kmem outcome) \<Rightarrow> mips_pagedesc \<Rightarrow>
    u32 \<Rightarrow> u32 \<Rightarrow> u32 \<Rightarrow> 32 ptstate \<Rightarrow> (int \<times> addr_t option \<times> 32 ptstate) outcome" where
  "mips_unmap_pages galloc gfree junk pgindex vaddr sz =
     unmap_range (mips_getpagedesc galloc pgindex) mips_entry (mips_free_intermediate gfree pgindex) vaddr sz junk"


section \<open>The tables as an array of entries\<close>

definition mips_dir :: "u32 \<Rightarrow> 32 mem \<Rightarrow> u32 \<Rightarrow> u32" where
  "mips_dir pgindex mem i = mem (cell pgindex i)"

definition mips_slot :: "u32 \<Rightarrow> 32 mem \<Rightarrow> u32 \<Rightarrow> u32 option" where
  "mips_slot pgindex mem v =
     (let t = mips_dir pgindex mem (mips_PDX v) in if t = 0 then None else Some (cell t (mips_PTX v)))"

text \<open>
  The directory and the leaf tables are different pages, no two directory entries share a
  leaf table, and none of them is a page the allocator may still hand out; those lie in the
  low 256 MB that are mapped at \<open>KSEG0\<close>.
\<close>

definition mips_wf :: "(kmem \<Rightarrow> bool) \<Rightarrow> (kmem \<Rightarrow> addr_t set) \<Rightarrow> u32 \<Rightarrow> 32 ptstate \<Rightarrow> bool" where
  "mips_wf ok avail pgindex s \<longleftrightarrow> (case s of (mem, st) \<Rightarrow>
     ok st \<and> 4096 dvd unat pgindex \<and>
     (\<forall>i < 1024. mips_dir pgindex mem i \<noteq> 0 \<longrightarrow> 4096 dvd unat (mips_dir pgindex mem i) \<and> mips_dir pgindex mem i \<noteq> pgindex) \<and>
     (\<forall>i < 1024. \<forall>j < 1024. mips_dir pgindex mem i \<noteq> 0 \<longrightarrow> mips_dir pgindex mem i = mips_dir pgindex mem j \<longrightarrow> i = j) \<and>
     (\<forall>pa \<in> avail st. pa < 0x10000000 \<and> mips_pa2kva (ucast pa) \<noteq> pgindex \<and>
        (\<forall>i < 1024. mips_dir pgindex mem i \<noteq> mips_pa2kva (ucast pa))))"

lemma mips_index_less: "mips_PDX v < 1024" "mips_PTX v < 1024"
proof -
  have "x AND 0x3ff < (1024 :: u32)" for x :: u32
  proof -
    have "(0x3ff :: u32) = mask 10" by (simp add: mask_eq_exp_minus_1)
    then show ?thesis using unat_and_mask [of x 10] by (simp only: word_less_nat_alt) simp
  qed
  then show "mips_PDX v < 1024" "mips_PTX v < 1024" by (simp_all add: mips_PDX_def mips_PTX_def)
qed

lemma in_table_32: "4096 dvd unat (t :: u32) \<Longrightarrow> i < 1024 \<Longrightarrow> in_table t i"
  by (simp add: in_table_def word_less_nat_alt)

lemma page_split: "page (v :: u32) = page w \<longleftrightarrow> mips_PDX v = mips_PDX w \<and> mips_PTX v = mips_PTX w"
proof -
  have m: "(0x3ff :: u32) = mask 10" by (simp add: mask_eq_exp_minus_1)
  have "unat (mips_PDX u) = unat u div 2 ^ 22 mod 2 ^ 10" "unat (mips_PTX u) = unat u div 2 ^ 12 mod 2 ^ 10" for u :: u32
    unfolding mips_PDX_def mips_PTX_def m unat_and_mask unat_drop_bit_eq by (simp_all add: drop_bit_eq_div)
  moreover have "unat u div 2 ^ 22 < 2 ^ 10" for u :: u32
    using unat_bound [of u] by (simp add: less_mult_imp_div_less)
  ultimately have x: "unat (mips_PDX u) = unat u div 4096 div 1024" "unat (mips_PTX u) = unat u div 4096 mod 1024" for u :: u32
    by (simp_all add: div_mult2_eq [symmetric])
  show ?thesis
    unfolding page_eq_iff word_unat_eq_iff [of "mips_PDX v"] word_unat_eq_iff [of "mips_PTX v"] x
    by (metis div_mult_mod_eq)
qed

lemma mips_pa2kva_low:
  assumes "pa < (0x10000000 :: addr_t)"
  shows "unat (mips_pa2kva (ucast pa)) = 0x80000000 + unat pa" and "mips_pa2kva (ucast pa) \<noteq> 0"
proof -
  have u: "unat pa < 0x10000000" using assms by (simp add: word_less_nat_alt)
  then have c: "unat (ucast pa :: u32) = unat pa" by (simp add: unsigned_ucast_eq take_bit_nat_eq_self_iff)
  then have "mips_pa2kva (ucast pa) = 0x80000000 + ucast pa"
    using u by (simp add: mips_pa2kva_def LOWRAM_TOP_def TO_CAC_def KSEG0_def word_less_nat_alt)
  then show v: "unat (mips_pa2kva (ucast pa)) = 0x80000000 + unat pa"
    using c u by (simp add: unat_add_no_overflow)
  show "mips_pa2kva (ucast pa) \<noteq> 0"
  proof
    assume "mips_pa2kva (ucast pa) = 0"
    then show False using v by simp
  qed
qed


context page_source
begin

lemma mips_create:
  assumes wf: "mips_wf inv avail pgindex (mem, st)" and room: "1 \<le> card (avail st)"
  shows "\<exists>pd' mem' st'. mips_getpagedesc galloc pgindex v True pd (mem, st) = Ret (0, pd', mem', st') \<and>
    mips_wf inv avail pgindex (mem', st') \<and> mips_slot pgindex mem' v = Some (mips_entry pd') \<and>
    card (avail st) \<le> card (avail st') + 1 \<and>
    (\<forall>w a. mips_slot pgindex mem w = Some a \<longrightarrow> mips_slot pgindex mem' w = Some a \<and> mem' a = mem a) \<and>
    (\<forall>w a. mips_slot pgindex mem w = None \<longrightarrow> mips_slot pgindex mem' w = Some a \<longrightarrow> mem' a = 0)"
proof (cases "mips_dir pgindex mem (mips_PDX v) = 0")
  case False
  then show ?thesis
    using wf by (intro exI) (auto simp: mips_getpagedesc_def mips_slot_def mips_entry_def mips_dir_def Let_def)
next
  case True
  have al: "4096 dvd unat pgindex" and inv: "inv st"
    and tabs: "\<forall>i < 1024. mips_dir pgindex mem i \<noteq> 0 \<longrightarrow> 4096 dvd unat (mips_dir pgindex mem i) \<and> mips_dir pgindex mem i \<noteq> pgindex"
    and dist: "\<forall>i < 1024. \<forall>j < 1024. mips_dir pgindex mem i \<noteq> 0 \<longrightarrow> mips_dir pgindex mem i = mips_dir pgindex mem j \<longrightarrow> i = j"
    and av: "\<forall>pa \<in> avail st. pa < 0x10000000 \<and> mips_pa2kva (ucast pa) \<noteq> pgindex \<and>
        (\<forall>i < 1024. mips_dir pgindex mem i \<noteq> mips_pa2kva (ucast pa))"
    using wf by (simp_all add: mips_wf_def)
  obtain pa st' where g: "galloc st = Ret (pa, st')" "inv st'" "pa \<in> avail st" "pa \<noteq> -1" "avail st' = avail st - {pa}"
    "card (avail st) = Suc (card (avail st'))"
    using take_page_room [OF inv] room by auto
  define t where "t = mips_pa2kva (ucast pa)"
  define x where "x = mips_PDX v"
  define mem' where "mem' = (zero_page t mem)(cell pgindex x := t)"
  have x: "x < 1024" using mips_index_less by (simp add: x_def)
  have t: "unat t = 0x80000000 + unat pa" "t \<noteq> 0" "t \<noteq> pgindex" "\<forall>i < 1024. mips_dir pgindex mem i \<noteq> t"
    using av g(3) mips_pa2kva_low [of pa] by (auto simp: t_def)
  have at: "4096 dvd unat t" using avail_aligned [OF g(3)] t(1) by simp
  have mem'_apply: "mem' a = (if a = cell pgindex x then t else if page a = page t then 0 else mem a)" for a
    using at by (simp add: mem'_def zero_page_apply)
  have pc: "page (cell u i) = page u" if "4096 dvd unat u" "i < 1024" for u i :: u32
    using page_cell [OF in_table_32 [OF that]] by simp
  have pn: "page u \<noteq> page w" if "4096 dvd unat u" "4096 dvd unat w" "u \<noteq> w" for u w :: u32
    using aligned_page_inj [OF that(1,2)] that(3) by blast
  have ci: "cell pgindex i \<noteq> cell pgindex x" if "i < 1024" "i \<noteq> x" for i
    using cell_inj [OF in_table_32 [OF al that(1)] in_table_32 [OF al x]] that(2) by auto
  have dir': "mips_dir pgindex mem' i = (if i = x then t else mips_dir pgindex mem i)" if "i < 1024" for i
    using ci [OF that] pc [OF al that] pn [OF al at] t(3) by (auto simp: mips_dir_def mem'_apply)
  have new: "mem' (cell t i) = 0" if "i < 1024" for i
    using pc [OF at that] pc [OF al x] pn [OF al at] t(3) by (auto simp: mem'_apply)
  have old: "mem' (cell (mips_dir pgindex mem j) i) = mem (cell (mips_dir pgindex mem j) i)"
    if "j < 1024" "i < 1024" "mips_dir pgindex mem j \<noteq> 0" for i j
  proof -
    have u: "4096 dvd unat (mips_dir pgindex mem j)" "mips_dir pgindex mem j \<noteq> pgindex" "mips_dir pgindex mem j \<noteq> t"
      using tabs t(4) that by auto
    show ?thesis
      using pc [OF u(1) that(2)] pc [OF al x] pn [OF u(1) al u(2)] pn [OF u(1) at u(3)] by (auto simp: mem'_apply)
  qed
  have wf': "mips_wf inv avail pgindex (mem', st')"
    unfolding mips_wf_def prod.case
  proof (intro conjI)
    show "inv st'" "4096 dvd unat pgindex" by (rule g(2), rule al)
    show "\<forall>i < 1024. mips_dir pgindex mem' i \<noteq> 0 \<longrightarrow> 4096 dvd unat (mips_dir pgindex mem' i) \<and> mips_dir pgindex mem' i \<noteq> pgindex"
      using tabs at t(3) by (auto simp: dir')
    show "\<forall>i < 1024. \<forall>j < 1024. mips_dir pgindex mem' i \<noteq> 0 \<longrightarrow> mips_dir pgindex mem' i = mips_dir pgindex mem' j \<longrightarrow> i = j"
      using dist t(4) by (auto simp: dir')
    show "\<forall>pa \<in> avail st'. pa < 0x10000000 \<and> mips_pa2kva (ucast pa) \<noteq> pgindex \<and>
        (\<forall>i < 1024. mips_dir pgindex mem' i \<noteq> mips_pa2kva (ucast pa))"
    proof
      fix q assume q: "q \<in> avail st'"
      then have "q \<in> avail st" "q \<noteq> pa" using g(5) by auto
      moreover from this have "mips_pa2kva (ucast q) \<noteq> t"
        using av mips_pa2kva_low(1) [of q] t(1) by (metis add_left_cancel word_unat_eq_iff)
      ultimately show "q < 0x10000000 \<and> mips_pa2kva (ucast q) \<noteq> pgindex \<and>
        (\<forall>i < 1024. mips_dir pgindex mem' i \<noteq> mips_pa2kva (ucast q))"
        using av by (auto simp: dir')
    qed
  qed
  have "mips_getpagedesc galloc pgindex v True pd (mem, st) =
    Ret (0, pd\<lparr>m_pdev := pgindex, m_pdx := x, m_ptev := t, m_ptx := mips_PTX v\<rparr>, mem', st')"
    using True g(1,4) by (simp add: mips_getpagedesc_def mips_dir_def Let_def t_def mem'_def x_def)
  moreover have "mips_slot pgindex mem' v = Some (cell t (mips_PTX v))"
    using dir' [OF x] t(2) by (simp add: mips_slot_def x_def [symmetric])
  moreover have "mips_slot pgindex mem' w = Some a \<and> mem' a = mem a" if "mips_slot pgindex mem w = Some a" for w a
    using that dir' [of "mips_PDX w"] old [of "mips_PDX w" "mips_PTX w"] True mips_index_less
    by (auto simp: mips_slot_def Let_def x_def split: if_splits)
  moreover have "mem' a = 0" if "mips_slot pgindex mem w = None" "mips_slot pgindex mem' w = Some a" for w a
    using that dir' [of "mips_PDX w"] new [of "mips_PTX w"] mips_index_less
    by (auto simp: mips_slot_def Let_def split: if_splits)
  ultimately show ?thesis using wf' g(6) by (auto simp: mips_entry_def)
qed


end

lemma mips_dir_store:
  assumes wf: "mips_wf ok avail pgindex (mem, st)" and "mips_slot pgindex mem v = Some a" and "i < 1024"
  shows "mips_dir pgindex (mem(a := x)) i = mips_dir pgindex mem i"
proof -
  define t where "t = mips_dir pgindex mem (mips_PDX v)"
  have t: "t \<noteq> 0" "a = cell t (mips_PTX v)" using assms(2) by (auto simp: mips_slot_def Let_def t_def split: if_splits)
  have al: "4096 dvd unat pgindex" and at: "4096 dvd unat t" and "t \<noteq> pgindex"
    using wf t(1) mips_index_less [of v] by (auto simp: mips_wf_def t_def)
  moreover from this have "cell pgindex i \<noteq> a"
    using cell_inj [OF in_table_32 [OF al assms(3)] in_table_32 [OF at mips_index_less(2)], of v] t(2) by auto
  ultimately show ?thesis by (simp add: mips_dir_def)
qed

lemma mips_store:
  assumes wf: "mips_wf ok avail pgindex (mem, st)" and "mips_slot pgindex mem v = Some a"
  shows "mips_wf ok avail pgindex (mem(a := x), st)" and "mips_slot pgindex (mem(a := x)) w = mips_slot pgindex mem w"
proof -
  note d = mips_dir_store [OF assms, of _ x]
  show "mips_slot pgindex (mem(a := x)) w = mips_slot pgindex mem w"
    using d [OF mips_index_less(1)] by (simp add: mips_slot_def)
  have e: "(\<forall>i < 1024. P (mips_dir pgindex (mem(a := x)) i) i) = (\<forall>i < 1024. P (mips_dir pgindex mem i) i)" for P
    using d by auto
  have "(\<forall>i < 1024. \<forall>j < 1024. mips_dir pgindex (mem(a := x)) i \<noteq> 0 \<longrightarrow>
      mips_dir pgindex (mem(a := x)) i = mips_dir pgindex (mem(a := x)) j \<longrightarrow> i = j)"
    using wf d by (simp add: mips_wf_def)
  then show "mips_wf ok avail pgindex (mem(a := x), st)"
    using wf unfolding mips_wf_def prod.case by (simp add: d)
qed

lemma mips_separate:
  assumes wf: "mips_wf ok avail pgindex (mem, st)" and "mips_slot pgindex mem v = Some a" and "mips_slot pgindex mem w = Some a"
  shows "page v = page w"
proof -
  have t: "mips_dir pgindex mem (mips_PDX v) \<noteq> 0" "mips_dir pgindex mem (mips_PDX w) \<noteq> 0"
    "cell (mips_dir pgindex mem (mips_PDX v)) (mips_PTX v) = cell (mips_dir pgindex mem (mips_PDX w)) (mips_PTX w)"
    using assms(2,3) by (auto simp: mips_slot_def Let_def split: if_splits)
  then have al: "4096 dvd unat (mips_dir pgindex mem (mips_PDX v))" "4096 dvd unat (mips_dir pgindex mem (mips_PDX w))"
    using wf mips_index_less by (simp_all add: mips_wf_def)
  have "mips_dir pgindex mem (mips_PDX v) = mips_dir pgindex mem (mips_PDX w) \<and> mips_PTX v = mips_PTX w"
    using cell_inj [OF in_table_32 [OF al(1) mips_index_less(2)] in_table_32 [OF al(2) mips_index_less(2)] _ t(3)] by simp
  moreover from this have "mips_PDX v = mips_PDX w"
    using wf t(1) mips_index_less by (simp add: mips_wf_def)
  ultimately show ?thesis by (simp add: page_split)
qed

lemma mips_same_page: "page v = page w \<Longrightarrow> mips_slot pgindex mem v = mips_slot pgindex mem w"
  by (simp add: page_split mips_slot_def Let_def)

context page_source
begin

lemma mips_leaf_tables:
  "leaf_tables (mips_getpagedesc galloc pgindex) mips_entry (mips_wf inv avail pgindex) (\<lambda>st. card (avail st)) 1
     (\<lambda>_. True) (mips_slot pgindex)"
proof
  fix mem :: "32 mem" and st :: kmem and v :: u32 and pd
  assume "mips_wf inv avail pgindex (mem, st)" and "1 \<le> card (avail st)"
  from mips_create [OF this, of v pd]
  show "\<exists>pd' mem' st'. mips_getpagedesc galloc pgindex v True pd (mem, st) = Ret (0, pd', mem', st') \<and>
    mips_wf inv avail pgindex (mem', st') \<and> mips_slot pgindex mem' v = Some (mips_entry pd') \<and>
    card (avail st) \<le> card (avail st') + 1 \<and>
    (\<forall>w a. True \<longrightarrow> mips_slot pgindex mem w = Some a \<longrightarrow> mips_slot pgindex mem' w = Some a \<and> mem' a = mem a) \<and>
    (\<forall>w a. True \<longrightarrow> mips_slot pgindex mem w = None \<longrightarrow> mips_slot pgindex mem' w = Some a \<longrightarrow> mem' a = 0)"
    by simp
next
  fix mem :: "32 mem" and st :: kmem and v a :: u32 and pd
  assume "mips_slot pgindex mem v = Some a"
  then show "\<exists>pd'. mips_getpagedesc galloc pgindex v False pd (mem, st) = Ret (0, pd', mem, st) \<and> mips_entry pd' = a"
    by (auto simp: mips_getpagedesc_def mips_slot_def mips_dir_def mips_entry_def Let_def split: if_splits)
next
  fix mem :: "32 mem" and st :: kmem and v a x :: u32
  assume "mips_wf inv avail pgindex (mem, st)" and "mips_slot pgindex mem v = Some a"
  from mips_store [OF this, of x]
  show "mips_wf inv avail pgindex (mem(a := x), st) \<and>
    (\<forall>w. True \<longrightarrow> mips_slot pgindex (mem(a := x)) w = mips_slot pgindex mem w)"
    by blast
qed (rule mips_separate mips_same_page; assumption)+

end

interpretation mips: leaf_tables "mips_getpagedesc (pgalloc (by_ref (alloc_pages (kfree putpages))) junk) pgindex" mips_entry
    "mips_wf (page_inv phase) (page_avail phase) pgindex" "\<lambda>st. card (page_avail phase st)" 1 "\<lambda>_. True" "mips_slot pgindex"
  for putpages junk phase pgindex
  by (rule phase_pages.mips_leaf_tables)


section \<open>Mapping and unmapping\<close>

text \<open>The entry that a refill of the TLB finds for an address, 0 if there is none.\<close>

definition mips_lookup :: "u32 \<Rightarrow> 32 mem \<Rightarrow> u32 \<Rightarrow> u32" where
  "mips_lookup pgindex mem v =
     (let t = mem (cell pgindex (mips_PDX v)) in if t = 0 then 0 else mem (cell t (mips_PTX v)))"

lemma mips_lookup_slot: "mips_lookup pgindex mem v = (case mips_slot pgindex mem v of None \<Rightarrow> 0 | Some a \<Rightarrow> mem a)"
  by (simp add: mips_lookup_def mips_slot_def mips_dir_def Let_def)

lemma mips_entry_at: "mips.entry_at pgindex = mips_lookup pgindex"
  by (intro ext) (simp add: mips.entry_at_def mips_lookup_slot)

lemma mips_perm_ucast: "ucast (x OR ucast (mips_pgtable_perm flags) :: u64) = (ucast x :: u32) OR mips_pgtable_perm flags"
  by (rule bit_word_eqI) (auto simp: bit_simps)

text \<open>
  Mapping pages on MIPS: for page-aligned arguments and a range of unmapped pages,
  with as many pages left as the range has, \<open>map_pages\<close> returns 0; then every page of the
  range has the entry of its physical page with the permissions of the flags, every other
  address has the entry it had before, and the tables are well-formed.
\<close>

theorem mips_map_pages_maps:
  assumes "mips_wf (page_inv phase) (page_avail phase) pgindex s"
    and "\<forall>i < n. mips_lookup pgindex (fst s) (nth_page v i) = 0"
    and "n \<le> card (page_avail phase (snd s))"
    and "IS_ALIGNED v PAGE_SIZE" and "IS_ALIGNED pa PAGE_SIZE" and "unat sz = n * 4096"
    and "unat v + n * 4096 \<le> 2 ^ 32" and "unat pa + n * 4096 < 2 ^ 64"
  shows "\<exists>s'. mips_map_pages (pgalloc (by_ref (alloc_pages (kfree putpages))) junk) gfree pd pgindex v pa sz flags s = Ret (0, s') \<and>
    mips_wf (page_inv phase) (page_avail phase) pgindex s' \<and>
    (\<forall>i < n. mips_lookup pgindex (fst s') (nth_page v i) = ucast (pa + of_nat (i * 4096)) OR mips_pgtable_perm flags) \<and>
    (\<forall>w. (\<forall>i < n. page w \<noteq> page (nth_page v i)) \<longrightarrow> mips_lookup pgindex (fst s') w = mips_lookup pgindex (fst s) w)"
proof -
  have "IS_ALIGNED sz PAGE_SIZE" using assms(6) by (simp add: aligned_4096)
  moreover have "\<forall>i < n. True \<and> \<not> mips.entry_at pgindex (fst s) (nth_page v i) \<noteq> 0"
    using assms(2) by (simp add: mips_entry_at)
  moreover have "n * 1 \<le> card (page_avail phase (snd s))" "unat v + n * 4096 \<le> 2 ^ LENGTH(32)"
    using assms(3,7) by simp_all
  ultimately show ?thesis
    unfolding mips_map_pages_def mips_perm_ucast [symmetric] mips_entry_at [symmetric]
    using mips.map_range_maps [OF assms(1), where n = n and v = v and present = "\<lambda>e. e \<noteq> 0" and pa = pa and sz = sz
        and perm = "ucast (mips_pgtable_perm flags)" and rollback = "mips_free_intermediate gfree pgindex" and pd = pd
        and putpages = putpages and junk = junk] assms(4-6,8)
    by simp
qed


definition example_mips_mem :: "32 mem" where
  "example_mips_mem = (\<lambda>_. 0)(0x80200004 := 0x80201000, 0x80201000 := 0x3006C0, 0x80201004 := 0x3016C0)"

lemma example_mips_wf:
  assumes "page_inv phase st" and "\<forall>pa \<in> page_avail phase st. unat pa < 0x110000"
  shows "mips_wf (page_inv phase) (page_avail phase) 0x80200000 (\<lambda>_. 0, st)"
    and "mips_wf (page_inv phase) (page_avail phase) 0x80200000 (example_mips_mem, st)"
proof -
  have kva: "mips_pa2kva (ucast pa) \<noteq> 0x80200000 \<and> mips_pa2kva (ucast pa) \<noteq> 0x80201000 \<and> mips_pa2kva (ucast pa) \<noteq> 0 \<and>
      pa < 0x10000000" if "pa \<in> page_avail phase st" for pa
  proof -
    have u: "unat pa < 0x110000" using that assms(2) by simp
    then have l: "pa < 0x10000000" by (simp add: word_less_nat_alt)
    have "unat (mips_pa2kva (ucast pa)) < 0x80110000" "unat (mips_pa2kva (ucast pa)) \<noteq> 0"
      using mips_pa2kva_low [OF l] u by simp_all
    then show ?thesis using l by auto
  qed
  show "mips_wf (page_inv phase) (page_avail phase) 0x80200000 (\<lambda>_. 0, st)"
    using assms(1) kva by (auto simp: mips_wf_def mips_dir_def)
  have d: "mips_dir 0x80200000 example_mips_mem i = (if i = 1 then 0x80201000 else 0)" if "i < 1024" for i
  proof -
    have t: "in_table (0x80200000 :: u32) i" using that by (simp add: in_table_32)
    have u: "unat (cell 0x80200000 i) = 0x80200000 + 4 * unat i" using unat_cell [OF t] by simp
    have "unat i < 1024" using that by (simp add: word_less_nat_alt)
    then have "cell 0x80200000 i \<noteq> 0x80201000" "cell 0x80200000 i \<noteq> 0x80201004" using u by auto
    moreover have "cell 0x80200000 i = 0x80200004 \<longleftrightarrow> i = 1"
    proof
      assume "cell 0x80200000 i = 0x80200004"
      then have "unat i = unat (1 :: u32)" using u by simp
      then show "i = 1" by (simp only: word_unat_eq_iff)
    qed (simp add: cell_def)
    ultimately show ?thesis by (simp add: mips_dir_def example_mips_mem_def)
  qed
  show "mips_wf (page_inv phase) (page_avail phase) 0x80200000 (example_mips_mem, st)"
    using assms(1) kva by (auto simp: mips_wf_def d split: if_splits)
qed

lemmas example_mips_booting = example_mips_wf [OF example_booting(1), OF ballI, OF example_booting(3)]

theorem mips_map_pages_maps_witness:
  "\<exists>s'. mips_map_pages (pgalloc (by_ref (alloc_pages (kfree (\<lambda>_ _. Hang)))) 0) (\<lambda>_ _. Hang)
      \<lparr>m_pdev = 0, m_ptev = 0, m_pdx = 0, m_ptx = 0\<rparr> 0x80200000 0x400000 0x300000 0x1000 VMA_WRITE (\<lambda>_. 0, example_kmem) = Ret (0, s') \<and>
    mips_lookup 0x80200000 (fst s') 0x400000 = 0x3007C0"
proof -
  have "0 < card (page_avail (Booting 0x80050000) example_kmem)" using example_booting(2) by (metis card_gt_0_iff empty_iff finite)
  then show ?thesis
    using mips_map_pages_maps [OF example_mips_booting(1), of 1 "0x400000" "0x300000" "0x1000" "\<lambda>_ _. Hang" 0 "\<lambda>_ _. Hang"
        "\<lparr>m_pdev = 0, m_ptev = 0, m_pdx = 0, m_ptx = 0\<rparr>" VMA_WRITE]
    by (auto simp: mips_lookup_def aligned_4096 mips_pgtable_perm_def VMA_WRITE_def PTE_VALID_def PTE_GLOBAL_def
        PTE_CACHEABLE_def PTE_DIRTY_def mach_pgtable_perm_def)
qed


lemma flagged_not_address:
  assumes "(e :: u32) AND 0xfff \<noteq> 0"
  shows "(ucast e :: u64) \<noteq> ucast (PTE_PADDR (f :: u32)) + 4096"
proof
  assume eq: "(ucast e :: u64) = ucast (PTE_PADDR f) + 4096"
  have m: "(0xfff :: u32) = mask 12" by (simp add: mask_eq_exp_minus_1)
  have "unat (PTE_PADDR f) = unat f div 4096 * 4096"
    using unat_align_below [of f 12] by (simp add: PTE_PADDR_def PTE_LOWMASK_def ALIGN_BELOW_def ALIGN_MASK_def)
  moreover have "unat (ucast (PTE_PADDR f) + 4096 :: u64) = unat (PTE_PADDR f) + 4096"
    using unat_bound [of "PTE_PADDR f"] by (subst unat_add_no_overflow) (simp_all add: unat_ucast_up)
  ultimately have "unat e = unat f div 4096 * 4096 + 4096"
    using arg_cong [OF eq, of unat] by (simp add: unat_ucast_up)
  then have "unat e mod 4096 = 0" by simp
  then have "unat (e AND mask 12) = 0" unfolding unat_and_mask by simp
  with assms show False unfolding m by (simp add: unat_eq_0)
qed

lemma mips_free_in_use:
  assumes "mips_dir pgindex mem (mips_PDX v) \<noteq> 0" and "mips_PDX w = mips_PDX v" and "mips_lookup pgindex mem w \<noteq> 0"
  shows "mips_free_intermediate gfree pgindex v 4096 (mem, st) = Ret (mem, st)"
proof -
  define t where "t = mips_dir pgindex mem (mips_PDX v)"
  have "unat (mips_PTX w) < 1024" using mips_index_less(2) [of w] by (simp add: word_less_nat_alt)
  moreover have "mem (cell t (of_nat (unat (mips_PTX w)))) \<noteq> 0"
    using assms by (simp add: mips_lookup_def t_def mips_dir_def Let_def)
  ultimately have "\<not> mips_table_empty mem t"
    unfolding mips_table_empty_def list_all_iff NR_PTENTRIES_def set_upt by (meson atLeastLessThan_iff le0)
  then show ?thesis
    using assms(1) by (simp add: mips_free_intermediate_def t_def mips_dir_def)
qed

text \<open>
  Unmapping on MIPS: when the page after \<open>v\<close> is mapped in the same leaf table,
  \<open>unmap_pages\<close> clears the entry of \<open>v\<close>, reports its physical address and returns one page
  size. That is right for a request of one page; but it is also all that happens for a
  larger request, because the next entry, which has flag bits, is compared with the bare
  address expected there: the remaining pages stay mapped.
\<close>

theorem mips_unmap_pages_first:
  assumes wf: "mips_wf (page_inv phase) (page_avail phase) pgindex (mem, st)"
    and dir: "mips_PDX (v + 4096) = mips_PDX v" and e: "mips_lookup pgindex mem (v + 4096) AND 0xfff \<noteq> 0"
    and sz: "v < v + sz" "sz = 4096 \<or> v + 4096 < v + sz"
  shows "\<exists>mem'. mips_unmap_pages (pgalloc (by_ref (alloc_pages (kfree putpages))) junk) gfree pd pgindex v sz (mem, st) =
      Ret (4096, Some (ucast (PTE_PADDR (mips_lookup pgindex mem v))), mem', st) \<and>
    mips_lookup pgindex mem' v = 0 \<and> (\<forall>w. page w \<noteq> page v \<longrightarrow> mips_lookup pgindex mem' w = mips_lookup pgindex mem w)"
proof -
  have ne: "mips_lookup pgindex mem (v + 4096) \<noteq> 0" using e by auto
  then have t: "mips_dir pgindex mem (mips_PDX v) \<noteq> 0"
    using dir by (auto simp: mips_lookup_def mips_dir_def Let_def split: if_splits)
  obtain a b where a: "mips_slot pgindex mem v = Some a" and b: "mips_slot pgindex mem (v + 4096) = Some b"
    using t dir by (simp add: mips_slot_def)
  have ma: "mips_lookup pgindex mem v = mem a" and mb: "mips_lookup pgindex mem (v + 4096) = mem b"
    using a b by (simp_all add: mips_lookup_slot)
  have pg: "page (v + 4096) \<noteq> page v" by (rule next_page_neq) simp
  let ?m = "mem(a := 0)"
  have "unmap_loop (mips_getpagedesc (pgalloc (by_ref (alloc_pages (kfree putpages))) junk) pgindex) mips_entry
      (Suc (Suc (unat sz div 4096))) v (v + sz) 0 0 pd None (mem, st) =
    Ret (4096, Some (ucast (PTE_PADDR (mem a))), ?m, st)"
    by (rule mips.unmap_loop_first [OF wf _ a, where b = b]) (use sz b pg flagged_not_address [OF e] mb in auto)
  moreover have same: "mips_lookup pgindex ?m w = (if page w = page v then 0 else mips_lookup pgindex mem w)" for w
    using mips.entry_at_store [OF wf _ a, where w = w and x = 0] by (auto simp: mips_entry_at)
  moreover have "mips_dir pgindex ?m (mips_PDX v) \<noteq> 0" "mips_lookup pgindex ?m (v + 4096) \<noteq> 0"
    using mips_dir_store [OF wf a mips_index_less(1)] t same pg ne by simp_all
  then have "mips_free_intermediate gfree pgindex v 4096 (?m, st) = Ret (?m, st)"
    using mips_free_in_use [OF _ dir] by blast
  ultimately show ?thesis
    by (simp add: mips_unmap_pages_def unmap_range_def ma)
qed

theorem mips_unmap_pages_first_witness:
  "\<exists>mem'. mips_unmap_pages (pgalloc (by_ref (alloc_pages (kfree (\<lambda>_ _. Hang)))) 0) (\<lambda>_ _. Hang)
      \<lparr>m_pdev = 0, m_ptev = 0, m_pdx = 0, m_ptx = 0\<rparr> 0x80200000 0x400000 0x2000 (example_mips_mem, example_kmem) =
      Ret (4096, Some 0x300000, mem', example_kmem) \<and>
    mips_lookup 0x80200000 mem' 0x400000 = 0 \<and> mips_lookup 0x80200000 mem' 0x401000 = 0x3016C0"
proof -
  have l: "mips_lookup 0x80200000 example_mips_mem 0x400000 = 0x3006C0"
    "mips_lookup 0x80200000 example_mips_mem 0x401000 = 0x3016C0"
    by (simp_all add: mips_lookup_def mips_PDX_def mips_PTX_def cell_def example_mips_mem_def drop_bit_eq_div)
  have p: "mips_PDX 0x401000 = mips_PDX 0x400000" "page (0x401000 :: u32) \<noteq> page 0x400000"
    "PTE_PADDR (0x3006C0 :: u32) = 0x300000"
    by (simp_all add: mips_PDX_def page_def PTE_PADDR_def PTE_LOWMASK_def drop_bit_eq_div)
  show ?thesis
    using mips_unmap_pages_first [OF example_mips_booting(2), of "0x400000" "0x2000" "\<lambda>_ _. Hang" 0 "\<lambda>_ _. Hang"
        "\<lparr>m_pdev = 0, m_ptev = 0, m_pdx = 0, m_ptx = 0\<rparr>"] l p
    by auto
qed

end
