(* ===== verification/Uvm.thy ===== *)
theory Uvm
  imports MipsPg I386Pg
begin

text \<open>
  User memory maps, \<open>kern/mm/uvm.c\<close>: a sorted list of one-page virtual memory areas, each
  with its \<open>struct pages\<close>, over the page tables of the architecture and the allocators, which
  are the fields of a table of operations. \<open>__find_vma_before\<close> treats the list head as an
  area and reads its start and size, which is memory in front of the \<open>struct mm\<close>; what is
  found there is an argument.
\<close>

section \<open>Data\<close>

record upages =
  up_addr :: u32
  up_paddr :: addr_t
  up_size :: addr_t
  up_flags :: u32
  up_refs :: u32

record vma =
  v_addr :: u32
  v_start :: u32
  v_size :: u32
  v_flags :: u32
  v_pages :: upages

text \<open>\<open>ref_count\<close> of \<open>struct mm\<close> is neither set nor read; it counts for the size only.\<close>

record mm =
  mm_addr :: u32
  vma_head :: "vma list"
  vma_count :: u32
  mm_pgindex :: u32

record uvm_ops =
  u_k :: kops
  u_init :: "32 ptstate \<Rightarrow> (u32 \<times> 32 ptstate) outcome"
  u_destroy :: "u32 \<Rightarrow> 32 ptstate \<Rightarrow> 32 ptstate outcome"
  u_map :: "u32 \<Rightarrow> u32 \<Rightarrow> addr_t \<Rightarrow> u32 \<Rightarrow> u32 \<Rightarrow> 32 ptstate \<Rightarrow> (int \<times> 32 ptstate) outcome"
  u_unmap :: "u32 \<Rightarrow> u32 \<Rightarrow> u32 \<Rightarrow> 32 ptstate \<Rightarrow> (int \<times> addr_t option \<times> 32 ptstate) outcome"

definition sizeof_mm :: u32 where "sizeof_mm = 20"
definition sizeof_vma :: u32 where "sizeof_vma = 24"
definition sizeof_pages :: u32 where "sizeof_pages = 24"

text \<open>The allocators work on the second component of the state.\<close>

definition kmalloc_s :: "uvm_ops \<Rightarrow> u32 \<Rightarrow> 32 ptstate \<Rightarrow> (u32 \<times> 32 ptstate) outcome" where
  "kmalloc_s u sz s = obind (k_malloc (u_k u) sz 0 (snd s)) (\<lambda>(p, st). Ret (p, fst s, st))"

definition kfree_s :: "uvm_ops \<Rightarrow> u32 \<Rightarrow> 32 ptstate \<Rightarrow> 32 ptstate outcome" where
  "kfree_s u p s = obind (k_free (u_k u) p (snd s)) (\<lambda>st. Ret (fst s, st))"

definition alloc_pages_s :: "uvm_ops \<Rightarrow> upages \<Rightarrow> 32 ptstate \<Rightarrow> (int \<times> upages \<times> 32 ptstate) outcome" where
  "alloc_pages_s u p s =
     obind (p_alloc (u_k u) \<lparr>paddr = up_paddr p, psize = up_size p, pflags = up_flags p\<rparr> (snd s))
       (\<lambda>(r, q, st). Ret (r, p\<lparr>up_paddr := paddr q, up_size := psize q, up_flags := pflags q\<rparr>, fst s, st))"

definition free_pages_s :: "uvm_ops \<Rightarrow> upages \<Rightarrow> 32 ptstate \<Rightarrow> 32 ptstate outcome" where
  "free_pages_s u p s =
     obind (p_free (u_k u) \<lparr>paddr = up_paddr p, psize = up_size p, pflags = up_flags p\<rparr> (snd s)) (\<lambda>st. Ret (fst s, st))"

section \<open>Operations\<close>

text \<open>\<open>mm_new\<close> returns NULL, here \<open>None\<close>, when memory is short.\<close>

definition mm_new :: "uvm_ops \<Rightarrow> 32 ptstate \<Rightarrow> (mm option \<times> 32 ptstate) outcome" where
  "mm_new u s =
     obind (kmalloc_s u sizeof_mm s) (\<lambda>(p, s).
       if p = 0 then Ret (None, s)
       else obind (u_init u s) (\<lambda>(pgindex, s).
         if pgindex = 0 then obind (kfree_s u p s) (\<lambda>s. Ret (None, s))
         else Ret (Some \<lparr>mm_addr = p, vma_head = [], vma_count = 0, mm_pgindex = pgindex\<rparr>, s)))"

text \<open>\<open>pa\<close> on the stack of \<open>__clean_vma\<close> is \<open>junk\<close> unless \<open>unmap_pages\<close> writes it.\<close>

definition clean_vma :: "uvm_ops \<Rightarrow> addr_t \<Rightarrow> mm \<Rightarrow> vma \<Rightarrow> 32 ptstate \<Rightarrow> 32 ptstate outcome" where
  "clean_vma u junk mm vma s =
     kassert (ucast (v_size vma) = up_size (v_pages vma))
       (obind (u_unmap u (mm_pgindex mm) (v_start vma) (v_size vma) s) (\<lambda>(unmapped, out, s).
          kassert ((case out of None \<Rightarrow> junk | Some pa \<Rightarrow> pa) = up_paddr (v_pages vma))
            (kassert (of_int unmapped = v_size vma) (Ret s))))"

definition ref_pages :: "upages \<Rightarrow> upages" where
  "ref_pages p = p\<lparr>up_refs := up_refs p + 1\<rparr>"

definition unref_and_free_pages :: "uvm_ops \<Rightarrow> upages \<Rightarrow> 32 ptstate \<Rightarrow> (int \<times> upages \<times> 32 ptstate) outcome" where
  "unref_and_free_pages u p s =
     (let p = p\<lparr>up_refs := up_refs p - 1\<rparr>
      in if up_refs p = 0 then obind (free_pages_s u p s) (\<lambda>s. Ret (1, p, s)) else Ret (0, p, s))"

text \<open>Dropping the reference of an area and freeing the area, the common tail of two loops.\<close>

definition drop_vma :: "uvm_ops \<Rightarrow> vma \<Rightarrow> 32 ptstate \<Rightarrow> 32 ptstate outcome" where
  "drop_vma u vma s =
     obind (unref_and_free_pages u (v_pages vma) s) (\<lambda>(r, p, s).
       obind (if r = 1 then kfree_s u (up_addr p) s else Ret s) (kfree_s u (v_addr vma)))"

primrec destroy_vmas :: "uvm_ops \<Rightarrow> addr_t \<Rightarrow> mm \<Rightarrow> vma list \<Rightarrow> 32 ptstate \<Rightarrow> 32 ptstate outcome" where
  "destroy_vmas u junk mm [] s = Ret s"
| "destroy_vmas u junk mm (vma # rest) s =
     obind (clean_vma u junk mm vma s) (\<lambda>s. obind (drop_vma u vma s) (destroy_vmas u junk mm rest))"

definition mm_destroy :: "uvm_ops \<Rightarrow> addr_t \<Rightarrow> mm option \<Rightarrow> 32 ptstate \<Rightarrow> 32 ptstate outcome" where
  "mm_destroy u junk m s =
     (case m of
        None \<Rightarrow> Ret s
      | Some mm \<Rightarrow> obind (destroy_vmas u junk mm (vma_head mm) s) (\<lambda>s.
          obind (u_destroy u (mm_pgindex mm) s) (kfree_s u (mm_addr mm))))"

text \<open>A pointer to an area or to the list head taken for an area.\<close>

datatype vma_ptr = Sentry | At nat

text \<open>
  \<open>__find_vma_before\<close>: the loop stops at the first area that starts at or after the end of
  the range, or at the head; its predecessor is returned unless the test finds an overlap.
  \<open>sent\<close> is the start and size that are read from the head. \<open>None\<close> is NULL.
\<close>

definition find_vma_before :: "u32 \<times> u32 \<Rightarrow> vma list \<Rightarrow> u32 \<Rightarrow> u32 \<Rightarrow> vma_ptr option" where
  "find_vma_before sent vmas addr sz =
     (if vmas = [] then Some Sentry
      else
        let i = length (takeWhile (\<lambda>v. \<not> v_start v \<ge> addr + sz) vmas);
            vsize = (if i < length vmas then v_size (vmas ! i) else snd sent);
            prev = (if i = 0 then Sentry else At (i - 1));
            pstart = (if i = 0 then fst sent else v_start (vmas ! (i - 1)))
        in if addr < pstart + vsize then None else Some prev)"

text \<open>
  \<open>__unmap_and_free_vma\<close> from an area on; \<open>rest\<close> is the list from that area to the end.
  Running onto the list head unlinks it and takes it for an area: a fault.
\<close>

fun unmap_and_free :: "uvm_ops \<Rightarrow> u32 \<Rightarrow> nat \<Rightarrow> vma list \<Rightarrow> 32 ptstate \<Rightarrow> (vma list \<times> 32 ptstate) outcome" where
  "unmap_and_free u pgindex 0 rest s = Ret (rest, s)"
| "unmap_and_free u pgindex (Suc n) [] s = Fault"
| "unmap_and_free u pgindex (Suc n) (vma # rest) s =
     obind (u_unmap u pgindex (v_start vma) (v_size vma) s) (\<lambda>(r, _, s).
       kassert (r = 4096) (obind (drop_vma u vma s) (unmap_and_free u pgindex n rest)))"

text \<open>The size is a multiple of the page size; the number of rounds is its quotient.\<close>

definition unmap_and_free_vma :: "uvm_ops \<Rightarrow> mm \<Rightarrow> vma_ptr \<Rightarrow> u32 \<Rightarrow> 32 ptstate \<Rightarrow> (mm \<times> 32 ptstate) outcome" where
  "unmap_and_free_vma u mm vma_start sz s =
     (let n = unat sz div 4096
      in case vma_start of
           Sentry \<Rightarrow> if n = 0 then Ret (mm, s) else Fault
         | At i \<Rightarrow> obind (unmap_and_free u (mm_pgindex mm) n (drop i (vma_head mm)) s)
             (\<lambda>(rest, s). Ret (mm\<lparr>vma_head := take i (vma_head mm) @ rest\<rparr>, s)))"

definition insert_after :: "vma_ptr \<Rightarrow> vma \<Rightarrow> vma list \<Rightarrow> vma list" where
  "insert_after p v vmas = (case p of Sentry \<Rightarrow> v # vmas | At i \<Rightarrow> take (Suc i) vmas @ v # drop (Suc i) vmas)"

definition next_ptr :: "vma_ptr \<Rightarrow> vma_ptr" where
  "next_ptr p = (case p of Sentry \<Rightarrow> At 0 | At i \<Rightarrow> At (Suc i))"

text \<open>
  One round of the loop of \<open>create_uvm\<close>: the new area, or the error code after the local
  rollback.
\<close>

definition create_page :: "uvm_ops \<Rightarrow> mm \<Rightarrow> u32 \<Rightarrow> u32 \<Rightarrow> 32 ptstate \<Rightarrow> ((int + vma) \<times> 32 ptstate) outcome" where
  "create_page u mm vcur flags s =
     obind (kmalloc_s u sizeof_vma s) (\<lambda>(va, s).
       if va = 0 then Ret (Inl (- ENOMEM), s)
       else obind (kmalloc_s u sizeof_pages s) (\<lambda>(pp, s).
         if pp = 0 then obind (kfree_s u va s) (\<lambda>s. Ret (Inl (- ENOMEM), s))
         else obind (alloc_pages_s u \<lparr>up_addr = pp, up_paddr = 0, up_size = PAGE_SIZE, up_flags = 0, up_refs = 0\<rparr> s) (\<lambda>(r, p, s).
           if r < 0 then obind (kfree_s u pp s) (\<lambda>s. obind (kfree_s u va s) (\<lambda>s. Ret (Inl (- ENOMEM), s)))
           else obind (u_map u (mm_pgindex mm) vcur (up_paddr p) PAGE_SIZE flags s) (\<lambda>(ret, s).
             if ret < 0 then
               obind (free_pages_s u p s) (\<lambda>s. obind (kfree_s u pp s) (\<lambda>s. obind (kfree_s u va s) (\<lambda>s. Ret (Inl ret, s))))
             else Ret (Inr \<lparr>v_addr = va, v_start = vcur, v_size = PAGE_SIZE, v_flags = flags, v_pages = ref_pages p\<rparr>, s)))))"

fun create_loop :: "uvm_ops \<Rightarrow> nat \<Rightarrow> mm \<Rightarrow> vma_ptr \<Rightarrow> vma_ptr \<Rightarrow> u32 \<Rightarrow> u32 \<Rightarrow> u32 \<Rightarrow> 32 ptstate \<Rightarrow> (int \<times> mm \<times> 32 ptstate) outcome" where
  "create_loop u 0 mm vma_start vma_cur vcur mapped flags s = Ret (0, mm, s)"
| "create_loop u (Suc n) mm vma_start vma_cur vcur mapped flags s =
     obind (create_page u mm vcur flags s) (\<lambda>(r, s).
       case r of
         Inl retcode \<Rightarrow> obind (unmap_and_free_vma u mm vma_start mapped s) (\<lambda>(mm, s). Ret (retcode, mm, s))
       | Inr vma \<Rightarrow> create_loop u n (mm\<lparr>vma_head := insert_after vma_cur vma (vma_head mm)\<rparr>) vma_start (next_ptr vma_cur)
           (vcur + PAGE_SIZE) (mapped + PAGE_SIZE) flags s)"

definition create_uvm :: "uvm_ops \<Rightarrow> u32 \<times> u32 \<Rightarrow> mm option \<Rightarrow> u32 \<Rightarrow> u32 \<Rightarrow> u32 \<Rightarrow> 32 ptstate \<Rightarrow> (int \<times> mm option \<times> 32 ptstate) outcome" where
  "create_uvm u sent m addr len flags s =
     (case m of
        None \<Rightarrow> Ret (- EINVAL, None, s)
      | Some mm \<Rightarrow>
          if \<not> IS_ALIGNED len PAGE_SIZE \<or> \<not> IS_ALIGNED addr PAGE_SIZE then Ret (- EINVAL, m, s)
          else case find_vma_before sent (vma_head mm) addr len of
            None \<Rightarrow> Ret (- EFAULT, m, s)
          | Some vma_start \<Rightarrow>
              obind (create_loop u (unat len div 4096) mm vma_start vma_start addr 0 flags s)
                (\<lambda>(r, mm, s). Ret (r, Some mm, s)))"

text \<open>
  \<open>destroy_uvm\<close>: the area at \<open>addr\<close> is looked up, the following ones must be adjacent. The
  walk goes round the circular list; the start read from the list head is \<open>sent\<close>.
\<close>

fun contiguous :: "u32 \<Rightarrow> vma list \<Rightarrow> nat \<Rightarrow> u32 \<Rightarrow> vma list \<Rightarrow> bool" where
  "contiguous sent vmas 0 a vs = True"
| "contiguous sent vmas (Suc n) a [] = (sent = a \<and> contiguous sent vmas n (a + PAGE_SIZE) vmas)"
| "contiguous sent vmas (Suc n) a (v # vs) = (v_start v = a \<and> contiguous sent vmas n (a + PAGE_SIZE) vs)"

definition destroy_uvm :: "uvm_ops \<Rightarrow> u32 \<times> u32 \<Rightarrow> mm option \<Rightarrow> u32 \<Rightarrow> u32 \<Rightarrow> 32 ptstate \<Rightarrow> (int \<times> mm option \<times> 32 ptstate) outcome" where
  "destroy_uvm u sent m addr len s =
     (case m of
        None \<Rightarrow> Ret (- EINVAL, None, s)
      | Some mm \<Rightarrow>
          if \<not> IS_ALIGNED len PAGE_SIZE \<or> \<not> IS_ALIGNED addr PAGE_SIZE then Ret (- EINVAL, m, s)
          else
            let i = length (takeWhile (\<lambda>v. v_start v \<noteq> addr) (vma_head mm))
            in if i = length (vma_head mm) then Ret (- EFAULT, m, s)
               else if \<not> contiguous (fst sent) (vma_head mm) (unat len div 4096 - 1) (addr + PAGE_SIZE) (drop (Suc i) (vma_head mm))
               then Ret (- EFAULT, m, s)
               else obind (unmap_and_free_vma u mm (At i) len s) (\<lambda>(mm, s). Ret (0, Some mm, s)))"


section \<open>The list of areas\<close>

text \<open>What \<open>include/mm.h\<close> asks of the list: ascending and without overlap, one page per area.\<close>

definition vma_ok :: "vma \<Rightarrow> bool" where
  "vma_ok v \<longleftrightarrow> v_size v = 4096 \<and> unat (v_start v) + 4096 \<le> 2 ^ 32"

definition vmas_ok :: "vma list \<Rightarrow> bool" where
  "vmas_ok vs \<longleftrightarrow> (\<forall>v \<in> set vs. vma_ok v) \<and> sorted_wrt (\<lambda>v w. unat (v_start v) + 4096 \<le> unat (v_start w)) vs"

definition pos_of :: "vma_ptr \<Rightarrow> nat" where
  "pos_of p = (case p of Sentry \<Rightarrow> 0 | At i \<Rightarrow> Suc i)"

lemma insert_after_pos: "insert_after p v vs = take (pos_of p) vs @ v # drop (pos_of p) vs"
  by (cases p) (simp_all add: insert_after_def pos_of_def)

lemma pos_of_next [simp]: "pos_of (next_ptr p) = Suc (pos_of p)"
  by (cases p) (simp_all add: next_ptr_def pos_of_def)

lemma create_page_vma:
  assumes "create_page u mm vcur flags s = Ret (Inr v, s')"
  shows "v_start v = vcur \<and> v_size v = 4096 \<and> v_flags v = flags"
  using assms by (auto simp: create_page_def obind_Ret_conv split: if_splits prod.splits)

lemma unmap_and_free_list:
  "unmap_and_free u pgindex n rest s = Ret (rest', s') \<Longrightarrow> rest' = drop n rest \<and> n \<le> length rest"
  by (induction u pgindex n rest s rule: unmap_and_free.induct) (auto simp: obind_Ret_conv split: prod.splits)

lemma create_page_error: "create_page u mm vcur flags s = Ret (Inl e, s') \<Longrightarrow> e < 0"
  by (auto simp: create_page_def obind_Ret_conv ENOMEM_def split: if_splits prod.splits)

lemma nth_page_upt: "map (nth_page vcur) [0..<Suc k] = vcur # map (nth_page (vcur + 4096)) [0..<k]"
  by (simp add: upt_conv_Cons map_Suc_upt [symmetric] nth_page_Suc comp_def del: upt_Suc)

text \<open>A run of the loop of \<open>create_uvm\<close>: \<open>k\<close> rounds succeed, and if that is not all of them the next fails.\<close>

lemma create_loop_run:
  assumes "create_loop u n mm start cur vcur mapped flags s = Ret (e, mm', s')" and "pos_of cur \<le> length (vma_head mm)"
  shows "\<exists>k new mm1 s1. k \<le> n \<and>
    vma_head mm1 = take (pos_of cur) (vma_head mm) @ new @ drop (pos_of cur) (vma_head mm) \<and>
    map v_start new = map (nth_page vcur) [0..<k] \<and> (\<forall>v \<in> set new. v_size v = 4096 \<and> v_flags v = flags) \<and>
    (e = 0 \<and> k = n \<and> mm' = mm1 \<or>
     e < 0 \<and> k < n \<and> unmap_and_free_vma u mm1 start (mapped + of_nat k * 4096) s1 = Ret (mm', s'))"
  using assms
proof (induction n arbitrary: mm cur vcur mapped s)
  case 0
  then show ?case by (intro exI [of _ 0] exI [of _ "[]"] exI [of _ mm]) simp
next
  case (Suc n)
  obtain r s1 where r: "create_page u mm vcur flags s = Ret (r, s1)"
    using Suc.prems(1) by (auto simp: obind_Ret_conv split: prod.splits)
  show ?case
  proof (cases r)
    case (Inl e')
    then have "unmap_and_free_vma u mm start mapped s1 = Ret (mm', s')" "e = e'" "e' < 0"
      using Suc.prems(1) r create_page_error by (auto simp: obind_Ret_conv split: prod.splits)
    then show ?thesis by (intro exI [of _ 0] exI [of _ "[]"] exI [of _ mm] exI [of _ s1]) simp
  next
    case (Inr v)
    let ?mm = "mm\<lparr>vma_head := insert_after cur v (vma_head mm)\<rparr>"
    have a: "create_loop u n ?mm start (next_ptr cur) (vcur + 4096) (mapped + 4096) flags s1 = Ret (e, mm', s')"
      using Suc.prems(1) r Inr by simp
    have b: "pos_of (next_ptr cur) \<le> length (vma_head ?mm)"
      using Suc.prems(2) by (simp add: insert_after_pos)
    obtain k new mm1 s2 where n: "k \<le> n"
      "vma_head mm1 = take (Suc (pos_of cur)) (vma_head ?mm) @ new @ drop (Suc (pos_of cur)) (vma_head ?mm)"
      "map v_start new = map (nth_page (vcur + 4096)) [0..<k]" "\<forall>v \<in> set new. v_size v = 4096 \<and> v_flags v = flags"
      "e = 0 \<and> k = n \<and> mm' = mm1 \<or>
       e < 0 \<and> k < n \<and> unmap_and_free_vma u mm1 start (mapped + 4096 + of_nat k * 4096) s2 = Ret (mm', s')"
      using Suc.IH [OF a b] unfolding pos_of_next by blast
    have t: "take (Suc (pos_of cur)) (vma_head ?mm) = take (pos_of cur) (vma_head mm) @ [v]"
      "drop (Suc (pos_of cur)) (vma_head ?mm) = drop (pos_of cur) (vma_head mm)"
      using Suc.prems(2) by (simp_all add: insert_after_pos)
    have m: "mapped + 4096 + of_nat k * 4096 = mapped + of_nat (Suc k) * 4096" by (simp add: algebra_simps)
    have "Suc k \<le> Suc n" using n(1) by simp
    moreover have "vma_head mm1 = take (pos_of cur) (vma_head mm) @ (v # new) @ drop (pos_of cur) (vma_head mm)"
      using n(2) unfolding t by simp
    moreover have "map v_start (v # new) = map (nth_page vcur) [0..<Suc k]"
      unfolding nth_page_upt using n(3) create_page_vma [of u mm vcur flags s v s1] r Inr by simp
    moreover have "\<forall>w \<in> set (v # new). v_size w = 4096 \<and> v_flags w = flags"
      using n(4) create_page_vma [of u mm vcur flags s v s1] r Inr by simp
    moreover have "e = 0 \<and> Suc k = Suc n \<and> mm' = mm1 \<or>
       e < 0 \<and> Suc k < Suc n \<and> unmap_and_free_vma u mm1 start (mapped + of_nat (Suc k) * 4096) s2 = Ret (mm', s')"
      using n(5) unfolding m by simp
    ultimately show ?thesis by blast
  qed
qed

lemma vmas_okD:
  assumes "vmas_ok vs" "i < j" "j < length vs"
  shows "unat (v_start (vs ! i)) + 4096 \<le> unat (v_start (vs ! j))"
  using assms by (simp add: vmas_ok_def sorted_wrt_iff_nth_less)

lemma vmas_ok_nth:
  assumes "vmas_ok vs" "i < length vs"
  shows "v_size (vs ! i) = 4096" "unat (v_start (vs ! i)) + 4096 \<le> 2 ^ 32"
  using assms by (simp_all add: vmas_ok_def vma_ok_def)

text \<open>The position that \<open>__find_vma_before\<close> finds lies between the areas before and behind the range.\<close>

text \<open>
  When the test of \<open>__find_vma_before\<close> sees an overlap: with an area behind the range always, else
  only if the word read as the size of the list head is at least a page and does not overflow.
\<close>

definition head_harmless :: "u32 \<times> u32 \<Rightarrow> vma list \<Rightarrow> u32 \<Rightarrow> u32 \<Rightarrow> bool" where
  "head_harmless sent vs addr len \<longleftrightarrow> vs = [] \<or> (\<exists>v \<in> set vs. unat addr + unat len \<le> unat (v_start v)) \<or>
     4096 \<le> unat (snd sent) \<and> unat (v_start (last vs)) + unat (snd sent) < 2 ^ 32"

lemma find_vma_before_Some:
  assumes f: "find_vma_before sent vs addr len = Some p" and ok: "vmas_ok vs"
    and head: "head_harmless sent vs addr len"
    and range: "unat addr + unat len < 2 ^ 32"
  shows "pos_of p \<le> length vs" "\<forall>v \<in> set (take (pos_of p) vs). unat (v_start v) + 4096 \<le> unat addr"
    "\<forall>v \<in> set (drop (pos_of p) vs). unat addr + unat len \<le> unat (v_start v)"
proof -
  let ?P = "\<lambda>v. \<not> v_start v \<ge> addr + len"
  define i where "i = length (takeWhile ?P vs)"
  have ile: "i \<le> length vs" by (simp add: i_def length_takeWhile_le)
  have sum: "unat (addr + len) = unat addr + unat len" using range by (intro unat_add_no_overflow) simp
  have p: "pos_of p = i"
    using f by (cases vs) (auto simp: find_vma_before_def i_def Let_def pos_of_def split: if_splits)
  have before: "unat (v_start (vs ! (i - 1))) + 4096 \<le> unat addr" if i: "0 < i"
  proof -
    have ne: "vs \<noteq> []" using i ile by auto
    define z where "z = (if i < length vs then v_size (vs ! i) else snd sent)"
    have "v_start (vs ! (i - 1)) + z \<le> addr"
      using f ne i by (simp add: find_vma_before_def i_def [symmetric] Let_def z_def split: if_splits)
    moreover have "4096 \<le> unat z \<and> unat (v_start (vs ! (i - 1))) + unat z < 2 ^ 32"
    proof (cases "i < length vs")
      case True
      then show ?thesis
        using vmas_okD [OF ok, of "i - 1" i] vmas_ok_nth [OF ok True] i by (simp add: z_def)
    next
      case False
      then have l: "last vs = vs ! (i - 1)" using ile ne by (simp add: last_conv_nth)
      have "takeWhile ?P vs = vs" using False ile unfolding i_def by (metis le_neq_implies_less takeWhile_eq_all_conv takeWhile_eq_take take_all_iff)
      then have "\<forall>v \<in> set vs. unat (v_start v) < unat addr + unat len"
        using sum unfolding takeWhile_eq_all_conv by (simp add: word_le_nat_alt not_le)
      then show ?thesis using head ne l False by (auto simp: head_harmless_def z_def)
    qed
    ultimately show ?thesis by (simp add: word_le_nat_alt unat_add_no_overflow)
  qed
  show "pos_of p \<le> length vs" using p ile by simp
  show "\<forall>v \<in> set (take (pos_of p) vs). unat (v_start v) + 4096 \<le> unat addr"
  proof
    fix v assume "v \<in> set (take (pos_of p) vs)"
    then obtain j where j: "j < i" "v = vs ! j" using p ile by (auto simp: in_set_conv_nth)
    show "unat (v_start v) + 4096 \<le> unat addr"
    proof (cases "j = i - 1")
      case True
      then show ?thesis using before j by simp
    next
      case False
      then have "unat (v_start v) + 4096 \<le> unat (v_start (vs ! (i - 1)))"
        using vmas_okD [OF ok, of j "i - 1"] j ile by simp
      then show ?thesis using before j by simp
    qed
  qed
  show "\<forall>v \<in> set (drop (pos_of p) vs). unat addr + unat len \<le> unat (v_start v)"
  proof
    fix v assume "v \<in> set (drop (pos_of p) vs)"
    then obtain j where j: "i \<le> j" "j < length vs" "v = vs ! j"
      using p by (auto simp: in_set_conv_nth) (metis add.commute le_add1 less_diff_conv)
    have "\<not> ?P (vs ! i)" using j nth_length_takeWhile [of ?P vs] by (simp add: i_def)
    then have "unat addr + unat len \<le> unat (v_start (vs ! i))" using sum by (simp add: word_le_nat_alt)
    then show "unat addr + unat len \<le> unat (v_start v)"
      using vmas_okD [OF ok, of i j] j by (cases "i = j") simp_all
  qed
qed

lemma find_vma_before_end:
  assumes "find_vma_before sent vs addr len = Some p" and "\<forall>v \<in> set vs. unat (v_start v) < unat addr + unat len"
    and "unat addr + unat len < 2 ^ 32"
  shows "pos_of p = length vs"
proof -
  have "unat (addr + len) = unat addr + unat len" using assms(3) by (intro unat_add_no_overflow) simp
  then have "takeWhile (\<lambda>v. \<not> v_start v \<ge> addr + len) vs = vs"
    using assms(2) by (simp add: takeWhile_eq_all_conv word_le_nat_alt not_le)
  then show ?thesis using assms(1) by (cases vs) (auto simp: find_vma_before_def Let_def pos_of_def split: if_splits)
qed

lemma vmas_ok_insert:
  assumes ok: "vmas_ok (pre @ post)" and new: "map v_start new = map (nth_page addr) [0..<n]" "\<forall>v \<in> set new. v_size v = 4096"
    and range: "unat addr + n * 4096 < 2 ^ 32" and pre: "\<forall>v \<in> set pre. unat (v_start v) + 4096 \<le> unat addr"
    and post: "\<forall>v \<in> set post. unat addr + n * 4096 \<le> unat (v_start v)"
  shows "vmas_ok (pre @ new @ post)"
proof -
  have l: "length new = n" using arg_cong [OF new(1), of length] by simp
  have at: "unat (v_start (new ! j)) = unat addr + j * 4096" if "j < n" for j
  proof -
    have "v_start (new ! j) = map v_start new ! j" using that l by simp
    then show ?thesis using new(1) that range unat_nth_page [of addr n j] by simp
  qed
  have b: "unat addr \<le> unat (v_start v) \<and> unat (v_start v) + 4096 \<le> unat addr + n * 4096" if v: "v \<in> set new" for v
  proof -
    obtain j where j: "j < n" "v = new ! j" using v l by (auto simp: in_set_conv_nth)
    have "Suc j * 4096 \<le> n * 4096" using j(1) by (intro mult_le_mono1) simp
    then show ?thesis using at j by simp
  qed
  have "sorted_wrt (\<lambda>v w. unat (v_start v) + 4096 \<le> unat (v_start w)) new"
    unfolding sorted_wrt_iff_nth_less using at l by simp
  moreover have "\<forall>v \<in> set new. vma_ok v" using b new(2) range by (force simp: vma_ok_def)
  ultimately show ?thesis
    using ok b pre post unfolding vmas_ok_def sorted_wrt_append by (force simp: ball_Un)
qed

lemma contiguous_starts:
  "contiguous sent vmas n a vs \<Longrightarrow> n \<le> length vs \<Longrightarrow> map v_start (take n vs) = map (nth_page a) [0..<n]"
proof (induction n arbitrary: a vs)
  case (Suc n)
  then obtain v ws where vs: "vs = v # ws" by (cases vs) auto
  show ?case unfolding nth_page_upt using Suc by (simp add: vs del: upt_Suc)
qed simp

lemma aligned_pages:
  assumes "IS_ALIGNED (len :: u32) PAGE_SIZE"
  shows "unat len div 4096 * 4096 = unat len"
  using assms by (simp add: aligned_4096)

lemma find_vma_before_pos: "find_vma_before sent vs addr len = Some p \<Longrightarrow> pos_of p \<le> length vs"
  using length_takeWhile_le [of "\<lambda>v. \<not> v_start v \<ge> addr + len" vs]
  by (auto simp: find_vma_before_def Let_def pos_of_def split: if_splits)

lemma unmap_and_free_vma_list:
  assumes "unmap_and_free_vma u mm p sz s = Ret (mm', s')" and "unat sz div 4096 = n"
  shows "mm' = mm \<and> n = 0 \<or> (\<exists>i. p = At i \<and> mm' = mm\<lparr>vma_head := take i (vma_head mm) @ drop (i + n) (vma_head mm)\<rparr> \<and>
    (i + n \<le> length (vma_head mm) \<or> n = 0))"
proof (cases p)
  case Sentry
  then show ?thesis using assms by (auto simp: unmap_and_free_vma_def Let_def split: if_splits)
next
  case (At i)
  then obtain rest where "unmap_and_free u (mm_pgindex mm) n (drop i (vma_head mm)) s = Ret (rest, s')"
    "mm' = mm\<lparr>vma_head := take i (vma_head mm) @ rest\<rparr>"
    using assms by (auto simp: unmap_and_free_vma_def Let_def obind_Ret_conv split: prod.splits)
  then show ?thesis using unmap_and_free_list [of u "mm_pgindex mm" n "drop i (vma_head mm)" s rest s'] At
    by (auto simp: add.commute)
qed

lemma shifted_removal:
  assumes "i < length vs" "new \<noteq> []"
  shows "take i (take (Suc i) vs @ new @ ws) @ drop (i + length new) (take (Suc i) vs @ new @ ws) = take i vs @ last new # ws"
proof -
  have t: "take (Suc i) vs = take i vs @ [vs ! i]" using assms(1) by (rule take_Suc_conv_app_nth)
  obtain ns v where n: "new = ns @ [v]" using assms(2) by (cases new rule: rev_cases) simp_all
  show ?thesis using assms(1) unfolding t n by simp
qed

section \<open>Properties\<close>

text \<open>Operations whose allocators succeed and whose \<open>map_pages\<close> refuses one address.\<close>

definition example_uvm_ops :: uvm_ops where
  "example_uvm_ops =
     \<lparr>u_k = \<lparr>k_malloc = (\<lambda>sz gfp st. Ret (0x80001000, st)), k_free = (\<lambda>p st. Ret st),
       p_alloc = (\<lambda>p st. Ret (0, p\<lparr>paddr := 0x5000\<rparr>, st)), p_free = (\<lambda>p st. Ret st)\<rparr>,
      u_init = (\<lambda>s. Ret (0x80002000, s)), u_destroy = (\<lambda>p s. Ret s),
      u_map = (\<lambda>pg v pa sz fl s. if v = 0x102000 then Ret (- EEXIST, s) else Ret (0, s)),
      u_unmap = (\<lambda>pg v sz s. Ret (4096, Some 0x5000, s))\<rparr>"

definition example_vma :: "u32 \<Rightarrow> vma" where
  "example_vma a = \<lparr>v_addr = 0x80001000, v_start = a, v_size = 4096, v_flags = 6,
     v_pages = \<lparr>up_addr = 0x80001000, up_paddr = 0x5000, up_size = 4096, up_flags = 0, up_refs = 1\<rparr>\<rparr>"

definition example_mm :: "u32 list \<Rightarrow> mm" where
  "example_mm as = \<lparr>mm_addr = 0x80003000, vma_head = map example_vma as, vma_count = 0, mm_pgindex = 0x80002000\<rparr>"

lemmas create_loop_numeral = create_loop.simps(2) [of _ "pred_numeral k" for k, folded numeral_eq_Suc]
lemmas unmap_and_free_numeral = unmap_and_free.simps(3) [of _ _ "pred_numeral k" for k, folded numeral_eq_Suc]

lemmas example_uvm = example_uvm_ops_def example_vma_def example_mm_def create_page_def kmalloc_s_def kfree_s_def
  alloc_pages_s_def free_pages_s_def find_vma_before_def insert_after_def next_ptr_def ref_pages_def unmap_and_free_vma_def
  drop_vma_def unref_and_free_pages_def kassert_def aligned_4096
  create_loop_numeral unmap_and_free_numeral

lemma example_range: "map (nth_page 0x8000) [0..<unat (8192 :: u32) div 4096] = [0x8000, 0x9000]"
proof -
  have two: "unat (8192 :: u32) div 4096 = Suc (Suc 0)" by simp
  show ?thesis unfolding two by (simp add: nth_page_def)
qed

lemma example_create:
  "create_uvm example_uvm_ops (0, 4096) (Some (example_mm [0x1000, 0x200000])) 0x8000 8192 6 s =
     Ret (0, Some (example_mm [0x1000, 0x8000, 0x9000, 0x200000]), s)"
  by (simp add: create_uvm_def example_uvm)

lemma example_create_failure:
  "create_uvm example_uvm_ops (0, 4096) (Some (example_mm [0x1000, 0x200000])) 0x100000 0x3000 6 s =
     Ret (- EEXIST, Some (example_mm [0x101000, 0x200000]), s)"
  by (simp add: create_uvm_def example_uvm EEXIST_def)

lemma example_destroy:
  "destroy_uvm example_uvm_ops (0, 4096) (Some (example_mm [0x1000, 0x8000, 0x9000, 0x200000])) 0x8000 8192 s =
     Ret (0, Some (example_mm [0x1000, 0x200000]), s)"
  by (simp add: destroy_uvm_def example_uvm)

lemma create_uvm_success:
  assumes "create_uvm u sent (Some mm) addr len flags s = Ret (0, Some mm', s')"
  obtains p new where "find_vma_before sent (vma_head mm) addr len = Some p" "IS_ALIGNED len PAGE_SIZE"
    "pos_of p \<le> length (vma_head mm)"
    "vma_head mm' = take (pos_of p) (vma_head mm) @ new @ drop (pos_of p) (vma_head mm)"
    "map v_start new = map (nth_page addr) [0..<unat len div 4096]" "\<forall>v \<in> set new. v_size v = 4096 \<and> v_flags v = flags"
proof -
  obtain p where p: "find_vma_before sent (vma_head mm) addr len = Some p" "IS_ALIGNED len PAGE_SIZE"
    "create_loop u (unat len div 4096) mm p p addr 0 flags s = Ret (0, mm', s')"
    using assms(1) by (auto simp: create_uvm_def obind_Ret_conv EINVAL_def EFAULT_def split: if_splits option.splits prod.splits)
  have pos: "pos_of p \<le> length (vma_head mm)" using find_vma_before_pos [OF p(1)] .
  obtain new where "vma_head mm' = take (pos_of p) (vma_head mm) @ new @ drop (pos_of p) (vma_head mm)"
    "map v_start new = map (nth_page addr) [0..<unat len div 4096]" "\<forall>v \<in> set new. v_size v = 4096 \<and> v_flags v = flags"
    using create_loop_run [OF p(3) pos] by auto
  with p(1,2) pos that show thesis by blast
qed

text \<open>
  C24: When \<open>create_uvm\<close> succeeds, the new areas, one per page of the range and with the flags of
  the request, stand together in the list, which is otherwise as it was. A list that was
  ascending and free of overlap stays so under a condition that the code does not ensure: an area
  lies behind the range, or the list was empty, or the word in front of \<open>struct mm\<close> that is read as the
  size of the list head is at least a page and does not overflow with the start of the last area.
  Where it fails the test for overlap can pass although the range overlaps the last area; unless
  \<open>map_pages\<close> then refuses the page, the call succeeds and leaves a list with an overlap.
\<close>

theorem create_uvm_inserts:
  assumes "create_uvm u sent (Some mm) addr len flags s = Ret (0, Some mm', s')" and "vmas_ok (vma_head mm)"
    and "unat addr + unat len < 2 ^ 32"
  shows "(\<exists>pre new post. vma_head mm = pre @ post \<and> vma_head mm' = pre @ new @ post \<and>
      map v_start new = map (nth_page addr) [0..<unat len div 4096] \<and> (\<forall>v \<in> set new. v_size v = 4096 \<and> v_flags v = flags)) \<and>
    (head_harmless sent (vma_head mm) addr len \<longrightarrow> vmas_ok (vma_head mm')) \<and>
    (vma_head mm \<noteq> [] \<and> 0 < len \<and> (\<forall>v \<in> set (vma_head mm). unat (v_start v) < unat addr + unat len) \<and>
      unat addr < unat (v_start (last (vma_head mm))) + 4096 \<longrightarrow> \<not> vmas_ok (vma_head mm'))"
proof (intro conjI impI)
  from assms(1) obtain p new where p: "find_vma_before sent (vma_head mm) addr len = Some p" "IS_ALIGNED len PAGE_SIZE"
    "pos_of p \<le> length (vma_head mm)"
    and new: "vma_head mm' = take (pos_of p) (vma_head mm) @ new @ drop (pos_of p) (vma_head mm)"
      "map v_start new = map (nth_page addr) [0..<unat len div 4096]" "\<forall>v \<in> set new. v_size v = 4096 \<and> v_flags v = flags"
    by (rule create_uvm_success)
  show "\<exists>pre new post. vma_head mm = pre @ post \<and> vma_head mm' = pre @ new @ post \<and>
      map v_start new = map (nth_page addr) [0..<unat len div 4096] \<and> (\<forall>v \<in> set new. v_size v = 4096 \<and> v_flags v = flags)"
    using new by (metis append_take_drop_id)
  show "vmas_ok (vma_head mm')" if "head_harmless sent (vma_head mm) addr len"
    unfolding new(1) using assms(2,3) new find_vma_before_Some [OF p(1) assms(2) that assms(3)] aligned_pages [OF p(2)]
    by (intro vmas_ok_insert [where n = "unat len div 4096"]) simp_all
  assume a: "vma_head mm \<noteq> [] \<and> 0 < len \<and> (\<forall>v \<in> set (vma_head mm). unat (v_start v) < unat addr + unat len) \<and>
    unat addr < unat (v_start (last (vma_head mm))) + 4096"
  have "pos_of p = length (vma_head mm)" using find_vma_before_end [OF p(1) _ assms(3)] a by blast
  then have mm': "vma_head mm' = vma_head mm @ new" using new(1) by simp
  have "0 < unat len" using a by (simp add: word_less_nat_alt)
  then have "0 < unat len div 4096" using aligned_pages [OF p(2)] by (cases "unat len div 4096") simp_all
  then obtain n ns where n: "new = n # ns" "v_start n = addr"
    using new(2) by (cases new) (auto simp: upt_conv_Cons nth_page_def)
  define k where "k = length (vma_head mm)"
  have k: "k - 1 < k" "k < length (vma_head mm @ new)" using a n(1) by (simp_all add: k_def)
  have at: "(vma_head mm @ new) ! (k - 1) = last (vma_head mm)" "(vma_head mm @ new) ! k = n"
    using a n(1) by (simp_all add: last_conv_nth nth_append k_def)
  show "\<not> vmas_ok (vma_head mm')"
  proof
    assume "vmas_ok (vma_head mm')"
    from vmas_okD [OF this [unfolded mm'] k] have "unat (v_start (last (vma_head mm))) + 4096 \<le> unat addr" unfolding at n(2) by simp
    with a show False by simp
  qed
qed

lemma example_overlap:
  "create_uvm example_uvm_ops (0, 0) (Some (example_mm [0x1000, 0x8000])) 0x8000 0x1000 6 s =
     Ret (0, Some (example_mm [0x1000, 0x8000, 0x8000]), s)"
  by (simp add: create_uvm_def example_uvm)

theorem create_uvm_inserts_witness:
  "(\<exists>pre new post. vma_head (example_mm [0x1000, 0x200000]) = pre @ post \<and>
     vma_head (example_mm [0x1000, 0x8000, 0x9000, 0x200000]) = pre @ new @ post \<and> map v_start new = [0x8000, 0x9000]) \<and>
   vmas_ok (vma_head (example_mm [0x1000, 0x8000, 0x9000, 0x200000])) \<and>
   (\<exists>mm'. create_uvm example_uvm_ops (0, 0) (Some (example_mm [0x1000, 0x8000])) 0x8000 0x1000 6 (\<lambda>_. 0, example_kmem) =
       Ret (0, Some mm', \<lambda>_. 0, example_kmem) \<and> \<not> vmas_ok (vma_head mm'))"
proof (intro conjI)
  have ok: "vmas_ok (vma_head (example_mm [0x1000, 0x200000]))" "vmas_ok (vma_head (example_mm [0x1000, 0x8000]))"
    by (simp_all add: vmas_ok_def vma_ok_def example_mm_def example_vma_def)
  have l: "unat (0x8000 :: u32) + unat (8192 :: u32) < 2 ^ 32" "unat (0x8000 :: u32) + unat (4096 :: u32) < 2 ^ 32" by simp_all
  note c = create_uvm_inserts [OF example_create [of "(\<lambda>_. 0, example_kmem)"] ok(1) l(1), unfolded example_range]
  show "\<exists>pre new post. vma_head (example_mm [0x1000, 0x200000]) = pre @ post \<and>
     vma_head (example_mm [0x1000, 0x8000, 0x9000, 0x200000]) = pre @ new @ post \<and> map v_start new = [0x8000, 0x9000]"
    using conjunct1 [OF c] by (elim exE conjE) (intro exI conjI)
  have "head_harmless (0, 4096) (vma_head (example_mm [0x1000, 0x200000])) 0x8000 8192"
    by (simp add: head_harmless_def example_mm_def example_vma_def)
  then show "vmas_ok (vma_head (example_mm [0x1000, 0x8000, 0x9000, 0x200000]))" using c by blast
  have "\<not> vmas_ok (vma_head (example_mm [0x1000, 0x8000, 0x8000]))"
    using create_uvm_inserts [OF example_overlap [of "(\<lambda>_. 0, example_kmem)"] ok(2) l(2)] by (simp add: example_mm_def example_vma_def)
  then show "\<exists>mm'. create_uvm example_uvm_ops (0, 0) (Some (example_mm [0x1000, 0x8000])) 0x8000 0x1000 6 (\<lambda>_. 0, example_kmem) =
       Ret (0, Some mm', \<lambda>_. 0, example_kmem) \<and> \<not> vmas_ok (vma_head mm')"
    using example_overlap by blast
qed

text \<open>
  What a failing \<open>create_uvm\<close> leaves behind. Either the list is unchanged, or the rollback,
  which starts at the predecessor of the new areas, has removed that area and kept the last
  of the new ones in its place.
\<close>

theorem create_uvm_failure:
  assumes "create_uvm u sent (Some mm) addr len flags s = Ret (r, Some mm', s')" and "r \<noteq> 0"
  shows "r < 0 \<and> (vma_head mm' = vma_head mm \<or>
    (\<exists>i v k. find_vma_before sent (vma_head mm) addr len = Some (At i) \<and> i < length (vma_head mm) \<and>
      vma_head mm' = (vma_head mm)[i := v] \<and> v_start v = nth_page addr k \<and> Suc k < unat len div 4096))"
proof (cases "\<exists>p. find_vma_before sent (vma_head mm) addr len = Some p \<and> IS_ALIGNED len PAGE_SIZE \<and> IS_ALIGNED addr PAGE_SIZE")
  case False
  then show ?thesis using assms
    by (auto simp: create_uvm_def EINVAL_def EFAULT_def split: if_splits option.splits)
next
  case True
  then obtain p where p: "find_vma_before sent (vma_head mm) addr len = Some p"
    "create_loop u (unat len div 4096) mm p p addr 0 flags s = Ret (r, mm', s')"
    using assms(1) by (auto simp: create_uvm_def obind_Ret_conv split: prod.splits)
  obtain k new mm1 s1 where k: "r < 0" "k < unat len div 4096"
    "vma_head mm1 = take (pos_of p) (vma_head mm) @ new @ drop (pos_of p) (vma_head mm)"
    "map v_start new = map (nth_page addr) [0..<k]" "unmap_and_free_vma u mm1 p (0 + of_nat k * 4096) s1 = Ret (mm', s')"
    using create_loop_run [OF p(2) find_vma_before_pos [OF p(1)]] assms(2) by blast
  have l: "length new = k" using arg_cong [OF k(4), of length] by simp
  have "k < 2 ^ 20" using k(2) unat_bound [of len] by simp
  then have d: "unat (0 + of_nat k * 4096 :: u32) div 4096 = k" by (simp add: unat_word_ariths unat_of_nat)
  show ?thesis
  proof (cases "k = 0")
    case True
    then have "vma_head mm1 = vma_head mm" using k(3) l by simp
    then have "vma_head mm' = vma_head mm" using unmap_and_free_vma_list [OF k(5) d] True by auto
    then show ?thesis using k(1) by blast
  next
    case False
    then obtain i where i: "p = At i" "vma_head mm' = take i (vma_head mm1) @ drop (i + k) (vma_head mm1)"
      using unmap_and_free_vma_list [OF k(5) d] by auto
    have il: "i < length (vma_head mm)" using find_vma_before_pos [OF p(1)] i(1) by (simp add: pos_of_def)
    have ne: "new \<noteq> []" using l False by auto
    have h: "vma_head mm1 = take (Suc i) (vma_head mm) @ new @ drop (Suc i) (vma_head mm)"
      using k(3) i(1) by (simp add: pos_of_def)
    have "vma_head mm' = take i (vma_head mm) @ last new # drop (Suc i) (vma_head mm)"
      using shifted_removal [OF il ne, of "drop (Suc i) (vma_head mm)"] unfolding i(2) h l .
    then have "vma_head mm' = (vma_head mm)[i := last new]" using il by (simp add: upd_conv_take_nth_drop)
    moreover have "v_start (last new) = nth_page addr (k - 1)"
    proof -
      have "v_start (last new) = map v_start new ! (k - 1)" using l False ne by (simp add: last_conv_nth)
      then show ?thesis unfolding k(4) using False by simp
    qed
    ultimately show ?thesis using k(1,2) p(1) i(1) il False by (metis Suc_pred' neq0_conv)
  qed
qed

theorem create_uvm_failure_witness:
  "- EEXIST < 0 \<and> vma_head (example_mm [0x101000, 0x200000]) \<noteq> vma_head (example_mm [0x1000, 0x200000]) \<and>
   (\<exists>i v. vma_head (example_mm [0x101000, 0x200000]) = (vma_head (example_mm [0x1000, 0x200000]))[i := v])"
proof -
  have "vma_head (example_mm [0x101000, 0x200000]) \<noteq> vma_head (example_mm [0x1000, 0x200000])"
    by (simp add: example_mm_def example_vma_def)
  then show ?thesis
    using create_uvm_failure [OF example_create_failure [of "(\<lambda>_. 0, example_kmem)"]] by (auto simp: EEXIST_def)
qed

text \<open>
  C25: \<open>destroy_uvm\<close> either succeeds, and then the removed areas are exactly the pages of the
  range and every other area stays, or it fails with an error code and changes nothing.
\<close>

theorem destroy_uvm_exact:
  assumes "destroy_uvm u sent (Some mm) addr len s = Ret (r, m', s')"
  shows "(\<exists>pre old post. r = 0 \<and> vma_head mm = pre @ old @ post \<and> m' = Some (mm\<lparr>vma_head := pre @ post\<rparr>) \<and>
      map v_start old = map (nth_page addr) [0..<unat len div 4096]) \<or>
    r \<in> {- EINVAL, - EFAULT} \<and> m' = Some mm \<and> s' = s"
proof -
  define i where "i = length (takeWhile (\<lambda>v. v_start v \<noteq> addr) (vma_head mm))"
  define n where "n = unat len div 4096"
  consider "r \<in> {- EINVAL, - EFAULT} \<and> m' = Some mm \<and> s' = s"
    | mm' where "i < length (vma_head mm)" "contiguous (fst sent) (vma_head mm) (n - 1) (addr + 4096) (drop (Suc i) (vma_head mm))"
      "unmap_and_free_vma u mm (At i) len s = Ret (mm', s')" "r = 0" "m' = Some mm'"
    using assms length_takeWhile_le [of "\<lambda>v. v_start v \<noteq> addr" "vma_head mm"]
    unfolding destroy_uvm_def option.case Let_def i_def [symmetric] n_def [symmetric]
    by (auto simp: obind_Ret_conv split: if_splits prod.splits)
  then show ?thesis
  proof cases
    case 2
    let ?vs = "vma_head mm"
    have h: "v_start (?vs ! i) = addr" using 2(1) nth_length_takeWhile [of "\<lambda>v. v_start v \<noteq> addr" ?vs] by (simp add: i_def)
    have m: "mm' = mm\<lparr>vma_head := take i ?vs @ drop (i + n) ?vs\<rparr>" "i + n \<le> length ?vs"
      using unmap_and_free_vma_list [OF 2(3) n_def [symmetric]] 2(1) by auto
    have "map v_start (take n (drop i ?vs)) = map (nth_page addr) [0..<n]"
    proof (cases n)
      case (Suc k)
      have "take n (drop i ?vs) = ?vs ! i # take k (drop (Suc i) ?vs)"
        unfolding Suc using 2(1) by (simp add: Cons_nth_drop_Suc [symmetric])
      then show ?thesis
        unfolding Suc nth_page_upt using h contiguous_starts [OF 2(2)] m(2) Suc by simp
    qed simp
    moreover have "?vs = take i ?vs @ take n (drop i ?vs) @ drop (i + n) ?vs"
      by (metis add.commute append_take_drop_id drop_drop)
    ultimately show ?thesis using m(1) 2(4,5) unfolding n_def by blast
  qed blast
qed

theorem destroy_uvm_exact_witness:
  "\<exists>pre old post. vma_head (example_mm [0x1000, 0x8000, 0x9000, 0x200000]) = pre @ old @ post \<and>
     vma_head (example_mm [0x1000, 0x200000]) = pre @ post \<and> map v_start old = [0x8000, 0x9000]"
proof -
  have z: "(0 :: int) \<notin> {- EINVAL, - EFAULT}" by (simp add: EINVAL_def EFAULT_def)
  obtain pre old post where d: "vma_head (example_mm [0x1000, 0x8000, 0x9000, 0x200000]) = pre @ old @ post"
    "Some (example_mm [0x1000, 0x200000]) = Some (example_mm [0x1000, 0x8000, 0x9000, 0x200000]\<lparr>vma_head := pre @ post\<rparr>)"
    "map v_start old = map (nth_page 0x8000) [0..<unat (8192 :: u32) div 4096]"
    using destroy_uvm_exact [OF example_destroy [of "(\<lambda>_. 0, example_kmem)"]] z by (elim disjE exE conjE) simp_all
  have "vma_head (example_mm [0x1000, 0x200000]) = pre @ post" 
    using arg_cong [OF d(2), of "\<lambda>m. vma_head (the m)"] by simp
  with d(1) show ?thesis using d(3) [unfolded example_range] by (intro exI conjI)
qed

end
