(* ===== verification/Printf.thy ===== *)
theory Printf
  imports Prelude
begin

text \<open>
  Formatted output, \<open>lib/libc/snprintf.c\<close>. The buffer is the list of characters written so far;
  the format is the list of its characters with the terminating null, and reading behind that
  is a fault. The variable arguments are words and strings, a string given by the characters
  before its null byte; taking an argument that is missing or of the other kind is a fault.
\<close>

datatype arg = AWord u32 | AStr "string option"

definition FLAG_ZEROPAD :: u32 where "FLAG_ZEROPAD = 0x002"
definition FLAG_NEG :: u32 where "FLAG_NEG = 0x100"

abbreviation NUL :: char where "NUL \<equiv> CHR 0x00"

definition is_digit :: "char \<Rightarrow> bool" where
  "is_digit c \<longleftrightarrow> of_char c \<ge> (48 :: nat) \<and> of_char c \<le> (57 :: nat)"

definition digits :: "nat \<Rightarrow> char" where
  "digits x = (if x \<le> 9 then char_of (48 + x) else char_of (97 + x - 10))"

text \<open>
  \<open>set_ch\<close> for each character of a text: \<open>Inl\<close> is the return from the routine when the buffer
  is full, with the last byte replaced by a null.
\<close>

primrec set_ch :: "u32 \<Rightarrow> string \<Rightarrow> string \<Rightarrow> string + string" where
  "set_ch sz [] out = Inr out"
| "set_ch sz (c # cs) out =
     (let out = out @ [c]
      in if of_nat (length out) = sz then Inl (out[unat (sz - 1) := NUL]) else set_ch sz cs out)"

definition full_or :: "u32 \<Rightarrow> string + string \<Rightarrow> (string \<Rightarrow> (int \<times> string) outcome) \<Rightarrow> (int \<times> string) outcome" where
  "full_or sz e k = (case e of Inl final \<Rightarrow> Ret (sint sz, final) | Inr out \<Rightarrow> k out)"

text \<open>The digits, lowest first. The bases of the code are 8, 10 and 16.\<close>

fun digit_loop :: "nat \<Rightarrow> nat \<Rightarrow> string" where
  "digit_loop base uval = (if 0 < uval \<and> 1 < base then digits (uval mod base) # digit_loop base (uval div base) else [])"

declare digit_loop.simps [simp del]

text \<open>The part of \<open>vsnprintf\<close> from the label \<open>print_uint\<close> on: the characters it emits.\<close>

definition print_uint :: "u32 \<Rightarrow> u32 \<Rightarrow> nat \<Rightarrow> nat \<Rightarrow> string" where
  "print_uint flag width uval base =
     (let buf = digit_loop base uval;
          buf = (if buf = [] then ''0'' else buf);
          neg = (if flag AND FLAG_NEG \<noteq> 0 then ''-'' else '''')
      in if width = 0 then neg @ rev buf
         else if 0 < sint width \<and> flag OR FLAG_ZEROPAD \<noteq> 0 then
           neg @ map (\<lambda>i. if i \<ge> length buf then CHR ''0'' else buf ! i) (rev [0..<unat width])
         else if 0 < sint width then
           (let buf = buf @ neg
            in map (\<lambda>i. if i \<ge> length buf then CHR '' '' else buf ! i) (rev [0..<unat width]))
         else [])"

definition take_width :: "string \<Rightarrow> u32 \<Rightarrow> u32" where
  "take_width fmt width = foldl (\<lambda>w c. w * 10 + (of_nat (of_char c) - 48)) width (takeWhile is_digit fmt)"

definition string_arg :: "u32 \<Rightarrow> string option \<Rightarrow> string" where
  "string_arg width s =
     (let s = (case s of None \<Rightarrow> ''(null)'' | Some t \<Rightarrow> t)
      in s @ replicate (nat (sint width) - length s) (CHR '' ''))"

fun word_arg :: "arg list \<Rightarrow> (u32 \<times> arg list) outcome" where
  "word_arg (AWord v # ap) = Ret (v, ap)"
| "word_arg ap = Fault"

fun str_arg :: "arg list \<Rightarrow> (string option \<times> arg list) outcome" where
  "str_arg (AStr s # ap) = Ret (s, ap)"
| "str_arg ap = Fault"

text \<open>The outer loop, \<open>vsn\<close>, and the switch behind the label \<open>fmt_loop\<close>, \<open>vsn_fmt\<close>.\<close>

function vsn :: "u32 \<Rightarrow> string \<Rightarrow> u32 \<Rightarrow> u32 \<Rightarrow> arg list \<Rightarrow> string \<Rightarrow> (int \<times> string) outcome"
  and vsn_fmt :: "u32 \<Rightarrow> string \<Rightarrow> u32 \<Rightarrow> u32 \<Rightarrow> arg list \<Rightarrow> string \<Rightarrow> (int \<times> string) outcome" where
  "vsn sz [] flag width ap out = Fault"
| "vsn sz (c # fmt) flag width ap out =
     (if c = NUL then full_or sz (set_ch sz [NUL] out) (\<lambda>out. Ret (int (length out) - 1, out))
      else if c = CHR ''%'' then vsn_fmt sz fmt flag width ap out
      else full_or sz (set_ch sz [c] out) (vsn sz fmt flag width ap))"
| "vsn_fmt sz [] flag width ap out = Fault"
| "vsn_fmt sz (c # fmt) flag width ap out =
     (if c = CHR ''d'' then obind (word_arg ap) (\<lambda>(val, ap).
        let flag = (if sint val < 0 then flag OR FLAG_NEG else flag);
            uval = (if sint val < 0 then - val else val)
        in full_or sz (set_ch sz (print_uint flag width (unat uval) 10) out) (vsn sz fmt 0 0 ap))
      else if c = CHR ''o'' then obind (word_arg ap) (\<lambda>(uval, ap).
        full_or sz (set_ch sz (print_uint flag width (unat uval) 8) out) (vsn sz fmt 0 0 ap))
      else if c = CHR ''x'' then obind (word_arg ap) (\<lambda>(uval, ap).
        full_or sz (set_ch sz (print_uint flag width (unat uval) 16) out) (vsn sz fmt 0 0 ap))
      else if c = CHR ''p'' then obind (word_arg ap) (\<lambda>(uval, ap).
        full_or sz (set_ch sz (print_uint (flag OR FLAG_ZEROPAD) 8 (unat uval) 16) out) (vsn sz fmt 0 0 ap))
      else if c = CHR ''u'' then obind (word_arg ap) (\<lambda>(uval, ap).
        full_or sz (set_ch sz (print_uint flag width (unat uval) 10) out) (vsn sz fmt 0 0 ap))
      else if c = CHR ''c'' then obind (word_arg ap) (\<lambda>(val, ap).
        full_or sz (set_ch sz [char_of (unat val)] out) (vsn sz fmt 0 0 ap))
      else if c = CHR ''s'' then obind (str_arg ap) (\<lambda>(s, ap).
        full_or sz (set_ch sz (string_arg width s) out) (vsn sz fmt 0 0 ap))
      else if c = CHR ''%'' then full_or sz (set_ch sz ''%'' out) (vsn sz fmt 0 0 ap)
      else if c = CHR ''0'' then vsn_fmt sz fmt (flag OR FLAG_ZEROPAD) width ap out
      else if is_digit c then vsn_fmt sz (dropWhile is_digit (c # fmt)) flag (take_width (c # fmt) width) ap out
      else full_or sz (set_ch sz [CHR ''%'', c] out) (vsn sz fmt flag width ap))"
  by pat_completeness auto

termination
  by (relation "measure (\<lambda>x. case x of Inl (sz, fmt, flag, width, ap, out) \<Rightarrow> 2 * length fmt
    | Inr (sz, fmt, flag, width, ap, out) \<Rightarrow> 2 * length fmt + 1)") (auto simp: less_Suc_eq_le intro!: le_SucI length_dropWhile_le)

declare vsn_fmt.simps(2) [simp del]

definition vsnprintf :: "u32 \<Rightarrow> string \<Rightarrow> arg list \<Rightarrow> (int \<times> string) outcome" where
  "vsnprintf sz fmt ap = vsn sz fmt 0 0 ap []"

definition snprintf :: "u32 \<Rightarrow> string \<Rightarrow> arg list \<Rightarrow> (int \<times> string) outcome" where
  "snprintf sz fmt ap = vsnprintf sz fmt ap"

section \<open>The buffer\<close>

text \<open>What a call that returns has written, for a buffer of \<open>sz\<close> bytes.\<close>

definition result_ok :: "u32 \<Rightarrow> int \<Rightarrow> string \<Rightarrow> bool" where
  "result_ok sz r out \<longleftrightarrow> out \<noteq> [] \<and> last out = NUL \<and>
     (length out < unat sz \<and> r = int (length out) - 1 \<or> length out = unat sz \<and> r = sint sz)"

lemma set_ch_full:
  assumes "n < unat (sz :: u32)"
  shows "of_nat (Suc n) = sz \<longleftrightarrow> Suc n = unat sz"
proof
  have "Suc n < 2 ^ 32 \<or> Suc n = 2 ^ 32" using assms unat_bound [of sz] by auto
  moreover assume "of_nat (Suc n) = sz"
  ultimately show "Suc n = unat sz" using assms by (auto simp: unat_of_nat simp del: of_nat_Suc)
next
  assume s: "Suc n = unat sz"
  show "of_nat (Suc n) = sz" unfolding s by simp
qed

lemma set_ch_step:
  assumes "length out < unat sz"
  shows "set_ch sz (c # cs) out = (if Suc (length out) = unat sz then Inl (out @ [NUL]) else set_ch sz cs (out @ [c]))"
proof -
  have "1 \<le> sz" using assms by (simp add: word_le_nat_alt)
  then have m: "unat (sz - 1) = unat sz - 1" by (simp add: unat_sub)
  have "(out @ [c])[unat (sz - 1) := NUL] = out @ [NUL]" if "Suc (length out) = unat sz"
    unfolding m that [symmetric] by simp
  then show ?thesis using set_ch_full [OF assms] by (simp add: Let_def del: of_nat_Suc)
qed

declare set_ch.simps(2) [simp del]

lemma set_ch_Inr:
  "set_ch sz cs out = Inr out' \<Longrightarrow> length out < unat sz \<Longrightarrow> out' = out @ cs \<and> length out' < unat sz"
proof (induction cs arbitrary: out)
  case (Cons c cs)
  then have "Suc (length out) \<noteq> unat sz" "set_ch sz cs (out @ [c]) = Inr out'"
    by (auto simp: set_ch_step split: if_splits)
  then show ?case using Cons.IH [of "out @ [c]"] Cons.prems(2) by auto
qed simp

lemma set_ch_Inl:
  "set_ch sz cs out = Inl out' \<Longrightarrow> length out < unat sz \<Longrightarrow> length out' = unat sz \<and> out' = take (unat sz - 1) (out @ cs) @ [NUL]"
proof (induction cs arbitrary: out)
  case (Cons c cs)
  show ?case
  proof (cases "Suc (length out) = unat sz")
    case True
    then show ?thesis using Cons.prems by (auto simp: set_ch_step)
  next
    case False
    then show ?thesis using Cons.IH [of "out @ [c]"] Cons.prems by (auto simp: set_ch_step)
  qed
qed simp

lemma full_or_ok:
  assumes "full_or sz (set_ch sz cs out) k = Ret (r, out')" and "length out < unat sz"
    and "\<And>out1. length out1 < unat sz \<Longrightarrow> k out1 = Ret (r, out') \<Longrightarrow> result_ok sz r out'"
  shows "result_ok sz r out'"
proof (cases "set_ch sz cs out")
  case (Inl final)
  then show ?thesis using assms(1,2) set_ch_Inl [OF Inl assms(2)] by (auto simp: full_or_def result_ok_def)
next
  case (Inr out1)
  then show ?thesis using assms set_ch_Inr [OF Inr assms(2)] by (auto simp: full_or_def)
qed

lemma vsn_fmt_Ret:
  assumes "vsn_fmt sz (c # fmt) flag width ap out = Ret x"
  shows "(\<exists>cs flag' width' ap'. full_or sz (set_ch sz cs out) (vsn sz fmt flag' width' ap') = Ret x) \<or>
    vsn_fmt sz fmt (flag OR FLAG_ZEROPAD) width ap out = Ret x \<or>
    is_digit c \<and> vsn_fmt sz (dropWhile is_digit fmt) flag (take_width (c # fmt) width) ap out = Ret x"
    (is "?full \<or> _")
proof -
  have w: ?full if "obind (word_arg ap) (\<lambda>(v, ap). full_or sz (set_ch sz (g v) out) (vsn sz fmt 0 0 ap)) = Ret x" for g
    using that by (cases ap rule: word_arg.cases) auto
  have t: ?full if "obind (str_arg ap) (\<lambda>(v, ap). full_or sz (set_ch sz (g v) out) (vsn sz fmt 0 0 ap)) = Ret x" for g
    using that by (cases ap rule: str_arg.cases) auto
  show ?thesis
    using assms unfolding vsn_fmt.simps Let_def 
    by (simp only: split: if_splits) ((rule disjI1, erule w) | (rule disjI1, erule t) | blast | simp)+
qed

lemma vsn_ok:
  "(\<forall>flag width ap out. vsn sz fmt flag width ap out = Ret (r, out') \<longrightarrow> length out < unat sz \<longrightarrow> result_ok sz r out') \<and>
   (\<forall>flag width ap out. vsn_fmt sz fmt flag width ap out = Ret (r, out') \<longrightarrow> length out < unat sz \<longrightarrow> result_ok sz r out')"
proof (induction fmt rule: length_induct)
  case (1 fmt)
  show ?case
  proof (cases fmt)
    case (Cons c f)
    have v: "vsn sz f flag width ap out = Ret (r, out') \<Longrightarrow> length out < unat sz \<Longrightarrow> result_ok sz r out'"
      "vsn_fmt sz f flag width ap out = Ret (r, out') \<Longrightarrow> length out < unat sz \<Longrightarrow> result_ok sz r out'"
      "vsn_fmt sz (dropWhile is_digit f) flag width ap out = Ret (r, out') \<Longrightarrow> length out < unat sz \<Longrightarrow> result_ok sz r out'"
      for flag width ap out
      using 1 Cons length_dropWhile_le [of is_digit f] by (auto simp: less_Suc_eq_le)
    have fo: "result_ok sz r out'"
      if "full_or sz (set_ch sz cs out) (vsn sz f flag width ap) = Ret (r, out')" "length out < unat sz" for cs flag width ap out
      by (rule full_or_ok [OF that]) (rule v(1))
    have "result_ok sz r out'" if "vsn sz (c # f) flag width ap out = Ret (r, out')" "length out < unat sz" for flag width ap out
    proof (cases "c = NUL")
      case True
      then show ?thesis using that by (auto simp: set_ch_step full_or_def result_ok_def split: if_splits)
    next
      case False
      then show ?thesis using that v(2) fo by (auto split: if_splits)
    qed
    moreover have "result_ok sz r out'" if "vsn_fmt sz (c # f) flag width ap out = Ret (r, out')" "length out < unat sz" for flag width ap out
      using vsn_fmt_Ret [OF that(1)] fo v(2,3) that(2) by blast
    ultimately show ?thesis unfolding Cons by blast
  qed simp
qed

text \<open>
  C29: With a buffer of at least one byte, a call of \<open>vsnprintf\<close> that returns has written a null
  terminated string within the buffer. It returns the length of the string when there was room
  to spare and the size of the buffer when the buffer is full, also when the string just fits.
\<close>

theorem vsnprintf_bounded:
  assumes "vsnprintf sz fmt ap = Ret (r, out)" and "0 < sz"
  shows "out \<noteq> [] \<and> length out \<le> unat sz \<and> last out = NUL \<and>
    r = (if length out < unat sz then int (length out) - 1 else sint sz)"
proof -
  have "0 < unat sz" using assms(2) by (simp add: word_less_nat_alt)
  then have "result_ok sz r out" using vsn_ok [of sz fmt r out] assms(1) unfolding vsnprintf_def by simp
  then show ?thesis by (auto simp: result_ok_def)
qed

lemma example_vsnprintf: "vsnprintf 4 (''a%sc'' @ [NUL]) [AStr (Some ''xyz'')] = Ret (4, ''axy'' @ [NUL])"
  by (simp add: vsnprintf_def vsn_fmt.simps set_ch_step full_or_def string_arg_def)

theorem vsnprintf_bounded_witness:
  "\<exists>r out. vsnprintf 4 (''a%sc'' @ [NUL]) [AStr (Some ''xyz'')] = Ret (r, out) \<and> length out \<le> unat (4 :: u32) \<and> last out = NUL"
proof -
  have z: "0 < (4 :: u32)" by simp
  show ?thesis using vsnprintf_bounded [OF example_vsnprintf z] example_vsnprintf by blast
qed

section \<open>Numbers\<close>

text \<open>The value of digits, lowest first.\<close>

definition digit_val :: "char \<Rightarrow> nat" where
  "digit_val c = (if of_char c \<le> (57 :: nat) then of_char c - 48 else of_char c - 87)"

primrec digits_val :: "nat \<Rightarrow> string \<Rightarrow> nat" where
  "digits_val base [] = 0"
| "digits_val base (c # cs) = digit_val c + base * digits_val base cs"

lemma digit_val_digits [simp]: "x < 16 \<Longrightarrow> digit_val (digits x) = x"
  by (simp add: digit_val_def digits_def)

lemma digit_loop_value:
  "1 < base \<Longrightarrow> base \<le> 16 \<Longrightarrow> digits_val base (digit_loop base u) = u \<and> (\<forall>c \<in> set (digit_loop base u). digit_val c < base)"
proof (induction base u rule: digit_loop.induct)
  case (1 base u)
  show ?case
  proof (cases "0 < u")
    case True
    have m: "u mod base < base" using "1.prems" by simp
    then have "u mod base < 16" using "1.prems" by linarith
    have l: "digit_loop base u = digits (u mod base) # digit_loop base (u div base)"
      using True "1.prems" by (subst digit_loop.simps) simp
    show ?thesis unfolding l using "1.IH" "1.prems" True m \<open>u mod base < 16\<close> by simp
  next
    case False
    have l: "digit_loop base u = []" using False by (subst digit_loop.simps) simp
    show ?thesis unfolding l using False by simp
  qed
qed

lemma digits_val_padded:
  "\<forall>c \<in> set buf. digit_val c < base \<Longrightarrow>
   digits_val base (map (\<lambda>i. if i \<ge> length buf then CHR ''0'' else buf ! i) [0..<w]) = digits_val base buf mod base ^ w"
proof (induction buf arbitrary: w)
  case Nil
  have "digits_val base (map (\<lambda>i. CHR ''0'') xs) = 0" for xs :: "nat list"
    by (induction xs) (simp_all add: digit_val_def)
  then show ?case by simp
next
  case (Cons c cs)
  show ?case
  proof (cases w)
    case (Suc v)
    have "map (\<lambda>i. if i \<ge> length (c # cs) then CHR ''0'' else (c # cs) ! i) [0..<w] =
      c # map (\<lambda>i. if i \<ge> length cs then CHR ''0'' else cs ! i) [0..<v]"
      unfolding Suc by (simp add: upt_conv_Cons map_Suc_upt [symmetric] comp_def del: upt_Suc)
    then show ?thesis using Cons unfolding Suc by (simp add: mod_mult2_eq)
  qed simp
qed

text \<open>
  What the conversions print is the number: without a width all its digits, with a width
  exactly that many characters, which are the lowest digits; higher ones are lost.
\<close>

theorem print_uint_value:
  assumes "base \<in> {8, 10, 16}" and "flag AND FLAG_NEG = 0" and "width = 0 \<or> 0 < sint width"
  shows "digits_val base (rev (print_uint flag width u base)) = (if width = 0 then u else u mod base ^ unat width) \<and>
    length (print_uint flag width u base) = (if width \<noteq> 0 then unat width else max 1 (length (digit_loop base u)))"
proof -
  define buf where "buf = (if digit_loop base u = [] then ''0'' else digit_loop base u)"
  have b: "1 < base" "base \<le> 16" using assms(1) by auto
  note d = digit_loop_value [OF b, of u]
  have v: "digits_val base buf = u" "\<forall>c \<in> set buf. digit_val c < base"
    using d b by (auto simp: buf_def digit_val_def)
  have z: "flag OR FLAG_ZEROPAD \<noteq> 0" by (simp add: FLAG_ZEROPAD_def or_eq_0_iff)
  show ?thesis
  proof (cases "width = 0")
    case True
    then show ?thesis using assms(2) v 
      unfolding print_uint_def Let_def buf_def [symmetric] by (auto simp: buf_def max_def Suc_le_eq)
  next
    case False
    then have "print_uint flag width u base = map (\<lambda>i. if i \<ge> length buf then CHR ''0'' else buf ! i) (rev [0..<unat width])"
      using assms(2,3) z unfolding print_uint_def Let_def buf_def [symmetric] by simp
    then show ?thesis using False digits_val_padded [OF v(2), of "unat width"] v(1) by (simp add: rev_map [symmetric])
  qed
qed

theorem print_uint_value_witness:
  "digits_val 10 (rev (print_uint 0 2 2016 10)) = 16 \<and> length (print_uint 0 2 2016 10) = 2"
  using print_uint_value [of 10 0 2 2016] by simp

end
