(* ===== verification/Libc.thy ===== *)
theory Libc
  imports Prelude
begin

text \<open>
  The memory and string routines of \<open>lib/libc\<close> on a memory of bytes: \<open>memcpy\<close>, which aligns
  its operands and then copies words, \<open>memset\<close>, and \<open>strcmp\<close>, whose loop ends only at a
  difference or a null byte. Addresses wrap at 32 bits; \<open>word\<close> of \<open>memcpy.c\<close> is \<open>long\<close>, four
  bytes on the 32-bit machines.
\<close>

type_synonym bytes = "u32 \<Rightarrow> u8"

section \<open>Operations\<close>

definition wsize :: u32 where "wsize = 4"
definition wmask :: u32 where "wmask = wsize - 1"

text \<open>\<open>TLOOP1\<close> tests after the decrement, so a count of 0 means \<open>2\<^sup>3\<^sup>2\<close> rounds.\<close>

definition tloop1 :: "u32 \<Rightarrow> nat" where
  "tloop1 t = (if t = 0 then 2 ^ 32 else unat t)"

primrec copy_bytes :: "nat \<Rightarrow> u32 \<Rightarrow> u32 \<Rightarrow> bytes \<Rightarrow> bytes" where
  "copy_bytes 0 dst src mem = mem"
| "copy_bytes (Suc n) dst src mem = copy_bytes n (dst + 1) (src + 1) (mem(dst := mem src))"

text \<open>One word is read as a whole and then written.\<close>

definition copy_word :: "u32 \<Rightarrow> u32 \<Rightarrow> bytes \<Rightarrow> bytes" where
  "copy_word dst src mem =
     mem(dst := mem src, dst + 1 := mem (src + 1), dst + 2 := mem (src + 2), dst + 3 := mem (src + 3))"

primrec copy_words :: "nat \<Rightarrow> u32 \<Rightarrow> u32 \<Rightarrow> bytes \<Rightarrow> bytes" where
  "copy_words 0 dst src mem = mem"
| "copy_words (Suc n) dst src mem = copy_words n (dst + wsize) (src + wsize) (copy_word dst src mem)"

definition memcpy_rest :: "u32 \<Rightarrow> u32 \<Rightarrow> u32 \<Rightarrow> bytes \<Rightarrow> bytes" where
  "memcpy_rest dst src len mem =
     (let t = len div wsize;
          mem = copy_words (unat t) dst src mem
      in copy_bytes (unat (len AND wmask)) (dst + t * wsize) (src + t * wsize) mem)"

definition memcpy :: "u32 \<Rightarrow> u32 \<Rightarrow> u32 \<Rightarrow> bytes \<Rightarrow> bytes" where
  "memcpy dst src len mem =
     (if len = 0 \<or> dst = src then mem
      else if (src OR dst) AND wmask \<noteq> 0 then
        let t = (if (src XOR dst) AND wmask \<noteq> 0 \<or> len < wsize then len else wsize - (src AND wmask))
        in memcpy_rest (dst + t) (src + t) (len - t) (copy_bytes (tloop1 t) dst src mem)
      else memcpy_rest dst src len mem)"

primrec set_bytes :: "nat \<Rightarrow> u32 \<Rightarrow> u8 \<Rightarrow> bytes \<Rightarrow> bytes" where
  "set_bytes 0 d c mem = mem"
| "set_bytes (Suc n) d c mem = set_bytes n (d + 1) c (mem(d := c))"

definition memset :: "u32 \<Rightarrow> u32 \<Rightarrow> u32 \<Rightarrow> bytes \<Rightarrow> bytes" where
  "memset dst c n mem = (if n \<noteq> 0 then set_bytes (unat n) dst (ucast c) mem else mem)"

text \<open>\<open>None\<close>: the loop does not end.\<close>

partial_function (option) strcmp :: "bytes \<Rightarrow> u32 \<Rightarrow> u32 \<Rightarrow> int option" where
  "strcmp mem s1 s2 =
     (if mem s1 = mem s2 then (if mem s1 = 0 then Some 0 else strcmp mem (s1 + 1) (s2 + 1))
      else Some (uint (mem s1) - uint (mem s2)))"

section \<open>Copying\<close>

definition copied :: "nat \<Rightarrow> u32 \<Rightarrow> u32 \<Rightarrow> bytes \<Rightarrow> bytes" where
  "copied n dst src mem = (\<lambda>a. if unat (a - dst) < n then mem (src + (a - dst)) else mem a)"

definition apart :: "nat \<Rightarrow> u32 \<Rightarrow> u32 \<Rightarrow> bool" where
  "apart n dst src \<longleftrightarrow> (\<forall>i < n. \<forall>j < n. dst + of_nat i \<noteq> src + of_nat j)"

lemma unat_diff_offset:
  assumes "k \<le> 2 ^ 32"
  shows "unat (a - (dst + of_nat k) :: u32) = (if k \<le> unat (a - dst) then unat (a - dst) - k else unat (a - dst) + 2 ^ 32 - k)"
proof -
  let ?x = "a - dst"
  have x: "unat ?x < 2 ^ 32" using unat_bound [of ?x] by simp
  have e: "a - (dst + of_nat k) = ?x - of_nat k" by simp
  show ?thesis
  proof (cases "k = 2 ^ 32")
    case True
    then have z: "of_nat k = (0 :: u32)" by simp
    show ?thesis unfolding e z using True x by simp
  next
    case False
    then have u: "unat (of_nat k :: u32) = k" using assms by (simp add: unat_of_nat)
    show ?thesis
    proof (cases "k \<le> unat ?x")
      case True
      then have "(of_nat k :: u32) \<le> ?x" using u by (simp add: word_le_nat_alt)
      then show ?thesis unfolding e using True u by (simp add: unat_sub)
    next
      case F: False
      then have "?x < (of_nat k :: u32)" using u by (simp add: word_less_nat_alt)
      then show ?thesis unfolding e using F u x
        by (simp add: unat_sub_if_size word_size word_le_nat_alt)
    qed
  qed
qed

lemma copied_append:
  assumes "apart (k + n) dst src" and "k + n \<le> 2 ^ 32"
  shows "copied n (dst + of_nat k) (src + of_nat k) (copied k dst src mem) = copied (k + n) dst src mem"
proof
  fix a
  let ?x = "unat (a - dst)"
  have a: "a = dst + of_nat ?x" by simp
  have u: "unat (a - (dst + of_nat k)) = (if k \<le> ?x then ?x - k else ?x + 2 ^ 32 - k)"
    using assms(2) by (intro unat_diff_offset) simp
  show "copied n (dst + of_nat k) (src + of_nat k) (copied k dst src mem) a = copied (k + n) dst src mem a"
  proof (cases "k \<le> ?x \<and> ?x < k + n")
    case True
    have "\<not> unat (src + (a - dst) - dst) < k"
    proof
      assume l: "unat (src + (a - dst) - dst) < k"
      have "dst + of_nat (unat (src + (a - dst) - dst)) = src + of_nat ?x" by simp
      then show False using assms(1) l True unfolding apart_def by (metis trans_less_add1)
    qed
    moreover have "src + of_nat k + (a - (dst + of_nat k)) = src + (a - dst)" by simp
    moreover have "unat (a - (dst + of_nat k)) < n" using True u by (simp, linarith)
    ultimately show ?thesis using True unfolding copied_def by (simp only: if_True if_False)
  next
    case False
    then have "\<not> unat (a - (dst + of_nat k)) < n" using u assms(2) by (simp split: if_splits)
    then show ?thesis using False unfolding copied_def by (cases "?x < k") simp_all
  qed
qed

lemma apart_ranges:
  assumes "unat dst + n \<le> 2 ^ 32" "unat src + n \<le> 2 ^ 32" and "unat src + n \<le> unat dst \<or> unat dst + n \<le> unat src"
  shows "apart n dst src"
  unfolding apart_def
proof (intro allI impI)
  fix i j assume ij: "i < n" "j < n"
  have "unat (dst + of_nat i) = unat dst + i" "unat (src + of_nat j) = unat src + j"
    using assms(1,2) ij by (simp_all add: unat_word_ariths unat_of_nat)
  then show "dst + of_nat i \<noteq> src + of_nat j" using assms(3) ij by auto
qed

lemma apart_mono: "apart n dst src \<Longrightarrow> k \<le> n \<Longrightarrow> apart k dst src"
  by (simp add: apart_def)

lemma apart_shift:
  assumes "apart (k + n) dst src"
  shows "apart n (dst + of_nat k) (src + of_nat k)"
  unfolding apart_def
proof (intro allI impI)
  fix i j assume "i < n" "j < n"
  then have "dst + of_nat (k + i) \<noteq> src + of_nat (k + j)" using assms unfolding apart_def by simp
  then show "dst + of_nat k + of_nat i \<noteq> src + of_nat k + of_nat j" by (simp add: add.assoc)
qed

lemma copied_0 [simp]: "copied 0 dst src mem = mem"
  by (simp add: copied_def)

lemma copied_1: "copied 1 dst src mem = mem(dst := mem src)"
  by (rule ext) (simp add: copied_def unat_eq_zero)

lemma copy_bytes_copied:
  "apart n dst src \<Longrightarrow> n \<le> 2 ^ 32 \<Longrightarrow> copy_bytes n dst src mem = copied n dst src mem"
proof (induction n arbitrary: dst src mem)
  case (Suc n)
  have "apart n (dst + 1) (src + 1)" using apart_shift [of 1 n dst src] Suc.prems by simp
  then have "copy_bytes (Suc n) dst src mem = copied n (dst + of_nat 1) (src + of_nat 1) (copied 1 dst src mem)"
    using Suc by (simp add: copied_1 [simplified])
  also have "\<dots> = copied (Suc n) dst src mem" using copied_append [of 1 n dst src mem] Suc.prems by simp
  finally show ?case .
qed simp

lemma copy_word_bytes:
  assumes "apart 4 dst src"
  shows "copy_word dst src mem = copy_bytes 4 dst src mem"
proof -
  have a: "dst + of_nat i \<noteq> src + of_nat j" if "i < 4" "j < 4" for i j using assms that unfolding apart_def by blast
  have n: "src + 1 \<noteq> dst" "src + 2 \<noteq> dst" "src + 3 \<noteq> dst" "src + 2 \<noteq> dst + 1" "src + 3 \<noteq> dst + 1" "src + 3 \<noteq> dst + 2"
    using a [of 0 1] a [of 0 2] a [of 0 3] a [of 1 2] a [of 1 3] a [of 2 3] by auto
  show ?thesis using n by (simp add: copy_word_def numeral_eq_Suc add.assoc)
qed

lemma copy_words_copied:
  "apart (4 * n) dst src \<Longrightarrow> 4 * n \<le> 2 ^ 32 \<Longrightarrow> copy_words n dst src mem = copied (4 * n) dst src mem"
proof (induction n arbitrary: dst src mem)
  case (Suc n)
  have ap: "apart (4 + 4 * n) dst src" using Suc.prems by simp
  have "apart (4 * n) (dst + 4) (src + 4)" using apart_shift [OF ap] by simp
  then have "copy_words (Suc n) dst src mem = copied (4 * n) (dst + of_nat 4) (src + of_nat 4) (copy_word dst src mem)"
    using Suc by (simp add: wsize_def)
  also have "copy_word dst src mem = copied 4 dst src mem"
    using copy_word_bytes copy_bytes_copied [of 4 dst src mem] apart_mono [OF ap, of 4] by simp
  also have "copied (4 * n) (dst + of_nat 4) (src + of_nat 4) (copied 4 dst src mem) = copied (4 + 4 * n) dst src mem"
    using Suc.prems by (intro copied_append ap) simp
  finally show ?case by simp
qed simp

lemma unat_wmask: "unat (x AND wmask) = unat x mod 4"
proof -
  have "(wmask :: u32) = mask 2" by (simp add: wmask_def wsize_def mask_eq_exp_minus_1)
  then show ?thesis using unat_and_mask [of x 2] by simp
qed

lemma memcpy_rest_copied:
  assumes "apart (unat len) dst src"
  shows "memcpy_rest dst src len mem = copied (unat len) dst src mem"
proof -
  define q r where "q = unat len div 4" and "r = unat len mod 4"
  have l: "unat len = 4 * q + r" by (simp add: q_def r_def)
  have b: "4 * q + r \<le> 2 ^ 32" using unat_bound [of len] l by simp
  have uq: "unat (len div wsize) = q" by (simp add: wsize_def unat_div q_def)
  have "len div wsize * wsize = of_nat (unat (len div wsize)) * 4" by (simp add: wsize_def)
  then have tq: "len div wsize * wsize = of_nat (4 * q)" unfolding uq by (simp add: mult.commute)
  have ur: "unat (len AND wmask) = r" by (simp add: unat_wmask r_def)
  have "memcpy_rest dst src len mem = copy_bytes r (dst + of_nat (4 * q)) (src + of_nat (4 * q)) (copied (4 * q) dst src mem)"
    unfolding memcpy_rest_def Let_def uq ur tq
    using copy_words_copied [of q dst src mem] apart_mono [OF assms, of "4 * q"] b l by simp
  also have "\<dots> = copied r (dst + of_nat (4 * q)) (src + of_nat (4 * q)) (copied (4 * q) dst src mem)"
    using assms b l by (intro copy_bytes_copied apart_shift) simp_all
  also have "\<dots> = copied (unat len) dst src mem"
    unfolding l using assms b l by (intro copied_append) simp_all
  finally show ?thesis .
qed

lemma memcpy_prefix:
  assumes "apart (unat len) dst src" and "0 < t" and "t \<le> len"
  shows "memcpy_rest (dst + t) (src + t) (len - t) (copy_bytes (tloop1 t) dst src mem) = copied (unat len) dst src mem"
proof -
  have t: "tloop1 t = unat t" using assms(2) by (simp add: tloop1_def word_gt_0)
  have l: "unat len = unat t + unat (len - t)" using assms(3) by (simp add: unat_sub word_le_nat_alt)
  have b: "unat t + unat (len - t) \<le> 2 ^ 32" using unat_bound [of len] l by simp
  have ap: "apart (unat t + unat (len - t)) dst src" using assms(1) l by simp
  have "copy_bytes (tloop1 t) dst src mem = copied (unat t) dst src mem"
    unfolding t using b by (intro copy_bytes_copied apart_mono [OF ap]) simp_all
  then show ?thesis
    using memcpy_rest_copied [of "len - t" "dst + t" "src + t"] apart_shift [OF ap] copied_append [OF ap b, of mem] l by simp
qed

lemma memcpy_copied:
  assumes ap: "apart (unat len) dst src"
  shows "memcpy dst src len mem = copied (unat len) dst src mem"
proof (cases "len = 0 \<or> dst = src")
  case True
  then show ?thesis by (auto simp: memcpy_def copied_def)
next
  case F: False
  define t where "t = (if (src XOR dst) AND wmask \<noteq> 0 \<or> len < wsize then len else wsize - (src AND wmask))"
  have m: "src AND wmask < 4" by (simp add: word_less_nat_alt unat_wmask)
  have "0 < t \<and> t \<le> len"
  proof (cases "(src XOR dst) AND wmask \<noteq> 0 \<or> len < wsize")
    case True
    then show ?thesis using F by (simp add: t_def word_gt_0)
  next
    case False
    then have t: "t = 4 - (src AND wmask)" and l: "4 \<le> len" by (auto simp: t_def wsize_def not_less)
    have u: "unat t = 4 - unat (src AND wmask)" unfolding t using m by (simp add: unat_sub word_le_nat_alt word_less_nat_alt)
    show ?thesis using u m l by (simp add: word_less_nat_alt word_le_nat_alt)
  qed
  then show ?thesis
    using F memcpy_prefix [OF ap, of t mem] memcpy_rest_copied [OF ap, of mem]
    unfolding memcpy_def Let_def t_def [symmetric] by simp
qed

text \<open>
  C27: On ranges that do not overlap \<open>memcpy\<close> copies every byte and touches no other, for every
  length and every alignment of the operands, whichever of its loops does the work.
\<close>

theorem memcpy_copies:
  assumes "\<forall>i < unat len. \<forall>j < unat len. dst + of_nat i \<noteq> src + of_nat j"
  shows "memcpy dst src len mem = (\<lambda>a. if unat (a - dst) < unat len then mem (src + (a - dst)) else mem a)"
  using memcpy_copied [of len dst src mem] assms by (simp add: apart_def copied_def)

theorem memcpy_copies_witness: "memcpy 0x2002 0x1002 7 (\<lambda>a. ucast a) 0x2005 = 0x05"
proof -
  have "apart (unat (7 :: u32)) 0x2002 0x1002" by (rule apart_ranges) simp_all
  then have "memcpy 0x2002 0x1002 7 (\<lambda>a. ucast a) =
    (\<lambda>a. if unat (a - 0x2002) < unat (7 :: u32) then ucast (0x1002 + (a - 0x2002)) else ucast a)"
    unfolding apart_def by (rule memcpy_copies)
  then show ?thesis by simp
qed

lemma set_bytes_set:
  "n \<le> 2 ^ 32 \<Longrightarrow> set_bytes n d c mem = (\<lambda>a. if unat (a - d) < n then c else mem a)"
proof (induction n arbitrary: d mem)
  case (Suc n)
  have "set_bytes (Suc n) d c mem a = (if unat (a - d) < Suc n then c else mem a)" for a
  proof (cases "a = d")
    case True
    then show ?thesis using Suc by simp
  next
    case False
    then have "0 < unat (a - d)" by (simp add: unat_gt_0)
    then show ?thesis using Suc False unat_diff_offset [of 1 a d] by (simp split: if_splits) linarith
  qed
  then show ?case by blast
qed simp

section \<open>Comparing strings\<close>

text \<open>A C string in memory: its bytes, none of them null, then a null byte.\<close>

fun string_at :: "bytes \<Rightarrow> u32 \<Rightarrow> u8 list \<Rightarrow> bool" where
  "string_at mem a [] = (mem a = 0)"
| "string_at mem a (c # cs) = (c \<noteq> 0 \<and> mem a = c \<and> string_at mem (a + 1) cs)"

lemmas strcmp_step = strcmp.simps

text \<open>The result on the strings themselves.\<close>

fun strcmp_spec :: "u8 list \<Rightarrow> u8 list \<Rightarrow> int" where
  "strcmp_spec [] [] = 0"
| "strcmp_spec [] (d # ds) = - uint d"
| "strcmp_spec (c # cs) [] = uint c"
| "strcmp_spec (c # cs) (d # ds) = (if c = d then strcmp_spec cs ds else uint c - uint d)"

lemma strcmp_eq_spec:
  "string_at mem a s \<Longrightarrow> string_at mem b t \<Longrightarrow> strcmp mem a b = Some (strcmp_spec s t)"
  by (induction s t arbitrary: a b rule: strcmp_spec.induct; subst strcmp_step) auto

lemma strcmp_spec_0: "0 \<notin> set s \<Longrightarrow> 0 \<notin> set t \<Longrightarrow> strcmp_spec s t = 0 \<longleftrightarrow> s = t"
  by (induction s t rule: strcmp_spec.induct) (auto simp: uint_0_iff dest: word_uint_eqI)

lemma uint_pos: "(d :: u8) \<noteq> 0 \<Longrightarrow> 0 < uint d"
  using uint_ge_0 [of d] uint_0_iff [of d] by linarith

lemma strcmp_spec_neg:
  "0 \<notin> set s \<Longrightarrow> 0 \<notin> set t \<Longrightarrow> strcmp_spec s t < 0 \<longleftrightarrow> (s, t) \<in> lexord {(c, d). c < d}"
  by (induction s t rule: strcmp_spec.induct) (auto simp: word_less_def uint_pos)

lemma string_at_no_null: "string_at mem a s \<Longrightarrow> 0 \<notin> set s"
  by (induction s arbitrary: a) auto

text \<open>
  C28: On two C strings the loop of \<open>strcmp\<close> ends; the result is 0 exactly for equal strings and
  negative exactly when the first string comes before the second in the order of unsigned bytes.
\<close>

theorem strcmp_terminates:
  assumes "string_at mem a s" "string_at mem b t"
  shows "\<exists>r. strcmp mem a b = Some r \<and> (r = 0 \<longleftrightarrow> s = t) \<and> (r < 0 \<longleftrightarrow> (s, t) \<in> lexord {(c, d). c < d})"
  using strcmp_eq_spec [OF assms] strcmp_spec_0 strcmp_spec_neg assms [THEN string_at_no_null] by blast

theorem strcmp_terminates_witness:
  "\<exists>r. strcmp ((\<lambda>_. 0)(0x1000 := 97, 0x1001 := 98, 0x2000 := 97, 0x2001 := 200)) 0x1000 0x2000 = Some r \<and> r < 0"
proof -
  let ?m = "(\<lambda>_. 0)(0x1000 := 97, 0x1001 := 98, 0x2000 := 97, 0x2001 := 200) :: bytes"
  have "string_at ?m 0x1000 [97, 98]" "string_at ?m 0x2000 [97, 200]" by simp_all
  then show ?thesis using strcmp_terminates [of ?m "0x1000" "[97, 98]" "0x2000" "[97, 200]"] by auto
qed

end
