(* ===== verification/Sync.thy ===== *)
theory Sync
  imports Prelude
begin

text \<open>
  Spinlocks and semaphores: \<open>kern/arch/i386/sync.c\<close>, \<open>kern/arch/mips/sync.c\<close> and
  \<open>kern/arch/armv7a/sync.c\<close>, as relations of single instructions of any number of processors on
  one lock. The load-linked and store-conditional pairs of MIPS and ARM work on a set of
  reservations: a store clears all of them, a store-conditional succeeds only with a
  reservation and may fail with one. Memory is sequentially consistent; the barriers of the
  code, which establish that on the hardware, have no counterpart here.
\<close>

section \<open>State\<close>

definition UNLOCKED :: u32 where "UNLOCKED = 0"
definition LOCKED :: u32 where "LOCKED = 1"

text \<open>
  Where a processor is: outside, in the loop of \<open>spin_lock\<close>, in the loop with a loaded value,
  behind \<open>spin_lock\<close>, in the loop of \<open>spin_unlock\<close> or between its test and its store, and in the
  panic of the ARM \<open>spin_unlock\<close>, which it never leaves.
\<close>

datatype lpc = Out | Spin | Linked u32 | In | Leave | LeaveLinked u32 | Panicked

record lock_sys =
  lk_word :: u32
  lk_pc :: "nat \<Rightarrow> lpc"
  lk_res :: "nat set"

definition at_pc :: "nat \<Rightarrow> lpc \<Rightarrow> lock_sys \<Rightarrow> lock_sys" where
  "at_pc c p s = s\<lparr>lk_pc := (lk_pc s)(c := p)\<rparr>"

definition store_word :: "u32 \<Rightarrow> lock_sys \<Rightarrow> lock_sys" where
  "store_word v s = s\<lparr>lk_word := v, lk_res := {}\<rparr>"

definition link_word :: "nat \<Rightarrow> lock_sys \<Rightarrow> lock_sys" where
  "link_word c s = s\<lparr>lk_res := insert c (lk_res s)\<rparr>"

definition unlink_word :: "nat \<Rightarrow> lock_sys \<Rightarrow> lock_sys" where
  "unlink_word c s = s\<lparr>lk_res := lk_res s - {c}\<rparr>"

definition spinlock_init :: lock_sys where
  "spinlock_init = \<lparr>lk_word = UNLOCKED, lk_pc = (\<lambda>_. Out), lk_res = {}\<rparr>"

section \<open>Steps\<close>

inductive i386_lock_step :: "nat \<Rightarrow> lock_sys \<Rightarrow> lock_sys \<Rightarrow> bool" where
  call: "lk_pc s c = Out \<Longrightarrow> i386_lock_step c s (at_pc c Spin s)"
| xchg_fail: "lk_pc s c = Spin \<Longrightarrow> lk_word s \<noteq> 0 \<Longrightarrow> i386_lock_step c s (store_word LOCKED s)"
| xchg_ok: "lk_pc s c = Spin \<Longrightarrow> lk_word s = 0 \<Longrightarrow> i386_lock_step c s (at_pc c In (store_word LOCKED s))"
| unlock: "lk_pc s c = In \<Longrightarrow> i386_lock_step c s (at_pc c Out (store_word UNLOCKED s))"

inductive mips_lock_step :: "nat \<Rightarrow> lock_sys \<Rightarrow> lock_sys \<Rightarrow> bool" where
  call: "lk_pc s c = Out \<Longrightarrow> mips_lock_step c s (at_pc c Spin s)"
| ll: "lk_pc s c = Spin \<Longrightarrow> mips_lock_step c s (at_pc c (Linked (lk_word s)) (link_word c s))"
| sc_busy: "lk_pc s c = Linked v \<Longrightarrow> v \<noteq> 0 \<Longrightarrow> c \<in> lk_res s \<Longrightarrow> mips_lock_step c s (at_pc c Spin (store_word v s))"
| sc_ok: "lk_pc s c = Linked v \<Longrightarrow> v = 0 \<Longrightarrow> c \<in> lk_res s \<Longrightarrow> mips_lock_step c s (at_pc c In (store_word (v OR 1) s))"
| sc_fail: "lk_pc s c = Linked v \<Longrightarrow> mips_lock_step c s (at_pc c Spin (unlink_word c s))"
| unlock: "lk_pc s c = In \<Longrightarrow> mips_lock_step c s (at_pc c Leave s)"
| unlock_ll: "lk_pc s c = Leave \<Longrightarrow> mips_lock_step c s (at_pc c (LeaveLinked (lk_word s)) (link_word c s))"
| unlock_sc_ok: "lk_pc s c = LeaveLinked v \<Longrightarrow> c \<in> lk_res s \<Longrightarrow> mips_lock_step c s (at_pc c Out (store_word (v AND NOT 1) s))"
| unlock_sc_fail: "lk_pc s c = LeaveLinked v \<Longrightarrow> mips_lock_step c s (at_pc c Leave (unlink_word c s))"

text \<open>
  On ARM the result of the store-conditional is an operand that the assembly only writes, and
  the store is skipped when the value loaded is not \<open>UNLOCKED\<close>. Then the loop tests a register
  that nothing has written, since the value of \<open>ret\<close> before the assembly need not be in it. The
  argument \<open>stale\<close> holds the values that this register can have: with any of them but
  \<open>ARM_STREX_SUCCESS\<close> the loop goes on, with that one \<open>spin_lock\<close> returns. The test and the store
  of \<open>spin_unlock\<close> are two steps.
\<close>

definition ARM_STREX_SUCCESS :: u32 where "ARM_STREX_SUCCESS = 0"

inductive arm_lock_step :: "u32 set \<Rightarrow> nat \<Rightarrow> lock_sys \<Rightarrow> lock_sys \<Rightarrow> bool" for stale where
  call: "lk_pc s c = Out \<Longrightarrow> arm_lock_step stale c s (at_pc c Spin s)"
| ldrex: "lk_pc s c = Spin \<Longrightarrow> arm_lock_step stale c s (at_pc c (Linked (lk_word s)) (link_word c s))"
| wfe_again: "lk_pc s c = Linked v \<Longrightarrow> v \<noteq> UNLOCKED \<Longrightarrow> ret \<in> stale \<Longrightarrow> ret \<noteq> ARM_STREX_SUCCESS \<Longrightarrow>
    arm_lock_step stale c s (at_pc c Spin s)"
| wfe_return: "lk_pc s c = Linked v \<Longrightarrow> v \<noteq> UNLOCKED \<Longrightarrow> ret \<in> stale \<Longrightarrow> ret = ARM_STREX_SUCCESS \<Longrightarrow>
    arm_lock_step stale c s (at_pc c In s)"
| strex_ok: "lk_pc s c = Linked v \<Longrightarrow> v = UNLOCKED \<Longrightarrow> c \<in> lk_res s \<Longrightarrow>
    arm_lock_step stale c s (at_pc c In (store_word LOCKED s))"
| strex_fail: "lk_pc s c = Linked v \<Longrightarrow> v = UNLOCKED \<Longrightarrow> arm_lock_step stale c s (at_pc c Spin (unlink_word c s))"
| unlock_test: "lk_pc s c = In \<Longrightarrow> lk_word s \<noteq> UNLOCKED \<Longrightarrow> arm_lock_step stale c s (at_pc c Leave s)"
| unlock_panic: "lk_pc s c = In \<Longrightarrow> lk_word s = UNLOCKED \<Longrightarrow> arm_lock_step stale c s (at_pc c Panicked s)"
| unlock_store: "lk_pc s c = Leave \<Longrightarrow> arm_lock_step stale c s (at_pc c Out (store_word UNLOCKED s))"

inductive_cases i386_lock_stepE: "i386_lock_step c s s'"
inductive_cases mips_lock_stepE: "mips_lock_step c s s'"
inductive_cases arm_lock_stepE: "arm_lock_step stale c s s'"

inductive lock_reach :: "(nat \<Rightarrow> lock_sys \<Rightarrow> lock_sys \<Rightarrow> bool) \<Rightarrow> lock_sys \<Rightarrow> bool" for step where
  start: "lock_reach step spinlock_init"
| run: "lock_reach step s \<Longrightarrow> step c s s' \<Longrightarrow> lock_reach step s'"

section \<open>Mutual exclusion\<close>

fun holds :: "lpc \<Rightarrow> bool" where
  "holds In = True"
| "holds Leave = True"
| "holds (LeaveLinked v) = True"
| "holds _ = False"

fun linked_value :: "lpc \<Rightarrow> u32 option" where
  "linked_value (Linked v) = Some v"
| "linked_value (LeaveLinked v) = Some v"
| "linked_value _ = None"

text \<open>
  A lock is held by one processor and then its word is 1, or by none and then it is 0; a
  processor with a reservation has loaded the present word, and no processor is in the panic.
\<close>

definition lock_inv :: "lock_sys \<Rightarrow> bool" where
  "lock_inv s \<longleftrightarrow> (lk_word s = 0 \<and> (\<forall>c. \<not> holds (lk_pc s c)) \<or> lk_word s = 1 \<and> (\<exists>h. \<forall>c. holds (lk_pc s c) \<longleftrightarrow> c = h)) \<and>
     (\<forall>c v. c \<in> lk_res s \<longrightarrow> linked_value (lk_pc s c) = Some v \<longrightarrow> v = lk_word s) \<and> (\<forall>c. lk_pc s c \<noteq> Panicked)"

text \<open>What the users of a lock rely on: every step of the implementation keeps the invariant.\<close>

locale spinlock =
  fixes step :: "nat \<Rightarrow> lock_sys \<Rightarrow> lock_sys \<Rightarrow> bool"
  assumes step_inv: "lock_inv s \<Longrightarrow> step c s s' \<Longrightarrow> lock_inv s'"
begin

lemma reach_inv: "lock_reach step s \<Longrightarrow> lock_inv s"
proof (induction rule: lock_reach.induct)
  case start
  then show ?case by (simp add: lock_inv_def spinlock_init_def UNLOCKED_def)
next
  case (run s c s')
  then show ?case using step_inv by blast
qed

lemma exclusive:
  assumes "lock_reach step s"
  shows "(lk_word s = 0 \<longleftrightarrow> (\<forall>c. \<not> holds (lk_pc s c))) \<and> (\<forall>c d. holds (lk_pc s c) \<and> holds (lk_pc s d) \<longrightarrow> c = d) \<and>
    (\<forall>c. lk_pc s c \<noteq> Panicked)"
  using reach_inv [OF assms] unfolding lock_inv_def by auto

end

lemmas lock_defs = at_pc_def store_word_def link_word_def unlink_word_def UNLOCKED_def LOCKED_def

lemma inv_move:
  assumes "lock_inv s" and "holds p = holds (lk_pc s c)" and "linked_value p \<in> {None, Some (lk_word s)}" and "p \<noteq> Panicked" and "R \<subseteq> insert c (lk_res s)"
  shows "lock_inv (s\<lparr>lk_res := R, lk_pc := (lk_pc s)(c := p)\<rparr>)"
proof -
  have "holds (((lk_pc s)(c := p)) d) = holds (lk_pc s d)" for d using assms(2) by simp
  then show ?thesis using assms(1,3-5) unfolding lock_inv_def by auto
qed

lemma inv_take:
  assumes "lock_inv s" and "lk_word s = 0"
  shows "lock_inv (at_pc c In (store_word 1 s))"
  using assms unfolding lock_inv_def by (auto simp: lock_defs intro!: exI [of _ c])

lemma inv_release:
  assumes "lock_inv s" and "holds (lk_pc s c)"
  shows "lock_inv (at_pc c Out (store_word 0 s))"
  using assms unfolding lock_inv_def by (auto simp: lock_defs)

lemma inv_same:
  assumes "lock_inv s" and "\<not> holds (lk_pc s c)"
  shows "lock_inv (at_pc c Spin (store_word (lk_word s) s))"
proof -
  have "holds (((lk_pc s)(c := Spin)) d) = holds (lk_pc s d)" for d using assms(2) by simp
  then show ?thesis using assms(1) unfolding lock_inv_def by (simp add: lock_defs)
qed

lemma inv_word: "lock_inv s \<Longrightarrow> lk_word s \<noteq> 0 \<Longrightarrow> lk_word s = 1"
  by (auto simp: lock_inv_def)

lemma inv_held: "lock_inv s \<Longrightarrow> holds (lk_pc s c) \<Longrightarrow> lk_word s = 1"
  by (auto simp: lock_inv_def)

lemma inv_link: "lock_inv s \<Longrightarrow> c \<in> lk_res s \<Longrightarrow> linked_value (lk_pc s c) = Some v \<Longrightarrow> v = lk_word s"
  by (auto simp: lock_inv_def)

lemma inv_moves:
  assumes "lock_inv s" and "holds p = holds (lk_pc s c)" and "linked_value p = None" and "p \<noteq> Panicked"
  shows "lock_inv (at_pc c p s)" "lock_inv (at_pc c p (unlink_word c s))"
  using inv_move [OF assms(1,2), of "lk_res s"] inv_move [OF assms(1,2), of "lk_res s - {c}"] assms(3,4)
  by (auto simp: lock_defs)

lemma inv_load:
  assumes "lock_inv s" and "holds p = holds (lk_pc s c)" and "linked_value p = Some (lk_word s)" and "p \<noteq> Panicked"
  shows "lock_inv (at_pc c p (link_word c s))"
  using inv_move [OF assms(1,2), of "insert c (lk_res s)"] assms(3,4) by (auto simp: lock_defs)

interpretation i386_lock: spinlock i386_lock_step
proof
  fix s c s' assume i: "lock_inv s" and step: "i386_lock_step c s s'"
  from step show "lock_inv s'"
  proof (cases rule: i386_lock_step.cases)
    case xchg_fail
    have "s' = at_pc c Spin (store_word (lk_word s) s)"
      using xchg_fail inv_word [OF i] by (simp add: lock_defs fun_upd_idem)
    then show ?thesis using inv_same [OF i, of c] xchg_fail by simp
  next
    case xchg_ok
    then show ?thesis using inv_take [OF i] by (simp add: LOCKED_def)
  next
    case unlock
    then show ?thesis using inv_release [OF i, of c] by (simp add: UNLOCKED_def)
  qed (use inv_moves [OF i] in simp)
qed

interpretation arm_lock: spinlock "arm_lock_step (stale - {ARM_STREX_SUCCESS})" for stale
proof
  fix s c s' assume i: "lock_inv s" and step: "arm_lock_step (stale - {ARM_STREX_SUCCESS}) c s s'"
  from step show "lock_inv s'"
  proof (cases rule: arm_lock_step.cases)
    case ldrex
    then show ?thesis using inv_load [OF i] by simp
  next
    case (strex_ok v)
    then have "lk_word s = 0" using inv_link [OF i, of c] by (simp add: UNLOCKED_def)
    then show ?thesis using inv_take [OF i] strex_ok by (simp add: LOCKED_def)
  next
    case unlock_store
    then show ?thesis using inv_release [OF i, of c] by (simp add: UNLOCKED_def)
  next
    case unlock_panic
    then show ?thesis using inv_held [OF i, of c] by (simp add: UNLOCKED_def)
  qed (use inv_moves [OF i] in simp_all)
qed

interpretation mips_lock: spinlock mips_lock_step
proof
  fix s c s' assume i: "lock_inv s" and step: "mips_lock_step c s s'"
  from step show "lock_inv s'"
  proof (cases rule: mips_lock_step.cases)
    case ll
    then show ?thesis using inv_load [OF i] by simp
  next
    case (sc_busy v)
    then have "v = lk_word s" using inv_link [OF i, of c] by simp
    then show ?thesis using inv_same [OF i, of c] sc_busy by simp
  next
    case (sc_ok v)
    then have "lk_word s = 0" using inv_link [OF i, of c] by simp
    then show ?thesis using inv_take [OF i] sc_ok by simp
  next
    case unlock_ll
    then show ?thesis using inv_load [OF i] by simp
  next
    case (unlock_sc_ok v)
    then have "v = 1" using inv_link [OF i, of c] inv_held [OF i, of c] by simp
    then show ?thesis using inv_release [OF i, of c] unlock_sc_ok by simp
  qed (use inv_moves [OF i] in simp_all)
qed

section \<open>Semaphores of ARM\<close>

text \<open>Where a processor is in \<open>semaphore_dec\<close> and \<open>semaphore_inc\<close>; the value loaded is already changed.\<close>

text \<open>
  In \<open>semaphore_dec\<close> the store-conditional is skipped for a negative value, and the loop tests
  the same kind of unwritten register; in \<open>semaphore_inc\<close> one of the two instructions writes it.
\<close>

datatype spc = SOut | SDec | SDecLinked u32 | SIn | SInc | SIncLinked u32 | SPanic

record sem_sys =
  sem_val :: u32
  sem_limit :: u32
  sem_pc :: "nat \<Rightarrow> spc"
  sem_res :: "nat set"

definition semaphore_init :: "u32 \<Rightarrow> sem_sys" where
  "semaphore_init val = \<lparr>sem_val = val, sem_limit = val, sem_pc = (\<lambda>_. SOut), sem_res = {}\<rparr>"

inductive sem_step :: "u32 set \<Rightarrow> nat \<Rightarrow> sem_sys \<Rightarrow> sem_sys \<Rightarrow> bool" for stale where
  dec: "sem_pc s c = SOut \<Longrightarrow> sem_step stale c s (s\<lparr>sem_pc := (sem_pc s)(c := SDec)\<rparr>)"
| dec_ldrex: "sem_pc s c = SDec \<Longrightarrow>
    sem_step stale c s (s\<lparr>sem_pc := (sem_pc s)(c := SDecLinked (sem_val s - 1)), sem_res := insert c (sem_res s)\<rparr>)"
| dec_wfe: "sem_pc s c = SDecLinked v \<Longrightarrow> sint v < 0 \<Longrightarrow> ret \<in> stale \<Longrightarrow> ret \<noteq> ARM_STREX_SUCCESS \<Longrightarrow>
    sem_step stale c s (s\<lparr>sem_pc := (sem_pc s)(c := SDec)\<rparr>)"
| dec_wfe_return: "sem_pc s c = SDecLinked v \<Longrightarrow> sint v < 0 \<Longrightarrow> ret \<in> stale \<Longrightarrow> ret = ARM_STREX_SUCCESS \<Longrightarrow>
    sem_step stale c s (s\<lparr>sem_pc := (sem_pc s)(c := SIn)\<rparr>)"
| dec_ok: "sem_pc s c = SDecLinked v \<Longrightarrow> 0 \<le> sint v \<Longrightarrow> c \<in> sem_res s \<Longrightarrow>
    sem_step stale c s (s\<lparr>sem_val := v, sem_pc := (sem_pc s)(c := SIn), sem_res := {}\<rparr>)"
| dec_fail: "sem_pc s c = SDecLinked v \<Longrightarrow> 0 \<le> sint v \<Longrightarrow>
    sem_step stale c s (s\<lparr>sem_pc := (sem_pc s)(c := SDec), sem_res := sem_res s - {c}\<rparr>)"
| inc: "sem_pc s c = SIn \<Longrightarrow> sem_step stale c s (s\<lparr>sem_pc := (sem_pc s)(c := SInc)\<rparr>)"
| inc_ldrex: "sem_pc s c = SInc \<Longrightarrow>
    sem_step stale c s (s\<lparr>sem_pc := (sem_pc s)(c := SIncLinked (sem_val s + 1)), sem_res := insert c (sem_res s)\<rparr>)"
| inc_corrupt: "sem_pc s c = SIncLinked v \<Longrightarrow> sint (sem_limit s) < sint v \<Longrightarrow> sem_step stale c s (s\<lparr>sem_pc := (sem_pc s)(c := SPanic)\<rparr>)"
| inc_ok: "sem_pc s c = SIncLinked v \<Longrightarrow> sint v \<le> sint (sem_limit s) \<Longrightarrow> c \<in> sem_res s \<Longrightarrow>
    sem_step stale c s (s\<lparr>sem_val := v, sem_pc := (sem_pc s)(c := SOut), sem_res := {}\<rparr>)"
| inc_fail: "sem_pc s c = SIncLinked v \<Longrightarrow> sint v \<le> sint (sem_limit s) \<Longrightarrow>
    sem_step stale c s (s\<lparr>sem_pc := (sem_pc s)(c := SInc), sem_res := sem_res s - {c}\<rparr>)"

inductive sem_reach :: "u32 set \<Rightarrow> u32 \<Rightarrow> sem_sys \<Rightarrow> bool" for stale n where
  start: "sem_reach stale n (semaphore_init n)"
| run: "sem_reach stale n s \<Longrightarrow> sem_step stale c s s' \<Longrightarrow> sem_reach stale n s'"

fun sem_holds :: "spc \<Rightarrow> bool" where
  "sem_holds SIn = True"
| "sem_holds SInc = True"
| "sem_holds (SIncLinked v) = True"
| "sem_holds _ = False"

definition sem_holders :: "sem_sys \<Rightarrow> nat set" where
  "sem_holders s = {c. sem_holds (sem_pc s c)}"

definition sem_inv :: "u32 \<Rightarrow> sem_sys \<Rightarrow> bool" where
  "sem_inv n s \<longleftrightarrow> sem_limit s = n \<and> finite (sem_holders s) \<and> sint (sem_val s) + int (card (sem_holders s)) = sint n \<and>
     0 \<le> sint (sem_val s) \<and> (\<forall>c. sem_pc s c \<noteq> SPanic) \<and>
     (\<forall>c v. sem_pc s c = SIncLinked v \<longrightarrow> sint v \<le> sint n \<and> (c \<in> sem_res s \<longrightarrow> v = sem_val s + 1)) \<and>
     (\<forall>c v. sem_pc s c = SDecLinked v \<longrightarrow> c \<in> sem_res s \<longrightarrow> v = sem_val s - 1)"

lemma sint_bounds: "sint (v :: u32) < 2 ^ 31" "- (2 ^ 31) \<le> sint v"
  using sint_lt [of v] sint_ge [of v] by simp_all

lemma sint_add_one:
  assumes "sint (v :: u32) < sint (n :: u32)"
  shows "sint (v + 1) = sint v + 1"
proof -
  have "sint (v + 1) = signed_take_bit 31 (sint v + 1)" by (simp add: sint_word_ariths)
  also have "\<dots> = sint v + 1"
    using assms sint_bounds [of v] sint_bounds [of n] by (intro signed_take_bit_int_eq_self) simp_all
  finally show ?thesis .
qed

lemma sint_sub_one:
  assumes "0 \<le> sint (v :: u32)"
  shows "sint (v - 1) = sint v - 1"
proof -
  have "sint (v - 1) = signed_take_bit 31 (sint v - 1)" by (simp add: sint_word_ariths)
  also have "\<dots> = sint v - 1"
    using assms sint_bounds [of v] by (intro signed_take_bit_int_eq_self) simp_all
  finally show ?thesis .
qed

lemma holders_update:
  "sem_holders (s\<lparr>sem_pc := (sem_pc s)(c := p)\<rparr>) = (if sem_holds p then insert c (sem_holders s) else sem_holders s - {c})"
  by (auto simp: sem_holders_def)

lemma holders_other [simp]: "sem_holders (s\<lparr>sem_res := R\<rparr>) = sem_holders s" "sem_holders (s\<lparr>sem_val := v\<rparr>) = sem_holders s"
  by (simp_all add: sem_holders_def)

lemma holders_same:
  assumes "sem_holds p = sem_holds (sem_pc s c)"
  shows "sem_holders (s\<lparr>sem_pc := (sem_pc s)(c := p)\<rparr>) = sem_holders s"
  using assms by (auto simp: holders_update sem_holders_def)

text \<open>A step that neither takes nor releases: the processor moves and the reservations lose others or gain it.\<close>

lemma sem_move:
  assumes "sem_inv n s" and "sem_holds p = sem_holds (sem_pc s c)" and "p \<noteq> SPanic"
    and "\<And>v. p = SIncLinked v \<Longrightarrow> sint v \<le> sint n \<and> v = sem_val s + 1" and "\<And>v. p = SDecLinked v \<Longrightarrow> v = sem_val s - 1"
    and "R \<subseteq> insert c (sem_res s)"
  shows "sem_inv n (s\<lparr>sem_pc := (sem_pc s)(c := p), sem_res := R\<rparr>)"
proof -
  have h: "sem_holders (s\<lparr>sem_pc := (sem_pc s)(c := p), sem_res := R\<rparr>) = sem_holders s"
    using holders_same [OF assms(2)] by (simp add: sem_holders_def)
  show ?thesis using assms(1,3-6) unfolding sem_inv_def h by auto
qed

lemma sem_store:
  assumes "sem_inv n s" and "p = SIn \<or> p = SOut" and "0 \<le> sint v"
    and "finite (sem_holders (s\<lparr>sem_val := v, sem_pc := (sem_pc s)(c := p), sem_res := {}\<rparr>))"
    and "sint v + int (card (sem_holders (s\<lparr>sem_val := v, sem_pc := (sem_pc s)(c := p), sem_res := {}\<rparr>))) = sint n"
  shows "sem_inv n (s\<lparr>sem_val := v, sem_pc := (sem_pc s)(c := p), sem_res := {}\<rparr>)"
  using assms(1,2) unfolding sem_inv_def using assms(3-5) by (simp, blast)

lemma sem_step_inv:
  assumes i: "sem_inv n s" and step: "sem_step stale c s s'" and ret: "ARM_STREX_SUCCESS \<notin> stale"
  shows "sem_inv n s'"
  using step
proof (cases rule: sem_step.cases)
  case dec
  then show ?thesis using sem_move [OF i, of SDec c "sem_res s"] by (simp add: subset_insertI)
next
  case dec_ldrex
  then show ?thesis using sem_move [OF i, of "SDecLinked (sem_val s - 1)" c "insert c (sem_res s)"] by simp
next
  case (dec_wfe v)
  then show ?thesis using sem_move [OF i, of SDec c "sem_res s"] by (simp add: subset_insertI)
next
  case dec_wfe_return
  then show ?thesis using ret by blast
next
  case (dec_ok v)
  have v: "v = sem_val s - 1" using i dec_ok(2,4) unfolding sem_inv_def by blast
  have n: "finite (sem_holders s)" "sint (sem_val s) + int (card (sem_holders s)) = sint n" "0 \<le> sint (sem_val s)"
    using i unfolding sem_inv_def by blast+
  have h: "c \<notin> sem_holders s" "sem_holders s' = insert c (sem_holders s)"
    using dec_ok(1,2) by (auto simp: sem_holders_def)
  have "sint v + int (card (sem_holders s')) = sint n" using n v h sint_sub_one [OF n(3)] by simp
  then show ?thesis using sem_store [OF i, of SIn v c] dec_ok(1,3) n(1) h(2) by simp
next
  case (dec_fail v)
  then show ?thesis using sem_move [OF i, of SDec c "sem_res s - {c}"] by (simp add: subset_insertI2)
next
  case inc
  then show ?thesis using sem_move [OF i, of SInc c "sem_res s"] by (simp add: subset_insertI)
next
  case inc_ldrex
  have n: "finite (sem_holders s)" "sint (sem_val s) + int (card (sem_holders s)) = sint n" using i unfolding sem_inv_def by blast+
  have "c \<in> sem_holders s" using inc_ldrex(2) by (simp add: sem_holders_def)
  then have "0 < card (sem_holders s)" using n(1) by (auto simp: card_gt_0_iff)
  then have "sint (sem_val s) < sint n" using n(2) by simp
  then have "sint (sem_val s + 1) \<le> sint n" using sint_add_one [of "sem_val s" n] by simp
  then show ?thesis using inc_ldrex sem_move [OF i, of "SIncLinked (sem_val s + 1)" c "insert c (sem_res s)"] by simp
next
  case (inc_corrupt v)
  have "sint v \<le> sint n" "sem_limit s = n" using i inc_corrupt(2) unfolding sem_inv_def by blast+
  then show ?thesis using inc_corrupt(3) by simp
next
  case (inc_ok v)
  have v: "v = sem_val s + 1" using i inc_ok(2,4) unfolding sem_inv_def by blast
  have n: "finite (sem_holders s)" "sint (sem_val s) + int (card (sem_holders s)) = sint n" "0 \<le> sint (sem_val s)"
    using i unfolding sem_inv_def by blast+
  have h: "c \<in> sem_holders s" "sem_holders s' = sem_holders s - {c}" using inc_ok(1,2) by (auto simp: sem_holders_def)
  have k: "card (sem_holders s) = Suc (card (sem_holders s - {c}))" using card.remove [OF n(1) h(1)] .
  have e: "sint v = sint (sem_val s) + 1" unfolding v by (rule sint_add_one [of _ n]) (use n(2) k in simp)
  have "sint v + int (card (sem_holders s')) = sint n" using n(2) e k h(2) by simp
  then show ?thesis using sem_store [OF i, of SOut v c] inc_ok(1) n(1,3) e h(2) by simp
next
  case (inc_fail v)
  then show ?thesis using sem_move [OF i, of SInc c "sem_res s - {c}"] by (simp add: subset_insertI2)
qed

section \<open>Properties\<close>

text \<open>The second processor of ARM that finds the lock held and a register with \<open>ARM_STREX_SUCCESS\<close>.\<close>

definition arm_intruder :: lock_sys where
  "arm_intruder = at_pc 1 In (at_pc 1 (Linked LOCKED) (link_word 1 (at_pc 1 Spin
     (at_pc 0 In (store_word LOCKED (at_pc 0 (Linked UNLOCKED) (link_word 0 (at_pc 0 Spin spinlock_init))))))))"

lemma arm_intruder_reach:
  assumes "ARM_STREX_SUCCESS \<in> stale"
  shows "lock_reach (arm_lock_step stale) arm_intruder"
proof -
  let ?step = "arm_lock_step stale"
  define s1 where "s1 = at_pc 0 Spin spinlock_init"
  define s2 where "s2 = at_pc 0 (Linked (lk_word s1)) (link_word 0 s1)"
  define s3 where "s3 = at_pc 0 In (store_word LOCKED s2)"
  define s4 where "s4 = at_pc 1 Spin s3"
  define s5 where "s5 = at_pc 1 (Linked (lk_word s4)) (link_word 1 s4)"
  note at = s1_def s2_def s3_def s4_def s5_def spinlock_init_def lock_defs
  have "lock_reach ?step spinlock_init" by (rule lock_reach.start)
  moreover have "?step 0 spinlock_init s1" unfolding s1_def by (rule arm_lock_step.call) (simp add: at)
  ultimately have "lock_reach ?step s1" by (rule lock_reach.run)
  moreover have "?step 0 s1 s2" unfolding s2_def by (rule arm_lock_step.ldrex) (simp add: at)
  ultimately have "lock_reach ?step s2" by (rule lock_reach.run)
  moreover have "?step 0 s2 s3" unfolding s3_def by (rule arm_lock_step.strex_ok [where v = UNLOCKED]) (simp_all add: at)
  ultimately have "lock_reach ?step s3" by (rule lock_reach.run)
  moreover have "?step 1 s3 s4" unfolding s4_def by (rule arm_lock_step.call) (simp add: at)
  ultimately have "lock_reach ?step s4" by (rule lock_reach.run)
  moreover have "?step 1 s4 s5" unfolding s5_def by (rule arm_lock_step.ldrex) (simp add: at)
  ultimately have "lock_reach ?step s5" by (rule lock_reach.run)
  moreover have "?step 1 s5 (at_pc 1 In s5)"
    by (rule arm_lock_step.wfe_return [where v = LOCKED, OF _ _ assms]) (simp_all add: at)
  ultimately have "lock_reach ?step (at_pc 1 In s5)" by (rule lock_reach.run)
  moreover have "at_pc 1 In s5 = arm_intruder" by (simp add: arm_intruder_def at)
  ultimately show ?thesis by simp
qed

lemma arm_lock_exclusive:
  assumes "ARM_STREX_SUCCESS \<notin> stale" and "lock_reach (arm_lock_step stale) s"
  shows "(lk_word s = 0 \<longleftrightarrow> (\<forall>c. \<not> holds (lk_pc s c))) \<and> (\<forall>c d. holds (lk_pc s c) \<and> holds (lk_pc s d) \<longrightarrow> c = d) \<and>
    (\<forall>c. lk_pc s c \<noteq> Panicked)"
  using arm_lock.exclusive [of stale s] assms by simp

text \<open>
  C32: On i386 and MIPS, and on ARM as long as the register that \<open>spin_lock\<close> tests after a skipped
  store-conditional does not hold \<open>ARM_STREX_SUCCESS\<close>, any number of processors keeps at most one
  between \<open>spin_lock\<close> and the end of \<open>spin_unlock\<close>; the lock word is 0 exactly when none is, and no
  processor reaches the panic of the ARM \<open>spin_unlock\<close>. That condition is needed: on ARM with
  \<open>ARM_STREX_SUCCESS\<close> in that register two processors are behind \<open>spin_lock\<close> at once.
\<close>

theorem spinlock_exclusive:
  "(lock_reach i386_lock_step s \<or> lock_reach mips_lock_step s \<or>
      ARM_STREX_SUCCESS \<notin> stale \<and> lock_reach (arm_lock_step stale) s \<longrightarrow>
    (lk_word s = 0 \<longleftrightarrow> (\<forall>c. \<not> holds (lk_pc s c))) \<and> (\<forall>c d. holds (lk_pc s c) \<and> holds (lk_pc s d) \<longrightarrow> c = d) \<and>
    (\<forall>c. lk_pc s c \<noteq> Panicked)) \<and>
   (ARM_STREX_SUCCESS \<in> stale \<longrightarrow>
    (\<exists>t. lock_reach (arm_lock_step stale) t \<and> lk_pc t 0 = In \<and> lk_pc t 1 = In))"
proof (intro conjI impI)
  assume "lock_reach i386_lock_step s \<or> lock_reach mips_lock_step s \<or>
    ARM_STREX_SUCCESS \<notin> stale \<and> lock_reach (arm_lock_step stale) s"
  then have *: "(lk_word s = 0 \<longleftrightarrow> (\<forall>c. \<not> holds (lk_pc s c))) \<and> (\<forall>c d. holds (lk_pc s c) \<and> holds (lk_pc s d) \<longrightarrow> c = d) \<and>
      (\<forall>c. lk_pc s c \<noteq> Panicked)"
    using i386_lock.exclusive mips_lock.exclusive arm_lock_exclusive by blast
  then show "lk_word s = 0 \<longleftrightarrow> (\<forall>c. \<not> holds (lk_pc s c))" by blast
  from * show "\<forall>c d. holds (lk_pc s c) \<and> holds (lk_pc s d) \<longrightarrow> c = d" by blast
  from * show "\<forall>c. lk_pc s c \<noteq> Panicked" by blast
next
  assume "ARM_STREX_SUCCESS \<in> stale"
  then show "\<exists>t. lock_reach (arm_lock_step stale) t \<and> lk_pc t 0 = In \<and> lk_pc t 1 = In"
    using arm_intruder_reach by (intro exI [of _ arm_intruder]) (simp add: arm_intruder_def lock_defs)
qed

theorem spinlock_exclusive_witness:
  "(\<exists>s. lock_reach (arm_lock_step {1}) s \<and> holds (lk_pc s 0) \<and> \<not> holds (lk_pc s 1) \<and> lk_word s \<noteq> 0) \<and>
   (\<exists>t. lock_reach (arm_lock_step {0, 1}) t \<and> lk_pc t 0 = In \<and> lk_pc t 1 = In)"
proof (intro conjI)
  let ?s1 = "at_pc 0 Spin spinlock_init"
  let ?s2 = "at_pc 0 (Linked (lk_word ?s1)) (link_word 0 ?s1)"
  let ?s = "at_pc 0 In (store_word LOCKED ?s2)"
  have a: "arm_lock_step {1} 0 spinlock_init ?s1" by (rule arm_lock_step.call) (simp add: spinlock_init_def)
  have b: "arm_lock_step {1} 0 ?s1 ?s2" by (rule arm_lock_step.ldrex) (simp add: at_pc_def)
  have c: "arm_lock_step {1} 0 ?s2 ?s"
    by (rule arm_lock_step.strex_ok [where v = UNLOCKED]) (simp_all add: spinlock_init_def lock_defs)
  have r: "lock_reach (arm_lock_step {1}) ?s"
    by (rule lock_reach.run [OF lock_reach.run [OF lock_reach.run [of "arm_lock_step {1}", OF lock_reach.start a] b] c])
  have in0: "holds (lk_pc ?s 0)" by (simp add: at_pc_def)
  have "(lk_word ?s = 0 \<longleftrightarrow> (\<forall>c. \<not> holds (lk_pc ?s c))) \<and> (\<forall>c d. holds (lk_pc ?s c) \<and> holds (lk_pc ?s d) \<longrightarrow> c = d)"
    using spinlock_exclusive [of ?s "{1}"] r by (simp add: ARM_STREX_SUCCESS_def)
  then have "lk_word ?s \<noteq> 0" "\<not> holds (lk_pc ?s 1)" using in0 by (blast, metis zero_neq_one)
  then show "\<exists>s. lock_reach (arm_lock_step {1}) s \<and> holds (lk_pc s 0) \<and> \<not> holds (lk_pc s 1) \<and> lk_word s \<noteq> 0"
    using r in0 by blast
  show "\<exists>t. lock_reach (arm_lock_step {0, 1}) t \<and> lk_pc t 0 = In \<and> lk_pc t 1 = In"
    using spinlock_exclusive [of _ "{0, 1}"] by (simp add: ARM_STREX_SUCCESS_def)
qed

text \<open>
  A semaphore of ARM that starts with \<open>n\<close> admits at most \<open>n\<close> processors between
  \<open>semaphore_dec\<close> and the end of \<open>semaphore_inc\<close>; its value is what is left of \<open>n\<close>, and the check
  for corruption in \<open>semaphore_inc\<close> never panics, as long as the unwritten register of
  \<open>semaphore_dec\<close> does not hold \<open>ARM_STREX_SUCCESS\<close>.
\<close>

theorem semaphore_admits:
  assumes "sem_reach stale n s" and "ARM_STREX_SUCCESS \<notin> stale" and "0 \<le> sint n"
  shows "finite (sem_holders s) \<and> int (card (sem_holders s)) \<le> sint n \<and>
    sint (sem_val s) = sint n - int (card (sem_holders s)) \<and> (\<forall>c. sem_pc s c \<noteq> SPanic)"
proof -
  have "sem_inv n s" using assms(1)
  proof (induction rule: sem_reach.induct)
    case start
    then show ?case using assms(3) by (simp add: sem_inv_def semaphore_init_def sem_holders_def)
  next
    case (run s c s')
    then show ?case using sem_step_inv assms(2) by blast
  qed
  then show ?thesis by (auto simp: sem_inv_def)
qed

theorem semaphore_admits_witness:
  "\<exists>s. sem_reach {1} 2 s \<and> sem_pc s 0 = SDec \<and> int (card (sem_holders s)) \<le> 2"
proof -
  let ?s = "semaphore_init 2\<lparr>sem_pc := (sem_pc (semaphore_init 2))(0 := SDec)\<rparr>"
  have a: "sem_step {1} 0 (semaphore_init 2) ?s" by (rule sem_step.dec) (simp add: semaphore_init_def)
  have r: "sem_reach {1} 2 ?s" by (rule sem_reach.run [OF sem_reach.start a])
  then show ?thesis using semaphore_admits [OF r] by (intro exI [of _ ?s]) (simp add: ARM_STREX_SUCCESS_def)
qed

end
