(* ===== verification/DevList.thy ===== *)
theory DevList
  imports Kmem Libc Sync "HOL-Library.Product_Lexorder"
begin

text \<open>
  The device index: \<open>kern/dev/index/devlist.c\<close>, a list of entries sorted by the identifiers of
  the devices behind a spinlock, and \<open>kern/dev/index/index.c\<close>, the table of operations that
  starts with failing ones. Devices are structures in memory, given by a map from their
  addresses; their names are C strings in the byte memory of theory \<open>Libc\<close>. On one processor
  taking a lock that is held never ends.
\<close>

section \<open>Data\<close>

text \<open>The identifiers are \<open>int\<close>s; the operations of a device and its driver play no part here.\<close>

record device =
  dev_name :: u32
  id_major :: u32
  id_minor :: u32
  dev_bus :: u32
  dev_base :: addr_t

record device_entry =
  ent_addr :: u32
  ent_dev :: u32

type_synonym devices = "u32 \<Rightarrow> device"

record devlist =
  dl_head :: "device_entry list"
  dl_lock :: u32
  dl_kmem :: kmem

definition sizeof_device_entry :: u32 where "sizeof_device_entry = 12"

section \<open>Operations\<close>

definition lock_up :: "devlist \<Rightarrow> devlist outcome" where
  "lock_up st = (if dl_lock st \<noteq> 0 then Hang else Ret (st\<lparr>dl_lock := LOCKED\<rparr>))"

definition unlock :: "devlist \<Rightarrow> devlist" where
  "unlock st = st\<lparr>dl_lock := UNLOCKED\<rparr>"

definition cmp_dev :: "devices \<Rightarrow> device_entry \<Rightarrow> device_entry \<Rightarrow> int" where
  "cmp_dev devs a b =
     (let dev_a = devs (ent_dev a); dev_b = devs (ent_dev b)
      in if sint (id_major dev_a) > sint (id_major dev_b) then 1
         else if sint (id_major dev_a) < sint (id_major dev_b) then -1
         else if sint (id_minor dev_a) > sint (id_minor dev_b) then 1
         else if sint (id_minor dev_a) < sint (id_minor dev_b) then -1
         else 0)"

definition insert_entry :: "devices \<Rightarrow> device_entry \<Rightarrow> device_entry list \<Rightarrow> device_entry list" where
  "insert_entry devs this es =
     (let i = length (takeWhile (\<lambda>tmp. \<not> cmp_dev devs tmp this > 0) es)
      in take i es @ this # drop i es)"

definition devlist_add :: "kops \<Rightarrow> devices \<Rightarrow> u32 \<Rightarrow> devlist \<Rightarrow> (int \<times> devlist) outcome" where
  "devlist_add k devs dev st =
     obind (k_malloc k sizeof_device_entry 0 (dl_kmem st)) (\<lambda>(this, km).
       let st = st\<lparr>dl_kmem := km\<rparr>
       in if this = 0 then Ret (EOF, st)
          else obind (lock_up st) (\<lambda>st.
            Ret (0, unlock (st\<lparr>dl_head := insert_entry devs \<lparr>ent_addr = this, ent_dev = dev\<rparr> (dl_head st)\<rparr>))))"

text \<open>The scan of \<open>__remove\<close>: \<open>None\<close> when a device is connected, else the entry found, if any.\<close>

primrec remove_scan :: "devices \<Rightarrow> u32 \<Rightarrow> device_entry option \<Rightarrow> device_entry list \<Rightarrow> device_entry option option" where
  "remove_scan devs dev this [] = Some this"
| "remove_scan devs dev this (tmp # es) =
     (if dev_bus (devs (ent_dev tmp)) = dev then None
      else remove_scan devs dev (if ent_dev tmp = dev then Some tmp else this) es)"

definition devlist_remove :: "kops \<Rightarrow> devices \<Rightarrow> u32 \<Rightarrow> devlist \<Rightarrow> (int \<times> devlist) outcome" where
  "devlist_remove k devs dev st =
     obind (lock_up st) (\<lambda>st.
       case remove_scan devs dev None (dl_head st) of
         Some (Some this) \<Rightarrow>
           (let st = st\<lparr>dl_head := nl_del ent_addr (ent_addr this) (dl_head st)\<rparr>
            in obind (k_free k (ent_addr this) (dl_kmem st)) (\<lambda>km. Ret (0, unlock (st\<lparr>dl_kmem := km\<rparr>))))
       | _ \<Rightarrow> Ret (EOF, unlock st))"

definition devlist_from_id :: "devices \<Rightarrow> u32 \<Rightarrow> u32 \<Rightarrow> devlist \<Rightarrow> (u32 \<times> devlist) outcome" where
  "devlist_from_id devs major minor st =
     obind (lock_up st) (\<lambda>st.
       Ret (case find (\<lambda>tmp. id_major (devs (ent_dev tmp)) = major \<and> id_minor (devs (ent_dev tmp)) = minor) (dl_head st) of
              Some tmp \<Rightarrow> ent_dev tmp | None \<Rightarrow> 0, unlock st))"

primrec name_scan :: "bytes \<Rightarrow> devices \<Rightarrow> u32 \<Rightarrow> device_entry list \<Rightarrow> u32 outcome" where
  "name_scan mem devs name [] = Ret 0"
| "name_scan mem devs name (tmp # es) =
     (case strcmp mem (dev_name (devs (ent_dev tmp))) name of
        None \<Rightarrow> Hang
      | Some r \<Rightarrow> if r = 0 then Ret (ent_dev tmp) else name_scan mem devs name es)"

definition devlist_from_name :: "bytes \<Rightarrow> devices \<Rightarrow> u32 \<Rightarrow> devlist \<Rightarrow> (u32 \<times> devlist) outcome" where
  "devlist_from_name mem devs name st =
     obind (lock_up st) (\<lambda>st. obind (name_scan mem devs name (dl_head st)) (\<lambda>d. Ret (d, unlock st)))"

text \<open>The table of operations of \<open>index.c\<close>: the initial one, or the one that \<open>devlist.c\<close> sets.\<close>

datatype index_ops = DummyIndex | DevlistIndex

record index_state =
  di_index :: index_ops
  di_list :: devlist

definition set_device_index :: "index_ops \<Rightarrow> index_state \<Rightarrow> index_state" where
  "set_device_index ops st = st\<lparr>di_index := ops\<rparr>"

definition devlist_init :: "index_state \<Rightarrow> int \<times> index_state" where
  "devlist_init st = (0, set_device_index DevlistIndex st)"

definition on_list :: "(devlist \<Rightarrow> ('a \<times> devlist) outcome) \<Rightarrow> index_state \<Rightarrow> ('a \<times> index_state) outcome" where
  "on_list f st = obind (f (di_list st)) (\<lambda>(r, l). Ret (r, st\<lparr>di_list := l\<rparr>))"

definition dev_add :: "kops \<Rightarrow> devices \<Rightarrow> u32 \<Rightarrow> index_state \<Rightarrow> (int \<times> index_state) outcome" where
  "dev_add k devs dev st =
     (case di_index st of DummyIndex \<Rightarrow> Ret (EOF, st) | DevlistIndex \<Rightarrow> on_list (devlist_add k devs dev) st)"

definition dev_remove :: "kops \<Rightarrow> devices \<Rightarrow> u32 \<Rightarrow> index_state \<Rightarrow> (int \<times> index_state) outcome" where
  "dev_remove k devs dev st =
     (case di_index st of DummyIndex \<Rightarrow> Ret (EOF, st) | DevlistIndex \<Rightarrow> on_list (devlist_remove k devs dev) st)"

definition dev_from_id :: "devices \<Rightarrow> u32 \<Rightarrow> u32 \<Rightarrow> index_state \<Rightarrow> (u32 \<times> index_state) outcome" where
  "dev_from_id devs major minor st =
     (case di_index st of DummyIndex \<Rightarrow> Ret (0, st) | DevlistIndex \<Rightarrow> on_list (devlist_from_id devs major minor) st)"

definition dev_from_name :: "bytes \<Rightarrow> devices \<Rightarrow> u32 \<Rightarrow> index_state \<Rightarrow> (u32 \<times> index_state) outcome" where
  "dev_from_name mem devs name st =
     (case di_index st of DummyIndex \<Rightarrow> Ret (0, st) | DevlistIndex \<Rightarrow> on_list (devlist_from_name mem devs name) st)"

section \<open>A registry\<close>

text \<open>Registering devices one after the other, up to the first failure.\<close>

primrec add_all :: "('d \<Rightarrow> 's \<Rightarrow> (int \<times> 's) outcome) \<Rightarrow> 'd list \<Rightarrow> 's \<Rightarrow> (int \<times> 's) outcome" where
  "add_all add [] s = Ret (0, s)"
| "add_all add (d # ds) s = obind (add d s) (\<lambda>(r, s). if r \<noteq> 0 then Ret (r, s) else add_all add ds s)"

text \<open>What the users of the table of operations rely on: the first device under an identifier is found.\<close>

locale device_registry =
  fixes add :: "'d \<Rightarrow> 's \<Rightarrow> (int \<times> 's) outcome"
    and lookup :: "'i \<Rightarrow> 's \<Rightarrow> 'd option"
    and ident :: "'d \<Rightarrow> 'i"
    and ok :: "'s \<Rightarrow> bool"
    and valid :: "'d \<Rightarrow> bool"
  assumes add_ok: "ok s \<Longrightarrow> valid d \<Longrightarrow> add d s = Ret (r, s') \<Longrightarrow> ok s'"
    and add_lookup: "ok s \<Longrightarrow> valid d \<Longrightarrow> add d s = Ret (0, s') \<Longrightarrow>
      lookup i s' = (case lookup i s of Some e \<Rightarrow> Some e | None \<Rightarrow> if i = ident d then Some d else None)"
begin

lemma add_all_ok:
  "add_all add ds s = Ret (r, s') \<Longrightarrow> ok s \<Longrightarrow> list_all valid ds \<Longrightarrow> ok s'"
  by (induction ds arbitrary: s) (auto simp: obind_Ret_conv intro: add_ok split: if_splits)

lemma add_all_keeps:
  "add_all add ds s = Ret (0, s') \<Longrightarrow> ok s \<Longrightarrow> list_all valid ds \<Longrightarrow> lookup i s = Some e \<Longrightarrow> lookup i s' = Some e"
proof (induction ds arbitrary: s)
  case (Cons d ds)
  then obtain s1 where "add d s = Ret (0, s1)" "add_all add ds s1 = Ret (0, s')"
    by (auto simp: obind_Ret_conv split: if_splits)
  then show ?case using Cons add_lookup [of s d s1 i] add_ok [of s d 0 s1] by simp
qed simp

lemma add_all_found:
  "add_all add ds s = Ret (0, s') \<Longrightarrow> ok s \<Longrightarrow> list_all valid ds \<Longrightarrow> distinct (map ident ds) \<Longrightarrow>
   \<forall>d \<in> set ds. lookup (ident d) s = None \<Longrightarrow> \<forall>d \<in> set ds. lookup (ident d) s' = Some d"
proof (induction ds arbitrary: s)
  case (Cons d ds)
  then obtain s1 where a: "add d s = Ret (0, s1)" "add_all add ds s1 = Ret (0, s')"
    by (auto simp: obind_Ret_conv split: if_splits)
  have o: "ok s1" using add_ok [OF _ _ a(1)] Cons.prems by simp
  have "lookup (ident d) s1 = Some d" using a(1) Cons.prems add_lookup [of s d s1] by simp
  then have "lookup (ident d) s' = Some d" using add_all_keeps [OF a(2) o] Cons.prems by simp
  moreover have "\<forall>e \<in> set ds. lookup (ident e) s1 = None"
    using Cons.prems a(1) add_lookup [of s d s1] by (auto simp: image_iff)
  ultimately show ?case using Cons.IH [OF a(2) o] Cons.prems by simp
qed simp

end

section \<open>The list as a registry\<close>

definition dev_key :: "devices \<Rightarrow> device_entry \<Rightarrow> int \<times> int" where
  "dev_key devs e = (sint (id_major (devs (ent_dev e))), sint (id_minor (devs (ent_dev e))))"

definition dev_ident :: "devices \<Rightarrow> u32 \<Rightarrow> u32 \<times> u32" where
  "dev_ident devs d = (id_major (devs d), id_minor (devs d))"

definition index_ok :: "devices \<Rightarrow> index_state \<Rightarrow> bool" where
  "index_ok devs st \<longleftrightarrow> di_index st = DevlistIndex \<and> dl_lock (di_list st) = 0 \<and>
     sorted (map (dev_key devs) (dl_head (di_list st))) \<and> (\<forall>e \<in> set (dl_head (di_list st)). ent_dev e \<noteq> 0)"

definition index_lookup :: "devices \<Rightarrow> u32 \<times> u32 \<Rightarrow> index_state \<Rightarrow> u32 option" where
  "index_lookup devs i st = map_option ent_dev (find (\<lambda>e. dev_ident devs (ent_dev e) = i) (dl_head (di_list st)))"

lemma cmp_dev_pos: "cmp_dev devs a b > 0 \<longleftrightarrow> dev_key devs b < dev_key devs a"
  by (auto simp: cmp_dev_def dev_key_def Let_def less_prod_def)

lemma sint_eq: "sint (a :: u32) = sint b \<longleftrightarrow> a = b"
proof
  assume "sint a = sint b"
  then have "(of_int (sint a) :: u32) = of_int (sint b)" by (rule arg_cong)
  then show "a = b" by simp
qed simp

lemma dev_key_ident: "dev_key devs a = dev_key devs b \<longleftrightarrow> dev_ident devs (ent_dev a) = dev_ident devs (ent_dev b)"
  by (simp add: dev_key_def dev_ident_def sint_eq)

lemma insert_entry_split:
  assumes "sorted (map (dev_key devs) es)"
  obtains pre post where "es = pre @ post" "insert_entry devs this es = pre @ this # post"
    "\<forall>e \<in> set pre. dev_key devs e \<le> dev_key devs this" "\<forall>e \<in> set post. dev_key devs this < dev_key devs e"
proof -
  define P where "P = (\<lambda>e. \<not> cmp_dev devs e this > 0)"
  have i: "insert_entry devs this es = takeWhile P es @ this # dropWhile P es"
    by (simp add: insert_entry_def P_def takeWhile_eq_take [symmetric] dropWhile_eq_drop [symmetric])
  have a: "dev_key devs e \<le> dev_key devs this" if "e \<in> set (takeWhile P es)" for e
    using set_takeWhileD [OF that] by (simp add: P_def cmp_dev_pos not_less)
  have b: "dev_key devs this < dev_key devs e" if "e \<in> set (dropWhile P es)" for e
  proof -
    have "dropWhile P es \<noteq> []" using that by (rule list.set_cases) simp_all
    then obtain x xs where x: "dropWhile P es = x # xs" by (meson list.exhaust)
    have "sorted (map (dev_key devs) (takeWhile P es @ dropWhile P es))" using assms by simp
    then have "sorted (map (dev_key devs) (x # xs))" unfolding map_append sorted_append x by simp
    then have "dev_key devs x \<le> dev_key devs e" using that x by auto
    moreover have "\<not> P x" using hd_dropWhile [of P es] x by simp
    ultimately show ?thesis by (auto simp: P_def cmp_dev_pos)
  qed
  show thesis
    by (rule that [OF takeWhile_dropWhile_id [symmetric] i]) (intro ballI a b; assumption)+
qed

lemma sorted_insert_entry:
  assumes "sorted (map (dev_key devs) es)"
  shows "sorted (map (dev_key devs) (insert_entry devs this es))"
proof -
  obtain pre post where i: "es = pre @ post" "insert_entry devs this es = pre @ this # post"
    "\<forall>e \<in> set pre. dev_key devs e \<le> dev_key devs this" "\<forall>e \<in> set post. dev_key devs this < dev_key devs e"
    by (rule insert_entry_split [OF assms])
  then show ?thesis using assms by (auto simp: sorted_append less_imp_le)
qed

lemma lookup_insert_entry:
  assumes "sorted (map (dev_key devs) es)"
  shows "find (\<lambda>e. dev_ident devs (ent_dev e) = i) (insert_entry devs this es) =
    (case find (\<lambda>e. dev_ident devs (ent_dev e) = i) es of
       Some e \<Rightarrow> Some e | None \<Rightarrow> if i = dev_ident devs (ent_dev this) then Some this else None)"
proof -
  let ?Q = "\<lambda>e. dev_ident devs (ent_dev e) = i"
  obtain pre post where p: "es = pre @ post" "insert_entry devs this es = pre @ this # post"
    "\<forall>e \<in> set post. dev_key devs this < dev_key devs e"
    by (rule insert_entry_split [OF assms])
  have f: "find ?Q (xs @ ys) = (case find ?Q xs of Some e \<Rightarrow> Some e | None \<Rightarrow> find ?Q ys)" for xs ys
    by (induction xs) auto
  have "find ?Q post = None" if "i = dev_ident devs (ent_dev this)"
  proof -
    have "dev_ident devs (ent_dev e) \<noteq> i" if e: "e \<in> set post" for e
    proof -
      have "dev_key devs this \<noteq> dev_key devs e" using p(3) e by (metis less_irrefl)
      then show ?thesis unfolding \<open>i = _\<close> dev_key_ident by simp
    qed
    then show ?thesis by (simp add: find_None_iff)
  qed
  then show ?thesis unfolding p(2) unfolding p(1) f
    by (cases "i = dev_ident devs (ent_dev this)"; cases "find ?Q pre"; cases "find ?Q post") simp_all
qed

lemma dev_add_Ret:
  assumes "index_ok devs st" and "dev_add k devs dev st = Ret (r, st')"
  shows "r = EOF \<and> dl_head (di_list st') = dl_head (di_list st) \<and> di_index st' = DevlistIndex \<and> dl_lock (di_list st') = 0 \<or>
    (\<exists>this. r = 0 \<and> ent_dev this = dev \<and> dl_head (di_list st') = insert_entry devs this (dl_head (di_list st)) \<and>
      di_index st' = DevlistIndex \<and> dl_lock (di_list st') = 0)"
proof -
  obtain this km where m: "k_malloc k sizeof_device_entry 0 (dl_kmem (di_list st)) = Ret (this, km)"
    using assms by (auto simp: index_ok_def dev_add_def on_list_def devlist_add_def obind_Ret_conv)
  show ?thesis
  proof (cases "this = 0")
    case True
    then show ?thesis using assms m by (auto simp: index_ok_def dev_add_def on_list_def devlist_add_def)
  next
    case False
    then have "r = 0 \<and> di_index st' = DevlistIndex \<and> dl_lock (di_list st') = 0 \<and>
      dl_head (di_list st') = insert_entry devs \<lparr>ent_addr = this, ent_dev = dev\<rparr> (dl_head (di_list st))"
      using assms m by (auto simp: index_ok_def dev_add_def on_list_def devlist_add_def lock_up_def unlock_def UNLOCKED_def)
    then show ?thesis by (intro disjI2 exI [of _ "\<lparr>ent_addr = this, ent_dev = dev\<rparr>"]) simp
  qed
qed

lemma set_insert_entry: "set (insert_entry devs this es) = insert this (set es)"
proof -
  have "set (take n es) \<union> set (drop n es) = set es" for n by (metis append_take_drop_id set_append)
  then show ?thesis by (auto simp: insert_entry_def Let_def)
qed

lemma dev_add_index_ok:
  assumes "index_ok devs s" "d \<noteq> 0" "dev_add k devs d s = Ret (r, s')"
  shows "index_ok devs s'"
  using dev_add_Ret [OF assms(1,3)]
proof (elim disjE exE conjE)
  assume "dl_head (di_list s') = dl_head (di_list s)" "di_index s' = DevlistIndex" "dl_lock (di_list s') = 0"
  then show ?thesis using assms(1) by (simp add: index_ok_def)
next
  fix this assume "ent_dev this = d" "dl_head (di_list s') = insert_entry devs this (dl_head (di_list s))"
    "di_index s' = DevlistIndex" "dl_lock (di_list s') = 0"
  then show ?thesis using assms(1,2) sorted_insert_entry [of devs "dl_head (di_list s)" this] by (simp add: index_ok_def set_insert_entry)
qed

lemma dev_add_index_lookup:
  assumes "index_ok devs s" "dev_add k devs d s = Ret (0, s')"
  shows "index_lookup devs i s' = (case index_lookup devs i s of Some e \<Rightarrow> Some e | None \<Rightarrow> if i = dev_ident devs d then Some d else None)"
proof -
  obtain this where "ent_dev this = d" "dl_head (di_list s') = insert_entry devs this (dl_head (di_list s))"
    using dev_add_Ret [OF assms] by (auto simp: EOF_def)
  moreover have "sorted (map (dev_key devs) (dl_head (di_list s)))" using assms(1) by (simp add: index_ok_def)
  ultimately show ?thesis
    unfolding index_lookup_def using lookup_insert_entry [of devs "dl_head (di_list s)" i this]
    by (cases "find (\<lambda>e. dev_ident devs (ent_dev e) = i) (dl_head (di_list s))") simp_all
qed

interpretation devlist: device_registry "dev_add k devs" "index_lookup devs" "dev_ident devs" "index_ok devs" "\<lambda>d. d \<noteq> 0" for k devs
  by unfold_locales (rule dev_add_index_ok dev_add_index_lookup; assumption)+

lemma dev_from_id_lookup:
  assumes "index_ok devs st"
  shows "dev_from_id devs (fst i) (snd i) st = Ret (case index_lookup devs i st of Some d \<Rightarrow> d | None \<Rightarrow> 0, st)"
proof -
  have e: "(\<lambda>tmp. id_major (devs (ent_dev tmp)) = fst i \<and> id_minor (devs (ent_dev tmp)) = snd i) = (\<lambda>e. dev_ident devs (ent_dev e) = i)"
    by (cases i) (auto simp: dev_ident_def)
  have l: "di_list st\<lparr>dl_lock := 0\<rparr> = di_list st" using assms by (simp add: index_ok_def)
  show ?thesis
    using assms l unfolding dev_from_id_def on_list_def devlist_from_id_def lock_up_def unlock_def index_lookup_def index_ok_def e
    by (cases "find (\<lambda>e. dev_ident devs (ent_dev e) = i) (dl_head (di_list st))") (simp_all add: UNLOCKED_def)
qed

section \<open>Properties\<close>

text \<open>A list with one device, and a device to add.\<close>

definition example_devs :: devices where
  "example_devs p = \<lparr>dev_name = 0, id_major = (if p = 0x9000 then 3 else 7), id_minor = p, dev_bus = 0x700, dev_base = 0\<rparr>"

definition example_kops :: kops where
  "example_kops = \<lparr>k_malloc = (\<lambda>sz gfp st. Ret (0x80001000, st)), k_free = (\<lambda>p st. Ret st),
     p_alloc = (\<lambda>p st. Ret (0, p, st)), p_free = (\<lambda>p st. Ret st)\<rparr>"

definition example_index :: "device_entry list \<Rightarrow> index_state" where
  "example_index es = \<lparr>di_index = DevlistIndex, di_list = \<lparr>dl_head = es, dl_lock = 0, dl_kmem = example_kmem\<rparr>\<rparr>"

text \<open>
  C31: Devices with distinct identifiers that are registered one after the other are each found
  under their identifier afterwards, whatever else is in the index, and the index stays sorted,
  unlocked and unchanged by the lookup.
\<close>

theorem dev_add_found:
  assumes "add_all (dev_add k devs) ds st = Ret (0, st')" and "index_ok devs st"
    and "distinct (map (dev_ident devs) ds)" and "0 \<notin> set ds"
    and "\<forall>d \<in> set ds. dev_from_id devs (id_major (devs d)) (id_minor (devs d)) st = Ret (0, st)"
  shows "index_ok devs st' \<and> (\<forall>d \<in> set ds. dev_from_id devs (id_major (devs d)) (id_minor (devs d)) st' = Ret (d, st'))"
proof -
  have v: "list_all (\<lambda>d. d \<noteq> 0) ds" using assms(4) by (auto simp: list_all_iff)
  have i: "fst (dev_ident devs d) = id_major (devs d)" "snd (dev_ident devs d) = id_minor (devs d)" for d
    by (simp_all add: dev_ident_def)
  have "index_lookup devs (dev_ident devs d) st = None" if d: "d \<in> set ds" for d
  proof (cases "index_lookup devs (dev_ident devs d) st")
    case (Some e)
    then have "e = 0" using assms(5) d dev_from_id_lookup [OF assms(2), of "dev_ident devs d"] i by simp
    moreover have "e \<noteq> 0" using Some assms(2) unfolding index_lookup_def index_ok_def by (auto simp: find_Some_iff)
    ultimately show ?thesis by simp
  qed simp
  then have f: "\<forall>d \<in> set ds. index_lookup devs (dev_ident devs d) st' = Some d"
    using devlist.add_all_found [OF assms(1,2) v assms(3)] by blast
  have ok: "index_ok devs st'" using devlist.add_all_ok [OF assms(1,2) v] .
  have "dev_from_id devs (id_major (devs d)) (id_minor (devs d)) st' = Ret (d, st')" if "d \<in> set ds" for d
    using dev_from_id_lookup [OF ok, of "dev_ident devs d"] f that i [of d] by simp
  then show ?thesis using ok by blast
qed

lemma example_add:
  "add_all (dev_add example_kops example_devs) [0x9000] (example_index [\<lparr>ent_addr = 0x80002000, ent_dev = 0x9040\<rparr>]) =
   Ret (0, example_index [\<lparr>ent_addr = 0x80001000, ent_dev = 0x9000\<rparr>, \<lparr>ent_addr = 0x80002000, ent_dev = 0x9040\<rparr>])"
  by (simp add: dev_add_def on_list_def devlist_add_def example_kops_def example_index_def lock_up_def unlock_def UNLOCKED_def
      insert_entry_def cmp_dev_def example_devs_def Let_def)

theorem dev_add_found_witness:
  "\<exists>st. dev_from_id example_devs 3 0x9000 st = Ret (0x9000, st)"
proof -
  have ok: "index_ok example_devs (example_index [\<lparr>ent_addr = 0x80002000, ent_dev = 0x9040\<rparr>])"
    by (simp add: index_ok_def example_index_def)
  have "\<forall>d \<in> set [0x9000]. dev_from_id example_devs (id_major (example_devs d)) (id_minor (example_devs d))
      (example_index [\<lparr>ent_addr = 0x80002000, ent_dev = 0x9040\<rparr>]) = Ret (0, example_index [\<lparr>ent_addr = 0x80002000, ent_dev = 0x9040\<rparr>])"
    by (simp add: dev_from_id_def on_list_def devlist_from_id_def example_index_def lock_up_def unlock_def UNLOCKED_def example_devs_def)
  then show ?thesis using dev_add_found [OF example_add ok] by (auto simp: example_devs_def)
qed

lemma remove_scan_None: "remove_scan devs dev this es = None \<longleftrightarrow> (\<exists>e \<in> set es. dev_bus (devs (ent_dev e)) = dev)"
  by (induction es arbitrary: this) auto

lemma remove_scan_Some:
  "remove_scan devs dev this es = Some (Some e) \<Longrightarrow> e \<in> set es \<and> ent_dev e = dev \<or> this = Some e \<and> dev \<notin> ent_dev ` set es"
  by (induction es arbitrary: this) (auto split: if_splits)

lemma remove_scan_Some_None: "remove_scan devs dev None es = Some None \<Longrightarrow> dev \<notin> ent_dev ` set es"
proof -
  have "remove_scan devs dev (Some e) es \<noteq> Some None" for e es by (induction es arbitrary: e) auto
  then show "remove_scan devs dev None es = Some None \<Longrightarrow> dev \<notin> ent_dev ` set es"
    by (induction es) (auto split: if_splits)
qed

text \<open>
  Removing a device fails and changes nothing exactly when the device is not registered or
  another one is connected to it; otherwise it takes one entry of the device out of the list,
  keeps the others in their order and releases the lock.
\<close>

theorem dev_remove_entry:
  assumes "dev_remove k devs dev st = Ret (r, st')" and ok: "index_ok devs st"
    and "distinct (map ent_addr (dl_head (di_list st)))"
  shows "if dev \<in> ent_dev ` set (dl_head (di_list st)) \<and> dev \<notin> (\<lambda>e. dev_bus (devs (ent_dev e))) ` set (dl_head (di_list st))
    then r = 0 \<and> index_ok devs st' \<and> (\<exists>pre e post. dl_head (di_list st) = pre @ e # post \<and> ent_dev e = dev \<and>
      dl_head (di_list st') = pre @ post)
    else r = EOF \<and> st' = st"
proof -
  let ?es = "dl_head (di_list st)"
  have l: "di_index st = DevlistIndex" "dl_lock (di_list st) = 0" "di_list st\<lparr>dl_lock := 0\<rparr> = di_list st"
    using ok by (simp_all add: index_ok_def)
  note run = assms(1) [unfolded dev_remove_def l on_list_def devlist_remove_def lock_up_def unlock_def UNLOCKED_def]
  show ?thesis
  proof (cases "remove_scan devs dev None ?es")
    case None
    then have "dev \<in> (\<lambda>e. dev_bus (devs (ent_dev e))) ` set ?es" unfolding remove_scan_None by blast
    moreover have "r = EOF \<and> st' = st" using run None l by simp
    ultimately show ?thesis by simp
  next
    case (Some this)
    have b: "dev \<notin> (\<lambda>e. dev_bus (devs (ent_dev e))) ` set ?es"
      using Some remove_scan_None [of devs dev None ?es] by auto
    show ?thesis
    proof (cases this)
      case None
      then have "dev \<notin> ent_dev ` set ?es" using Some remove_scan_Some_None by simp
      moreover have "r = EOF \<and> st' = st" using run Some None l by simp
      ultimately show ?thesis by simp
    next
      case e: (Some e)
      then have m: "e \<in> set ?es" "ent_dev e = dev" using Some remove_scan_Some [of devs dev None ?es e] by auto
      obtain pre post where p: "?es = pre @ e # post" using m(1) by (meson split_list)
      have d: "nl_del ent_addr (ent_addr e) ?es = pre @ post"
        using assms(3) unfolding p by (intro nl_del_split) auto
      have h: "r = 0 \<and> dl_head (di_list st') = pre @ post \<and> di_index st' = DevlistIndex \<and> dl_lock (di_list st') = 0"
        using run Some e l d by (auto simp: obind_Ret_conv Let_def)
      then have "index_ok devs st'" using ok p by (simp add: index_ok_def sorted_append)
      then show ?thesis using h b m p by auto
    qed
  qed
qed

lemma example_remove:
  "dev_remove example_kops example_devs 0x9000
     (example_index [\<lparr>ent_addr = 0x80001000, ent_dev = 0x9000\<rparr>, \<lparr>ent_addr = 0x80002000, ent_dev = 0x9040\<rparr>]) =
   Ret (0, example_index [\<lparr>ent_addr = 0x80002000, ent_dev = 0x9040\<rparr>])"
  by (simp add: dev_remove_def on_list_def devlist_remove_def example_kops_def example_index_def lock_up_def unlock_def UNLOCKED_def
      example_devs_def nl_del_def)

theorem dev_remove_entry_witness:
  "index_ok example_devs (example_index [\<lparr>ent_addr = 0x80002000, ent_dev = 0x9040\<rparr>])"
proof -
  let ?es = "[\<lparr>ent_addr = 0x80001000, ent_dev = 0x9000\<rparr>, \<lparr>ent_addr = 0x80002000, ent_dev = 0x9040\<rparr>]"
  have "index_ok example_devs (example_index ?es)"
    by (simp add: index_ok_def example_index_def dev_key_def example_devs_def)
  then show ?thesis
    using dev_remove_entry [OF example_remove] by (simp add: example_index_def example_devs_def)
qed

end
