(* ===== verification/Atomic.thy ===== *)
theory Atomic
  imports Prelude
begin

text \<open>
  The atomic counters of \<open>include/arch/i386/atomic.h\<close>, \<open>include/arch/mips/atomic.h\<close> and
  \<open>include/arch/armv7a/atomic.h\<close>, as relations of single instructions of any number of processors on one
  counter, with reservations as in theory \<open>Sync\<close>.
\<close>

section \<open>State\<close>

datatype aop = AtInc | AtDec | AtAdd u32 | AtSub u32

text \<open>What the comments above the routines promise.\<close>

fun delta :: "aop \<Rightarrow> u32" where
  "delta AtInc = 1" | "delta AtDec = -1" | "delta (AtAdd v) = v" | "delta (AtSub v) = - v"

text \<open>A processor is outside, inside a routine, or inside with a loaded value.\<close>

datatype apc = AIdle | ACall aop | ALinked aop u32

text \<open>Besides the counter, the sum of what the calls that have returned were to add.\<close>

record at_sys =
  at_word :: u32
  at_cpu :: "nat \<Rightarrow> apc"
  at_res :: "nat set"
  at_sum :: u32

definition at_init :: "u32 \<Rightarrow> at_sys" where
  "at_init v = \<lparr>at_word = v, at_cpu = (\<lambda>_. AIdle), at_res = {}, at_sum = 0\<rparr>"

definition goto :: "nat \<Rightarrow> apc \<Rightarrow> at_sys \<Rightarrow> at_sys" where
  "goto c p s = s\<lparr>at_cpu := (at_cpu s)(c := p)\<rparr>"

definition finish :: "nat \<Rightarrow> aop \<Rightarrow> at_sys \<Rightarrow> at_sys" where
  "finish c op s = (goto c AIdle s)\<lparr>at_sum := at_sum s + delta op\<rparr>"

definition store :: "u32 \<Rightarrow> at_sys \<Rightarrow> at_sys" where
  "store v s = s\<lparr>at_word := v, at_res := {}\<rparr>"

section \<open>Steps\<close>

text \<open>On i386 and MIPS the bodies of \<open>atomic_add\<close> and \<open>atomic_sub\<close> are empty.\<close>

inductive i386_atomic_step :: "nat \<Rightarrow> at_sys \<Rightarrow> at_sys \<Rightarrow> bool" where
  call: "at_cpu s c = AIdle \<Longrightarrow> i386_atomic_step c s (goto c (ACall op) s)"
| lock_incl: "at_cpu s c = ACall AtInc \<Longrightarrow> i386_atomic_step c s (finish c AtInc (store (at_word s + 1) s))"
| lock_decl: "at_cpu s c = ACall AtDec \<Longrightarrow> i386_atomic_step c s (finish c AtDec (store (at_word s - 1) s))"
| add: "at_cpu s c = ACall (AtAdd v) \<Longrightarrow> i386_atomic_step c s (finish c (AtAdd v) s)"
| sub: "at_cpu s c = ACall (AtSub v) \<Longrightarrow> i386_atomic_step c s (finish c (AtSub v) s)"

inductive mips_atomic_step :: "nat \<Rightarrow> at_sys \<Rightarrow> at_sys \<Rightarrow> bool" where
  call: "at_cpu s c = AIdle \<Longrightarrow> mips_atomic_step c s (goto c (ACall op) s)"
| ll: "at_cpu s c = ACall op \<Longrightarrow> op = AtInc \<or> op = AtDec \<Longrightarrow>
    mips_atomic_step c s (goto c (ALinked op (at_word s)) (s\<lparr>at_res := insert c (at_res s)\<rparr>))"
| sc_inc: "at_cpu s c = ALinked AtInc v \<Longrightarrow> c \<in> at_res s \<Longrightarrow> mips_atomic_step c s (finish c AtInc (store (v + 1) s))"
| sc_dec: "at_cpu s c = ALinked AtDec v \<Longrightarrow> c \<in> at_res s \<Longrightarrow> mips_atomic_step c s (finish c AtDec (store (v + (-1)) s))"
| sc_fail: "at_cpu s c = ALinked op v \<Longrightarrow> mips_atomic_step c s (goto c (ACall op) (s\<lparr>at_res := at_res s - {c}\<rparr>))"
| add: "at_cpu s c = ACall (AtAdd v) \<Longrightarrow> mips_atomic_step c s (finish c (AtAdd v) s)"
| sub: "at_cpu s c = ACall (AtSub v) \<Longrightarrow> mips_atomic_step c s (finish c (AtSub v) s)"

text \<open>On ARM \<open>atomic_inc\<close> and \<open>atomic_dec\<close> add and subtract 1.\<close>

fun arm_result :: "aop \<Rightarrow> u32 \<Rightarrow> u32" where
  "arm_result AtInc v = v + 1" | "arm_result (AtAdd x) v = v + x" | "arm_result AtDec v = v - 1" | "arm_result (AtSub x) v = v - x"

inductive arm_atomic_step :: "nat \<Rightarrow> at_sys \<Rightarrow> at_sys \<Rightarrow> bool" where
  call: "at_cpu s c = AIdle \<Longrightarrow> arm_atomic_step c s (goto c (ACall op) s)"
| ldrex: "at_cpu s c = ACall op \<Longrightarrow> arm_atomic_step c s (goto c (ALinked op (at_word s)) (s\<lparr>at_res := insert c (at_res s)\<rparr>))"
| strex_ok: "at_cpu s c = ALinked op v \<Longrightarrow> c \<in> at_res s \<Longrightarrow> arm_atomic_step c s (finish c op (store (arm_result op v) s))"
| strex_fail: "at_cpu s c = ALinked op v \<Longrightarrow> arm_atomic_step c s (goto c (ACall op) (s\<lparr>at_res := at_res s - {c}\<rparr>))"

text \<open>The states in which only operations of a set have been called.\<close>

fun calls_only :: "aop set \<Rightarrow> apc \<Rightarrow> bool" where
  "calls_only A AIdle = True" | "calls_only A (ACall op) = (op \<in> A)" | "calls_only A (ALinked op v) = (op \<in> A)"

inductive at_reach :: "(nat \<Rightarrow> at_sys \<Rightarrow> at_sys \<Rightarrow> bool) \<Rightarrow> aop set \<Rightarrow> u32 \<Rightarrow> at_sys \<Rightarrow> bool" for step A v where
  start: "at_reach step A v (at_init v)"
| run: "at_reach step A v s \<Longrightarrow> step c s s' \<Longrightarrow> calls_only A (at_cpu s' c) \<Longrightarrow> at_reach step A v s'"

section \<open>Counting\<close>

text \<open>A processor with a reservation has loaded the present value.\<close>

definition at_inv :: "aop set \<Rightarrow> u32 \<Rightarrow> at_sys \<Rightarrow> bool" where
  "at_inv A v0 s \<longleftrightarrow> at_word s = v0 + at_sum s \<and> (\<forall>c. calls_only A (at_cpu s c)) \<and>
     (\<forall>c op v. c \<in> at_res s \<longrightarrow> at_cpu s c = ALinked op v \<longrightarrow> v = at_word s)"

locale atomic_counter =
  fixes step :: "nat \<Rightarrow> at_sys \<Rightarrow> at_sys \<Rightarrow> bool" and A :: "aop set"
  assumes step_inv: "at_inv A v s \<Longrightarrow> step c s s' \<Longrightarrow> calls_only A (at_cpu s' c) \<Longrightarrow> at_inv A v s'"
begin

lemma reach_inv: "at_reach step A v s \<Longrightarrow> at_inv A v s"
proof (induction rule: at_reach.induct)
  case start
  then show ?case by (simp add: at_inv_def at_init_def)
next
  case (run s c s')
  then show ?case using step_inv by blast
qed

lemma counts: "at_reach step A v s \<Longrightarrow> at_word s = v + at_sum s"
  using reach_inv by (simp add: at_inv_def)

end

lemmas at_defs = goto_def finish_def store_def

lemma inv_finish:
  assumes "at_inv A v0 s" "x = at_word s + delta op"
  shows "at_inv A v0 (finish c op (store x s))"
  using assms by (auto simp: at_inv_def at_defs)

lemma inv_goto:
  assumes "at_inv A v0 s" "calls_only A p" "R \<subseteq> insert c (at_res s)" "\<And>op v. p = ALinked op v \<Longrightarrow> v = at_word s"
  shows "at_inv A v0 (goto c p (s\<lparr>at_res := R\<rparr>))"
  using assms by (auto simp: at_inv_def goto_def)

lemma inv_call:
  assumes "at_inv A v0 s" "calls_only A (ACall op)"
  shows "at_inv A v0 (goto c (ACall op) s)"
  using inv_goto [OF assms, of "at_res s" c] by auto

lemma inv_loaded: "at_inv A v0 s \<Longrightarrow> c \<in> at_res s \<Longrightarrow> at_cpu s c = ALinked op v \<Longrightarrow> v = at_word s"
  by (auto simp: at_inv_def)

lemma inv_calls: "at_inv A v0 s \<Longrightarrow> calls_only A (at_cpu s c)"
  by (simp add: at_inv_def)

lemma arm_result_delta: "arm_result op v = v + delta op"
  by (cases op) simp_all

interpretation arm_counter: atomic_counter arm_atomic_step UNIV
proof
  fix v s c s' assume i: "at_inv UNIV v s" and step: "arm_atomic_step c s s'"
  from step show "at_inv UNIV v s'"
  proof (cases rule: arm_atomic_step.cases)
    case (call op)
    then show ?thesis using inv_call [OF i] by simp
  next
    case (strex_ok op x)
    then show ?thesis using inv_finish [OF i] inv_loaded [OF i] by (simp add: arm_result_delta)
  qed (auto intro!: inv_goto [OF i])
qed

interpretation i386_counter: atomic_counter i386_atomic_step "{AtInc, AtDec}"
proof
  fix v s c s' assume i: "at_inv {AtInc, AtDec} v s" and step: "i386_atomic_step c s s'" and "calls_only {AtInc, AtDec} (at_cpu s' c)"
  from step this(3) show "at_inv {AtInc, AtDec} v s'"
  proof (cases rule: i386_atomic_step.cases)
    case (call op)
    then show ?thesis using inv_call [OF i] \<open>calls_only _ (at_cpu s' c)\<close> by (simp add: goto_def)
  next
    case lock_incl
    then show ?thesis using inv_finish [OF i, of _ AtInc] by simp
  next
    case lock_decl
    then show ?thesis using inv_finish [OF i, of _ AtDec] by simp
  qed (use inv_calls [OF i, of c] in simp_all)
qed

interpretation mips_counter: atomic_counter mips_atomic_step "{AtInc, AtDec}"
proof
  fix v s c s' assume i: "at_inv {AtInc, AtDec} v s" and step: "mips_atomic_step c s s'" and "calls_only {AtInc, AtDec} (at_cpu s' c)"
  from step this(3) show "at_inv {AtInc, AtDec} v s'"
  proof (cases rule: mips_atomic_step.cases)
    case (call op)
    then show ?thesis using inv_call [OF i] \<open>calls_only _ (at_cpu s' c)\<close> by (simp add: goto_def)
  next
    case (sc_inc x)
    then show ?thesis using inv_finish [OF i, of _ AtInc] inv_loaded [OF i] by simp
  next
    case (sc_dec x)
    then show ?thesis using inv_finish [OF i, of _ AtDec] inv_loaded [OF i] by simp
  next
    case (ll op)
    then show ?thesis using inv_calls [OF i, of c] by (auto intro!: inv_goto [OF i])
  next
    case (sc_fail op x)
    then show ?thesis using inv_calls [OF i, of c] by (auto intro!: inv_goto [OF i])
  qed (use inv_calls [OF i, of c] in simp_all)
qed

text \<open>
  C33: In every reachable state of any number of processors the counter is its first value plus what the calls
  that have returned were to add: for all four operations on ARM, and for increments and
  decrements on i386 and MIPS. An addition on i386 or MIPS returns without changing the counter.
\<close>

theorem atomic_counts:
  "(at_reach arm_atomic_step UNIV v s \<longrightarrow> at_word s = v + at_sum s) \<and>
   (at_reach i386_atomic_step {AtInc, AtDec} v s \<longrightarrow> at_word s = v + at_sum s) \<and>
   (at_reach mips_atomic_step {AtInc, AtDec} v s \<longrightarrow> at_word s = v + at_sum s) \<and>
   (\<forall>c x. at_cpu s c = ACall (AtAdd x) \<longrightarrow>
      (\<forall>s'. i386_atomic_step c s s' \<or> mips_atomic_step c s s' \<longrightarrow> at_cpu s' c = AIdle \<and> at_word s' = at_word s))"
proof -
  have "at_cpu s' c = AIdle \<and> at_word s' = at_word s"
    if "at_cpu s c = ACall (AtAdd x)" "i386_atomic_step c s s' \<or> mips_atomic_step c s s'" for c x s'
    using that(2)
  proof
    assume "i386_atomic_step c s s'"
    then show ?thesis using that(1) by (cases rule: i386_atomic_step.cases) (simp_all add: at_defs)
  next
    assume "mips_atomic_step c s s'"
    then show ?thesis using that(1) by (cases rule: mips_atomic_step.cases) (auto simp: at_defs)
  qed
  then show ?thesis using arm_counter.counts i386_counter.counts mips_counter.counts by blast
qed

text \<open>A processor increments on ARM.\<close>

theorem atomic_counts_witness: "\<exists>s. at_reach arm_atomic_step UNIV 5 s \<and> at_cpu s 0 = AIdle \<and> at_word s = 6 \<and> at_word s = 5 + at_sum s"
proof -
  define s1 where "s1 = goto 0 (ACall AtInc) (at_init 5)"
  define s2 where "s2 = goto 0 (ALinked AtInc (at_word s1)) (s1\<lparr>at_res := insert 0 (at_res s1)\<rparr>)"
  define s3 where "s3 = finish 0 AtInc (store (arm_result AtInc 5) s2)"
  have "arm_atomic_step 0 (at_init 5) s1" unfolding s1_def by (rule arm_atomic_step.call) (simp add: at_init_def)
  with at_reach.start have "at_reach arm_atomic_step UNIV 5 s1" by (rule at_reach.run) (simp add: s1_def at_defs)
  moreover have "arm_atomic_step 0 s1 s2" unfolding s2_def by (rule arm_atomic_step.ldrex) (simp add: s1_def at_defs)
  ultimately have "at_reach arm_atomic_step UNIV 5 s2" by (rule at_reach.run) (simp add: s2_def at_defs)
  moreover have "arm_atomic_step 0 s2 s3"
    unfolding s3_def by (rule arm_atomic_step.strex_ok) (simp_all add: s2_def s1_def at_defs at_init_def)
  ultimately have "at_reach arm_atomic_step UNIV 5 s3" by (rule at_reach.run) (simp add: s3_def at_defs)
  moreover have "at_word s3 = 6" "at_cpu s3 0 = AIdle" by (simp_all add: s3_def at_defs)
  ultimately show ?thesis using atomic_counts [of 5 s3] by blast
qed

end
