(* ===== verification/Bus.thy ===== *)
theory Bus
  imports EarlyMap
begin

text \<open>
  Access to devices: the accessors of \<open>include/arch/*/io.h\<close>, the port instructions of
  \<open>include/arch/i386/asm.h\<close> and their replacement in \<open>include/arch/mips/asm.h\<close>, and the two buses
  of \<open>drivers/io/io-mem.c\<close> and \<open>drivers/io/io-port.c\<close>. The hardware is an argument: what a load,
  a store or a port instruction of a width does to the state of the devices, and what it answers.
  A function pointer of a bus is one of the routines the drivers define, or null. Handlers are
  kept in their queues by name.
\<close>

lemma u32_of_u64 [simp]: "(ucast (ucast (x :: u32) :: u64) :: u32) = x"
  by (rule bit_word_eqI) (simp add: bit_simps)

section \<open>Accessors\<close>

datatype width = W8 | W16 | W32

fun bits :: "width \<Rightarrow> nat" where
  "bits W8 = 8" | "bits W16 = 16" | "bits W32 = 32"

text \<open>
  A platform: the conversion of \<open>io.h\<close> (to 32 bits on i386 and ARM, by \<open>TO_UNCAC\<close> on MIPS), whether \<open>asm.h\<close> has
  port instructions or panics in their place, and the hardware.
\<close>

record 'd plat =
  iomap :: "addr_t \<Rightarrow> addr_t"
  port_insns :: bool
  hw_load :: "width \<Rightarrow> addr_t \<Rightarrow> 'd \<Rightarrow> u64 \<times> 'd"
  hw_store :: "width \<Rightarrow> addr_t \<Rightarrow> u64 \<Rightarrow> 'd \<Rightarrow> 'd"
  hw_in :: "width \<Rightarrow> u16 \<Rightarrow> 'd \<Rightarrow> u64 \<times> 'd"
  hw_out :: "width \<Rightarrow> u16 \<Rightarrow> u64 \<Rightarrow> 'd \<Rightarrow> 'd"

definition flat_iomap :: "addr_t \<Rightarrow> addr_t" where
  "flat_iomap a = ucast (ucast a :: u32)"

definition mips_iomap :: "addr_t \<Rightarrow> addr_t" where
  "mips_iomap a = ucast (TO_UNCAC (ucast a))"

definition mips64_iomap :: "addr_t \<Rightarrow> addr_t" where
  "mips64_iomap a = IO_UNCAC_BASE_64 + a"

text \<open>\<open>read8\<close>, \<open>read16\<close>, \<open>read32\<close> and their counterparts for writing; values have the width accessed.\<close>

definition io_read :: "'d plat \<Rightarrow> width \<Rightarrow> addr_t \<Rightarrow> 'd \<Rightarrow> u64 \<times> 'd" where
  "io_read p w a d = (let (v, d') = hw_load p w (iomap p a) d in (take_bit (bits w) v, d'))"

definition io_write :: "'d plat \<Rightarrow> width \<Rightarrow> addr_t \<Rightarrow> u64 \<Rightarrow> 'd \<Rightarrow> 'd" where
  "io_write p w a v d = hw_store p w (iomap p a) (take_bit (bits w) v) d"

text \<open>
  The port instructions. In \<open>inw\<close> and \<open>ind\<close> the operand \<open>data\<close> is an \<open>unsigned char\<close> as in \<open>inb\<close>, so
  that the assembler emits the instruction that reads one byte.
\<close>

definition inb :: "'d plat \<Rightarrow> u16 \<Rightarrow> 'd \<Rightarrow> (u64 \<times> 'd) outcome" where
  "inb p port d =
     (if port_insns p then (let (data, d') = hw_in p W8 port d in Ret (take_bit 8 data, d')) else Panic)"

definition inw :: "'d plat \<Rightarrow> u16 \<Rightarrow> 'd \<Rightarrow> (u64 \<times> 'd) outcome" where
  "inw p port d =
     (if port_insns p then (let (data, d') = hw_in p W8 port d in Ret (take_bit 8 data, d')) else Panic)"

definition ind :: "'d plat \<Rightarrow> u16 \<Rightarrow> 'd \<Rightarrow> (u64 \<times> 'd) outcome" where
  "ind p port d =
     (if port_insns p then (let (data, d') = hw_in p W8 port d in Ret (take_bit 8 data, d')) else Panic)"

definition outb :: "'d plat \<Rightarrow> u16 \<Rightarrow> u64 \<Rightarrow> 'd \<Rightarrow> 'd outcome" where
  "outb p port v d = (if port_insns p then Ret (hw_out p W8 port (take_bit 8 v) d) else Panic)"

definition outw :: "'d plat \<Rightarrow> u16 \<Rightarrow> u64 \<Rightarrow> 'd \<Rightarrow> 'd outcome" where
  "outw p port v d = (if port_insns p then Ret (hw_out p W16 port (take_bit 16 v) d) else Panic)"

definition outd :: "'d plat \<Rightarrow> u16 \<Rightarrow> u64 \<Rightarrow> 'd \<Rightarrow> 'd outcome" where
  "outd p port v d = (if port_insns p then Ret (hw_out p W32 port (take_bit 32 v) d) else Panic)"

fun port_in :: "'d plat \<Rightarrow> width \<Rightarrow> u16 \<Rightarrow> 'd \<Rightarrow> (u64 \<times> 'd) outcome" where
  "port_in p W8 = inb p" | "port_in p W16 = inw p" | "port_in p W32 = ind p"

fun port_out :: "'d plat \<Rightarrow> width \<Rightarrow> u16 \<Rightarrow> u64 \<Rightarrow> 'd \<Rightarrow> 'd outcome" where
  "port_out p W8 = outb p" | "port_out p W16 = outw p" | "port_out p W32 = outd p"

section \<open>Buses\<close>

text \<open>The source has two bus structures.\<close>

datatype bus_ptr = NULL | early_memory_bus | portio_bus

datatype bus_getter = NoGetter | MemGetter | PortGetter
datatype bus_fp = NoFp | MemFp width | PortFp width

record bus_device =
  bd_bus :: bus_ptr
  bd_base :: addr_t
  addr_width :: int
  get_read_fp :: bus_getter
  get_write_fp :: bus_getter

type_synonym buses = "bus_ptr \<Rightarrow> bus_device"

definition width_fp :: "(width \<Rightarrow> bus_fp) \<Rightarrow> int \<Rightarrow> bus_fp" where
  "width_fp fp data_width =
     (if data_width = 8 then fp W8 else if data_width = 16 then fp W16 else if data_width = 32 then fp W32 else NoFp)"

definition mem_get_fp :: "bus_ptr \<Rightarrow> int \<Rightarrow> bus_fp" where
  "mem_get_fp inst data_width = (if inst = early_memory_bus then width_fp MemFp data_width else NoFp)"

definition port_get_fp :: "bus_ptr \<Rightarrow> int \<Rightarrow> bus_fp" where
  "port_get_fp inst data_width = (if inst = portio_bus then width_fp PortFp data_width else NoFp)"

text \<open>The call \<open>bus->get_read_fp(bus, width)\<close>: through the pointer to the bus and a pointer to code.\<close>

definition ask_fp :: "(bus_device \<Rightarrow> bus_getter) \<Rightarrow> buses \<Rightarrow> bus_ptr \<Rightarrow> int \<Rightarrow> bus_fp outcome" where
  "ask_fp getter bs bus data_width =
     (if bus = NULL then Fault
      else case getter (bs bus) of
             NoGetter \<Rightarrow> Fault
           | MemGetter \<Rightarrow> Ret (mem_get_fp bus data_width)
           | PortGetter \<Rightarrow> Ret (port_get_fp bus data_width))"

text \<open>
  Calling a routine of a bus. A port bus that is connected to another bus passes the access on;
  with two buses a chain of more than two calls never ends. The value behind \<open>ptr\<close> is kept when
  the routine fails.
\<close>

definition mem_read :: "'d plat \<Rightarrow> width \<Rightarrow> bus_ptr \<Rightarrow> addr_t \<Rightarrow> u64 \<Rightarrow> 'd \<Rightarrow> int \<times> u64 \<times> 'd" where
  "mem_read p w inst addr ptr d =
     (if inst = early_memory_bus then (let (v, d') = io_read p w addr d in (0, v, d')) else (EOF, ptr, d))"

definition mem_write :: "'d plat \<Rightarrow> width \<Rightarrow> bus_ptr \<Rightarrow> addr_t \<Rightarrow> u64 \<Rightarrow> 'd \<Rightarrow> int \<times> 'd" where
  "mem_write p w inst addr v d =
     (if inst = early_memory_bus then (0, io_write p w addr v d) else (EOF, d))"

fun bus_read :: "nat \<Rightarrow> 'd plat \<Rightarrow> buses \<Rightarrow> bus_fp \<Rightarrow> bus_ptr \<Rightarrow> addr_t \<Rightarrow> u64 \<Rightarrow> 'd \<Rightarrow> (int \<times> u64 \<times> 'd) outcome" where
  "bus_read n p bs NoFp inst addr ptr d = Fault"
| "bus_read n p bs (MemFp w) inst addr ptr d = Ret (mem_read p w inst addr ptr d)"
| "bus_read 0 p bs (PortFp w) inst addr ptr d = Hang"
| "bus_read (Suc n) p bs (PortFp w) inst addr ptr d =
     (let bus = bd_bus (bs inst)
      in if bus \<noteq> NULL then
           obind (ask_fp get_read_fp bs bus (int (bits w))) (\<lambda>fp. bus_read n p bs fp bus (bd_base (bs inst) + addr) ptr d)
         else obind (port_in p w (ucast addr) d) (\<lambda>(v, d). Ret (0, v, d)))"

fun bus_write :: "nat \<Rightarrow> 'd plat \<Rightarrow> buses \<Rightarrow> bus_fp \<Rightarrow> bus_ptr \<Rightarrow> addr_t \<Rightarrow> u64 \<Rightarrow> 'd \<Rightarrow> (int \<times> 'd) outcome" where
  "bus_write n p bs NoFp inst addr v d = Fault"
| "bus_write n p bs (MemFp w) inst addr v d = Ret (mem_write p w inst addr v d)"
| "bus_write 0 p bs (PortFp w) inst addr v d = Hang"
| "bus_write (Suc n) p bs (PortFp w) inst addr v d =
     (let bus = bd_bus (bs inst)
      in if bus \<noteq> NULL then
           obind (ask_fp get_write_fp bs bus (int (bits w))) (\<lambda>fp. bus_write n p bs fp bus (bd_base (bs inst) + addr) v d)
         else obind (port_out p w (ucast addr) v d) (\<lambda>d. Ret (0, d)))"

definition bus_depth :: nat where "bus_depth = 2"

definition call_read :: "'d plat \<Rightarrow> buses \<Rightarrow> bus_fp \<Rightarrow> bus_ptr \<Rightarrow> addr_t \<Rightarrow> u64 \<Rightarrow> 'd \<Rightarrow> (int \<times> u64 \<times> 'd) outcome" where
  "call_read = bus_read bus_depth"

definition call_write :: "'d plat \<Rightarrow> buses \<Rightarrow> bus_fp \<Rightarrow> bus_ptr \<Rightarrow> addr_t \<Rightarrow> u64 \<Rightarrow> 'd \<Rightarrow> (int \<times> 'd) outcome" where
  "call_write = bus_write bus_depth"

section \<open>Setting up the buses\<close>

text \<open>The handlers that the drivers register, by the file that defines them.\<close>

datatype handler = MemJump | PortJump | UartMmu | UartJump

record machine =
  mach_buses :: buses
  mach_mmu :: "handler handlers"
  mach_jump :: "handler handlers"

definition set_getters :: "bus_ptr \<Rightarrow> bus_getter \<Rightarrow> buses \<Rightarrow> buses" where
  "set_getters bus g bs = bs(bus := (bs bus)\<lparr>get_read_fp := g, get_write_fp := g\<rparr>)"

text \<open>\<open>io_mem_init\<close> of the firmware, built with \<open>RAW\<close>, and of the kernel.\<close>

definition io_mem_init_raw :: "bus_ptr \<Rightarrow> buses \<Rightarrow> buses" where
  "io_mem_init_raw bus bs = set_getters bus MemGetter bs"

definition io_mem_init :: "bus_ptr \<Rightarrow> 'z machine_scheme \<Rightarrow> ('z machine_scheme) outcome" where
  "io_mem_init bus m =
     obind (jump_handlers_add MemJump (mach_jump m)) (\<lambda>(ret, h).
       if ret \<noteq> 0 then Panic else Ret (m\<lparr>mach_buses := set_getters bus MemGetter (mach_buses m), mach_jump := h\<rparr>))"

definition mem_jump_handler :: "buses \<Rightarrow> buses" where
  "mem_jump_handler bs = set_getters early_memory_bus MemGetter bs"

definition portio_bus_connect :: "bus_ptr \<Rightarrow> bus_ptr \<Rightarrow> addr_t \<Rightarrow> buses \<Rightarrow> buses" where
  "portio_bus_connect portio bus b bs = bs(portio := (bs portio)\<lparr>bd_base := b, bd_bus := bus\<rparr>)"

text \<open>A queue that is full makes \<open>portio_bus_init\<close> loop forever.\<close>

definition portio_bus_init :: "bus_ptr \<Rightarrow> 'z machine_scheme \<Rightarrow> ('z machine_scheme) outcome" where
  "portio_bus_init portio m =
     obind (jump_handlers_add PortJump (mach_jump m)) (\<lambda>(ret, h).
       if ret \<noteq> 0 then Hang else Ret (m\<lparr>mach_buses := set_getters portio PortGetter (mach_buses m), mach_jump := h\<rparr>))"

definition port_jump_handler :: "buses \<Rightarrow> buses" where
  "port_jump_handler bs = set_getters portio_bus PortGetter bs"

text \<open>The structures as the program starts, and \<open>early_mach_init\<close> of a Loongson 3A.\<close>

definition empty_bus :: bus_device where
  "empty_bus = \<lparr>bd_bus = NULL, bd_base = 0, addr_width = 32, get_read_fp = NoGetter, get_write_fp = NoGetter\<rparr>"

definition initial_buses :: buses where
  "initial_buses = (\<lambda>_. empty_bus)"

definition LOONGSON3A_PORTIO_BASE :: u64 where "LOONGSON3A_PORTIO_BASE = 0x0efdfc000000"

definition loongson3a_early_mach_init :: "buses \<Rightarrow> buses" where
  "loongson3a_early_mach_init bs = portio_bus_connect portio_bus early_memory_bus LOONGSON3A_PORTIO_BASE bs"

section \<open>Polling\<close>

text \<open>A loop \<open>do read(&buf) while (again)\<close>; a failing read leaves \<open>buf\<close> as it was.\<close>

fun poll :: "nat \<Rightarrow> (u64 \<Rightarrow> 'd \<Rightarrow> (u64 \<times> 'd) outcome) \<Rightarrow> (u64 \<Rightarrow> bool) \<Rightarrow> u64 \<Rightarrow> 'd \<Rightarrow> (u64 \<times> 'd) outcome" where
  "poll 0 body again buf d = Hang"
| "poll (Suc n) body again buf d =
     obind (body buf d) (\<lambda>(buf, d). if again buf then poll n body again buf d else Ret (buf, d))"

text \<open>The state after a number of reads.\<close>

primrec polled :: "('d \<Rightarrow> u64 \<times> 'd) \<Rightarrow> nat \<Rightarrow> 'd \<Rightarrow> 'd" where
  "polled status 0 d = d"
| "polled status (Suc j) d = polled status j (snd (status d))"

lemma poll_until:
  assumes "\<not> again (fst (status (polled status j d)))" "j < n"
  shows "\<exists>i\<le>j. poll n (\<lambda>_ d. Ret (status d)) again buf d = Ret (status (polled status i d)) \<and>
    \<not> again (fst (status (polled status i d))) \<and> (\<forall>l<i. again (fst (status (polled status l d))))"
  using assms
proof (induction n arbitrary: j buf d)
  case (Suc n)
  obtain v d' where s: "status d = (v, d')" by (cases "status d")
  show ?case
  proof (cases "again v")
    case False
    then show ?thesis using s by (intro exI [of _ 0]) simp
  next
    case True
    then obtain j' where j: "j = Suc j'" using Suc.prems(1) s by (cases j) auto
    have "\<not> again (fst (status (polled status j' d')))" "j' < n" using Suc.prems by (simp_all add: j s)
    from Suc.IH [OF this, of v] obtain i where "i \<le> j'"
      "poll n (\<lambda>_ d. Ret (status d)) again v d' = Ret (status (polled status i d'))"
      "\<not> again (fst (status (polled status i d')))" "\<forall>l<i. again (fst (status (polled status l d')))" by blast
    then show ?thesis using True s j by (intro exI [of _ "Suc i"]) (auto simp: less_Suc_eq_0_disj)
  qed
qed simp

lemma polled_keeps: "(\<And>d. f (snd (status d)) = f d) \<Longrightarrow> f (polled status i d) = f d"
  by (induction i arbitrary: d) simp_all

section \<open>What a client of a bus relies on\<close>

text \<open>
  A bus that is set up hands out a routine for every width, and calling it performs an access
  and succeeds. The drivers are verified against this interface.
\<close>

locale bus_access =
  fixes p :: "'d plat" and bs :: buses and bus :: bus_ptr and fp :: "width \<Rightarrow> bus_fp"
    and rd :: "width \<Rightarrow> addr_t \<Rightarrow> 'd \<Rightarrow> u64 \<times> 'd" and wr :: "width \<Rightarrow> addr_t \<Rightarrow> u64 \<Rightarrow> 'd \<Rightarrow> 'd"
  assumes ask_read: "ask_fp get_read_fp bs bus (int (bits w)) = Ret (fp w)"
    and ask_write: "ask_fp get_write_fp bs bus (int (bits w)) = Ret (fp w)"
    and fp_not_null: "fp w \<noteq> NoFp"
    and call_read: "call_read p bs (fp w) bus addr ptr d = Ret (0, rd w addr d)"
    and call_write: "call_write p bs (fp w) bus addr v d = Ret (0, wr w addr v d)"
begin

lemmas ask_width = ask_read [of W8, simplified] ask_read [of W16, simplified] ask_read [of W32, simplified]
  ask_write [of W8, simplified] ask_write [of W16, simplified] ask_write [of W32, simplified]

lemmas access = ask_width fp_not_null call_read call_write

end

lemma width_fp_bits [simp]: "width_fp f (int (bits w)) = f w"
  by (cases w) (simp_all add: width_fp_def)

text \<open>The memory bus, once \<open>io_mem_init\<close> has run.\<close>

definition mem_bus_up :: "buses \<Rightarrow> buses" where
  "mem_bus_up bs = set_getters early_memory_bus MemGetter bs"

interpretation mem_bus: bus_access p "mem_bus_up bs" early_memory_bus MemFp "io_read p" "io_write p" for p bs
  by unfold_locales
     (simp_all add: ask_fp_def mem_bus_up_def set_getters_def mem_get_fp_def call_read_def call_write_def mem_read_def
        mem_write_def split: prod.splits)

text \<open>
  The port bus of i386, which is connected to no other bus: accesses become port instructions.
\<close>

definition port_bus_up :: "buses \<Rightarrow> buses" where
  "port_bus_up bs = bs(portio_bus := (bs portio_bus)\<lparr>bd_bus := NULL, get_read_fp := PortGetter, get_write_fp := PortGetter\<rparr>)"

definition port_rd :: "'d plat \<Rightarrow> width \<Rightarrow> addr_t \<Rightarrow> 'd \<Rightarrow> u64 \<times> 'd" where
  "port_rd p w a d = (let (v, d') = hw_in p W8 (ucast a) d in (take_bit 8 v, d'))"

definition port_wr :: "'d plat \<Rightarrow> width \<Rightarrow> addr_t \<Rightarrow> u64 \<Rightarrow> 'd \<Rightarrow> 'd" where
  "port_wr p w a v d = hw_out p w (ucast a) (take_bit (bits w) v) d"

definition with_ports :: "'d plat \<Rightarrow> 'd plat" where
  "with_ports p = p\<lparr>port_insns := True\<rparr>"

lemma bus_depth_Suc: "bus_depth = Suc 1"
  by (simp add: bus_depth_def)

lemma port_in_eq:
  "port_in p w a d = (if port_insns p then (let (x, d') = hw_in p W8 a d in Ret (take_bit 8 x, d')) else Panic)"
  by (cases w) (simp_all add: inb_def inw_def ind_def)

lemma port_out_eq:
  "port_out p w a v d = (if port_insns p then Ret (hw_out p w a (take_bit (bits w) v) d) else Panic)"
  by (cases w) (simp_all add: outb_def outw_def outd_def)

lemma port_with_ports:
  "port_in (with_ports p) w (ucast a) d = Ret (port_rd p w a d)"
  "port_out (with_ports p) w (ucast a) v d = Ret (port_wr p w a v d)"
  by (simp_all add: port_in_eq port_out_eq with_ports_def port_rd_def port_wr_def split: prod.splits)

interpretation port_bus: bus_access "with_ports p" "port_bus_up bs" portio_bus PortFp "port_rd p" "port_wr p" for p bs
  by unfold_locales
     (simp_all add: ask_fp_def port_bus_up_def port_get_fp_def call_read_def call_write_def bus_depth_Suc Let_def
        port_with_ports split: prod.splits)

section \<open>Routing of port accesses\<close>

lemma ask_mem_bus [simp]:
  "get_read_fp (bs early_memory_bus) = MemGetter \<Longrightarrow> ask_fp get_read_fp bs early_memory_bus (int (bits w)) = Ret (MemFp w)"
  "get_write_fp (bs early_memory_bus) = MemGetter \<Longrightarrow> ask_fp get_write_fp bs early_memory_bus (int (bits w)) = Ret (MemFp w)"
  by (simp_all add: ask_fp_def mem_get_fp_def)

lemma ask_port_bus [simp]:
  "get_read_fp (bs portio_bus) = PortGetter \<Longrightarrow> ask_fp get_read_fp bs portio_bus (int (bits w)) = Ret (PortFp w)"
  "get_write_fp (bs portio_bus) = PortGetter \<Longrightarrow> ask_fp get_write_fp bs portio_bus (int (bits w)) = Ret (PortFp w)"
  by (simp_all add: ask_fp_def port_get_fp_def)

lemma port_self_hangs:
  assumes "bd_bus (bs portio_bus) = portio_bus" "get_read_fp (bs portio_bus) = PortGetter"
  shows "bus_read n p bs (PortFp w) portio_bus addr ptr d = Hang"
  using assms(1) ask_port_bus(1) [of bs, OF assms(2)] by (induction n arbitrary: addr) (simp_all add: Let_def)

lemma port_bus_connected:
  fixes bs :: buses
  assumes "get_read_fp (bs early_memory_bus) = MemGetter" "get_write_fp (bs early_memory_bus) = MemGetter"
    and "bs1 = portio_bus_connect portio_bus early_memory_bus b bs"
  shows "call_read p bs1 (PortFp w) portio_bus addr ptr d = Ret (0, io_read p w (b + addr) d)"
    and "call_write p bs1 (PortFp w) portio_bus addr v d = Ret (0, io_write p w (b + addr) v d)"
  using assms by (simp_all add: call_read_def call_write_def bus_depth_Suc portio_bus_connect_def Let_def mem_read_def
      mem_write_def split: prod.splits)

lemma port_bus_unconnected:
  assumes "bs1 = portio_bus_connect portio_bus NULL b bs"
  shows "call_read p bs1 (PortFp w) portio_bus addr ptr d =
      (if port_insns p then (let (x, d') = hw_in p W8 (ucast addr) d in Ret (0, take_bit 8 x, d')) else Panic)"
    and "call_write p bs1 (PortFp w) portio_bus addr v d =
      (if port_insns p then Ret (0, hw_out p w (ucast addr) (take_bit (bits w) v) d) else Panic)"
  using assms by (simp_all add: call_read_def call_write_def bus_depth_Suc portio_bus_connect_def Let_def port_in_eq
      port_out_eq split: prod.splits)

text \<open>
  A port bus that is connected to the memory bus turns an access to a port into an access to
  memory at the base of the connection; connected to nothing it executes port instructions, or
  panics on a processor that has none; connected to itself no access ever ends, whatever the
  number of steps. A read of 16 or 32 bits from a port, however, reads only a byte.
\<close>

theorem port_bus_routes:
  assumes "get_read_fp (bs early_memory_bus) = MemGetter" "get_write_fp (bs early_memory_bus) = MemGetter"
    and "get_read_fp (bs portio_bus) = PortGetter"
  shows "call_read p (portio_bus_connect portio_bus early_memory_bus b bs) (PortFp w) portio_bus addr ptr d =
      Ret (0, io_read p w (b + addr) d) \<and>
    call_write p (portio_bus_connect portio_bus early_memory_bus b bs) (PortFp w) portio_bus addr v d =
      Ret (0, io_write p w (b + addr) v d) \<and>
    call_read p (portio_bus_connect portio_bus NULL b bs) (PortFp w) portio_bus addr ptr d =
      (if port_insns p then (let (x, d') = hw_in p W8 (ucast addr) d in Ret (0, take_bit 8 x, d')) else Panic) \<and>
    call_write p (portio_bus_connect portio_bus NULL b bs) (PortFp w) portio_bus addr v d =
      (if port_insns p then Ret (0, hw_out p w (ucast addr) (take_bit (bits w) v) d) else Panic) \<and>
    bus_read n p (portio_bus_connect portio_bus portio_bus b bs) (PortFp w) portio_bus addr ptr d = Hang"
proof -
  have "bus_read n p (portio_bus_connect portio_bus portio_bus b bs) (PortFp w) portio_bus addr ptr d = Hang"
    by (rule port_self_hangs) (simp_all add: assms(3) portio_bus_connect_def)
  then show ?thesis
    by (simp add: port_bus_connected [of bs, OF assms(1,2) refl] port_bus_unconnected [of _ b bs, OF refl])
qed

text \<open>A machine whose devices answer every load with the address and every port with a pattern.\<close>

definition echo_plat :: "addr_t list plat" where
  "echo_plat = \<lparr>iomap = flat_iomap, port_insns = True, hw_load = (\<lambda>w a d. (a, a # d)), hw_store = (\<lambda>w a v d. a # d),
     hw_in = (\<lambda>w a d. (0x1234, d)), hw_out = (\<lambda>w a v d. d)\<rparr>"

theorem port_bus_routes_witness:
  "call_read echo_plat (portio_bus_connect portio_bus early_memory_bus 0x1000
       (set_getters portio_bus PortGetter (mem_bus_up initial_buses))) (PortFp W16) portio_bus 8 0 [] = Ret (0, 0x1008, [0x1008]) \<and>
   call_read echo_plat (portio_bus_connect portio_bus NULL 0x1000
       (set_getters portio_bus PortGetter (mem_bus_up initial_buses))) (PortFp W16) portio_bus 8 0 [] = Ret (0, 0x34, [])"
  using port_bus_routes [of "set_getters portio_bus PortGetter (mem_bus_up initial_buses)" echo_plat "0x1000" W16 8 0 "[]"]
  by (simp add: mem_bus_up_def set_getters_def echo_plat_def io_read_def flat_iomap_def)

end
