(* ===== verification/Console.thy ===== *)
theory Console
  imports Printf Layout
begin

text \<open>
  The kernel console, \<open>kern/dev/console.c\<close>, the kernel panic, \<open>kern/debug/panic.c\<close>, and the
  initcalls, \<open>kern/init/initcalls.c\<close>. A console is two function addresses that are converted to
  the address space the processor is in before they are called. What is at an address is an
  argument: \<open>putchar_at\<close> gives the output routine found there, and \<open>dk\<close> tells where
  \<open>__default_kputs\<close> is found; calling anything else is a fault.
\<close>

section \<open>The console\<close>

record console =
  con_putchar :: u32
  con_puts :: u32

text \<open>The surroundings: the conversions of the architecture, the address space, and the code.\<close>

record 'io env =
  env_premap :: "u32 \<Rightarrow> u32"
  env_postmap :: "u32 \<Rightarrow> u32"
  env_space :: int
  putchar_at :: "u32 \<Rightarrow> (char \<Rightarrow> 'io \<Rightarrow> (int \<times> 'io) outcome) option"
  dk :: "u32 \<Rightarrow> bool"

definition set_console :: "u32 \<Rightarrow> u32 \<Rightarrow> console \<Rightarrow> console" where
  "set_console pc ps con = con\<lparr>con_putchar := pc, con_puts := ps\<rparr>"

definition get_fp :: "'io env \<Rightarrow> u32 \<Rightarrow> u32" where
  "get_fp e ret =
     (if env_space e = 0 then (if KERN_BASE \<le> ret then premap_addr (env_premap e) ret else ret)
      else if env_space e = 1 then (if ret < KERN_BASE then postmap_addr (env_postmap e) ret else ret)
      else 0)"

definition get_kputchar :: "'io env \<Rightarrow> console \<Rightarrow> u32" where
  "get_kputchar e con = get_fp e (con_putchar con)"

definition call_putchar :: "'io env \<Rightarrow> u32 \<Rightarrow> char \<Rightarrow> 'io \<Rightarrow> (int \<times> 'io) outcome" where
  "call_putchar e fp c io = (case putchar_at e fp of None \<Rightarrow> Fault | Some f \<Rightarrow> f c io)"

definition kputchar :: "'io env \<Rightarrow> console \<Rightarrow> char \<Rightarrow> 'io \<Rightarrow> (int \<times> 'io) outcome" where
  "kputchar e con c io =
     (let fp = get_kputchar e con in if fp = 0 then Ret (EOF, io) else call_putchar e fp c io)"

primrec puts_loop :: "'io env \<Rightarrow> u32 \<Rightarrow> string \<Rightarrow> 'io \<Rightarrow> 'io outcome" where
  "puts_loop e fp [] io = Ret io"
| "puts_loop e fp (c # s) io =
     obind (if c = CHR 0x0A then call_putchar e fp (CHR 0x0D) io else Ret (0, io)) (\<lambda>(_, io).
       obind (call_putchar e fp c io) (\<lambda>(_, io). puts_loop e fp s io))"

definition default_kputs :: "'io env \<Rightarrow> console \<Rightarrow> string \<Rightarrow> 'io \<Rightarrow> (int \<times> 'io) outcome" where
  "default_kputs e con s io =
     (let fp = get_kputchar e con
      in if fp = 0 then Ret (EOF, io) else obind (puts_loop e fp s io) (\<lambda>io. Ret (0, io)))"

definition get_kputs :: "'io env \<Rightarrow> console \<Rightarrow> u32" where
  "get_kputs e con = get_fp e (con_puts con)"

definition kputs :: "'io env \<Rightarrow> console \<Rightarrow> string \<Rightarrow> 'io \<Rightarrow> (int \<times> 'io) outcome" where
  "kputs e con s io =
     (let fp = get_kputs e con
      in if fp = 0 then Ret (EOF, io) else if dk e fp then default_kputs e con s io else Fault)"

definition BUFSIZ :: u32 where "BUFSIZ = 1024"

text \<open>The buffer up to its first null byte.\<close>

definition cstring :: "string \<Rightarrow> string" where
  "cstring buf = takeWhile (\<lambda>c. c \<noteq> NUL) buf"

definition kprintf :: "'io env \<Rightarrow> console \<Rightarrow> string \<Rightarrow> arg list \<Rightarrow> 'io \<Rightarrow> (int \<times> 'io) outcome" where
  "kprintf e con fmt ap io =
     obind (vsnprintf BUFSIZ fmt ap) (\<lambda>(result, printf_buf).
       obind (kputs e con (cstring printf_buf) io) (\<lambda>(_, io). Ret (result, io)))"

text \<open>\<open>panic\<close> up to the loop of \<open>__panic\<close>, which never ends: what has been put out by then.\<close>

definition panic_output :: "'io env \<Rightarrow> console \<Rightarrow> string \<Rightarrow> arg list \<Rightarrow> 'io \<Rightarrow> 'io outcome" where
  "panic_output e con fmt args io =
     obind (vsnprintf BUFSIZ fmt args) (\<lambda>(result, buf).
       obind (kputs e con (''----- KERNEL PANIC -----'' @ [CHR 0x0A]) io) (\<lambda>(_, io).
         obind (if sint BUFSIZ \<le> result then kputs e con ''PANIC: message is truncated.'' io else Ret (0, io)) (\<lambda>(_, io).
           obind (kputs e con (cstring buf) io) (\<lambda>(_, io). Ret io))))"

definition kpanic :: "'io env \<Rightarrow> console \<Rightarrow> string \<Rightarrow> arg list \<Rightarrow> 'io \<Rightarrow> 'a outcome" where
  "kpanic e con fmt args io = obind (panic_output e con fmt args io) (\<lambda>_. Hang)"

section \<open>Initcalls\<close>

text \<open>
  The loop of \<open>do_early_initcalls\<close> and \<open>do_initcalls\<close>: a list of addresses and what calling them
  does. Messages go through \<open>say\<close>, which stands for the console output of the surroundings.
\<close>

primrec initcall_loop :: "(u32 \<Rightarrow> 's \<Rightarrow> (int \<times> 's) outcome) \<Rightarrow> (string \<Rightarrow> arg list \<Rightarrow> 's \<Rightarrow> 's outcome) \<Rightarrow> u32 list \<Rightarrow> bool \<Rightarrow>
    's \<Rightarrow> (bool \<times> 's) outcome" where
  "initcall_loop call say [] failed s = Ret (failed, s)"
| "initcall_loop call say (this # rest) failed s =
     obind (call this s) (\<lambda>(ret, s).
       if ret < 0 then
         obind (say (''OOPS: Initcall entry 0x%08x failed.'' @ [CHR 0x0A, NUL]) [AWord this] s) (initcall_loop call say rest True)
       else initcall_loop call say rest failed s)"

definition do_initcalls :: "(u32 \<Rightarrow> 's \<Rightarrow> (int \<times> 's) outcome) \<Rightarrow> (string \<Rightarrow> arg list \<Rightarrow> 's \<Rightarrow> 's outcome) \<Rightarrow> string \<Rightarrow>
    u32 \<Rightarrow> u32 \<Rightarrow> u32 list \<Rightarrow> 's \<Rightarrow> (int \<times> 's) outcome" where
  "do_initcalls call say greeting start stop calls s =
     obind (say (greeting @ '' 0x%08x to 0x%08x'' @ [CHR 0x0A, NUL]) [AWord start, AWord stop] s) (\<lambda>s.
       obind (initcall_loop call say calls False s) (\<lambda>(failed, s). Ret (if failed then EOF else 0, s)))"

definition do_early_initcalls_run :: "(u32 \<Rightarrow> 's \<Rightarrow> (int \<times> 's) outcome) \<Rightarrow> (string \<Rightarrow> arg list \<Rightarrow> 's \<Rightarrow> 's outcome) \<Rightarrow>
    u32 \<Rightarrow> u32 \<Rightarrow> u32 list \<Rightarrow> 's \<Rightarrow> (int \<times> 's) outcome" where
  "do_early_initcalls_run call say = do_initcalls call say ''DEBUG: early initcalls''"

definition do_normal_initcalls :: "(u32 \<Rightarrow> 's \<Rightarrow> (int \<times> 's) outcome) \<Rightarrow> (string \<Rightarrow> arg list \<Rightarrow> 's \<Rightarrow> 's outcome) \<Rightarrow>
    u32 \<Rightarrow> u32 \<Rightarrow> u32 list \<Rightarrow> 's \<Rightarrow> (int \<times> 's) outcome" where
  "do_normal_initcalls call say = do_initcalls call say ''DEBUG: initcalls''"

section \<open>Output\<close>

text \<open>What a string looks like on the line: every line feed is preceded by a carriage return.\<close>

definition with_cr :: "string \<Rightarrow> string" where
  "with_cr s = concat (map (\<lambda>c. if c = CHR 0x0A then [CHR 0x0D, c] else [c]) s)"

text \<open>What the console relies on: a routine that adds a character to the output and succeeds.\<close>

locale char_output =
  fixes put :: "char \<Rightarrow> 'io \<Rightarrow> (int \<times> 'io) outcome" and written :: "'io \<Rightarrow> string" and up :: "'io \<Rightarrow> bool"
  assumes put: "up io \<Longrightarrow> \<exists>io'. put c io = Ret (0, io') \<and> up io' \<and> written io' = written io @ [c]"
begin

lemma put_cases:
  assumes "up io"
  obtains io' where "put c io = Ret (0, io')" "up io'" "written io' = written io @ [c]"
  using put [OF assms] by blast

lemma puts_loop_out:
  assumes "putchar_at e fp = Some put" and "up io"
  shows "\<exists>io'. puts_loop e fp s io = Ret io' \<and> up io' \<and> written io' = written io @ with_cr s"
  using assms(2)
proof (induction s arbitrary: io)
  case (Cons c s)
  obtain io1 where r: "put (CHR 0x0D) io = Ret (0, io1)" "up io1" "written io1 = written io @ [CHR 0x0D]"
    using put_cases [OF Cons.prems] .
  obtain io2 where c1: "put c io1 = Ret (0, io2)" "up io2" "written io2 = written io1 @ [c]"
    using put_cases [OF r(2)] .
  obtain io3 where c2: "put c io = Ret (0, io3)" "up io3" "written io3 = written io @ [c]"
    using put_cases [OF Cons.prems] .
  show ?case
    using Cons.IH [OF c1(2)] Cons.IH [OF c2(2)] r c1 c2 by (auto simp: call_putchar_def assms(1) with_cr_def)
qed (simp add: with_cr_def)

lemma kputs_out:
  assumes "get_fp e (con_puts con) \<noteq> 0" "dk e (get_fp e (con_puts con))" "get_fp e (con_putchar con) \<noteq> 0"
    and "putchar_at e (get_fp e (con_putchar con)) = Some put" and "up io"
  shows "\<exists>io'. kputs e con s io = Ret (0, io') \<and> up io' \<and> written io' = written io @ with_cr s"
  using assms(1-3) puts_loop_out [OF assms(4,5), of s]
  by (auto simp: kputs_def default_kputs_def get_kputs_def get_kputchar_def Let_def)

end

text \<open>A routine that keeps what it is given, as a memory buffer would.\<close>

definition buffer_put :: "char \<Rightarrow> string \<Rightarrow> (int \<times> string) outcome" where
  "buffer_put c out = Ret (0, out @ [c])"

interpretation buffer: char_output buffer_put "\<lambda>out. out" "\<lambda>_. True"
  by unfold_locales (simp add: buffer_put_def)

text \<open>
  A console whose two functions are set to code reachable in the present address space
  prints a string with a carriage return before every line feed, whenever the routine behind it
  puts out characters. A console that was never set is reported in the low address space; in the
  high one the null pointer is first turned into the kernel base, which is then called.
\<close>

theorem kputs_output:
  assumes "char_output put written up" and "up io"
    and "get_fp e (con_puts con) \<noteq> 0" "dk e (get_fp e (con_puts con))" "get_fp e (con_putchar con) \<noteq> 0"
    and "putchar_at e (get_fp e (con_putchar con)) = Some put"
  shows "(\<exists>io'. kputs e con s io = Ret (0, io') \<and> up io' \<and> written io' = written io @ with_cr s) \<and>
    (env_space e = 0 \<longrightarrow> kputs e \<lparr>con_putchar = 0, con_puts = 0\<rparr> s io = Ret (EOF, io)) \<and>
    (env_space e = 1 \<and> env_postmap e = i386_postmap \<and> \<not> dk e KERN_BASE \<longrightarrow> kputs e \<lparr>con_putchar = 0, con_puts = 0\<rparr> s io = Fault)"
proof -
  have "get_fp e 0 = (if env_space e = 1 then KERN_BASE else 0)" if "env_space e = 0 \<or> env_space e = 1 \<and> env_postmap e = i386_postmap"
    using that by (auto simp: get_fp_def KERN_BASE_def postmap_addr_def i386_postmap_def)
  then show ?thesis
    using char_output.kputs_out [OF assms(1,3-6,2), of s]
    by (auto simp: kputs_def get_kputs_def Let_def KERN_BASE_def)
qed

theorem kputs_output_witness:
  "kputs \<lparr>env_premap = i386_premap, env_postmap = i386_postmap, env_space = 0,
      putchar_at = (\<lambda>a. if a = 0x1000 then Some buffer_put else None), dk = (\<lambda>a. a = 0x2000)\<rparr>
     \<lparr>con_putchar = 0x80001000, con_puts = 0x80002000\<rparr> (''ok'' @ [CHR 0x0A]) [] = Ret (0, ''ok'' @ [CHR 0x0D, CHR 0x0A])"
proof -
  let ?e = "\<lparr>env_premap = i386_premap, env_postmap = i386_postmap, env_space = 0,
      putchar_at = (\<lambda>a. if a = 0x1000 then Some buffer_put else None), dk = (\<lambda>a. a = 0x2000)\<rparr>"
  have f: "get_fp ?e 0x80001000 = 0x1000" "get_fp ?e 0x80002000 = 0x2000"
    by (simp_all add: get_fp_def premap_addr_def i386_premap_def KERN_BASE_def)
  show ?thesis
    using buffer.char_output_axioms
      kputs_output [of buffer_put "\<lambda>out. out" "\<lambda>_. True" "[]" ?e "\<lparr>con_putchar = 0x80001000, con_puts = 0x80002000\<rparr>" "''ok'' @ [CHR 0x0A]"]
    by (simp add: f with_cr_def)
qed

section \<open>Lines of messages\<close>

text \<open>Messages with one number each, through a routine \<open>say\<close> for formatted output.\<close>

primrec say_lines :: "(string \<Rightarrow> arg list \<Rightarrow> 's \<Rightarrow> 's outcome) \<Rightarrow> (string \<times> u32) list \<Rightarrow> 's \<Rightarrow> 's outcome" where
  "say_lines say [] w = Ret w"
| "say_lines say (l # ls) w = obind (say (fst l @ [CHR 0x0A, NUL]) [AWord (snd l)] w) (say_lines say ls)"

lemma say_lines_Ret:
  assumes "\<And>f a w. \<exists>w'. say f a w = Ret w'"
  shows "\<exists>w'. say_lines say ls w = Ret w'"
proof (induction ls arbitrary: w)
  case (Cons l ls)
  obtain w1 where "say (fst l @ [CHR 0x0A, NUL]) [AWord (snd l)] w = Ret w1" using assms by blast
  then show ?case using Cons.IH[of w1] by simp
qed simp

end
