(* ===== verification/Serial.thy ===== *)
theory Serial
  imports Bus Console
begin

text \<open>
  The serial lines: \<open>drivers/serial/uart-ns16550.c\<close> (i386 and Loongson), \<open>uart-msim.c\<close> (the line printer
  and the keyboard of the MSIM simulator), \<open>uart-zynq.c\<close> (ARM) and \<open>uart.c\<close>, as clients of a bus. A loop
  that waits for a status bit has a number of rounds and yields \<open>Hang\<close> without them. Registering a
  driver as the console of the kernel is modelled with its handlers.
\<close>

section \<open>Registers\<close>

definition UART_BAUDRATE :: u64 where "UART_BAUDRATE = 115200"
definition UART_RCV_BUFFER :: u64 where "UART_RCV_BUFFER = 0"
definition UART_TRANS_HOLD :: u64 where "UART_TRANS_HOLD = 0"
definition UART_INTR_ENABLE :: u64 where "UART_INTR_ENABLE = 1"
definition UART_FIFO_CONTROL :: u64 where "UART_FIFO_CONTROL = 2"
definition UART_LINE_CONTROL :: u64 where "UART_LINE_CONTROL = 3"
definition UART_MODEM_CONTROL :: u64 where "UART_MODEM_CONTROL = 4"
definition UART_LINE_STATUS :: u64 where "UART_LINE_STATUS = 5"
definition UART_DIVISOR_LSB :: u64 where "UART_DIVISOR_LSB = 0"
definition UART_DIVISOR_MSB :: u64 where "UART_DIVISOR_MSB = 1"
definition UART_IER_RBFI :: u64 where "UART_IER_RBFI = 0x01"
definition UART_FCR_RTB_4 :: u64 where "UART_FCR_RTB_4 = 0x40"
definition UART_FCR_RST_TRANSMIT :: u64 where "UART_FCR_RST_TRANSMIT = 0x04"
definition UART_FCR_RST_RECEIVER :: u64 where "UART_FCR_RST_RECEIVER = 0x02"
definition UART_FCR_ENABLE :: u64 where "UART_FCR_ENABLE = 0x01"
definition UART_LCR_DLAB :: u64 where "UART_LCR_DLAB = 0x80"
definition UART_LCR_PARITY_NONE :: u64 where "UART_LCR_PARITY_NONE = 0x00"
definition UART_LCR_DATA_8BIT :: u64 where "UART_LCR_DATA_8BIT = 0x3"
definition UART_LCR_STOP_1BIT :: u64 where "UART_LCR_STOP_1BIT = 0x0"
definition UART_MCR_RTSC :: u64 where "UART_MCR_RTSC = 0x02"
definition UART_MCR_DTRC :: u64 where "UART_MCR_DTRC = 0x01"
definition UART_LSR_THRE :: u64 where "UART_LSR_THRE = 0x20"
definition UART_LSR_DATA_READY :: u64 where "UART_LSR_DATA_READY = 0x01"

text \<open>Bases and frequencies of i386 and Loongson 3A.\<close>

definition I386_UART_BASE :: u64 where "I386_UART_BASE = 0x3f8"
definition I386_UART_FREQ :: u64 where "I386_UART_FREQ = 1843200"
definition LOONGSON3A_UART_BASE :: u64 where "LOONGSON3A_UART_BASE = 0x1fe001e0"
definition LOONGSON3A_UART_FREQ :: u64 where "LOONGSON3A_UART_FREQ = 2073600"

definition UART0_PHYSBASE :: u64 where "UART0_PHYSBASE = 0xE0000000"
definition UART1_PHYSBASE :: u64 where "UART1_PHYSBASE = 0xE0001000"
definition UART_OFFSET_CR :: u64 where "UART_OFFSET_CR = 0x00"
definition UART_OFFSET_MR :: u64 where "UART_OFFSET_MR = 0x04"
definition UART_OFFSET_IDR :: u64 where "UART_OFFSET_IDR = 0x0C"
definition UART_OFFSET_ISR :: u64 where "UART_OFFSET_ISR = 0x14"
definition UART_OFFSET_BAUDGEN :: u64 where "UART_OFFSET_BAUDGEN = 0x18"
definition UART_OFFSET_RXTOUT :: u64 where "UART_OFFSET_RXTOUT = 0x1C"
definition UART_OFFSET_RXWM :: u64 where "UART_OFFSET_RXWM = 0x20"
definition UART_OFFSET_SR :: u64 where "UART_OFFSET_SR = 0x2C"
definition UART_OFFSET_FIFO :: u64 where "UART_OFFSET_FIFO = 0x30"
definition UART_OFFSET_BAUDDIV :: u64 where "UART_OFFSET_BAUDDIV = 0x34"
definition UART_OFFSET_TXWM :: u64 where "UART_OFFSET_TXWM = 0x44"
definition UART_CR_STOPBRK :: u64 where "UART_CR_STOPBRK = 0x0100"
definition UART_CR_TX_DIS :: u64 where "UART_CR_TX_DIS = 0x0020"
definition UART_CR_TX_EN :: u64 where "UART_CR_TX_EN = 0x0010"
definition UART_CR_RX_DIS :: u64 where "UART_CR_RX_DIS = 0x0008"
definition UART_CR_RX_EN :: u64 where "UART_CR_RX_EN = 0x0004"
definition UART_CR_TXRST :: u64 where "UART_CR_TXRST = 0x0002"
definition UART_CR_RXRST :: u64 where "UART_CR_RXRST = 0x0001"
definition UART_MR_CHMODE_NORM :: u64 where "UART_MR_CHMODE_NORM = 0x00000000"
definition UART_MR_STOPMODE_1_BIT :: u64 where "UART_MR_STOPMODE_1_BIT = 0x00000000"
definition UART_MR_PARITY_NONE :: u64 where "UART_MR_PARITY_NONE = 0x00000020"
definition UART_MR_CHARLEN_8_BIT :: u64 where "UART_MR_CHARLEN_8_BIT = 0x00000000"
definition UART_IXR_MASK :: u64 where "UART_IXR_MASK = 0x00001FFF"
definition UART_SR_RXEMPTY :: u64 where "UART_SR_RXEMPTY = 0x0002"
definition UART_SR_TXFULL :: u64 where "UART_SR_TXFULL = 0x0010"
definition UART_RXTOUT_DISABLE :: u64 where "UART_RXTOUT_DISABLE = 0x00000000"
definition UART_RXWM_RESET_VAL :: u64 where "UART_RXWM_RESET_VAL = 0x00000020"
definition UART_TXWM_RESET_VAL :: u64 where "UART_TXWM_RESET_VAL = 0x00000020"

section \<open>Accesses of a driver\<close>

record chr_device =
  cd_bus :: bus_ptr
  cd_base :: addr_t

definition read_reg :: "'d plat \<Rightarrow> buses \<Rightarrow> bus_fp \<Rightarrow> bus_ptr \<Rightarrow> addr_t \<Rightarrow> u64 \<Rightarrow> 'd \<Rightarrow> (u64 \<times> 'd) outcome" where
  "read_reg p bs fp bus addr buf d = obind (call_read p bs fp bus addr buf d) (\<lambda>(_, buf, d). Ret (buf, d))"

definition write_reg :: "'d plat \<Rightarrow> buses \<Rightarrow> bus_fp \<Rightarrow> bus_ptr \<Rightarrow> addr_t \<Rightarrow> u64 \<Rightarrow> 'd \<Rightarrow> 'd outcome" where
  "write_reg p bs fp bus addr v d = obind (call_write p bs fp bus addr v d) (\<lambda>(_, d). Ret d)"

text \<open>Calls in a row, each to an offset from the base.\<close>

primrec write_regs :: "'d plat \<Rightarrow> buses \<Rightarrow> bus_fp \<Rightarrow> chr_device \<Rightarrow> (u64 \<times> u64) list \<Rightarrow> 'd \<Rightarrow> 'd outcome" where
  "write_regs p bs fp inst [] d = Ret d"
| "write_regs p bs fp inst (w # ws) d =
     obind (write_reg p bs fp (cd_bus inst) (cd_base inst + fst w) (snd w) d) (write_regs p bs fp inst ws)"

section \<open>NS16550\<close>

text \<open>\<open>junk\<close> is what the local variable \<open>buf\<close> holds before the first read.\<close>

definition ns16550_writes :: "'d plat \<Rightarrow> buses \<Rightarrow> chr_device \<Rightarrow> (u64 \<times> u64) list \<Rightarrow> 'd \<Rightarrow> 'd outcome" where
  "ns16550_writes p bs inst ws d =
     obind (ask_fp get_write_fp bs (cd_bus inst) 8) (\<lambda>bus_write8. if bus_write8 = NoFp then Ret d else write_regs p bs bus_write8 inst ws d)"

definition ns16550_init :: "'d plat \<Rightarrow> buses \<Rightarrow> u64 \<Rightarrow> chr_device \<Rightarrow> 'd \<Rightarrow> 'd outcome" where
  "ns16550_init p bs UART_FREQ inst d =
     ns16550_writes p bs inst
       [(UART_FIFO_CONTROL, UART_FCR_RTB_4 OR UART_FCR_RST_TRANSMIT OR UART_FCR_RST_RECEIVER OR UART_FCR_ENABLE),
        (UART_LINE_CONTROL, UART_LCR_DLAB),
        (UART_DIVISOR_LSB, (UART_FREQ div UART_BAUDRATE) AND 0xff),
        (UART_DIVISOR_MSB, drop_bit 8 (UART_FREQ div UART_BAUDRATE) AND 0xff),
        (UART_LINE_CONTROL, UART_LCR_DATA_8BIT OR UART_LCR_STOP_1BIT OR UART_LCR_PARITY_NONE)] d"

definition ns16550_enable :: "'d plat \<Rightarrow> buses \<Rightarrow> chr_device \<Rightarrow> 'd \<Rightarrow> 'd outcome" where
  "ns16550_enable p bs inst d = ns16550_writes p bs inst [(UART_MODEM_CONTROL, UART_MCR_RTSC OR UART_MCR_DTRC)] d"

definition ns16550_disable :: "'d plat \<Rightarrow> buses \<Rightarrow> chr_device \<Rightarrow> 'd \<Rightarrow> 'd outcome" where
  "ns16550_disable p bs inst d = ns16550_writes p bs inst [(UART_MODEM_CONTROL, 0)] d"

definition ns16550_enable_interrupt :: "'d plat \<Rightarrow> buses \<Rightarrow> chr_device \<Rightarrow> 'd \<Rightarrow> 'd outcome" where
  "ns16550_enable_interrupt p bs inst d = ns16550_writes p bs inst [(UART_INTR_ENABLE, UART_IER_RBFI)] d"

definition ns16550_disable_interrupt :: "'d plat \<Rightarrow> buses \<Rightarrow> chr_device \<Rightarrow> 'd \<Rightarrow> 'd outcome" where
  "ns16550_disable_interrupt p bs inst d = ns16550_writes p bs inst [(UART_INTR_ENABLE, 0)] d"

definition ns16550_getchar :: "nat \<Rightarrow> 'd plat \<Rightarrow> buses \<Rightarrow> u64 \<Rightarrow> chr_device \<Rightarrow> 'd \<Rightarrow> (u8 \<times> 'd) outcome" where
  "ns16550_getchar n p bs junk inst d =
     obind (ask_fp get_read_fp bs (cd_bus inst) 8) (\<lambda>bus_read8.
       if bus_read8 = NoFp then Ret (0, d)
       else obind (poll n (read_reg p bs bus_read8 (cd_bus inst) (cd_base inst + UART_LINE_STATUS))
                (\<lambda>buf. \<not> (buf AND UART_LSR_DATA_READY \<noteq> 0)) junk d) (\<lambda>(buf, d).
              obind (read_reg p bs bus_read8 (cd_bus inst) (cd_base inst + UART_RCV_BUFFER) buf d) (\<lambda>(buf, d). Ret (ucast buf, d))))"

definition ns16550_putchar :: "nat \<Rightarrow> 'd plat \<Rightarrow> buses \<Rightarrow> u64 \<Rightarrow> chr_device \<Rightarrow> u8 \<Rightarrow> 'd \<Rightarrow> (int \<times> 'd) outcome" where
  "ns16550_putchar n p bs junk inst c d =
     obind (ask_fp get_read_fp bs (cd_bus inst) 8) (\<lambda>bus_read8.
     obind (ask_fp get_write_fp bs (cd_bus inst) 8) (\<lambda>bus_write8.
       if bus_read8 = NoFp \<or> bus_write8 = NoFp then Ret (EOF, d)
       else obind (poll n (read_reg p bs bus_read8 (cd_bus inst) (cd_base inst + UART_LINE_STATUS))
                (\<lambda>buf. \<not> (buf AND UART_LSR_THRE \<noteq> 0)) junk d) (\<lambda>(buf, d).
              obind (write_reg p bs bus_write8 (cd_bus inst) (cd_base inst + UART_TRANS_HOLD) (ucast c) d) (\<lambda>d. Ret (0, d)))))"

section \<open>MSIM\<close>

definition msim_putchar :: "'d plat \<Rightarrow> buses \<Rightarrow> chr_device \<Rightarrow> u8 \<Rightarrow> 'd \<Rightarrow> (int \<times> 'd) outcome" where
  "msim_putchar p bs lp c d =
     obind (ask_fp get_write_fp bs (cd_bus lp) 8) (\<lambda>bus_write8.
       obind (write_reg p bs bus_write8 (cd_bus lp) (cd_base lp) (ucast c) d) (\<lambda>d. Ret (0, d)))"

definition msim_getchar :: "nat \<Rightarrow> 'd plat \<Rightarrow> buses \<Rightarrow> u64 \<Rightarrow> chr_device \<Rightarrow> 'd \<Rightarrow> (u8 \<times> 'd) outcome" where
  "msim_getchar n p bs junk kbd d =
     obind (ask_fp get_read_fp bs (cd_bus kbd) 8) (\<lambda>bus_read8.
       obind (poll n (read_reg p bs bus_read8 (cd_bus kbd) (cd_base kbd)) (\<lambda>b. b = 0) junk d) (\<lambda>(b, d). Ret (ucast b, d)))"

section \<open>Zynq\<close>

definition zynq_enable :: "'d plat \<Rightarrow> buses \<Rightarrow> chr_device \<Rightarrow> 'd \<Rightarrow> 'd outcome" where
  "zynq_enable p bs inst d =
     obind (ask_fp get_write_fp bs (cd_bus inst) 32) (\<lambda>bus_write32.
       write_regs p bs bus_write32 inst [(UART_OFFSET_CR, UART_CR_TX_EN OR UART_CR_RX_EN)] d)"

definition zynq_disable :: "'d plat \<Rightarrow> buses \<Rightarrow> chr_device \<Rightarrow> 'd \<Rightarrow> 'd outcome" where
  "zynq_disable p bs inst d =
     obind (ask_fp get_write_fp bs (cd_bus inst) 32) (\<lambda>bus_write32.
       write_regs p bs bus_write32 inst [(UART_OFFSET_CR, UART_CR_TX_DIS OR UART_CR_RX_DIS)] d)"

definition zynq_init :: "'d plat \<Rightarrow> buses \<Rightarrow> chr_device \<Rightarrow> 'd \<Rightarrow> 'd outcome" where
  "zynq_init p bs inst d =
     obind (ask_fp get_write_fp bs (cd_bus inst) 32) (\<lambda>bus_write32.
     obind (write_regs p bs bus_write32 inst [(UART_OFFSET_IDR, UART_IXR_MASK)] d) (\<lambda>d.
     obind (zynq_disable p bs inst d) (\<lambda>d.
       write_regs p bs bus_write32 inst
         [(UART_OFFSET_CR, UART_CR_TXRST OR UART_CR_RXRST),
          (UART_OFFSET_ISR, UART_IXR_MASK),
          (UART_OFFSET_MR, UART_MR_CHMODE_NORM OR UART_MR_CHARLEN_8_BIT OR UART_MR_PARITY_NONE OR UART_MR_STOPMODE_1_BIT),
          (UART_OFFSET_RXWM, UART_RXWM_RESET_VAL),
          (UART_OFFSET_TXWM, UART_TXWM_RESET_VAL),
          (UART_OFFSET_RXTOUT, UART_RXTOUT_DISABLE),
          (UART_OFFSET_BAUDGEN, 0x3E),
          (UART_OFFSET_BAUDDIV, 0x06),
          (UART_OFFSET_CR, UART_CR_RX_DIS OR UART_CR_TX_DIS OR UART_CR_STOPBRK)] d)))"

definition zynq_getchar :: "nat \<Rightarrow> 'd plat \<Rightarrow> buses \<Rightarrow> u64 \<Rightarrow> chr_device \<Rightarrow> 'd \<Rightarrow> (u8 \<times> 'd) outcome" where
  "zynq_getchar n p bs junk inst d =
     obind (ask_fp get_read_fp bs (cd_bus inst) 8) (\<lambda>bus_read8.
     obind (ask_fp get_read_fp bs (cd_bus inst) 32) (\<lambda>bus_read32.
     obind (poll n (read_reg p bs bus_read32 (cd_bus inst) (cd_base inst + UART_OFFSET_SR))
         (\<lambda>tmp. tmp AND UART_SR_RXEMPTY \<noteq> 0) junk d) (\<lambda>(tmp, d).
     obind (read_reg p bs bus_read8 (cd_bus inst) (cd_base inst + UART_OFFSET_FIFO) tmp d) (\<lambda>(tmp, d). Ret (ucast tmp, d)))))"

definition zynq_putchar :: "nat \<Rightarrow> 'd plat \<Rightarrow> buses \<Rightarrow> u64 \<Rightarrow> chr_device \<Rightarrow> u8 \<Rightarrow> 'd \<Rightarrow> (int \<times> 'd) outcome" where
  "zynq_putchar n p bs junk inst c d =
     obind (ask_fp get_read_fp bs (cd_bus inst) 32) (\<lambda>bus_read32.
     obind (ask_fp get_write_fp bs (cd_bus inst) 8) (\<lambda>bus_write8.
     obind (poll n (read_reg p bs bus_read32 (cd_bus inst) (cd_base inst + UART_OFFSET_SR))
         (\<lambda>tmp. tmp AND UART_SR_TXFULL \<noteq> 0) junk d) (\<lambda>(tmp, d).
     obind (write_reg p bs bus_write8 (cd_bus inst) (cd_base inst + UART_OFFSET_FIFO) (ucast c) d) (\<lambda>d. Ret (0, d)))))"

section \<open>Drivers of the firmware\<close>

text \<open>
  Built with \<open>RAW\<close>, the structures of the drivers are static variables: those of MSIM have their
  base from the start, that of the Zynq line is zero. The routines set only the bus.
\<close>

definition msim_raw_init :: "chr_device \<times> chr_device \<Rightarrow> chr_device \<times> chr_device" where
  "msim_raw_init s = ((fst s)\<lparr>cd_bus := early_memory_bus\<rparr>, (snd s)\<lparr>cd_bus := early_memory_bus\<rparr>)"

definition zynq_raw_static :: chr_device where
  "zynq_raw_static = \<lparr>cd_bus = NULL, cd_base = 0\<rparr>"

definition zynq_raw_init :: "'d plat \<Rightarrow> buses \<Rightarrow> chr_device \<Rightarrow> 'd \<Rightarrow> (chr_device \<times> 'd) outcome" where
  "zynq_raw_init p bs inst d =
     (let inst = inst\<lparr>cd_bus := early_memory_bus\<rparr> in obind (zynq_init p bs inst d) (\<lambda>d. Ret (inst, d)))"

definition zynq_raw_putchar :: "nat \<Rightarrow> 'd plat \<Rightarrow> buses \<Rightarrow> u64 \<Rightarrow> chr_device \<Rightarrow> u8 \<Rightarrow> 'd \<Rightarrow> (int \<times> 'd) outcome" where
  "zynq_raw_putchar n p bs junk inst c d = obind (zynq_putchar n p bs junk inst c d) (\<lambda>(_, d). Ret (0, d))"

text \<open>\<open>uart_puts\<close>; whether \<open>CONSOLE_NEED_CR\<close> is defined is an argument.\<close>

primrec uart_puts :: "bool \<Rightarrow> (u8 \<Rightarrow> 'd \<Rightarrow> (int \<times> 'd) outcome) \<Rightarrow> string \<Rightarrow> 'd \<Rightarrow> (int \<times> 'd) outcome" where
  "uart_puts need_cr putc [] d = Ret (0, d)"
| "uart_puts need_cr putc (c # s) d =
     obind (if need_cr \<and> c = CHR 0x0A then putc 0x0D d else Ret (0, d)) (\<lambda>(_, d).
       obind (putc (of_char c) d) (\<lambda>(_, d). uart_puts need_cr putc s d))"

section \<open>Drivers of the kernel\<close>

text \<open>
  The machine with the console, the structure of the line, that of the keyboard, the early
  mappings and the variable \<open>__early_mapped_base\<close>. A configuration has the addresses of the two
  functions the drivers register.
\<close>

record serial_machine = machine +
  sm_con :: console
  sm_uart :: chr_device
  sm_kbd :: chr_device
  sm_early :: early_state
  sm_mapped :: u32

record uart_cfg =
  fn_putchar :: u32
  fn_kputs :: u32
  cfg_base :: addr_t
  cfg_freq :: u64
  cfg_portio :: bool

definition console_on :: "uart_cfg \<Rightarrow> serial_machine \<Rightarrow> serial_machine" where
  "console_on cfg m = m\<lparr>sm_con := set_console (fn_putchar cfg) (fn_kputs cfg) (sm_con m)\<rparr>"

text \<open>Registering the two handlers; \<open>full\<close> is what happens when a queue is full.\<close>

definition add_handlers :: "serial_machine outcome \<Rightarrow> serial_machine \<Rightarrow> serial_machine outcome" where
  "add_handlers full m =
     obind (mmu_handlers_add UartMmu (mach_mmu m)) (\<lambda>(ret, h).
       if ret \<noteq> 0 then full
       else let m = m\<lparr>mach_mmu := h\<rparr>
            in obind (jump_handlers_add UartJump (mach_jump m)) (\<lambda>(ret, h). if ret \<noteq> 0 then full else Ret (m\<lparr>mach_jump := h\<rparr>)))"

definition ns16550_init_bus :: "uart_cfg \<Rightarrow> serial_machine \<Rightarrow> serial_machine" where
  "ns16550_init_bus cfg m =
     m\<lparr>sm_uart := (sm_uart m)\<lparr>cd_bus := (if cfg_portio cfg then portio_bus else early_memory_bus)\<rparr>\<rparr>"

definition ns16550_mmu_handler :: "uart_cfg \<Rightarrow> serial_machine \<Rightarrow> serial_machine" where
  "ns16550_mmu_handler cfg m = m\<lparr>sm_uart := (sm_uart m)\<lparr>cd_base := cfg_base cfg\<rparr>\<rparr>"

definition ns16550_jump_handler :: "uart_cfg \<Rightarrow> serial_machine \<Rightarrow> serial_machine" where
  "ns16550_jump_handler cfg m = console_on cfg (ns16550_init_bus cfg m)"

definition ns16550_console_init :: "'d plat \<Rightarrow> uart_cfg \<Rightarrow> serial_machine \<Rightarrow> 'd \<Rightarrow> (serial_machine \<times> 'd) outcome" where
  "ns16550_console_init p cfg m d =
     (let m = ns16550_init_bus cfg m
      in obind (ns16550_init p (mach_buses m) (cfg_freq cfg) (sm_uart m) d) (\<lambda>d.
         obind (ns16550_enable p (mach_buses m) (sm_uart m) d) (\<lambda>d.
         obind (add_handlers Hang (console_on cfg m)) (\<lambda>m. Ret (m, d)))))"

definition msim_console_init :: "uart_cfg \<Rightarrow> serial_machine \<Rightarrow> serial_machine outcome" where
  "msim_console_init cfg m =
     (let m = m\<lparr>sm_uart := (sm_uart m)\<lparr>cd_bus := early_memory_bus\<rparr>, sm_kbd := (sm_kbd m)\<lparr>cd_bus := early_memory_bus\<rparr>\<rparr>
      in add_handlers Hang (console_on cfg m))"

definition zynq_mmu_handler :: "serial_machine \<Rightarrow> serial_machine" where
  "zynq_mmu_handler m = m\<lparr>sm_uart := (sm_uart m)\<lparr>cd_base := ucast (sm_mapped m)\<rparr>\<rparr>"

definition zynq_jump_handler :: "uart_cfg \<Rightarrow> serial_machine \<Rightarrow> serial_machine" where
  "zynq_jump_handler cfg m = console_on cfg (m\<lparr>sm_uart := (sm_uart m)\<lparr>cd_bus := early_memory_bus\<rparr>\<rparr>)"

definition zynq_console_init :: "'d plat \<Rightarrow> uart_cfg \<Rightarrow> serial_machine \<Rightarrow> 'd \<Rightarrow> (serial_machine \<times> 'd) outcome" where
  "zynq_console_init p cfg m d =
     (let m = m\<lparr>sm_uart := (sm_uart m)\<lparr>cd_base := UART1_PHYSBASE, cd_bus := early_memory_bus\<rparr>\<rparr>
      in obind (zynq_init p (mach_buses m) (sm_uart m) d) (\<lambda>d.
         obind (zynq_enable p (mach_buses m) (sm_uart m) d) (\<lambda>d.
         let m = console_on cfg m
         in obind (early_mapping_add_kmmap UART0_PHYSBASE (push_bit 20 1) (sm_early m)) (\<lambda>(mapped, early).
              let m = m\<lparr>sm_early := early, sm_mapped := mapped\<rparr>
              in if mapped = 0 then Panic
                 else obind (add_handlers Panic (m\<lparr>sm_mapped := mapped + ucast (UART1_PHYSBASE - UART0_PHYSBASE)\<rparr>)) (\<lambda>m.
                        Ret (m, d))))))"

text \<open>
  Running the handlers in the queues. Handlers of MSIM do nothing.
\<close>

datatype driver = NS16550 | MSIM | Zynq

fun run_handler :: "driver \<Rightarrow> uart_cfg \<Rightarrow> handler \<Rightarrow> serial_machine \<Rightarrow> serial_machine" where
  "run_handler drv cfg MemJump m = m\<lparr>mach_buses := mem_jump_handler (mach_buses m)\<rparr>"
| "run_handler drv cfg PortJump m = m\<lparr>mach_buses := port_jump_handler (mach_buses m)\<rparr>"
| "run_handler NS16550 cfg UartMmu m = ns16550_mmu_handler cfg m"
| "run_handler NS16550 cfg UartJump m = ns16550_jump_handler cfg m"
| "run_handler MSIM cfg UartMmu m = m"
| "run_handler MSIM cfg UartJump m = m"
| "run_handler Zynq cfg UartMmu m = zynq_mmu_handler m"
| "run_handler Zynq cfg UartJump m = zynq_jump_handler cfg m"

definition named_handlers :: "(handler \<Rightarrow> 's \<Rightarrow> 's) \<Rightarrow> handler handlers \<Rightarrow> ('s \<Rightarrow> 's) handlers" where
  "named_handlers run h = \<lparr>h_count = h_count h, h_queue = map run (h_queue h)\<rparr>"

definition apply_mmu_handlers :: "driver \<Rightarrow> uart_cfg \<Rightarrow> serial_machine \<Rightarrow> serial_machine" where
  "apply_mmu_handlers drv cfg m = mmu_handlers_apply (named_handlers (run_handler drv cfg) (mach_mmu m)) m"

definition apply_jump_handlers :: "driver \<Rightarrow> uart_cfg \<Rightarrow> serial_machine \<Rightarrow> serial_machine" where
  "apply_jump_handlers drv cfg m = jump_handlers_apply (named_handlers (run_handler drv cfg) (mach_jump m)) m"

text \<open>The routine that a driver registers with the console; the result of the line is dropped.\<close>

definition early_putchar :: "driver \<Rightarrow> nat \<Rightarrow> 'd plat \<Rightarrow> u64 \<Rightarrow> serial_machine \<Rightarrow> char \<Rightarrow> 'd \<Rightarrow> (int \<times> 'd) outcome" where
  "early_putchar drv n p junk m c d =
     obind (case drv of
              NS16550 \<Rightarrow> ns16550_putchar n p (mach_buses m) junk (sm_uart m) (of_char c) d
            | MSIM \<Rightarrow> msim_putchar p (mach_buses m) (sm_uart m) (of_char c) d
            | Zynq \<Rightarrow> zynq_putchar n p (mach_buses m) junk (sm_uart m) (of_char c) d) (\<lambda>(_, d). Ret (0, d))"

section \<open>Lines\<close>

text \<open>
  What is asked of the hardware. Reading the status does not send anything; a status that is not
  busy means room for a byte; one of \<open>k\<close> reads shows such a status; and writing a byte when there
  is room sends it.
\<close>

definition transmitter :: "('d \<Rightarrow> u64 \<times> 'd) \<Rightarrow> (u64 \<Rightarrow> bool) \<Rightarrow> (u64 \<Rightarrow> 'd \<Rightarrow> 'd) \<Rightarrow> ('d \<Rightarrow> u8 list) \<Rightarrow> ('d \<Rightarrow> bool) \<Rightarrow> nat \<Rightarrow> bool" where
  "transmitter status busy put sent room k \<longleftrightarrow>
     (\<forall>d. sent (snd (status d)) = sent d) \<and>
     (\<forall>d. \<not> busy (fst (status d)) \<longrightarrow> room (snd (status d))) \<and>
     (\<forall>d. \<exists>j<k. \<not> busy (fst (status (polled status j d)))) \<and>
     (\<forall>d c. room d \<longrightarrow> sent (put (ucast (c :: u8)) d) = sent d @ [c])"

text \<open>The lines of the drivers at a base; the printer of MSIM has no status.\<close>

fun driver_line :: "driver \<Rightarrow> (width \<Rightarrow> addr_t \<Rightarrow> 'd \<Rightarrow> u64 \<times> 'd) \<Rightarrow> (width \<Rightarrow> addr_t \<Rightarrow> u64 \<Rightarrow> 'd \<Rightarrow> 'd) \<Rightarrow> addr_t \<Rightarrow>
    ('d \<Rightarrow> u8 list) \<Rightarrow> ('d \<Rightarrow> bool) \<Rightarrow> nat \<Rightarrow> bool" where
  "driver_line NS16550 rd wr b sent room k =
     transmitter (rd W8 (b + UART_LINE_STATUS)) (\<lambda>v. \<not> (v AND UART_LSR_THRE \<noteq> 0)) (wr W8 (b + UART_TRANS_HOLD)) sent room k"
| "driver_line MSIM rd wr b sent room k = (\<forall>d c. sent (wr W8 b (ucast (c :: u8)) d) = sent d @ [c])"
| "driver_line Zynq rd wr b sent room k =
     transmitter (rd W32 (b + UART_OFFSET_SR)) (\<lambda>v. v AND UART_SR_TXFULL \<noteq> 0) (wr W8 (b + UART_OFFSET_FIFO)) sent room k"

lemma transmitter_poll:
  assumes "transmitter status busy put sent room k" "k \<le> n"
  shows "\<exists>v d'. poll n (\<lambda>_ d. Ret (status d)) busy buf d = Ret (v, d') \<and> room d' \<and> sent d' = sent d"
proof -
  obtain j where "\<not> busy (fst (status (polled status j d)))" "j < n"
    using assms unfolding transmitter_def by (meson less_le_trans)
  from poll_until [of busy status, OF this, of buf] obtain i where
    i: "poll n (\<lambda>_ d. Ret (status d)) busy buf d = Ret (status (polled status i d))"
      "\<not> busy (fst (status (polled status i d)))" by blast
  let ?d = "polled status i d"
  have "sent ?d = sent d" using assms(1) by (intro polled_keeps) (simp add: transmitter_def)
  then have "sent (snd (status ?d)) = sent d" "room (snd (status ?d))" using assms(1) i(2) by (simp_all add: transmitter_def)
  then show ?thesis using i(1) by (cases "status ?d") simp
qed

lemma transmitterI:
  assumes "\<And>d. sent (snd (status d)) = sent d" "\<And>d. \<not> busy (fst (status d)) \<Longrightarrow> room (snd (status d))"
    and "\<And>d. \<exists>j<k. \<not> busy (fst (status (polled status j d)))"
    and "\<And>d c. room d \<Longrightarrow> sent (put (ucast (c :: u8)) d) = sent d @ [c]"
  shows "transmitter status busy put sent room k"
  using assms by (simp add: transmitter_def)

lemma transmitter_put: "transmitter status busy put sent room k \<Longrightarrow> room d \<Longrightarrow> sent (put (ucast (c :: u8)) d) = sent d @ [c]"
  by (simp add: transmitter_def)

context bus_access
begin

lemma read_reg_access: "read_reg p bs (fp w) bus addr = (\<lambda>_ d. Ret (rd w addr d))"
  by (intro ext) (simp add: read_reg_def access split: prod.splits)

lemma write_reg_access: "write_reg p bs (fp w) bus addr v d = Ret (wr w addr v d)"
  by (simp add: write_reg_def access)

lemma write_regs_access:
  "cd_bus inst = bus \<Longrightarrow> write_regs p bs (fp w) inst ws d = Ret (fold (\<lambda>x. wr w (cd_base inst + fst x) (snd x)) ws d)"
  by (induction ws arbitrary: d) (simp_all add: write_reg_access)

lemmas reg_access = ask_width fp_not_null read_reg_access write_reg_access write_regs_access

lemma ns16550_sends:
  assumes "cd_bus inst = bus" "driver_line NS16550 rd wr (cd_base inst) sent room k" "k \<le> n"
  shows "\<exists>d'. ns16550_putchar n p bs junk inst c d = Ret (0, d') \<and> sent d' = sent d @ [c]"
proof -
  note t = assms(2) [unfolded driver_line.simps]
  obtain v d' where "poll n (\<lambda>_ d. Ret (rd W8 (cd_base inst + UART_LINE_STATUS) d)) (\<lambda>v. \<not> (v AND UART_LSR_THRE \<noteq> 0)) junk d = Ret (v, d')"
    "room d'" "sent d' = sent d"
    using transmitter_poll [OF t assms(3)] by blast
  then show ?thesis
    using transmitter_put [OF t, of d' c] by (simp add: ns16550_putchar_def assms(1) reg_access)
qed

lemma zynq_sends:
  assumes "cd_bus inst = bus" "driver_line Zynq rd wr (cd_base inst) sent room k" "k \<le> n"
  shows "\<exists>d'. zynq_putchar n p bs junk inst c d = Ret (0, d') \<and> sent d' = sent d @ [c]"
proof -
  note t = assms(2) [unfolded driver_line.simps]
  obtain v d' where "poll n (\<lambda>_ d. Ret (rd W32 (cd_base inst + UART_OFFSET_SR) d)) (\<lambda>v. v AND UART_SR_TXFULL \<noteq> 0) junk d = Ret (v, d')"
    "room d'" "sent d' = sent d"
    using transmitter_poll [OF t assms(3)] by blast
  then show ?thesis
    using transmitter_put [OF t, of d' c] by (simp add: zynq_putchar_def assms(1) reg_access)
qed

lemma msim_sends:
  assumes "cd_bus inst = bus" "driver_line MSIM rd wr (cd_base inst) sent room k"
  shows "\<exists>d'. msim_putchar p bs inst c d = Ret (0, d') \<and> sent d' = sent d @ [c]"
  using assms by (simp add: msim_putchar_def reg_access)

lemma early_putchar_sends:
  assumes "cd_bus (sm_uart m) = bus" "mach_buses m = bs" "driver_line drv rd wr (cd_base (sm_uart m)) sent room k" "k \<le> n"
  shows "\<exists>d'. early_putchar drv n p junk m c d = Ret (0, d') \<and> sent d' = sent d @ [of_char c]"
  using ns16550_sends [OF assms(1) _ assms(4), of sent room junk "of_char c" d]
    zynq_sends [OF assms(1) _ assms(4), of sent room junk "of_char c" d]
    msim_sends [OF assms(1), of sent room k "of_char c" d] assms(2,3)
  by (cases drv) (auto simp: early_putchar_def)

end

section \<open>The console over a line\<close>

definition mem_bus_ready :: "buses \<Rightarrow> bool" where
  "mem_bus_ready bs \<longleftrightarrow> get_read_fp (bs early_memory_bus) = MemGetter \<and> get_write_fp (bs early_memory_bus) = MemGetter"

definition port_bus_ready :: "buses \<Rightarrow> bool" where
  "port_bus_ready bs \<longleftrightarrow> get_read_fp (bs portio_bus) = PortGetter \<and> get_write_fp (bs portio_bus) = PortGetter \<and> bd_bus (bs portio_bus) = NULL"

lemma mem_bus_ready_up: "mem_bus_ready bs \<Longrightarrow> mem_bus_up bs = bs"
  by (rule ext) (simp add: mem_bus_ready_def mem_bus_up_def set_getters_def)

lemma port_bus_ready_up: "port_bus_ready bs \<Longrightarrow> port_bus_up bs = bs"
  by (rule ext) (simp add: port_bus_ready_def port_bus_up_def)

text \<open>A driver on a line that works, over the memory bus or over the port bus.\<close>

definition mem_line_up :: "driver \<Rightarrow> nat \<Rightarrow> 'd plat \<Rightarrow> serial_machine \<Rightarrow> ('d \<Rightarrow> u8 list) \<Rightarrow> ('d \<Rightarrow> bool) \<Rightarrow> bool" where
  "mem_line_up drv n p m sent room \<longleftrightarrow> cd_bus (sm_uart m) = early_memory_bus \<and> mem_bus_ready (mach_buses m) \<and>
     driver_line drv (io_read p) (io_write p) (cd_base (sm_uart m)) sent room n"

definition port_line_up :: "driver \<Rightarrow> nat \<Rightarrow> 'd plat \<Rightarrow> serial_machine \<Rightarrow> ('d \<Rightarrow> u8 list) \<Rightarrow> ('d \<Rightarrow> bool) \<Rightarrow> bool" where
  "port_line_up drv n p m sent room \<longleftrightarrow> cd_bus (sm_uart m) = portio_bus \<and> port_bus_ready (mach_buses m) \<and> port_insns p \<and>
     driver_line drv (port_rd p) (port_wr p) (cd_base (sm_uart m)) sent room n"

definition text_of :: "u8 list \<Rightarrow> string" where
  "text_of bs = map (\<lambda>b. char_of (unat b)) bs"

lemma text_of_snoc [simp]: "text_of (xs @ [of_char c]) = text_of xs @ [c]"
proof -
  have "of_char c = (of_nat (of_char c) :: u8)" by (simp only: of_nat_of_char)
  then have "unat (of_char c :: u8) = of_char c" by (simp only: unat_of_nat) (simp add: nat_of_char_less_256)
  then show ?thesis by (simp add: text_of_def)
qed

interpretation mem_console: char_output "early_putchar drv n p junk m" "\<lambda>d. text_of (sent d)" "\<lambda>d. mem_line_up drv n p m sent room"
  for drv n p junk m sent room
proof
  fix d c
  assume up: "mem_line_up drv n p m sent room"
  then have "mem_bus_up (mach_buses m) = mach_buses m" by (simp add: mem_line_up_def mem_bus_ready_up)
  then obtain d' where "early_putchar drv n p junk m c d = Ret (0, d')" "sent d' = sent d @ [of_char c]"
    using up mem_bus.early_putchar_sends [of m "mach_buses m" drv p sent room n n junk c d] by (auto simp: mem_line_up_def)
  then show "\<exists>d'. early_putchar drv n p junk m c d = Ret (0, d') \<and> mem_line_up drv n p m sent room \<and>
      text_of (sent d') = text_of (sent d) @ [c]"
    using up by simp
qed

interpretation port_console: char_output "early_putchar drv n p junk m" "\<lambda>d. text_of (sent d)" "\<lambda>d. port_line_up drv n p m sent room"
  for drv n p junk m sent room
proof
  fix d c
  assume up: "port_line_up drv n p m sent room"
  then have "port_bus_up (mach_buses m) = mach_buses m" "with_ports p = p"
    by (simp_all add: port_line_up_def port_bus_ready_up with_ports_def)
  then obtain d' where "early_putchar drv n p junk m c d = Ret (0, d')" "sent d' = sent d @ [of_char c]"
    using up port_bus.early_putchar_sends [of m "mach_buses m" drv p sent room n n junk c d] by (auto simp: port_line_up_def)
  then show "\<exists>d'. early_putchar drv n p junk m c d = Ret (0, d') \<and> port_line_up drv n p m sent room \<and>
      text_of (sent d') = text_of (sent d) @ [c]"
    using up by simp
qed

text \<open>The kernel's surroundings once a driver is the console: its two functions are found in both address spaces.\<close>

definition console_env :: "(u32 \<Rightarrow> u32) \<Rightarrow> (u32 \<Rightarrow> u32) \<Rightarrow> int \<Rightarrow> uart_cfg \<Rightarrow> (char \<Rightarrow> 'd \<Rightarrow> (int \<times> 'd) outcome) \<Rightarrow> 'd env" where
  "console_env premap postmap space cfg putc =
     \<lparr>env_premap = premap, env_postmap = postmap, env_space = space,
      putchar_at = (\<lambda>a. if a = fn_putchar cfg \<or> a = premap_addr premap (fn_putchar cfg) then Some putc else None),
      dk = (\<lambda>a. a = fn_kputs cfg \<or> a = premap_addr premap (fn_kputs cfg))\<rparr>"

lemma get_fp_high:
  assumes "KERN_BASE \<le> a" "space = 0 \<or> space = 1"
  shows "get_fp (console_env premap postmap space cfg putc) a = (if space = 0 then premap_addr premap a else a)"
  using assms by (auto simp: get_fp_def console_env_def premap_addr_def)

text \<open>
  C37: Once a driver has become the console, \<open>kputs\<close> prints a string on its line, byte by byte and
  with a carriage return before every line feed, in both address spaces: over the memory bus for
  the three drivers, and over the ports of i386. A byte is written only when the line has room.
\<close>

theorem console_prints:
  assumes "mem_line_up drv n p m sent room \<or> port_line_up drv n p m sent room"
    and "sm_con m = \<lparr>con_putchar = fn_putchar cfg, con_puts = fn_kputs cfg\<rparr>"
    and "KERN_BASE \<le> fn_putchar cfg" "KERN_BASE \<le> fn_kputs cfg" "space = 0 \<or> space = 1"
    and "premap_addr premap (fn_putchar cfg) \<noteq> 0" "premap_addr premap (fn_kputs cfg) \<noteq> 0"
  shows "\<exists>d'. kputs (console_env premap postmap space cfg (early_putchar drv n p junk m)) (sm_con m) s d = Ret (0, d') \<and>
    text_of (sent d') = text_of (sent d) @ with_cr s"
proof -
  let ?e = "console_env premap postmap space cfg (early_putchar drv n p junk m)"
  have nz: "fn_putchar cfg \<noteq> 0" "fn_kputs cfg \<noteq> 0" using assms(3,4) by (auto simp: KERN_BASE_def)
  have g: "get_fp ?e (con_puts (sm_con m)) \<noteq> 0" "dk ?e (get_fp ?e (con_puts (sm_con m)))"
    "get_fp ?e (con_putchar (sm_con m)) \<noteq> 0"
    "putchar_at ?e (get_fp ?e (con_putchar (sm_con m))) = Some (early_putchar drv n p junk m)"
    using assms(2-7) nz by (auto simp: get_fp_high) (auto simp: console_env_def)
  from assms(1) show ?thesis
  proof
    assume "mem_line_up drv n p m sent room"
    then show ?thesis using mem_console.kputs_out [OF g] by blast
  next
    assume "port_line_up drv n p m sent room"
    then show ?thesis using port_console.kputs_out [OF g] by blast
  qed
qed

text \<open>A line of i386 that is busy for one read of its status after every byte.\<close>

record uart_sim =
  sim_sent :: "u8 list"
  sim_busy :: bool

definition sim_plat :: "uart_sim plat" where
  "sim_plat = \<lparr>iomap = flat_iomap, port_insns = True, hw_load = (\<lambda>w a d. (0, d)), hw_store = (\<lambda>w a v d. d),
     hw_in = (\<lambda>w a d. if a = 0x3fd then (if sim_busy d then (0, d\<lparr>sim_busy := False\<rparr>) else (0x20, d)) else (0, d)),
     hw_out = (\<lambda>w a v d. if a = 0x3f8 \<and> \<not> sim_busy d then d\<lparr>sim_sent := sim_sent d @ [ucast v], sim_busy := True\<rparr> else d)\<rparr>"

definition sim_machine :: serial_machine where
  "sim_machine = \<lparr>mach_buses = set_getters portio_bus PortGetter initial_buses, mach_mmu = \<lparr>h_count = 0, h_queue = []\<rparr>,
     mach_jump = \<lparr>h_count = 0, h_queue = []\<rparr>, sm_con = \<lparr>con_putchar = 0x80001000, con_puts = 0x80002000\<rparr>,
     sm_uart = \<lparr>cd_bus = portio_bus, cd_base = I386_UART_BASE\<rparr>, sm_kbd = \<lparr>cd_bus = NULL, cd_base = 0\<rparr>,
     sm_early = \<lparr>em_count = 0, em_queue = [], mem_top = 0, kmmap_top = 0\<rparr>, sm_mapped = 0\<rparr>"

definition sim_cfg :: uart_cfg where
  "sim_cfg = \<lparr>fn_putchar = 0x80001000, fn_kputs = 0x80002000, cfg_base = I386_UART_BASE, cfg_freq = I386_UART_FREQ, cfg_portio = True\<rparr>"

lemma byte_of_u64: "(ucast (take_bit 8 (ucast (c :: u8) :: u64)) :: u8) = c"
  by (rule bit_word_eqI) (simp add: bit_simps)

lemma sim_line_up: "port_line_up NS16550 2 sim_plat sim_machine sim_sent (\<lambda>d. \<not> sim_busy d)"
proof -
  let ?st = "port_rd sim_plat W8 (I386_UART_BASE + UART_LINE_STATUS)"
  have st: "?st d = (if sim_busy d then (0, d\<lparr>sim_busy := False\<rparr>) else (0x20, d))" for d
    by (simp add: port_rd_def sim_plat_def I386_UART_BASE_def UART_LINE_STATUS_def)
  have "transmitter ?st (\<lambda>v. \<not> (v AND UART_LSR_THRE \<noteq> 0)) (port_wr sim_plat W8 (I386_UART_BASE + UART_TRANS_HOLD))
      sim_sent (\<lambda>d. \<not> sim_busy d) 2"
  proof (rule transmitterI)
    show "\<exists>j<2. \<not> \<not> (fst (?st (polled ?st j d)) AND UART_LSR_THRE \<noteq> 0)" for d
      by (rule exI [of _ 1]) (simp add: st UART_LSR_THRE_def)
    show "sim_sent (port_wr sim_plat W8 (I386_UART_BASE + UART_TRANS_HOLD) (ucast c) d) = sim_sent d @ [c]" if "\<not> sim_busy d" for d c
      using that byte_of_u64 [of c] by (simp add: port_wr_def sim_plat_def I386_UART_BASE_def UART_TRANS_HOLD_def)
  qed (simp_all add: st)
  then show ?thesis
    by (simp add: port_line_up_def port_bus_ready_def sim_machine_def set_getters_def initial_buses_def empty_bus_def sim_plat_def)
qed

theorem console_prints_witness:
  "\<exists>d'. kputs (console_env i386_premap i386_postmap 1 sim_cfg (early_putchar NS16550 2 sim_plat 0 sim_machine)) (sm_con sim_machine)
     (''ok'' @ [CHR 0x0A]) \<lparr>sim_sent = [], sim_busy = True\<rparr> = Ret (0, d') \<and> text_of (sim_sent d') = ''ok'' @ [CHR 0x0D, CHR 0x0A]"
  using console_prints [of NS16550 2 sim_plat sim_machine sim_sent "\<lambda>d. \<not> sim_busy d" sim_cfg 1 i386_premap i386_postmap 0
      "''ok'' @ [CHR 0x0A]" "\<lparr>sim_sent = [], sim_busy = True\<rparr>"] sim_line_up
  by (simp add: sim_machine_def sim_cfg_def KERN_BASE_def premap_addr_def i386_premap_def with_cr_def text_of_def)

section \<open>Receiving\<close>

text \<open>
  A receiver: \<open>incoming\<close> are the bytes that have arrived or will. When there is one, one of \<open>k\<close> reads
  of the status says so, and reading the data register then takes it.
\<close>

definition receiver :: "('d \<Rightarrow> u64 \<times> 'd) \<Rightarrow> (u64 \<Rightarrow> bool) \<Rightarrow> ('d \<Rightarrow> u64 \<times> 'd) \<Rightarrow> ('d \<Rightarrow> u8 list) \<Rightarrow> ('d \<Rightarrow> bool) \<Rightarrow> nat \<Rightarrow> bool" where
  "receiver status none get incoming ready k \<longleftrightarrow>
     (\<forall>d. incoming (snd (status d)) = incoming d) \<and>
     (\<forall>d. \<not> none (fst (status d)) \<longrightarrow> ready (snd (status d))) \<and>
     (\<forall>d. incoming d \<noteq> [] \<longrightarrow> (\<exists>j<k. \<not> none (fst (status (polled status j d))))) \<and>
     (\<forall>d. ready d \<longrightarrow> incoming d = ucast (fst (get d)) # incoming (snd (get d)))"

lemma receiver_poll:
  assumes "receiver status none get incoming ready k" "k \<le> n" "incoming d \<noteq> []"
  shows "\<exists>v d'. poll n (\<lambda>_ d. Ret (status d)) none buf d = Ret (v, d') \<and> ready d' \<and> incoming d' = incoming d"
proof -
  obtain j where "\<not> none (fst (status (polled status j d)))" "j < n"
    using assms unfolding receiver_def by (meson less_le_trans)
  from poll_until [of none status, OF this, of buf] obtain i where
    i: "poll n (\<lambda>_ d. Ret (status d)) none buf d = Ret (status (polled status i d))"
      "\<not> none (fst (status (polled status i d)))" by blast
  let ?d = "polled status i d"
  have "incoming ?d = incoming d" using assms(1) by (intro polled_keeps) (simp add: receiver_def)
  then have "incoming (snd (status ?d)) = incoming d" "ready (snd (status ?d))"
    using assms(1) i(2) by (simp_all add: receiver_def)
  then show ?thesis using i(1) by (cases "status ?d") simp
qed

lemma receiver_get:
  "receiver status none get incoming ready k \<Longrightarrow> ready d \<Longrightarrow> incoming d = ucast (fst (get d)) # incoming (snd (get d))"
  by (simp add: receiver_def)

text \<open>The keyboard of MSIM: reading it takes a character, and gives zero when there is none.\<close>

definition keyboard :: "('d \<Rightarrow> u64 \<times> 'd) \<Rightarrow> ('d \<Rightarrow> u8 list) \<Rightarrow> nat \<Rightarrow> bool" where
  "keyboard rd incoming k \<longleftrightarrow>
     (\<forall>d. fst (rd d) = 0 \<longrightarrow> incoming (snd (rd d)) = incoming d) \<and>
     (\<forall>d. fst (rd d) \<noteq> 0 \<longrightarrow> incoming d = ucast (fst (rd d)) # incoming (snd (rd d))) \<and>
     (\<forall>d. incoming d \<noteq> [] \<longrightarrow> (\<exists>j<k. fst (rd (polled rd j d)) \<noteq> 0))"

lemma keyboard_idle:
  assumes "keyboard rd incoming k" "\<forall>l<i. fst (rd (polled rd l d)) = 0"
  shows "incoming (polled rd i d) = incoming d"
  using assms(2)
proof (induction i arbitrary: d)
  case (Suc i)
  have "incoming (polled rd i (snd (rd d))) = incoming (snd (rd d))"
    using Suc.prems by (intro Suc.IH) auto
  moreover have "fst (rd d) = 0" using spec [OF Suc.prems, of 0] by simp
  ultimately show ?case using assms(1) by (simp add: keyboard_def)
qed simp

context bus_access
begin

lemma ns16550_receives:
  assumes "cd_bus inst = bus" "k \<le> n" "incoming d = c # cs"
    and r: "receiver (rd W8 (cd_base inst + UART_LINE_STATUS)) (\<lambda>v. \<not> (v AND UART_LSR_DATA_READY \<noteq> 0)) (rd W8 (cd_base inst + UART_RCV_BUFFER)) incoming ready k"
  shows "\<exists>d'. ns16550_getchar n p bs junk inst d = Ret (c, d') \<and> incoming d' = cs"
proof -
  obtain v d' where d': "poll n (\<lambda>_ d. Ret (rd W8 (cd_base inst + UART_LINE_STATUS) d)) (\<lambda>v. \<not> (v AND UART_LSR_DATA_READY \<noteq> 0)) junk d = Ret (v, d')"
    "ready d'" "incoming d' = c # cs"
    using receiver_poll [OF r assms(2), of d junk] assms(3) by auto
  then show ?thesis
    using receiver_get [OF r d'(2)] by (simp add: ns16550_getchar_def assms(1) reg_access case_prod_beta)
qed

lemma zynq_receives:
  assumes "cd_bus inst = bus" "k \<le> n" "incoming d = c # cs"
    and r: "receiver (rd W32 (cd_base inst + UART_OFFSET_SR)) (\<lambda>v. v AND UART_SR_RXEMPTY \<noteq> 0) (rd W8 (cd_base inst + UART_OFFSET_FIFO)) incoming ready k"
  shows "\<exists>d'. zynq_getchar n p bs junk inst d = Ret (c, d') \<and> incoming d' = cs"
proof -
  obtain v d' where d': "poll n (\<lambda>_ d. Ret (rd W32 (cd_base inst + UART_OFFSET_SR) d)) (\<lambda>v. v AND UART_SR_RXEMPTY \<noteq> 0) junk d = Ret (v, d')"
    "ready d'" "incoming d' = c # cs"
    using receiver_poll [OF r assms(2), of d junk] assms(3) by auto
  then show ?thesis
    using receiver_get [OF r d'(2)] by (simp add: zynq_getchar_def assms(1) reg_access case_prod_beta)
qed

lemma msim_receives:
  assumes "cd_bus inst = bus" "k \<le> n" "incoming d = c # cs" and kb: "keyboard (rd W8 (cd_base inst)) incoming k"
  shows "\<exists>d'. msim_getchar n p bs junk inst d = Ret (c, d') \<and> incoming d' = cs"
proof -
  let ?st = "rd W8 (cd_base inst)"
  obtain j where "\<not> fst (?st (polled ?st j d)) = 0" "j < n"
  proof -
    have "\<exists>j<k. fst (?st (polled ?st j d)) \<noteq> 0" using kb assms(3) by (simp add: keyboard_def)
    then show ?thesis using that assms(2) by auto
  qed
  from poll_until [of "\<lambda>v. v = 0" ?st, OF this, of junk] obtain i where
    i: "poll n (\<lambda>_ d. Ret (?st d)) (\<lambda>v. v = 0) junk d = Ret (?st (polled ?st i d))"
      "fst (?st (polled ?st i d)) \<noteq> 0" "\<forall>l<i. fst (?st (polled ?st l d)) = 0" by blast
  have "incoming (polled ?st i d) = c # cs" using keyboard_idle [OF kb i(3)] assms(3) by simp
  then have "ucast (fst (?st (polled ?st i d))) = c" "incoming (snd (?st (polled ?st i d))) = cs"
    using kb i(2) by (simp_all add: keyboard_def)
  then show ?thesis using i(1) by (simp add: msim_getchar_def assms(1) reg_access case_prod_beta)
qed

end

section \<open>Becoming the console\<close>

lemma write_regs_mem:
  "cd_bus inst = early_memory_bus \<Longrightarrow> mem_bus_ready bs \<Longrightarrow>
    write_regs p bs (MemFp w) inst ws d = Ret (fold (\<lambda>x. io_write p w (cd_base inst + fst x) (snd x)) ws d)"
  using mem_bus.write_regs_access [of inst p bs w ws d] by (simp add: mem_bus_ready_up)

lemma ask_write_mem:
  "mem_bus_ready bs \<Longrightarrow> ask_fp get_write_fp bs early_memory_bus 32 = Ret (MemFp W32)"
  using mem_bus.ask_write [of bs W32] by (simp add: mem_bus_ready_up)

lemma zynq_init_returns:
  assumes "cd_bus inst = early_memory_bus" "mem_bus_ready bs"
  shows "\<exists>d'. zynq_init p bs inst d = Ret d'" "\<exists>d'. zynq_enable p bs inst d = Ret d'"
  using assms by (simp_all add: zynq_init_def zynq_enable_def zynq_disable_def ask_write_mem write_regs_mem del: write_regs.simps)

text \<open>The queues as \<open>master_early_init\<close> leaves them: room for ten entries, none used.\<close>

definition fresh_machine :: "serial_machine \<Rightarrow> bool" where
  "fresh_machine m \<longleftrightarrow> h_count (mach_jump m) = 0 \<and> length (h_queue (mach_jump m)) = JUMP_HANDLER_QUEUE_LENGTH \<and>
     h_count (mach_mmu m) = 0 \<and> length (h_queue (mach_mmu m)) = MMU_HANDLER_QUEUE_LENGTH \<and>
     em_count (sm_early m) < EARLY_MAPPING_QUEUE_LENGTH \<and> length (em_queue (sm_early m)) = EARLY_MAPPING_QUEUE_LENGTH \<and>
     kmmap_top (sm_early m) = KMMAP_BASE"

lemmas queue_defs = mmu_handlers_add_def jump_handlers_add_def MMU_HANDLER_QUEUE_LENGTH_def JUMP_HANDLER_QUEUE_LENGTH_def
  EARLY_MAPPING_QUEUE_LENGTH_def

lemma add_handlers_fresh:
  assumes "h_count (mach_mmu m) = 0" "h_count (mach_jump m) = 1"
  shows "add_handlers full m = Ret (m\<lparr>mach_mmu := \<lparr>h_count = 1, h_queue = (h_queue (mach_mmu m))[0 := UartMmu]\<rparr>,
      mach_jump := \<lparr>h_count = 2, h_queue = (h_queue (mach_jump m))[1 := UartJump]\<rparr>\<rparr>)"
  using assms by (simp add: add_handlers_def queue_defs Let_def)

lemma apply_two:
  assumes "h_count (mach_mmu m) = 1" "h_queue (mach_mmu m) ! 0 = UartMmu" "h_queue (mach_mmu m) \<noteq> []"
    and "h_count (mach_jump m) = 2" "h_queue (mach_jump m) ! 0 = first" "h_queue (mach_jump m) ! 1 = UartJump" "1 < length (h_queue (mach_jump m))"
    and "\<And>m. mach_jump (run_handler drv cfg UartMmu m) = mach_jump m"
  shows "apply_jump_handlers drv cfg (apply_mmu_handlers drv cfg m) =
    run_handler drv cfg UartJump (run_handler drv cfg first (run_handler drv cfg UartMmu m))"
proof -
  have "[0..<Suc 0] = [0]" "[0..<Suc (Suc 0)] = [0, Suc 0]" by simp_all
  moreover have "0 < length (h_queue (mach_jump m))" using assms(7) by linarith
  ultimately show ?thesis
    using assms by (simp add: apply_jump_handlers_def apply_mmu_handlers_def mmu_handlers_apply_def jump_handlers_apply_def
        named_handlers_def numeral_2_eq_2 nth_map)
qed

lemma io_mem_init_fresh:
  assumes "fresh_machine m"
  shows "io_mem_init early_memory_bus m = Ret (m\<lparr>mach_buses := set_getters early_memory_bus MemGetter (mach_buses m),
    mach_jump := \<lparr>h_count = 1, h_queue = (h_queue (mach_jump m))[0 := MemJump]\<rparr>\<rparr>)"
  using assms by (simp add: io_mem_init_def fresh_machine_def queue_defs)

lemma set_getters_ready [simp]: "mem_bus_ready (set_getters early_memory_bus MemGetter bs)"
  by (simp add: mem_bus_ready_def set_getters_def)

lemma kmmap_fresh:
  assumes "fresh_machine m"
  shows "early_mapping_add_kmmap b sz (sm_early m) = Ret (KMMAP_BASE, (sm_early m)\<lparr>em_count := em_count (sm_early m) + 1,
    em_queue := (em_queue (sm_early m))[em_count (sm_early m) :=
      \<lparr>em_paddr = b, em_vaddr = KMMAP_BASE, em_size = sz, em_type = EARLY_MAPPING_KMMAP\<rparr>],
    kmmap_top := KMMAP_BASE + sz\<rparr>)"
  using assms by (simp add: early_mapping_add_kmmap_def early_mapping_add_def fresh_machine_def queue_defs Let_def KMMAP_BASE_def RESERVED_BASE_def)

definition zynq_registered :: "uart_cfg \<Rightarrow> serial_machine \<Rightarrow> serial_machine \<Rightarrow> serial_machine" where
  "zynq_registered cfg m0 m = m\<lparr>
      mach_mmu := \<lparr>h_count = 1, h_queue = (h_queue (mach_mmu m0))[0 := UartMmu]\<rparr>,
      mach_jump := \<lparr>h_count = 2, h_queue = (h_queue (mach_jump m0))[0 := MemJump, 1 := UartJump]\<rparr>,
      sm_con := \<lparr>con_putchar = fn_putchar cfg, con_puts = fn_kputs cfg\<rparr>,
      sm_uart := \<lparr>cd_bus = early_memory_bus, cd_base = UART1_PHYSBASE\<rparr>,
      sm_early := (sm_early m0)\<lparr>em_count := em_count (sm_early m0) + 1,
        em_queue := (em_queue (sm_early m0))[em_count (sm_early m0) :=
          \<lparr>em_paddr = UART0_PHYSBASE, em_vaddr = KMMAP_BASE, em_size = push_bit 20 1, em_type = EARLY_MAPPING_KMMAP\<rparr>],
        kmmap_top := KMMAP_BASE + push_bit 20 1\<rparr>,
      sm_mapped := KMMAP_BASE + 0x1000\<rparr>"

lemma zynq_console_fresh:
  assumes "fresh_machine m0" and "io_mem_init early_memory_bus m0 = Ret m"
  shows "\<exists>d'. zynq_console_init p cfg m d = Ret (zynq_registered cfg m0 m, d')"
proof -
  let ?inst = "(sm_uart m0)\<lparr>cd_base := UART1_PHYSBASE, cd_bus := early_memory_bus\<rparr>"
  let ?bs = "set_getters early_memory_bus MemGetter (mach_buses m0)"
  obtain d1 where d1: "zynq_init p ?bs ?inst d = Ret d1" using zynq_init_returns(1) [of ?inst ?bs p d] by auto
  obtain d2 where d2: "zynq_enable p ?bs ?inst d1 = Ret d2" using zynq_init_returns(2) [of ?inst ?bs p d1] by auto
  have m: "m = m0\<lparr>mach_buses := ?bs, mach_jump := \<lparr>h_count = 1, h_queue = (h_queue (mach_jump m0))[0 := MemJump]\<rparr>\<rparr>"
    using io_mem_init_fresh [OF assms(1)] assms(2) by simp
  have f: "fresh_machine m0" "h_count (mach_mmu m0) = 0" using assms(1) by (simp_all add: fresh_machine_def)
  have "KMMAP_BASE \<noteq> 0" "ucast (UART1_PHYSBASE - UART0_PHYSBASE) = (0x1000 :: u32)"
    by (simp_all add: KMMAP_BASE_def UART1_PHYSBASE_def UART0_PHYSBASE_def)
  then show ?thesis
    using d1 d2 f(2) kmmap_fresh [OF f(1), of UART0_PHYSBASE "push_bit 20 1"]
    by (simp add: zynq_console_init_def Let_def m console_on_def set_console_def add_handlers_fresh zynq_registered_def del: push_bit_of_1)
qed

text \<open>
  The Zynq driver becomes the console. It talks to the line at its physical address; a
  mapping of the line at the top of the kernel's space is queued; and once the handlers have run,
  after the MMU is on and after the jump to the high address space, the driver uses the mapped
  address that belongs to the same line, on a bus that works, and the console is set. In the
  firmware, however, the base of the line is never set, so that the driver writes to address 0.
\<close>

theorem zynq_console:
  assumes "fresh_machine m0" and "io_mem_init early_memory_bus m0 = Ret m"
  shows "\<exists>m1 d1. zynq_console_init p cfg m d = Ret (m1, d1) \<and>
    sm_uart m1 = \<lparr>cd_bus = early_memory_bus, cd_base = UART1_PHYSBASE\<rparr> \<and> mem_bus_ready (mach_buses m1) \<and>
    em_queue (sm_early m1) ! em_count (sm_early m0) =
      \<lparr>em_paddr = UART0_PHYSBASE, em_vaddr = KMMAP_BASE, em_size = 0x100000, em_type = EARLY_MAPPING_KMMAP\<rparr> \<and>
    (let m2 = apply_jump_handlers Zynq cfg (apply_mmu_handlers Zynq cfg m1)
     in cd_base (sm_uart m2) - ucast KMMAP_BASE = UART1_PHYSBASE - UART0_PHYSBASE \<and> cd_bus (sm_uart m2) = early_memory_bus \<and>
        mem_bus_ready (mach_buses m2) \<and> sm_con m2 = \<lparr>con_putchar = fn_putchar cfg, con_puts = fn_kputs cfg\<rparr>) \<and>
    (\<forall>inst d'. zynq_raw_init p bs zynq_raw_static d = Ret (inst, d') \<longrightarrow> cd_base inst = 0)"
proof -
  obtain d1 where d1: "zynq_console_init p cfg m d = Ret (zynq_registered cfg m0 m, d1)" (is "_ = Ret (?m1, _)")
    using zynq_console_fresh [OF assms, of p cfg d] by blast
  have len: "length (h_queue (mach_jump m0)) = 10" "length (h_queue (mach_mmu m0)) = 10" "em_count (sm_early m0) < 10"
    "length (em_queue (sm_early m0)) = 10"
    using assms(1) by (simp_all add: fresh_machine_def queue_defs)
  have ready: "mem_bus_ready (mach_buses m)" using assms(2) io_mem_init_fresh [OF assms(1)] by auto
  have "apply_jump_handlers Zynq cfg (apply_mmu_handlers Zynq cfg ?m1) =
      run_handler Zynq cfg UartJump (run_handler Zynq cfg MemJump (run_handler Zynq cfg UartMmu ?m1))"
    using len by (intro apply_two) (auto simp: zynq_mmu_handler_def zynq_registered_def)
  moreover have "(ucast (KMMAP_BASE + 0x1000) :: u64) - ucast KMMAP_BASE = UART1_PHYSBASE - UART0_PHYSBASE"
    by (simp add: KMMAP_BASE_def UART1_PHYSBASE_def UART0_PHYSBASE_def)
  moreover have "cd_base inst = 0" if "zynq_raw_init p bs zynq_raw_static d = Ret (inst, d')" for inst d'
    using that by (auto simp: zynq_raw_init_def zynq_raw_static_def Let_def obind_Ret_conv)
  ultimately show ?thesis
    using d1 ready len
    by (auto simp: zynq_jump_handler_def zynq_mmu_handler_def console_on_def set_console_def mem_jump_handler_def zynq_registered_def Let_def)
qed

theorem zynq_console_witness:
  "\<exists>m1 d1. zynq_console_init echo_plat sim_cfg
      (sim_machine\<lparr>mach_buses := set_getters early_memory_bus MemGetter initial_buses,
         mach_mmu := \<lparr>h_count = 0, h_queue = replicate 10 UartMmu\<rparr>, mach_jump := \<lparr>h_count = 1, h_queue = (replicate 10 UartMmu)[0 := MemJump]\<rparr>,
         sm_early := \<lparr>em_count = 0, em_queue = replicate 10 \<lparr>em_paddr = 0, em_vaddr = 0, em_size = 0, em_type = 0\<rparr>, mem_top = KERN_BASE, kmmap_top = KMMAP_BASE\<rparr>\<rparr>)
      [] = Ret (m1, d1) \<and>
    cd_base (sm_uart (apply_jump_handlers Zynq sim_cfg (apply_mmu_handlers Zynq sim_cfg m1))) = 0xf0001000"
proof -
  let ?start = "sim_machine\<lparr>mach_buses := initial_buses, mach_mmu := \<lparr>h_count = 0, h_queue = replicate 10 UartMmu\<rparr>,
      mach_jump := \<lparr>h_count = 0, h_queue = replicate 10 UartMmu\<rparr>,
      sm_early := \<lparr>em_count = 0, em_queue = replicate 10 \<lparr>em_paddr = 0, em_vaddr = 0, em_size = 0, em_type = 0\<rparr>, mem_top = KERN_BASE, kmmap_top = KMMAP_BASE\<rparr>\<rparr>"
  let ?m = "sim_machine\<lparr>mach_buses := set_getters early_memory_bus MemGetter initial_buses,
         mach_mmu := \<lparr>h_count = 0, h_queue = replicate 10 UartMmu\<rparr>, mach_jump := \<lparr>h_count = 1, h_queue = (replicate 10 UartMmu)[0 := MemJump]\<rparr>,
         sm_early := \<lparr>em_count = 0, em_queue = replicate 10 \<lparr>em_paddr = 0, em_vaddr = 0, em_size = 0, em_type = 0\<rparr>, mem_top = KERN_BASE, kmmap_top = KMMAP_BASE\<rparr>\<rparr>"
  have f: "fresh_machine ?start" unfolding fresh_machine_def by (intro conjI) (simp_all add: queue_defs)
  have "io_mem_init early_memory_bus ?start = Ret ?m" using io_mem_init_fresh [OF f] by simp
  from zynq_console [OF f this, of echo_plat sim_cfg "[]" initial_buses]
  obtain m1 d1 where *: "zynq_console_init echo_plat sim_cfg ?m [] = Ret (m1, d1)"
    "cd_base (sm_uart (apply_jump_handlers Zynq sim_cfg (apply_mmu_handlers Zynq sim_cfg m1))) - ucast KMMAP_BASE = UART1_PHYSBASE - UART0_PHYSBASE"
    unfolding Let_def by blast
  from *(2) have "cd_base (sm_uart (apply_jump_handlers Zynq sim_cfg (apply_mmu_handlers Zynq sim_cfg m1))) =
      ucast KMMAP_BASE + (UART1_PHYSBASE - UART0_PHYSBASE)" by (simp add: diff_eq_eq)
  then have "cd_base (sm_uart (apply_jump_handlers Zynq sim_cfg (apply_mmu_handlers Zynq sim_cfg m1))) = 0xf0001000"
    by (simp add: KMMAP_BASE_def UART1_PHYSBASE_def UART0_PHYSBASE_def)
  with *(1) show ?thesis by blast
qed

end
