(* ===== verification/Boot.thy ===== *)
theory Boot
  imports Libc
begin

text \<open>
  Booting: the disk service of the firmware (\<open>readdisk\<close> of \<open>firmware/arch/mips/mach-msim/main.c\<close>
  and \<open>firmware/arch/armv7a/fwmain.c\<close>) and the boot loaders that read a statically linked ELF file
  with it (\<open>boot/arch/mips/mach-msim/bootsect.c\<close>, \<open>boot/arch/armv7a/bootmain.c\<close>) or with commands
  to an IDE drive (\<open>boot/arch/i386/bootmain.c\<close>). Memory is the byte memory of theory \<open>Libc\<close>; the
  drive is an argument that answers a request for a sector. Structures are in the little-endian
  order of the machines; the local structures of the loaders are values.
\<close>

section \<open>Structures\<close>

record elf32hdr =
  e_ident :: "u8 list"
  e_type :: u16
  e_machine :: u16
  e_version :: u32
  e_entry :: u32
  e_phoff :: u32
  e_shoff :: u32
  e_flags :: u32
  e_ehsize :: u16
  e_phentsize :: u16
  e_phnum :: u16
  e_shentsize :: u16
  e_shnum :: u16
  e_shstrndx :: u16

record elf32_phdr =
  p_type :: u32
  p_offset :: u32
  p_vaddr :: u32
  p_paddr :: u32
  p_filesz :: u32
  p_memsz :: u32
  p_flags :: u32
  p_align :: u32

definition PT_LOAD :: u32 where "PT_LOAD = 1"
definition SECTOR_SIZE :: u32 where "SECTOR_SIZE = 512"
definition sizeof_elf32hdr :: u32 where "sizeof_elf32hdr = 52"
definition sizeof_elf32_phdr :: u32 where "sizeof_elf32_phdr = 32"

definition le16 :: "bytes \<Rightarrow> u32 \<Rightarrow> u16" where
  "le16 mem a = ucast (mem a) OR push_bit 8 (ucast (mem (a + 1)))"

definition le32 :: "bytes \<Rightarrow> u32 \<Rightarrow> u32" where
  "le32 mem a = ucast (le16 mem a) OR push_bit 16 (ucast (le16 mem (a + 2)))"

definition elf32hdr_at :: "bytes \<Rightarrow> u32 \<Rightarrow> elf32hdr" where
  "elf32hdr_at mem a =
     \<lparr>e_ident = map (\<lambda>i. mem (a + of_nat i)) [0..<16], e_type = le16 mem (a + 16), e_machine = le16 mem (a + 18),
      e_version = le32 mem (a + 20), e_entry = le32 mem (a + 24), e_phoff = le32 mem (a + 28), e_shoff = le32 mem (a + 32),
      e_flags = le32 mem (a + 36), e_ehsize = le16 mem (a + 40), e_phentsize = le16 mem (a + 42), e_phnum = le16 mem (a + 44),
      e_shentsize = le16 mem (a + 46), e_shnum = le16 mem (a + 48), e_shstrndx = le16 mem (a + 50)\<rparr>"

definition elf32_phdr_at :: "bytes \<Rightarrow> u32 \<Rightarrow> elf32_phdr" where
  "elf32_phdr_at mem a =
     \<lparr>p_type = le32 mem a, p_offset = le32 mem (a + 4), p_vaddr = le32 mem (a + 8), p_paddr = le32 mem (a + 12),
      p_filesz = le32 mem (a + 16), p_memsz = le32 mem (a + 20), p_flags = le32 mem (a + 24), p_align = le32 mem (a + 28)\<rparr>"

text \<open>\<open>part_entry[i].first_sector_lba\<close> of a master boot record: 446 bytes of code, then entries of 16 bytes.\<close>

definition BOOTLOADER_SIZE :: u32 where "BOOTLOADER_SIZE = 446"

definition part_lba :: "bytes \<Rightarrow> u32 \<Rightarrow> u32 \<Rightarrow> u32" where
  "part_lba mem mbr i = le32 mem (mbr + BOOTLOADER_SIZE + 16 * i + 8)"

section \<open>The firmware\<close>

type_synonym drive = "u32 \<Rightarrow> u8 list option"

primrec put_bytes :: "u32 \<Rightarrow> u8 list \<Rightarrow> bytes \<Rightarrow> bytes" where
  "put_bytes buf [] mem = mem"
| "put_bytes buf (b # bs) mem = put_bytes (buf + 1) bs (mem(buf := b))"

text \<open>
  The loop of \<open>readdisk\<close>; every round copies at least one byte, so the length bounds the rounds.
  On an error \<open>fwpanic\<close> prints a message and loops forever.
\<close>

fun readdisk_loop :: "drive \<Rightarrow> nat \<Rightarrow> u32 \<Rightarrow> u32 \<Rightarrow> u32 \<Rightarrow> u32 \<Rightarrow> bytes \<Rightarrow> bytes outcome" where
  "readdisk_loop drv 0 sector offset buf len mem = Hang"
| "readdisk_loop drv (Suc n) sector offset buf len mem =
     (if 0 < len then
        let l = min len (SECTOR_SIZE - offset)
        in case drv sector of
             None \<Rightarrow> Hang
           | Some sector_buf \<Rightarrow>
               readdisk_loop drv n (sector + 1) 0 (buf + l) (len - l)
                 (put_bytes buf (take (unat l) (drop (unat offset) sector_buf)) mem)
      else Ret mem)"

definition readdisk :: "drive \<Rightarrow> u32 \<Rightarrow> u32 \<Rightarrow> u32 \<Rightarrow> u32 \<Rightarrow> bytes \<Rightarrow> bytes outcome" where
  "readdisk drv sector offset buf len mem =
     readdisk_loop drv (Suc (unat len)) (sector + offset div SECTOR_SIZE) (offset mod SECTOR_SIZE) buf len mem"

definition FW_MBR_ADDR :: u32 where "FW_MBR_ADDR = 0x1FE00000"

section \<open>The boot loaders of MIPS and ARM\<close>

text \<open>Reading into a local structure.\<close>

definition read_ehdr :: "drive \<Rightarrow> u32 \<Rightarrow> u32 \<Rightarrow> elf32hdr outcome" where
  "read_ehdr drv lba pos = obind (readdisk drv lba pos 0 sizeof_elf32hdr (\<lambda>_. 0)) (\<lambda>m. Ret (elf32hdr_at m 0))"

definition read_phdr :: "drive \<Rightarrow> u32 \<Rightarrow> u32 \<Rightarrow> elf32_phdr outcome" where
  "read_phdr drv lba pos = obind (readdisk drv lba pos 0 sizeof_elf32_phdr (\<lambda>_. 0)) (\<lambda>m. Ret (elf32_phdr_at m 0))"

text \<open>The loop over the program headers; \<open>dest\<close> is the address field that the loader takes.\<close>

primrec load_loop :: "(elf32_phdr \<Rightarrow> u32) \<Rightarrow> drive \<Rightarrow> u32 \<Rightarrow> u32 \<Rightarrow> nat \<Rightarrow> u32 \<Rightarrow> bytes \<Rightarrow> bytes outcome" where
  "load_loop dest drv lba phentsize 0 pos mem = Ret mem"
| "load_loop dest drv lba phentsize (Suc n) pos mem =
     obind (read_phdr drv lba pos) (\<lambda>ph.
       obind (if p_type ph = PT_LOAD then readdisk drv lba (p_offset ph) (dest ph) (p_filesz ph) mem else Ret mem)
         (load_loop dest drv lba phentsize n (pos + phentsize)))"

definition load_elf :: "(elf32_phdr \<Rightarrow> u32) \<Rightarrow> drive \<Rightarrow> u32 \<Rightarrow> bytes \<Rightarrow> (u32 \<times> bytes) outcome" where
  "load_elf dest drv lba mem =
     obind (read_ehdr drv lba 0) (\<lambda>eh.
       obind (load_loop dest drv lba (ucast (e_phentsize eh)) (unat (e_phnum eh)) (e_phoff eh) mem) (\<lambda>mem. Ret (e_entry eh, mem)))"

text \<open>The result is the address that is jumped to and the memory at that moment.\<close>

definition mips_boot :: "drive \<Rightarrow> u32 \<Rightarrow> bytes \<Rightarrow> (u32 \<times> bytes) outcome" where
  "mips_boot drv mbr_addr mem = load_elf p_vaddr drv (part_lba mem mbr_addr 1) mem"

definition arm_boot_main :: "drive \<Rightarrow> bytes \<Rightarrow> (u32 \<times> bytes) outcome" where
  "arm_boot_main drv mem = load_elf p_paddr drv (part_lba mem FW_MBR_ADDR 1) mem"

section \<open>The boot loader of i386\<close>

text \<open>
  A drive behind IDE ports: the registers written for a command select a sector. \<open>status\<close> is
  what reading the status register will give; a drive that never gets ready runs out of it.
\<close>

definition ELF_BUFFER :: u32 where "ELF_BUFFER = 0x10000"
definition PGSIZE :: u32 where "PGSIZE = 4096"
definition ATA_BUSY :: u8 where "ATA_BUSY = 0x80"
definition ATA_DRDY :: u8 where "ATA_DRDY = 0x40"
definition ATA_LBA :: u8 where "ATA_LBA = 0x40"
definition ATA_DEVICE_OBS :: u8 where "ATA_DEVICE_OBS = 0xa0"
definition ATA_CMD_PIO_READ :: u8 where "ATA_CMD_PIO_READ = 0x20"
definition ATA_REG_NSECT :: u8 where "ATA_REG_NSECT = 2"
definition ATA_REG_LBAL :: u8 where "ATA_REG_LBAL = 3"
definition ATA_REG_LBAM :: u8 where "ATA_REG_LBAM = 4"
definition ATA_REG_LBAH :: u8 where "ATA_REG_LBAH = 5"
definition ATA_REG_DEVSEL :: u8 where "ATA_REG_DEVSEL = 6"
definition ATA_REG_CMD :: u8 where "ATA_REG_CMD = 7"

type_synonym ide = "(u8 \<times> u8) list \<Rightarrow> u8 list"

fun waitdisk :: "u8 list \<Rightarrow> u8 list outcome" where
  "waitdisk [] = Hang"
| "waitdisk (s # status) = (if s AND (ATA_BUSY OR ATA_DRDY) \<noteq> ATA_DRDY then waitdisk status else Ret status)"

definition read_command :: "u32 \<Rightarrow> (u8 \<times> u8) list" where
  "read_command sector =
     [(ATA_REG_NSECT, 1), (ATA_REG_LBAL, ucast (sector AND 0xff)), (ATA_REG_LBAM, ucast (drop_bit 8 sector AND 0xff)),
      (ATA_REG_LBAH, ucast (drop_bit 16 sector AND 0xff)),
      (ATA_REG_DEVSEL, ucast (drop_bit 24 sector AND 0xff) OR (ATA_DEVICE_OBS OR ATA_LBA)), (ATA_REG_CMD, ATA_CMD_PIO_READ)]"

definition readsect :: "ide \<Rightarrow> u32 \<Rightarrow> u32 \<Rightarrow> u8 list \<times> bytes \<Rightarrow> (u8 list \<times> bytes) outcome" where
  "readsect ide dst sector s =
     obind (waitdisk (fst s)) (\<lambda>status.
       obind (waitdisk status) (\<lambda>status. Ret (status, put_bytes dst (ide (read_command sector)) (snd s))))"

text \<open>Each round moves on by a sector; the bound is for a range that does not wrap.\<close>

fun readseg_loop :: "ide \<Rightarrow> nat \<Rightarrow> u32 \<Rightarrow> u32 \<Rightarrow> u32 \<Rightarrow> u8 list \<times> bytes \<Rightarrow> (u8 list \<times> bytes) outcome" where
  "readseg_loop ide 0 pa epa sector s = Hang"
| "readseg_loop ide (Suc n) pa epa sector s =
     (if pa < epa then obind (readsect ide pa sector s) (readseg_loop ide n (pa + SECTOR_SIZE) epa (sector + 1)) else Ret s)"

definition readseg :: "ide \<Rightarrow> u32 \<Rightarrow> u32 \<Rightarrow> u32 \<Rightarrow> u8 list \<times> bytes \<Rightarrow> (u8 list \<times> bytes) outcome" where
  "readseg ide pa count offset s =
     readseg_loop ide (unat count div 512 + 3) (pa - offset mod SECTOR_SIZE) (pa + count) (offset div SECTOR_SIZE) s"

fun bootmain_loop :: "ide \<Rightarrow> u32 \<Rightarrow> nat \<Rightarrow> u32 \<Rightarrow> u8 list \<times> bytes \<Rightarrow> (u8 list \<times> bytes) outcome" where
  "bootmain_loop ide part_offset 0 ph s = Ret s"
| "bootmain_loop ide part_offset (Suc n) ph s =
     (let h = elf32_phdr_at (snd s) ph
      in obind (if p_type h = PT_LOAD then readseg ide (p_paddr h) (p_filesz h) (part_offset + p_offset h) s else Ret s)
           (bootmain_loop ide part_offset n (ph + sizeof_elf32_phdr)))"

text \<open>\<open>start\<close> is the address of the loader, where the record was loaded. The header stays in its buffer.\<close>

definition bootmain :: "ide \<Rightarrow> u32 \<Rightarrow> u8 list \<times> bytes \<Rightarrow> (u32 \<times> u8 list \<times> bytes) outcome" where
  "bootmain ide start s =
     (let part_offset = part_lba (snd s) start 1 * SECTOR_SIZE
      in obind (readseg ide ELF_BUFFER PGSIZE part_offset s) (\<lambda>s.
           let elf = elf32hdr_at (snd s) ELF_BUFFER
           in obind (bootmain_loop ide part_offset (unat (e_phnum elf)) (ELF_BUFFER + e_phoff elf) s) (\<lambda>s.
                Ret (e_entry (elf32hdr_at (snd s) ELF_BUFFER), s))))"

section \<open>Reading from the disk\<close>

text \<open>A drive that answers every request for one of its sectors with the bytes of the sector, and memory with bytes of the disk in it.\<close>

definition serves :: "nat \<Rightarrow> (nat \<Rightarrow> u8) \<Rightarrow> drive \<Rightarrow> bool" where
  "serves sectors disk drv \<longleftrightarrow>
     (\<forall>sector. unat sector < sectors \<longrightarrow> drv sector = Some (map (\<lambda>i. disk (unat sector * 512 + i)) [0..<512]))"

definition placed :: "(nat \<Rightarrow> u8) \<Rightarrow> nat \<Rightarrow> u32 \<Rightarrow> nat \<Rightarrow> bytes \<Rightarrow> bytes" where
  "placed disk from buf n mem = (\<lambda>a. if unat (a - buf) < n then disk (from + unat (a - buf)) else mem a)"

lemma put_bytes_apply:
  "length bs \<le> 2 ^ 32 \<Longrightarrow> put_bytes buf bs mem a = (if unat (a - buf) < length bs then bs ! unat (a - buf) else mem a)"
proof (induction bs arbitrary: buf mem)
  case (Cons b bs)
  show ?case
  proof (cases "a = buf")
    case True
    have "unat (buf - (buf + 1)) = 2 ^ 32 - 1" using unat_diff_offset [of 1 buf buf] by simp
    then show ?thesis using Cons True by simp
  next
    case False
    then have p: "0 < unat (a - buf)" by (simp add: unat_gt_0)
    then have "unat (a - (buf + 1)) = unat (a - buf) - 1" using unat_diff_offset [of 1 a buf] by simp
    then show ?thesis using Cons False p by (auto simp: nth_Cons')
  qed
qed simp

lemma put_bytes_placed:
  assumes "serves sectors disk drv" "unat sector < sectors" "drv sector = Some sb" and "off + l \<le> 512"
  shows "put_bytes buf (take l (drop off sb)) mem = placed disk (unat sector * 512 + off) buf l mem"
proof
  fix a
  have sb: "sb = map (\<lambda>i. disk (unat sector * 512 + i)) [0..<512]" using assms(1-3) by (simp add: serves_def)
  have "length (take l (drop off sb)) = l" using assms(4) by (simp add: sb)
  moreover have "take l (drop off sb) ! i = disk (unat sector * 512 + off + i)" if "i < l" for i
    using that assms(4) by (simp add: sb add.assoc)
  ultimately show "put_bytes buf (take l (drop off sb)) mem a = placed disk (unat sector * 512 + off) buf l mem a"
    using put_bytes_apply [of "take l (drop off sb)" buf mem a] assms(4) by (simp add: placed_def)
qed

lemma placed_append:
  assumes "l + n \<le> 2 ^ 32"
  shows "placed disk (from + l) (buf + of_nat l) n (placed disk from buf l mem) = placed disk from buf (l + n) mem"
proof
  fix a
  have u: "unat (a - (buf + of_nat l)) = (if l \<le> unat (a - buf) then unat (a - buf) - l else unat (a - buf) + 2 ^ 32 - l)"
    using assms by (intro unat_diff_offset) simp
  show "placed disk (from + l) (buf + of_nat l) n (placed disk from buf l mem) a = placed disk from buf (l + n) mem a"
    using u assms by (cases "l \<le> unat (a - buf)") (auto simp: placed_def)
qed

lemma readdisk_loop_placed:
  assumes "serves sectors disk drv" "sectors < 2 ^ 32"
  shows "unat len < n \<Longrightarrow> unat offset < 512 \<Longrightarrow> unat sector * 512 + unat offset + unat len \<le> sectors * 512 \<Longrightarrow>
    readdisk_loop drv n sector offset buf len mem = Ret (placed disk (unat sector * 512 + unat offset) buf (unat len) mem)"
proof (induction n arbitrary: sector offset buf len mem)
  case (Suc n)
  show ?case
  proof (cases "len = 0")
    case True
    then show ?thesis by (simp add: placed_def)
  next
    case False
    define l where "l = min len (SECTOR_SIZE - offset)"
    have o: "unat (SECTOR_SIZE - offset) = 512 - unat offset"
      using Suc.prems(2) by (simp add: SECTOR_SIZE_def unat_sub word_le_nat_alt)
    have ul: "unat l = min (unat len) (512 - unat offset)"
      unfolding l_def min_def word_le_nat_alt o using o by simp
    have pos: "0 < unat l" using ul False Suc.prems(2) by (simp add: unat_gt_0)
    have rest: "unat (len - l) = unat len - unat l" using ul by (simp add: unat_sub word_le_nat_alt)
    have sec: "unat sector < sectors" using Suc.prems(3) False unat_gt_0 [of len] by simp
    then obtain sb where sb: "drv sector = Some sb" using assms by (simp add: serves_def)
    have put: "put_bytes buf (take (unat l) (drop (unat offset) sb)) mem = placed disk (unat sector * 512 + unat offset) buf (unat l) mem"
      using put_bytes_placed [OF assms(1) sec sb, of "unat offset" "unat l"] ul Suc.prems(2) by simp
    have step: "readdisk_loop drv (Suc n) sector offset buf len mem =
      readdisk_loop drv n (sector + 1) 0 (buf + l) (len - l) (placed disk (unat sector * 512 + unat offset) buf (unat l) mem)"
      using False sb put by (simp add: l_def [symmetric] word_gt_0)
    have bl: "unat l + unat (len - l) = unat len" "unat len \<le> 2 ^ 32" using rest ul unat_bound [of len] by simp_all
    have b: "buf + l = buf + of_nat (unat l)" by simp
    show ?thesis
    proof (cases "len = l")
      case True
      then show ?thesis using step Suc.prems(1) pos by (cases n) simp_all
    next
      case F: False
      have l2: "unat l = 512 - unat offset" using ul F by (auto simp: min_def word_unat_eq_iff)
      have lt: "512 - unat offset < unat len" using ul l2 F by (auto simp: min_def word_unat_eq_iff split: if_splits)
      have s1: "unat (sector + 1) = unat sector + 1"
        using sec assms(2) by (subst unat_add_no_overflow) simp_all
      have from1: "(unat sector + 1) * 512 = unat sector * 512 + unat offset + unat l" using l2 Suc.prems(2) by simp
      have p: "unat (len - l) < n" "unat (sector + 1) * 512 + unat (0 :: u32) + unat (len - l) \<le> sectors * 512"
        using Suc.prems(1,3) rest pos bl(1) from1 s1 by simp_all
      have z: "unat (0 :: u32) < 512" by simp
      have from2: "unat (sector + 1) * 512 + unat (0 :: u32) = unat sector * 512 + unat offset + unat l" using from1 s1 by simp
      have "readdisk_loop drv n (sector + 1) 0 (buf + l) (len - l) (placed disk (unat sector * 512 + unat offset) buf (unat l) mem) =
        Ret (placed disk (unat sector * 512 + unat offset + unat l) (buf + l) (unat (len - l)) (placed disk (unat sector * 512 + unat offset) buf (unat l) mem))"
        using Suc.IH [OF p(1) z p(2), of "buf + l"] unfolding from2 by blast
      then show ?thesis unfolding step b using placed_append [of "unat l" "unat (len - l)"] bl by simp
    qed
  qed
qed simp

lemma readdisk_placed:
  assumes "serves sectors disk drv" "sectors < 2 ^ 32" and "unat sector * 512 + unat offset + unat len \<le> sectors * 512"
  shows "readdisk drv sector offset buf len mem = Ret (placed disk (unat sector * 512 + unat offset) buf (unat len) mem)"
proof -
  have d: "unat (offset div SECTOR_SIZE) = unat offset div 512" by (simp add: SECTOR_SIZE_def unat_div)
  have m: "unat (offset mod SECTOR_SIZE) = unat offset mod 512" by (simp add: SECTOR_SIZE_def unat_mod)
  have dm: "unat offset div 512 * 512 + unat offset mod 512 = unat offset" by simp
  have s: "unat (sector + offset div SECTOR_SIZE) = unat sector + unat offset div 512"
    using assms(2,3) dm unfolding d [symmetric] by (intro unat_add_no_overflow) (simp add: d)
  have f: "unat (sector + offset div SECTOR_SIZE) * 512 + unat (offset mod SECTOR_SIZE) = unat sector * 512 + unat offset"
    unfolding s m using dm by (simp add: algebra_simps)
  have lt: "unat (offset mod SECTOR_SIZE) < 512" unfolding m by simp
  have le: "unat (sector + offset div SECTOR_SIZE) * 512 + unat (offset mod SECTOR_SIZE) + unat len \<le> sectors * 512"
    unfolding f using assms(3) by simp
  show ?thesis unfolding readdisk_def using readdisk_loop_placed [OF assms(1,2) lessI lt le] unfolding f .
qed

text \<open>The file on the disk as a byte memory that starts at 0.\<close>

definition elf_image :: "(nat \<Rightarrow> u8) \<Rightarrow> nat \<Rightarrow> bytes" where
  "elf_image disk from = (\<lambda>a. disk (from + unat a))"

lemma le32_cong:
  assumes "m a = m' b" "m (a + 1) = m' (b + 1)" "m (a + 2) = m' (b + 2)" "m (a + 3) = m' (b + 3)"
  shows "le32 m a = le32 m' b"
  using assms by (simp add: le32_def le16_def add.assoc)

lemma le16_cong: "m a = m' b \<Longrightarrow> m (a + 1) = m' (b + 1) \<Longrightarrow> le16 m a = le16 m' b"
  by (simp add: le16_def)

lemma placed_at: "unat a < n \<Longrightarrow> placed disk from 0 n mem a = disk (from + unat a)"
  by (simp add: placed_def)

lemma ehdr_placed: "elf32hdr_at (placed disk from 0 52 mem) 0 = elf32hdr_at (elf_image disk from) 0"
proof -
  have a: "placed disk from 0 52 mem (of_nat i) = elf_image disk from (of_nat i)" if "i < 52" for i
    using that by (simp add: placed_at elf_image_def unat_of_nat)
  have k: "placed disk from 0 52 mem (numeral k) = elf_image disk from (numeral k)" if "numeral k < (52 :: nat)" for k
    using a [of "numeral k"] that by simp
  show ?thesis
    unfolding elf32hdr_at_def using a [of 0] a [of 1] a k
    by (simp add: le32_def le16_def)
qed

lemma phdr_placed:
  assumes "unat pos + 32 \<le> 2 ^ 32"
  shows "elf32_phdr_at (placed disk (from + unat pos) 0 32 mem) 0 = elf32_phdr_at (elf_image disk from) pos"
proof -
  have a: "placed disk (from + unat pos) 0 32 mem (of_nat i) = elf_image disk from (pos + of_nat i)" if "i < 32" for i
    using that assms by (simp add: placed_at elf_image_def unat_of_nat unat_word_ariths add.assoc)
  have "le32 (placed disk (from + unat pos) 0 32 mem) (of_nat i) = le32 (elf_image disk from) (pos + of_nat i)" if "i + 3 < 32" for i
    using a [of i] a [of "i + 1"] a [of "i + 2"] a [of "i + 3"] that by (intro le32_cong) (simp_all add: ac_simps)
  from this [of 0] this [of 4] this [of 8] this [of 12] this [of 16] this [of 20] this [of 24] this [of 28]
  show ?thesis by (simp add: elf32_phdr_at_def)
qed

text \<open>The reference: the segments are put in place one after the other.\<close>

definition place_segment :: "(elf32_phdr \<Rightarrow> u32) \<Rightarrow> (nat \<Rightarrow> u8) \<Rightarrow> nat \<Rightarrow> elf32_phdr \<Rightarrow> bytes \<Rightarrow> bytes" where
  "place_segment dest disk from ph mem =
     (if p_type ph = PT_LOAD then placed disk (from + unat (p_offset ph)) (dest ph) (unat (p_filesz ph)) mem else mem)"

definition elf_phdrs :: "bytes \<Rightarrow> elf32_phdr list" where
  "elf_phdrs img =
     (let eh = elf32hdr_at img 0
      in map (\<lambda>i. elf32_phdr_at img (e_phoff eh + of_nat i * ucast (e_phentsize eh))) [0..<unat (e_phnum eh)])"

text \<open>A program header at \<open>pos\<close> in the file, and the segment it describes, are on a disk of \<open>bound\<close> bytes.\<close>

definition phdr_fits :: "nat \<Rightarrow> (nat \<Rightarrow> u8) \<Rightarrow> nat \<Rightarrow> u32 \<Rightarrow> bool" where
  "phdr_fits bound disk from pos \<longleftrightarrow> unat pos + 32 \<le> 2 ^ 32 \<and> from + unat pos + 32 \<le> bound \<and>
     (let ph = elf32_phdr_at (elf_image disk from) pos
      in p_type ph = PT_LOAD \<longrightarrow> from + unat (p_offset ph) + unat (p_filesz ph) \<le> bound)"

lemma load_loop_placed:
  assumes "serves sectors disk drv" "sectors < 2 ^ 32"
  shows "\<forall>i < n. phdr_fits (sectors * 512) disk (unat lba * 512) (pos + of_nat i * phentsize) \<Longrightarrow>
    load_loop dest drv lba phentsize n pos mem =
      Ret (fold (place_segment dest disk (unat lba * 512)) (map (\<lambda>i. elf32_phdr_at (elf_image disk (unat lba * 512)) (pos + of_nat i * phentsize)) [0..<n]) mem)"
proof (induction n arbitrary: pos mem)
  case (Suc n)
  let ?from = "unat lba * 512"
  let ?ph = "elf32_phdr_at (elf_image disk ?from) pos"
  have fit: "phdr_fits (sectors * 512) disk ?from pos" using Suc.prems [rule_format, of 0] by simp
  then have p0: "unat pos + 32 \<le> 2 ^ 32" by (simp add: phdr_fits_def)
  have ps: "\<forall>i < n. phdr_fits (sectors * 512) disk ?from (pos + phentsize + of_nat i * phentsize)"
    using Suc.prems by (auto simp: algebra_simps dest: spec [of _ "Suc _"])
  have ph: "read_phdr drv lba pos = Ret ?ph"
    using readdisk_placed [OF assms, of lba pos 32] fit phdr_placed [OF p0]
    by (simp add: read_phdr_def sizeof_elf32_phdr_def phdr_fits_def)
  have seg: "(if p_type ?ph = PT_LOAD then readdisk drv lba (p_offset ?ph) (dest ?ph) (p_filesz ?ph) mem else Ret mem) =
    Ret (place_segment dest disk ?from ?ph mem)"
    using readdisk_placed [OF assms, of lba "p_offset ?ph" "p_filesz ?ph"] fit
    by (simp add: place_segment_def phdr_fits_def Let_def)
  have l: "map (\<lambda>i. elf32_phdr_at (elf_image disk ?from) (pos + of_nat i * phentsize)) [0..<Suc n] =
    ?ph # map (\<lambda>i. elf32_phdr_at (elf_image disk ?from) (pos + phentsize + of_nat i * phentsize)) [0..<n]"
    by (simp add: upt_conv_Cons map_Suc_upt [symmetric] comp_def algebra_simps del: upt_Suc)
  show ?case unfolding load_loop.simps ph obind.simps seg Suc.IH [OF ps] l by simp
qed simp

section \<open>Properties\<close>

text \<open>
  With a working drive \<open>readdisk\<close> ends and puts exactly the requested bytes of the disk at
  the buffer, across sector boundaries and for every offset and length.
\<close>

theorem readdisk_reads:
  assumes "serves sectors disk drv" "sectors < 2 ^ 32" and "unat sector * 512 + unat offset + unat len \<le> sectors * 512"
  shows "\<exists>mem'. readdisk drv sector offset buf len mem = Ret mem' \<and>
    (\<forall>a. mem' a = (if unat (a - buf) < unat len then disk (unat sector * 512 + unat offset + unat (a - buf)) else mem a))"
  using readdisk_placed [OF assms, of buf mem] by (simp add: placed_def)

text \<open>
  C34: With a working drive and program headers that are on it with their segments, the boot
  loaders of MIPS and ARM end with a jump to the entry address in the ELF header, and memory then
  differs from before by the loadable segments of the file, put in place in their order.
\<close>

theorem boot_loads_segments:
  assumes "\<forall>sect. unat sect < sectors \<longrightarrow> drv sect = Some (map (\<lambda>i. disk (unat sect * 512 + i)) [0..<512])" "sectors < 2 ^ 32"
    and "part_lba mem mbr 1 = lba" and "unat lba < sectors"
    and "img = elf_image disk (unat lba * 512)" and "eh = elf32hdr_at img 0"
    and "\<forall>i < unat (e_phnum eh). phdr_fits (sectors * 512) disk (unat lba * 512) (e_phoff eh + of_nat i * ucast (e_phentsize eh))"
  shows "mips_boot drv mbr mem = Ret (e_entry eh, fold (place_segment p_vaddr disk (unat lba * 512)) (elf_phdrs img) mem) \<and>
    (mbr = FW_MBR_ADDR \<longrightarrow> arm_boot_main drv mem = Ret (e_entry eh, fold (place_segment p_paddr disk (unat lba * 512)) (elf_phdrs img) mem))"
proof -
  have s: "serves sectors disk drv" using assms(1) by (simp add: serves_def)
  have h: "read_ehdr drv lba 0 = Ret eh"
    using readdisk_placed [OF s assms(2), of lba 0 52] assms(4,5,6) ehdr_placed by (simp add: read_ehdr_def sizeof_elf32hdr_def)
  have "load_elf dest drv lba mem = Ret (e_entry eh, fold (place_segment dest disk (unat lba * 512)) (elf_phdrs img) mem)" for dest
    unfolding load_elf_def h obind.simps load_loop_placed [OF s assms(2,7)] using assms(5,6) by (simp add: elf_phdrs_def Let_def)
  then show ?thesis using assms(3) by (auto simp: mips_boot_def arm_boot_main_def)
qed

definition example_disk :: "nat \<Rightarrow> u8" where
  "example_disk = (\<lambda>_. 0)(24 := 0x10, 28 := 52, 42 := 32, 44 := 1, 52 := 1, 56 := 100, 60 := 0x80, 68 := 4, 100 := 7)"

definition example_drive :: drive where
  "example_drive sect = (if sect < 4 then Some (map (\<lambda>i. example_disk (unat sect * 512 + i)) [0..<512]) else None)"

theorem boot_loads_segments_witness:
  "\<exists>mem'. mips_boot example_drive 0x7c00 (\<lambda>_. 0) = Ret (0x10, mem') \<and> mem' 0x80 = 7"
proof -
  let ?img = "elf_image example_disk (unat (0 :: u32) * 512)"
  have d: "\<forall>sect. unat sect < 4 \<longrightarrow> example_drive sect = Some (map (\<lambda>i. example_disk (unat sect * 512 + i)) [0..<512])"
    by (simp add: example_drive_def word_less_nat_alt)
  have l: "part_lba (\<lambda>_. 0) 0x7c00 1 = 0" by (simp add: part_lba_def le32_def le16_def)
  have b: "4 < (2 :: nat) ^ 32" "unat (0 :: u32) < 4" by simp_all
  have h: "e_phnum (elf32hdr_at ?img 0) = 1" "e_phoff (elf32hdr_at ?img 0) = 52" "e_phentsize (elf32hdr_at ?img 0) = 32"
    "e_entry (elf32hdr_at ?img 0) = 0x10"
    by (simp_all add: elf32hdr_at_def le32_def le16_def elf_image_def example_disk_def)
  have q: "p_type (elf32_phdr_at ?img 52) = 1" "p_offset (elf32_phdr_at ?img 52) = 100" "p_vaddr (elf32_phdr_at ?img 52) = 0x80"
    "p_filesz (elf32_phdr_at ?img 52) = 4"
    by (simp_all add: elf32_phdr_at_def le32_def le16_def elf_image_def example_disk_def)
  have n: "\<forall>i < unat (e_phnum (elf32hdr_at ?img 0)).
      phdr_fits (4 * 512) example_disk (unat (0 :: u32) * 512) (e_phoff (elf32hdr_at ?img 0) + of_nat i * ucast (e_phentsize (elf32hdr_at ?img 0)))"
    unfolding h phdr_fits_def using q by simp
  have p: "elf_phdrs ?img = [elf32_phdr_at ?img 52]" unfolding elf_phdrs_def Let_def h by simp
  have "fold (place_segment p_vaddr example_disk (unat (0 :: u32) * 512)) (elf_phdrs ?img) (\<lambda>_. 0) 0x80 = 7"
    unfolding p fold.simps comp_def id_def place_segment_def q by (simp add: PT_LOAD_def placed_def example_disk_def)
  then show ?thesis using boot_loads_segments [OF d b(1) l b(2) refl refl n] h(4) by auto
qed

end
