(* ===== verification/Disk.thy ===== *)
theory Disk
  imports Bus Boot
begin

text \<open>
  The disk drivers: \<open>drivers/block/msim-ddisk.c\<close> (the disk of the MSIM simulator),
  \<open>drivers/sd/sd-zynq.c\<close> (SD cards on ARM) and the task files of \<open>drivers/ata/sata_ide.c\<close>, and the
  firmware's \<open>readdisk\<close> on top of the first two. Both devices write to memory by themselves, so
  the state of the hardware is a pair of the device's own state and the memory of theory \<open>Libc\<close>.
  What a device does is a hypothesis of the theorems, stated over a view of its registers.
\<close>

section \<open>The disk of MSIM\<close>

definition MSIM_DD_DMAADDR :: u64 where "MSIM_DD_DMAADDR = 0x0"
definition MSIM_DD_SECTOR :: u64 where "MSIM_DD_SECTOR = 0x4"
definition MSIM_DD_STAT :: u64 where "MSIM_DD_STAT = 0x8"
definition MSIM_DD_COMMAND :: u64 where "MSIM_DD_COMMAND = 0x8"
definition MSIM_DD_SIZE :: u64 where "MSIM_DD_SIZE = 0xc"
definition STAT_ERROR :: u64 where "STAT_ERROR = 0x8"
definition STAT_INTR :: u64 where "STAT_INTR = 0x4"
definition CMD_ACK :: u64 where "CMD_ACK = 0x4"
definition CMD_WRITE :: u64 where "CMD_WRITE = 0x2"
definition CMD_READ :: u64 where "CMD_READ = 0x1"

definition MSIM_DD_REG :: "addr_t \<Rightarrow> u64 \<Rightarrow> addr_t" where
  "MSIM_DD_REG pa reg = pa + reg"

type_synonym 's dma = "'s \<times> bytes"

text \<open>\<open>dd\<close> is the address of the buffer \<open>msim_dd_dma\<close>.\<close>

definition msim_dd_init :: "'s dma plat \<Rightarrow> u32 \<Rightarrow> addr_t \<Rightarrow> 's dma \<Rightarrow> 's dma" where
  "msim_dd_init p dd pa d = io_write p W32 (MSIM_DD_REG pa MSIM_DD_DMAADDR) (ucast (mips_kva2pa dd)) d"

definition msim_dd_get_sector_count :: "'s dma plat \<Rightarrow> addr_t \<Rightarrow> 's dma \<Rightarrow> u32 \<times> 's dma" where
  "msim_dd_get_sector_count p pa d = (let (v, d) = io_read p W32 (MSIM_DD_REG pa MSIM_DD_SIZE) d in (ucast v, d))"

definition msim_dd_check_interrupt :: "'s dma plat \<Rightarrow> addr_t \<Rightarrow> 's dma \<Rightarrow> u64 \<times> 's dma" where
  "msim_dd_check_interrupt p pa d =
     (let (v, d) = io_read p W32 (MSIM_DD_REG pa MSIM_DD_STAT) d in (of_bool (v AND STAT_INTR \<noteq> 0), d))"

definition msim_dd_ack_interrupt :: "'s dma plat \<Rightarrow> addr_t \<Rightarrow> 's dma \<Rightarrow> 's dma" where
  "msim_dd_ack_interrupt p pa d = io_write p W32 (MSIM_DD_REG pa MSIM_DD_COMMAND) CMD_ACK d"

text \<open>The three writes that start a command.\<close>

definition dd_command :: "'s dma plat \<Rightarrow> u32 \<Rightarrow> addr_t \<Rightarrow> u32 \<Rightarrow> u64 \<Rightarrow> 's dma \<Rightarrow> 's dma" where
  "dd_command p dd pa sect cmd d =
     (let d = io_write p W32 (MSIM_DD_REG pa MSIM_DD_DMAADDR) (ucast (mips_kva2pa dd)) d;
          d = io_write p W32 (MSIM_DD_REG pa MSIM_DD_SECTOR) (ucast sect) d
      in io_write p W32 (MSIM_DD_REG pa MSIM_DD_COMMAND) cmd d)"

definition dd_wait :: "nat \<Rightarrow> 's dma plat \<Rightarrow> addr_t \<Rightarrow> 's dma \<Rightarrow> 's dma outcome" where
  "dd_wait n p pa d =
     obind (poll n (\<lambda>_ d. Ret (msim_dd_check_interrupt p pa d)) (\<lambda>v. v = 0) 0 d) (\<lambda>(_, d). Ret (msim_dd_ack_interrupt p pa d))"

definition msim_dd_read_sector :: "nat \<Rightarrow> 's dma plat \<Rightarrow> u32 \<Rightarrow> addr_t \<Rightarrow> u32 \<Rightarrow> u32 \<Rightarrow> bool \<Rightarrow> 's dma \<Rightarrow> (int \<times> 's dma) outcome" where
  "msim_dd_read_sector n p dd pa sect buf polling d =
     (let d = dd_command p dd pa sect CMD_READ d
      in if polling then
           obind (dd_wait n p pa d) (\<lambda>d.
             let (v, d) = io_read p W32 (MSIM_DD_REG pa MSIM_DD_STAT) d
             in if v AND STAT_ERROR \<noteq> 0 then Ret (-1, d)
                else Ret (0, (fst d, memcpy buf dd SECTOR_SIZE (snd d))))
         else Ret (0, d))"

definition msim_dd_write_sector :: "nat \<Rightarrow> 's dma plat \<Rightarrow> u32 \<Rightarrow> addr_t \<Rightarrow> u32 \<Rightarrow> u32 \<Rightarrow> bool \<Rightarrow> 's dma \<Rightarrow> (int \<times> 's dma) outcome" where
  "msim_dd_write_sector n p dd pa sect buf polling d =
     (let d = (fst d, memcpy dd buf SECTOR_SIZE (snd d));
          d = dd_command p dd pa sect CMD_WRITE d
      in if polling then
           obind (dd_wait n p pa d) (\<lambda>d.
             let (v, d) = io_read p W32 (MSIM_DD_REG pa MSIM_DD_STAT) d
             in if v AND STAT_ERROR \<noteq> 0 then Ret (-1, d) else Ret (0, d))
         else Ret (0, d))"

section \<open>What is asked of the disk of MSIM\<close>

text \<open>
  A view of the device: its registers, the command it is working on (0 for none), whether it
  requests an interrupt and whether the last command failed, and the contents of the disk.
\<close>

record dd_view =
  dd_dma :: u32
  dd_sector :: u32
  dd_cmd :: u64
  dd_intr :: bool
  dd_err :: bool
  dd_disk :: "nat \<Rightarrow> u8"

definition seen :: "('s \<Rightarrow> 'v) \<Rightarrow> 's dma \<Rightarrow> 'v \<times> bytes" where
  "seen view d = (view (fst d), snd d)"

text \<open>A disk with the bytes of memory at \<open>buf\<close> in a sector.\<close>

definition stored :: "bytes \<Rightarrow> u32 \<Rightarrow> nat \<Rightarrow> (nat \<Rightarrow> u8) \<Rightarrow> nat \<Rightarrow> u8" where
  "stored mem buf from disk = (\<lambda>i. if from \<le> i \<and> i < from + 512 then mem (buf + of_nat (i - from)) else disk i)"

text \<open>
  The end of a command: a sector of the disk is in memory at the address of the transfer, which
  the kernel sees in the segment KSEG0, or the other way round. Other sectors are an error.
\<close>

definition dd_finish :: "nat \<Rightarrow> dd_view \<Rightarrow> bytes \<Rightarrow> dd_view \<times> bytes" where
  "dd_finish sectors v mem =
     (let v' = v\<lparr>dd_cmd := 0, dd_intr := True\<rparr>;
          from = unat (dd_sector v) * 512;
          at = TO_CAC (dd_dma v)
      in if unat (dd_sector v) \<ge> sectors then (v'\<lparr>dd_err := True\<rparr>, mem)
         else if dd_cmd v = CMD_READ then (v'\<lparr>dd_err := False\<rparr>, placed (dd_disk v) from at 512 mem)
         else (v'\<lparr>dd_err := False, dd_disk := stored mem at from (dd_disk v)\<rparr>, mem))"

text \<open>
  While a command is at work, a transfer to memory may have reached any part of its target.
\<close>

definition same_except :: "u32 \<Rightarrow> nat \<Rightarrow> bytes \<Rightarrow> bytes \<Rightarrow> bool" where
  "same_except at n mem mem' \<longleftrightarrow> (\<forall>a. \<not> unat (a - at) < n \<longrightarrow> mem' a = mem a)"

definition dd_partial :: "nat \<Rightarrow> dd_view \<Rightarrow> bytes \<Rightarrow> bytes \<Rightarrow> bool" where
  "dd_partial sectors v mem mem' \<longleftrightarrow>
     (if dd_cmd v = CMD_READ \<and> unat (dd_sector v) < sectors then same_except (TO_CAC (dd_dma v)) 512 mem mem' else mem' = mem)"

definition dd_writes :: "'s dma plat \<Rightarrow> addr_t \<Rightarrow> ('s \<Rightarrow> dd_view) \<Rightarrow> bool" where
  "dd_writes p pa view \<longleftrightarrow>
     (\<forall>d x. seen view (io_write p W32 (MSIM_DD_REG pa MSIM_DD_DMAADDR) x d) = ((view (fst d))\<lparr>dd_dma := ucast x\<rparr>, snd d)) \<and>
     (\<forall>d x. seen view (io_write p W32 (MSIM_DD_REG pa MSIM_DD_SECTOR) x d) = ((view (fst d))\<lparr>dd_sector := ucast x\<rparr>, snd d)) \<and>
     (\<forall>d c. c = CMD_READ \<or> c = CMD_WRITE \<longrightarrow>
        seen view (io_write p W32 (MSIM_DD_REG pa MSIM_DD_COMMAND) c d) = ((view (fst d))\<lparr>dd_cmd := c, dd_intr := False\<rparr>, snd d)) \<and>
     (\<forall>d. seen view (io_write p W32 (MSIM_DD_REG pa MSIM_DD_COMMAND) CMD_ACK d) = ((view (fst d))\<lparr>dd_intr := False\<rparr>, snd d))"

definition dd_status :: "dd_view \<Rightarrow> u64 \<Rightarrow> bool" where
  "dd_status v x \<longleftrightarrow> (x AND STAT_INTR \<noteq> 0 \<longleftrightarrow> dd_intr v) \<and> (x AND STAT_ERROR \<noteq> 0 \<longleftrightarrow> dd_err v)"

definition dd_reads :: "'s dma plat \<Rightarrow> addr_t \<Rightarrow> ('s \<Rightarrow> dd_view) \<Rightarrow> nat \<Rightarrow> bool" where
  "dd_reads p pa view sectors \<longleftrightarrow>
     (\<forall>d. let (x, d') = io_read p W32 (MSIM_DD_REG pa MSIM_DD_STAT) d; v = view (fst d)
          in if dd_cmd v = 0 then dd_status v x \<and> seen view d' = seen view d
             else if x AND STAT_INTR \<noteq> 0 then seen view d' = dd_finish sectors v (snd d)
             else view (fst d') = v \<and> dd_partial sectors v (snd d) (snd d'))"

text \<open>A device that behaves in this way and ends every command within \<open>k\<close> reads of its status.\<close>

definition ddisk :: "'s dma plat \<Rightarrow> addr_t \<Rightarrow> ('s \<Rightarrow> dd_view) \<Rightarrow> nat \<Rightarrow> nat \<Rightarrow> bool" where
  "ddisk p pa view sectors k \<longleftrightarrow> dd_writes p pa view \<and> dd_reads p pa view sectors \<and>
     (\<forall>d. dd_cmd (view (fst d)) \<noteq> 0 \<longrightarrow> (\<exists>j<k. fst (msim_dd_check_interrupt p pa (polled (msim_dd_check_interrupt p pa) j d)) \<noteq> 0))"

lemma ddisk_writes:
  assumes "ddisk p pa view sectors k"
  shows "seen view (io_write p W32 (MSIM_DD_REG pa MSIM_DD_DMAADDR) x d) = ((view (fst d))\<lparr>dd_dma := ucast x\<rparr>, snd d)"
    and "seen view (io_write p W32 (MSIM_DD_REG pa MSIM_DD_SECTOR) x d) = ((view (fst d))\<lparr>dd_sector := ucast x\<rparr>, snd d)"
    and "c = CMD_READ \<or> c = CMD_WRITE \<Longrightarrow>
      seen view (io_write p W32 (MSIM_DD_REG pa MSIM_DD_COMMAND) c d) = ((view (fst d))\<lparr>dd_cmd := c, dd_intr := False\<rparr>, snd d)"
    and "seen view (msim_dd_ack_interrupt p pa d) = ((view (fst d))\<lparr>dd_intr := False\<rparr>, snd d)"
  using assms unfolding ddisk_def dd_writes_def msim_dd_ack_interrupt_def by blast+

lemma ddisk_status:
  assumes "ddisk p pa view sectors k" and "io_read p W32 (MSIM_DD_REG pa MSIM_DD_STAT) d = (x, d')"
  shows "if dd_cmd (view (fst d)) = 0 then dd_status (view (fst d)) x \<and> seen view d' = seen view d
    else if x AND STAT_INTR \<noteq> 0 then seen view d' = dd_finish sectors (view (fst d)) (snd d)
    else view (fst d') = view (fst d) \<and> dd_partial sectors (view (fst d)) (snd d) (snd d')"
  using assms(1) unfolding ddisk_def dd_reads_def Let_def by (elim conjE allE [of _ d]) (simp only: assms(2) prod.case)

lemma ddisk_check:
  assumes "ddisk p pa view sectors k" "dd_cmd (view (fst d)) \<noteq> 0" and "msim_dd_check_interrupt p pa d = (b, d')"
  shows "if b \<noteq> 0 then seen view d' = dd_finish sectors (view (fst d)) (snd d)
    else view (fst d') = view (fst d) \<and> dd_partial sectors (view (fst d)) (snd d) (snd d')"
proof -
  obtain x e where r: "io_read p W32 (MSIM_DD_REG pa MSIM_DD_STAT) d = (x, e)" by (cases "io_read p W32 (MSIM_DD_REG pa MSIM_DD_STAT) d")
  show ?thesis using ddisk_status [OF assms(1) r] assms(2,3) by (auto simp: msim_dd_check_interrupt_def r split: if_splits)
qed

lemma seen_eq: "seen view d = (v, mem) \<longleftrightarrow> view (fst d) = v \<and> snd d = mem"
  by (simp add: seen_def)

lemma dd_partial_refl [simp]: "dd_partial sectors v mem mem"
  by (simp add: dd_partial_def same_except_def)

lemma dd_partial_trans: "dd_partial sectors v m1 m2 \<Longrightarrow> dd_partial sectors v m2 m3 \<Longrightarrow> dd_partial sectors v m1 m3"
  by (simp add: dd_partial_def same_except_def split: if_splits)

lemma placed_same_except: "same_except at n mem mem' \<Longrightarrow> placed disk from at n mem' = placed disk from at n mem"
  by (rule ext) (simp add: same_except_def placed_def)

lemma dd_finish_partial: "dd_partial sectors v mem mem' \<Longrightarrow> dd_finish sectors v mem' = dd_finish sectors v mem"
  by (auto simp: dd_partial_def dd_finish_def Let_def placed_same_except split: if_splits)

lemma ddisk_busy:
  assumes "ddisk p pa view sectors k"
  shows "dd_cmd (view (fst d)) \<noteq> 0 \<Longrightarrow> \<forall>l<i. fst (msim_dd_check_interrupt p pa (polled (msim_dd_check_interrupt p pa) l d)) = 0 \<Longrightarrow>
    view (fst (polled (msim_dd_check_interrupt p pa) i d)) = view (fst d) \<and>
    dd_partial sectors (view (fst d)) (snd d) (snd (polled (msim_dd_check_interrupt p pa) i d))"
proof (induction i arbitrary: d)
  case (Suc i)
  obtain b d' where c: "msim_dd_check_interrupt p pa d = (b, d')" by (cases "msim_dd_check_interrupt p pa d")
  have z: "b = 0" using spec [OF Suc.prems(2), of 0] c by simp
  have same: "view (fst d') = view (fst d)" "dd_partial sectors (view (fst d)) (snd d) (snd d')"
    using ddisk_check [OF assms Suc.prems(1) c] z by simp_all
  have "\<forall>l<i. fst (msim_dd_check_interrupt p pa (polled (msim_dd_check_interrupt p pa) l d')) = 0"
    using Suc.prems(2) c by auto
  then show ?case using Suc.IH [of d'] Suc.prems(1) same c by (auto intro: dd_partial_trans)
qed simp

lemma dd_wait_finishes:
  assumes "ddisk p pa view sectors k" "k \<le> n" "dd_cmd (view (fst d)) \<noteq> 0"
  shows "\<exists>d'. dd_wait n p pa d = Ret d' \<and>
    seen view d' = apfst (\<lambda>v. v\<lparr>dd_intr := False\<rparr>) (dd_finish sectors (view (fst d)) (snd d))"
proof -
  let ?c = "msim_dd_check_interrupt p pa"
  obtain j where "j < k" "fst (?c (polled ?c j d)) \<noteq> 0" using assms(1,3) unfolding ddisk_def by blast
  then have "\<not> fst (?c (polled ?c j d)) = 0" "j < n" using assms(2) by auto
  from poll_until [of "\<lambda>v. v = 0" ?c, OF this, of 0] obtain i where
    i: "poll n (\<lambda>_ d. Ret (?c d)) (\<lambda>v. v = 0) 0 d = Ret (?c (polled ?c i d))"
      "fst (?c (polled ?c i d)) \<noteq> 0" "\<forall>l<i. fst (?c (polled ?c l d)) = 0" by blast
  let ?d = "polled ?c i d"
  have same: "view (fst ?d) = view (fst d)" "dd_partial sectors (view (fst d)) (snd d) (snd ?d)"
    using ddisk_busy [OF assms(1,3) i(3)] by simp_all
  have "seen view (snd (?c ?d)) = dd_finish sectors (view (fst ?d)) (snd ?d)"
    using ddisk_check [OF assms(1), of ?d "fst (?c ?d)" "snd (?c ?d)"] assms(3) i(2) same(1) by simp
  then have "seen view (snd (?c ?d)) = dd_finish sectors (view (fst d)) (snd d)"
    using dd_finish_partial [OF same(2)] same(1) by simp
  then have "seen view (msim_dd_ack_interrupt p pa (snd (?c ?d))) =
      apfst (\<lambda>v. v\<lparr>dd_intr := False\<rparr>) (dd_finish sectors (view (fst d)) (snd d))"
    unfolding ddisk_writes(4) [OF assms(1)]
    by (cases "dd_finish sectors (view (fst d)) (snd d)") (simp add: seen_eq)
  then show ?thesis using i(1) by (simp add: dd_wait_def case_prod_beta)
qed

lemma dd_command_view:
  assumes "ddisk p pa view sectors k" "c = CMD_READ \<or> c = CMD_WRITE"
  shows "seen view (dd_command p dd pa sect c d) =
    ((view (fst d))\<lparr>dd_dma := mips_kva2pa dd, dd_sector := sect, dd_cmd := c, dd_intr := False\<rparr>, snd d)"
proof -
  let ?d1 = "io_write p W32 (MSIM_DD_REG pa MSIM_DD_DMAADDR) (ucast (mips_kva2pa dd)) d"
  let ?d2 = "io_write p W32 (MSIM_DD_REG pa MSIM_DD_SECTOR) (ucast sect) ?d1"
  have 1: "view (fst ?d1) = (view (fst d))\<lparr>dd_dma := mips_kva2pa dd\<rparr>" "snd ?d1 = snd d"
    using ddisk_writes(1) [OF assms(1), of "ucast (mips_kva2pa dd)" d] by (simp_all add: seen_eq)
  have 2: "view (fst ?d2) = (view (fst d))\<lparr>dd_dma := mips_kva2pa dd, dd_sector := sect\<rparr>" "snd ?d2 = snd d"
    using ddisk_writes(2) [OF assms(1), of "ucast sect" ?d1] 1 by (simp_all add: seen_eq)
  show ?thesis using ddisk_writes(3) [OF assms, of ?d2] 2 by (simp add: dd_command_def Let_def)
qed

text \<open>The buffer is in KSEG0, as every variable of the firmware.\<close>

definition in_kseg0 :: "u32 \<Rightarrow> bool" where
  "in_kseg0 a \<longleftrightarrow> KSEG0 < a \<and> a \<le> KSEG1"

lemma kseg0_round_trip: "in_kseg0 a \<Longrightarrow> TO_CAC (mips_kva2pa a) = a"
  by (auto simp: in_kseg0_def mips_kva2pa_def TO_CAC_def)

lemma copied_placed:
  assumes "apart 512 buf dd"
  shows "copied 512 buf dd (placed disk from dd 512 mem) = placed disk from buf 512 (placed disk from dd 512 mem)"
proof
  fix a
  show "copied 512 buf dd (placed disk from dd 512 mem) a = placed disk from buf 512 (placed disk from dd 512 mem) a"
    by (simp add: copied_def placed_def)
qed

text \<open>Reading a sector puts it into the buffer of the transfer and from there into the caller's.\<close>

lemma dd_read_sector:
  assumes "ddisk p pa view sectors k" "k \<le> n" "in_kseg0 dd" "apart 512 buf dd" "unat sect < sectors"
  shows "\<exists>d'. msim_dd_read_sector n p dd pa sect buf True d = Ret (0, d') \<and>
    snd d' = placed (dd_disk (view (fst d))) (unat sect * 512) buf 512 (placed (dd_disk (view (fst d))) (unat sect * 512) dd 512 (snd d)) \<and>
    dd_disk (view (fst d')) = dd_disk (view (fst d))"
proof -
  let ?d1 = "dd_command p dd pa sect CMD_READ d"
  let ?disk = "dd_disk (view (fst d))"
  have 1: "view (fst ?d1) = (view (fst d))\<lparr>dd_dma := mips_kva2pa dd, dd_sector := sect, dd_cmd := CMD_READ, dd_intr := False\<rparr>" "snd ?d1 = snd d"
    using dd_command_view [OF assms(1), of CMD_READ dd sect d] by (simp_all add: seen_eq)
  have busy: "dd_cmd (view (fst ?d1)) \<noteq> 0" unfolding 1 by (simp add: CMD_READ_def)
  obtain d2 where 2: "dd_wait n p pa ?d1 = Ret d2"
    "seen view d2 = apfst (\<lambda>v. v\<lparr>dd_intr := False\<rparr>) (dd_finish sectors (view (fst ?d1)) (snd ?d1))"
    using dd_wait_finishes [OF assms(1,2) busy] by blast
  have v2: "dd_cmd (view (fst d2)) = 0" "\<not> dd_err (view (fst d2))" "dd_disk (view (fst d2)) = ?disk"
    "snd d2 = placed ?disk (unat sect * 512) dd 512 (snd d)"
    using 2(2) assms(3,5) by (simp_all add: 1 dd_finish_def seen_eq kseg0_round_trip)
  obtain x d3 where r: "io_read p W32 (MSIM_DD_REG pa MSIM_DD_STAT) d2 = (x, d3)"
    by (cases "io_read p W32 (MSIM_DD_REG pa MSIM_DD_STAT) d2")
  have 3: "x AND STAT_ERROR = 0" "view (fst d3) = view (fst d2)" "snd d3 = snd d2"
    using ddisk_status [OF assms(1) r] v2(1,2) by (auto simp: dd_status_def seen_def)
  have "memcpy buf dd SECTOR_SIZE (snd d3) = placed ?disk (unat sect * 512) buf 512 (placed ?disk (unat sect * 512) dd 512 (snd d))"
    using memcpy_copied [of SECTOR_SIZE buf dd "snd d3"] assms(4) copied_placed [OF assms(4)] 3(3) v2(4) by (simp add: SECTOR_SIZE_def)
  then show ?thesis using 2(1) r 3(1,2) v2(3) by (simp add: msim_dd_read_sector_def Let_def)
qed

lemma dd_read_sector_error:
  assumes "ddisk p pa view sectors k" "k \<le> n" "sectors \<le> unat sect"
  shows "\<exists>d'. msim_dd_read_sector n p dd pa sect buf True d = Ret (-1, d') \<and> snd d' = snd d"
proof -
  let ?d1 = "dd_command p dd pa sect CMD_READ d"
  have 1: "view (fst ?d1) = (view (fst d))\<lparr>dd_dma := mips_kva2pa dd, dd_sector := sect, dd_cmd := CMD_READ, dd_intr := False\<rparr>" "snd ?d1 = snd d"
    using dd_command_view [OF assms(1), of CMD_READ dd sect d] by (simp_all add: seen_eq)
  have busy: "dd_cmd (view (fst ?d1)) \<noteq> 0" unfolding 1 by (simp add: CMD_READ_def)
  obtain d2 where 2: "dd_wait n p pa ?d1 = Ret d2"
    "seen view d2 = apfst (\<lambda>v. v\<lparr>dd_intr := False\<rparr>) (dd_finish sectors (view (fst ?d1)) (snd ?d1))"
    using dd_wait_finishes [OF assms(1,2) busy] by blast
  have v2: "dd_cmd (view (fst d2)) = 0" "dd_err (view (fst d2))" "snd d2 = snd d"
    using 2(2) assms(3) by (simp_all add: 1 dd_finish_def seen_eq)
  obtain x d3 where r: "io_read p W32 (MSIM_DD_REG pa MSIM_DD_STAT) d2 = (x, d3)"
    by (cases "io_read p W32 (MSIM_DD_REG pa MSIM_DD_STAT) d2")
  have 3: "x AND STAT_ERROR \<noteq> 0" "snd d3 = snd d2"
    using ddisk_status [OF assms(1) r] v2(1,2) by (auto simp: dd_status_def seen_def)
  then show ?thesis using 2(1) r v2(3) by (simp add: msim_dd_read_sector_def Let_def)
qed

lemma stored_copied: "stored (copied 512 dst src mem) dst from disk = stored mem src from disk"
proof
  fix i
  show "stored (copied 512 dst src mem) dst from disk i = stored mem src from disk i"
  proof (cases "from \<le> i \<and> i < from + 512")
    case True
    then obtain j where "i = from + j" "j < 512" using le_Suc_ex by fastforce
    then show ?thesis by (simp add: stored_def copied_def unat_of_nat)
  next
    case False
    then show ?thesis unfolding stored_def by (simp only: if_False)
  qed
qed

lemma dd_write_sector:
  assumes "ddisk p pa view sectors k" "k \<le> n" "in_kseg0 dd" "apart 512 dd buf" "unat sect < sectors"
  shows "\<exists>d'. msim_dd_write_sector n p dd pa sect buf True d = Ret (0, d') \<and> snd d' = copied 512 dd buf (snd d) \<and>
    dd_disk (view (fst d')) = stored (snd d) buf (unat sect * 512) (dd_disk (view (fst d)))"
proof -
  let ?d0 = "(fst d, memcpy dd buf SECTOR_SIZE (snd d))"
  let ?d1 = "dd_command p dd pa sect CMD_WRITE ?d0"
  have m: "snd ?d0 = copied 512 dd buf (snd d)" using memcpy_copied [of SECTOR_SIZE dd buf "snd d"] assms(4) by (simp add: SECTOR_SIZE_def)
  have 1: "view (fst ?d1) = (view (fst d))\<lparr>dd_dma := mips_kva2pa dd, dd_sector := sect, dd_cmd := CMD_WRITE, dd_intr := False\<rparr>" "snd ?d1 = snd ?d0"
    using dd_command_view [OF assms(1), of CMD_WRITE dd sect ?d0] by (simp_all add: seen_eq)
  have busy: "dd_cmd (view (fst ?d1)) \<noteq> 0" unfolding 1 by (simp add: CMD_WRITE_def)
  obtain d2 where 2: "dd_wait n p pa ?d1 = Ret d2"
    "seen view d2 = apfst (\<lambda>v. v\<lparr>dd_intr := False\<rparr>) (dd_finish sectors (view (fst ?d1)) (snd ?d1))"
    using dd_wait_finishes [OF assms(1,2) busy] by blast
  have rw: "CMD_WRITE \<noteq> CMD_READ" by (simp add: CMD_WRITE_def CMD_READ_def)
  have v2: "dd_cmd (view (fst d2)) = 0" "\<not> dd_err (view (fst d2))" "snd d2 = snd ?d0"
    using 2(2) assms(5) rw unfolding 1 by (simp_all add: dd_finish_def seen_eq Let_def)
  have disk: "dd_disk (view (fst d2)) = stored (snd d) buf (unat sect * 512) (dd_disk (view (fst d)))"
    using 2(2) assms(3,5) rw stored_copied [of dd buf] unfolding 1 m by (simp add: dd_finish_def seen_eq kseg0_round_trip Let_def)
  obtain x d3 where r: "io_read p W32 (MSIM_DD_REG pa MSIM_DD_STAT) d2 = (x, d3)"
    by (cases "io_read p W32 (MSIM_DD_REG pa MSIM_DD_STAT) d2")
  have 3: "x AND STAT_ERROR = 0" "view (fst d3) = view (fst d2)" "snd d3 = snd d2"
    using ddisk_status [OF assms(1) r] v2(1,2) by (auto simp: dd_status_def seen_def)
  then show ?thesis using 2(1) r v2(3) disk m by (simp add: msim_dd_write_sector_def Let_def)
qed

text \<open>
  C39: On a disk that behaves as MSIM's, with a transfer buffer in KSEG0 that is apart from \<open>buf\<close> and
  \<open>buf2\<close>, a sector of the disk that is written is read back: after writing from
  \<open>buf\<close> and reading into \<open>buf2\<close>, with polling, both calls return 0 and the 512 bytes at \<open>buf2\<close> are those that were
  at \<open>buf\<close>; no other sector has changed. A sector that does not exist is reported with -1 and
  leaves memory alone. Both routines end, for every disk that ends its commands.
\<close>

theorem msim_disk_round_trip:
  assumes "ddisk p pa view sectors k" "k \<le> n" "in_kseg0 dd" "apart 512 dd buf" "apart 512 buf2 dd" "unat sect < sectors"
  shows "\<exists>d1 d2. msim_dd_write_sector n p dd pa sect buf True d = Ret (0, d1) \<and>
    msim_dd_read_sector n p dd pa sect buf2 True d1 = Ret (0, d2) \<and>
    (\<forall>j<512. snd d2 (buf2 + of_nat j) = snd d (buf + of_nat j)) \<and>
    (\<forall>i. i div 512 \<noteq> unat sect \<longrightarrow> dd_disk (view (fst d2)) i = dd_disk (view (fst d)) i) \<and>
    (\<forall>bad. sectors \<le> unat bad \<longrightarrow> (\<exists>d3. msim_dd_read_sector n p dd pa bad buf2 True d2 = Ret (-1, d3) \<and> snd d3 = snd d2))"
proof -
  obtain d1 where d1: "msim_dd_write_sector n p dd pa sect buf True d = Ret (0, d1)"
    "dd_disk (view (fst d1)) = stored (snd d) buf (unat sect * 512) (dd_disk (view (fst d)))"
    using dd_write_sector [OF assms(1-4,6), of d] by blast
  obtain d2 where d2: "msim_dd_read_sector n p dd pa sect buf2 True d1 = Ret (0, d2)"
    "snd d2 = placed (dd_disk (view (fst d1))) (unat sect * 512) buf2 512 (placed (dd_disk (view (fst d1))) (unat sect * 512) dd 512 (snd d1))"
    "dd_disk (view (fst d2)) = dd_disk (view (fst d1))"
    using dd_read_sector [OF assms(1-3,5,6), of d1] by blast
  have "snd d2 (buf2 + of_nat j) = snd d (buf + of_nat j)" if "j < 512" for j
    using that by (simp add: d2(2) d1(2) placed_def stored_def unat_of_nat)
  moreover have "dd_disk (view (fst d2)) i = dd_disk (view (fst d)) i" if "i div 512 \<noteq> unat sect" for i
  proof -
    have "\<not> (unat sect * 512 \<le> i \<and> i < unat sect * 512 + 512)"
      using that by (auto simp: div_nat_eqI)
    then show ?thesis unfolding d2(3) d1(2) stored_def by (rule if_not_P)
  qed
  ultimately show ?thesis using d1(1) d2(1) dd_read_sector_error [OF assms(1,2)] by blast
qed

text \<open>A disk of eight sectors that answers a read of its status once before it is done.\<close>

definition sim_status :: "dd_view \<Rightarrow> u64" where
  "sim_status v = (if dd_intr v then STAT_INTR else 0) OR (if dd_err v then STAT_ERROR else 0)"

definition sim_dd :: "(dd_view \<times> bool) dma plat" where
  "sim_dd = \<lparr>iomap = (\<lambda>a. a), port_insns = False,
     hw_load = (\<lambda>w a d.
       if a = 0x1008 then
         (let v = fst (fst d)
          in if dd_cmd v = 0 then (sim_status v, d)
             else if snd (fst d) then (0, ((v, False), snd d))
             else (let (v', mem') = dd_finish 8 v (snd d) in (sim_status v', ((v', True), mem'))))
       else (0, d)),
     hw_store = (\<lambda>w a x d.
       let v = fst (fst d); upd = (\<lambda>v'. ((v', snd (fst d)), snd d))
       in if a = 0x1000 then upd (v\<lparr>dd_dma := ucast x\<rparr>) else if a = 0x1004 then upd (v\<lparr>dd_sector := ucast x\<rparr>)
          else if a = 0x1008 \<and> x = CMD_ACK then upd (v\<lparr>dd_intr := False\<rparr>)
          else if a = 0x1008 then upd (v\<lparr>dd_cmd := x, dd_intr := False\<rparr>) else d),
     hw_in = (\<lambda>w a d. (0, d)), hw_out = (\<lambda>w a v d. d)\<rparr>"

lemma sim_status_bits: "take_bit 32 (sim_status v) = sim_status v" "sim_status v AND STAT_INTR = 0 \<longleftrightarrow> \<not> dd_intr v"
  "sim_status v AND STAT_ERROR = 0 \<longleftrightarrow> \<not> dd_err v"
  by (simp_all add: sim_status_def STAT_INTR_def STAT_ERROR_def)

lemma sim_dd_stat:
  "io_read sim_dd W32 (MSIM_DD_REG 0x1000 MSIM_DD_STAT) d =
     (let v = fst (fst d)
      in if dd_cmd v = 0 then (sim_status v, d)
         else if snd (fst d) then (0, ((v, False), snd d))
         else (let (v', mem') = dd_finish 8 v (snd d) in (sim_status v', ((v', True), mem'))))"
  by (simp add: io_read_def sim_dd_def MSIM_DD_REG_def MSIM_DD_STAT_def sim_status_bits(1) Let_def split: prod.splits)

lemma dd_finish_intr: "dd_finish sectors v mem = (v', mem') \<Longrightarrow> dd_intr v'"
  by (auto simp: dd_finish_def Let_def split: if_splits)

lemma sim_ddisk: "ddisk sim_dd 0x1000 fst 8 2"
proof -
  have u: "(ucast (take_bit 32 x) :: u32) = ucast x" for x :: u64 by (rule bit_word_eqI) (simp add: bit_simps)
  have "dd_writes sim_dd 0x1000 fst"
    by (simp add: dd_writes_def io_write_def sim_dd_def MSIM_DD_REG_def MSIM_DD_DMAADDR_def MSIM_DD_SECTOR_def MSIM_DD_COMMAND_def
        CMD_ACK_def CMD_READ_def CMD_WRITE_def seen_def Let_def u)
  moreover have "dd_reads sim_dd 0x1000 fst 8"
    unfolding dd_reads_def sim_dd_stat
    by (auto simp: Let_def dd_status_def sim_status_bits seen_def dd_finish_intr split: prod.splits)
  moreover have t: "fst (msim_dd_check_interrupt sim_dd 0x1000 (polled (msim_dd_check_interrupt sim_dd 0x1000) (if snd (fst d) then 1 else 0) d)) \<noteq> 0"
    if "dd_cmd (fst (fst d)) \<noteq> 0" for d
    using that by (auto simp: msim_dd_check_interrupt_def sim_dd_stat Let_def sim_status_bits dd_finish_intr split: prod.splits)
  moreover have "\<exists>j<2. fst (msim_dd_check_interrupt sim_dd 0x1000 (polled (msim_dd_check_interrupt sim_dd 0x1000) j d)) \<noteq> 0"
    if "dd_cmd (fst (fst d)) \<noteq> 0" for d
    using t [OF that] by (intro exI [of _ "if snd (fst d) then 1 else 0"]) simp
  ultimately show ?thesis unfolding ddisk_def by blast
qed

theorem msim_disk_round_trip_witness:
  "\<exists>d1 d2. msim_dd_write_sector 2 sim_dd 0x80100000 0x1000 3 0x80200000 True
        ((\<lparr>dd_dma = 0, dd_sector = 0, dd_cmd = 0, dd_intr = False, dd_err = False, dd_disk = (\<lambda>_. 0)\<rparr>, True), \<lambda>a. ucast a) = Ret (0, d1) \<and>
     msim_dd_read_sector 2 sim_dd 0x80100000 0x1000 3 0x80300000 True d1 = Ret (0, d2) \<and> snd d2 0x80300007 = 7"
proof -
  let ?d = "((\<lparr>dd_dma = 0, dd_sector = 0, dd_cmd = 0, dd_intr = False, dd_err = False, dd_disk = (\<lambda>_. 0)\<rparr>, True), \<lambda>a :: u32. ucast a :: u8)"
  have "apart 512 0x80100000 0x80200000" "apart 512 0x80300000 0x80100000" by (rule apart_ranges; simp)+
  then obtain d1 d2 where *: "msim_dd_write_sector 2 sim_dd 0x80100000 0x1000 3 0x80200000 True ?d = Ret (0, d1)"
    "msim_dd_read_sector 2 sim_dd 0x80100000 0x1000 3 0x80300000 True d1 = Ret (0, d2)"
    "\<forall>j<512. snd d2 (0x80300000 + of_nat j) = snd ?d (0x80200000 + of_nat j)"
    using msim_disk_round_trip [OF sim_ddisk, of 2 "0x80100000" "0x80200000" "0x80300000" 3 ?d]
    by (auto simp: in_kseg0_def KSEG0_def KSEG1_def)
  from *(3) [rule_format, of 7] have "snd d2 0x80300007 = 7" by simp
  with *(1,2) show ?thesis by blast
qed

end
