(* ===== verification/Sd.thy ===== *)
theory Sd
  imports Disk
begin

text \<open>
  SD cards: the driver \<open>drivers/sd/sd-zynq.c\<close> of the firmware with the registers of
  \<open>drivers/sd/sd-zynq-hw.h\<close>. All accesses go through \<open>io.h\<close>. Loops have a number of rounds. The delay
  \<open>usleep(2000)\<close> before the first command is an argument, a step of the hardware.
\<close>

section \<open>Registers and commands\<close>

definition SD0_PHYSBASE :: u64 where "SD0_PHYSBASE = 0xE0100000"
definition SD_BASE :: u64 where "SD_BASE = SD0_PHYSBASE"
definition SD_SDMA_SYS_ADDR_OFFSET :: u64 where "SD_SDMA_SYS_ADDR_OFFSET = 0x00"
definition SD_BLK_SIZE_OFFSET :: u64 where "SD_BLK_SIZE_OFFSET = 0x04"
definition SD_BLK_CNT_OFFSET :: u64 where "SD_BLK_CNT_OFFSET = 0x06"
definition SD_ARGMT_OFFSET :: u64 where "SD_ARGMT_OFFSET = 0x08"
definition SD_XFER_MODE_OFFSET :: u64 where "SD_XFER_MODE_OFFSET = 0x0C"
definition SD_CMD_OFFSET :: u64 where "SD_CMD_OFFSET = 0x0E"
definition SD_RESP0_OFFSET :: u64 where "SD_RESP0_OFFSET = 0x10"
definition SD_PRES_STATE_OFFSET :: u64 where "SD_PRES_STATE_OFFSET = 0x24"
definition SD_HOST_CTRL1_OFFSET :: u64 where "SD_HOST_CTRL1_OFFSET = 0x28"
definition SD_POWER_CTRL_OFFSET :: u64 where "SD_POWER_CTRL_OFFSET = 0x29"
definition SD_CLK_CTRL_OFFSET :: u64 where "SD_CLK_CTRL_OFFSET = 0x2C"
definition SD_TIMEOUT_CTRL_OFFSET :: u64 where "SD_TIMEOUT_CTRL_OFFSET = 0x2E"
definition SD_SW_RST_OFFSET :: u64 where "SD_SW_RST_OFFSET = 0x2F"
definition SD_NORM_INTR_STS_OFFSET :: u64 where "SD_NORM_INTR_STS_OFFSET = 0x30"
definition SD_ERR_INTR_STS_OFFSET :: u64 where "SD_ERR_INTR_STS_OFFSET = 0x32"
definition SD_NORM_INTR_STS_EN_OFFSET :: u64 where "SD_NORM_INTR_STS_EN_OFFSET = 0x34"
definition SD_ERR_INTR_STS_EN_OFFSET :: u64 where "SD_ERR_INTR_STS_EN_OFFSET = 0x36"
definition SD_NORM_INTR_SIG_EN_OFFSET :: u64 where "SD_NORM_INTR_SIG_EN_OFFSET = 0x38"
definition SD_ERR_INTR_SIG_EN_OFFSET :: u64 where "SD_ERR_INTR_SIG_EN_OFFSET = 0x3A"
definition SD_TM_MUL_SIN_BLK_SEL :: u64 where "SD_TM_MUL_SIN_BLK_SEL = 0x20"
definition SD_TM_DAT_DIR_SEL :: u64 where "SD_TM_DAT_DIR_SEL = 0x10"
definition SD_TM_AUTO_CMD12_EN :: u64 where "SD_TM_AUTO_CMD12_EN = 0x04"
definition SD_TM_BLK_CNT_EN :: u64 where "SD_TM_BLK_CNT_EN = 0x02"
definition SD_TM_DMA_EN :: u64 where "SD_TM_DMA_EN = 0x01"
definition SD_PSR_CARD_INSRT :: u64 where "SD_PSR_CARD_INSRT = 0x00010000"
definition SD_PSR_INHIBIT_DAT :: u64 where "SD_PSR_INHIBIT_DAT = 0x00000002"
definition SD_PSR_INHIBIT_CMD :: u64 where "SD_PSR_INHIBIT_CMD = 0x00000001"
definition SD_HC_DMA_SDMA :: u64 where "SD_HC_DMA_SDMA = 0x00"
definition SD_PC_BUS_VSEL_3V3 :: u64 where "SD_PC_BUS_VSEL_3V3 = 0x0E"
definition SD_PC_BUS_PWR :: u64 where "SD_PC_BUS_PWR = 0x01"
definition SD_CC_SDCLK_FREQ_D128 :: u64 where "SD_CC_SDCLK_FREQ_D128 = 0x4000"
definition SD_CC_SD_CLK_EN :: u64 where "SD_CC_SD_CLK_EN = 0x0004"
definition SD_CC_INT_CLK_STABLE :: u64 where "SD_CC_INT_CLK_STABLE = 0x0002"
definition SD_CC_INT_CLK_EN :: u64 where "SD_CC_INT_CLK_EN = 0x0001"
definition SD_SWRST_ALL_MASK :: u64 where "SD_SWRST_ALL_MASK = 0x00000001"
definition SD_NORM_INTR_ALL :: u64 where "SD_NORM_INTR_ALL = 0xFFFF"
definition SD_INTR_ERR :: u64 where "SD_INTR_ERR = 0x8000"
definition SD_INTR_CARD :: u64 where "SD_INTR_CARD = 0x0100"
definition SD_INTR_TC :: u64 where "SD_INTR_TC = 0x0002"
definition SD_INTR_CC :: u64 where "SD_INTR_CC = 0x0001"
definition SD_ERR_INTR_ALL :: u64 where "SD_ERR_INTR_ALL = 0xF3FF"
definition SD_DAT_PRESENT :: u16 where "SD_DAT_PRESENT = 0x20"
definition SD_CMD_INX_CHK_EN :: u16 where "SD_CMD_INX_CHK_EN = 0x10"
definition SD_CMD_CRC_CHK_EN :: u16 where "SD_CMD_CRC_CHK_EN = 0x08"
definition SD_CMD_RESP_L48_BSY_CHK :: u16 where "SD_CMD_RESP_L48_BSY_CHK = 0x03"
definition SD_CMD_RESP_L48 :: u16 where "SD_CMD_RESP_L48 = 0x02"
definition SD_CMD_RESP_L136 :: u16 where "SD_CMD_RESP_L136 = 0x01"
definition SD_CMD_RESP_NONE :: u16 where "SD_CMD_RESP_NONE = 0x00"

definition SD_CMD0 :: u16 where "SD_CMD0 = 0x0000"
definition SD_CMD1 :: u16 where "SD_CMD1 = 0x0100"
definition SD_CMD2 :: u16 where "SD_CMD2 = 0x0200"
definition SD_CMD3 :: u16 where "SD_CMD3 = 0x0300"
definition SD_CMD4 :: u16 where "SD_CMD4 = 0x0400"
definition SD_CMD5 :: u16 where "SD_CMD5 = 0x0500"
definition SD_CMD6 :: u16 where "SD_CMD6 = 0x0600"
definition SD_CMD7 :: u16 where "SD_CMD7 = 0x0700"
definition SD_CMD8 :: u16 where "SD_CMD8 = 0x0800"
definition SD_CMD9 :: u16 where "SD_CMD9 = 0x0900"
definition SD_CMD10 :: u16 where "SD_CMD10 = 0x0A00"
definition SD_CMD12 :: u16 where "SD_CMD12 = 0x0C00"
definition SD_CMD16 :: u16 where "SD_CMD16 = 0x1000"
definition SD_CMD17 :: u16 where "SD_CMD17 = 0x1100"
definition SD_CMD18 :: u16 where "SD_CMD18 = 0x1200"
definition SD_CMD23 :: u16 where "SD_CMD23 = 0x1700"
definition SD_CMD24 :: u16 where "SD_CMD24 = 0x1800"
definition SD_CMD25 :: u16 where "SD_CMD25 = 0x1900"
definition SD_CMD52 :: u16 where "SD_CMD52 = 0x3400"
definition SD_CMD55 :: u16 where "SD_CMD55 = 0x3700"
definition SD_ACMD6 :: u16 where "SD_ACMD6 = 0x8600"
definition SD_ACMD13 :: u16 where "SD_ACMD13 = 0x8D00"
definition SD_ACMD23 :: u16 where "SD_ACMD23 = 0x9700"
definition SD_ACMD41 :: u16 where "SD_ACMD41 = 0xA900"
definition SD_ACMD42 :: u16 where "SD_ACMD42 = 0xAA00"
definition SD_ACMD51 :: u16 where "SD_ACMD51 = 0xB300"

definition SD_RESP_NONE :: u16 where "SD_RESP_NONE = SD_CMD_RESP_NONE"
definition SD_RESP_R1 :: u16 where "SD_RESP_R1 = SD_CMD_RESP_L48 OR SD_CMD_CRC_CHK_EN OR SD_CMD_INX_CHK_EN"
definition SD_RESP_R1B :: u16 where "SD_RESP_R1B = SD_CMD_RESP_L48_BSY_CHK OR SD_CMD_CRC_CHK_EN OR SD_CMD_INX_CHK_EN"
definition SD_RESP_R2 :: u16 where "SD_RESP_R2 = SD_CMD_RESP_L136 OR SD_CMD_CRC_CHK_EN"
definition SD_RESP_R3 :: u16 where "SD_RESP_R3 = SD_CMD_RESP_L48"
definition SD_RESP_R6 :: u16 where "SD_RESP_R6 = SD_CMD_RESP_L48_BSY_CHK OR SD_CMD_CRC_CHK_EN OR SD_CMD_INX_CHK_EN"

definition SD_CMD8_VOL_PATTERN :: u32 where "SD_CMD8_VOL_PATTERN = 0x01AA"
definition SD_RESP_READY :: u32 where "SD_RESP_READY = 0x80000000"
definition SD_ACMD41_HCS :: u32 where "SD_ACMD41_HCS = 0x40000000"
definition SD_ACMD41_3V3 :: u32 where "SD_ACMD41_3V3 = 0x00300000"

section \<open>The driver\<close>

text \<open>Accesses to the controller.\<close>

definition sd_rd :: "'d plat \<Rightarrow> width \<Rightarrow> u64 \<Rightarrow> 'd \<Rightarrow> u64 \<times> 'd" where
  "sd_rd p w off d = io_read p w (SD_BASE + off) d"

definition sd_wr :: "'d plat \<Rightarrow> width \<Rightarrow> u64 \<Rightarrow> u64 \<Rightarrow> 'd \<Rightarrow> 'd" where
  "sd_wr p w off v d = io_write p w (SD_BASE + off) v d"

primrec sd_wrs :: "'d plat \<Rightarrow> (width \<times> u64 \<times> u64) list \<Rightarrow> 'd \<Rightarrow> 'd" where
  "sd_wrs p [] d = d"
| "sd_wrs p (x # xs) d = sd_wrs p xs (sd_wr p (fst x) (fst (snd x)) (snd (snd x)) d)"

definition sd_init :: "nat \<Rightarrow> 'd plat \<Rightarrow> 'd \<Rightarrow> 'd outcome" where
  "sd_init n p d =
     (let d = sd_wr p W8 SD_SW_RST_OFFSET SD_SWRST_ALL_MASK d
      in obind (poll n (\<lambda>_ d. Ret (sd_rd p W8 SD_SW_RST_OFFSET d)) (\<lambda>v. v AND SD_SWRST_ALL_MASK \<noteq> 0) 0 d) (\<lambda>(_, d).
         let d = sd_wr p W16 SD_CLK_CTRL_OFFSET (SD_CC_SDCLK_FREQ_D128 OR SD_CC_INT_CLK_EN) d
         in obind (poll n (\<lambda>_ d. Ret (sd_rd p W16 SD_CLK_CTRL_OFFSET d)) (\<lambda>v. \<not> (v AND SD_CC_INT_CLK_STABLE \<noteq> 0)) 0 d) (\<lambda>(_, d).
            let (v, d) = sd_rd p W16 SD_CLK_CTRL_OFFSET d
            in Ret (sd_wrs p
                 [(W16, SD_CLK_CTRL_OFFSET, v OR SD_CC_SD_CLK_EN),
                  (W8, SD_POWER_CTRL_OFFSET, SD_PC_BUS_VSEL_3V3 OR SD_PC_BUS_PWR),
                  (W8, SD_HOST_CTRL1_OFFSET, SD_HC_DMA_SDMA),
                  (W16, SD_NORM_INTR_STS_EN_OFFSET, SD_NORM_INTR_ALL AND NOT SD_INTR_CARD),
                  (W16, SD_ERR_INTR_STS_EN_OFFSET, SD_ERR_INTR_ALL),
                  (W16, SD_NORM_INTR_SIG_EN_OFFSET, 0),
                  (W16, SD_ERR_INTR_SIG_EN_OFFSET, 0),
                  (W16, SD_BLK_SIZE_OFFSET, 512)] d))))"

definition sd_frame_cmd :: "u16 \<Rightarrow> u16" where
  "sd_frame_cmd cmd =
     (let cmd =
        (if cmd \<in> {SD_CMD0, SD_CMD4} then cmd OR SD_RESP_NONE
         else if cmd \<in> {SD_ACMD6, SD_CMD7, SD_CMD10, SD_CMD12, SD_ACMD13, SD_CMD16, SD_ACMD42, SD_CMD52, SD_CMD55} then cmd OR SD_RESP_R1
         else if cmd \<in> {SD_CMD17, SD_CMD18, SD_CMD23, SD_ACMD23, SD_CMD24, SD_CMD25, SD_ACMD51} then cmd OR (SD_RESP_R1 OR SD_DAT_PRESENT)
         else if cmd = SD_CMD5 then cmd OR SD_RESP_R1B
         else if cmd \<in> {SD_CMD2, SD_CMD9} then cmd OR SD_RESP_R2
         else if cmd \<in> {SD_CMD1, SD_ACMD41} then cmd OR SD_RESP_R3
         else if cmd = SD_CMD3 then cmd OR SD_RESP_R6
         else if cmd = SD_CMD6 then cmd OR (SD_RESP_R1 OR SD_DAT_PRESENT)
         else if cmd = SD_CMD8 then cmd OR SD_RESP_R1
         else cmd)
      in cmd AND 0x3FFF)"

text \<open>The transfer mode of a command: 1 reads, 2 writes, everything else has no data.\<close>

definition sd_mode :: "int \<Rightarrow> u64" where
  "sd_mode mode =
     (if mode = 1 then SD_TM_MUL_SIN_BLK_SEL OR SD_TM_DAT_DIR_SEL OR SD_TM_AUTO_CMD12_EN OR SD_TM_BLK_CNT_EN OR SD_TM_DMA_EN
      else if mode = 2 then SD_TM_MUL_SIN_BLK_SEL OR SD_TM_AUTO_CMD12_EN OR SD_TM_BLK_CNT_EN OR SD_TM_DMA_EN
      else SD_TM_DMA_EN)"

text \<open>Waiting for a bit of the interrupt status; an error ends the loop.\<close>

fun sd_wait :: "nat \<Rightarrow> 'd plat \<Rightarrow> u64 \<Rightarrow> 'd \<Rightarrow> (bool \<times> 'd) outcome" where
  "sd_wait 0 p bit_mask d = Hang"
| "sd_wait (Suc n) p bit_mask d =
     (let (result, d) = sd_rd p W16 SD_NORM_INTR_STS_OFFSET d
      in if result AND SD_INTR_ERR \<noteq> 0 then Ret (False, d)
         else if \<not> (result AND bit_mask \<noteq> 0) then sd_wait n p bit_mask d
         else Ret (True, d))"

definition sd_send_cmd :: "nat \<Rightarrow> 'd plat \<Rightarrow> u16 \<Rightarrow> u16 \<Rightarrow> u32 \<Rightarrow> int \<Rightarrow> 'd \<Rightarrow> (int \<times> 'd) outcome" where
  "sd_send_cmd n p cmd count arg mode d =
     (let cmd = sd_frame_cmd cmd;
          (state, d) = sd_rd p W32 SD_PRES_STATE_OFFSET d
      in if state AND SD_PSR_INHIBIT_CMD \<noteq> 0 then Ret (-1, d)
         else if state AND SD_PSR_INHIBIT_DAT \<noteq> 0 \<and> cmd AND SD_DAT_PRESENT \<noteq> 0 then Ret (-2, d)
         else
           let d = sd_wrs p
                 [(W16, SD_BLK_CNT_OFFSET, ucast count),
                  (W16, SD_TIMEOUT_CTRL_OFFSET, 0xE),
                  (W32, SD_ARGMT_OFFSET, ucast arg),
                  (W16, SD_NORM_INTR_STS_OFFSET, SD_NORM_INTR_ALL),
                  (W16, SD_ERR_INTR_STS_OFFSET, SD_ERR_INTR_ALL),
                  (W16, SD_XFER_MODE_OFFSET, sd_mode mode),
                  (W16, SD_CMD_OFFSET, ucast cmd)] d
           in obind (sd_wait n p SD_INTR_CC d) (\<lambda>(good, d).
                if \<not> good then Ret (-3, d) else Ret (0, sd_wr p W16 SD_NORM_INTR_STS_OFFSET SD_INTR_CC d)))"

definition sd_resp0 :: "'d plat \<Rightarrow> 'd \<Rightarrow> u32 \<times> 'd" where
  "sd_resp0 p d = (let (v, d) = sd_rd p W32 SD_RESP0_OFFSET d in (ucast v, d))"

text \<open>The loop of \<open>sd_init_card\<close> around CMD55 and ACMD41: an error or the response.\<close>

fun sd_acmd41_loop :: "nat \<Rightarrow> nat \<Rightarrow> 'd plat \<Rightarrow> 'd \<Rightarrow> (u32 option \<times> 'd) outcome" where
  "sd_acmd41_loop 0 n p d = Hang"
| "sd_acmd41_loop (Suc r) n p d =
     obind (sd_send_cmd n p SD_CMD55 0 0 0 d) (\<lambda>(ret, d).
       if ret \<noteq> 0 then Ret (None, d)
       else obind (sd_send_cmd n p SD_ACMD41 0 (SD_ACMD41_HCS OR SD_ACMD41_3V3) 0 d) (\<lambda>(ret, d).
         if ret \<noteq> 0 then Ret (None, d)
         else let (resp, d) = sd_resp0 p d
              in if \<not> (resp AND SD_RESP_READY \<noteq> 0) then sd_acmd41_loop r n p d else Ret (Some resp, d)))"

fun sd_cmd3_loop :: "nat \<Rightarrow> nat \<Rightarrow> 'd plat \<Rightarrow> 'd \<Rightarrow> (u32 option \<times> 'd) outcome" where
  "sd_cmd3_loop 0 n p d = Hang"
| "sd_cmd3_loop (Suc r) n p d =
     obind (sd_send_cmd n p SD_CMD3 0 0 0 d) (\<lambda>(ret, d).
       if ret \<noteq> 0 then Ret (None, d)
       else let (v, d) = sd_resp0 p d; resp = v AND 0xFFFF0000
            in if resp = 0 then sd_cmd3_loop r n p d else Ret (Some resp, d))"

definition sd_init_card :: "nat \<Rightarrow> nat \<Rightarrow> 'd plat \<Rightarrow> ('d \<Rightarrow> 'd outcome) \<Rightarrow> 'd \<Rightarrow> (int \<times> 'd) outcome" where
  "sd_init_card r n p usleep_2000 d =
     (let (state, d) = sd_rd p W32 SD_PRES_STATE_OFFSET d
      in if \<not> (state AND SD_PSR_CARD_INSRT \<noteq> 0) then Ret (-1, d)
         else obind (usleep_2000 d) (\<lambda>d.
           obind (sd_send_cmd n p SD_CMD0 0 0 0 d) (\<lambda>(ret, d). if ret \<noteq> 0 then Ret (-2, d) else
           obind (sd_send_cmd n p SD_CMD8 0 SD_CMD8_VOL_PATTERN 0 d) (\<lambda>(ret, d). if ret \<noteq> 0 then Ret (-3, d) else
           let (resp, d) = sd_resp0 p d in if resp \<noteq> SD_CMD8_VOL_PATTERN then Ret (-4, d) else
           obind (sd_acmd41_loop r n p d) (\<lambda>(resp, d). case resp of None \<Rightarrow> Ret (-5, d) | Some resp \<Rightarrow>
           let cardtype = (if resp AND SD_ACMD41_HCS \<noteq> 0 then 1 else 0 :: int) in
           obind (sd_send_cmd n p SD_CMD2 0 0 0 d) (\<lambda>(ret, d). if ret \<noteq> 0 then Ret (-6, d) else
           obind (sd_cmd3_loop r n p d) (\<lambda>(resp, d). case resp of None \<Rightarrow> Ret (-7, d) | Some resp \<Rightarrow>
           obind (sd_send_cmd n p SD_CMD9 0 resp 0 d) (\<lambda>(ret, d). if ret \<noteq> 0 then Ret (-8, d) else
           obind (sd_send_cmd n p SD_CMD7 0 resp 0 d) (\<lambda>(ret, d). if ret \<noteq> 0 then Ret (-9, d) else
           Ret (cardtype, d))))))))))"

text \<open>The part that \<open>sd_read\<close> and \<open>sd_write\<close> share: a command with its transfer.\<close>

definition sd_transfer :: "nat \<Rightarrow> 'd plat \<Rightarrow> u16 \<Rightarrow> int \<Rightarrow> u32 \<Rightarrow> u16 \<Rightarrow> u32 \<Rightarrow> 'd \<Rightarrow> (int \<times> 'd) outcome" where
  "sd_transfer n p cmd mode pa count offset d =
     (let (state32, d) = sd_rd p W32 SD_PRES_STATE_OFFSET d
      in if \<not> (state32 AND SD_PSR_CARD_INSRT \<noteq> 0) then Ret (-1, d)
         else let d = sd_wr p W32 SD_SDMA_SYS_ADDR_OFFSET (ucast pa) d
              in obind (sd_send_cmd n p cmd count offset mode d) (\<lambda>(ret, d).
                   if ret \<noteq> 0 then Ret (-2, d)
                   else obind (sd_wait n p SD_INTR_TC d) (\<lambda>(good, d).
                     if \<not> good then Ret (-3, sd_wr p W16 SD_ERR_INTR_STS_OFFSET SD_ERR_INTR_ALL d)
                     else Ret (0, sd_wr p W16 SD_NORM_INTR_STS_OFFSET SD_INTR_TC d))))"

definition sd_read :: "nat \<Rightarrow> 'd plat \<Rightarrow> u32 \<Rightarrow> u16 \<Rightarrow> u32 \<Rightarrow> 'd \<Rightarrow> (int \<times> 'd) outcome" where
  "sd_read n p pa count offset d = sd_transfer n p SD_CMD18 1 pa count offset d"

definition sd_write :: "nat \<Rightarrow> 'd plat \<Rightarrow> u32 \<Rightarrow> u16 \<Rightarrow> u32 \<Rightarrow> 'd \<Rightarrow> (int \<times> 'd) outcome" where
  "sd_write n p pa count offset d = sd_transfer n p SD_CMD25 2 pa count offset d"

section \<open>What is asked of the controller\<close>

text \<open>
  A view of the controller and the card: the registers, the phase of the command at work, the
  two bits of the interrupt status, whether a card is there and whether it counts in blocks
  (SDHC) or in bytes (SD), and the contents of the card.
\<close>

datatype sd_phase = SdIdle | SdCommand | SdTransfer

record sd_view =
  sv_addr :: u32
  sv_cnt :: u16
  sv_arg :: u32
  sv_mode :: u16
  sv_cmd :: u16
  sv_phase :: sd_phase
  sv_cc :: bool
  sv_tc :: bool
  sv_card :: bool
  sv_hc :: bool
  sv_disk :: "nat \<Rightarrow> u8"

definition sd_from :: "sd_view \<Rightarrow> nat" where
  "sd_from v = (if sv_hc v then unat (sv_arg v) * 512 else unat (sv_arg v))"

definition sd_bytes :: "sd_view \<Rightarrow> nat" where
  "sd_bytes v = unat (sv_cnt v) * 512"

definition sd_reading :: "sd_view \<Rightarrow> bool" where
  "sd_reading v \<longleftrightarrow> sv_cmd v AND SD_DAT_PRESENT \<noteq> 0 \<and> sv_mode v AND 0x10 \<noteq> 0"

text \<open>
  The controller makes progress between accesses: a command is accepted, and has a transfer if it
  comes with data; a transfer that reads reaches some of its target, and in the end all of it; of
  one that writes nothing is said about the card.
\<close>

inductive sd_run :: "sd_view \<Rightarrow> bytes \<Rightarrow> sd_view \<Rightarrow> bytes \<Rightarrow> bool" where
  same: "sd_run v mem v mem"
| accept: "sd_run v mem v' mem' \<Longrightarrow> sv_phase v' = SdCommand \<Longrightarrow>
    sd_run v mem (v'\<lparr>sv_phase := (if sv_cmd v' AND SD_DAT_PRESENT \<noteq> 0 then SdTransfer else SdIdle), sv_cc := True\<rparr>) mem'"
| part: "sd_run v mem v' mem' \<Longrightarrow> sv_phase v' = SdTransfer \<Longrightarrow> sd_reading v' \<Longrightarrow>
    same_except (sv_addr v') (sd_bytes v') mem' mem'' \<Longrightarrow> sd_run v mem v' mem''"
| finish_read: "sd_run v mem v' mem' \<Longrightarrow> sv_phase v' = SdTransfer \<Longrightarrow> sd_reading v' \<Longrightarrow>
    sd_run v mem (v'\<lparr>sv_phase := SdIdle, sv_tc := True\<rparr>) (placed (sv_disk v') (sd_from v') (sv_addr v') (sd_bytes v') mem')"
| finish_write: "sd_run v mem v' mem' \<Longrightarrow> sv_phase v' = SdTransfer \<Longrightarrow> \<not> sd_reading v' \<Longrightarrow>
    sd_run v mem (v'\<lparr>sv_phase := SdIdle, sv_tc := True, sv_disk := disk\<rparr>) mem'"

definition sd_access :: "('s \<Rightarrow> sd_view) \<Rightarrow> 's dma \<Rightarrow> (sd_view \<Rightarrow> sd_view) \<Rightarrow> 's dma \<Rightarrow> bool" where
  "sd_access view d f d' \<longleftrightarrow> (\<exists>v mem. sd_run (view (fst d)) (snd d) v mem \<and> seen view d' = (f v, mem))"

text \<open>The effect of a write to a register; writing a bit of the interrupt status clears it.\<close>

definition sd_effect :: "u64 \<Rightarrow> u64 \<Rightarrow> sd_view \<Rightarrow> sd_view" where
  "sd_effect off x v =
     (if off = SD_SDMA_SYS_ADDR_OFFSET then v\<lparr>sv_addr := ucast x\<rparr>
      else if off = SD_BLK_CNT_OFFSET then v\<lparr>sv_cnt := ucast x\<rparr>
      else if off = SD_ARGMT_OFFSET then v\<lparr>sv_arg := ucast x\<rparr>
      else if off = SD_XFER_MODE_OFFSET then v\<lparr>sv_mode := ucast x\<rparr>
      else if off = SD_CMD_OFFSET then v\<lparr>sv_cmd := ucast x, sv_phase := SdCommand\<rparr>
      else if off = SD_NORM_INTR_STS_OFFSET then v\<lparr>sv_cc := (sv_cc v \<and> x AND SD_INTR_CC = 0), sv_tc := (sv_tc v \<and> x AND SD_INTR_TC = 0)\<rparr>
      else v)"

definition sd_written :: "(width \<times> u64) set" where
  "sd_written = {(W32, SD_SDMA_SYS_ADDR_OFFSET), (W16, SD_BLK_CNT_OFFSET), (W16, SD_TIMEOUT_CTRL_OFFSET), (W32, SD_ARGMT_OFFSET),
     (W16, SD_NORM_INTR_STS_OFFSET), (W16, SD_ERR_INTR_STS_OFFSET), (W16, SD_XFER_MODE_OFFSET), (W16, SD_CMD_OFFSET)}"

text \<open>
  A transfer that the controller can make without help: its blocks are on a card of \<open>cap\<close> bytes, and
  its target does not cross a boundary of 4096 bytes, where the controller would stop and ask for an address.
\<close>

definition sd_fits :: "nat \<Rightarrow> sd_view \<Rightarrow> bool" where
  "sd_fits cap v \<longleftrightarrow> sd_from v + sd_bytes v \<le> cap \<and> unat (sv_addr v) mod 4096 + sd_bytes v \<le> 4096"

definition sd_sound :: "nat \<Rightarrow> sd_view \<Rightarrow> bool" where
  "sd_sound cap v \<longleftrightarrow> sv_phase v = SdIdle \<or> sv_cmd v AND SD_DAT_PRESENT = 0 \<or> sd_fits cap v"

text \<open>
  A controller without errors: writes have their effect, the present state tells whether there is
  a card and that an idle controller takes commands, the interrupt status shows its two bits, and
  one of \<open>k\<close> reads of it shows that a command has been accepted, or that a transfer is complete.
\<close>

definition sdhost :: "'s dma plat \<Rightarrow> ('s \<Rightarrow> sd_view) \<Rightarrow> nat \<Rightarrow> nat \<Rightarrow> bool" where
  "sdhost p view cap k \<longleftrightarrow>
     (\<forall>d w off x. sd_sound cap (view (fst d)) \<and> (w, off) \<in> sd_written \<longrightarrow>
        sd_access view d (sd_effect off (take_bit (bits w) x)) (sd_wr p w off x d)) \<and>
     (\<forall>d. sd_sound cap (view (fst d)) \<longrightarrow> sd_access view d (\<lambda>v. v) (snd (sd_rd p W32 SD_PRES_STATE_OFFSET d)) \<and>
        (let (x, d') = sd_rd p W32 SD_PRES_STATE_OFFSET d; v = view (fst d')
         in (x AND SD_PSR_CARD_INSRT \<noteq> 0 \<longleftrightarrow> sv_card v) \<and>
            (sv_phase v = SdIdle \<longrightarrow> x AND SD_PSR_INHIBIT_CMD = 0 \<and> x AND SD_PSR_INHIBIT_DAT = 0))) \<and>
     (\<forall>d. sd_sound cap (view (fst d)) \<longrightarrow> sd_access view d (\<lambda>v. v) (snd (sd_rd p W16 SD_NORM_INTR_STS_OFFSET d)) \<and>
        (let (x, d') = sd_rd p W16 SD_NORM_INTR_STS_OFFSET d; v = view (fst d')
         in x AND SD_INTR_ERR = 0 \<and> (x AND SD_INTR_CC \<noteq> 0 \<longleftrightarrow> sv_cc v) \<and> (x AND SD_INTR_TC \<noteq> 0 \<longleftrightarrow> sv_tc v))) \<and>
     (\<forall>d. sd_sound cap (view (fst d)) \<and> sv_phase (view (fst d)) = SdCommand \<longrightarrow>
        (\<exists>j<k. sv_cc (view (fst (polled (sd_rd p W16 SD_NORM_INTR_STS_OFFSET) (Suc j) d))))) \<and>
     (\<forall>d. sd_sound cap (view (fst d)) \<and> (sv_phase (view (fst d)) = SdTransfer \<or> sv_tc (view (fst d))) \<longrightarrow>
        (\<exists>j<k. sv_tc (view (fst (polled (sd_rd p W16 SD_NORM_INTR_STS_OFFSET) (Suc j) d)))))"

section \<open>Waiting\<close>

lemma sd_wait_shows:
  fixes P :: "'d \<Rightarrow> bool"
  assumes keeps: "\<And>d. I d \<Longrightarrow> I (snd (sd_rd p W16 SD_NORM_INTR_STS_OFFSET d))"
    and fine: "\<And>d. I d \<Longrightarrow> fst (sd_rd p W16 SD_NORM_INTR_STS_OFFSET d) AND SD_INTR_ERR = 0"
    and tells: "\<And>d. I d \<Longrightarrow> fst (sd_rd p W16 SD_NORM_INTR_STS_OFFSET d) AND b \<noteq> 0 \<longleftrightarrow> P (snd (sd_rd p W16 SD_NORM_INTR_STS_OFFSET d))"
  shows "I d \<Longrightarrow> j < n \<Longrightarrow> P (polled (sd_rd p W16 SD_NORM_INTR_STS_OFFSET) (Suc j) d) \<Longrightarrow>
    \<exists>d'. sd_wait n p b d = Ret (True, d') \<and> I d' \<and> P d'"
proof (induction n arbitrary: j d)
  case (Suc n)
  obtain x d' where r: "sd_rd p W16 SD_NORM_INTR_STS_OFFSET d = (x, d')" by (cases "sd_rd p W16 SD_NORM_INTR_STS_OFFSET d")
  have i: "I d'" "x AND SD_INTR_ERR = 0" "x AND b \<noteq> 0 \<longleftrightarrow> P d'"
    using keeps [OF Suc.prems(1)] fine [OF Suc.prems(1)] tells [OF Suc.prems(1)] r by simp_all
  show ?case
  proof (cases "P d'")
    case True
    then show ?thesis using r i by simp
  next
    case False
    then obtain j' where j: "j = Suc j'" using Suc.prems(3) r by (cases j) auto
    have "P (polled (sd_rd p W16 SD_NORM_INTR_STS_OFFSET) (Suc j') d')" "j' < n" using Suc.prems(2,3) j r by simp_all
    from Suc.IH [OF i(1) this(2,1)] show ?thesis using False r i by simp
  qed
qed simp

section \<open>Reading blocks\<close>

lemma sd_run_idle: "sd_run v mem v' mem' \<Longrightarrow> sv_phase v = SdIdle \<Longrightarrow> v' = v \<and> mem' = mem"
  by (induction rule: sd_run.induct) auto

lemma sd_access_idle: "sd_access view d f d' \<Longrightarrow> sv_phase (view (fst d)) = SdIdle \<Longrightarrow> seen view d' = (f (view (fst d)), snd d)"
  using sd_run_idle by (auto simp: sd_access_def)

lemma sdhost_wr:
  "sdhost p view cap k \<Longrightarrow> sd_sound cap (view (fst d)) \<Longrightarrow> (w, off) \<in> sd_written \<Longrightarrow> sd_access view d (sd_effect off (take_bit (bits w) x)) (sd_wr p w off x d)"
  unfolding sdhost_def by blast

lemma sd_sound_idle: "sv_phase v = SdIdle \<Longrightarrow> sd_sound cap v"
  by (simp add: sd_sound_def)

lemma sdhost_wr_idle:
  assumes "sdhost p view cap k" "(w, off) \<in> sd_written" "sv_phase (view (fst d)) = SdIdle"
  shows "view (fst (sd_wr p w off x d)) = sd_effect off (take_bit (bits w) x) (view (fst d))" "snd (sd_wr p w off x d) = snd d"
  using sd_access_idle [OF sdhost_wr [OF assms(1) sd_sound_idle assms(2)] assms(3)] assms(3) by (simp_all add: seen_def)

lemma sd_effect_idle [simp]: "off \<noteq> SD_CMD_OFFSET \<Longrightarrow> sv_phase (sd_effect off x v) = sv_phase v"
  by (simp add: sd_effect_def)

lemma sd_effect_keeps [simp]: "sv_card (sd_effect off x v) = sv_card v" "sv_hc (sd_effect off x v) = sv_hc v" "sv_disk (sd_effect off x v) = sv_disk v"
  by (simp_all add: sd_effect_def)

text \<open>Writes to an idle controller, in a row.\<close>

lemma sd_wrs_idle:
  assumes "sdhost p view cap k"
  shows "\<forall>x \<in> set xs. (fst x, fst (snd x)) \<in> sd_written \<and> fst (snd x) \<noteq> SD_CMD_OFFSET \<Longrightarrow> sv_phase (view (fst d)) = SdIdle \<Longrightarrow>
    view (fst (sd_wrs p xs d)) = fold (\<lambda>x. sd_effect (fst (snd x)) (take_bit (bits (fst x)) (snd (snd x)))) xs (view (fst d)) \<and>
    snd (sd_wrs p xs d) = snd d"
proof (induction xs arbitrary: d)
  case (Cons x xs)
  let ?d = "sd_wr p (fst x) (fst (snd x)) (snd (snd x)) d"
  have "view (fst ?d) = sd_effect (fst (snd x)) (take_bit (bits (fst x)) (snd (snd x))) (view (fst d))" "snd ?d = snd d"
    using sdhost_wr_idle [OF assms, of "fst x" "fst (snd x)"] Cons.prems by simp_all
  then show ?case using Cons by simp
qed simp

text \<open>The states between the command and the end of its transfer; \<open>v0\<close> and \<open>mem\<close> are those at the command.\<close>

definition sd_between :: "sd_view \<Rightarrow> bytes \<Rightarrow> sd_view \<Rightarrow> bytes \<Rightarrow> bool" where
  "sd_between v0 mem v m \<longleftrightarrow>
     v\<lparr>sv_phase := SdCommand, sv_cc := False, sv_tc := False\<rparr> = v0 \<and>
     (case sv_phase v of
        SdCommand \<Rightarrow> \<not> sv_cc v \<and> \<not> sv_tc v \<and> m = mem
      | SdTransfer \<Rightarrow> \<not> sv_tc v \<and> same_except (sv_addr v0) (sd_bytes v0) mem m
      | SdIdle \<Rightarrow> sv_tc v \<and> m = placed (sv_disk v0) (sd_from v0) (sv_addr v0) (sd_bytes v0) mem)"

lemma same_except_trans: "same_except at n m1 m2 \<Longrightarrow> same_except at n m2 m3 \<Longrightarrow> same_except at n m1 m3"
  by (simp add: same_except_def)

lemma same_except_refl [simp]: "same_except at n m m"
  by (simp add: same_except_def)

lemma sd_between_fields:
  assumes "sd_between v0 mem v m"
  shows "sv_addr v0 = sv_addr v" "sd_bytes v0 = sd_bytes v" "sv_disk v0 = sv_disk v" "sd_from v0 = sd_from v" "sd_reading v0 = sd_reading v"
    "sv_cmd v0 = sv_cmd v"
  using assms by (auto simp: sd_between_def sd_bytes_def sd_from_def sd_reading_def)

lemma sd_between_run:
  "sd_run v m v' m' \<Longrightarrow> sd_between v0 mem v m \<Longrightarrow> sd_reading v0 \<Longrightarrow>
    sd_between v0 mem v' m' \<and> (sv_phase v \<noteq> SdCommand \<longrightarrow> sv_phase v' \<noteq> SdCommand)"
proof (induction rule: sd_run.induct)
  case (accept v m v' m')
  then have b: "sd_between v0 mem v' m'" and r: "sd_reading v0" by simp_all
  show ?case using b accept.hyps(2) r sd_between_fields [OF b] by (auto simp: sd_between_def sd_reading_def)
next
  case (part v m v' m' m'')
  then have b: "sd_between v0 mem v' m'" by simp
  then show ?case using part sd_between_fields [OF b] by (auto simp: sd_between_def intro: same_except_trans)
next
  case (finish_read v m v' m')
  then have b: "sd_between v0 mem v' m'" by simp
  then have "placed (sv_disk v') (sd_from v') (sv_addr v') (sd_bytes v') m' = placed (sv_disk v0) (sd_from v0) (sv_addr v0) (sd_bytes v0) mem"
    using finish_read.hyps(2) sd_between_fields [OF b] by (auto simp: sd_between_def intro: placed_same_except)
  then show ?case using finish_read b by (auto simp: sd_between_def)
next
  case (finish_write v m v' m' disk)
  then show ?case using sd_between_fields(5) [of v0 mem v' m'] by auto
qed auto

definition sd_pending :: "('s \<Rightarrow> sd_view) \<Rightarrow> sd_view \<Rightarrow> bytes \<Rightarrow> 's dma \<Rightarrow> bool" where
  "sd_pending view v0 mem d \<longleftrightarrow> sd_between v0 mem (view (fst d)) (snd d)"

lemma sd_pending_sound: "sd_pending view v0 mem d \<Longrightarrow> sd_fits cap v0 \<Longrightarrow> sd_sound cap (view (fst d))"
  using sd_between_fields [of v0 mem "view (fst d)" "snd d"] by (simp add: sd_pending_def sd_sound_def sd_fits_def)

lemma sdhost_status:
  assumes "sdhost p view cap k" and sound: "sd_sound cap (view (fst d))"
  shows "sd_access view d (\<lambda>v. v) (snd (sd_rd p W16 SD_NORM_INTR_STS_OFFSET d))"
    and "fst (sd_rd p W16 SD_NORM_INTR_STS_OFFSET d) AND SD_INTR_ERR = 0"
    and "fst (sd_rd p W16 SD_NORM_INTR_STS_OFFSET d) AND SD_INTR_CC \<noteq> 0 \<longleftrightarrow> sv_cc (view (fst (snd (sd_rd p W16 SD_NORM_INTR_STS_OFFSET d))))"
    and "fst (sd_rd p W16 SD_NORM_INTR_STS_OFFSET d) AND SD_INTR_TC \<noteq> 0 \<longleftrightarrow> sv_tc (view (fst (snd (sd_rd p W16 SD_NORM_INTR_STS_OFFSET d))))"
proof -
  have *: "\<forall>d. sd_sound cap (view (fst d)) \<longrightarrow> sd_access view d (\<lambda>v. v) (snd (sd_rd p W16 SD_NORM_INTR_STS_OFFSET d)) \<and>
        (let (x, d') = sd_rd p W16 SD_NORM_INTR_STS_OFFSET d; v = view (fst d')
         in x AND SD_INTR_ERR = 0 \<and> (x AND SD_INTR_CC \<noteq> 0 \<longleftrightarrow> sv_cc v) \<and> (x AND SD_INTR_TC \<noteq> 0 \<longleftrightarrow> sv_tc v))"
    using assms(1) unfolding sdhost_def by (elim conjE)
  note ** = mp [OF spec [OF *, of d] sound]
  show "sd_access view d (\<lambda>v. v) (snd (sd_rd p W16 SD_NORM_INTR_STS_OFFSET d))" using ** by (rule conjunct1)
  show "fst (sd_rd p W16 SD_NORM_INTR_STS_OFFSET d) AND SD_INTR_ERR = 0"
    "fst (sd_rd p W16 SD_NORM_INTR_STS_OFFSET d) AND SD_INTR_CC \<noteq> 0 \<longleftrightarrow> sv_cc (view (fst (snd (sd_rd p W16 SD_NORM_INTR_STS_OFFSET d))))"
    "fst (sd_rd p W16 SD_NORM_INTR_STS_OFFSET d) AND SD_INTR_TC \<noteq> 0 \<longleftrightarrow> sv_tc (view (fst (snd (sd_rd p W16 SD_NORM_INTR_STS_OFFSET d))))"
    using conjunct2 [OF **] by (cases "sd_rd p W16 SD_NORM_INTR_STS_OFFSET d"; simp add: Let_def)+
qed

lemma sd_pending_status:
  assumes "sdhost p view cap k" "sd_reading v0" "sd_fits cap v0" "sd_pending view v0 mem d"
  shows "sd_pending view v0 mem (snd (sd_rd p W16 SD_NORM_INTR_STS_OFFSET d))"
  using sdhost_status(1) [OF assms(1) sd_pending_sound [OF assms(4,3)]] sd_between_run [of "view (fst d)" "snd d" _ _ v0 mem] assms(2,4)
  by (auto simp: sd_access_def sd_pending_def seen_eq)

lemma sdhost_present:
  assumes "sdhost p view cap k" "sv_phase (view (fst d)) = SdIdle" and "sd_rd p W32 SD_PRES_STATE_OFFSET d = (x, d')"
  shows "view (fst d') = view (fst d)" "snd d' = snd d" "x AND SD_PSR_CARD_INSRT \<noteq> 0 \<longleftrightarrow> sv_card (view (fst d))"
    "x AND SD_PSR_INHIBIT_CMD = 0" "x AND SD_PSR_INHIBIT_DAT = 0"
proof -
  have *: "\<forall>d. sd_sound cap (view (fst d)) \<longrightarrow> sd_access view d (\<lambda>v. v) (snd (sd_rd p W32 SD_PRES_STATE_OFFSET d)) \<and>
        (let (x, d') = sd_rd p W32 SD_PRES_STATE_OFFSET d; v = view (fst d')
         in (x AND SD_PSR_CARD_INSRT \<noteq> 0 \<longleftrightarrow> sv_card v) \<and>
            (sv_phase v = SdIdle \<longrightarrow> x AND SD_PSR_INHIBIT_CMD = 0 \<and> x AND SD_PSR_INHIBIT_DAT = 0))"
    using assms unfolding sdhost_def by (elim conjE)
  note ** = mp [OF spec [OF *, of d] sd_sound_idle [OF assms(2)], unfolded assms(3) Let_def prod.case snd_conv]
  show 1: "view (fst d') = view (fst d)" "snd d' = snd d"
    using sd_access_idle [OF conjunct1 [OF **] assms(2)] by (simp_all add: seen_def)
  show "x AND SD_PSR_CARD_INSRT \<noteq> 0 \<longleftrightarrow> sv_card (view (fst d))" "x AND SD_PSR_INHIBIT_CMD = 0" "x AND SD_PSR_INHIBIT_DAT = 0"
    using conjunct2 [OF **] assms(2) 1(1) by simp_all
qed

lemma sdhost_timely:
  assumes "sdhost p view cap k" "sd_sound cap (view (fst d))"
  shows "sv_phase (view (fst d)) = SdCommand \<Longrightarrow> \<exists>j<k. sv_cc (view (fst (polled (sd_rd p W16 SD_NORM_INTR_STS_OFFSET) (Suc j) d)))"
    and "sv_phase (view (fst d)) = SdTransfer \<or> sv_tc (view (fst d)) \<Longrightarrow>
      \<exists>j<k. sv_tc (view (fst (polled (sd_rd p W16 SD_NORM_INTR_STS_OFFSET) (Suc j) d)))"
  using assms unfolding sdhost_def by blast+

text \<open>The two waits of a read.\<close>

lemma sd_wait_accepted:
  assumes "sdhost p view cap k" "k \<le> n" "sd_reading v0" "sd_fits cap v0" "sd_pending view v0 mem d" "sv_phase (view (fst d)) = SdCommand"
  shows "\<exists>d'. sd_wait n p SD_INTR_CC d = Ret (True, d') \<and> sd_pending view v0 mem d' \<and> sv_cc (view (fst d'))"
proof -
  obtain j where j: "j < n" "sv_cc (view (fst (polled (sd_rd p W16 SD_NORM_INTR_STS_OFFSET) (Suc j) d)))"
    using sdhost_timely(1) [OF assms(1) sd_pending_sound [OF assms(5,4)] assms(6)] assms(2) by (meson less_le_trans)
  note sound = sd_pending_sound [where view = view, OF _ assms(4)]
  show ?thesis
    by (rule sd_wait_shows [where I = "sd_pending view v0 mem" and P = "\<lambda>d. sv_cc (view (fst d))" and j = j,
          OF sd_pending_status [OF assms(1,3,4)] sdhost_status(2) [OF assms(1) sound] sdhost_status(3) [OF assms(1) sound] assms(5) j])
qed

lemma sd_wait_complete:
  assumes "sdhost p view cap k" "k \<le> n" "sd_reading v0" "sd_fits cap v0" "sd_pending view v0 mem d"
    and "sv_phase (view (fst d)) = SdTransfer \<or> sv_tc (view (fst d))"
  shows "\<exists>d'. sd_wait n p SD_INTR_TC d = Ret (True, d') \<and> sd_pending view v0 mem d' \<and> sv_tc (view (fst d'))"
proof -
  obtain j where j: "j < n" "sv_tc (view (fst (polled (sd_rd p W16 SD_NORM_INTR_STS_OFFSET) (Suc j) d)))"
    using sdhost_timely(2) [OF assms(1) sd_pending_sound [OF assms(5,4)] assms(6)] assms(2) by (meson less_le_trans)
  note sound = sd_pending_sound [where view = view, OF _ assms(4)]
  show ?thesis
    by (rule sd_wait_shows [where I = "sd_pending view v0 mem" and P = "\<lambda>d. sv_tc (view (fst d))" and j = j,
          OF sd_pending_status [OF assms(1,3,4)] sdhost_status(2) [OF assms(1) sound] sdhost_status(4) [OF assms(1) sound] assms(5) j])
qed

text \<open>Acknowledging the command leaves the transfer alone.\<close>

lemma sd_ack_accepted:
  assumes "sdhost p view cap k" "sd_reading v0" "sd_pending view v0 mem d" "sv_cc (view (fst d))" "sd_fits cap v0"
  shows "sd_pending view v0 mem (sd_wr p W16 SD_NORM_INTR_STS_OFFSET SD_INTR_CC d)"
    and "sv_phase (view (fst (sd_wr p W16 SD_NORM_INTR_STS_OFFSET SD_INTR_CC d))) = SdTransfer \<or>
      sv_tc (view (fst (sd_wr p W16 SD_NORM_INTR_STS_OFFSET SD_INTR_CC d)))"
proof -
  let ?d = "sd_wr p W16 SD_NORM_INTR_STS_OFFSET SD_INTR_CC d"
  have "(W16, SD_NORM_INTR_STS_OFFSET) \<in> sd_written" by (simp add: sd_written_def)
  from sdhost_wr [OF assms(1) sd_pending_sound [OF assms(3,5)] this, of SD_INTR_CC] obtain v m where run: "sd_run (view (fst d)) (snd d) v m"
    and d: "seen view ?d = (sd_effect SD_NORM_INTR_STS_OFFSET (take_bit 16 SD_INTR_CC) v, m)"
    by (auto simp: sd_access_def)
  have e: "sd_effect SD_NORM_INTR_STS_OFFSET (take_bit 16 SD_INTR_CC) v = v\<lparr>sv_cc := False\<rparr>"
    by (simp add: sd_effect_def SD_NORM_INTR_STS_OFFSET_def SD_SDMA_SYS_ADDR_OFFSET_def SD_BLK_CNT_OFFSET_def SD_ARGMT_OFFSET_def
        SD_XFER_MODE_OFFSET_def SD_CMD_OFFSET_def SD_INTR_CC_def SD_INTR_TC_def)
  have "sv_phase (view (fst d)) \<noteq> SdCommand" using assms(3,4) by (auto simp: sd_pending_def sd_between_def)
  then have b: "sd_between v0 mem v m" and np: "sv_phase v \<noteq> SdCommand"
    using sd_between_run [OF run _ assms(2), of mem] assms(3) by (auto simp: sd_pending_def)
  have bv: "sd_between v0 mem (v\<lparr>sv_cc := False\<rparr>) m" using b np by (auto simp: sd_between_def split: sd_phase.splits)
  then show "sd_pending view v0 mem ?d" using d e by (simp add: sd_pending_def seen_eq)
  show "sv_phase (view (fst ?d)) = SdTransfer \<or> sv_tc (view (fst ?d))"
    using d e b np by (cases "sv_phase v") (auto simp: sd_between_def seen_eq)
qed

text \<open>Sending a command that reads to an idle controller.\<close>

definition sd_loaded :: "sd_view \<Rightarrow> u32 \<Rightarrow> u16 \<Rightarrow> u32 \<Rightarrow> sd_view" where
  "sd_loaded v pa count offset = v\<lparr>sv_addr := pa, sv_cnt := count, sv_arg := offset, sv_mode := 0x37, sv_cmd := 0x123A,
     sv_phase := SdCommand, sv_cc := False, sv_tc := False\<rparr>"

lemmas sd_offsets = SD_SDMA_SYS_ADDR_OFFSET_def SD_BLK_CNT_OFFSET_def SD_ARGMT_OFFSET_def SD_XFER_MODE_OFFSET_def SD_CMD_OFFSET_def
  SD_NORM_INTR_STS_OFFSET_def SD_ERR_INTR_STS_OFFSET_def SD_TIMEOUT_CTRL_OFFSET_def

lemma sd_frame_cmd18: "sd_frame_cmd SD_CMD18 = 0x123A"
  by (simp add: sd_frame_cmd_def SD_CMD18_def SD_CMD0_def SD_CMD4_def SD_ACMD6_def SD_CMD7_def SD_CMD10_def SD_CMD12_def SD_ACMD13_def
      SD_CMD16_def SD_ACMD42_def SD_CMD52_def SD_CMD55_def SD_CMD17_def SD_RESP_R1_def SD_DAT_PRESENT_def SD_CMD_RESP_L48_def
      SD_CMD_CRC_CHK_EN_def SD_CMD_INX_CHK_EN_def)

lemma sd_mode_read: "sd_mode 1 = 0x37"
  by (simp add: sd_mode_def SD_TM_MUL_SIN_BLK_SEL_def SD_TM_DAT_DIR_SEL_def SD_TM_AUTO_CMD12_EN_def SD_TM_BLK_CNT_EN_def SD_TM_DMA_EN_def)

lemma sd_loaded_reading: "sd_reading (sd_loaded v pa count offset)"
  by (simp add: sd_reading_def sd_loaded_def SD_DAT_PRESENT_def)

lemma u64_casts: "(ucast (take_bit 32 (ucast (a :: u32) :: u64)) :: u32) = a" "(ucast (take_bit 16 (ucast (c :: u16) :: u64)) :: u16) = c"
  by (rule bit_word_eqI; simp add: bit_simps)+

lemma sd_start:
  assumes "sdhost p view cap k" "sv_phase (view (fst d)) = SdIdle" "sv_addr (view (fst d)) = pa"
    and ws_def: "ws = [(W16, SD_BLK_CNT_OFFSET, ucast count), (W16, SD_TIMEOUT_CTRL_OFFSET, 0xE), (W32, SD_ARGMT_OFFSET, ucast offset),
    (W16, SD_NORM_INTR_STS_OFFSET, SD_NORM_INTR_ALL), (W16, SD_ERR_INTR_STS_OFFSET, SD_ERR_INTR_ALL), (W16, SD_XFER_MODE_OFFSET, 0x37)]"
  shows "view (fst (sd_wr p W16 SD_CMD_OFFSET 0x123A (sd_wrs p ws d))) = sd_loaded (view (fst d)) pa count offset"
    and "snd (sd_wr p W16 SD_CMD_OFFSET 0x123A (sd_wrs p ws d)) = snd d"
proof -
  let ?d = "sd_wrs p ws d"
  have w: "\<forall>x \<in> set ws. (fst x, fst (snd x)) \<in> sd_written \<and> fst (snd x) \<noteq> SD_CMD_OFFSET"
    by (simp add: ws_def sd_written_def sd_offsets)
  have v: "view (fst ?d) = (view (fst d))\<lparr>sv_cnt := count, sv_arg := offset, sv_cc := False, sv_tc := False, sv_mode := 0x37\<rparr>" "snd ?d = snd d"
    using sd_wrs_idle [OF assms(1) w assms(2)]
    by (simp_all add: ws_def sd_effect_def sd_offsets SD_NORM_INTR_ALL_def SD_INTR_CC_def SD_INTR_TC_def u64_casts)
  have c: "(W16, SD_CMD_OFFSET) \<in> sd_written" by (simp add: sd_written_def)
  have "sv_phase (view (fst ?d)) = SdIdle" using v(1) assms(2) by simp
  note wr = sdhost_wr_idle [OF assms(1) c this, of "0x123A"]
  show "view (fst (sd_wr p W16 SD_CMD_OFFSET 0x123A ?d)) = sd_loaded (view (fst d)) pa count offset"
    unfolding wr(1) v(1) using assms(3) by (simp add: sd_effect_def sd_offsets sd_loaded_def)
  show "snd (sd_wr p W16 SD_CMD_OFFSET 0x123A ?d) = snd d" using wr(2) v(2) by simp
qed

text \<open>
  The whole of \<open>sd_read\<close>, on an idle controller with a card: blocks of the card are in memory at the
  address given, from the place on the card that the offset means to the card.
\<close>

lemma sd_read_card:
  assumes "sdhost p view cap k" "k \<le> n" "sv_phase (view (fst d)) = SdIdle" "sv_card (view (fst d))"
    and "(if sv_hc (view (fst d)) then unat offset * 512 else unat offset) + unat count * 512 \<le> cap" "unat pa mod 4096 + unat count * 512 \<le> 4096"
  shows "\<exists>d'. sd_read n p pa count offset d = Ret (0, d') \<and>
    snd d' = placed (sv_disk (view (fst d))) (if sv_hc (view (fst d)) then unat offset * 512 else unat offset) pa (unat count * 512) (snd d) \<and>
    sv_phase (view (fst d')) = SdIdle \<and> sv_card (view (fst d')) \<and> sv_hc (view (fst d')) = sv_hc (view (fst d)) \<and>
    sv_disk (view (fst d')) = sv_disk (view (fst d))"
proof -
  let ?v = "view (fst d)"
  obtain x d1 where r1: "sd_rd p W32 SD_PRES_STATE_OFFSET d = (x, d1)" by (cases "sd_rd p W32 SD_PRES_STATE_OFFSET d")
  note p1 = sdhost_present [OF assms(1,3) r1]
  let ?d2 = "sd_wr p W32 SD_SDMA_SYS_ADDR_OFFSET (ucast pa) d1"
  have "(W32, SD_SDMA_SYS_ADDR_OFFSET) \<in> sd_written" by (simp add: sd_written_def)
  then have v2: "view (fst ?d2) = ?v\<lparr>sv_addr := pa\<rparr>" "snd ?d2 = snd d"
    using sdhost_wr_idle [OF assms(1), of W32 SD_SDMA_SYS_ADDR_OFFSET d1 "ucast pa"] p1(1,2) assms(3)
    by (simp_all add: sd_effect_def u64_casts)
  obtain x3 d3 where r3: "sd_rd p W32 SD_PRES_STATE_OFFSET ?d2 = (x3, d3)" by (cases "sd_rd p W32 SD_PRES_STATE_OFFSET ?d2")
  have i2: "sv_phase (view (fst ?d2)) = SdIdle" using v2(1) assms(3) by simp
  note p3 = sdhost_present [OF assms(1) i2 r3]
  let ?ws = "[(W16, SD_BLK_CNT_OFFSET, ucast count), (W16, SD_TIMEOUT_CTRL_OFFSET, 0xE), (W32, SD_ARGMT_OFFSET, ucast offset),
    (W16, SD_NORM_INTR_STS_OFFSET, SD_NORM_INTR_ALL), (W16, SD_ERR_INTR_STS_OFFSET, SD_ERR_INTR_ALL), (W16, SD_XFER_MODE_OFFSET, 0x37)]"
  let ?d4 = "sd_wr p W16 SD_CMD_OFFSET 0x123A (sd_wrs p ?ws d3)"
  define v0 where "v0 = sd_loaded ?v pa count offset"
  have "sv_phase (view (fst d3)) = SdIdle" "sv_addr (view (fst d3)) = pa" using p3(1) v2(1) assms(3) by simp_all
  then have v4: "view (fst ?d4) = v0" "snd ?d4 = snd d"
    using sd_start [OF assms(1), of d3 pa ?ws count offset] p3(1,2) v2 by (simp_all add: v0_def sd_loaded_def)
  have rd: "sd_reading v0" unfolding v0_def by (rule sd_loaded_reading)
  have fit: "sd_fits cap v0" using assms(5,6) by (simp add: sd_fits_def v0_def sd_loaded_def sd_from_def sd_bytes_def split: if_splits)
  have ph: "sv_phase (view (fst ?d4)) = SdCommand" unfolding v4 by (simp add: v0_def sd_loaded_def)
  have pend: "sd_pending view v0 (snd d) ?d4"
    using v4 by (simp add: sd_pending_def sd_between_def v0_def sd_loaded_def)
  obtain d5 where d5: "sd_wait n p SD_INTR_CC ?d4 = Ret (True, d5)" "sd_pending view v0 (snd d) d5" "sv_cc (view (fst d5))"
    using sd_wait_accepted [OF assms(1,2) rd fit pend ph] by blast
  let ?d6 = "sd_wr p W16 SD_NORM_INTR_STS_OFFSET SD_INTR_CC d5"
  obtain d7 where d7: "sd_wait n p SD_INTR_TC ?d6 = Ret (True, d7)" "sd_pending view v0 (snd d) d7" "sv_tc (view (fst d7))"
    using sd_wait_complete [OF assms(1,2) rd fit sd_ack_accepted [OF assms(1) rd d5(2,3) fit]] by blast
  have i7: "sv_phase (view (fst d7)) = SdIdle" "snd d7 = placed (sv_disk v0) (sd_from v0) (sv_addr v0) (sd_bytes v0) (snd d)"
    using d7(2,3) by (auto simp: sd_pending_def sd_between_def split: sd_phase.splits)
  have "(W16, SD_NORM_INTR_STS_OFFSET) \<in> sd_written" by (simp add: sd_written_def)
  then have v8: "view (fst (sd_wr p W16 SD_NORM_INTR_STS_OFFSET SD_INTR_TC d7)) = sd_effect SD_NORM_INTR_STS_OFFSET (take_bit 16 SD_INTR_TC) (view (fst d7))"
    "snd (sd_wr p W16 SD_NORM_INTR_STS_OFFSET SD_INTR_TC d7) = snd d7"
    using sdhost_wr_idle [OF assms(1) _ i7(1)] by simp_all
  have "sd_send_cmd n p SD_CMD18 count offset 1 ?d2 = Ret (0, ?d6)"
    using d5(1) p3(4,5) by (simp add: sd_send_cmd_def sd_frame_cmd18 sd_mode_read r3 Let_def)
  then have "sd_read n p pa count offset d = Ret (0, sd_wr p W16 SD_NORM_INTR_STS_OFFSET SD_INTR_TC d7)"
    using p1(3) assms(4) d7(1) by (simp add: sd_read_def sd_transfer_def r1)
  moreover have "v0 = (view (fst d7))\<lparr>sv_phase := SdCommand, sv_cc := False, sv_tc := False\<rparr>"
    using d7(2) by (auto simp: sd_pending_def sd_between_def)
  then have "sv_card (view (fst d7)) = sv_card v0" "sv_hc (view (fst d7)) = sv_hc v0" "sv_disk (view (fst d7)) = sv_disk v0" by simp_all
  moreover have "SD_NORM_INTR_STS_OFFSET \<noteq> SD_CMD_OFFSET" by (simp add: sd_offsets)
  ultimately show ?thesis
    using v8 i7 assms(4) by (simp add: sd_from_def sd_bytes_def v0_def sd_loaded_def)
qed

end
