(* ===== verification/Timer.thy ===== *)
theory Timer
  imports Bus
begin

text \<open>
  The global timer of the Cortex-A9: \<open>drivers/timer/timer-a9.c\<close> with the registers of
  \<open>timer-a9-hw.h\<close>, and the two delays of the firmware that poll it (\<open>sleep\<close> and \<open>usleep\<close> of
  \<open>firmware/arch/armv7a/fwmain.c\<close>). The counter has 64 bits and is read in two halves.
\<close>

section \<open>The driver\<close>

definition MPCORE_PHYSBASE :: addr_t where "MPCORE_PHYSBASE = 0xF8F00000"
definition GT_PHYSBASE :: addr_t where "GT_PHYSBASE = MPCORE_PHYSBASE + 0x200"
definition GT_BASE :: addr_t where "GT_BASE = GT_PHYSBASE"
definition GT_COUNTER_LO_OFFSET :: addr_t where "GT_COUNTER_LO_OFFSET = 0x00"
definition GT_COUNTER_HI_OFFSET :: addr_t where "GT_COUNTER_HI_OFFSET = 0x04"
definition GT_TPUS :: u64 where "GT_TPUS = 400"
definition GT_TPS :: u64 where "GT_TPS = GT_TPUS * 1000000"

definition gt_get_tpus :: u64 where "gt_get_tpus = GT_TPUS"
definition gt_get_tps :: u64 where "gt_get_tps = GT_TPS"

text \<open>The loop reads the upper half again until it did not change over the read of the lower half.\<close>

fun gt_read :: "nat \<Rightarrow> 'd plat \<Rightarrow> 'd \<Rightarrow> (u64 \<times> 'd) outcome" where
  "gt_read 0 p d = Hang"
| "gt_read (Suc n) p d =
     (let (hi, d) = io_read p W32 (GT_BASE + GT_COUNTER_HI_OFFSET) d;
          (lo, d) = io_read p W32 (GT_BASE + GT_COUNTER_LO_OFFSET) d;
          (tmp, d) = io_read p W32 (GT_BASE + GT_COUNTER_HI_OFFSET) d
      in if hi \<noteq> tmp then gt_read n p d else Ret (push_bit 32 hi OR lo, d))"

definition timer_read :: "nat \<Rightarrow> 'd plat \<Rightarrow> 'd \<Rightarrow> (u64 \<times> 'd) outcome" where
  "timer_read n p d = gt_read n p d"

section \<open>Delays of the firmware\<close>

text \<open>\<open>n\<close> bounds the rounds of the loop of a delay, \<open>k\<close> those of a reading of the counter.\<close>

fun sleep_until :: "nat \<Rightarrow> nat \<Rightarrow> 'd plat \<Rightarrow> u64 \<Rightarrow> 'd \<Rightarrow> 'd outcome" where
  "sleep_until 0 k p time d = Hang"
| "sleep_until (Suc n) k p time d =
     obind (timer_read k p d) (\<lambda>(time1, d). if time1 < time then sleep_until n k p time d else Ret d)"

definition sleep :: "nat \<Rightarrow> nat \<Rightarrow> 'd plat \<Rightarrow> u32 \<Rightarrow> 'd \<Rightarrow> 'd outcome" where
  "sleep n k p s d = obind (timer_read k p d) (\<lambda>(time, d). sleep_until n k p (time + gt_get_tps * ucast s) d)"

definition usleep :: "nat \<Rightarrow> nat \<Rightarrow> 'd plat \<Rightarrow> u32 \<Rightarrow> 'd \<Rightarrow> 'd outcome" where
  "usleep n k p us d = obind (timer_read k p d) (\<lambda>(time, d). sleep_until n k p (time + gt_get_tpus * ucast us) d)"

section \<open>What is asked of the timer\<close>

text \<open>
  \<open>ticks\<close> counts without bound; the registers show its lower 64 bits at the moment of the access.
  Every access takes at least one tick and at most \<open>2 ^ 29\<close>, more than a second.
\<close>

definition gt_moves :: "('d \<Rightarrow> nat) \<Rightarrow> 'd \<Rightarrow> 'd \<Rightarrow> bool" where
  "gt_moves ticks d d' \<longleftrightarrow> ticks d < ticks d' \<and> ticks d' \<le> ticks d + 2 ^ 29"

definition global_timer :: "'d plat \<Rightarrow> ('d \<Rightarrow> nat) \<Rightarrow> bool" where
  "global_timer p ticks \<longleftrightarrow>
     (\<forall>d. case io_read p W32 (GT_BASE + GT_COUNTER_HI_OFFSET) d of
            (x, d') \<Rightarrow> gt_moves ticks d d' \<and> x = take_bit 32 (of_nat (ticks d' div 2 ^ 32))) \<and>
     (\<forall>d. case io_read p W32 (GT_BASE + GT_COUNTER_LO_OFFSET) d of
            (x, d') \<Rightarrow> gt_moves ticks d d' \<and> x = take_bit 32 (of_nat (ticks d')))"

lemma global_timer_hi:
  "global_timer p ticks \<Longrightarrow> io_read p W32 (GT_BASE + GT_COUNTER_HI_OFFSET) d = (x, d') \<Longrightarrow>
    gt_moves ticks d d' \<and> x = take_bit 32 (of_nat (ticks d' div 2 ^ 32))"
  by (auto simp: global_timer_def split: prod.splits)

lemma global_timer_lo:
  "global_timer p ticks \<Longrightarrow> io_read p W32 (GT_BASE + GT_COUNTER_LO_OFFSET) d = (x, d') \<Longrightarrow>
    gt_moves ticks d d' \<and> x = take_bit 32 (of_nat (ticks d'))"
  by (auto simp: global_timer_def split: prod.splits)

section \<open>Reading the counter\<close>

lemma join_halves: "push_bit 32 (take_bit 32 (of_nat (t div 2 ^ 32)) :: u64) OR take_bit 32 (of_nat t) = (of_nat t :: u64)"
  unfolding drop_bit_eq_div [symmetric]
  by (rule bit_word_eqI) (auto simp: bit_simps bit_of_nat_iff_bit)

lemma half_unchanged:
  assumes "take_bit 32 (of_nat (t div 2 ^ 32) :: u64) = take_bit 32 (of_nat (t' div 2 ^ 32))" "t \<le> t'" "t' < t + 2 ^ 32"
  shows "t div 2 ^ 32 = t' div 2 ^ 32"
proof -
  have "t div 2 ^ 32 \<le> t' div 2 ^ 32" "t' div 2 ^ 32 \<le> Suc (t div 2 ^ 32)" using assms(2,3) by (simp_all add: div_le_mono)
  moreover have "unat (take_bit 32 (of_nat x) :: u64) = x mod 2 ^ 32" for x :: nat
    by (simp add: take_bit_eq_mod unat_mod unat_of_nat mod_mod_cancel)
  from this [of "t div 2 ^ 32"] this [of "t' div 2 ^ 32"] have "t div 2 ^ 32 mod 2 ^ 32 = t' div 2 ^ 32 mod 2 ^ 32" using assms(1) by simp
  moreover have "a mod 2 ^ 32 \<noteq> Suc a mod 2 ^ 32" for a :: nat by (simp add: mod_Suc)
  ultimately show ?thesis by (metis le_Suc_eq le_antisym)
qed

text \<open>One round: the upper half changes only when the counter passes a multiple of \<open>2 ^ 32\<close>.\<close>

lemma gt_round:
  assumes "global_timer p ticks"
  shows "\<exists>d'. ticks d < ticks d' \<and> ticks d' \<le> ticks d + 3 * 2 ^ 29 \<and>
    ((\<exists>t. gt_read (Suc n) p d = Ret (of_nat t, d') \<and> ticks d < t \<and> t < ticks d') \<or>
     (gt_read (Suc n) p d = gt_read n p d' \<and> ticks d div 2 ^ 32 < ticks d' div 2 ^ 32))"
proof -
  obtain hi d1 where 1: "io_read p W32 (GT_BASE + GT_COUNTER_HI_OFFSET) d = (hi, d1)" by (cases "io_read p W32 (GT_BASE + GT_COUNTER_HI_OFFSET) d")
  obtain lo d2 where 2: "io_read p W32 (GT_BASE + GT_COUNTER_LO_OFFSET) d1 = (lo, d2)" by (cases "io_read p W32 (GT_BASE + GT_COUNTER_LO_OFFSET) d1")
  obtain tmp d3 where 3: "io_read p W32 (GT_BASE + GT_COUNTER_HI_OFFSET) d2 = (tmp, d3)" by (cases "io_read p W32 (GT_BASE + GT_COUNTER_HI_OFFSET) d2")
  note r = global_timer_hi [OF assms 1] global_timer_lo [OF assms 2] global_timer_hi [OF assms 3]
  have b: "ticks d < ticks d1" "ticks d1 < ticks d2" "ticks d2 < ticks d3" "ticks d3 \<le> ticks d + 3 * 2 ^ 29" "ticks d3 < ticks d1 + 2 ^ 32"
    using r by (simp_all add: gt_moves_def)
  show ?thesis
  proof (cases "hi = tmp")
    case True
    then have same: "ticks d1 div 2 ^ 32 = ticks d3 div 2 ^ 32" using r b half_unchanged [of "ticks d1" "ticks d3"] by simp
    have "ticks d1 div 2 ^ 32 \<le> ticks d2 div 2 ^ 32" "ticks d2 div 2 ^ 32 \<le> ticks d3 div 2 ^ 32" using b by (simp_all add: div_le_mono)
    then have "push_bit 32 hi OR lo = of_nat (ticks d2)" using join_halves [of "ticks d2"] r same by simp
    then have "gt_read (Suc n) p d = Ret (of_nat (ticks d2), d3)" using True by (simp add: 1 2 3)
    then show ?thesis using b by (intro exI [of _ d3]) auto
  next
    case False
    then have "ticks d1 div 2 ^ 32 \<noteq> ticks d3 div 2 ^ 32" using r by auto
    then have "ticks d1 div 2 ^ 32 < ticks d3 div 2 ^ 32" using b div_le_mono [of "ticks d1" "ticks d3" "2 ^ 32"] by simp
    then have "ticks d div 2 ^ 32 < ticks d3 div 2 ^ 32" using b div_le_mono [of "ticks d" "ticks d1" "2 ^ 32"] by simp
    moreover have "gt_read (Suc n) p d = gt_read n p d3" using False by (simp add: 1 2 3)
    ultimately show ?thesis using b by (intro exI [of _ d3]) simp
  qed
qed

text \<open>Two rounds are enough, and the result is the counter at a moment of the call.\<close>

lemma gt_read_counter:
  assumes "global_timer p ticks" "2 \<le> n"
  shows "\<exists>t d'. gt_read n p d = Ret (of_nat t, d') \<and> ticks d < t \<and> t < ticks d' \<and> ticks d' \<le> ticks d + 2 ^ 32"
proof -
  obtain m where n: "n = Suc (Suc m)" using assms(2) by (metis add_2_eq_Suc le_Suc_ex)
  obtain d1 where d1: "ticks d < ticks d1" "ticks d1 \<le> ticks d + 3 * 2 ^ 29"
    "(\<exists>t. gt_read n p d = Ret (of_nat t, d1) \<and> ticks d < t \<and> t < ticks d1) \<or>
     (gt_read n p d = gt_read (Suc m) p d1 \<and> ticks d div 2 ^ 32 < ticks d1 div 2 ^ 32)"
    using gt_round [OF assms(1), of d "Suc m"] n by auto
  show ?thesis
  proof (cases "\<exists>t. gt_read n p d = Ret (of_nat t, d1) \<and> ticks d < t \<and> t < ticks d1")
    case True
    then show ?thesis using d1(2) by auto
  next
    case False
    then have f: "gt_read n p d = gt_read (Suc m) p d1" "ticks d div 2 ^ 32 < ticks d1 div 2 ^ 32" using d1(3) by blast+
    obtain d2 where d2: "ticks d1 < ticks d2" "ticks d2 \<le> ticks d1 + 3 * 2 ^ 29"
      "(\<exists>t. gt_read (Suc m) p d1 = Ret (of_nat t, d2) \<and> ticks d1 < t \<and> t < ticks d2) \<or> ticks d1 div 2 ^ 32 < ticks d2 div 2 ^ 32"
      using gt_round [OF assms(1), of d1 m] by auto
    have "\<not> ticks d1 div 2 ^ 32 < ticks d2 div 2 ^ 32"
    proof
      assume "ticks d1 div 2 ^ 32 < ticks d2 div 2 ^ 32"
      then have "ticks d div 2 ^ 32 + 2 \<le> ticks d2 div 2 ^ 32" using f(2) by simp
      moreover have "ticks d2 \<le> ticks d + 2 ^ 32" using d1 d2 by simp
      then have "ticks d2 div 2 ^ 32 \<le> (ticks d + 2 ^ 32) div 2 ^ 32" by (rule div_le_mono)
      ultimately show False by simp
    qed
    then obtain t where "gt_read (Suc m) p d1 = Ret (of_nat t, d2)" "ticks d1 < t" "t < ticks d2" using d2(3) by blast
    then show ?thesis unfolding f(1) using d1 d2 by (intro exI [of _ t] exI [of _ d2]) simp
  qed
qed

section \<open>Delays\<close>

text \<open>A delay ends, not before the time and soon after it.\<close>

lemma sleep_until_time:
  assumes "global_timer p ticks" "2 \<le> k" "target + 2 ^ 33 \<le> 2 ^ 64"
  shows "0 < n \<Longrightarrow> ticks d \<le> target + 2 ^ 32 \<Longrightarrow> target < ticks d + n \<Longrightarrow>
    \<exists>d'. sleep_until n k p (of_nat target) d = Ret d' \<and> target < ticks d' \<and> ticks d' \<le> (if ticks d \<le> target then target + 2 ^ 33 else ticks d + 2 ^ 32)"
proof (induction n arbitrary: d)
  case (Suc n)
  obtain t d1 where r: "gt_read k p d = Ret (of_nat t, d1)" "ticks d < t" "t < ticks d1" "ticks d1 \<le> ticks d + 2 ^ 32"
    using gt_read_counter [OF assms(1,2)] by blast
  have "t < 2 ^ 64" "target < 2 ^ 64" using r Suc.prems(2) assms(3) by simp_all
  then have less: "(of_nat t :: u64) < of_nat target \<longleftrightarrow> t < target" by (simp add: word_less_nat_alt unat_of_nat)
  show ?case
  proof (cases "t < target")
    case True
    have p: "0 < n" "ticks d1 \<le> target + 2 ^ 32" "target < ticks d1 + n" using Suc.prems(3) r True by simp_all
    obtain d' where "sleep_until n k p (of_nat target) d1 = Ret d'" "target < ticks d'"
      "ticks d' \<le> (if ticks d1 \<le> target then target + 2 ^ 33 else ticks d1 + 2 ^ 32)"
      using Suc.IH [OF p] by blast
    then show ?thesis using r True less by (simp add: timer_read_def split: if_splits)
  next
    case False
    then show ?thesis using r less by (simp add: timer_read_def)
  qed
qed simp

lemma delay_time:
  assumes "global_timer p ticks" "2 \<le> k" "ticks d + w + 2 ^ 34 \<le> 2 ^ 64" "w < n"
  shows "\<exists>d'. obind (timer_read k p d) (\<lambda>(time, d). sleep_until n k p (time + of_nat w) d) = Ret d' \<and>
    ticks d + w < ticks d' \<and> ticks d' \<le> ticks d + w + 3 * 2 ^ 32"
proof -
  obtain t d1 where r: "gt_read k p d = Ret (of_nat t, d1)" "ticks d < t" "t < ticks d1" "ticks d1 \<le> ticks d + 2 ^ 32"
    using gt_read_counter [OF assms(1,2)] by blast
  have "t + w + 2 ^ 33 \<le> 2 ^ 64" using r assms(3) by simp
  from sleep_until_time [OF assms(1,2) this, of n d1] obtain d' where
    "sleep_until n k p (of_nat (t + w)) d1 = Ret d'" "t + w < ticks d'"
    "ticks d' \<le> (if ticks d1 \<le> t + w then t + w + 2 ^ 33 else ticks d1 + 2 ^ 32)"
    using r assms(4) by auto
  then show ?thesis using r by (simp add: timer_read_def split: if_splits)
qed

text \<open>
  C38: On a timer whose accesses take between one tick and a second, reading the counter ends with
  two rounds, also when the lower half overflows between its accesses, and gives the counter at a
  moment of the call. The delays of the firmware last as many ticks as asked for and end less than
  three more readings later, as long as the counter does not pass \<open>2 ^ 64\<close> on the way.
\<close>

theorem firmware_delays:
  assumes "global_timer p ticks" "2 \<le> k"
  shows "(\<exists>t d'. timer_read k p d = Ret (of_nat t, d') \<and> ticks d < t \<and> t < ticks d') \<and>
    (ticks d + 400000000 * unat s + 2 ^ 34 \<le> 2 ^ 64 \<and> 400000000 * unat s < n \<longrightarrow>
      (\<exists>d'. sleep n k p s d = Ret d' \<and> ticks d + 400000000 * unat s < ticks d' \<and> ticks d' \<le> ticks d + 400000000 * unat s + 3 * 2 ^ 32)) \<and>
    (ticks d + 400 * unat s + 2 ^ 34 \<le> 2 ^ 64 \<and> 400 * unat s < n \<longrightarrow>
      (\<exists>d'. usleep n k p s d = Ret d' \<and> ticks d + 400 * unat s < ticks d' \<and> ticks d' \<le> ticks d + 400 * unat s + 3 * 2 ^ 32))"
proof (intro conjI impI)
  show "\<exists>t d'. timer_read k p d = Ret (of_nat t, d') \<and> ticks d < t \<and> t < ticks d'"
    unfolding timer_read_def using gt_read_counter [OF assms, of d] by blast
  have w: "gt_get_tps * ucast s = of_nat (400000000 * unat s)" "gt_get_tpus * ucast s = of_nat (400 * unat s)"
    by (simp_all add: gt_get_tps_def gt_get_tpus_def GT_TPS_def GT_TPUS_def)
  show "\<exists>d'. sleep n k p s d = Ret d' \<and> ticks d + 400000000 * unat s < ticks d' \<and> ticks d' \<le> ticks d + 400000000 * unat s + 3 * 2 ^ 32"
    if "ticks d + 400000000 * unat s + 2 ^ 34 \<le> 2 ^ 64 \<and> 400000000 * unat s < n"
    using delay_time [OF assms conjunct1 [OF that] conjunct2 [OF that]] unfolding sleep_def w .
  show "\<exists>d'. usleep n k p s d = Ret d' \<and> ticks d + 400 * unat s < ticks d' \<and> ticks d' \<le> ticks d + 400 * unat s + 3 * 2 ^ 32"
    if "ticks d + 400 * unat s + 2 ^ 34 \<le> 2 ^ 64 \<and> 400 * unat s < n"
    using delay_time [OF assms conjunct1 [OF that] conjunct2 [OF that]] unfolding usleep_def w .
qed

text \<open>A timer that advances by 100 ticks with every access.\<close>

definition sim_timer :: "nat plat" where
  "sim_timer = \<lparr>iomap = flat_iomap, port_insns = False,
     hw_load = (\<lambda>w a t. (if a = 0xF8F00204 then of_nat ((t + 100) div 2 ^ 32) else of_nat (t + 100), t + 100)),
     hw_store = (\<lambda>w a v t. t), hw_in = (\<lambda>w a t. (0, t)), hw_out = (\<lambda>w a v t. t)\<rparr>"

theorem firmware_delays_witness:
  "\<exists>d'. sleep 400000001 2 sim_timer 1 0xFFFFFFF0 = Ret d' \<and> 0xFFFFFFF0 + 400000000 < d' \<and> d' \<le> 0xFFFFFFF0 + 400000000 + 3 * 2 ^ 32"
proof -
  have "global_timer sim_timer id"
    by (simp add: global_timer_def gt_moves_def sim_timer_def io_read_def flat_iomap_def GT_BASE_def GT_PHYSBASE_def MPCORE_PHYSBASE_def
        GT_COUNTER_HI_OFFSET_def GT_COUNTER_LO_OFFSET_def)
  from firmware_delays [OF this, of 2 "0xFFFFFFF0" 1 400000001] show ?thesis by simp
qed

end
