(* ===== verification/Firmware.thy ===== *)
theory Firmware
  imports Serial Sd Timer
begin

text \<open>
  The firmware over its drivers: \<open>readdisk\<close> and \<open>main\<close> of \<open>firmware/arch/mips/mach-msim/main.c\<close> over
  the disk of MSIM, and those of \<open>firmware/arch/armv7a/fwmain.c\<close> over the SD card. Both services
  refine \<open>readdisk\<close> of theory \<open>Boot\<close>, which the boot loaders call. Local buffers are at addresses that
  are arguments.
\<close>

section \<open>The disk service\<close>

text \<open>
  The loop of both services. \<open>fwpanic\<close> prints a message and never returns.
\<close>

fun fw_readdisk_loop :: "(u32 \<Rightarrow> 's dma \<Rightarrow> (int \<times> 's dma) outcome) \<Rightarrow> (int \<Rightarrow> bool) \<Rightarrow> (u32 \<Rightarrow> u32 \<Rightarrow> u32 \<Rightarrow> bytes \<Rightarrow> bytes) \<Rightarrow>
    u32 \<Rightarrow> nat \<Rightarrow> u32 \<Rightarrow> u32 \<Rightarrow> u32 \<Rightarrow> u32 \<Rightarrow> 's dma \<Rightarrow> 's dma outcome" where
  "fw_readdisk_loop rd failed copy sector_buf 0 sector offset buf len d = Hang"
| "fw_readdisk_loop rd failed copy sector_buf (Suc n) sector offset buf len d =
     (if 0 < len then
        let l = min len (SECTOR_SIZE - offset)
        in obind (rd sector d) (\<lambda>(ret, d).
             if failed ret then Hang
             else fw_readdisk_loop rd failed copy sector_buf n (sector + 1) 0 (buf + l) (len - l)
                    (fst d, copy buf (sector_buf + offset) l (snd d)))
      else Ret d)"

definition fw_readdisk :: "(u32 \<Rightarrow> 's dma \<Rightarrow> (int \<times> 's dma) outcome) \<Rightarrow> (int \<Rightarrow> bool) \<Rightarrow> (u32 \<Rightarrow> u32 \<Rightarrow> u32 \<Rightarrow> bytes \<Rightarrow> bytes) \<Rightarrow>
    u32 \<Rightarrow> u32 \<Rightarrow> u32 \<Rightarrow> u32 \<Rightarrow> u32 \<Rightarrow> 's dma \<Rightarrow> 's dma outcome" where
  "fw_readdisk rd failed copy sector_buf sector offset buf len d =
     fw_readdisk_loop rd failed copy sector_buf (Suc (unat len)) (sector + offset div SECTOR_SIZE) (offset mod SECTOR_SIZE) buf len d"

text \<open>\<open>pa\<close> is \<open>MSIM_DISK_PHYSADDR\<close>, which is set when the firmware is configured, and \<open>dd\<close> the address of the driver's buffer.\<close>

definition mips_readdisk :: "nat \<Rightarrow> 's dma plat \<Rightarrow> u32 \<Rightarrow> addr_t \<Rightarrow> u32 \<Rightarrow> u32 \<Rightarrow> u32 \<Rightarrow> u32 \<Rightarrow> u32 \<Rightarrow> 's dma \<Rightarrow> 's dma outcome" where
  "mips_readdisk n p dd pa sector_buf =
     fw_readdisk (\<lambda>sector. msim_dd_read_sector n p dd pa sector sector_buf True) (\<lambda>ret. ret < 0)
       (\<lambda>dst src l. copy_bytes (unat l) dst src) sector_buf"

definition arm_readdisk :: "nat \<Rightarrow> 's dma plat \<Rightarrow> u32 \<Rightarrow> u32 \<Rightarrow> u32 \<Rightarrow> u32 \<Rightarrow> u32 \<Rightarrow> 's dma \<Rightarrow> 's dma outcome" where
  "arm_readdisk n p sector_buf =
     fw_readdisk (\<lambda>sector. sd_read n p sector_buf 1 sector) (\<lambda>ret. ret \<noteq> 0) memcpy sector_buf"

section \<open>The main routines\<close>

text \<open>
  \<open>main\<close> of the MIPS firmware, up to the jump to the record at \<open>mbr\<close>; \<open>statics\<close> are the structures of the
  line and the keyboard.
\<close>

definition fw_mips_main :: "nat \<Rightarrow> 's dma plat \<Rightarrow> u32 \<Rightarrow> addr_t \<Rightarrow> chr_device \<times> chr_device \<Rightarrow> bool \<Rightarrow> u32 \<Rightarrow> 's dma \<Rightarrow> 's dma outcome" where
  "fw_mips_main n p dd pa statics need_cr mbr d =
     (let bs = io_mem_init_raw early_memory_bus initial_buses;
          statics = msim_raw_init statics
      in obind (uart_puts need_cr (msim_putchar p bs (fst statics)) (''FW: Hello world!'' @ [CHR 0x0D, CHR 0x0A]) d) (\<lambda>(_, d).
         let d = msim_dd_init p dd pa d
         in obind (msim_dd_read_sector n p dd pa 0 mbr True d) (\<lambda>(ret, d). if ret = 0 then Ret d else Hang)))"

text \<open>\<open>fw_main\<close> of the ARM firmware, up to the jump. \<open>n\<close> bounds every loop; \<open>junk\<close> is what local variables hold at first.\<close>

definition fw_puts :: "nat \<Rightarrow> 's dma plat \<Rightarrow> buses \<Rightarrow> u64 \<Rightarrow> bool \<Rightarrow> chr_device \<Rightarrow> string \<Rightarrow> 's dma \<Rightarrow> (int \<times> 's dma) outcome" where
  "fw_puts n p bs junk need_cr inst s d = uart_puts need_cr (zynq_raw_putchar n p bs junk inst) (s @ [CHR 0x0A]) d"

definition fw_check_mbr :: "(string \<Rightarrow> 's dma \<Rightarrow> (int \<times> 's dma) outcome) \<Rightarrow> 's dma \<Rightarrow> 's dma outcome" where
  "fw_check_mbr puts d =
     (if snd d (FW_MBR_ADDR + 510) = 0x55 \<and> snd d (FW_MBR_ADDR + 511) = 0xAA
      then obind (puts ''FW: MBR valid.'' d) (\<lambda>(_, d). Ret d)
      else obind (puts ''FW: MBR not valid.'' d) (\<lambda>_. Hang))"

definition fw_read_mbr :: "nat \<Rightarrow> 's dma plat \<Rightarrow> (string \<Rightarrow> 's dma \<Rightarrow> (int \<times> 's dma) outcome) \<Rightarrow> 's dma \<Rightarrow> 's dma outcome" where
  "fw_read_mbr n p puts d =
     obind (sd_read n p FW_MBR_ADDR 1 0 d) (\<lambda>(ret, d).
       if ret = 0 then obind (puts ''FW: Card read OK.'' d) (\<lambda>(_, d). fw_check_mbr puts d)
       else obind (puts ''FW: Card read failed.'' d) (\<lambda>_. Hang))"

definition fw_init_card :: "nat \<Rightarrow> 's dma plat \<Rightarrow> (string \<Rightarrow> 's dma \<Rightarrow> (int \<times> 's dma) outcome) \<Rightarrow> 's dma \<Rightarrow> 's dma outcome" where
  "fw_init_card n p puts d =
     obind (sd_init n p d) (\<lambda>d.
     obind (puts ''FW: SD Controller initialized.'' d) (\<lambda>(_, d).
     obind (sd_init_card n n p (usleep n n p 2000) d) (\<lambda>(ret, d).
       if ret = 0 then obind (puts ''FW: SD Card initialized.'' d) (\<lambda>(_, d). Ret d)
       else if ret = 1 then obind (puts ''FW: SDHC Card initialized.'' d) (\<lambda>(_, d). Ret d)
       else obind (puts ''FW: Card initialization failed.'' d) (\<lambda>_. Hang))))"

definition fw_arm_main :: "nat \<Rightarrow> 's dma plat \<Rightarrow> u64 \<Rightarrow> bool \<Rightarrow> 's dma \<Rightarrow> 's dma outcome" where
  "fw_arm_main n p junk need_cr d =
     (let bs = io_mem_init_raw early_memory_bus initial_buses
      in obind (sleep n n p 1 d) (\<lambda>d.
         obind (zynq_raw_init p bs zynq_raw_static d) (\<lambda>(inst, d).
         obind (zynq_enable p bs inst d) (\<lambda>d.
         obind (fw_puts n p bs junk need_cr inst ''FW: Hello!'' d) (\<lambda>(_, d).
         obind (fw_init_card n p (fw_puts n p bs junk need_cr inst) d) (\<lambda>d.
           fw_read_mbr n p (fw_puts n p bs junk need_cr inst) d))))))"

section \<open>The interfaces\<close>

text \<open>Copying between places that have no byte in common.\<close>

locale byte_copy =
  fixes copy :: "u32 \<Rightarrow> u32 \<Rightarrow> u32 \<Rightarrow> bytes \<Rightarrow> bytes"
  assumes copies: "apart (unat l) dst src \<Longrightarrow> copy dst src l mem = copied (unat l) dst src mem"

interpretation copy_loop: byte_copy "\<lambda>dst src l. copy_bytes (unat l) dst src"
proof
  fix l dst src :: u32 and mem
  show "apart (unat l) dst src \<Longrightarrow> copy_bytes (unat l) dst src mem = copied (unat l) dst src mem"
    using unat_bound [of l] by (intro copy_bytes_copied) simp_all
qed

interpretation copy_libc: byte_copy memcpy
  by unfold_locales (rule memcpy_copied)

text \<open>
  A driver that reads a sector into a buffer. It may also change memory at the addresses in
  \<open>scratch\<close>, for which the service has no other use.
\<close>

locale sector_reader = byte_copy copy
  for copy :: "u32 \<Rightarrow> u32 \<Rightarrow> u32 \<Rightarrow> bytes \<Rightarrow> bytes" +
  fixes rd :: "u32 \<Rightarrow> 's dma \<Rightarrow> (int \<times> 's dma) outcome" and failed :: "int \<Rightarrow> bool" and ready :: "'s \<Rightarrow> bool"
    and disk :: "nat \<Rightarrow> u8" and sectors :: nat and sector_buf :: u32 and scratch :: "u32 set"
  assumes reads: "ready (fst d) \<Longrightarrow> unat sector < sectors \<Longrightarrow>
      \<exists>d'. rd sector d = Ret (0, d') \<and> ready (fst d') \<and> (\<forall>i<512. snd d' (sector_buf + of_nat i) = disk (unat sector * 512 + i)) \<and>
        (\<forall>a. a \<notin> scratch \<longrightarrow> snd d' a = snd d a)"
    and works: "\<not> failed 0"
    and buffer: "i < 512 \<Longrightarrow> sector_buf + of_nat i \<in> scratch"
begin

text \<open>The drive that the boot loaders see, and memory as they see it.\<close>

definition disk_drive :: drive where
  "disk_drive sector = (if unat sector < sectors then Some (map (\<lambda>i. disk (unat sector * 512 + i)) [0..<512]) else None)"

definition agree :: "bytes \<Rightarrow> bytes \<Rightarrow> bool" where
  "agree mem mem' \<longleftrightarrow> (\<forall>a. a \<notin> scratch \<longrightarrow> mem' a = mem a)"

lemma disk_drive_serves: "serves sectors disk disk_drive"
  by (simp add: serves_def disk_drive_def)

lemma copy_agrees:
  assumes "\<forall>i<512. m1 (sector_buf + of_nat i) = disk (from + i)" "agree mem m1" "unat offset + unat l \<le> 512"
    and "\<forall>i < unat l. buf + of_nat i \<notin> scratch"
  shows "agree (put_bytes buf (take (unat l) (drop (unat offset) (map (\<lambda>i. disk (from + i)) [0..<512]))) mem) (copy buf (sector_buf + offset) l m1)"
proof -
  let ?bs = "take (unat l) (drop (unat offset) (map (\<lambda>i. disk (from + i)) [0..<512]))"
  have off: "sector_buf + offset + of_nat j = sector_buf + of_nat (unat offset + j)" for j by simp
  have "apart (unat l) buf (sector_buf + offset)"
    unfolding apart_def
  proof (intro allI impI)
    fix i j assume "i < unat l" "j < unat l"
    then have "buf + of_nat i \<notin> scratch" "sector_buf + offset + of_nat j \<in> scratch"
      using assms(3,4) buffer [of "unat offset + j"] unfolding off by auto
    then show "buf + of_nat i \<noteq> sector_buf + offset + of_nat j" by metis
  qed
  then have c: "copy buf (sector_buf + offset) l m1 = copied (unat l) buf (sector_buf + offset) m1" by (rule copies)
  have len: "length ?bs = unat l" using assms(3) by simp
  then have len32: "length ?bs \<le> 2 ^ 32" using unat_bound [of l] by (simp del: length_take)
  have nth: "?bs ! i = m1 (sector_buf + offset + of_nat i)" if "i < unat l" for i
  proof -
    have "unat offset + i < 512" using that assms(3) by simp
    then have "m1 (sector_buf + of_nat (unat offset + i)) = disk (from + (unat offset + i))" using assms(1) by blast
    then show ?thesis unfolding off using that assms(3) by (simp del: of_nat_add)
  qed
  show ?thesis
    unfolding agree_def c copied_def
  proof (intro allI impI)
    fix a assume "a \<notin> scratch"
    moreover have "put_bytes buf ?bs mem a = (if unat (a - buf) < unat l then ?bs ! unat (a - buf) else mem a)"
      unfolding put_bytes_apply [OF len32] len ..
    moreover have "?bs ! unat (a - buf) = m1 (sector_buf + offset + (a - buf))" if "unat (a - buf) < unat l"
      using nth [OF that] by simp
    ultimately show "(if unat (a - buf) < unat l then m1 (sector_buf + offset + (a - buf)) else m1 a) = put_bytes buf ?bs mem a"
      using assms(2) by (simp only: agree_def) simp
  qed
qed

text \<open>The loop takes the steps of the abstract one.\<close>

lemma loop_refines:
  "readdisk_loop disk_drive n sector offset buf len mem = Ret mem' \<Longrightarrow> ready (fst d) \<Longrightarrow> agree mem (snd d) \<Longrightarrow>
    \<forall>i < unat len. buf + of_nat i \<notin> scratch \<Longrightarrow> unat offset < 512 \<Longrightarrow>
    \<exists>d'. fw_readdisk_loop rd failed copy sector_buf n sector offset buf len d = Ret d' \<and> ready (fst d') \<and> agree mem' (snd d')"
proof (induction n arbitrary: sector offset buf len mem d)
  case (Suc n)
  show ?case
  proof (cases "0 < len")
    case True
    define l where "l = min len (SECTOR_SIZE - offset)"
    have o: "unat (SECTOR_SIZE - offset) = 512 - unat offset"
      using Suc.prems(5) by (simp add: SECTOR_SIZE_def unat_sub word_le_nat_alt)
    have ul: "unat l = min (unat len) (512 - unat offset)" unfolding l_def min_def word_le_nat_alt o using o by simp
    then have rest: "unat (len - l) = unat len - unat l" by (simp add: unat_sub word_le_nat_alt)
    have sec: "unat sector < sectors" using Suc.prems(1) True by (auto simp: disk_drive_def Let_def split: if_splits)
    let ?sb = "map (\<lambda>i. disk (unat sector * 512 + i)) [0..<512]"
    let ?mem = "put_bytes buf (take (unat l) (drop (unat offset) ?sb)) mem"
    have drv: "disk_drive sector = Some ?sb" using sec by (simp add: disk_drive_def)
    have abs: "readdisk_loop disk_drive n (sector + 1) 0 (buf + l) (len - l) ?mem = Ret mem'"
      using Suc.prems(1) True by (simp add: drv l_def [symmetric])
    obtain d1 where d1: "rd sector d = Ret (0, d1)" "ready (fst d1)" "\<forall>i<512. snd d1 (sector_buf + of_nat i) = disk (unat sector * 512 + i)"
      "\<forall>a. a \<notin> scratch \<longrightarrow> snd d1 a = snd d a"
      using reads [OF Suc.prems(2) sec] by blast
    have "agree mem (snd d1)" using d1(4) Suc.prems(3) by (simp add: agree_def)
    then have ag: "agree ?mem (copy buf (sector_buf + offset) l (snd d1))"
      using copy_agrees [OF d1(3), of mem offset l buf] ul Suc.prems(4,5) by simp
    have clear: "\<forall>i < unat (len - l). buf + l + of_nat i \<notin> scratch"
    proof (intro allI impI)
      fix i assume "i < unat (len - l)"
      then have "unat l + i < unat len" using rest by simp
      then have "buf + of_nat (unat l + i) \<notin> scratch" using Suc.prems(4) by blast
      then show "buf + l + of_nat i \<notin> scratch" by (simp add: add.assoc)
    qed
    have "\<exists>d'. fw_readdisk_loop rd failed copy sector_buf n (sector + 1) 0 (buf + l) (len - l) (fst d1, copy buf (sector_buf + offset) l (snd d1)) =
        Ret d' \<and> ready (fst d') \<and> agree mem' (snd d')"
      using Suc.IH [OF abs _ _ clear, of "(fst d1, copy buf (sector_buf + offset) l (snd d1))"] d1(2) ag by simp
    then show ?thesis using True d1(1) works by (simp add: l_def [symmetric])
  next
    case False
    then show ?thesis using Suc.prems by simp
  qed
qed simp

lemma service_reads:
  assumes "ready (fst d)" "sectors < 2 ^ 32" "unat sector * 512 + unat offset + unat len \<le> sectors * 512"
    and "\<forall>i < unat len. buf + of_nat i \<notin> scratch"
  shows "\<exists>d'. fw_readdisk rd failed copy sector_buf sector offset buf len d = Ret d' \<and> ready (fst d') \<and>
    (\<forall>a. a \<notin> scratch \<longrightarrow> snd d' a = placed disk (unat sector * 512 + unat offset) buf (unat len) (snd d) a)"
proof -
  have "readdisk disk_drive sector offset buf len (snd d) = Ret (placed disk (unat sector * 512 + unat offset) buf (unat len) (snd d))"
    by (rule readdisk_placed [OF disk_drive_serves assms(2,3)])
  moreover have "unat (offset mod SECTOR_SIZE) < 512" by (simp add: SECTOR_SIZE_def unat_mod)
  moreover have "agree (snd d) (snd d)" by (simp add: agree_def)
  ultimately show ?thesis
    unfolding readdisk_def fw_readdisk_def using loop_refines [OF _ assms(1) _ assms(4)] by (fold agree_def) blast
qed

end

section \<open>The service over the disk of MSIM\<close>

definition msim_ready :: "nat \<Rightarrow> 's dma plat \<Rightarrow> u32 \<Rightarrow> addr_t \<Rightarrow> ('s \<Rightarrow> dd_view) \<Rightarrow> nat \<Rightarrow> u32 \<Rightarrow> bool" where
  "msim_ready n p dd pa view sectors sector_buf \<longleftrightarrow> ddisk p pa view sectors n \<and> in_kseg0 dd \<and> apart 512 sector_buf dd"

definition near :: "u32 \<Rightarrow> u32 set" where
  "near a = {b. unat (b - a) < 512}"

lemma near_offset: "i < 512 \<Longrightarrow> a + of_nat i \<in> near a"
  by (simp add: near_def unat_of_nat)

lemma placed_near: "b \<notin> near a \<Longrightarrow> placed disk from a 512 mem b = mem b"
  by (simp add: near_def placed_def)

lemma placed_in: "i < 512 \<Longrightarrow> placed disk from a 512 mem (a + of_nat i) = disk (from + i)"
  by (simp add: placed_def unat_of_nat)

interpretation msim_reader: sector_reader "\<lambda>dst src l. copy_bytes (unat l) dst src"
    "\<lambda>sector. msim_dd_read_sector n p dd pa sector sector_buf True" "\<lambda>ret. ret < 0"
    "\<lambda>s. msim_ready n p dd pa view sectors sector_buf \<and> dd_disk (view s) = disk" disk sectors sector_buf "near sector_buf \<union> near dd"
  for n p dd pa view sectors sector_buf disk
proof
  fix d :: "_ dma" and sector :: u32
  assume r: "msim_ready n p dd pa view sectors sector_buf \<and> dd_disk (view (fst d)) = disk" and "unat sector < sectors"
  then obtain d' where "msim_dd_read_sector n p dd pa sector sector_buf True d = Ret (0, d')"
    "snd d' = placed disk (unat sector * 512) sector_buf 512 (placed disk (unat sector * 512) dd 512 (snd d))" "dd_disk (view (fst d')) = disk"
    using dd_read_sector [of p pa view sectors n n dd sector_buf sector d] by (auto simp: msim_ready_def)
  then show "\<exists>d'. msim_dd_read_sector n p dd pa sector sector_buf True d = Ret (0, d') \<and>
      (msim_ready n p dd pa view sectors sector_buf \<and> dd_disk (view (fst d')) = disk) \<and>
      (\<forall>i<512. snd d' (sector_buf + of_nat i) = disk (unat sector * 512 + i)) \<and> (\<forall>a. a \<notin> near sector_buf \<union> near dd \<longrightarrow> snd d' a = snd d a)"
    using r by (auto simp: placed_in placed_near)
qed (simp_all add: near_offset)

text \<open>
  C35: Over a working disk of MSIM, \<open>readdisk\<close> of the firmware ends and puts exactly the bytes asked
  for at the buffer, across sectors and for every offset and length. Except for the buffer of the
  driver and the local buffer, the rest of memory is as before.
\<close>

theorem mips_readdisk_reads:
  assumes "ddisk p pa view sectors n" "in_kseg0 dd" "apart 512 sector_buf dd" "sectors < 2 ^ 32"
    and "unat sector * 512 + unat offset + unat len \<le> sectors * 512"
    and "\<forall>i < unat len. buf + of_nat i \<notin> near sector_buf \<union> near dd"
  shows "\<exists>d'. mips_readdisk n p dd pa sector_buf sector offset buf len d = Ret d' \<and> dd_disk (view (fst d')) = dd_disk (view (fst d)) \<and>
    (\<forall>a. a \<notin> near sector_buf \<union> near dd \<longrightarrow>
       snd d' a = (if unat (a - buf) < unat len then dd_disk (view (fst d)) (unat sector * 512 + unat offset + unat (a - buf)) else snd d a))"
  using msim_reader.service_reads [of n p dd pa view sectors sector_buf d "dd_disk (view (fst d))" sector offset len buf] assms
  by (auto simp: mips_readdisk_def msim_ready_def placed_def)

theorem mips_readdisk_reads_witness:
  "\<exists>d'. mips_readdisk 2 sim_dd 0x80100000 0x1000 0x80200000 1 500 0x80300000 20
        ((\<lparr>dd_dma = 0, dd_sector = 0, dd_cmd = 0, dd_intr = False, dd_err = False, dd_disk = of_nat\<rparr>, True), \<lambda>_. 0) = Ret d' \<and>
     snd d' 0x80300010 = 4"
proof -
  let ?d = "((\<lparr>dd_dma = 0, dd_sector = 0, dd_cmd = 0, dd_intr = False, dd_err = False, dd_disk = of_nat\<rparr>, True), \<lambda>_ :: u32. 0 :: u8)"
  have a: "apart 512 0x80200000 0x80100000" by (rule apart_ranges) simp_all
  have b: "(0x80300000 :: u32) + of_nat i \<notin> near 0x80200000 \<union> near 0x80100000" if "i < 20" for i
    using that by (simp add: near_def unat_sub_if' unat_word_ariths unat_of_nat)
  obtain d' where "mips_readdisk 2 sim_dd 0x80100000 0x1000 0x80200000 1 500 0x80300000 20 ?d = Ret d'"
    "\<forall>a. a \<notin> near 0x80200000 \<union> near 0x80100000 \<longrightarrow>
       snd d' a = (if unat (a - 0x80300000) < unat (20 :: u32) then of_nat (unat (1 :: u32) * 512 + unat (500 :: u32) + unat (a - 0x80300000)) else 0)"
    using mips_readdisk_reads [OF sim_ddisk, of "0x80100000" "0x80200000" 1 500 20 "0x80300000" ?d] a b
    by (auto simp: in_kseg0_def KSEG0_def KSEG1_def)
  moreover have "(0x80300010 :: u32) \<notin> near 0x80200000 \<union> near 0x80100000" by (simp add: near_def)
  ultimately show ?thesis by auto
qed

section \<open>The service over an SD card\<close>

text \<open>
  The service passes the number of the sector. A card of high capacity counts in blocks of 512 bytes;
  an older one takes the number for the number of a byte.
\<close>

definition sd_place :: "bool \<Rightarrow> nat \<Rightarrow> nat" where
  "sd_place hc i = (if hc then i else i div 512 + i mod 512)"

definition sd_ready :: "nat \<Rightarrow> 's dma plat \<Rightarrow> ('s \<Rightarrow> sd_view) \<Rightarrow> bool \<Rightarrow> nat \<Rightarrow> u32 \<Rightarrow> bool" where
  "sd_ready n p view hc sectors sector_buf \<longleftrightarrow>
     (\<exists>cap. sdhost p view cap n \<and> (if hc then sectors * 512 else sectors + 511) \<le> cap) \<and> unat sector_buf mod 4096 + 512 \<le> 4096"

definition card_in :: "sd_view \<Rightarrow> bool" where
  "card_in v \<longleftrightarrow> sv_phase v = SdIdle \<and> sv_card v"

lemma sd_read_sector:
  assumes "sd_ready n p view (sv_hc (view (fst d))) sectors sector_buf" "card_in (view (fst d))" "unat sector < sectors"
  shows "\<exists>d'. sd_read n p sector_buf 1 sector d = Ret (0, d') \<and>
    snd d' = placed (\<lambda>i. sv_disk (view (fst d)) (sd_place (sv_hc (view (fst d))) i)) (unat sector * 512) sector_buf 512 (snd d) \<and>
    card_in (view (fst d')) \<and> sv_hc (view (fst d')) = sv_hc (view (fst d)) \<and> sv_disk (view (fst d')) = sv_disk (view (fst d))"
proof -
  let ?hc = "sv_hc (view (fst d))" and ?disk = "sv_disk (view (fst d))"
  obtain cap where c: "sdhost p view cap n" "(if ?hc then sectors * 512 else sectors + 511) \<le> cap" using assms(1) by (auto simp: sd_ready_def)
  have "(if ?hc then unat sector * 512 else unat sector) + unat (1 :: u16) * 512 \<le> cap" using c(2) assms(3) by (simp split: if_splits)
  moreover have "unat sector_buf mod 4096 + unat (1 :: u16) * 512 \<le> 4096" using assms(1) by (simp add: sd_ready_def)
  ultimately obtain d' where d': "sd_read n p sector_buf 1 sector d = Ret (0, d')"
    "snd d' = placed ?disk (if ?hc then unat sector * 512 else unat sector) sector_buf 512 (snd d)"
    "card_in (view (fst d'))" "sv_hc (view (fst d')) = ?hc" "sv_disk (view (fst d')) = ?disk"
    using sd_read_card [OF c(1) order_refl, of d sector 1 sector_buf] assms(2) by (auto simp: card_in_def)
  have "placed ?disk (if ?hc then unat sector * 512 else unat sector) sector_buf 512 (snd d) =
      placed (\<lambda>i. ?disk (sd_place ?hc i)) (unat sector * 512) sector_buf 512 (snd d)"
    by (rule ext) (simp add: placed_def sd_place_def)
  then show ?thesis using d' by auto
qed

interpretation sd_reader: sector_reader memcpy "\<lambda>sector. sd_read n p sector_buf 1 sector" "\<lambda>ret. ret \<noteq> 0"
    "\<lambda>s. sd_ready n p view hc sectors sector_buf \<and> card_in (view s) \<and> sv_hc (view s) = hc \<and> sv_disk (view s) = disk"
    "\<lambda>i. disk (sd_place hc i)" sectors sector_buf "near sector_buf"
  for n p view hc sectors sector_buf disk
proof
  fix d :: "_ dma" and sector :: u32
  assume "sd_ready n p view hc sectors sector_buf \<and> card_in (view (fst d)) \<and> sv_hc (view (fst d)) = hc \<and> sv_disk (view (fst d)) = disk"
    and "unat sector < sectors"
  then show "\<exists>d'. sd_read n p sector_buf 1 sector d = Ret (0, d') \<and>
      (sd_ready n p view hc sectors sector_buf \<and> card_in (view (fst d')) \<and> sv_hc (view (fst d')) = hc \<and> sv_disk (view (fst d')) = disk) \<and>
      (\<forall>i<512. snd d' (sector_buf + of_nat i) = disk (sd_place hc (unat sector * 512 + i))) \<and> (\<forall>a. a \<notin> near sector_buf \<longrightarrow> snd d' a = snd d a)"
    using sd_read_sector [of n p view d sectors sector_buf sector] by (auto simp: placed_in placed_near)
qed (simp_all add: near_offset)

text \<open>
  C36: Over a working controller with a card that has the sectors asked for, and provided that
  \<open>sector_buf\<close> on the stack does not cross a 4096-byte boundary and that the destination is apart from
  it, \<open>readdisk\<close> of the ARM firmware ends, and on a card of high capacity puts exactly the bytes
  asked for at the buffer. On an older card, which counts in bytes, the bytes of sector \<open>s\<close> are
  those that start at byte \<open>s\<close> of the card. The code does not ensure the condition on \<open>sector_buf\<close>; where
  it fails the controller pauses at the boundary and nothing restarts it.
\<close>

theorem arm_readdisk_reads:
  assumes "sdhost p view cap n" "unat sector_buf mod 4096 + 512 \<le> 4096" "v = view (fst d)" "sv_phase v = SdIdle" "sv_card v"
    and "sectors < 2 ^ 32" "(if sv_hc v then sectors * 512 else sectors + 511) \<le> cap"
    and "unat sector * 512 + unat offset + unat len \<le> sectors * 512" "\<forall>i < unat len. buf + of_nat i \<notin> near sector_buf"
  shows "\<exists>d'. arm_readdisk n p sector_buf sector offset buf len d = Ret d' \<and> sv_disk (view (fst d')) = sv_disk v \<and>
    (\<forall>a. a \<notin> near sector_buf \<longrightarrow>
       snd d' a = (if unat (a - buf) < unat len
         then let i = unat sector * 512 + unat offset + unat (a - buf) in sv_disk v (if sv_hc v then i else i div 512 + i mod 512)
         else snd d a))"
proof -
  have "sd_ready n p view (sv_hc v) sectors sector_buf" using assms(1,2,7) unfolding sd_ready_def by blast
  then show ?thesis
    using sd_reader.service_reads [of n p view "sv_hc v" sectors sector_buf d "sv_disk v" sector offset len buf] assms(3-6,8,9)
    by (auto simp: arm_readdisk_def card_in_def placed_def Let_def sd_place_def)
qed

text \<open>A controller that takes a step whenever its status is read.\<close>

definition sim_step :: "sd_view dma \<Rightarrow> sd_view dma" where
  "sim_step d =
     (let v = fst d
      in case sv_phase v of
           SdCommand \<Rightarrow> (v\<lparr>sv_phase := (if sv_cmd v AND SD_DAT_PRESENT \<noteq> 0 then SdTransfer else SdIdle), sv_cc := True\<rparr>, snd d)
         | SdTransfer \<Rightarrow> (v\<lparr>sv_phase := SdIdle, sv_tc := True\<rparr>,
             if sd_reading v then placed (sv_disk v) (sd_from v) (sv_addr v) (sd_bytes v) (snd d) else snd d)
         | SdIdle \<Rightarrow> d)"

definition sim_sd :: "sd_view dma plat" where
  "sim_sd = \<lparr>iomap = flat_iomap, port_insns = False,
     hw_load = (\<lambda>w a d.
       if a = 0xE0100030 then (let d' = sim_step d in (of_bool (sv_cc (fst d')) OR push_bit 1 (of_bool (sv_tc (fst d'))), d'))
       else (push_bit 16 (of_bool (sv_card (fst d))), d)),
     hw_store = (\<lambda>w a x d. (sd_effect (a - SD_BASE) x (fst d), snd d)),
     hw_in = (\<lambda>w a d. (0, d)), hw_out = (\<lambda>w a v d. d)\<rparr>"

lemma sim_step_runs: "sd_run (fst d) (snd d) (fst (sim_step d)) (snd (sim_step d))"
proof (cases "sv_phase (fst d)")
  case SdTransfer
  show ?thesis
  proof (cases "sd_reading (fst d)")
    case True
    then show ?thesis using SdTransfer sd_run.finish_read [OF sd_run.same] by (simp add: sim_step_def Let_def)
  next
    case False
    then show ?thesis using SdTransfer sd_run.finish_write [OF sd_run.same, of "fst d" _ "sv_disk (fst d)"] by (simp add: sim_step_def Let_def)
  qed
qed (use sd_run.same sd_run.accept [OF sd_run.same] in \<open>simp_all add: sim_step_def Let_def\<close>)

lemma sim_sd_reads:
  "sd_rd sim_sd W16 SD_NORM_INTR_STS_OFFSET d = (of_bool (sv_cc (fst (sim_step d))) OR push_bit 1 (of_bool (sv_tc (fst (sim_step d)))), sim_step d)"
  "sd_rd sim_sd W32 SD_PRES_STATE_OFFSET d = (push_bit 16 (of_bool (sv_card (fst d))), d)"
  by (simp_all add: sd_rd_def io_read_def sim_sd_def flat_iomap_def SD_BASE_def SD0_PHYSBASE_def SD_NORM_INTR_STS_OFFSET_def SD_PRES_STATE_OFFSET_def Let_def)

lemma sim_sdhost: "sdhost sim_sd id cap 1"
proof -
  have wr: "sd_wr sim_sd w off x d = (sd_effect off (take_bit (bits w) x) (fst d), snd d)" if "(w, off) \<in> sd_written" for w off x d
    using that by (auto simp: sd_wr_def io_write_def sim_sd_def flat_iomap_def SD_BASE_def SD0_PHYSBASE_def sd_written_def sd_offsets)
  have "sd_access id d (\<lambda>v. v) (sim_step d)" for d
    unfolding sd_access_def seen_def using sim_step_runs [of d]
    by (intro exI [of _ "fst (sim_step d)"] exI [of _ "snd (sim_step d)"]) simp
  moreover have "sd_access id d f (f (fst d), snd d)" for d f
    using sd_run.same unfolding sd_access_def seen_def by auto
  moreover have "sv_cc (fst (sim_step d))" if "sv_phase (fst d) = SdCommand" for d using that by (simp add: sim_step_def Let_def)
  moreover have "sv_tc (fst (sim_step d))" if "sv_phase (fst d) = SdTransfer \<or> sv_tc (fst d)" for d
    using that by (auto simp: sim_step_def Let_def split: sd_phase.splits)
  ultimately show ?thesis
    unfolding sdhost_def sim_sd_reads
    by (auto simp: wr sim_sd_reads SD_INTR_ERR_def SD_INTR_CC_def SD_INTR_TC_def SD_PSR_CARD_INSRT_def SD_PSR_INHIBIT_CMD_def SD_PSR_INHIBIT_DAT_def)
qed

definition sim_card :: "bool \<Rightarrow> sd_view" where
  "sim_card hc = \<lparr>sv_addr = 0, sv_cnt = 0, sv_arg = 0, sv_mode = 0, sv_cmd = 0, sv_phase = SdIdle, sv_cc = False, sv_tc = False,
     sv_card = True, sv_hc = hc, sv_disk = (\<lambda>i. of_nat (i div 512))\<rparr>"

theorem arm_readdisk_reads_witness:
  "\<exists>d' d''. arm_readdisk 1 sim_sd 0x8000 3 500 0x9000 20 (sim_card True, \<lambda>_. 0) = Ret d' \<and> snd d' 0x9010 = 4 \<and>
     arm_readdisk 1 sim_sd 0x8000 3 500 0x9000 20 (sim_card False, \<lambda>_. 0) = Ret d'' \<and> snd d'' 0x9010 = 0"
proof -
  have b: "\<forall>i < unat (20 :: u32). (0x9000 :: u32) + of_nat i \<notin> near 0x8000"
    by (simp add: near_def unat_sub_if' unat_word_ariths unat_of_nat)
  have "\<exists>d'. arm_readdisk 1 sim_sd 0x8000 3 500 0x9000 20 (sim_card hc, \<lambda>_. 0) = Ret d' \<and> snd d' 0x9010 = (if hc then 4 else 0)" for hc
    using arm_readdisk_reads [OF sim_sdhost _ refl, where sector_buf = "0x8000" and d = "(sim_card hc, \<lambda>_. 0)" and sectors = 100 and cap = 51200 and
        sector = 3 and offset = 500 and len = 20 and buf = "0x9000"] b
    by (auto simp: sim_card_def near_def Let_def)
  from this [of True] this [of False] show ?thesis by auto
qed

section \<open>What the main routines do\<close>

text \<open>Printing leaves the disk and memory alone when the line has nothing to do with them.\<close>

lemma uart_puts_keeps:
  assumes "\<And>c d. \<exists>d'. putc c d = Ret (0, d') \<and> f d' = f d"
  shows "\<exists>d'. uart_puts need_cr putc s d = Ret (0, d') \<and> f d' = f d"
proof (induction s arbitrary: d)
  case (Cons c s)
  obtain d1 where 1: "(if need_cr \<and> c = CHR 0x0A then putc 0x0D d else Ret (0, d)) = Ret (0, d1)" "f d1 = f d"
    using assms [of "0x0D" d] by (cases "need_cr \<and> c = CHR 0x0A") auto
  obtain d2 where 2: "putc (of_char c) d1 = Ret (0, d2)" "f d2 = f d1" using assms [of "of_char c" d1] by blast
  show ?case using Cons.IH [of d2] 1(2) 2 by (simp only: uart_puts.simps 1(1) obind.simps prod.case)
qed simp

lemma msim_raw_putchar:
  "msim_putchar p (io_mem_init_raw early_memory_bus bs) (fst (msim_raw_init statics)) c d =
     Ret (0, io_write p W8 (cd_base (fst statics)) (ucast c) d)"
  by (simp add: msim_putchar_def msim_raw_init_def io_mem_init_raw_def mem_bus_up_def [symmetric] mem_bus.reg_access)

lemma uart_puts_result:
  assumes "\<And>c d r d'. putc c d = Ret (r, d') \<Longrightarrow> f d' = f d"
  shows "uart_puts need_cr putc s d = Ret (r, d') \<Longrightarrow> f d' = f d"
  by (induction s arbitrary: d) (auto simp: obind_Ret_conv split: if_splits dest!: assms)

lemma poll_result:
  assumes "\<And>d. f (snd (rd d)) = f d"
  shows "poll n (\<lambda>_ d. Ret (rd d)) busy x d = Ret (v, d') \<Longrightarrow> f d' = f d"
proof (induction n arbitrary: x d)
  case (Suc n)
  then show ?case using assms [of d] by (cases "rd d") (auto split: if_splits)
qed simp

lemma zynq_raw_putchar_keeps:
  assumes "\<And>d. f (snd (io_read p W32 (cd_base inst + UART_OFFSET_SR) d)) = f d" "\<And>c d. f (io_write p W8 (cd_base inst + UART_OFFSET_FIFO) c d) = f d"
    and "cd_bus inst = early_memory_bus" and "zynq_raw_putchar n p (io_mem_init_raw early_memory_bus bs) junk inst c d = Ret (r, d')"
  shows "f d' = f d"
proof -
  obtain v d1 where "poll n (\<lambda>_ d. Ret (io_read p W32 (cd_base inst + UART_OFFSET_SR) d)) (\<lambda>tmp. tmp AND UART_SR_TXFULL \<noteq> 0) junk d = Ret (v, d1)"
    "d' = io_write p W8 (cd_base inst + UART_OFFSET_FIFO) (ucast c) d1"
    using assms(3,4) by (auto simp: zynq_raw_putchar_def zynq_putchar_def io_mem_init_raw_def mem_bus_up_def [symmetric] mem_bus.reg_access obind_Ret_conv)
  then show ?thesis using poll_result [of f "io_read p W32 (cd_base inst + UART_OFFSET_SR)"] assms(1,2) by auto
qed

lemma zynq_raw_init_result:
  "zynq_raw_init p bs inst d = Ret (inst', d') \<Longrightarrow> cd_bus inst' = early_memory_bus \<and> cd_base inst' = cd_base inst"
  by (auto simp: zynq_raw_init_def Let_def obind_Ret_conv)

lemma fw_read_mbr_checks:
  assumes "\<And>s d r d'. puts s d = Ret (r, d') \<Longrightarrow> f d' = f d" and f: "f = (\<lambda>d. (snd d (FW_MBR_ADDR + 510), snd d (FW_MBR_ADDR + 511)))"
    and "fw_read_mbr n p puts d = Ret d'"
  shows "f d' = (0x55, 0xAA)"
proof -
  obtain d1 where "fw_check_mbr puts d1 = Ret d'"
    using assms(3) unfolding fw_read_mbr_def by (auto simp: obind_Ret_conv split: if_splits)
  then obtain r where "f d1 = (0x55, 0xAA)" "puts ''FW: MBR valid.'' d1 = Ret (r, d')"
    unfolding fw_check_mbr_def f by (auto simp: obind_Ret_conv split: if_splits)
  then show ?thesis using assms(1) by metis
qed

lemma fw_arm_main_checks:
  assumes "\<And>d. f (snd (io_read p W32 UART_OFFSET_SR d)) = f d" "\<And>c d. f (io_write p W8 UART_OFFSET_FIFO c d) = f d"
    and f: "f = (\<lambda>d. (snd d (FW_MBR_ADDR + 510), snd d (FW_MBR_ADDR + 511)))" and "fw_arm_main n p junk need_cr d = Ret d'"
  shows "f d' = (0x55, 0xAA)"
proof -
  let ?bs = "io_mem_init_raw early_memory_bus initial_buses"
  obtain inst d1 d2 d3 where i: "zynq_raw_init p ?bs zynq_raw_static d1 = Ret (inst, d2)"
    and r: "fw_read_mbr n p (fw_puts n p ?bs junk need_cr inst) d3 = Ret d'"
    using assms(4) unfolding fw_arm_main_def Let_def by (auto simp: obind_Ret_conv)
  have k: "f d'' = f d" if "zynq_raw_putchar n p ?bs junk inst c d = Ret (r, d'')" for c d r d''
    using zynq_raw_putchar_keeps [of f p inst n initial_buses junk c d r d''] zynq_raw_init_result [OF i] assms(1,2) that
    by (simp add: zynq_raw_static_def)
  have "f d'' = f d" if "fw_puts n p ?bs junk need_cr inst s d = Ret (r, d'')" for s d r d''
    by (rule uart_puts_result [of "zynq_raw_putchar n p ?bs junk inst" f]) (fact k, fact that [unfolded fw_puts_def])
  from fw_read_mbr_checks [OF this f r] show ?thesis .
qed

text \<open>
  C40: With a working disk and a line apart from it, the MIPS firmware comes to the jump, and the
  first sector of the disk is then at the address it jumps to. The ARM firmware comes to its jump
  only with a record whose signature is right, when its line leaves the record alone; the line is
  used at address 0.
\<close>

theorem firmware_jumps:
  assumes "ddisk p pa view sectors n" "in_kseg0 dd" "apart 512 mbr dd" "0 < sectors"
    and "\<forall>d c. seen view (io_write p W8 (cd_base (fst statics)) c d) = seen view d"
    and "f = (\<lambda>d. (snd d (FW_MBR_ADDR + 510), snd d (FW_MBR_ADDR + 511)))"
    and "\<forall>d. f (snd (io_read p' W32 UART_OFFSET_SR d)) = f d" "\<forall>d c. f (io_write p' W8 UART_OFFSET_FIFO c d) = f d"
  shows "(\<exists>d'. fw_mips_main n p dd pa statics need_cr mbr d = Ret d' \<and> (\<forall>i<512. snd d' (mbr + of_nat i) = dd_disk (view (fst d)) i)) \<and>
    (\<forall>d'. fw_arm_main n' p' junk need_cr d0 = Ret d' \<longrightarrow> f d' = (0x55, 0xAA))"
proof (intro conjI allI impI)
  let ?bs = "io_mem_init_raw early_memory_bus initial_buses"
  have put: "\<exists>d'. msim_putchar p ?bs (fst (msim_raw_init statics)) c d = Ret (0, d') \<and> seen view d' = seen view d" for c d
    unfolding msim_raw_putchar using assms(5) by (intro exI conjI) (rule refl, blast)
  obtain d1 where d1: "uart_puts need_cr (msim_putchar p ?bs (fst (msim_raw_init statics))) (''FW: Hello world!'' @ [CHR 0x0D, CHR 0x0A]) d = Ret (0, d1)"
    "seen view d1 = seen view d"
    using uart_puts_keeps [of "msim_putchar p ?bs (fst (msim_raw_init statics))" "seen view", OF put] by blast
  have d2: "dd_disk (view (fst (msim_dd_init p dd pa d1))) = dd_disk (view (fst d))"
    using ddisk_writes(1) [OF assms(1), of "ucast (mips_kva2pa dd)" d1] d1(2) by (simp add: msim_dd_init_def seen_def)
  obtain d' where "msim_dd_read_sector n p dd pa 0 mbr True (msim_dd_init p dd pa d1) = Ret (0, d')"
    "snd d' = placed (dd_disk (view (fst d))) 0 mbr 512 (placed (dd_disk (view (fst d))) 0 dd 512 (snd (msim_dd_init p dd pa d1)))"
    using dd_read_sector [OF assms(1) order_refl assms(2,3), of 0 "msim_dd_init p dd pa d1"] assms(4) d2 by auto
  then show "\<exists>d'. fw_mips_main n p dd pa statics need_cr mbr d = Ret d' \<and> (\<forall>i<512. snd d' (mbr + of_nat i) = dd_disk (view (fst d)) i)"
    using d1(1) unfolding fw_mips_main_def Let_def by (simp only: obind.simps prod.case) (simp add: placed_in)
next
  fix d'
  assume "fw_arm_main n' p' junk need_cr d0 = Ret d'"
  from fw_arm_main_checks [OF _ _ assms(6) this] assms(7,8) show "f d' = (0x55, 0xAA)" by blast
qed

theorem firmware_jumps_witness:
  "\<exists>d'. fw_mips_main 2 sim_dd 0x80100000 0x1000 (\<lparr>cd_bus = NULL, cd_base = 0x5000\<rparr>, \<lparr>cd_bus = NULL, cd_base = 0x6000\<rparr>) True 0x80200000
        ((\<lparr>dd_dma = 0, dd_sector = 0, dd_cmd = 0, dd_intr = False, dd_err = False, dd_disk = of_nat\<rparr>, True), \<lambda>_. 0) = Ret d' \<and>
     snd d' 0x80200007 = 7"
proof -
  let ?st = "(\<lparr>cd_bus = NULL, cd_base = 0x5000\<rparr>, \<lparr>cd_bus = NULL, cd_base = 0x6000\<rparr>)"
  let ?d = "((\<lparr>dd_dma = 0, dd_sector = 0, dd_cmd = 0, dd_intr = False, dd_err = False, dd_disk = of_nat\<rparr>, True), \<lambda>_ :: u32. 0 :: u8)"
  let ?f = "\<lambda>d :: sd_view dma. (snd d (FW_MBR_ADDR + 510), snd d (FW_MBR_ADDR + 511))"
  have a: "apart 512 0x80200000 0x80100000" by (rule apart_ranges) simp_all
  have k: "in_kseg0 0x80100000" by (simp add: in_kseg0_def KSEG0_def KSEG1_def)
  have l: "\<forall>d c. seen fst (io_write sim_dd W8 (cd_base (fst ?st)) c d) = seen fst d"
    by (simp add: io_write_def sim_dd_def Let_def)
  have r: "\<forall>d. ?f (snd (io_read sim_sd W32 UART_OFFSET_SR d)) = ?f d"
    by (simp add: io_read_def sim_sd_def flat_iomap_def UART_OFFSET_SR_def)
  have w: "\<forall>d c. ?f (io_write sim_sd W8 UART_OFFSET_FIFO c d) = ?f d" by (simp add: io_write_def sim_sd_def)
  obtain d' where "fw_mips_main 2 sim_dd 0x80100000 0x1000 ?st True 0x80200000 ?d = Ret d'"
    "\<forall>i<512. snd d' (0x80200000 + of_nat i) = dd_disk (fst (fst ?d)) i"
    using conjunct1 [OF firmware_jumps [OF sim_ddisk k a _ l refl r w, of True ?d]] by auto
  moreover from this(2) [rule_format, of 7] have "snd d' 0x80200007 = 7" by simp
  ultimately show ?thesis by blast
qed

end
