(* ===== verification/Segment.thy ===== *)
theory Segment
  imports Console
begin

unbundle bit_operations_syntax

text \<open>
  Segments and traps of i386: the descriptors of \<open>include/arch/i386/segment.h\<close>, the tables and
  registers that \<open>kern/arch/i386/arch_init.c\<close> sets up, the gates of \<open>kern/arch/i386/trap.c\<close>, and the
  entry and exit of a trap in \<open>kern/arch/i386/trapentry.S\<close> behind the vectors that
  \<open>tools/arch/i386/vectors.pl\<close> generates. What the processor makes of a descriptor, a gate or an
  interrupt is written out from its documentation and has no counterpart in the code.
\<close>

section \<open>Segment descriptors\<close>

definition SEG_KCODE :: nat where "SEG_KCODE = 1"
definition SEG_KDATA :: nat where "SEG_KDATA = 2"
definition SEG_UCODE :: nat where "SEG_UCODE = 4"
definition SEG_UDATA :: nat where "SEG_UDATA = 5"
definition SEG_TSS :: nat where "SEG_TSS = 6"
definition NR_SEGMENTS :: nat where "NR_SEGMENTS = 7"
definition KERNEL_DS :: u16 where "KERNEL_DS = push_bit 3 (of_nat SEG_KDATA)"
definition KERNEL_CS :: u16 where "KERNEL_CS = push_bit 3 (of_nat SEG_KCODE)"
definition STA_X :: u32 where "STA_X = 0x8"
definition STA_W :: u32 where "STA_W = 0x2"
definition STA_R :: u32 where "STA_R = 0x2"
definition STS_T32A :: u32 where "STS_T32A = 0x9"
definition STS_IG32 :: u32 where "STS_IG32 = 0xE"
definition STS_TG32 :: u32 where "STS_TG32 = 0xF"
definition DPL_KERNEL :: u32 where "DPL_KERNEL = 0"
definition DPL_USER :: u32 where "DPL_USER = 3"

record segdesc =
  lim_15_0 :: "16 word"
  base_15_0 :: "16 word"
  base_23_16 :: "8 word"
  sd_type :: "4 word"
  sd_s :: "1 word"
  sd_dpl :: "2 word"
  sd_p :: "1 word"
  lim_19_16 :: "4 word"
  sd_avl :: "1 word"
  sd_rsv1 :: "1 word"
  sd_db :: "1 word"
  sd_g :: "1 word"
  base_31_24 :: "8 word"

definition SEG :: "u32 \<Rightarrow> u32 \<Rightarrow> u32 \<Rightarrow> u32 \<Rightarrow> segdesc" where
  "SEG type base sz dpl =
     \<lparr>lim_15_0 = ucast (drop_bit 12 sz AND 0xffff), base_15_0 = ucast (base AND 0xffff), base_23_16 = ucast (drop_bit 16 base AND 0xff),
      sd_type = ucast type, sd_s = 1, sd_dpl = ucast dpl, sd_p = 1, lim_19_16 = ucast (drop_bit 28 sz), sd_avl = 0, sd_rsv1 = 0,
      sd_db = 1, sd_g = 1, base_31_24 = ucast (drop_bit 24 base)\<rparr>"

definition SEG16 :: "u32 \<Rightarrow> u32 \<Rightarrow> u32 \<Rightarrow> u32 \<Rightarrow> segdesc" where
  "SEG16 type base sz dpl =
     \<lparr>lim_15_0 = ucast (sz AND 0xffff), base_15_0 = ucast (base AND 0xffff), base_23_16 = ucast (drop_bit 16 base AND 0xff),
      sd_type = ucast type, sd_s = 1, sd_dpl = ucast dpl, sd_p = 1, lim_19_16 = ucast (drop_bit 16 sz), sd_avl = 0, sd_rsv1 = 0,
      sd_db = 1, sd_g = 0, base_31_24 = ucast (drop_bit 24 base)\<rparr>"

section \<open>Bit fields\<close>

text \<open>
  A structure of bit fields as the number its bytes denote: the compiler lays fields out from the
  lowest bit. A field has a width and a value.
\<close>

primrec bit_fields :: "(nat \<times> nat) list \<Rightarrow> nat" where
  "bit_fields [] = 0"
| "bit_fields (f # fs) = snd f mod 2 ^ fst f + 2 ^ fst f * bit_fields fs"

text \<open>What the processor reads as \<open>len\<close> bits from bit \<open>off\<close>.\<close>

definition bits_at :: "nat \<Rightarrow> nat \<Rightarrow> nat \<Rightarrow> nat" where
  "bits_at w off len = w div 2 ^ off mod 2 ^ len"

lemma bit_fields_drop: "bit_fields (xs @ ys) div 2 ^ sum_list (map fst xs) = bit_fields ys"
proof (induction xs)
  case (Cons x xs)
  have "bit_fields ((x # xs) @ ys) div 2 ^ fst x = bit_fields (xs @ ys)" by simp
  then show ?case using Cons by (simp add: power_add div_mult2_eq)
qed simp

lemma bits_at_field:
  assumes "off = sum_list (map fst xs)"
  shows "bits_at (bit_fields (xs @ (len, x) # ys)) off len = x mod 2 ^ len"
  unfolding bits_at_def assms bit_fields_drop by simp

lemma bits_at_nth:
  assumes "i < length fs" "off = sum_list (map fst (take i fs))" "len = fst (fs ! i)"
  shows "bits_at (bit_fields fs) off len = snd (fs ! i) mod 2 ^ len"
proof -
  have "fs = take i fs @ (len, snd (fs ! i)) # drop (Suc i) fs" using assms(1,3) by (simp add: id_take_nth_drop [symmetric])
  then show ?thesis using bits_at_field [OF assms(2), of len "snd (fs ! i)" "drop (Suc i) fs"] by simp
qed

definition segdesc_fields :: "segdesc \<Rightarrow> (nat \<times> nat) list" where
  "segdesc_fields d =
     [(16, unat (lim_15_0 d)), (16, unat (base_15_0 d)), (8, unat (base_23_16 d)), (4, unat (sd_type d)), (1, unat (sd_s d)),
      (2, unat (sd_dpl d)), (1, unat (sd_p d)), (4, unat (lim_19_16 d)), (1, unat (sd_avl d)), (1, unat (sd_rsv1 d)), (1, unat (sd_db d)),
      (1, unat (sd_g d)), (8, unat (base_31_24 d))]"

subsection \<open>What the processor sees\<close>

definition seen_base :: "nat \<Rightarrow> nat" where
  "seen_base w = bits_at w 16 16 + 2 ^ 16 * bits_at w 32 8 + 2 ^ 24 * bits_at w 56 8"

definition seen_limit :: "nat \<Rightarrow> nat" where
  "seen_limit w =
     (let l = bits_at w 0 16 + 2 ^ 16 * bits_at w 48 4 in if bits_at w 55 1 = 1 then 4096 * l + 4095 else l)"

text \<open>Type, whether it is a segment of code or data, privilege and presence.\<close>

definition seen_access :: "nat \<Rightarrow> nat \<times> nat \<times> nat \<times> nat" where
  "seen_access w = (bits_at w 40 4, bits_at w 44 1, bits_at w 45 2, bits_at w 47 1)"

lemma bits_at_word:
  assumes "i < length fs" "off = sum_list (map fst (take i fs))" "fs ! i = (len, unat (x :: 'a :: len word))" "len = LENGTH('a)"
  shows "bits_at (bit_fields fs) off len = unat x"
  using bits_at_nth [OF assms(1,2), of len] assms(3,4) unat_bound [of x] by simp

lemma segdesc_bits:
  shows "bits_at (bit_fields (segdesc_fields d)) 0 16 = unat (lim_15_0 d)"
    "bits_at (bit_fields (segdesc_fields d)) 16 16 = unat (base_15_0 d)"
    "bits_at (bit_fields (segdesc_fields d)) 32 8 = unat (base_23_16 d)"
    "bits_at (bit_fields (segdesc_fields d)) 40 4 = unat (sd_type d)"
    "bits_at (bit_fields (segdesc_fields d)) 44 1 = unat (sd_s d)"
    "bits_at (bit_fields (segdesc_fields d)) 45 2 = unat (sd_dpl d)"
    "bits_at (bit_fields (segdesc_fields d)) 47 1 = unat (sd_p d)"
    "bits_at (bit_fields (segdesc_fields d)) 48 4 = unat (lim_19_16 d)"
    "bits_at (bit_fields (segdesc_fields d)) 55 1 = unat (sd_g d)"
    "bits_at (bit_fields (segdesc_fields d)) 56 8 = unat (base_31_24 d)"
proof -
  show "bits_at (bit_fields (segdesc_fields d)) 0 16 = unat (lim_15_0 d)" by (rule bits_at_word [of 0]) (simp_all add: segdesc_fields_def)
  show "bits_at (bit_fields (segdesc_fields d)) 16 16 = unat (base_15_0 d)" by (rule bits_at_word [of 1]) (simp_all add: segdesc_fields_def)
  show "bits_at (bit_fields (segdesc_fields d)) 32 8 = unat (base_23_16 d)" by (rule bits_at_word [of 2]) (simp_all add: segdesc_fields_def)
  show "bits_at (bit_fields (segdesc_fields d)) 40 4 = unat (sd_type d)" by (rule bits_at_word [of 3]) (simp_all add: segdesc_fields_def)
  show "bits_at (bit_fields (segdesc_fields d)) 44 1 = unat (sd_s d)" by (rule bits_at_word [of 4]) (simp_all add: segdesc_fields_def)
  show "bits_at (bit_fields (segdesc_fields d)) 45 2 = unat (sd_dpl d)" by (rule bits_at_word [of 5]) (simp_all add: segdesc_fields_def)
  show "bits_at (bit_fields (segdesc_fields d)) 47 1 = unat (sd_p d)" by (rule bits_at_word [of 6]) (simp_all add: segdesc_fields_def)
  show "bits_at (bit_fields (segdesc_fields d)) 48 4 = unat (lim_19_16 d)" by (rule bits_at_word [of 7]) (simp_all add: segdesc_fields_def)
  show "bits_at (bit_fields (segdesc_fields d)) 55 1 = unat (sd_g d)" by (rule bits_at_word [of 11]) (simp_all add: segdesc_fields_def)
  show "bits_at (bit_fields (segdesc_fields d)) 56 8 = unat (base_31_24 d)" by (rule bits_at_word [of 12]) (simp_all add: segdesc_fields_def)
qed

lemma unat_pieces:
  fixes x :: u32
  shows "unat (ucast (x AND 0xffff) :: 16 word) = unat x mod 2 ^ 16" "unat (ucast (x AND 0xff) :: 8 word) = unat x mod 2 ^ 8"
    "unat (ucast (drop_bit n x) :: 8 word) = unat (drop_bit n x) mod 2 ^ 8" "unat (ucast x :: 4 word) = unat x mod 2 ^ 4" "unat (ucast x :: 2 word) = unat x mod 2 ^ 2"
    "unat (drop_bit n x) = unat x div 2 ^ n"
proof -
  show "unat (drop_bit n x) = unat x div 2 ^ n" using unat_drop_bit_eq [of n x] drop_bit_eq_div [of n "unat x"] by simp
  have "x AND 0xffff = take_bit 16 x" "x AND 0xff = take_bit 8 x" by (simp_all add: take_bit_eq_mask mask_eq_exp_minus_1)
  then show "unat (ucast (x AND 0xffff) :: 16 word) = unat x mod 2 ^ 16" "unat (ucast (x AND 0xff) :: 8 word) = unat x mod 2 ^ 8"
    by (simp_all add: unsigned_ucast_eq take_bit_eq_mod unat_mod)
qed (simp_all add: unsigned_ucast_eq take_bit_eq_mod)

lemma split_32:
  fixes x :: nat
  shows "x < 2 ^ 32 \<Longrightarrow> x mod 2 ^ 16 + 2 ^ 16 * (x div 2 ^ 16 mod 2 ^ 8) + 2 ^ 24 * (x div 2 ^ 24 mod 2 ^ 8) = x"
    "x < 2 ^ 32 \<Longrightarrow> x div 2 ^ 12 mod 2 ^ 16 + 2 ^ 16 * (x div 2 ^ 28 mod 2 ^ 4) = x div 2 ^ 12"
    "x < 2 ^ 20 \<Longrightarrow> x mod 2 ^ 16 + 2 ^ 16 * (x div 2 ^ 16 mod 2 ^ 4) = x"
proof -
  have d: "x div 2 ^ (a + b) = x div 2 ^ a div 2 ^ b" for a b by (simp add: power_add div_mult2_eq)
  have m: "y mod 2 ^ a + 2 ^ a * (y div 2 ^ a) = y" for y a :: nat by simp
  show "x mod 2 ^ 16 + 2 ^ 16 * (x div 2 ^ 16 mod 2 ^ 8) + 2 ^ 24 * (x div 2 ^ 24 mod 2 ^ 8) = x" if "x < 2 ^ 32"
  proof -
    have "x div 2 ^ 24 mod 2 ^ 8 = x div 2 ^ 16 div 2 ^ 8" using d [of 16 8] that by simp
    moreover have "2 ^ 16 * (y mod 2 ^ 8) + 2 ^ 24 * (y div 2 ^ 8) = 2 ^ 16 * (y mod 2 ^ 8 + 2 ^ 8 * (y div 2 ^ 8))" for y :: nat
      by (simp only: distrib_left mult.assoc [symmetric] power_add [symmetric]) simp
    ultimately show ?thesis using m [of "x div 2 ^ 16" 8] m [of x 16] by (simp only: add.assoc)
  qed
  show "x div 2 ^ 12 mod 2 ^ 16 + 2 ^ 16 * (x div 2 ^ 28 mod 2 ^ 4) = x div 2 ^ 12" if "x < 2 ^ 32"
  proof -
    have "x div 2 ^ 28 mod 2 ^ 4 = x div 2 ^ 12 div 2 ^ 16" using d [of 12 16] that by simp
    then show ?thesis using m [of "x div 2 ^ 12" 16] by simp
  qed
  show "x mod 2 ^ 16 + 2 ^ 16 * (x div 2 ^ 16 mod 2 ^ 4) = x" if "x < 2 ^ 20" using m [of x 16] that by simp
qed

text \<open>The processor finds the base, the limit and the access rights that were asked for.\<close>

lemma SEG_seen:
  "seen_base (bit_fields (segdesc_fields (SEG type base sz dpl))) = unat base"
  "seen_limit (bit_fields (segdesc_fields (SEG type base sz dpl))) = 4096 * (unat sz div 4096) + 4095"
  "seen_access (bit_fields (segdesc_fields (SEG type base sz dpl))) = (unat type mod 16, 1, unat dpl mod 4, 1)"
  using split_32(1) [of "unat base"] split_32(2) [of "unat sz"] unat_bound [of base] unat_bound [of sz]
  by (simp_all add: seen_base_def seen_limit_def seen_access_def segdesc_bits SEG_def unat_pieces del: One_nat_def)

lemma SEG16_seen:
  "seen_base (bit_fields (segdesc_fields (SEG16 type base sz dpl))) = unat base"
  "unat sz < 2 ^ 20 \<Longrightarrow> seen_limit (bit_fields (segdesc_fields (SEG16 type base sz dpl))) = unat sz"
  "seen_access (bit_fields (segdesc_fields (SEG16 type base sz dpl))) = (unat type mod 16, 1, unat dpl mod 4, 1)"
  using split_32(1) [of "unat base"] split_32(3) [of "unat sz"] unat_bound [of base]
  by (simp_all add: seen_base_def seen_limit_def seen_access_def segdesc_bits SEG16_def unat_pieces del: One_nat_def)

section \<open>Tables and registers\<close>

record taskstate =
  ts_link :: u32
  ts_esp0 :: u32
  ts_ss0 :: u16
  ts_padding1 :: u16
  ts_esp1 :: u32
  ts_ss1 :: u16
  ts_padding2 :: u16
  ts_esp2 :: u32
  ts_ss2 :: u16
  ts_padding3 :: u16
  ts_cr3 :: u32
  ts_eip :: u32
  ts_eflags :: u32
  ts_eax :: u32
  ts_ecx :: u32
  ts_edx :: u32
  ts_ebx :: u32
  ts_esp :: u32
  ts_ebp :: u32
  ts_esi :: u32
  ts_edi :: u32
  ts_es :: u16
  ts_padding4 :: u16
  ts_cs :: u16
  ts_padding5 :: u16
  ts_ss :: u16
  ts_padding6 :: u16
  ts_ds :: u16
  ts_padding7 :: u16
  ts_fs :: u16
  ts_padding8 :: u16
  ts_gs :: u16
  ts_padding9 :: u16
  ts_ldt :: u16
  ts_padding10 :: u16
  ts_t :: u16
  ts_iomb :: u16

definition sizeof_taskstate :: u32 where "sizeof_taskstate = 104"
definition sizeof_segdesc :: u32 where "sizeof_segdesc = 8"

record idtentry =
  off_lo :: "16 word"
  id_cs :: "16 word"
  id_args :: "5 word"
  id_rsv1 :: "3 word"
  id_type :: "4 word"
  id_s :: "1 word"
  id_dpl :: "2 word"
  id_p :: "1 word"
  off_hi :: "16 word"

text \<open>The tables in memory, and the registers of the processor that point to them.\<close>

record i386_tables =
  t_gdt :: "segdesc list"
  t_ts :: taskstate
  t_idt :: "idtentry list"

record i386_cpu =
  c_gdtr :: "u16 \<times> u32"
  c_idtr :: "u16 \<times> u32"
  c_cs :: u16
  c_ds :: u16
  c_es :: u16
  c_fs :: u16
  c_gs :: u16
  c_ss :: u16
  c_tr :: u16

definition null_segdesc :: segdesc where
  "null_segdesc = \<lparr>lim_15_0 = 0, base_15_0 = 0, base_23_16 = 0, sd_type = 0, sd_s = 0, sd_dpl = 0, sd_p = 0, lim_19_16 = 0, sd_avl = 0,
     sd_rsv1 = 0, sd_db = 0, sd_g = 0, base_31_24 = 0\<rparr>"

definition gdt :: "segdesc list" where
  "gdt = (replicate NR_SEGMENTS null_segdesc)
     [SEG_KCODE := SEG (STA_X OR STA_R) 0 0xffffffff DPL_KERNEL, SEG_KDATA := SEG STA_W 0 0xffffffff DPL_KERNEL,
      SEG_UCODE := SEG (STA_X OR STA_R) 0 0xffffffff DPL_USER, SEG_UDATA := SEG STA_W 0 0xffffffff DPL_USER]"

definition lgdt :: "u32 \<Rightarrow> u32 \<Rightarrow> i386_cpu \<Rightarrow> i386_cpu" where
  "lgdt addr sz cpu = cpu\<lparr>c_gdtr := (ucast (sz - 1), addr)\<rparr>"

definition lidt :: "u32 \<Rightarrow> u32 \<Rightarrow> i386_cpu \<Rightarrow> i386_cpu" where
  "lidt addr sz cpu = cpu\<lparr>c_idtr := (ucast (sz - 1), addr)\<rparr>"

text \<open>
  Loading a selector makes the processor write to the descriptor: it sets the accessed bit (1) of
  the type of a segment and the busy bit (2) of a task state.
\<close>

definition mark_loaded :: "u16 \<Rightarrow> 4 word \<Rightarrow> i386_tables \<Rightarrow> i386_tables" where
  "mark_loaded sel b t =
     (let i = unat (drop_bit 3 sel); d = t_gdt t ! i in t\<lparr>t_gdt := (t_gdt t)[i := d\<lparr>sd_type := sd_type d OR b\<rparr>]\<rparr>)"

definition ltr :: "u16 \<Rightarrow> i386_tables \<Rightarrow> i386_cpu \<Rightarrow> i386_tables \<times> i386_cpu" where
  "ltr selector t cpu = (mark_loaded selector 2 t, cpu\<lparr>c_tr := selector\<rparr>)"

text \<open>The addresses of the tables and of \<open>tempkstack\<close> are arguments.\<close>

definition segment_init :: "u32 \<Rightarrow> i386_tables \<Rightarrow> i386_cpu \<Rightarrow> i386_tables \<times> i386_cpu" where
  "segment_init gdt_addr t cpu =
     (let cpu = lgdt gdt_addr (of_nat NR_SEGMENTS * sizeof_segdesc) cpu
      in (mark_loaded KERNEL_CS 1 (mark_loaded KERNEL_DS 1 t),
          cpu\<lparr>c_ds := KERNEL_DS, c_es := KERNEL_DS, c_fs := KERNEL_DS, c_gs := KERNEL_DS, c_ss := KERNEL_DS, c_cs := KERNEL_CS\<rparr>))"

definition taskstate_init :: "u32 \<Rightarrow> u32 \<Rightarrow> i386_tables \<Rightarrow> i386_tables" where
  "taskstate_init ts_addr tempkstack t =
     t\<lparr>t_ts := (t_ts t)\<lparr>ts_esp0 := tempkstack, ts_ss0 := KERNEL_DS\<rparr>,
       t_gdt := (t_gdt t)[SEG_TSS := (SEG16 STS_T32A ts_addr sizeof_taskstate DPL_KERNEL)\<lparr>sd_s := 0\<rparr>]\<rparr>"

definition taskstate_load :: "i386_tables \<Rightarrow> i386_cpu \<Rightarrow> i386_tables \<times> i386_cpu" where
  "taskstate_load t cpu = ltr (push_bit 3 (of_nat SEG_TSS)) t cpu"

definition i386_arch_init :: "u32 \<Rightarrow> u32 \<Rightarrow> u32 \<Rightarrow> i386_tables \<Rightarrow> i386_cpu \<Rightarrow> i386_tables \<times> i386_cpu" where
  "i386_arch_init gdt_addr ts_addr tempkstack t cpu =
     (let t = taskstate_init ts_addr tempkstack t; (t, cpu) = segment_init gdt_addr t cpu in taskstate_load t cpu)"

section \<open>Gates\<close>

definition MAX_IDT_ENTRIES :: nat where "MAX_IDT_ENTRIES = 256"
definition T_SYSCALL :: nat where "T_SYSCALL = 64"
definition sizeof_idtentry :: u32 where "sizeof_idtentry = 8"

definition setup_idt_entry :: "idtentry \<Rightarrow> bool \<Rightarrow> u16 \<Rightarrow> u32 \<Rightarrow> u32 \<Rightarrow> idtentry" where
  "setup_idt_entry item trap selector entry dpl =
     item\<lparr>off_lo := ucast (entry AND 0xffff), id_cs := selector, id_args := 0, id_rsv1 := 0,
       id_type := ucast (if trap then STS_TG32 else STS_IG32), id_s := 0, id_dpl := ucast dpl, id_p := 1, off_hi := ucast (drop_bit 16 entry)\<rparr>"

definition trap_init :: "u32 \<Rightarrow> (nat \<Rightarrow> u32) \<Rightarrow> i386_tables \<Rightarrow> i386_cpu \<Rightarrow> i386_tables \<times> i386_cpu" where
  "trap_init idt_addr vectors t cpu =
     (let idt = map (\<lambda>i. setup_idt_entry (t_idt t ! i) False KERNEL_CS (vectors i) DPL_KERNEL) [0..<MAX_IDT_ENTRIES];
          idt = idt[T_SYSCALL := setup_idt_entry (idt ! T_SYSCALL) True KERNEL_CS (vectors T_SYSCALL) DPL_USER]
      in (t\<lparr>t_idt := idt\<rparr>, lidt idt_addr (of_nat MAX_IDT_ENTRIES * sizeof_idtentry) cpu))"

definition idtentry_fields :: "idtentry \<Rightarrow> (nat \<times> nat) list" where
  "idtentry_fields g =
     [(16, unat (off_lo g)), (16, unat (id_cs g)), (5, unat (id_args g)), (3, unat (id_rsv1 g)), (4, unat (id_type g)), (1, unat (id_s g)),
      (2, unat (id_dpl g)), (1, unat (id_p g)), (16, unat (off_hi g))]"

subsection \<open>What the processor sees\<close>

text \<open>The descriptor behind a selector of the global table, when the table is at \<open>gdt_addr\<close> and long enough.\<close>

definition selected :: "u32 \<Rightarrow> i386_tables \<Rightarrow> i386_cpu \<Rightarrow> u16 \<Rightarrow> nat option" where
  "selected gdt_addr t cpu sel =
     (let i = unat (drop_bit 3 sel)
      in if c_gdtr cpu = (fst (c_gdtr cpu), gdt_addr) \<and> 8 * i + 7 \<le> unat (fst (c_gdtr cpu)) \<and> i < length (t_gdt t) \<and> i \<noteq> 0
         then Some (bit_fields (segdesc_fields (t_gdt t ! i))) else None)"

text \<open>Where a gate leads: selector and offset; its type with the bit of a system descriptor, privilege and presence.\<close>

definition gate :: "u32 \<Rightarrow> i386_tables \<Rightarrow> i386_cpu \<Rightarrow> nat \<Rightarrow> (nat \<times> nat \<times> nat \<times> nat \<times> nat \<times> nat) option" where
  "gate idt_addr t cpu i =
     (if c_idtr cpu = (fst (c_idtr cpu), idt_addr) \<and> 8 * i + 7 \<le> unat (fst (c_idtr cpu)) \<and> i < length (t_idt t)
      then let w = bit_fields (idtentry_fields (t_idt t ! i))
           in Some (bits_at w 16 16, bits_at w 0 16 + 2 ^ 16 * bits_at w 48 16, bits_at w 40 4, bits_at w 44 1, bits_at w 45 2, bits_at w 47 1)
      else None)"

lemma idtentry_bits:
  shows "bits_at (bit_fields (idtentry_fields g)) 0 16 = unat (off_lo g)"
    "bits_at (bit_fields (idtentry_fields g)) 16 16 = unat (id_cs g)"
    "bits_at (bit_fields (idtentry_fields g)) 40 4 = unat (id_type g)"
    "bits_at (bit_fields (idtentry_fields g)) 44 1 = unat (id_s g)"
    "bits_at (bit_fields (idtentry_fields g)) 45 2 = unat (id_dpl g)"
    "bits_at (bit_fields (idtentry_fields g)) 47 1 = unat (id_p g)"
    "bits_at (bit_fields (idtentry_fields g)) 48 16 = unat (off_hi g)"
proof -
  show "bits_at (bit_fields (idtentry_fields g)) 0 16 = unat (off_lo g)" by (rule bits_at_word [of 0]) (simp_all add: idtentry_fields_def)
  show "bits_at (bit_fields (idtentry_fields g)) 16 16 = unat (id_cs g)" by (rule bits_at_word [of 1]) (simp_all add: idtentry_fields_def)
  show "bits_at (bit_fields (idtentry_fields g)) 40 4 = unat (id_type g)" by (rule bits_at_word [of 4]) (simp_all add: idtentry_fields_def)
  show "bits_at (bit_fields (idtentry_fields g)) 44 1 = unat (id_s g)" by (rule bits_at_word [of 5]) (simp_all add: idtentry_fields_def)
  show "bits_at (bit_fields (idtentry_fields g)) 45 2 = unat (id_dpl g)" by (rule bits_at_word [of 6]) (simp_all add: idtentry_fields_def)
  show "bits_at (bit_fields (idtentry_fields g)) 47 1 = unat (id_p g)" by (rule bits_at_word [of 7]) (simp_all add: idtentry_fields_def)
  show "bits_at (bit_fields (idtentry_fields g)) 48 16 = unat (off_hi g)" by (rule bits_at_word [of 8]) (simp_all add: idtentry_fields_def)
qed

lemmas segment_constants = SEG_KCODE_def SEG_KDATA_def SEG_UCODE_def SEG_UDATA_def SEG_TSS_def NR_SEGMENTS_def KERNEL_DS_def KERNEL_CS_def
  STA_X_def STA_W_def STA_R_def STS_T32A_def STS_IG32_def STS_TG32_def DPL_KERNEL_def DPL_USER_def sizeof_taskstate_def sizeof_segdesc_def
  sizeof_idtentry_def MAX_IDT_ENTRIES_def T_SYSCALL_def

lemma setup_gate:
  "unat (off_lo (setup_idt_entry item trap selector entry dpl)) + 2 ^ 16 * unat (off_hi (setup_idt_entry item trap selector entry dpl)) = unat entry"
proof -
  have "unat (ucast (drop_bit 16 entry) :: 16 word) = unat entry div 2 ^ 16"
    using unat_bound [of entry] by (simp add: unsigned_ucast_eq take_bit_eq_mod unat_pieces)
  then show ?thesis by (simp add: setup_idt_entry_def unat_pieces)
qed

lemma trap_init_gate:
  assumes "i < 256"
  shows "gate idt_addr (fst (trap_init idt_addr vectors t cpu)) (snd (trap_init idt_addr vectors t cpu)) i =
    Some (8, unat (vectors i), if i = 64 then 15 else 14, 0, if i = 64 then 3 else 0, 1)"
proof -
  let ?t = "fst (trap_init idt_addr vectors t cpu)"
  obtain item where g: "t_idt ?t ! i = setup_idt_entry item (i = 64) KERNEL_CS (vectors i) (if i = 64 then DPL_USER else DPL_KERNEL)" "length (t_idt ?t) = 256"
    using assms by (cases "i = 64") (simp_all add: trap_init_def Let_def segment_constants nth_list_update)
  have c: "c_idtr (snd (trap_init idt_addr vectors t cpu)) = (2047, idt_addr)"
    by (simp add: trap_init_def Let_def lidt_def segment_constants)
  have k: "unat (ucast STS_TG32 :: 4 word) = 15" "unat (ucast STS_IG32 :: 4 word) = 14" "unat (ucast DPL_USER :: 2 word) = 3"
    "unat (ucast DPL_KERNEL :: 2 word) = 0" "unat KERNEL_CS = 8"
    by (simp_all add: segment_constants)
  show ?thesis
    unfolding gate_def c using assms g setup_gate [of item "i = 64" KERNEL_CS "vectors i" "if i = 64 then DPL_USER else DPL_KERNEL"]
    by (simp add: idtentry_bits setup_idt_entry_def k del: One_nat_def)
qed

lemma gdt_seen:
  "bit_fields (segdesc_fields (gdt ! SEG_KCODE)) = w \<Longrightarrow> seen_base w = 0 \<and> seen_limit w = 2 ^ 32 - 1 \<and> seen_access w = (10, 1, 0, 1)"
  "bit_fields (segdesc_fields (gdt ! SEG_KDATA)) = w \<Longrightarrow> seen_base w = 0 \<and> seen_limit w = 2 ^ 32 - 1 \<and> seen_access w = (2, 1, 0, 1)"
  using SEG_seen [of "STA_X OR STA_R" 0 "0xffffffff" DPL_KERNEL] SEG_seen [of STA_W 0 "0xffffffff" DPL_KERNEL]
  by (simp_all add: gdt_def segment_constants)

lemma tss_seen:
  assumes "w = bit_fields (segdesc_fields ((SEG16 STS_T32A ts_addr sizeof_taskstate DPL_KERNEL)\<lparr>sd_s := 0\<rparr>))"
  shows "seen_base w = unat ts_addr" "seen_limit w = 104" "seen_access w = (9, 0, 0, 1)"
  using SEG16_seen(1,3) [of STS_T32A ts_addr sizeof_taskstate DPL_KERNEL] SEG16_seen(2) [of sizeof_taskstate STS_T32A ts_addr DPL_KERNEL]
  unfolding assms
  by (simp_all add: seen_base_def seen_limit_def seen_access_def segdesc_bits sizeof_taskstate_def STS_T32A_def DPL_KERNEL_def del: One_nat_def)

lemma retyped_seen:
  defines "see \<equiv> \<lambda>d. bit_fields (segdesc_fields d)"
  shows "seen_base (see (d\<lparr>sd_type := x\<rparr>)) = seen_base (see d)" "seen_limit (see (d\<lparr>sd_type := x\<rparr>)) = seen_limit (see d)"
    "seen_access (see (d\<lparr>sd_type := x\<rparr>)) = (unat x, snd (seen_access (see d)))"
  by (simp_all add: see_def seen_base_def seen_limit_def seen_access_def segdesc_bits del: One_nat_def)

lemma loaded_types:
  "unat (sd_type (gdt ! SEG_KCODE) OR 1) = 11" "unat (sd_type (gdt ! SEG_KDATA) OR 1) = 3"
  "unat (sd_type ((SEG16 STS_T32A a n p)\<lparr>sd_s := 0\<rparr>) OR 2) = 11"
  by (simp_all add: gdt_def segment_constants SEG_def SEG16_def)

text \<open>The tables after the initialisation: the descriptors that are loaded and the task state.\<close>

lemma i386_arch_init_tables:
  assumes "t_gdt t = gdt" "i386_arch_init gdt_addr ts_addr tempkstack t cpu = (t1, cpu1)"
  defines "tss \<equiv> (SEG16 STS_T32A ts_addr sizeof_taskstate DPL_KERNEL)\<lparr>sd_s := 0\<rparr>"
  shows "length (t_gdt t1) = 7" "t_gdt t1 ! 1 = (gdt ! SEG_KCODE)\<lparr>sd_type := sd_type (gdt ! SEG_KCODE) OR 1\<rparr>"
    "t_gdt t1 ! 2 = (gdt ! SEG_KDATA)\<lparr>sd_type := sd_type (gdt ! SEG_KDATA) OR 1\<rparr>"
    "t_gdt t1 ! 6 = tss\<lparr>sd_type := sd_type tss OR 2\<rparr>"
    "t_ts t1 = (t_ts t)\<lparr>ts_esp0 := tempkstack, ts_ss0 := KERNEL_DS\<rparr>"
proof -
  have "length gdt = 7" by (simp add: gdt_def NR_SEGMENTS_def)
  then show "length (t_gdt t1) = 7" "t_gdt t1 ! 1 = (gdt ! SEG_KCODE)\<lparr>sd_type := sd_type (gdt ! SEG_KCODE) OR 1\<rparr>"
    "t_gdt t1 ! 2 = (gdt ! SEG_KDATA)\<lparr>sd_type := sd_type (gdt ! SEG_KDATA) OR 1\<rparr>"
    "t_gdt t1 ! 6 = tss\<lparr>sd_type := sd_type tss OR 2\<rparr>"
    "t_ts t1 = (t_ts t)\<lparr>ts_esp0 := tempkstack, ts_ss0 := KERNEL_DS\<rparr>"
    using assms(1,2) unfolding tss_def
    by (auto simp: i386_arch_init_def taskstate_init_def segment_init_def taskstate_load_def ltr_def mark_loaded_def Let_def
        KERNEL_CS_def KERNEL_DS_def SEG_KCODE_def SEG_KDATA_def SEG_TSS_def)
qed

text \<open>
  C18: After \<open>arch_init\<close> and \<open>trap_init\<close> the processor finds flat segments of 4 GB for kernel code and
  data, marked as accessed, behind its segment registers, the task state, marked as busy, with its two fields behind the task register, and
  for each of the 256 vectors a present gate to the vector's address in the kernel's code segment,
  which user code may call only for the system call.
\<close>

theorem i386_tables_set_up:
  assumes "t_gdt t = gdt" "i386_arch_init gdt_addr ts_addr tempkstack t cpu = (t1, cpu1)" "trap_init idt_addr vectors t1 cpu1 = (t2, cpu2)"
  shows "(\<exists>w. selected gdt_addr t2 cpu2 (c_cs cpu2) = Some w \<and> seen_base w = 0 \<and> seen_limit w = 2 ^ 32 - 1 \<and> seen_access w = (11, 1, 0, 1)) \<and>
    (\<exists>w. (\<forall>sel \<in> {c_ds cpu2, c_es cpu2, c_fs cpu2, c_gs cpu2, c_ss cpu2}. selected gdt_addr t2 cpu2 sel = Some w) \<and>
       seen_base w = 0 \<and> seen_limit w = 2 ^ 32 - 1 \<and> seen_access w = (3, 1, 0, 1)) \<and>
    (\<exists>w. selected gdt_addr t2 cpu2 (c_tr cpu2) = Some w \<and> seen_base w = unat ts_addr \<and> seen_limit w = 104 \<and> seen_access w = (11, 0, 0, 1)) \<and>
    ts_esp0 (t_ts t2) = tempkstack \<and> ts_ss0 (t_ts t2) = c_ss cpu2 \<and>
    (\<forall>i<256. gate idt_addr t2 cpu2 i = Some (unat (c_cs cpu2), unat (vectors i), if i = 64 then 15 else 14, 0, if i = 64 then 3 else 0, 1))"
proof -
  note a = i386_arch_init_tables [OF assms(1,2)]
  have t2: "t_gdt t2 = t_gdt t1" "t_ts t2 = t_ts t1" using assms(3) by (auto simp: trap_init_def Let_def)
  have c: "c_gdtr cpu2 = (55, gdt_addr)" "c_cs cpu2 = 8" "c_tr cpu2 = 48" "c_ds cpu2 = 16" "c_es cpu2 = 16" "c_fs cpu2 = 16" "c_gs cpu2 = 16" "c_ss cpu2 = 16"
    using assms(2,3) by (auto simp: i386_arch_init_def trap_init_def taskstate_load_def segment_init_def lgdt_def lidt_def ltr_def Let_def segment_constants)
  have s: "selected gdt_addr t2 cpu2 8 = Some (bit_fields (segdesc_fields (t_gdt t1 ! 1)))"
    "selected gdt_addr t2 cpu2 16 = Some (bit_fields (segdesc_fields (t_gdt t1 ! 2)))"
    "selected gdt_addr t2 cpu2 48 = Some (bit_fields (segdesc_fields (t_gdt t1 ! 6)))"
    using a(1) c(1) t2(1) by (simp_all add: selected_def)
  let ?see = "\<lambda>i. bit_fields (segdesc_fields (t_gdt t1 ! i))"
  have d: "seen_base (?see 1) = 0 \<and> seen_limit (?see 1) = 2 ^ 32 - 1 \<and> seen_access (?see 1) = (11, 1, 0, 1)"
    "seen_base (?see 2) = 0 \<and> seen_limit (?see 2) = 2 ^ 32 - 1 \<and> seen_access (?see 2) = (3, 1, 0, 1)"
    "seen_base (?see 6) = unat ts_addr \<and> seen_limit (?see 6) = 104 \<and> seen_access (?see 6) = (11, 0, 0, 1)"
    unfolding a(2-4) retyped_seen loaded_types using gdt_seen [OF refl] tss_seen [OF refl, of ts_addr] by simp_all
  have "\<forall>i<256. gate idt_addr t2 cpu2 i = Some (8, unat (vectors i), if i = 64 then 15 else 14, 0, if i = 64 then 3 else 0, 1)"
    using trap_init_gate [of _ idt_addr vectors t1 cpu1] assms(3) by simp
  moreover have "ts_ss0 (t_ts t2) = 16" "ts_esp0 (t_ts t2) = tempkstack" unfolding t2(2) a(5) by (simp_all add: segment_constants)
  ultimately show ?thesis
    unfolding c(2-) using s d by simp
qed

definition example_tables :: i386_tables where
  "example_tables = \<lparr>t_gdt = gdt,
     t_ts = \<lparr>ts_link = 0, ts_esp0 = 0, ts_ss0 = 0, ts_padding1 = 0, ts_esp1 = 0, ts_ss1 = 0, ts_padding2 = 0, ts_esp2 = 0, ts_ss2 = 0,
       ts_padding3 = 0, ts_cr3 = 0, ts_eip = 0, ts_eflags = 0, ts_eax = 0, ts_ecx = 0, ts_edx = 0, ts_ebx = 0, ts_esp = 0, ts_ebp = 0,
       ts_esi = 0, ts_edi = 0, ts_es = 0, ts_padding4 = 0, ts_cs = 0, ts_padding5 = 0, ts_ss = 0, ts_padding6 = 0, ts_ds = 0, ts_padding7 = 0,
       ts_fs = 0, ts_padding8 = 0, ts_gs = 0, ts_padding9 = 0, ts_ldt = 0, ts_padding10 = 0, ts_t = 0, ts_iomb = 0\<rparr>,
     t_idt = replicate 256 \<lparr>off_lo = 0, id_cs = 0, id_args = 0, id_rsv1 = 0, id_type = 0, id_s = 0, id_dpl = 0, id_p = 0, off_hi = 0\<rparr>\<rparr>"

definition example_cpu :: i386_cpu where
  "example_cpu = \<lparr>c_gdtr = (0, 0), c_idtr = (0, 0), c_cs = 0, c_ds = 0, c_es = 0, c_fs = 0, c_gs = 0, c_ss = 0, c_tr = 0\<rparr>"

theorem i386_tables_set_up_witness:
  "\<exists>t1 cpu1 t2 cpu2 w. i386_arch_init 0x1000 0x2000 0x3000 example_tables example_cpu = (t1, cpu1) \<and>
     trap_init 0x4000 (\<lambda>i. 0x80010000 + of_nat i) t1 cpu1 = (t2, cpu2) \<and> selected 0x1000 t2 cpu2 (c_tr cpu2) = Some w \<and> seen_base w = 0x2000 \<and>
     gate 0x4000 t2 cpu2 64 = Some (unat (c_cs cpu2), 0x80010040, 15, 0, 3, 1)"
proof -
  obtain t1 cpu1 where 1: "i386_arch_init 0x1000 0x2000 0x3000 example_tables example_cpu = (t1, cpu1)"
    by (cases "i386_arch_init 0x1000 0x2000 0x3000 example_tables example_cpu")
  obtain t2 cpu2 where 2: "trap_init 0x4000 (\<lambda>i. 0x80010000 + of_nat i) t1 cpu1 = (t2, cpu2)"
    by (cases "trap_init 0x4000 (\<lambda>i. 0x80010000 + of_nat i) t1 cpu1")
  have g: "t_gdt example_tables = gdt" by (simp add: example_tables_def)
  note p = i386_tables_set_up [OF g 1 2]
  obtain w where "selected 0x1000 t2 cpu2 (c_tr cpu2) = Some w" "seen_base w = unat (0x2000 :: u32)" using p by blast
  moreover have "\<forall>i<256. gate 0x4000 t2 cpu2 i =
      Some (unat (c_cs cpu2), unat (0x80010000 + of_nat i :: u32), if i = 64 then 15 else 14, 0, if i = 64 then 3 else 0, 1)"
    using p by blast
  from this [rule_format, of 64] have "gate 0x4000 t2 cpu2 64 = Some (unat (c_cs cpu2), 0x80010040, 15, 0, 3, 1)" by simp
  ultimately show ?thesis using 1 2 by auto
qed

end
