(* ===== verification/I386Trap.thy ===== *)
theory I386Trap
  imports Segment
begin

text \<open>
  Entry and exit of a trap on i386: the vectors that \<open>tools/arch/i386/vectors.pl\<close> generates,
  \<open>trapentry\<close> and \<open>trapret\<close> of \<open>kern/arch/i386/trapentry.S\<close>, and the structure \<open>trapframe\<close> through which
  \<open>trap_handler\<close> of \<open>kern/arch/i386/trap.c\<close> sees the registers. Instructions act on a record of
  registers and a stack of words.
\<close>

section \<open>Instructions\<close>

record x86 =
  x_eax :: u32
  x_ecx :: u32
  x_edx :: u32
  x_ebx :: u32
  x_esp :: u32
  x_ebp :: u32
  x_esi :: u32
  x_edi :: u32
  x_eip :: u32
  x_eflags :: u32
  x_cs :: u16
  x_ds :: u16
  x_es :: u16
  x_fs :: u16
  x_gs :: u16
  x_ss :: u16
  x_mem :: "u32 \<Rightarrow> u32"

definition pushl :: "u32 \<Rightarrow> x86 \<Rightarrow> x86" where
  "pushl v s = s\<lparr>x_esp := x_esp s - 4, x_mem := (x_mem s)(x_esp s - 4 := v)\<rparr>"

definition popl :: "(u32 \<Rightarrow> x86 \<Rightarrow> x86) \<Rightarrow> x86 \<Rightarrow> x86" where
  "popl put s = put (x_mem s (x_esp s)) (s\<lparr>x_esp := x_esp s + 4\<rparr>)"

text \<open>The upper half of the word pushed for a selector is not defined.\<close>

definition push_sel :: "u16 \<Rightarrow> u16 \<Rightarrow> x86 \<Rightarrow> x86" where
  "push_sel upper sel = pushl (push_bit 16 (ucast upper) OR ucast sel)"

definition pushal :: "x86 \<Rightarrow> x86" where
  "pushal s =
     (let temp = x_esp s
      in pushl (x_edi s) (pushl (x_esi s) (pushl (x_ebp s) (pushl temp (pushl (x_ebx s) (pushl (x_edx s) (pushl (x_ecx s) (pushl (x_eax s) s))))))))"

definition popal :: "x86 \<Rightarrow> x86" where
  "popal s =
     (let s = popl (\<lambda>v. x_edi_update (\<lambda>_. v)) s; s = popl (\<lambda>v. x_esi_update (\<lambda>_. v)) s; s = popl (\<lambda>v. x_ebp_update (\<lambda>_. v)) s;
          s = popl (\<lambda>v s. s) s; s = popl (\<lambda>v. x_ebx_update (\<lambda>_. v)) s; s = popl (\<lambda>v. x_edx_update (\<lambda>_. v)) s;
          s = popl (\<lambda>v. x_ecx_update (\<lambda>_. v)) s
      in popl (\<lambda>v. x_eax_update (\<lambda>_. v)) s)"

section \<open>The code\<close>

definition pushes_error :: "nat \<Rightarrow> bool" where
  "pushes_error i \<longleftrightarrow> i = 8 \<or> 10 \<le> i \<and> i \<le> 14 \<or> i = 17"

definition vector_entry :: "nat \<Rightarrow> x86 \<Rightarrow> x86" where
  "vector_entry i s = (let s = (if \<not> pushes_error i then pushl 0 s else s) in pushl (of_nat i) s)"

text \<open>Up to the call of the handler: the state, and the argument of the handler.\<close>

definition trapentry :: "u16 \<Rightarrow> x86 \<Rightarrow> x86 \<times> u32" where
  "trapentry upper s =
     (let s = push_sel upper (x_ds s) s; s = push_sel upper (x_es s) s; s = push_sel upper (x_fs s) s; s = push_sel upper (x_gs s) s;
          s = pushal s;
          s = s\<lparr>x_eax := (x_eax s AND 0xffff0000) OR ucast KERNEL_DS, x_ds := KERNEL_DS, x_es := KERNEL_DS, x_fs := KERNEL_DS, x_gs := KERNEL_DS\<rparr>;
          tf = x_esp s
      in (pushl tf s, tf))"

text \<open>From the return of the handler.\<close>

definition trapret :: "x86 \<Rightarrow> x86" where
  "trapret s =
     (let s = popal s;
          s = popl (\<lambda>v. x_gs_update (\<lambda>_. ucast v)) s; s = popl (\<lambda>v. x_fs_update (\<lambda>_. ucast v)) s;
          s = popl (\<lambda>v. x_es_update (\<lambda>_. ucast v)) s; s = popl (\<lambda>v. x_ds_update (\<lambda>_. ucast v)) s
      in s\<lparr>x_esp := x_esp s + 8\<rparr>)"

definition after_handler :: "x86 \<Rightarrow> x86" where
  "after_handler s = trapret (s\<lparr>x_esp := x_esp s + 4\<rparr>)"

record trapframe =
  tf_edi :: u32
  tf_esi :: u32
  tf_ebp :: u32
  tf_oesp :: u32
  tf_ebx :: u32
  tf_edx :: u32
  tf_ecx :: u32
  tf_eax :: u32
  tf_gs :: u16
  tf_fs :: u16
  tf_es :: u16
  tf_ds :: u16
  tf_trapno :: u32
  tf_err :: u32
  tf_eip :: u32
  tf_cs :: u16
  tf_eflags :: u32
  tf_esp :: u32
  tf_ss :: u16

definition trapframe_at :: "(u32 \<Rightarrow> u32) \<Rightarrow> u32 \<Rightarrow> trapframe" where
  "trapframe_at m a =
     \<lparr>tf_edi = m a, tf_esi = m (a + 4), tf_ebp = m (a + 8), tf_oesp = m (a + 12), tf_ebx = m (a + 16), tf_edx = m (a + 20), tf_ecx = m (a + 24),
      tf_eax = m (a + 28), tf_gs = ucast (m (a + 32)), tf_fs = ucast (m (a + 36)), tf_es = ucast (m (a + 40)), tf_ds = ucast (m (a + 44)),
      tf_trapno = m (a + 48), tf_err = m (a + 52), tf_eip = m (a + 56), tf_cs = ucast (m (a + 60)), tf_eflags = m (a + 64),
      tf_esp = m (a + 68), tf_ss = ucast (m (a + 72))\<rparr>"

definition T_MSG_MAX :: u32 where "T_MSG_MAX = 19"

definition trapmsg :: "string list" where
  "trapmsg = [''Divide by zero'', ''Debug'', ''Non-maskable interrupt'', ''Breakpoint'', ''Overflow'', ''Bounds check'', ''Illegal opcode'',
     ''Device not available'', ''Double fault'', '''', ''Invalid task switch segment'', ''Segment not present'', ''Stack exception'',
     ''General protection fault'', ''Page fault'', '''', ''Floating point error'', ''Alignment check'', ''Machine check'', ''SIMD error'']"

definition i386_trap_handler :: "'io env \<Rightarrow> console \<Rightarrow> trapframe \<Rightarrow> 'io \<Rightarrow> unit outcome" where
  "i386_trap_handler e con tf io =
     obind (kprintf e con (''Caught exception %d (%s)'' @ [CHR 0x0A, NUL])
         [AWord (tf_trapno tf), AStr (Some (if tf_trapno tf \<le> T_MSG_MAX then trapmsg ! unat (tf_trapno tf) else ''''))] io) (\<lambda>(_, io).
       kpanic e con (''Dying...'' @ [CHR 0x0A, NUL]) [] io)"

section \<open>The processor\<close>

text \<open>
  An interrupt: when it comes from user code (privilege 3) the stack is that of the task state and
  the old one is pushed first; then flags, code segment, address and for some vectors an error code.
\<close>

definition from_user :: "x86 \<Rightarrow> bool" where
  "from_user s \<longleftrightarrow> x_cs s AND 3 = 3"

definition deliver :: "taskstate \<Rightarrow> u16 \<Rightarrow> nat \<Rightarrow> u32 \<Rightarrow> x86 \<Rightarrow> x86" where
  "deliver ts upper i err s =
     (let s1 = (if from_user s then pushl (x_esp s) (push_sel upper (x_ss s) (s\<lparr>x_esp := ts_esp0 ts, x_ss := ts_ss0 ts\<rparr>)) else s);
          s1 = pushl (x_eip s) (push_sel upper (x_cs s) (pushl (x_eflags s) s1));
          s1 = (if pushes_error i then pushl err s1 else s1)
      in s1\<lparr>x_cs := KERNEL_CS\<rparr>)"

text \<open>The return from it, to user code with its stack.\<close>

definition iret :: "x86 \<Rightarrow> x86" where
  "iret s =
     (let s = popl (\<lambda>v. x_eip_update (\<lambda>_. v)) s; s = popl (\<lambda>v. x_cs_update (\<lambda>_. ucast v)) s; s = popl (\<lambda>v. x_eflags_update (\<lambda>_. v)) s
      in if from_user s then let sp = x_mem s (x_esp s); ss = x_mem s (x_esp s + 4) in s\<lparr>x_esp := sp, x_ss := ucast ss\<rparr> else s)"

section \<open>Saving and restoring\<close>

text \<open>Addresses are counted from the frame.\<close>

lemma stack_arith:
  fixes a b c :: u32
  shows "a + b - c = a + (b - c)" "(a + b = a - c) = (b = - c)" "(a - c = a + b) = (b = - c)" "(a = a - c) = (c = 0)" "(a - c = a) = (c = 0)" "a - c + c = a"
  by (auto simp: algebra_simps add_eq_0_iff)

lemma numeral_first: "numeral n + (a :: u32) = a + numeral n"
  by (rule add.commute)

lemma sel_of_push [simp]: "ucast (push_bit 16 (ucast (u :: u16)) OR ucast (v :: u16) :: u32) = v"
  by (rule bit_word_eqI) (auto simp: bit_simps dest: bit_imp_le_length)

lemma trapentry_saves:
  assumes "x_esp s = t + 48" "trapentry upper s = (s', tf)"
  shows "tf = t" "x_esp s' = t - 4" "x_cs s' = x_cs s" "x_ss s' = x_ss s"
    "trapframe_at (x_mem s') t =
      \<lparr>tf_edi = x_edi s, tf_esi = x_esi s, tf_ebp = x_ebp s, tf_oesp = t + 32, tf_ebx = x_ebx s, tf_edx = x_edx s, tf_ecx = x_ecx s,
       tf_eax = x_eax s, tf_gs = x_gs s, tf_fs = x_fs s, tf_es = x_es s, tf_ds = x_ds s, tf_trapno = x_mem s (t + 48),
       tf_err = x_mem s (t + 52), tf_eip = x_mem s (t + 56), tf_cs = ucast (x_mem s (t + 60)), tf_eflags = x_mem s (t + 64),
       tf_esp = x_mem s (t + 68), tf_ss = ucast (x_mem s (t + 72))\<rparr>"
  using assms(2)
  by (auto simp: trapentry_def Let_def pushal_def push_sel_def pushl_def assms(1) stack_arith trapframe_at_def)

lemma trapret_restores:
  assumes "x_esp s = t - 4" "trapframe_at (x_mem s) t = f"
  shows "iret (after_handler s) =
    (let s1 = s\<lparr>x_edi := tf_edi f, x_esi := tf_esi f, x_ebp := tf_ebp f, x_ebx := tf_ebx f, x_edx := tf_edx f, x_ecx := tf_ecx f, x_eax := tf_eax f,
       x_gs := tf_gs f, x_fs := tf_fs f, x_es := tf_es f, x_ds := tf_ds f, x_eip := tf_eip f, x_cs := tf_cs f, x_eflags := tf_eflags f\<rparr>
     in if from_user s1 then s1\<lparr>x_esp := tf_esp f, x_ss := tf_ss f\<rparr> else s1\<lparr>x_esp := t + 68\<rparr>)"
  using assms(2) [symmetric]
  by (simp add: after_handler_def trapret_def iret_def popal_def popl_def assms(1) stack_arith trapframe_at_def from_user_def Let_def numeral_first)

text \<open>The frame is below the stack the trap came from, or below that of the task state.\<close>

definition frame_addr :: "taskstate \<Rightarrow> x86 \<Rightarrow> u32" where
  "frame_addr ts s = (if from_user s then ts_esp0 ts - 76 else x_esp s - 68)"

definition frame_tail :: "u16 \<Rightarrow> nat \<Rightarrow> u32 \<Rightarrow> u32 \<Rightarrow> x86 \<Rightarrow> (u32 \<Rightarrow> u32) \<Rightarrow> u32 \<Rightarrow> u32" where
  "frame_tail upper i err t s m = m(t + 64 := x_eflags s, t + 60 := push_bit 16 (ucast upper) OR ucast (x_cs s), t + 56 := x_eip s,
     t + 52 := (if pushes_error i then err else 0), t + 48 := of_nat i)"

lemma entry_kernel:
  assumes "\<not> from_user s" "x_esp s = t + 68"
  shows "vector_entry i (deliver ts upper i err s) =
    s\<lparr>x_esp := t + 48, x_mem := frame_tail upper i err t s (x_mem s), x_cs := KERNEL_CS\<rparr>"
  by (cases "pushes_error i") (simp_all add: vector_entry_def deliver_def Let_def push_sel_def pushl_def frame_tail_def assms stack_arith)

lemma entry_user:
  assumes "from_user s" "ts_esp0 ts = t + 76"
  shows "vector_entry i (deliver ts upper i err s) =
    s\<lparr>x_esp := t + 48, x_ss := ts_ss0 ts, x_cs := KERNEL_CS,
      x_mem := frame_tail upper i err t s ((x_mem s)(t + 72 := push_bit 16 (ucast upper) OR ucast (x_ss s), t + 68 := x_esp s))\<rparr>"
  by (cases "pushes_error i") (simp_all add: vector_entry_def deliver_def Let_def push_sel_def pushl_def frame_tail_def assms stack_arith)

lemma all_restored:
  fixes s s2 :: x86
  shows "s2\<lparr>x_edi := x_edi s, x_esi := x_esi s, x_ebp := x_ebp s, x_ebx := x_ebx s, x_edx := x_edx s, x_ecx := x_ecx s, x_eax := x_eax s, x_gs := x_gs s,
     x_fs := x_fs s, x_es := x_es s, x_ds := x_ds s, x_eip := x_eip s, x_cs := x_cs s, x_eflags := x_eflags s, x_esp := x_esp s, x_ss := x_ss s\<rparr> =
   s\<lparr>x_mem := x_mem s2\<rparr>"
  by (rule x86.equality) simp_all

text \<open>
  C19: For every vector the handler finds in its frame the registers, selectors, address and flags
  of the code that was interrupted, the number of the vector, and the error code or 0; when the
  handler leaves stack and memory as they were, the way back restores all registers.
\<close>

theorem i386_trap_round_trip:
  assumes "trapentry upper (vector_entry i (deliver ts upper i err s)) = (s1, tf)" "f = trapframe_at (x_mem s1) tf"
    and "x_esp s2 = x_esp s1" "x_mem s2 = x_mem s1" "from_user s \<or> x_ss s2 = x_ss s1"
  shows "tf_trapno f = of_nat i \<and> tf_err f = (if pushes_error i then err else 0) \<and> tf_eip f = x_eip s \<and> tf_cs f = x_cs s \<and> tf_eflags f = x_eflags s \<and>
    tf_eax f = x_eax s \<and> tf_ecx f = x_ecx s \<and> tf_edx f = x_edx s \<and> tf_ebx f = x_ebx s \<and> tf_ebp f = x_ebp s \<and> tf_esi f = x_esi s \<and> tf_edi f = x_edi s \<and>
    tf_ds f = x_ds s \<and> tf_es f = x_es s \<and> tf_fs f = x_fs s \<and> tf_gs f = x_gs s \<and> (from_user s \<longrightarrow> tf_esp f = x_esp s \<and> tf_ss f = x_ss s) \<and>
    iret (after_handler s2) = s\<lparr>x_mem := x_mem s1\<rparr>"
proof (cases "from_user s")
  case True
  define t where "t = ts_esp0 ts - 76"
  then have e: "ts_esp0 ts = t + 76" by simp
  let ?s = "vector_entry i (deliver ts upper i err s)"
  note u = entry_user [OF True e, of i upper err]
  have "x_esp ?s = t + 48" unfolding u by simp
  note sv = trapentry_saves [OF this assms(1)]
  have s2: "x_esp s2 = t - 4" "trapframe_at (x_mem s2) t = f" using assms(2-4) sv(1,2) by simp_all
  have f: "f = \<lparr>tf_edi = x_edi s, tf_esi = x_esi s, tf_ebp = x_ebp s, tf_oesp = t + 32, tf_ebx = x_ebx s, tf_edx = x_edx s, tf_ecx = x_ecx s,
       tf_eax = x_eax s, tf_gs = x_gs s, tf_fs = x_fs s, tf_es = x_es s, tf_ds = x_ds s, tf_trapno = of_nat i,
       tf_err = (if pushes_error i then err else 0), tf_eip = x_eip s, tf_cs = x_cs s, tf_eflags = x_eflags s, tf_esp = x_esp s, tf_ss = x_ss s\<rparr>"
    unfolding assms(2) sv(1) sv(5) u by (simp add: frame_tail_def)
  have "iret (after_handler s2) = s\<lparr>x_mem := x_mem s2\<rparr>"
    unfolding trapret_restores [OF s2] f Let_def using True all_restored [of s2 s] by (simp add: from_user_def)
  then show ?thesis using True assms(4) by (simp add: f)
next
  case False
  define t where "t = x_esp s - 68"
  then have e: "x_esp s = t + 68" by simp
  let ?s = "vector_entry i (deliver ts upper i err s)"
  note u = entry_kernel [OF False e, of i ts upper err]
  have "x_esp ?s = t + 48" unfolding u by simp
  note sv = trapentry_saves [OF this assms(1)]
  have s2: "x_esp s2 = t - 4" "trapframe_at (x_mem s2) t = f" using assms(2-4) sv(1,2) by simp_all
  have ss: "x_ss s2 = x_ss s" using False assms(5) sv(4) unfolding u by simp
  obtain a b where f: "f = \<lparr>tf_edi = x_edi s, tf_esi = x_esi s, tf_ebp = x_ebp s, tf_oesp = t + 32, tf_ebx = x_ebx s, tf_edx = x_edx s, tf_ecx = x_ecx s,
       tf_eax = x_eax s, tf_gs = x_gs s, tf_fs = x_fs s, tf_es = x_es s, tf_ds = x_ds s, tf_trapno = of_nat i,
       tf_err = (if pushes_error i then err else 0), tf_eip = x_eip s, tf_cs = x_cs s, tf_eflags = x_eflags s, tf_esp = a, tf_ss = b\<rparr>"
    unfolding assms(2) sv(1) sv(5) u by (simp add: frame_tail_def)
  have "iret (after_handler s2) = s\<lparr>x_mem := x_mem s2\<rparr>"
    unfolding trapret_restores [OF s2] f Let_def using False ss all_restored [of s2 s] e by (simp add: from_user_def)
  then show ?thesis using False assms(4) by (simp add: f)
qed

definition example_state :: x86 where
  "example_state = \<lparr>x_eax = 1, x_ecx = 2, x_edx = 3, x_ebx = 4, x_esp = 0x7000, x_ebp = 5, x_esi = 6, x_edi = 7, x_eip = 0x400000, x_eflags = 0x202,
     x_cs = 0x23, x_ds = 0x2B, x_es = 0x2B, x_fs = 0x2B, x_gs = 0x2B, x_ss = 0x2B, x_mem = (\<lambda>_. 0)\<rparr>"

theorem i386_trap_round_trip_witness:
  "\<exists>s1 tf. trapentry 0 (vector_entry 14 (deliver (t_ts example_tables) 0 14 5 example_state)) = (s1, tf) \<and>
     tf_err (trapframe_at (x_mem s1) tf) = 5 \<and> x_eip (iret (after_handler s1)) = 0x400000"
proof -
  obtain s1 tf where r: "trapentry 0 (vector_entry 14 (deliver (t_ts example_tables) 0 14 5 example_state)) = (s1, tf)"
    by (cases "trapentry 0 (vector_entry 14 (deliver (t_ts example_tables) 0 14 5 example_state))")
  have u: "from_user example_state \<or> x_ss s1 = x_ss s1" by simp
  from i386_trap_round_trip [OF r refl refl refl u] r show ?thesis by (auto simp: pushes_error_def example_state_def)
qed

end
