(* ===== verification/ArmTrap.thy ===== *)
theory ArmTrap
  imports Console
begin

text \<open>
  Traps of ARM: the entries of \<open>kern/arch/armv7a/vector.S\<close>, and \<open>trap_init\<close>, \<open>arm_handle_trap\<close> and
  \<open>trap_return\<close> of \<open>kern/arch/armv7a/trap.c\<close>. A mode has its own stack pointer, link register and saved
  status; user and system mode share the first two. Memory is a store of words.
\<close>

section \<open>The machine\<close>

record arm =
  a_r :: "nat \<Rightarrow> u32"
  a_sp :: "u32 \<Rightarrow> u32"
  a_lr :: "u32 \<Rightarrow> u32"
  a_spsr :: "u32 \<Rightarrow> u32"
  a_cpsr :: u32
  a_pc :: u32
  a_mem :: "u32 \<Rightarrow> u32"
  a_vbar :: u32

definition MODE_SYS :: u32 where "MODE_SYS = 0x1F"

definition bank :: "u32 \<Rightarrow> u32" where
  "bank psr = (let m = psr AND 0x1F in if m = 0x10 then MODE_SYS else m)"

text \<open>\<open>msr cpsr_c\<close> writes the lowest byte.\<close>

definition msr_cpsr_c :: "u32 \<Rightarrow> arm \<Rightarrow> arm" where
  "msr_cpsr_c v s = s\<lparr>a_cpsr := (a_cpsr s AND NOT 0xFF) OR (v AND 0xFF)\<rparr>"

text \<open>Storing and loading several registers, the first at the lowest address.\<close>

primrec stm :: "u32 \<Rightarrow> u32 list \<Rightarrow> (u32 \<Rightarrow> u32) \<Rightarrow> u32 \<Rightarrow> u32" where
  "stm a [] m = m"
| "stm a (v # vs) m = stm (a + 4) vs (m(a := v))"

definition ldm :: "u32 \<Rightarrow> nat \<Rightarrow> (u32 \<Rightarrow> u32) \<Rightarrow> u32 list" where
  "ldm a n m = map (\<lambda>i. m (a + 4 * of_nat i)) [0..<n]"

section \<open>Entering\<close>

datatype arm_trap = Undef | Svc | PrefAbt | DataAbt | Irq

definition ARM_UNDEF :: u32 where "ARM_UNDEF = 1"
definition ARM_SVC :: u32 where "ARM_SVC = 2"
definition ARM_PREF_ABT :: u32 where "ARM_PREF_ABT = 3"
definition ARM_DATA_ABT :: u32 where "ARM_DATA_ABT = 4"
definition ARM_IRQ :: u32 where "ARM_IRQ = 6"

fun trap_type :: "arm_trap \<Rightarrow> u32" where
  "trap_type Undef = ARM_UNDEF" | "trap_type Svc = ARM_SVC" | "trap_type PrefAbt = ARM_PREF_ABT"
| "trap_type DataAbt = ARM_DATA_ABT" | "trap_type Irq = ARM_IRQ"

text \<open>What the entries subtract from the link register.\<close>

fun entry_adjust :: "arm_trap \<Rightarrow> u32" where
  "entry_adjust Undef = 0" | "entry_adjust Svc = 0" | "entry_adjust PrefAbt = 4" | "entry_adjust DataAbt = 8" | "entry_adjust Irq = 0"

text \<open>The entry of a trap: its first instructions, in the mode \<open>m\<close> of the trap.\<close>

definition vector_slot :: "arm_trap \<Rightarrow> arm \<Rightarrow> arm" where
  "vector_slot k s =
     (let m = bank (a_cpsr s); lr = a_lr s m - entry_adjust k; sp = a_sp s m - 56
      in s\<lparr>a_lr := (a_lr s)(m := lr), a_sp := (a_sp s)(m := sp), a_mem := stm sp (map (a_r s) [0..<13] @ [lr]) (a_mem s),
           a_r := (a_r s)(1 := trap_type k)\<rparr>)"

text \<open>
  \<open>trap_entry\<close>, up to the call of \<open>arm_handle_trap\<close> with \<open>r0\<close> and \<open>r1\<close>; \<open>kstack\<close> and \<open>kstack_size\<close> are the
  first two fields of the current process, found through the per-CPU pointer.
\<close>

definition arm_trap_entry :: "u32 \<Rightarrow> u32 \<Rightarrow> arm \<Rightarrow> arm" where
  "arm_trap_entry kstack kstack_size s =
     (let m = bank (a_cpsr s);
          sp = a_sp s m - 4;
          mem = (a_mem s)(sp := a_spsr s m);
          s = msr_cpsr_c 0xDF (s\<lparr>a_sp := (a_sp s)(m := sp + 0x3C), a_mem := mem, a_r := (a_r s)(0 := sp)\<rparr>);
          r0 = sp - 8;
          mem = stm r0 [a_sp s MODE_SYS, a_lr s MODE_SYS] (a_mem s);
          r2 = mem (r0 + 8) AND 0x1F;
          s = s\<lparr>a_mem := mem, a_r := (a_r s)(0 := r0, 2 := r2)\<rparr>;
          s = (if r2 = 0x1F then s
               else s\<lparr>a_r := (a_r s)(2 := kstack, 3 := kstack_size), a_sp := (a_sp s)(MODE_SYS := kstack + kstack_size)\<rparr>)
      in s\<lparr>a_r := (a_r s)(11 := a_sp s MODE_SYS)\<rparr>)"

section \<open>Handling and returning\<close>

record arm_regs =
  ar_sp :: u32
  ar_lr :: u32
  ar_psr :: u32
  ar_r :: "u32 list"
  ar_pc :: u32

definition arm_regs_at :: "(u32 \<Rightarrow> u32) \<Rightarrow> u32 \<Rightarrow> arm_regs" where
  "arm_regs_at m a = \<lparr>ar_sp = m a, ar_lr = m (a + 4), ar_psr = m (a + 8), ar_r = ldm (a + 12) 13 m, ar_pc = m (a + 64)\<rparr>"

text \<open>\<open>trap_return\<close> with its argument in \<open>r0\<close>.\<close>

definition arm_trap_return :: "u32 \<Rightarrow> arm \<Rightarrow> arm" where
  "arm_trap_return regs s =
     (let s = msr_cpsr_c 0xDF s;
          s = s\<lparr>a_sp := (a_sp s)(MODE_SYS := a_mem s regs), a_lr := (a_lr s)(MODE_SYS := a_mem s (regs + 4))\<rparr>;
          s = msr_cpsr_c 0xD3 s;
          r1 = a_mem s (regs + 8);
          vs = ldm (regs + 12) 14 (a_mem s)
      in s\<lparr>a_spsr := (a_spsr s)(0x13 := r1), a_r := (\<lambda>i. if i < 13 then vs ! i else a_r s i), a_pc := vs ! 13, a_cpsr := r1\<rparr>)"

text \<open>The messages of \<open>arm_handle_trap\<close> go through \<open>say\<close>.\<close>

definition dump_lines :: "u32 \<Rightarrow> arm_regs \<Rightarrow> (string \<times> u32) list" where
  "dump_lines ty r =
     [(''DEBUG: Enter vector slot %d handler!'', ty)] @
     zip [''DEBUG: r0 = 0x%08x'', ''DEBUG: r1 = 0x%08x'', ''DEBUG: r2 = 0x%08x'', ''DEBUG: r3 = 0x%08x'', ''DEBUG: r4 = 0x%08x'',
       ''DEBUG: r5 = 0x%08x'', ''DEBUG: r6 = 0x%08x'', ''DEBUG: r7 = 0x%08x'', ''DEBUG: r8 = 0x%08x'', ''DEBUG: r9 = 0x%08x'',
       ''DEBUG: r10 = 0x%08x'', ''DEBUG: r11 = 0x%08x'', ''DEBUG: r12 = 0x%08x''] (ar_r r) @
     [(''DEBUG: pc = 0x%08x'', ar_pc r), (''DEBUG: psr = 0x%08x'', ar_psr r), (''DEBUG: sp = 0x%08x'', ar_sp r), (''DEBUG: lr = 0x%08x'', ar_lr r)]"

definition arm_handle_trap :: "(string \<Rightarrow> arg list \<Rightarrow> 's \<Rightarrow> 's outcome) \<Rightarrow> u32 \<Rightarrow> u32 \<Rightarrow> arm \<Rightarrow> 's \<Rightarrow> (arm \<times> 's) outcome" where
  "arm_handle_trap say regs ty s w =
     obind (say_lines say (dump_lines ty (arm_regs_at (a_mem s) regs)) w) (\<lambda>w. Ret (arm_trap_return regs s, w))"

section \<open>Initialisation\<close>

definition sizeof_arm_regs :: u32 where "sizeof_arm_regs = 68"

definition arm_init_mode :: "(u32 \<Rightarrow> u32 \<Rightarrow> 's \<Rightarrow> (u32 \<times> 's) outcome) \<Rightarrow> (string \<Rightarrow> arg list \<Rightarrow> 's \<Rightarrow> 's outcome) \<Rightarrow> u32 \<Rightarrow> string \<Rightarrow> arm \<times> 's \<Rightarrow> (arm \<times> 's) outcome" where
  "arm_init_mode kmalloc say psr_c name sw =
     obind (kmalloc sizeof_arm_regs 0 (snd sw)) (\<lambda>(regs, w).
       if regs = 0 then Panic
       else obind (say (''KERN: %s context at 0x%08x.'' @ [CHR 0x0A, NUL]) [AStr (Some name), AWord regs] w) (\<lambda>w.
              let s = msr_cpsr_c psr_c (fst sw);
                  s = s\<lparr>a_sp := (a_sp s)(bank (a_cpsr s) := regs + sizeof_arm_regs)\<rparr>
              in Ret (msr_cpsr_c 0xDF s, w)))"

definition arm_trap_init :: "(u32 \<Rightarrow> u32 \<Rightarrow> 's \<Rightarrow> (u32 \<times> 's) outcome) \<Rightarrow> (string \<Rightarrow> arg list \<Rightarrow> 's \<Rightarrow> 's outcome) \<Rightarrow> u32 \<Rightarrow> arm \<times> 's \<Rightarrow> (arm \<times> 's) outcome" where
  "arm_trap_init kmalloc say arm_vector sw =
     obind (arm_init_mode kmalloc say 0xD1 ''IRQ'' (apfst (\<lambda>s. s\<lparr>a_vbar := arm_vector\<rparr>) sw)) (\<lambda>sw.
     obind (arm_init_mode kmalloc say 0xD3 ''SVC'' sw) (\<lambda>sw.
     obind (arm_init_mode kmalloc say 0xD7 ''ABT'' sw)
       (arm_init_mode kmalloc say 0xDB ''UNDEF'')))"

section \<open>The processor\<close>

text \<open>
  Taking a trap: the mode, and the distance of the value of the link register from the address of
  the instruction, which for an interrupt is the next one to be executed. The distances are those of
  code that does not run in Thumb state. The processor leaves Thumb state, masks interrupts and,
  except for the first two, asynchronous aborts.
\<close>

fun trap_mode :: "arm_trap \<Rightarrow> u32" where
  "trap_mode Undef = 0x1B" | "trap_mode Svc = 0x13" | "trap_mode PrefAbt = 0x17" | "trap_mode DataAbt = 0x17" | "trap_mode Irq = 0x12"

fun link_offset :: "arm_trap \<Rightarrow> u32" where
  "link_offset Undef = 4" | "link_offset Svc = 4" | "link_offset PrefAbt = 4" | "link_offset DataAbt = 8" | "link_offset Irq = 4"

definition take_trap :: "arm_trap \<Rightarrow> arm \<Rightarrow> arm" where
  "take_trap k s =
     s\<lparr>a_lr := (a_lr s)(trap_mode k := a_pc s + link_offset k), a_spsr := (a_spsr s)(trap_mode k := a_cpsr s),
       a_cpsr := (a_cpsr s AND NOT 0x3F) OR (if k = Undef \<or> k = Svc then 0x80 else 0x180) OR trap_mode k\<rparr>"

section \<open>The frame\<close>

lemma trap_mode_banked [simp]: "trap_mode k \<noteq> MODE_SYS" "MODE_SYS \<noteq> trap_mode k"
  by (cases k; simp add: MODE_SYS_def)+

lemma msr_cpsr_c_sel [simp]:
  "bank (a_cpsr (msr_cpsr_c v s)) = bank v" "a_sp (msr_cpsr_c v s) = a_sp s" "a_lr (msr_cpsr_c v s) = a_lr s" "a_r (msr_cpsr_c v s) = a_r s"
  "a_mem (msr_cpsr_c v s) = a_mem s" "a_vbar (msr_cpsr_c v s) = a_vbar s"
  by (simp_all add: msr_cpsr_c_def bank_def bit.conj_disj_distrib2 and.assoc)

text \<open>The words of the structure the entry leaves, which starts at \<open>t\<close>, when the link register was \<open>pc\<close>.\<close>

lemma saved_frame:
  fixes t :: u32
  assumes "m' = stm t [sp, lr] ((stm (t + 12) (map r [0..<13] @ [pc]) m)(t + 8 := psr))"
  shows "m' t = sp" "m' (t + 4) = lr" "m' (t + 8) = psr" "m' (t + 64) = pc" "ldm (t + 12) 13 m' = map r [0..<13]"
    "ldm (t + 12) 14 m' = map r [0..<13] @ [pc]"
  by (simp_all add: assms ldm_def upt_rec add.assoc)

definition unprivileged_or_system :: "arm \<Rightarrow> bool" where
  "unprivileged_or_system s \<longleftrightarrow> a_cpsr s AND 0x1F \<in> {0x10, 0x1F} \<and> a_cpsr s AND 0x20 = 0"

definition resume_at :: "arm_trap \<Rightarrow> u32 \<Rightarrow> u32" where
  "resume_at k pc = (if k = PrefAbt \<or> k = DataAbt then pc else pc + 4)"

lemma link_adjusted: "pc + link_offset k - entry_adjust k = resume_at k pc"
  by (cases k) (simp_all add: resume_at_def)

definition enter :: "arm_trap \<Rightarrow> u32 \<Rightarrow> u32 \<Rightarrow> arm \<Rightarrow> arm" where
  "enter k kstack kstack_size s = arm_trap_entry kstack kstack_size (vector_slot k (take_trap k s))"

lemma bank_take_trap [simp]: "bank (a_cpsr (take_trap k s)) = trap_mode k"
  by (cases k) (simp_all add: take_trap_def bank_def Let_def bit.conj_disj_distrib2 and.assoc)

lemma take_trap_sel [simp]:
  "a_lr (take_trap k s) = (a_lr s)(trap_mode k := a_pc s + link_offset k)"
  "a_spsr (take_trap k s) (trap_mode k) = a_cpsr s" "a_r (take_trap k s) = a_r s" "a_sp (take_trap k s) = a_sp s"
  "a_mem (take_trap k s) = a_mem s"
  by (simp_all add: take_trap_def)

lemma enter_state:
  fixes s :: arm
  assumes t_def: "t = a_sp s (trap_mode k) - 68"
  shows "a_mem (enter k ks sz s) = stm t [a_sp s MODE_SYS, a_lr s MODE_SYS]
      ((stm (t + 12) (map (a_r s) [0..<13] @ [resume_at k (a_pc s)]) (a_mem s))(t + 8 := a_cpsr s))"
    and "a_r (enter k ks sz s) 0 = t" and "a_r (enter k ks sz s) 1 = trap_type k"
    and "a_sp (enter k ks sz s) (trap_mode k) = a_sp s (trap_mode k)"
    and "a_sp (enter k ks sz s) MODE_SYS = (if a_cpsr s AND 0x1F = 0x1F then a_sp s MODE_SYS else ks + sz)"
  by (simp_all add: enter_def arm_trap_entry_def vector_slot_def Let_def t_def link_adjusted)

lemma trap_return_state:
  fixes s :: arm
  shows "a_pc (arm_trap_return g s) = ldm (g + 12) 14 (a_mem s) ! 13" "a_cpsr (arm_trap_return g s) = a_mem s (g + 8)"
    "i < 13 \<Longrightarrow> a_r (arm_trap_return g s) i = ldm (g + 12) 14 (a_mem s) ! i"
    "a_sp (arm_trap_return g s) = (a_sp s)(MODE_SYS := a_mem s g)" "a_lr (arm_trap_return g s) MODE_SYS = a_mem s (g + 4)"
  by (simp_all add: arm_trap_return_def Let_def)

section \<open>The properties\<close>

text \<open>
  C20: A trap taken in user or system mode reaches \<open>arm_handle_trap\<close> with its type and a \<open>struct regs\<close> that holds
  every register of the interrupted code, on the stack of the kernel if it came from user mode,
  and the return of the handler restores all of them and the stack pointer of the mode of the
  trap. Execution resumes at the instruction after an instruction that is undefined or a system
  call, at the instruction itself after an abort, and, since the entry of interrupts does not correct
  its link register, one instruction late after an interrupt.
\<close>

theorem arm_trap_round_trip:
  fixes s :: arm
  assumes "unprivileged_or_system s" and say: "\<And>f a w. \<exists>w'. say f a w = Ret w'"
  shows "arm_regs_at (a_mem (enter k ks sz s)) (a_r (enter k ks sz s) 0) =
      \<lparr>ar_sp = a_sp s MODE_SYS, ar_lr = a_lr s MODE_SYS, ar_psr = a_cpsr s, ar_r = map (a_r s) [0..<13],
       ar_pc = resume_at k (a_pc s)\<rparr> \<and>
    a_r (enter k ks sz s) 1 = trap_type k \<and>
    a_sp (enter k ks sz s) MODE_SYS = (if a_cpsr s AND 0x1F = 0x10 then ks + sz else a_sp s MODE_SYS) \<and>
    (\<exists>s' w'. arm_handle_trap say (a_r (enter k ks sz s) 0) (a_r (enter k ks sz s) 1) (enter k ks sz s) w = Ret (s', w') \<and>
       a_pc s' = resume_at k (a_pc s) \<and> a_cpsr s' = a_cpsr s \<and> (\<forall>i<13. a_r s' i = a_r s i) \<and>
       a_sp s' MODE_SYS = a_sp s MODE_SYS \<and> a_lr s' MODE_SYS = a_lr s MODE_SYS \<and>
       a_sp s' (trap_mode k) = a_sp s (trap_mode k))"
proof -
  let ?e = "enter k ks sz s"
  note e = enter_state[OF refl, of k ks sz s]
  note f = saved_frame[OF e(1)]
  obtain w' where w': "say_lines say (dump_lines (a_r ?e 1) (arm_regs_at (a_mem ?e) (a_r ?e 0))) w = Ret w'"
    using say_lines_Ret[of say] say by blast
  have "arm_handle_trap say (a_r ?e 0) (a_r ?e 1) ?e w = Ret (arm_trap_return (a_r ?e 0) ?e, w')"
    using w' by (simp add: arm_handle_trap_def)
  moreover have "ldm (a_r ?e 0 + 12) 14 (a_mem ?e) ! i = a_r s i" if "i < 13" for i
    using that by (simp only: e(2) f(6)) (simp add: nth_append)
  moreover have "ldm (a_r ?e 0 + 12) 14 (a_mem ?e) ! 13 = resume_at k (a_pc s)"
    by (simp only: e(2) f(6)) (simp add: nth_append)
  ultimately show ?thesis using assms(1) f(1-5) e(2-5)
    by (auto simp: arm_regs_at_def trap_return_state unprivileged_or_system_def)
qed

definition example_arm :: arm where
  "example_arm = \<lparr>a_r = of_nat, a_sp = (\<lambda>m. 0x1000 * m), a_lr = (\<lambda>m. m), a_spsr = (\<lambda>m. 0), a_cpsr = 0x10, a_pc = 0x8000,
     a_mem = (\<lambda>a. 0), a_vbar = 0\<rparr>"

theorem arm_trap_round_trip_witness:
  "unprivileged_or_system example_arm \<and> ar_pc (arm_regs_at (a_mem (enter Irq 0x80000000 0x1000 example_arm)) 0x11FBC) = 0x8004"
  using arm_trap_round_trip[of example_arm "\<lambda>f a (w :: unit). Ret w" Irq "0x80000000" "0x1000" "()"]
    enter_state(2)[OF refl, of Irq "0x80000000" "0x1000" example_arm]
  by (simp add: unprivileged_or_system_def example_arm_def resume_at_def)

lemma arm_init_mode_Ret:
  assumes "arm_init_mode kmalloc say psr name (s, w) = Ret (s', w')"
  obtains p w1 where "kmalloc sizeof_arm_regs 0 w = Ret (p, w1)" "p \<noteq> 0" "a_sp s' = (a_sp s)(bank psr := p + sizeof_arm_regs)"
    "a_vbar s' = a_vbar s" "bank (a_cpsr s') = MODE_SYS"
  using assms by (auto simp: arm_init_mode_def obind_Ret_conv Let_def bank_def[of "0xDF"] MODE_SYS_def split: if_splits intro!: that)

text \<open>The storage a mode got: a result of \<open>kmalloc\<close> that is not null, with the stack pointer past its end.\<close>

definition has_context :: "(u32 \<Rightarrow> u32 \<Rightarrow> 's \<Rightarrow> (u32 \<times> 's) outcome) \<Rightarrow> u32 \<Rightarrow> bool" where
  "has_context kmalloc sp \<longleftrightarrow> (\<exists>p w w'. kmalloc sizeof_arm_regs 0 w = Ret (p, w') \<and> p \<noteq> 0 \<and> sp = p + sizeof_arm_regs)"

lemma bank_values: "bank 0xD1 = 0x11" "bank 0xD3 = 0x13" "bank 0xD7 = 0x17" "bank 0xDB = 0x1B"
  by (simp_all add: bank_def)

text \<open>
  C22: When \<open>trap_init\<close> returns, the vector is installed, the processor is in system mode, and the modes of
  fast interrupts (0x11), system calls, aborts and undefined instructions have storage for one
  \<open>struct regs\<close> below their stack pointer; every other stack pointer is as before, that of interrupts
  (0x12) included. Without memory for the first of them it panics.
\<close>

theorem arm_trap_init_stacks:
  fixes s :: arm
  shows "(arm_trap_init kmalloc say v (s, w) = Ret (s', w') \<longrightarrow>
      a_vbar s' = v \<and> bank (a_cpsr s') = MODE_SYS \<and>
      has_context kmalloc (a_sp s' 0x11) \<and> has_context kmalloc (a_sp s' 0x13) \<and>
      has_context kmalloc (a_sp s' 0x17) \<and> has_context kmalloc (a_sp s' 0x1B) \<and>
      (\<forall>m. m \<notin> {0x11, 0x13, 0x17, 0x1B} \<longrightarrow> a_sp s' m = a_sp s m)) \<and>
    (kmalloc sizeof_arm_regs 0 w = Ret (0, w1) \<longrightarrow> arm_trap_init kmalloc say v (s, w) = Panic)"
proof (intro conjI[where P = "_ \<longrightarrow> _"] impI)
  assume "arm_trap_init kmalloc say v (s, w) = Ret (s', w')"
  then obtain s1 w1 s2 w2 s3 w3 where
    i: "arm_init_mode kmalloc say 0xD1 ''IRQ'' (s\<lparr>a_vbar := v\<rparr>, w) = Ret (s1, w1)"
      "arm_init_mode kmalloc say 0xD3 ''SVC'' (s1, w1) = Ret (s2, w2)"
      "arm_init_mode kmalloc say 0xD7 ''ABT'' (s2, w2) = Ret (s3, w3)"
      "arm_init_mode kmalloc say 0xDB ''UNDEF'' (s3, w3) = Ret (s', w')"
    by (auto simp: arm_trap_init_def obind_Ret_conv)
  show "a_vbar s' = v \<and> bank (a_cpsr s') = MODE_SYS \<and>
      has_context kmalloc (a_sp s' 0x11) \<and> has_context kmalloc (a_sp s' 0x13) \<and>
      has_context kmalloc (a_sp s' 0x17) \<and> has_context kmalloc (a_sp s' 0x1B) \<and>
      (\<forall>m. m \<notin> {0x11, 0x13, 0x17, 0x1B} \<longrightarrow> a_sp s' m = a_sp s m)"
    by (rule arm_init_mode_Ret[OF i(1)], rule arm_init_mode_Ret[OF i(2)], rule arm_init_mode_Ret[OF i(3)], rule arm_init_mode_Ret[OF i(4)])
      (simp add: bank_values, auto simp: has_context_def)
next
  assume "kmalloc sizeof_arm_regs 0 w = Ret (0, w1)"
  then show "arm_trap_init kmalloc say v (s, w) = Panic" by (simp add: arm_trap_init_def arm_init_mode_def)
qed

theorem arm_trap_init_stacks_witness:
  "\<exists>s' w'. arm_trap_init (\<lambda>n f w. Ret (w, w + n)) (\<lambda>f a w. Ret w) 0x80000000 (example_arm, 0x9000) = Ret (s', w') \<and>
     a_sp s' 0x12 = 0x12000 \<and> a_vbar s' = 0x80000000"
proof -
  obtain s' w' where r: "arm_trap_init (\<lambda>n f w. Ret (w, w + n)) (\<lambda>f a w. Ret w) 0x80000000 (example_arm, 0x9000) = Ret (s', w')"
    by (simp add: arm_trap_init_def arm_init_mode_def sizeof_arm_regs_def Let_def)
  show ?thesis
    using arm_trap_init_stacks[of "\<lambda>n f w. Ret (w, w + n)" "\<lambda>f a w. Ret w" "0x80000000" example_arm "0x9000" s' w' 0] r
    by (auto simp: example_arm_def)
qed

end
