(* ===== verification/MipsTrap.thy ===== *)
theory MipsTrap
  imports Console Libc
begin

text \<open>
  Traps of 32-bit MIPS: the macros of \<open>include/arch/mips/stack.h\<close>, the entry and exit of
  \<open>kern/arch/mips/trapentry.S\<close>, and \<open>kern/arch/mips/trap.c\<close>. The processor is a record of its registers;
  memory is a store of words.
\<close>

section \<open>The machine\<close>

record mips =
  m_gpr :: "nat \<Rightarrow> u32"
  m_lo :: u32
  m_hi :: u32
  m_status :: u32
  m_cause :: u32
  m_epc :: u32
  m_badvaddr :: u32
  m_pc :: u32
  m_mem :: "u32 \<Rightarrow> u32"

text \<open>Register 0 reads as 0.\<close>

definition gpr :: "mips \<Rightarrow> nat \<Rightarrow> u32" where
  "gpr s r = (if r = 0 then 0 else m_gpr s r)"

definition set_gpr :: "nat \<Rightarrow> u32 \<Rightarrow> mips \<Rightarrow> mips" where
  "set_gpr r v s = s\<lparr>m_gpr := (m_gpr s)(r := v)\<rparr>"

definition k0 :: nat where "k0 = 26"
definition k1 :: nat where "k1 = 27"
definition gp :: nat where "gp = 28"
definition sp :: nat where "sp = 29"
definition s8 :: nat where "s8 = 30"
definition ra :: nat where "ra = 31"

definition ST_KSU :: u32 where "ST_KSU = 0x18"
definition ST_EXCM :: u32 where "ST_EXCM = 0x1f"
definition ST_IM :: u32 where "ST_IM = 0xff00"
definition ST_BEV :: u32 where "ST_BEV = 0x400000"

section \<open>The macros\<close>

definition PUSH_value :: "u32 \<Rightarrow> mips \<Rightarrow> mips" where
  "PUSH_value v s = (let a = gpr s sp - 4 in (set_gpr sp a s)\<lparr>m_mem := (m_mem s)(a := v)\<rparr>)"

definition PUSH :: "nat \<Rightarrow> mips \<Rightarrow> mips" where
  "PUSH r s = PUSH_value (gpr s r) s"

definition POP :: "nat \<Rightarrow> mips \<Rightarrow> mips" where
  "POP r s = (let s' = set_gpr r (m_mem s (gpr s sp)) s in set_gpr sp (gpr s' sp + 4) s')"

definition PUSHSTATIC :: "mips \<Rightarrow> mips" where
  "PUSHSTATIC = fold PUSH [23, 22, 21, 20, 19, 18, 17, 16]"

definition POPSTATIC :: "mips \<Rightarrow> mips" where
  "POPSTATIC = fold POP [16, 17, 18, 19, 20, 21, 22, 23]"

definition PUSHTEMP :: "mips \<Rightarrow> mips" where
  "PUSHTEMP = fold PUSH [15, 14, 13, 12, 11, 10, 9, 8]"

definition POPTEMP :: "mips \<Rightarrow> mips" where
  "POPTEMP = fold POP [8, 9, 10, 11, 12, 13, 14, 15]"

definition PUSHARGS :: "mips \<Rightarrow> mips" where
  "PUSHARGS = fold PUSH [7, 6, 5, 4, 3, 2, 1, 0]"

text \<open>The saved zero is popped into the register of the assembler and overwritten.\<close>

definition POPARGS :: "mips \<Rightarrow> mips" where
  "POPARGS = fold POP [1, 1, 2, 3, 4, 5, 6, 7]"

definition PUSHAL :: "mips \<Rightarrow> mips" where
  "PUSHAL s = PUSHARGS (PUSHTEMP (PUSHSTATIC s))"

definition POPAL :: "mips \<Rightarrow> mips" where
  "POPAL s = POPSTATIC (POPTEMP (POPARGS s))"

definition PUSHCOPR :: "nat \<Rightarrow> mips \<Rightarrow> mips" where
  "PUSHCOPR r s =
     fold (\<lambda>v s. PUSH r (set_gpr r v s)) [m_badvaddr s, m_epc s, m_cause s, m_status s, m_hi s, m_lo s] s"

definition POPCOPR :: "nat \<Rightarrow> mips \<Rightarrow> mips" where
  "POPCOPR r s =
     (let s = POP r s; s = s\<lparr>m_lo := gpr s r\<rparr>; s = POP r s; s = s\<lparr>m_hi := gpr s r\<rparr>; s = POP r s; s = s\<lparr>m_status := gpr s r\<rparr>;
          s = POP r s; s = s\<lparr>m_cause := gpr s r\<rparr>; s = POP r s; s = s\<lparr>m_epc := gpr s r\<rparr>
      in POP r s)"

text \<open>\<open>get_saved_sp\<close>, with the number of the processor and the address of the array.\<close>

definition get_saved_sp :: "nat \<Rightarrow> nat \<Rightarrow> u32 \<Rightarrow> u32 \<Rightarrow> mips \<Rightarrow> mips" where
  "get_saved_sp reg temp cpuid kernelsp s =
     (let s = set_gpr temp (push_bit 2 cpuid) s in set_gpr reg (m_mem s (kernelsp + gpr s temp)) s)"

definition set_saved_sp :: "nat \<Rightarrow> nat \<Rightarrow> nat \<Rightarrow> u32 \<Rightarrow> u32 \<Rightarrow> mips \<Rightarrow> mips" where
  "set_saved_sp stackp temp temp2 cpuid kernelsp s =
     (let s = set_gpr temp (push_bit 2 cpuid) s; s = set_gpr temp2 (kernelsp + gpr s temp) s
      in s\<lparr>m_mem := (m_mem s)(gpr s temp2 := gpr s stackp)\<rparr>)"

section \<open>Entry and exit\<close>

text \<open>The numbers that the build supplies: the slots for \<open>gp\<close>, the kernel's \<open>gp\<close>, the array of stack pointers.\<close>

record mips_layout =
  gp_slot_base :: u32
  kernel_gp :: u32
  kernelsp :: u32
  entry_addr :: u32

definition generic_exception_entry :: "mips_layout \<Rightarrow> u32 \<Rightarrow> mips \<Rightarrow> mips" where
  "generic_exception_entry l cpuid s =
     (let s = set_gpr k0 cpuid s;
          s = set_gpr k1 (gp_slot_base l) s;
          s = set_gpr k0 (push_bit 2 (gpr s k0)) s;
          s = set_gpr k0 (gpr s k0 + gpr s k1) s;
          s = s\<lparr>m_mem := (m_mem s)(gpr s k0 := gpr s gp)\<rparr>;
          s = set_gpr gp (kernel_gp l) s
      in set_gpr k0 (entry_addr l) s)"

text \<open>
  \<open>__generic_exception_entry\<close> in three parts: the choice of the stack, with the old stack pointer in
  \<open>k1\<close>; saving the registers, with the old \<open>gp\<close> read back from its slot; and leaving the exception
  level. The result is the state at the call of \<open>trap_handler\<close> and the argument of the call.
\<close>

definition switch_stack :: "mips_layout \<Rightarrow> u32 \<Rightarrow> mips \<Rightarrow> mips" where
  "switch_stack l cpuid s =
     (let s = set_gpr k0 (m_status s AND ST_KSU) s;
          s = set_gpr k1 (gpr s sp) s
      in if gpr s k0 = 0 then s else get_saved_sp sp k0 cpuid (kernelsp l) s)"

definition load_saved_gp :: "mips_layout \<Rightarrow> u32 \<Rightarrow> mips \<Rightarrow> mips" where
  "load_saved_gp l cpuid s =
     (let s = set_gpr k0 cpuid s;
          s = set_gpr k1 (gp_slot_base l) s;
          s = set_gpr k0 (push_bit 2 (gpr s k0)) s;
          s = set_gpr k0 (gpr s k0 + gpr s k1) s
      in set_gpr k0 (m_mem s (gpr s k0)) s)"

definition save_registers :: "mips_layout \<Rightarrow> u32 \<Rightarrow> mips \<Rightarrow> mips" where
  "save_registers l cpuid s =
     (let s = fold PUSH [ra, s8, k1] (PUSHCOPR k0 s);
          s = load_saved_gp l cpuid s
      in PUSHAL (fold PUSH [k0, k1, k0, 25, 24] s))"

definition generic_exception_body :: "mips_layout \<Rightarrow> u32 \<Rightarrow> mips \<Rightarrow> mips \<times> u32" where
  "generic_exception_body l cpuid s =
     (let s = save_registers l cpuid (switch_stack l cpuid s);
          s = set_gpr k0 (m_status s) s;
          s = set_gpr k0 (gpr s k0 OR ST_EXCM) s;
          s = set_gpr k0 (gpr s k0 XOR ST_EXCM) s;
          s = s\<lparr>m_status := gpr s k0\<rparr>;
          s = set_gpr 4 (gpr s sp) s
      in (set_gpr sp (gpr s sp - 16) s, gpr s 4))"

text \<open>The return from an exception leaves the exception level, or the error level if it is set.\<close>

definition eret :: "mips \<Rightarrow> mips" where
  "eret s = (if bit (m_status s) 2 then s else s\<lparr>m_pc := m_epc s, m_status := m_status s AND NOT 2\<rparr>)"

definition trap_exit :: "u32 \<Rightarrow> mips \<Rightarrow> mips" where
  "trap_exit regs s =
     (let s = set_gpr 4 regs s;
          s = set_gpr sp (gpr s 4) s;
          s = POPAL s;
          s = fold POP [24, 25, k0, k1, gp, k0, s8, ra] s;
          s = POPCOPR k1 s;
          s = set_gpr sp (gpr s k0) s
      in eret s)"

section \<open>The handler\<close>

record mips_regs =
  r_gpr :: "u32 list"
  r_lo :: u32
  r_hi :: u32
  r_status :: u32
  r_cause :: u32
  r_epc :: u32
  r_badvaddr :: u32

definition mips_regs_at :: "(u32 \<Rightarrow> u32) \<Rightarrow> u32 \<Rightarrow> mips_regs" where
  "mips_regs_at m a =
     \<lparr>r_gpr = map (\<lambda>i. m (a + 4 * of_nat i)) [0..<32], r_lo = m (a + 128), r_hi = m (a + 132), r_status = m (a + 136), r_cause = m (a + 140),
      r_epc = m (a + 144), r_badvaddr = m (a + 148)\<rparr>"

definition mips_trap_return :: "u32 \<Rightarrow> mips \<Rightarrow> mips" where
  "mips_trap_return regs s =
     (let status = m_status s;
          im = status AND ST_IM;
          status = status AND NOT ST_EXCM;
          s = s\<lparr>m_status := status\<rparr>;
          s = s\<lparr>m_mem := (m_mem s)(regs + 136 := (m_mem s (regs + 136) AND NOT ST_IM) OR im)\<rparr>
      in trap_exit regs s)"

definition dump_regs :: "(string \<Rightarrow> arg list \<Rightarrow> 's \<Rightarrow> 's outcome) \<Rightarrow> mips_regs \<Rightarrow> 's \<Rightarrow> 's outcome" where
  "dump_regs say r =
     say_lines say (map (\<lambda>(name, v). (name @ [CHR 0x09] @ ''%016x'', v))
       (zip [''zero'', ''at'', ''v0'', ''v1'', ''a0'', ''a1'', ''a2'', ''a3'', ''t0'', ''t1'', ''t2'', ''t3'', ''t4'', ''t5'', ''t6'', ''t7'',
          ''s0'', ''s1'', ''s2'', ''s3'', ''s4'', ''s5'', ''s6'', ''s7'', ''t8'', ''t9''] (take 26 (r_gpr r)) @
        zip [''gp'', ''sp'', ''s8'', ''ra''] (drop 28 (r_gpr r)) @
        [(''LO'', r_lo r), (''HI'', r_hi r), (''STATUS'', r_status r), (''CAUSE'', r_cause r), (''EPC'', r_epc r), (''BVA'', r_badvaddr r)]))"

text \<open>The call of \<open>trap_return\<close> comes after a call of \<open>panic\<close>.\<close>

definition mips_trap_handler :: "(string \<Rightarrow> arg list \<Rightarrow> 's \<Rightarrow> 's outcome) \<Rightarrow> u32 \<Rightarrow> mips \<Rightarrow> 's \<Rightarrow> (mips \<times> 's) outcome" where
  "mips_trap_handler say regs s w = obind (dump_regs say (mips_regs_at (m_mem s) regs) w) (\<lambda>w. Panic)"

section \<open>Initialisation\<close>

definition TLB_REFILL_ENTRY :: u32 where "TLB_REFILL_ENTRY = 0x80000000"
definition GENERIC_EXCEPT_ENTRY :: u32 where "GENERIC_EXCEPT_ENTRY = 0x80000180"

definition mips_trap_init :: "u32 \<Rightarrow> u32 \<Rightarrow> u32 \<times> bytes \<Rightarrow> u32 \<times> bytes" where
  "mips_trap_init generic_entry tlb_entry s =
     (case s of (status, mem) \<Rightarrow>
        let mem = memcpy GENERIC_EXCEPT_ENTRY generic_entry 0x80 mem;
            mem = memcpy TLB_REFILL_ENTRY tlb_entry 0x80 mem
        in (status AND NOT ST_BEV, mem))"

section \<open>Pushing and popping\<close>

primrec pushed :: "u32 \<Rightarrow> u32 list \<Rightarrow> (u32 \<Rightarrow> u32) \<Rightarrow> u32 \<Rightarrow> u32" where
  "pushed a [] m = m"
| "pushed a (v # vs) m = pushed (a - 4) vs (m(a - 4 := v))"

lemma pushed_append: "pushed a (xs @ ys) m = pushed (a - 4 * of_nat (length xs)) ys (pushed a xs m)"
  by (induction xs arbitrary: a m) (simp_all add: algebra_simps)

lemma pushed_other: "(\<And>i. i < length vs \<Longrightarrow> x \<noteq> a - 4 * of_nat (Suc i)) \<Longrightarrow> pushed a vs m x = m x"
proof (induction vs arbitrary: a m)
  case (Cons v vs)
  have "x \<noteq> a - 4" using Cons.prems [of 0] by simp
  moreover have "x \<noteq> a - 4 - 4 * of_nat (Suc i)" if "i < length vs" for i
    using Cons.prems [of "Suc i"] that by (simp add: algebra_simps)
  ultimately have "pushed (a - 4) vs (m(a - 4 := v)) x = (m(a - 4 := v)) x" by (intro Cons.IH)
  with \<open>x \<noteq> a - 4\<close> show ?case by (simp add: fun_upd_other del: fun_upd_apply)
qed simp

lemma word_offset_inj: "4 * of_nat i = (4 * of_nat j :: u32) \<Longrightarrow> i < 2 ^ 30 \<Longrightarrow> j < 2 ^ 30 \<Longrightarrow> i = j"
proof -
  assume e: "4 * of_nat i = (4 * of_nat j :: u32)" and b: "i < 2 ^ 30" "j < 2 ^ 30"
  have "unat (of_nat (4 * i) :: u32) = unat (of_nat (4 * j) :: u32)" using e by simp
  then show "i = j" using b by (simp add: unat_of_nat take_bit_eq_mod del: of_nat_mult)
qed

lemma pushed_nth: "i < length vs \<Longrightarrow> length vs < 2 ^ 30 \<Longrightarrow> pushed a vs m (a - 4 * of_nat (Suc i)) = vs ! i"
proof (induction vs arbitrary: a m i)
  case (Cons v vs)
  show ?case
  proof (cases i)
    case 0
    have "a - 4 \<noteq> a - 4 - 4 * of_nat (Suc j)" if "j < length vs" for j
    proof
      assume "a - 4 = a - 4 - 4 * of_nat (Suc j)"
      then have "4 * of_nat (Suc j) = (4 * of_nat 0 :: u32)" by (simp only: diff_eq_eq) (simp del: of_nat_Suc)
      then show False using word_offset_inj [of "Suc j" 0] that Cons.prems(2) by simp
    qed
    then have "pushed (a - 4) vs (m(a - 4 := v)) (a - 4) = (m(a - 4 := v)) (a - 4)" by (intro pushed_other)
    then show ?thesis using 0 by simp
  next
    case (Suc k)
    have "a - 4 * of_nat (Suc i) = a - 4 - 4 * of_nat (Suc k)" using Suc by (simp add: algebra_simps)
    moreover have "pushed (a - 4) vs (m(a - 4 := v)) (a - 4 - 4 * of_nat (Suc k)) = vs ! k"
      using Suc Cons.prems by (intro Cons.IH) simp_all
    ultimately show ?thesis using Suc by (simp only: pushed.simps nth_Cons_Suc)
  qed
qed simp

text \<open>The words from the last one pushed upwards.\<close>

lemma pushed_up:
  assumes "j < length vs" "length vs < 2 ^ 30" "t = a - 4 * of_nat (length vs)"
  shows "pushed a vs m (t + 4 * of_nat j) = rev vs ! j"
proof -
  have "t + 4 * of_nat j = a - 4 * of_nat (Suc (length vs - Suc j))" using assms(1,3) by (simp add: of_nat_diff algebra_simps)
  moreover have "pushed a vs m (a - 4 * of_nat (Suc (length vs - Suc j))) = vs ! (length vs - Suc j)"
    using assms(1,2) by (intro pushed_nth) simp_all
  ultimately show ?thesis using assms(1) by (simp only: rev_nth)
qed

lemma sp_not_0 [simp]: "sp \<noteq> 0" "0 \<noteq> sp"
  by (simp_all add: sp_def)

lemma PUSH_eq:
  assumes "r \<noteq> sp"
  shows "PUSH r s = s\<lparr>m_gpr := (m_gpr s)(sp := m_gpr s sp - 4), m_mem := (m_mem s)(m_gpr s sp - 4 := gpr s r)\<rparr>"
  by (simp add: PUSH_def PUSH_value_def set_gpr_def gpr_def Let_def)

lemma fold_PUSH:
  assumes "sp \<notin> set rs"
  shows "fold PUSH rs s = s\<lparr>m_gpr := (m_gpr s)(sp := m_gpr s sp - 4 * of_nat (length rs)),
    m_mem := pushed (m_gpr s sp) (map (gpr s) rs) (m_mem s)\<rparr>"
  using assms
proof (induction rs arbitrary: s)
  case (Cons r rs)
  then have r: "r \<noteq> sp" "sp \<notin> set rs" by auto
  have m: "map (gpr (PUSH r s)) rs = map (gpr s) rs" using r by (auto simp: PUSH_eq gpr_def)
  show ?case unfolding fold_simps comp_def Cons.IH [OF r(2), of "PUSH r s"] m unfolding PUSH_eq [OF r(1)]
    by (simp add: algebra_simps fun_upd_same del: fun_upd_apply)
qed simp

lemma PUSHCOPR_eq:
  assumes "r \<noteq> sp" "r \<noteq> 0"
  shows "PUSHCOPR r s = s\<lparr>m_gpr := (m_gpr s)(r := m_lo s, sp := m_gpr s sp - 24),
    m_mem := pushed (m_gpr s sp) [m_badvaddr s, m_epc s, m_cause s, m_status s, m_hi s, m_lo s] (m_mem s)\<rparr>"
proof -
  have one: "PUSH r (set_gpr r v s) = s\<lparr>m_gpr := (m_gpr s)(r := v, sp := m_gpr s sp - 4), m_mem := (m_mem s)(m_gpr s sp - 4 := v)\<rparr>" for v s
    using assms by (simp add: PUSH_def PUSH_value_def set_gpr_def gpr_def Let_def)
  show ?thesis by (simp add: PUSHCOPR_def one fun_upd_twist [OF assms(1) [symmetric]] fun_upd_same del: fun_upd_apply)
qed

primrec loads :: "nat list \<Rightarrow> u32 \<Rightarrow> (u32 \<Rightarrow> u32) \<Rightarrow> (nat \<Rightarrow> u32) \<Rightarrow> nat \<Rightarrow> u32" where
  "loads [] a m g = g"
| "loads (r # rs) a m g = loads rs (a + 4) m (g(r := m a))"

lemma loads_other: "r \<notin> set rs \<Longrightarrow> loads rs a m g r = g r"
  by (induction rs arbitrary: a g) simp_all

lemma loads_append: "loads (rs @ qs) a m g = loads qs (a + 4 * of_nat (length rs)) m (loads rs a m g)"
  by (induction rs arbitrary: a g) (simp_all add: algebra_simps)

lemma loads_last: "i < length rs \<Longrightarrow> rs ! i \<notin> set (drop (Suc i) rs) \<Longrightarrow> loads rs a m g (rs ! i) = m (a + 4 * of_nat i)"
proof (induction rs arbitrary: a g i)
  case (Cons r rs)
  show ?case
  proof (cases i)
    case 0
    then show ?thesis using Cons.prems loads_other [of r rs] by simp
  next
    case (Suc k)
    then show ?thesis using Cons.IH [of k "a + 4" "g(r := m a)"] Cons.prems by (simp add: algebra_simps del: fun_upd_apply)
  qed
qed simp

lemma loads_upd: "r \<notin> set rs \<Longrightarrow> (loads rs a m g)(r := x) = loads rs a m (g(r := x))"
proof (induction rs arbitrary: a g)
  case (Cons q rs)
  then have "g(q := m a, r := x) = g(r := x, q := m a)" by (intro fun_upd_twist) auto
  moreover have "(loads rs (a + 4) m (g(q := m a)))(r := x) = loads rs (a + 4) m (g(q := m a, r := x))"
    using Cons.prems by (intro Cons.IH) simp
  ultimately show ?case by (simp only: loads.simps)
qed simp

lemma POP_eq:
  assumes "r \<noteq> sp"
  shows "POP r s = s\<lparr>m_gpr := (m_gpr s)(r := m_mem s (m_gpr s sp), sp := m_gpr s sp + 4)\<rparr>"
  using assms by (simp add: POP_def set_gpr_def gpr_def Let_def)

lemma fold_POP:
  assumes "sp \<notin> set rs"
  shows "fold POP rs s = s\<lparr>m_gpr := (loads rs (m_gpr s sp) (m_mem s) (m_gpr s))(sp := m_gpr s sp + 4 * of_nat (length rs))\<rparr>"
  using assms
proof (induction rs arbitrary: s)
  case (Cons r rs)
  then have r: "r \<noteq> sp" "sp \<notin> set rs" by auto
  let ?g = "(m_gpr s)(r := m_mem s (m_gpr s sp))"
  have p: "POP r s = s\<lparr>m_gpr := ?g(sp := m_gpr s sp + 4)\<rparr>" using r(1) by (rule POP_eq)
  have "(loads rs (m_gpr s sp + 4) (m_mem s) (?g(sp := m_gpr s sp + 4)))(sp := x) = (loads rs (m_gpr s sp + 4) (m_mem s) ?g)(sp := x)" for x
    unfolding loads_upd [OF r(2)] by simp
  then show ?case unfolding fold_simps comp_def Cons.IH [OF r(2), of "POP r s"] unfolding p
    by (simp add: algebra_simps fun_upd_same del: fun_upd_apply)
qed simp

lemma POPCOPR_eq:
  assumes "r \<noteq> sp" "r \<noteq> 0" "a = m_gpr s sp"
  shows "POPCOPR r s = s\<lparr>m_lo := m_mem s a, m_hi := m_mem s (a + 4), m_status := m_mem s (a + 8), m_cause := m_mem s (a + 12),
    m_epc := m_mem s (a + 16), m_gpr := (m_gpr s)(r := m_mem s (a + 20), sp := a + 24)\<rparr>"
  using assms by (simp add: POPCOPR_def POP_eq gpr_def Let_def fun_upd_twist [OF assms(1) [symmetric]] fun_upd_same fun_upd_other add.assoc
      del: fun_upd_apply)

section \<open>The frame\<close>

lemmas register_numbers = k0_def k1_def gp_def sp_def s8_def ra_def

lemma distinct_numbers:
  "ra \<noteq> 0" "s8 \<noteq> 0" "k1 \<noteq> 0" "k0 \<noteq> 0" "ra \<noteq> sp" "s8 \<noteq> sp" "k1 \<noteq> sp" "k0 \<noteq> sp" "sp \<noteq> k0" "ra \<noteq> k0" "s8 \<noteq> k0" "k1 \<noteq> k0"
  by (simp_all add: register_numbers)

lemma generic_exception_entry_eq:
  "generic_exception_entry l cpuid s = s\<lparr>m_gpr := (m_gpr s)(k1 := gp_slot_base l, gp := kernel_gp l, k0 := entry_addr l),
     m_mem := (m_mem s)(push_bit 2 cpuid + gp_slot_base l := m_gpr s gp)\<rparr>"
  by (simp add: generic_exception_entry_def set_gpr_def gpr_def register_numbers Let_def fun_upd_twist)

lemma switch_stack_eq:
  "\<exists>x. switch_stack l cpuid s = s\<lparr>m_gpr := (m_gpr s)(k0 := x, k1 := m_gpr s sp,
     sp := (if m_status s AND ST_KSU = 0 then m_gpr s sp else m_mem s (kernelsp l + push_bit 2 cpuid)))\<rparr>"
proof (cases "m_status s AND ST_KSU = 0")
  case True
  have "(m_gpr s)(k0 := 0, k1 := m_gpr s sp) = (m_gpr s)(k0 := 0, k1 := m_gpr s sp, sp := m_gpr s sp)"
    by (rule ext) (simp add: register_numbers)
  then show ?thesis using True
    by (intro exI [of _ 0]) (simp add: switch_stack_def set_gpr_def gpr_def register_numbers Let_def del: fun_upd_apply add: fun_upd_same fun_upd_other)
next
  case False
  then show ?thesis
    by (intro exI [of _ "push_bit 2 cpuid"])
      (simp add: switch_stack_def get_saved_sp_def set_gpr_def gpr_def register_numbers Let_def fun_upd_twist)
qed

definition ALL_REGS :: "nat list" where
  "ALL_REGS = [23, 22, 21, 20, 19, 18, 17, 16, 15, 14, 13, 12, 11, 10, 9, 8, 7, 6, 5, 4, 3, 2, 1, 0]"

lemma PUSHAL_eq:
  "PUSHAL s = s\<lparr>m_gpr := (m_gpr s)(sp := m_gpr s sp - 96), m_mem := pushed (m_gpr s sp) (map (gpr s) ALL_REGS) (m_mem s)\<rparr>"
proof -
  have "PUSHAL s = fold PUSH ALL_REGS s"
    by (simp add: PUSHAL_def PUSHSTATIC_def PUSHTEMP_def PUSHARGS_def ALL_REGS_def)
  moreover have "sp \<notin> set ALL_REGS" "length ALL_REGS = 24" by (simp_all add: ALL_REGS_def sp_def)
  ultimately show ?thesis by (simp add: fold_PUSH)
qed

text \<open>What is pushed, from the first word on; \<open>og\<close> is the word in the slot of \<open>gp\<close>.\<close>

definition frame_words :: "mips_layout \<Rightarrow> u32 \<Rightarrow> mips \<Rightarrow> u32 list" where
  "frame_words l og s =
     [m_badvaddr s, m_epc s, m_cause s, m_status s, m_hi s, m_lo s] @ [m_gpr s ra, m_gpr s s8, m_gpr s k1] @
     [og, gp_slot_base l, og, m_gpr s 25, m_gpr s 24] @ map (gpr s) ALL_REGS"

lemma PUSHCOPR_k0:
  "m_mem (PUSHCOPR k0 s) = pushed (m_gpr s sp) [m_badvaddr s, m_epc s, m_cause s, m_status s, m_hi s, m_lo s] (m_mem s)"
  "m_gpr (PUSHCOPR k0 s) = (m_gpr s)(k0 := m_lo s, sp := m_gpr s sp - 24)" "m_status (PUSHCOPR k0 s) = m_status s"
  using PUSHCOPR_eq [of k0 s] by (simp_all add: register_numbers)

lemma fold_PUSH_sel:
  assumes "sp \<notin> set rs"
  shows "m_mem (fold PUSH rs s) = pushed (m_gpr s sp) (map (gpr s) rs) (m_mem s)"
    "m_gpr (fold PUSH rs s) = (m_gpr s)(sp := m_gpr s sp - 4 * of_nat (length rs))" "m_status (fold PUSH rs s) = m_status s"
  using fold_PUSH [OF assms] by simp_all

lemma load_saved_gp_sel:
  "m_mem (load_saved_gp l cpuid s) = m_mem s" "m_status (load_saved_gp l cpuid s) = m_status s"
  "m_gpr (load_saved_gp l cpuid s) = (m_gpr s)(k1 := gp_slot_base l, k0 := m_mem s (push_bit 2 cpuid + gp_slot_base l))"
  by (simp_all add: load_saved_gp_def set_gpr_def gpr_def register_numbers Let_def fun_upd_twist)

lemma save_registers_mem:
  assumes slot: "\<And>i. i < 38 \<Longrightarrow> push_bit 2 cpuid + gp_slot_base l \<noteq> m_gpr s sp - 4 * of_nat (Suc i)"
    and og: "og = m_mem s (push_bit 2 cpuid + gp_slot_base l)"
  shows "m_mem (save_registers l cpuid s) = pushed (m_gpr s sp) (frame_words l og s) (m_mem s)"
    and "m_gpr (save_registers l cpuid s) sp = m_gpr s sp - 152" and "m_status (save_registers l cpuid s) = m_status s"
proof -
  let ?copr = "[m_badvaddr s, m_epc s, m_cause s, m_status s, m_hi s, m_lo s]" and ?a = "m_gpr s sp"
  let ?top = "?copr @ [m_gpr s ra, m_gpr s s8, m_gpr s k1]"
  define s1 where "s1 = fold PUSH [ra, s8, k1] (PUSHCOPR k0 s)"
  define s2 where "s2 = load_saved_gp l cpuid s1"
  define s3 where "s3 = fold PUSH [k0, k1, k0, 25, 24] s2"
  have n: "sp \<notin> set [ra, s8, k1]" "sp \<notin> set [k0, k1, k0, 25, 24]" by (simp_all add: register_numbers)
  have s1: "m_mem s1 = pushed ?a ?top (m_mem s)" "m_gpr s1 = (m_gpr s)(k0 := m_lo s, sp := ?a - 36)" "m_status s1 = m_status s"
    unfolding s1_def fold_PUSH_sel [OF n(1)] pushed_append PUSHCOPR_k0
    by (simp_all add: gpr_def PUSHCOPR_k0(2) distinct_numbers del: pushed.simps)
  have "m_mem s1 (push_bit 2 cpuid + gp_slot_base l) = og"
    unfolding s1(1) og by (rule pushed_other, rule slot) simp
  then have s2: "m_mem s2 = m_mem s1" "m_gpr s2 = (m_gpr s1)(k1 := gp_slot_base l, k0 := og)" "m_status s2 = m_status s"
    unfolding s2_def load_saved_gp_sel by (simp_all add: s1(3))
  have s3: "m_mem s3 = pushed ?a (?top @ [og, gp_slot_base l, og, m_gpr s 25, m_gpr s 24]) (m_mem s)"
    "m_gpr s3 = (m_gpr s)(k0 := og, k1 := gp_slot_base l, sp := ?a - 56)" "m_status s3 = m_status s"
    unfolding s3_def fold_PUSH_sel [OF n(2)] pushed_append [of ?a ?top] s2 s1(1,2)
    by (simp_all add: gpr_def s1(2) s2(2) register_numbers fun_upd_twist del: pushed.simps)
  have sr: "save_registers l cpuid s = PUSHAL s3" by (simp only: save_registers_def Let_def s1_def s2_def s3_def)
  have al: "map (gpr s3) ALL_REGS = map (gpr s) ALL_REGS" by (simp add: ALL_REGS_def gpr_def s3(2) register_numbers)
  show "m_mem (save_registers l cpuid s) = pushed ?a (frame_words l og s) (m_mem s)"
    unfolding sr PUSHAL_eq al frame_words_def append_assoc [symmetric] pushed_append [of ?a "_ @ [og, gp_slot_base l, og, m_gpr s 25, m_gpr s 24]"]
    by (simp add: s3 del: pushed.simps)
  show "m_gpr (save_registers l cpuid s) sp = ?a - 152" "m_status (save_registers l cpuid s) = m_status s"
    by (simp_all add: sr PUSHAL_eq s3)
qed

text \<open>The registers in the order in which the way back pops them, and where each is found.\<close>

definition POP_REGS :: "nat list" where
  "POP_REGS = [1, 1, 2, 3, 4, 5, 6, 7, 8, 9, 10, 11, 12, 13, 14, 15, 16, 17, 18, 19, 20, 21, 22, 23, 24, 25, 26, 27, 28, 26, 30, 31]"

lemma POP_REGS_index:
  "list_all (\<lambda>r. POP_REGS ! r = r \<and> r \<notin> set (drop (Suc r) POP_REGS)) ([1..<26] @ [28, 30, 31])"
  "POP_REGS ! 29 = 26" "26 \<notin> set (drop (Suc 29) POP_REGS)" "length POP_REGS = 32" "29 \<notin> set POP_REGS"
  by code_simp+

lemma trap_exit_state:
  assumes m: "m = m_mem s" and erl: "\<not> bit (m (regs + 136)) 2"
  shows "r \<in> set ([1..<26] @ [28, 30, 31]) \<Longrightarrow> gpr (trap_exit regs s) r = m (regs + 4 * of_nat r)"
    and "gpr (trap_exit regs s) sp = m (regs + 116)" and "m_lo (trap_exit regs s) = m (regs + 128)"
    and "m_hi (trap_exit regs s) = m (regs + 132)" and "m_status (trap_exit regs s) = m (regs + 136) AND NOT 2"
    and "m_pc (trap_exit regs s) = m (regs + 144)"
proof -
  define s0 where "s0 = set_gpr sp regs (set_gpr 4 regs s)"
  define g where "g = loads POP_REGS regs m (m_gpr s0)"
  have s0: "m_gpr s0 sp = regs" "m_mem s0 = m" by (simp_all add: s0_def set_gpr_def m)
  have "fold POP [24, 25, k0, k1, gp, k0, s8, ra] (POPAL s0) = fold POP POP_REGS s0"
    by (simp add: POPAL_def POPARGS_def POPTEMP_def POPSTATIC_def POP_REGS_def register_numbers)
  also have "\<dots> = s0\<lparr>m_gpr := g(sp := regs + 128)\<rparr>"
    using POP_REGS_index(4,5) by (simp add: fold_POP [of POP_REGS] s0 g_def sp_def [symmetric])
  finally have p: "fold POP [24, 25, k0, k1, gp, k0, s8, ra] (POPAL s0) = s0\<lparr>m_gpr := g(sp := regs + 128)\<rparr>" .
  define s1 where "s1 = s0\<lparr>m_gpr := g(sp := regs + 128)\<rparr>"
  have "POPCOPR k1 s1 = s1\<lparr>m_lo := m (regs + 128), m_hi := m (regs + 132), m_status := m (regs + 136), m_cause := m (regs + 140),
      m_epc := m (regs + 144), m_gpr := g(k1 := m (regs + 148), sp := regs + 152)\<rparr>"
    using POPCOPR_eq [of k1 "regs + 128" s1] distinct_numbers by (simp add: s1_def s0(2) add.assoc fun_upd_twist [of sp k1] fun_upd_same del: fun_upd_apply)
  moreover have "trap_exit regs s = eret (set_gpr sp (gpr (POPCOPR k1 s1) k0) (POPCOPR k1 s1))"
    using p by (simp add: trap_exit_def Let_def s0_def s1_def gpr_def set_gpr_def)
  ultimately have e: "trap_exit regs s = s1\<lparr>m_lo := m (regs + 128), m_hi := m (regs + 132), m_status := m (regs + 136) AND NOT 2,
      m_cause := m (regs + 140), m_epc := m (regs + 144), m_gpr := g(k1 := m (regs + 148), sp := g k0), m_pc := m (regs + 144)\<rparr>"
    using erl distinct_numbers by (simp add: eret_def set_gpr_def gpr_def register_numbers)
  have "g k0 = m (regs + 116)"
    using loads_last [of 29 POP_REGS regs m "m_gpr s0"] POP_REGS_index(2-4) by (simp add: g_def k0_def)
  then show "gpr (trap_exit regs s) sp = m (regs + 116)" by (simp add: e gpr_def)
  show "gpr (trap_exit regs s) r = m (regs + 4 * of_nat r)" if "r \<in> set ([1..<26] @ [28, 30, 31])"
  proof -
    have r: "POP_REGS ! r = r" "r \<notin> set (drop (Suc r) POP_REGS)" using POP_REGS_index(1) that by (auto simp: list_all_iff)
    have "r < 32" "r \<noteq> 0" "r \<noteq> k1" "r \<noteq> sp" using that by (auto simp: register_numbers)
    then show ?thesis using loads_last [of r POP_REGS regs m "m_gpr s0"] r POP_REGS_index(4) by (simp add: e gpr_def g_def)
  qed
  show "m_lo (trap_exit regs s) = m (regs + 128)" "m_hi (trap_exit regs s) = m (regs + 132)"
    "m_status (trap_exit regs s) = m (regs + 136) AND NOT 2" "m_pc (trap_exit regs s) = m (regs + 144)"
    by (simp_all add: e)
qed

section \<open>The properties\<close>

text \<open>
  Taking an exception outside of the exception level: the level is set, and \<open>m_pc\<close>, the address to
  resume at, is kept.
\<close>

definition take_exception :: "u32 \<Rightarrow> u32 \<Rightarrow> mips \<Rightarrow> mips" where
  "take_exception cause va s =
     s\<lparr>m_status := m_status s OR 2, m_cause := cause, m_badvaddr := va, m_epc := m_pc s, m_pc := GENERIC_EXCEPT_ENTRY\<rparr>"

definition kernel_stack :: "mips_layout \<Rightarrow> u32 \<Rightarrow> mips \<Rightarrow> u32" where
  "kernel_stack l cpuid s = (if m_status s AND ST_KSU = 0 then gpr s sp else m_mem s (kernelsp l + push_bit 2 cpuid))"

definition mips_enter :: "mips_layout \<Rightarrow> u32 \<Rightarrow> u32 \<Rightarrow> u32 \<Rightarrow> mips \<Rightarrow> mips \<times> u32" where
  "mips_enter l cpuid cause va s = generic_exception_body l cpuid (generic_exception_entry l cpuid (take_exception cause va s))"

text \<open>The slot of \<open>gp\<close> is neither in the frame nor the saved stack pointer.\<close>

definition slot_apart :: "mips_layout \<Rightarrow> u32 \<Rightarrow> mips \<Rightarrow> bool" where
  "slot_apart l cpuid s \<longleftrightarrow>
     (\<forall>i < 38. push_bit 2 cpuid + gp_slot_base l \<noteq> kernel_stack l cpuid s - 4 * of_nat (Suc i)) \<and> gp_slot_base l \<noteq> kernelsp l"

lemma upt_32: "[0..<32] = [0, 1, 2, 3, 4, 5, 6, 7, 8, 9, 10, 11, 12, 13, 14, 15, 16, 17, 18, 19, 20, 21, 22, 23, 24, 25, 26, 27, 28, 29, 30, 31]"
  by (simp add: upt_rec)

lemma mips_enter_frame:
  assumes "slot_apart l cpuid s" "a = kernel_stack l cpuid s"
  obtains s' where "mips_enter l cpuid cause va s = (s', a - 152)" "m_status s' = (m_status s OR 2) AND NOT ST_EXCM"
    "\<And>j. j < 38 \<Longrightarrow> m_mem s' (a - 152 + 4 * of_nat j) =
       (map (\<lambda>i. if i = 26 then m_gpr s 28 else if i = 27 then gp_slot_base l else gpr s i) [0..<32] @
        [m_lo s, m_hi s, m_status s OR 2, cause, m_pc s, va]) ! j"
proof -
  define s1 where "s1 = generic_exception_entry l cpuid (take_exception cause va s)"
  have ksu: "(m_status s OR 2) AND ST_KSU = m_status s AND ST_KSU"
    by (simp add: ST_KSU_def bit.conj_disj_distrib2)
  have s1: "m_gpr s1 = (m_gpr s)(k1 := gp_slot_base l, gp := kernel_gp l, k0 := entry_addr l)" "m_status s1 = m_status s OR 2"
    "m_mem s1 = (m_mem s)(push_bit 2 cpuid + gp_slot_base l := m_gpr s gp)" "m_lo s1 = m_lo s" "m_hi s1 = m_hi s" "m_cause s1 = cause"
    "m_epc s1 = m_pc s" "m_badvaddr s1 = va"
    by (simp_all add: s1_def generic_exception_entry_eq take_exception_def)
  have ne: "kernelsp l + push_bit 2 cpuid \<noteq> push_bit 2 cpuid + gp_slot_base l"
    using assms(1) by (auto simp: slot_apart_def add.commute)
  obtain x where sw: "switch_stack l cpuid s1 = s1\<lparr>m_gpr := (m_gpr s1)(k0 := x, k1 := m_gpr s1 sp,
      sp := (if m_status s1 AND ST_KSU = 0 then m_gpr s1 sp else m_mem s1 (kernelsp l + push_bit 2 cpuid)))\<rparr>"
    using switch_stack_eq by blast
  define s2 where "s2 = switch_stack l cpuid s1"
  have s2: "m_gpr s2 = (m_gpr s)(gp := kernel_gp l, k0 := x, k1 := m_gpr s sp, sp := a)" "m_mem s2 = m_mem s1" "m_status s2 = m_status s OR 2"
    unfolding s2_def sw using ne
    by (auto simp: s1 ksu assms(2) kernel_stack_def gpr_def register_numbers fun_eq_iff)
  have "\<And>i. i < 38 \<Longrightarrow> push_bit 2 cpuid + gp_slot_base l \<noteq> m_gpr s2 sp - 4 * of_nat (Suc i)"
    using assms by (simp add: slot_apart_def s2(1))
  note sv = save_registers_mem [OF this refl]
  have og: "m_mem s2 (push_bit 2 cpuid + gp_slot_base l) = m_gpr s gp" by (simp add: s2(2) s1(3))
  define fw where "fw = frame_words l (m_gpr s gp) s2"
  have len: "length fw = 38" by (simp add: fw_def frame_words_def ALL_REGS_def)
  have fw: "rev fw = map (\<lambda>i. if i = 26 then m_gpr s 28 else if i = 27 then gp_slot_base l else gpr s i) [0..<32] @
      [m_lo s, m_hi s, m_status s OR 2, cause, m_pc s, va]"
    unfolding upt_32 by (simp add: fw_def frame_words_def ALL_REGS_def gpr_def s2 register_numbers) (simp add: s2_def sw s1)
  define s' where "s' = fst (mips_enter l cpuid cause va s)"
  have body: "mips_enter l cpuid cause va s = (s', a - 152)" "m_mem s' = m_mem (save_registers l cpuid s2)"
    "m_status s' = (m_status s OR 2 OR ST_EXCM) XOR ST_EXCM"
    using sv(2,3) by (simp_all add: s'_def mips_enter_def generic_exception_body_def s1_def [symmetric] s2_def [symmetric] Let_def set_gpr_def gpr_def
        s2 register_numbers or.assoc)
  show thesis
  proof (rule that [OF body(1)])
    show "m_status s' = (m_status s OR 2) AND NOT ST_EXCM"
      unfolding body(3) by (rule bit_word_eqI) (auto simp: bit_simps)
    show "m_mem s' (a - 152 + 4 * of_nat j) = (map (\<lambda>i. if i = 26 then m_gpr s 28 else if i = 27 then gp_slot_base l else gpr s i) [0..<32] @
        [m_lo s, m_hi s, m_status s OR 2, cause, m_pc s, va]) ! j" if "j < 38" for j
    proof -
      have "m_mem s' = pushed a fw (m_mem s2)" using body(2) sv(1) og by (simp add: fw_def s2(1))
      moreover have "pushed a fw (m_mem s2) (a - 152 + 4 * of_nat j) = rev fw ! j" by (rule pushed_up) (use that len in simp_all)
      ultimately show ?thesis unfolding fw [symmetric] by simp
    qed
  qed
qed

text \<open>
  C21: The handler of an exception on MIPS gets a \<open>struct regs\<close> with the registers of the interrupted code, except
  \<open>k0\<close> and \<open>k1\<close>, on the stack of the kernel, in kernel mode with interrupts off; \<open>trap_return\<close> on that
  structure brings back all these registers and the address, with the interrupt mask that is
  current at the return.
\<close>

theorem mips_trap_round_trip:
  fixes s :: mips
  assumes ap: "slot_apart l cpuid s" and exl: "\<not> bit (m_status s) 1" "\<not> bit (m_status s) 2"
    and en: "mips_enter l cpuid cause va s = (s1, regs)" and s2: "m_mem s2 = m_mem s1"
  shows "mips_regs_at (m_mem s1) regs =
      \<lparr>r_gpr = map (\<lambda>i. if i = 26 then gpr s 28 else if i = 27 then gp_slot_base l else gpr s i) [0..<32], r_lo = m_lo s, r_hi = m_hi s,
       r_status = m_status s OR 2, r_cause = cause, r_epc = m_pc s, r_badvaddr = va\<rparr> \<and>
    regs = kernel_stack l cpuid s - 152 \<and> m_status s1 AND ST_EXCM = 0 \<and>
    (\<forall>i < 32. i \<noteq> 26 \<longrightarrow> i \<noteq> 27 \<longrightarrow> gpr (mips_trap_return regs s2) i = gpr s i) \<and>
    m_lo (mips_trap_return regs s2) = m_lo s \<and> m_hi (mips_trap_return regs s2) = m_hi s \<and> m_pc (mips_trap_return regs s2) = m_pc s \<and>
    m_status (mips_trap_return regs s2) = (m_status s AND NOT ST_IM) OR (m_status s2 AND ST_IM)"
proof -
  let ?g = "\<lambda>i. if i = 26 then m_gpr s 28 else if i = 27 then gp_slot_base l else gpr s i"
  let ?F = "map ?g [0..<32] @ [m_lo s, m_hi s, m_status s OR 2, cause, m_pc s, va]"
  obtain s' where s': "mips_enter l cpuid cause va s = (s', kernel_stack l cpuid s - 152)" "m_status s' = (m_status s OR 2) AND NOT ST_EXCM"
    "\<And>j. j < 38 \<Longrightarrow> m_mem s' (kernel_stack l cpuid s - 152 + 4 * of_nat j) = ?F ! j"
    using mips_enter_frame [OF ap refl, of cause va] by blast
  then have eqs: "s' = s1" and regs: "regs = kernel_stack l cpuid s - 152" using en by simp_all
  have st: "m_status s1 = (m_status s OR 2) AND NOT ST_EXCM" using s'(2) eqs by simp
  have F: "m_mem s1 (regs + 4 * of_nat j) = ?F ! j" if "j < 38" for j
    using s'(3) [OF that] unfolding eqs regs .
  have top: "m_mem s1 (regs + 128) = m_lo s" "m_mem s1 (regs + 132) = m_hi s" "m_mem s1 (regs + 136) = m_status s OR 2"
    "m_mem s1 (regs + 140) = cause" "m_mem s1 (regs + 144) = m_pc s" "m_mem s1 (regs + 148) = va"
    using F [of 32] F [of 33] F [of 34] F [of 35] F [of 36] F [of 37] by (simp_all add: nth_append)
  have low: "m_mem s1 (regs + 4 * of_nat i) = ?g i" if "i < 32" for i
    using F [of i] that by (simp add: nth_append)
  define im where "im = m_status s2 AND ST_IM"
  define m where "m = (m_mem s1)(regs + 136 := ((m_status s OR 2) AND NOT ST_IM) OR im)"
  define s3 where "s3 = s2\<lparr>m_status := m_status s2 AND NOT ST_EXCM, m_mem := m\<rparr>"
  have tr: "mips_trap_return regs s2 = trap_exit regs s3"
    by (simp add: mips_trap_return_def Let_def s3_def m_def im_def s2 top(3))
  have m136: "m (regs + 136) = ((m_status s OR 2) AND NOT ST_IM) OR im" by (simp add: m_def)
  have sim: "ST_IM = push_bit 8 (mask 8)" by (simp add: ST_IM_def mask_eq_exp_minus_1 push_bit_eq_mult)
  have "\<not> bit (m (regs + 136)) 2" using exl(2) by (simp add: m136 im_def sim bit_simps)
  note e = trap_exit_state [where s = s3 and m = m and regs = regs, OF _ this]
  have m3: "m = m_mem s3" by (simp add: s3_def)
  have mo: "m (regs + 4 * of_nat i) = ?g i" if "i < 32" for i
  proof -
    have "regs + 4 * of_nat i \<noteq> regs + 136"
      using word_offset_inj [of i 34] that by auto
    then show ?thesis using low [OF that] by (simp add: m_def)
  qed
  have "gpr (trap_exit regs s3) i = gpr s i" if i: "i < 32" "i \<noteq> 26" "i \<noteq> 27" for i
  proof -
    have "i = 0 \<or> i = 29 \<or> 1 \<le> i \<and> i < 26 \<or> i = 28 \<or> i = 30 \<or> i = 31" using i by linarith
    then consider "i = 0" | "i = 29" | "i \<in> set ([1..<26] @ [28, 30, 31])" by fastforce
    then show ?thesis
    proof cases
      case 2
      then show ?thesis using e(2) [OF m3] mo [of 29] by (simp add: sp_def)
    qed (use e(1) [OF m3, of i] mo [OF i(1)] i in \<open>simp_all add: gpr_def\<close>)
  qed
  moreover have "m_status (trap_exit regs s3) = (m_status s AND NOT ST_IM) OR im"
    unfolding e(5) [OF m3] m136 im_def sim using exl(1)
    by (intro bit_word_eqI) (auto simp: bit_simps bit_2_iff)
  moreover have "mips_regs_at (m_mem s1) regs = \<lparr>r_gpr = map ?g [0..<32], r_lo = m_lo s, r_hi = m_hi s,
       r_status = m_status s OR 2, r_cause = cause, r_epc = m_pc s, r_badvaddr = va\<rparr>"
    using low top by (simp add: mips_regs_at_def)
  moreover have "m_status s1 AND ST_EXCM = 0" by (simp add: st and.assoc)
  ultimately show ?thesis
    unfolding tr using e(3,4,6) [OF m3] top regs by (simp add: m_def gpr_def im_def cong: if_cong)
qed

definition example_layout :: mips_layout where
  "example_layout = \<lparr>gp_slot_base = 0x80000300, kernel_gp = 0x80018000, kernelsp = 0x80010000, entry_addr = 0x80001000\<rparr>"

definition example_mips :: mips where
  "example_mips = \<lparr>m_gpr = of_nat, m_lo = 5, m_hi = 6, m_status = 0xFF11, m_cause = 0, m_epc = 0, m_badvaddr = 0, m_pc = 0x400000,
     m_mem = (\<lambda>_. 0)(0x80010000 := 0x80020000)\<rparr>"

theorem mips_trap_round_trip_witness:
  "\<exists>s1. mips_enter example_layout 0 0x20 0 example_mips = (s1, 0x8001FF68) \<and> r_epc (mips_regs_at (m_mem s1) 0x8001FF68) = 0x400000 \<and>
     gpr (mips_trap_return 0x8001FF68 s1) 28 = 28 \<and> m_pc (mips_trap_return 0x8001FF68 s1) = 0x400000"
proof -
  have k: "kernel_stack example_layout 0 example_mips = 0x80020000"
    by (simp add: kernel_stack_def example_layout_def example_mips_def ST_KSU_def)
  have "0x80000300 \<noteq> 0x80020000 - 4 * (of_nat (Suc i) :: u32)" if "i < 38" for i
  proof
    assume "0x80000300 = 0x80020000 - 4 * (of_nat (Suc i) :: u32)"
    then have "4 * of_nat (Suc i) = (0x80020000 - 0x80000300 :: u32)" by (simp only: eq_diff_eq diff_eq_eq) (simp add: add.commute)
    then have "of_nat (4 * Suc i) = (0x1FD00 :: u32)" by simp
    then have "unat (of_nat (4 * Suc i) :: u32) = 0x1FD00" by simp
    moreover have "unat (of_nat (4 * Suc i) :: u32) = 4 * Suc i"
      using that by (subst unat_of_nat) (simp add: take_bit_nat_eq_self_iff)
    ultimately show False using that by simp
  qed
  then have ap: "slot_apart example_layout 0 example_mips"
    unfolding slot_apart_def k by (simp add: example_layout_def del: of_nat_Suc)
  have st: "\<not> bit (m_status example_mips) 1" "\<not> bit (m_status example_mips) 2" by (simp_all add: example_mips_def)
  obtain s1 regs where en: "mips_enter example_layout 0 0x20 0 example_mips = (s1, regs)" by (cases "mips_enter example_layout 0 0x20 0 example_mips")
  note p = mips_trap_round_trip [OF ap st en refl]
  have regs: "regs = 0x8001FF68" using p k by simp
  have "\<forall>i < 32. i \<noteq> 26 \<longrightarrow> i \<noteq> 27 \<longrightarrow> gpr (mips_trap_return regs s1) i = gpr example_mips i"
    and "m_pc (mips_trap_return regs s1) = m_pc example_mips" using p by blast+
  from this(1) [rule_format, of 28] this(2)
  have "gpr (mips_trap_return regs s1) 28 = gpr example_mips 28" "m_pc (mips_trap_return regs s1) = m_pc example_mips" by simp_all
  moreover have "r_epc (mips_regs_at (m_mem s1) regs) = m_pc example_mips" by (simp add: p [THEN conjunct1])
  moreover have "gpr example_mips 28 = 28" "m_pc example_mips = 0x400000" by (simp_all add: gpr_def example_mips_def)
  ultimately show ?thesis using en unfolding regs by simp
qed

text \<open>
  \<open>trap_init\<close> of MIPS puts the first 128 bytes of the two entries at the addresses where the processor looks
  for the handlers, changes no other byte, and selects them by clearing one bit of the status, when
  the entries lie outside of the two targets.
\<close>

theorem mips_trap_init_installs:
  assumes "\<forall>i < 0x80. \<forall>j < 0x80. GENERIC_EXCEPT_ENTRY + of_nat i \<noteq> generic_entry + of_nat j"
    and "\<forall>i < 0x80. \<forall>j < 0x80. TLB_REFILL_ENTRY + of_nat i \<noteq> tlb_entry + of_nat j"
    and "\<forall>i < 0x80. \<forall>j < 0x80. GENERIC_EXCEPT_ENTRY + of_nat i \<noteq> tlb_entry + of_nat j"
    and "mips_trap_init generic_entry tlb_entry (status, mem) = (status', mem')"
  shows "status' = status AND NOT ST_BEV \<and>
    (\<forall>i < 0x80. mem' (GENERIC_EXCEPT_ENTRY + of_nat i) = mem (generic_entry + of_nat i) \<and> mem' (TLB_REFILL_ENTRY + of_nat i) = mem (tlb_entry + of_nat i)) \<and>
    (\<forall>a. 0x80 \<le> unat (a - GENERIC_EXCEPT_ENTRY) \<longrightarrow> 0x80 \<le> unat (a - TLB_REFILL_ENTRY) \<longrightarrow> mem' a = mem a)"
proof -
  have n: "unat (0x80 :: u32) = 0x80" by simp
  have ap: "apart (unat (0x80 :: u32)) GENERIC_EXCEPT_ENTRY generic_entry" "apart (unat (0x80 :: u32)) TLB_REFILL_ENTRY tlb_entry"
    using assms(1,2) unfolding apart_def n by blast+
  have m: "mem' = copied 0x80 TLB_REFILL_ENTRY tlb_entry (copied 0x80 GENERIC_EXCEPT_ENTRY generic_entry mem)" "status' = status AND NOT ST_BEV"
    using assms(4) memcpy_copied [OF ap(1)] memcpy_copied [OF ap(2)] by (auto simp: mips_trap_init_def Let_def)
  have u: "unat (of_nat i :: u32) = i" if "i < 0x80" for i using that by (simp add: unat_of_nat take_bit_nat_eq_self_iff)
  have far: "\<not> unat (GENERIC_EXCEPT_ENTRY + of_nat i - TLB_REFILL_ENTRY) < 0x80" if "i < 0x80" for i
  proof -
    have "GENERIC_EXCEPT_ENTRY + of_nat i - TLB_REFILL_ENTRY = 0x180 + of_nat i"
      by (simp add: GENERIC_EXCEPT_ENTRY_def TLB_REFILL_ENTRY_def algebra_simps)
    moreover have "unat (0x180 + of_nat i :: u32) = 0x180 + i" using u [OF that] that by (subst unat_add_no_overflow) simp_all
    ultimately show ?thesis by (simp only:)
  qed
  have src: "\<not> unat (tlb_entry + of_nat i - GENERIC_EXCEPT_ENTRY) < 0x80" if "i < 0x80" for i
  proof
    let ?k = "unat (tlb_entry + of_nat i - GENERIC_EXCEPT_ENTRY)"
    assume "?k < 0x80"
    moreover have "GENERIC_EXCEPT_ENTRY + of_nat ?k = tlb_entry + of_nat i" by simp
    ultimately show False using assms(3) that by blast
  qed
  show ?thesis using m u far src by (auto simp: copied_def)
qed

theorem mips_trap_init_installs_witness:
  "\<exists>status' mem'. mips_trap_init 0x80002000 0x80003000 (0x400000, \<lambda>a. ucast a) = (status', mem') \<and> status' = 0 \<and> mem' 0x80000005 = 5"
proof -
  obtain status' mem' where r: "mips_trap_init 0x80002000 0x80003000 (0x400000, \<lambda>a. ucast a) = (status', mem')"
    by (cases "mips_trap_init 0x80002000 0x80003000 (0x400000, \<lambda>a. ucast a)")
  have d: "apart (unat (0x80 :: u32)) GENERIC_EXCEPT_ENTRY 0x80002000" "apart (unat (0x80 :: u32)) TLB_REFILL_ENTRY 0x80003000"
    "apart (unat (0x80 :: u32)) GENERIC_EXCEPT_ENTRY 0x80003000"
    by (rule apart_ranges; simp add: GENERIC_EXCEPT_ENTRY_def TLB_REFILL_ENTRY_def)+
  have "unat (0x80 :: u32) = 0x80" by simp
  from mips_trap_init_installs [OF d [unfolded apart_def this] r]
  have "status' = 0x400000 AND NOT ST_BEV" and "\<forall>i < 0x80. mem' (TLB_REFILL_ENTRY + of_nat i) = ucast (0x80003000 + of_nat i :: u32)"
    by blast+
  from this(1) this(2) [rule_format, of 5] show ?thesis using r by (simp add: ST_BEV_def TLB_REFILL_ENTRY_def)
qed

end
