(* ===== verification/Mips64Pg.thy ===== *)
theory Mips64Pg
  imports MipsPg
begin

text \<open>
  The page tables of 64-bit MIPS, the other half of \<open>kern/arch/mips/pgtable.c\<close>: four levels of 512 entries each,
  the entries of all levels but the last being kernel virtual addresses of tables. The loops of
  \<open>map_pages\<close> and \<open>unmap_pages\<close> are those of theory \<open>PgTable\<close>, the source of pages is the page allocator
  of theory \<open>Pmm\<close>, whose own structures are laid out as in the 32-bit build.
\<close>

section \<open>Definitions\<close>

definition PTXMASK_64 :: u64 where "PTXMASK_64 = 0x1ff"
definition NR_PTENTRIES_64 :: nat where "NR_PTENTRIES_64 = 512"

definition PGX :: "u64 \<Rightarrow> u64" where "PGX va = drop_bit 39 va AND PTXMASK_64"
definition PUX :: "u64 \<Rightarrow> u64" where "PUX va = drop_bit 30 va AND PTXMASK_64"
definition PMX :: "u64 \<Rightarrow> u64" where "PMX va = drop_bit 21 va AND PTXMASK_64"
definition PTX_64 :: "u64 \<Rightarrow> u64" where "PTX_64 va = drop_bit 12 va AND PTXMASK_64"

record m64_pagedesc =
  d_pgdv :: u64
  d_pudv :: u64
  d_pmdv :: u64
  d_ptev :: u64
  d_pgx :: u64
  d_pux :: u64
  d_pmx :: u64
  d_ptx :: u64

definition m64_entry :: "m64_pagedesc \<Rightarrow> u64" where
  "m64_entry pd = cell (d_ptev pd) (d_ptx pd)"

text \<open>\<open>__addpgdir\<close>: the address of the new table, 0 for NULL.\<close>

definition addpgdir :: "(kmem \<Rightarrow> (addr_t \<times> kmem) outcome) \<Rightarrow> u64 \<Rightarrow> u64 \<Rightarrow> 64 ptstate \<Rightarrow> (u64 \<times> 64 ptstate) outcome" where
  "addpgdir galloc vpgdir index s =
     (case s of (mem, st) \<Rightarrow>
        obind (galloc st) (\<lambda>(pa, st).
          if pa = -1 then Ret (0, mem, st)
          else let t = mips64_pa2kva pa in Ret (t, (zero_page t mem)(cell vpgdir index := t), st)))"

definition delpgdir :: "(addr_t \<Rightarrow> kmem \<Rightarrow> kmem outcome) \<Rightarrow> u64 \<Rightarrow> u64 \<Rightarrow> 64 ptstate \<Rightarrow> 64 ptstate outcome" where
  "delpgdir gfree vpgdir index s =
     (case s of (mem, st) \<Rightarrow>
        obind (gfree (mips64_kva2pa (mem (cell vpgdir index))) st) (\<lambda>st. Ret (mem(cell vpgdir index := 0), st)))"

text \<open>\<open>__del_empty_pgdir\<close>; reading a table through NULL is a fault.\<close>

definition del_empty_pgdir :: "(addr_t \<Rightarrow> kmem \<Rightarrow> kmem outcome) \<Rightarrow> u64 \<Rightarrow> u64 \<Rightarrow> 64 ptstate \<Rightarrow> (int \<times> 64 ptstate) outcome" where
  "del_empty_pgdir gfree vpgdir index s =
     (if vpgdir = 0 then Fault
      else let vsubpgdir = fst s (cell vpgdir index)
      in if vsubpgdir = 0 then Fault
         else if list_ex (\<lambda>i. fst s (cell vsubpgdir (of_nat i)) = 0) [0..<NR_PTENTRIES_64] then Ret (1, s)
         else obind (delpgdir gfree vpgdir index s) (\<lambda>s. Ret (0, s)))"

text \<open>
  A level of the walk that creates: add a table below \<open>dir\<close> if there is none; \<open>False\<close> when there is no
  memory.
\<close>

definition ensure_pgdir :: "(kmem \<Rightarrow> (addr_t \<times> kmem) outcome) \<Rightarrow> u64 \<Rightarrow> u64 \<Rightarrow> 64 ptstate \<Rightarrow> (bool \<times> 64 ptstate) outcome" where
  "ensure_pgdir galloc dir index s =
     (if fst s (cell dir index) = 0 then obind (addpgdir galloc dir index s) (\<lambda>(t, s). Ret (t \<noteq> 0, s)) else Ret (True, s))"

definition nomem :: "(addr_t \<Rightarrow> kmem \<Rightarrow> kmem outcome) \<Rightarrow> u64 \<Rightarrow> u64 \<Rightarrow> u64 \<Rightarrow> m64_pagedesc \<Rightarrow> 64 ptstate \<Rightarrow> (int \<times> m64_pagedesc \<times> 64 ptstate) outcome" where
  "nomem gfree pgd pud pmd pd s =
     obind (del_empty_pgdir gfree pmd (d_pmx pd) s) (\<lambda>(_, s).
     obind (del_empty_pgdir gfree pud (d_pux pd) s) (\<lambda>(_, s).
     obind (del_empty_pgdir gfree pgd (d_pgx pd) s) (\<lambda>(_, s). Ret (- ENOMEM, pd, s))))"

text \<open>\<open>pud0\<close> and \<open>pmd0\<close> are what the two local pointers hold before they are set.\<close>

definition m64_getpagedesc :: "(kmem \<Rightarrow> (addr_t \<times> kmem) outcome) \<Rightarrow> (addr_t \<Rightarrow> kmem \<Rightarrow> kmem outcome) \<Rightarrow> u64 \<Rightarrow> u64 \<Rightarrow> u64 \<Rightarrow> (64, m64_pagedesc) getdesc" where
  "m64_getpagedesc galloc gfree pud0 pmd0 pgindex addr create pd s =
     (let pgd = pgindex;
          pd = pd\<lparr>d_pgdv := pgd, d_pgx := PGX addr, d_pux := PUX addr, d_pmx := PMX addr, d_ptx := PTX_64 addr\<rparr>
      in if \<not> create then
           (let pd = pd\<lparr>d_pudv := fst s (cell pgd (d_pgx pd))\<rparr>
            in if d_pudv pd = 0 then Ret (- ENOENT, pd, s)
               else let pd = pd\<lparr>d_pmdv := fst s (cell (d_pudv pd) (d_pux pd))\<rparr>
               in if d_pmdv pd = 0 then Ret (- ENOENT, pd, s)
                  else let pd = pd\<lparr>d_ptev := fst s (cell (d_pmdv pd) (d_pmx pd))\<rparr>
                  in if d_ptev pd = 0 then Ret (- ENOENT, pd, s) else Ret (0, pd, s))
         else
           obind (ensure_pgdir galloc pgd (d_pgx pd) s) (\<lambda>(ok, s).
           if \<not> ok then nomem gfree pgd pud0 pmd0 pd s
           else let pud = fst s (cell pgd (d_pgx pd)); pd = pd\<lparr>d_pudv := pud\<rparr>
           in obind (ensure_pgdir galloc pud (d_pux pd) s) (\<lambda>(ok, s).
              if \<not> ok then nomem gfree pgd pud pmd0 pd s
              else let pmd = fst s (cell pud (d_pux pd)); pd = pd\<lparr>d_pmdv := pmd\<rparr>
              in obind (ensure_pgdir galloc pmd (d_pmx pd) s) (\<lambda>(ok, s).
                 if \<not> ok then nomem gfree pgd pud pmd pd s
                 else Ret (0, pd\<lparr>d_ptev := fst s (cell pmd (d_pmx pd))\<rparr>, s)))))"

text \<open>\<open>__free_intermediate_pgtable\<close>, a round per page; the descriptor keeps its fields between rounds.\<close>

fun m64_free_loop :: "(64, m64_pagedesc) getdesc \<Rightarrow> (addr_t \<Rightarrow> kmem \<Rightarrow> kmem outcome) \<Rightarrow> u64 \<Rightarrow> u64 list \<Rightarrow> m64_pagedesc \<Rightarrow> 64 ptstate \<Rightarrow> 64 ptstate outcome" where
  "m64_free_loop getdesc gfree pgd [] pd s = Ret s"
| "m64_free_loop getdesc gfree pgd (v # vs) pd s =
     obind (getdesc v False pd s) (\<lambda>(_, pd, s).
     obind (del_empty_pgdir gfree (d_pmdv pd) (d_pmx pd) s) (\<lambda>(r, s).
       if r \<noteq> 0 then m64_free_loop getdesc gfree pgd vs pd s
       else obind (del_empty_pgdir gfree (d_pudv pd) (d_pux pd) s) (\<lambda>(r, s).
         if r \<noteq> 0 then m64_free_loop getdesc gfree pgd vs pd s
         else obind (del_empty_pgdir gfree pgd (d_pgx pd) s) (\<lambda>(_, s). m64_free_loop getdesc gfree pgd vs pd s))))"

definition m64_free_intermediate :: "(64, m64_pagedesc) getdesc \<Rightarrow> (addr_t \<Rightarrow> kmem \<Rightarrow> kmem outcome) \<Rightarrow> m64_pagedesc \<Rightarrow> u64 \<Rightarrow> u64 \<Rightarrow> u64 \<Rightarrow> 64 ptstate \<Rightarrow> 64 ptstate outcome" where
  "m64_free_intermediate getdesc gfree junk pgindex vaddr sz =
     m64_free_loop getdesc gfree pgindex (map (\<lambda>k. vaddr + of_nat (k * 4096)) [0..<(unat sz + 4095) div 4096]) junk"

definition m64_map_pages :: "(kmem \<Rightarrow> (addr_t \<times> kmem) outcome) \<Rightarrow> (addr_t \<Rightarrow> kmem \<Rightarrow> kmem outcome) \<Rightarrow> u64 \<Rightarrow> u64 \<Rightarrow> m64_pagedesc \<Rightarrow>
    u64 \<Rightarrow> u64 \<Rightarrow> addr_t \<Rightarrow> u64 \<Rightarrow> u32 \<Rightarrow> 64 ptstate \<Rightarrow> (int \<times> 64 ptstate) outcome" where
  "m64_map_pages galloc gfree pud0 pmd0 junk pgindex vaddr pa sz flags =
     map_range (m64_getpagedesc galloc gfree pud0 pmd0 pgindex) m64_entry (\<lambda>e. e \<noteq> 0) (ucast (mips_pgtable_perm flags))
       (m64_free_intermediate (m64_getpagedesc galloc gfree pud0 pmd0 pgindex) gfree junk pgindex) vaddr pa sz junk"

definition m64_unmap_pages :: "(kmem \<Rightarrow> (addr_t \<times> kmem) outcome) \<Rightarrow> (addr_t \<Rightarrow> kmem \<Rightarrow> kmem outcome) \<Rightarrow> u64 \<Rightarrow> u64 \<Rightarrow> m64_pagedesc \<Rightarrow>
    u64 \<Rightarrow> u64 \<Rightarrow> u64 \<Rightarrow> 64 ptstate \<Rightarrow> (int \<times> addr_t option \<times> 64 ptstate) outcome" where
  "m64_unmap_pages galloc gfree pud0 pmd0 junk pgindex vaddr sz =
     unmap_range (m64_getpagedesc galloc gfree pud0 pmd0 pgindex) m64_entry
       (m64_free_intermediate (m64_getpagedesc galloc gfree pud0 pmd0 pgindex) gfree junk pgindex) vaddr sz junk"

section \<open>The tables as a tree\<close>

text \<open>The table at the end of a path of indices below \<open>t\<close>, 0 if there is none.\<close>

fun tab :: "64 mem \<Rightarrow> u64 \<Rightarrow> u64 list \<Rightarrow> u64" where
  "tab mem t [] = t"
| "tab mem t (i # is) = (if t = 0 then 0 else tab mem (mem (cell t i)) is)"

lemma tab_0: "tab mem 0 p = 0"
  by (cases p) simp_all

lemma tab_snoc: "tab mem t (p @ [i]) = (if tab mem t p = 0 then 0 else mem (cell (tab mem t p) i))"
  by (induction p arbitrary: t) (auto simp: tab_0)

definition path :: "nat \<Rightarrow> u64 list \<Rightarrow> bool" where
  "path n p \<longleftrightarrow> length p \<le> n \<and> (\<forall>i \<in> set p. i < 512)"

text \<open>
  All tables are aligned, no two paths lead to the same one, and none is a page that the allocator
  has left; those lie in the physical memory of 48 bits.
\<close>

definition m64_wf :: "(kmem \<Rightarrow> bool) \<Rightarrow> (kmem \<Rightarrow> addr_t set) \<Rightarrow> u64 \<Rightarrow> 64 ptstate \<Rightarrow> bool" where
  "m64_wf ok avail pgd s \<longleftrightarrow> (case s of (mem, st) \<Rightarrow>
     ok st \<and> pgd \<noteq> 0 \<and> (\<forall>p. path 3 p \<longrightarrow> tab mem pgd p \<noteq> 0 \<longrightarrow> 4096 dvd unat (tab mem pgd p)) \<and>
     (\<forall>p q. path 3 p \<longrightarrow> path 3 q \<longrightarrow> tab mem pgd p \<noteq> 0 \<longrightarrow> tab mem pgd p = tab mem pgd q \<longrightarrow> p = q) \<and>
     (\<forall>pa \<in> avail st. pa < 0x1000000000000 \<and> (\<forall>p. path 3 p \<longrightarrow> tab mem pgd p \<noteq> mips64_pa2kva pa)))"

definition m64_slot :: "u64 \<Rightarrow> 64 mem \<Rightarrow> u64 \<Rightarrow> u64 option" where
  "m64_slot pgd mem v = (let t = tab mem pgd [PGX v, PUX v, PMX v] in if t = 0 then None else Some (cell t (PTX_64 v)))"

lemma m64_index_less: "PGX v < 512" "PUX v < 512" "PMX v < 512" "PTX_64 v < 512"
proof -
  have "x AND PTXMASK_64 < 512" for x :: u64
  proof -
    have "PTXMASK_64 = mask 9" by (simp add: PTXMASK_64_def mask_eq_exp_minus_1)
    then show ?thesis using unat_and_mask [of x 9] by (simp only: word_less_nat_alt) simp
  qed
  then show "PGX v < 512" "PUX v < 512" "PMX v < 512" "PTX_64 v < 512" by (simp_all add: PGX_def PUX_def PMX_def PTX_64_def)
qed

lemma in_table_64: "4096 dvd unat (t :: u64) \<Longrightarrow> i < 512 \<Longrightarrow> in_table t i"
  by (simp add: in_table_def word_less_nat_alt)

lemma page_cell_64: "4096 dvd unat (t :: u64) \<Longrightarrow> i < 512 \<Longrightarrow> page (cell t i) = page t"
  using page_cell [OF in_table_64] by simp

lemma path_snoc: "path (Suc n) (p @ [i]) \<longleftrightarrow> path n p \<and> i < 512"
  by (auto simp: path_def)

lemma path_mono: "path n p \<Longrightarrow> n \<le> m \<Longrightarrow> path m p"
  by (simp add: path_def)

lemma path_prefix: "path (Suc n) (p @ [i]) \<Longrightarrow> path (Suc n) p"
  by (simp add: path_def)

lemma m64_wf_simps:
  assumes "m64_wf ok avail pgd (mem, st)"
  shows "ok st" "pgd \<noteq> 0" "path 3 p \<Longrightarrow> tab mem pgd p \<noteq> 0 \<Longrightarrow> 4096 dvd unat (tab mem pgd p)"
    "path 3 p \<Longrightarrow> path 3 q \<Longrightarrow> tab mem pgd p \<noteq> 0 \<Longrightarrow> tab mem pgd p = tab mem pgd q \<Longrightarrow> p = q"
    "pa \<in> avail st \<Longrightarrow> pa < 0x1000000000000" "pa \<in> avail st \<Longrightarrow> path 3 p \<Longrightarrow> tab mem pgd p \<noteq> mips64_pa2kva pa"
  using assms unfolding m64_wf_def prod.case by blast+

text \<open>A new table \<open>t\<close> below entry \<open>i\<close> of the table at \<open>p\<close> is the only change of the tree.\<close>

lemma tab_add:
  assumes wf: "m64_wf ok avail pgd (mem, st)" and p: "path 2 p" "i < 512" "tab mem pgd p \<noteq> 0" "mem (cell (tab mem pgd p) i) = 0"
    and t: "4096 dvd unat t" and fresh: "\<forall>q. path 3 q \<longrightarrow> tab mem pgd q \<noteq> t"
    and mem': "mem' = (zero_page t mem)(cell (tab mem pgd p) i := t)"
  shows "path 3 q \<Longrightarrow> tab mem' pgd q = (if q = p @ [i] then t else tab mem pgd q)"
    and "path 3 q \<Longrightarrow> q \<noteq> p \<Longrightarrow> j < 512 \<Longrightarrow> tab mem pgd q \<noteq> 0 \<Longrightarrow> mem' (cell (tab mem pgd q) j) = mem (cell (tab mem pgd q) j)"
    and "j < 512 \<Longrightarrow> mem' (cell t j) = 0"
proof -
  let ?d = "tab mem pgd p"
  have p3: "path 3 p" using p(1) by (rule path_mono) simp
  have ad: "4096 dvd unat ?d" using m64_wf_simps(3) [OF wf p3 p(3)] .
  have m: "mem' a = (if a = cell ?d i then t else if page a = page t then 0 else mem a)" for a
    using t(1) by (simp add: mem' zero_page_apply)
  have other: "mem' (cell (tab mem pgd q) j) = (if q = p \<and> j = i then t else mem (cell (tab mem pgd q) j))"
    if q: "path 3 q" "j < 512" "tab mem pgd q \<noteq> 0" for q j
  proof -
    have aq: "4096 dvd unat (tab mem pgd q)" using m64_wf_simps(3) [OF wf q(1,3)] .
    have "page (cell (tab mem pgd q) j) \<noteq> page t"
      using page_cell_64 [OF aq q(2)] aligned_page_inj [OF aq t(1)] fresh q(1) by simp
    moreover have "cell (tab mem pgd q) j = cell ?d i \<longleftrightarrow> q = p \<and> j = i"
      using cell_inj [OF in_table_64 [OF aq q(2)] in_table_64 [OF ad p(2)]] m64_wf_simps(4) [OF wf q(1) p3 q(3)] by auto
    ultimately show ?thesis by (simp add: m)
  qed
  show new: "mem' (cell t j) = 0" if "j < 512" for j
  proof -
    have "cell t j \<noteq> cell ?d i"
      using cell_inj [OF in_table_64 [OF t(1) that] in_table_64 [OF ad p(2)]] fresh p3 by auto
    then show ?thesis using page_cell_64 [OF t(1) that] by (simp add: m)
  qed
  show "mem' (cell (tab mem pgd q) j) = mem (cell (tab mem pgd q) j)" if "path 3 q" "q \<noteq> p" "j < 512" "tab mem pgd q \<noteq> 0" for q j
    using other [OF that(1,3,4)] that(2) by simp
  show "tab mem' pgd q = (if q = p @ [i] then t else tab mem pgd q)" if "path 3 q" for q
    using that
  proof (induction q rule: rev_induct)
    case (snoc j q)
    have q: "path 3 q" "j < 512" using snoc.prems by (auto simp: path_def)
    note IH = snoc.IH [OF q(1)]
    show ?case
    proof (cases "q = p @ [i]")
      case True
      have "tab mem pgd (p @ [i]) = 0" using p(4) by (simp add: tab_snoc)
      then have "tab mem pgd (q @ [j]) = 0" using True by (simp only: tab_snoc) simp
      moreover have "tab mem' pgd (q @ [j]) = 0" using True IH new [OF q(2)] by (simp only: tab_snoc) simp
      ultimately show ?thesis using True by simp
    next
      case False
      then have e: "tab mem' pgd q = tab mem pgd q" using IH by simp
      show ?thesis
      proof (cases "tab mem pgd q = 0")
        case True
        then show ?thesis using e p(3) by (auto simp: tab_snoc)
      next
        case False
        then show ?thesis using other [OF q False] by (simp add: tab_snoc e)
      qed
    qed
  qed simp
qed

text \<open>How the tables grow: tables and entries stay, new leaf tables are empty.\<close>

definition grows :: "u64 \<Rightarrow> 64 mem \<Rightarrow> 64 mem \<Rightarrow> bool" where
  "grows pgd mem mem' \<longleftrightarrow>
     (\<forall>q. path 3 q \<longrightarrow> tab mem pgd q \<noteq> 0 \<longrightarrow> tab mem' pgd q = tab mem pgd q) \<and>
     (\<forall>q j. path 3 q \<longrightarrow> length q = 3 \<longrightarrow> j < 512 \<longrightarrow> tab mem' pgd q \<noteq> 0 \<longrightarrow>
        mem' (cell (tab mem' pgd q) j) = (if tab mem pgd q = 0 then 0 else mem (cell (tab mem pgd q) j)))"

lemma grows_refl: "grows pgd mem mem"
  by (simp add: grows_def)

lemma grows_trans: "grows pgd mem mem1 \<Longrightarrow> grows pgd mem1 mem2 \<Longrightarrow> grows pgd mem mem2"
  unfolding grows_def by (metis (no_types, lifting))

lemma mips64_pa2kva_low:
  assumes "pa < (0x1000000000000 :: addr_t)"
  shows "unat (mips64_pa2kva pa) = 0x9800000000000000 + unat pa" "mips64_pa2kva pa \<noteq> 0"
proof -
  have "unat pa < 0x1000000000000" using assms by (simp add: word_less_nat_alt)
  then show u: "unat (mips64_pa2kva pa) = 0x9800000000000000 + unat pa"
    by (simp add: mips64_pa2kva_def IO_CAC_BASE_64_def XKPHY_def) (subst unat_add_no_overflow; simp)
  show "mips64_pa2kva pa \<noteq> 0"
  proof
    assume "mips64_pa2kva pa = 0"
    then show False using u by simp
  qed
qed

context page_source
begin

lemma m64_ensure:
  assumes wf: "m64_wf inv avail pgd (mem, st)" and p: "path 2 p" "i < 512" "tab mem pgd p = d" "d \<noteq> 0" and room: "1 \<le> card (avail st)"
  obtains mem' st' where "ensure_pgdir galloc d i (mem, st) = Ret (True, mem', st')" "m64_wf inv avail pgd (mem', st')"
    "tab mem' pgd (p @ [i]) = mem' (cell d i)" "mem' (cell d i) \<noteq> 0" "card (avail st) \<le> card (avail st') + 1" "grows pgd mem mem'"
proof (cases "mem (cell d i) = 0")
  case False
  then show thesis using that [of mem st] wf p(3,4) by (simp add: ensure_pgdir_def tab_snoc grows_refl)
next
  case True
  obtain pa st' where g: "galloc st = Ret (pa, st')" "inv st'" "pa \<in> avail st" "pa \<noteq> -1" "avail st' = avail st - {pa}"
    "card (avail st) = Suc (card (avail st'))"
    using take_page_room [OF m64_wf_simps(1) [OF wf]] room by auto
  define t where "t = mips64_pa2kva pa"
  define mem' where "mem' = (zero_page t mem)(cell d i := t)"
  have lo: "pa < 0x1000000000000" and fresh: "\<forall>q. path 3 q \<longrightarrow> tab mem pgd q \<noteq> t"
    using m64_wf_simps(5,6) [OF wf g(3)] by (auto simp: t_def)
  have t: "unat t = 0x9800000000000000 + unat pa" "t \<noteq> 0" using mips64_pa2kva_low [OF lo] by (simp_all add: t_def)
  have at: "4096 dvd unat t" using avail_aligned [OF g(3)] t(1) by simp
  note a = tab_add [OF wf p(1,2) p(4) [folded p(3)] True [folded p(3)] at fresh mem'_def [folded p(3)]]
  have pi: "path 3 (p @ [i])" using p(1,2) by (simp add: path_def)
  have z: "tab mem pgd (p @ [i]) = 0" using True p(3) by (simp add: tab_snoc)
  have "m64_wf inv avail pgd (mem', st')"
    unfolding m64_wf_def prod.case
  proof (intro conjI allI ballI impI)
    show "inv st'" by (rule g(2))
    show "pgd \<noteq> 0" by (rule m64_wf_simps(2) [OF wf])
    show "4096 dvd unat (tab mem' pgd q)" if "path 3 q" "tab mem' pgd q \<noteq> 0" for q
      using a(1) [OF that(1)] that at m64_wf_simps(3) [OF wf that(1)] by (auto split: if_splits)
    show "q = r" if "path 3 q" "path 3 r" "tab mem' pgd q \<noteq> 0" "tab mem' pgd q = tab mem' pgd r" for q r
      using that(3,4) a(1) [OF that(1)] a(1) [OF that(2)] fresh that(1,2) m64_wf_simps(4) [OF wf that(1,2)]
      by (auto split: if_splits)
    fix x assume x: "x \<in> avail st'"
    then have x': "x \<in> avail st" "x \<noteq> pa" using g(5) by auto
    show "x < 0x1000000000000" by (rule m64_wf_simps(5) [OF wf x'(1)])
    have "mips64_pa2kva x \<noteq> t" using x'(2) by (simp add: t_def mips64_pa2kva_def)
    then show "tab mem' pgd q \<noteq> mips64_pa2kva x" if "path 3 q" for q
      using a(1) [OF that] m64_wf_simps(6) [OF wf x'(1) that] by auto
  qed
  moreover have "grows pgd mem mem'"
    unfolding grows_def
  proof (intro conjI allI impI)
    show "tab mem' pgd q = tab mem pgd q" if "path 3 q" "tab mem pgd q \<noteq> 0" for q using a(1) [OF that(1)] that(2) z by auto
    show "mem' (cell (tab mem' pgd q) j) = (if tab mem pgd q = 0 then 0 else mem (cell (tab mem pgd q) j))"
      if q: "path 3 q" "length q = 3" "j < 512" "tab mem' pgd q \<noteq> 0" for q j
    proof (cases "q = p @ [i]")
      case True
      then show ?thesis using a(1) [OF q(1)] a(3) [OF q(3)] z by simp
    next
      case False
      then have e: "tab mem' pgd q = tab mem pgd q" using a(1) [OF q(1)] by simp
      have "q \<noteq> p" using q(2) p(1) by (auto simp: path_def)
      then show ?thesis using e q(4) a(2) [OF q(1) _ q(3)] by simp
    qed
  qed
  moreover have "ensure_pgdir galloc d i (mem, st) = Ret (True, mem', st')"
    using True g(1,4) t(2) by (simp add: ensure_pgdir_def addpgdir_def Let_def t_def mem'_def)
  moreover have "mem' (cell d i) = t" by (simp add: mem'_def)
  ultimately show thesis using that [of mem' st'] a(1) [OF pi] t(2) g(6) by simp
qed

lemma m64_create:
  assumes wf: "m64_wf inv avail pgd (mem, st)" and room: "3 \<le> card (avail st)"
  shows "\<exists>pd' mem' st'. m64_getpagedesc galloc gfree pud0 pmd0 pgd v True pd (mem, st) = Ret (0, pd', mem', st') \<and>
    m64_wf inv avail pgd (mem', st') \<and> m64_slot pgd mem' v = Some (m64_entry pd') \<and> card (avail st) \<le> card (avail st') + 3 \<and> grows pgd mem mem'"
proof -
  note l = m64_index_less [of v]
  have p: "path 2 []" "path 2 [PGX v]" "path 2 [PGX v, PUX v]" using l by (simp_all add: path_def)
  have "1 \<le> card (avail st)" using room by simp
  from m64_ensure [OF wf p(1) l(1) _ m64_wf_simps(2) [OF wf] this]
  obtain m1 st1 where 1: "ensure_pgdir galloc pgd (PGX v) (mem, st) = Ret (True, m1, st1)" "m64_wf inv avail pgd (m1, st1)"
    "tab m1 pgd [PGX v] = m1 (cell pgd (PGX v))" "m1 (cell pgd (PGX v)) \<noteq> 0" "card (avail st) \<le> card (avail st1) + 1" "grows pgd mem m1"
    by auto
  have "1 \<le> card (avail st1)" using room 1(5) by simp
  from m64_ensure [OF 1(2) p(2) l(2) 1(3,4) this]
  obtain m2 st2 where 2: "ensure_pgdir galloc (m1 (cell pgd (PGX v))) (PUX v) (m1, st1) = Ret (True, m2, st2)" "m64_wf inv avail pgd (m2, st2)"
    "tab m2 pgd [PGX v, PUX v] = m2 (cell (m1 (cell pgd (PGX v))) (PUX v))" "m2 (cell (m1 (cell pgd (PGX v))) (PUX v)) \<noteq> 0"
    "card (avail st1) \<le> card (avail st2) + 1" "grows pgd m1 m2"
    by auto
  have "1 \<le> card (avail st2)" using room 1(5) 2(5) by simp
  from m64_ensure [OF 2(2) p(3) l(3) 2(3,4) this]
  obtain m3 st3 where 3: "ensure_pgdir galloc (m2 (cell (m1 (cell pgd (PGX v))) (PUX v))) (PMX v) (m2, st2) = Ret (True, m3, st3)"
    "m64_wf inv avail pgd (m3, st3)" "tab m3 pgd [PGX v, PUX v, PMX v] = m3 (cell (m2 (cell (m1 (cell pgd (PGX v))) (PUX v))) (PMX v))"
    "m3 (cell (m2 (cell (m1 (cell pgd (PGX v))) (PUX v))) (PMX v)) \<noteq> 0" "card (avail st2) \<le> card (avail st3) + 1" "grows pgd m2 m3"
    by auto
  have "grows pgd mem m3" using grows_trans [OF grows_trans [OF 1(6) 2(6)] 3(6)] .
  then show ?thesis
    using 1(1,5) 2(1,5) 3 by (simp add: m64_getpagedesc_def Let_def m64_slot_def m64_entry_def)
qed

end

lemma m64_store:
  assumes wf: "m64_wf ok avail pgd (mem, st)" and "m64_slot pgd mem v = Some a"
  shows "path 3 q \<Longrightarrow> tab (mem(a := x)) pgd q = tab mem pgd q"
proof -
  let ?p = "[PGX v, PUX v, PMX v]"
  have a: "tab mem pgd ?p \<noteq> 0" "a = cell (tab mem pgd ?p) (PTX_64 v)"
    using assms(2) by (auto simp: m64_slot_def Let_def simp del: tab.simps split: if_splits)
  have p: "path 3 ?p" using m64_index_less by (simp add: path_def)
  have ap: "4096 dvd unat (tab mem pgd ?p)" by (rule m64_wf_simps(3) [OF wf p a(1)])
  show "tab (mem(a := x)) pgd q = tab mem pgd q" if "path 3 q" for q
    using that
  proof (induction q rule: rev_induct)
    case (snoc j q)
    have q: "path 3 q" "j < 512" "length q \<le> 2" using snoc.prems by (auto simp: path_def)
    show ?case
    proof (cases "tab mem pgd q = 0")
      case False
      have aq: "4096 dvd unat (tab mem pgd q)" by (rule m64_wf_simps(3) [OF wf q(1) False])
      have "cell (tab mem pgd q) j \<noteq> a"
      proof
        assume "cell (tab mem pgd q) j = a"
        then have "tab mem pgd q = tab mem pgd ?p"
          using cell_inj [OF in_table_64 [OF aq q(2)] in_table_64 [OF ap m64_index_less(4)]] a(2) by auto
        then have "q = ?p" using m64_wf_simps(4) [OF wf q(1) p False] by blast
        then show False using q(3) by simp
      qed
      then show ?thesis using snoc.IH [OF q(1)] by (simp add: tab_snoc)
    qed (use snoc.IH [OF q(1)] in \<open>simp add: tab_snoc\<close>)
  qed simp
qed

lemma m64_store_wf:
  assumes wf: "m64_wf ok avail pgd (mem, st)" and "m64_slot pgd mem v = Some a"
  shows "m64_wf ok avail pgd (mem(a := x), st)" and "m64_slot pgd (mem(a := x)) w = m64_slot pgd mem w"
proof -
  note s = m64_store [OF assms]
  have "path 3 [PGX w, PUX w, PMX w]" using m64_index_less by (simp add: path_def)
  then show "m64_slot pgd (mem(a := x)) w = m64_slot pgd mem w" by (simp only: m64_slot_def s)
  show "m64_wf ok avail pgd (mem(a := x), st)"
    using wf unfolding m64_wf_def prod.case by (simp add: s)
qed

definition m64_valid :: "u64 \<Rightarrow> bool" where
  "m64_valid v \<longleftrightarrow> unat v < 2 ^ 48"

lemma m64_indices:
  "unat (PTX_64 v) = unat v div 4096 mod 512" "unat (PMX v) = unat v div 4096 div 512 mod 512"
  "unat (PUX v) = unat v div 4096 div 512 div 512 mod 512" "unat (PGX v) = unat v div 4096 div 512 div 512 div 512 mod 512"
proof -
  have m: "PTXMASK_64 = mask 9" by (simp add: PTXMASK_64_def mask_eq_exp_minus_1)
  show "unat (PTX_64 v) = unat v div 4096 mod 512" "unat (PMX v) = unat v div 4096 div 512 mod 512"
    "unat (PUX v) = unat v div 4096 div 512 div 512 mod 512" "unat (PGX v) = unat v div 4096 div 512 div 512 div 512 mod 512"
    unfolding PTX_64_def PMX_def PUX_def PGX_def m unat_and_mask unat_drop_bit_eq
    by (simp_all add: drop_bit_eq_div div_mult2_eq [symmetric])
qed

lemma m64_page_split:
  assumes "m64_valid v" "m64_valid w"
  shows "page v = page w \<longleftrightarrow> [PGX v, PUX v, PMX v] = [PGX w, PUX w, PMX w] \<and> PTX_64 v = PTX_64 w"
proof
  assume "page v = page w"
  then have "unat v div 4096 = unat w div 4096" by (simp only: page_eq_iff)
  then show "[PGX v, PUX v, PMX v] = [PGX w, PUX w, PMX w] \<and> PTX_64 v = PTX_64 w"
    by (simp add: word_unat_eq_iff m64_indices)
next
  assume e: "[PGX v, PUX v, PMX v] = [PGX w, PUX w, PMX w] \<and> PTX_64 v = PTX_64 w"
  define a b where "a = unat v div 4096" and "b = unat w div 4096"
  have top: "a div 512 div 512 div 512 < 512" "b div 512 div 512 div 512 < 512"
    using assms by (simp_all add: m64_valid_def a_def b_def div_mult2_eq [symmetric] div_less_iff_less_mult)
  have "a mod 512 = b mod 512" "a div 512 mod 512 = b div 512 mod 512" "a div 512 div 512 mod 512 = b div 512 div 512 mod 512"
    "a div 512 div 512 div 512 = b div 512 div 512 div 512"
    using e top by (simp_all add: word_unat_eq_iff m64_indices a_def b_def)
  then have "a = b" by (metis div_mult_mod_eq)
  then show "page v = page w" by (simp add: page_eq_iff a_def b_def)
qed

lemma m64_separate:
  assumes wf: "m64_wf ok avail pgd (mem, st)" and v: "m64_valid v" "m64_valid w" "m64_slot pgd mem v = Some a" "m64_slot pgd mem w = Some a"
  shows "page v = page w"
proof -
  let ?p = "\<lambda>v. [PGX v, PUX v, PMX v]"
  have p: "path 3 (?p u)" for u using m64_index_less by (simp add: path_def)
  have t: "tab mem pgd (?p v) \<noteq> 0" "tab mem pgd (?p w) \<noteq> 0" "cell (tab mem pgd (?p v)) (PTX_64 v) = cell (tab mem pgd (?p w)) (PTX_64 w)"
    using v(3,4) by (auto simp: m64_slot_def Let_def simp del: tab.simps split: if_splits)
  have "tab mem pgd (?p v) = tab mem pgd (?p w) \<and> PTX_64 v = PTX_64 w"
    using cell_inj [OF in_table_64 [OF m64_wf_simps(3) [OF wf p t(1)] m64_index_less(4)] in_table_64 [OF m64_wf_simps(3) [OF wf p t(2)] m64_index_less(4)] _ t(3)]
    by simp
  then show ?thesis using m64_wf_simps(4) [OF wf p p t(1)] m64_page_split [OF v(1,2)] by blast
qed

lemma grows_slot:
  assumes "grows pgd mem mem'"
  shows "m64_slot pgd mem w = Some a \<Longrightarrow> m64_slot pgd mem' w = Some a \<and> mem' a = mem a"
    and "m64_slot pgd mem w = None \<Longrightarrow> m64_slot pgd mem' w = Some a \<Longrightarrow> mem' a = 0"
proof -
  let ?p = "[PGX w, PUX w, PMX w]"
  have p: "path 3 ?p" "length ?p = 3" using m64_index_less by (simp_all add: path_def)
  have g: "tab mem pgd ?p \<noteq> 0 \<Longrightarrow> tab mem' pgd ?p = tab mem pgd ?p"
    "tab mem' pgd ?p \<noteq> 0 \<Longrightarrow> mem' (cell (tab mem' pgd ?p) (PTX_64 w)) = (if tab mem pgd ?p = 0 then 0 else mem (cell (tab mem pgd ?p) (PTX_64 w)))"
    using assms p m64_index_less(4) unfolding grows_def by blast+
  show "m64_slot pgd mem' w = Some a \<and> mem' a = mem a" if "m64_slot pgd mem w = Some a"
    using that g by (auto simp: m64_slot_def Let_def simp del: tab.simps split: if_splits)
  show "mem' a = 0" if "m64_slot pgd mem w = None" "m64_slot pgd mem' w = Some a"
    using that g by (auto simp: m64_slot_def Let_def simp del: tab.simps split: if_splits)
qed

context page_source
begin

lemma m64_leaf_tables:
  "leaf_tables (m64_getpagedesc galloc gfree pud0 pmd0 pgd) m64_entry (m64_wf inv avail pgd) (\<lambda>st. card (avail st)) 3 m64_valid (m64_slot pgd)"
proof
  fix mem :: "64 mem" and st :: kmem and v :: u64 and pd
  assume "m64_wf inv avail pgd (mem, st)" and "3 \<le> card (avail st)"
  from m64_create [OF this, of gfree pud0 pmd0 v pd] grows_slot
  show "\<exists>pd' mem' st'. m64_getpagedesc galloc gfree pud0 pmd0 pgd v True pd (mem, st) = Ret (0, pd', mem', st') \<and>
    m64_wf inv avail pgd (mem', st') \<and> m64_slot pgd mem' v = Some (m64_entry pd') \<and> card (avail st) \<le> card (avail st') + 3 \<and>
    (\<forall>w a. m64_valid w \<longrightarrow> m64_slot pgd mem w = Some a \<longrightarrow> m64_slot pgd mem' w = Some a \<and> mem' a = mem a) \<and>
    (\<forall>w a. m64_valid w \<longrightarrow> m64_slot pgd mem w = None \<longrightarrow> m64_slot pgd mem' w = Some a \<longrightarrow> mem' a = 0)"
    by blast
next
  fix mem :: "64 mem" and st :: kmem and v a :: u64 and pd
  assume "m64_wf inv avail pgd (mem, st)" "m64_slot pgd mem v = Some a"
  then show "\<exists>pd'. m64_getpagedesc galloc gfree pud0 pmd0 pgd v False pd (mem, st) = Ret (0, pd', mem, st) \<and> m64_entry pd' = a"
    by (auto simp: m64_getpagedesc_def m64_slot_def m64_entry_def Let_def tab_0 split: if_splits)
next
  fix mem :: "64 mem" and st :: kmem and v a x :: u64
  assume "m64_wf inv avail pgd (mem, st)" "m64_slot pgd mem v = Some a"
  from m64_store_wf [OF this]
  show "m64_wf inv avail pgd (mem(a := x), st) \<and> (\<forall>w. m64_valid w \<longrightarrow> m64_slot pgd (mem(a := x)) w = m64_slot pgd mem w)"
    by blast
next
  fix mem :: "64 mem" and v w :: u64
  assume "m64_valid v" "m64_valid w" "page v = page w"
  then have "[PGX v, PUX v, PMX v] = [PGX w, PUX w, PMX w]" "PTX_64 v = PTX_64 w" using m64_page_split by blast+
  then show "m64_slot pgd mem v = m64_slot pgd mem w" by (simp only: m64_slot_def)
qed (rule m64_separate; assumption)

end

interpretation m64: leaf_tables "m64_getpagedesc (pgalloc (by_ref (alloc_pages (kfree putpages))) junk) gfree pud0 pmd0 pgd" m64_entry
    "m64_wf (page_inv phase) (page_avail phase) pgd" "\<lambda>st. card (page_avail phase st)" 3 m64_valid "m64_slot pgd"
  for putpages junk gfree pud0 pmd0 phase pgd
  by (rule phase_pages.m64_leaf_tables)

section \<open>The properties\<close>

text \<open>The entry of an address, 0 if there is none.\<close>

definition m64_lookup :: "u64 \<Rightarrow> 64 mem \<Rightarrow> u64 \<Rightarrow> u64" where
  "m64_lookup pgd mem v = (case m64_slot pgd mem v of None \<Rightarrow> 0 | Some a \<Rightarrow> mem a)"

lemma m64_entry_at: "m64.entry_at pgd = m64_lookup pgd"
  by (intro ext) (simp add: m64.entry_at_def m64_lookup_def)

text \<open>
  C12: Mapping on 64-bit MIPS, while booting or later: for page-aligned arguments, a range of unmapped pages
  below 48 bits and three pages left for each page of the range, \<open>map_pages\<close> returns 0 (what is left
  is every free page while booting, and later the pages of the first free block but its last, with
  any object allocator behind the page allocator); every page of the range then has the entry of
  its physical page with the permissions of the flags, every other address below 48 bits has the
  entry it had, and the four levels of tables are well-formed. The list of free blocks is the one of
  theory \<open>Pmm\<close>, whose blocks are kept at 32-bit addresses; a page from the front of a larger block is
  taken without using these.
\<close>

theorem m64_map_pages_maps:
  assumes "m64_wf (page_inv phase) (page_avail phase) pgd s"
    and "\<forall>i < n. m64_lookup pgd (fst s) (nth_page v i) = 0" and "unat v + n * 4096 \<le> 2 ^ 48"
    and "n * 3 \<le> card (page_avail phase (snd s))"
    and "IS_ALIGNED v PAGE_SIZE" "IS_ALIGNED pa PAGE_SIZE" "unat sz = n * 4096" "unat pa + n * 4096 < 2 ^ 64"
  shows "\<exists>s'. m64_map_pages (pgalloc (by_ref (alloc_pages (kfree putpages))) junk) gfree pud0 pmd0 pd pgd v pa sz flags s = Ret (0, s') \<and>
    m64_wf (page_inv phase) (page_avail phase) pgd s' \<and>
    (\<forall>i < n. m64_lookup pgd (fst s') (nth_page v i) = (pa + of_nat (i * 4096)) OR ucast (mips_pgtable_perm flags)) \<and>
    (\<forall>w. unat w < 2 ^ 48 \<longrightarrow> (\<forall>i < n. page w \<noteq> page (nth_page v i)) \<longrightarrow> m64_lookup pgd (fst s') w = m64_lookup pgd (fst s) w)"
proof -
  have al: "IS_ALIGNED sz PAGE_SIZE" using assms(7) by (simp add: aligned_4096)
  have b: "unat v + n * 4096 \<le> 2 ^ LENGTH(64)" using assms(3) by simp
  have "m64_valid (nth_page v i)" if "i < n" for i
  proof -
    have "unat (nth_page v i) = unat v + i * 4096" by (rule unat_nth_page [OF b that])
    moreover have "i * 4096 < n * 4096" using that by simp
    ultimately show ?thesis using assms(3) unfolding m64_valid_def by linarith
  qed
  then have f: "\<forall>i < n. m64_valid (nth_page v i) \<and> \<not> m64.entry_at pgd (fst s) (nth_page v i) \<noteq> 0"
    using assms(2) by (simp add: m64_entry_at)
  show ?thesis
    using m64.map_range_maps [OF assms(1) f assms(4) b assms(8,6) al assms(5,7), where perm = "ucast (mips_pgtable_perm flags)"
        and rollback = "m64_free_intermediate (m64_getpagedesc (pgalloc (by_ref (alloc_pages (kfree putpages))) junk) gfree pud0 pmd0 pgd) gfree pd pgd"
        and pd = pd and putpages = putpages and junk = junk and gfree = gfree and ?pud0.0 = pud0 and ?pmd0.0 = pmd0]
    unfolding m64_map_pages_def m64_entry_at m64_valid_def by simp
qed

lemma example_m64_wf:
  assumes "page_inv phase st" and "\<forall>pa \<in> page_avail phase st. unat pa < 0x110000"
  shows "m64_wf (page_inv phase) (page_avail phase) 0x9800000000200000 (\<lambda>_. 0, st)"
proof -
  have t: "tab (\<lambda>_. 0) 0x9800000000200000 p = (if p = [] then 0x9800000000200000 else 0)" for p
    by (cases p) (simp_all add: tab_0)
  have "pa < 0x1000000000000 \<and> mips64_pa2kva pa \<noteq> 0 \<and> mips64_pa2kva pa \<noteq> 0x9800000000200000" if "pa \<in> page_avail phase st" for pa
  proof -
    have u: "unat pa < 0x110000" using that assms(2) by simp
    then have l: "pa < 0x1000000000000" by (simp add: word_less_nat_alt)
    have "unat (mips64_pa2kva pa) \<noteq> unat (0x9800000000200000 :: u64)" using mips64_pa2kva_low(1) [OF l] u by simp
    then show ?thesis using l mips64_pa2kva_low(2) [OF l] by auto
  qed
  then show ?thesis using assms(1) unfolding m64_wf_def prod.case t by auto
qed

theorem m64_map_pages_maps_witness:
  "\<exists>st s'. master_init_mm 10 0x80050000 7 example_memory kmem_reset = Ret st \<and>
    m64_map_pages (pgalloc (by_ref (alloc_pages (kfree (\<lambda>_ _. Hang)))) 0) (\<lambda>_ _. Hang) 0 0
      \<lparr>d_pgdv = 0, d_pudv = 0, d_pmdv = 0, d_ptev = 0, d_pgx = 0, d_pux = 0, d_pmx = 0, d_ptx = 0\<rparr>
      0x9800000000200000 0x123456789000 0x300000 0x1000 VMA_WRITE (\<lambda>_. 0, st) = Ret (0, s') \<and>
    m64_lookup 0x9800000000200000 (fst s') 0x123456789000 = 0x3007C0"
proof -
  obtain st where st: "master_init_mm 10 0x80050000 7 example_memory kmem_reset = Ret st" "page_inv Running st"
    "{0x101000, 0x102000, 0x103000} \<subseteq> page_avail Running st" "\<forall>pa \<in> page_avail Running st. unat pa < 0x110000"
    by (rule example_running) blast
  have "card {0x101000, 0x102000, 0x103000 :: addr_t} \<le> card (page_avail Running st)" using st(3) by (intro card_mono) simp_all
  then have c: "1 * 3 \<le> card (page_avail Running st)" by simp
  have "m64_lookup 0x9800000000200000 (\<lambda>_. 0) v = 0" for v by (simp add: m64_lookup_def m64_slot_def)
  then have "\<exists>s'. m64_map_pages (pgalloc (by_ref (alloc_pages (kfree (\<lambda>_ _. Hang)))) 0) (\<lambda>_ _. Hang) 0 0
      \<lparr>d_pgdv = 0, d_pudv = 0, d_pmdv = 0, d_ptev = 0, d_pgx = 0, d_pux = 0, d_pmx = 0, d_ptx = 0\<rparr>
      0x9800000000200000 0x123456789000 0x300000 0x1000 VMA_WRITE (\<lambda>_. 0, st) = Ret (0, s') \<and>
    m64_lookup 0x9800000000200000 (fst s') 0x123456789000 = 0x3007C0"
    using m64_map_pages_maps [OF example_m64_wf [OF st(2,4)], of 1 "0x123456789000" "0x300000" "0x1000" "\<lambda>_ _. Hang" 0 "\<lambda>_ _. Hang" 0 0
        "\<lparr>d_pgdv = 0, d_pudv = 0, d_pmdv = 0, d_ptev = 0, d_pgx = 0, d_pux = 0, d_pmx = 0, d_ptx = 0\<rparr>" VMA_WRITE] c
    by (auto simp: aligned_4096 mips_pgtable_perm_def VMA_WRITE_def PTE_VALID_def PTE_GLOBAL_def
        PTE_CACHEABLE_def PTE_DIRTY_def mach_pgtable_perm_def nth_page_def simp del: page_avail.simps)
  with st(1) show ?thesis by blast
qed

end
