(* ===== verification/MipsTlb.thy ===== *)
theory MipsTlb
  imports Mips64Pg
begin

text \<open>
  The TLB of 32-bit MIPS: the refill handler \<open>kern/arch/mips/tlbex.S\<close> over the page tables of theory
  \<open>MipsPg\<close>, and \<open>tlb_flush\<close> of \<open>kern/arch/mips/mm.c\<close>. The processor is a record of the registers of
  coprocessor 0 that the code uses and of the entries.
\<close>

section \<open>The processor\<close>

record mips_tlb =
  t_index :: u32
  t_random :: u32
  t_entryhi :: u32
  t_entrylo0 :: u32
  t_entrylo1 :: u32
  t_badvaddr :: u32
  t_entries :: "nat \<Rightarrow> u32 \<times> u32 \<times> u32"

text \<open>The low registers have 30 bits.\<close>

definition write_c0_entrylo0 :: "u32 \<Rightarrow> mips_tlb \<Rightarrow> mips_tlb" where
  "write_c0_entrylo0 x s = s\<lparr>t_entrylo0 := x AND mask 30\<rparr>"

definition write_c0_entrylo1 :: "u32 \<Rightarrow> mips_tlb \<Rightarrow> mips_tlb" where
  "write_c0_entrylo1 x s = s\<lparr>t_entrylo1 := x AND mask 30\<rparr>"

definition tlb_write :: "u32 \<Rightarrow> mips_tlb \<Rightarrow> mips_tlb" where
  "tlb_write i s = s\<lparr>t_entries := (t_entries s)(unat i := (t_entryhi s, t_entrylo0 s, t_entrylo1 s))\<rparr>"

definition tlbwr :: "mips_tlb \<Rightarrow> mips_tlb" where
  "tlbwr s = tlb_write (t_random s) s"

definition tlbwi :: "mips_tlb \<Rightarrow> mips_tlb" where
  "tlbwi s = tlb_write (t_index s) s"

text \<open>
  The translation of an address by an entry, with the current address space \<open>asid\<close>: the entry is for a
  pair of pages; it must be of the address space unless both halves are global, and the half must be
  valid. The result is the physical address and whether the page may be written.
\<close>

definition entry_matches :: "u32 \<Rightarrow> u32 \<times> u32 \<times> u32 \<Rightarrow> u32 \<Rightarrow> bool" where
  "entry_matches asid e v \<longleftrightarrow> (case e of (hi, lo0, lo1) \<Rightarrow>
     drop_bit 13 hi = drop_bit 13 v \<and> (hi AND 0xff = asid \<or> bit lo0 0 \<and> bit lo1 0))"

definition entry_translates :: "u32 \<Rightarrow> u32 \<times> u32 \<times> u32 \<Rightarrow> u32 \<Rightarrow> (addr_t \<times> bool) option" where
  "entry_translates asid e v = (case e of (hi, lo0, lo1) \<Rightarrow>
     let lo = if bit v 12 then lo1 else lo0
     in if entry_matches asid e v \<and> bit lo 1
        then Some (push_bit 12 (ucast (drop_bit 6 lo AND mask 24)) + ucast (v AND mask 12), bit lo 2) else None)"

section \<open>The code\<close>

definition PTE_SOFT_SHIFT :: nat where "PTE_SOFT_SHIFT = 6"

text \<open>The first revision of the architecture shifts the software bits out, later ones rotate them.\<close>

definition soft_shift :: "bool \<Rightarrow> u32 \<Rightarrow> u32" where
  "soft_shift rev1 pte = (if rev1 then drop_bit PTE_SOFT_SHIFT pte else word_rotr PTE_SOFT_SHIFT pte)"

text \<open>The offsets of the directory entry and of the even entry of the pair in the leaf table.\<close>

definition dir_offset :: "u32 \<Rightarrow> u32" where
  "dir_offset va = push_bit 2 (drop_bit 22 va AND 0x3ff)"

definition pair_offset :: "u32 \<Rightarrow> u32" where
  "pair_offset va = push_bit 2 (drop_bit 12 va AND 0x3fe)"

text \<open>
  The walk of \<open>__tlb_entry\<close> to the leaf table of the faulting address, for 32 and for 64 bits; it
  gives 0 where the code goes to label 9.
\<close>

definition tlb_walk :: "u32 \<Rightarrow> u32 \<Rightarrow> (u32 \<Rightarrow> u32) \<Rightarrow> 32 mem \<Rightarrow> mips_tlb \<Rightarrow> u32" where
  "tlb_walk pgdir_slot_base cpuid slots mem s =
     (let k1 = slots (pgdir_slot_base + push_bit 2 cpuid)
      in if k1 = 0 then 0 else mem (k1 + dir_offset (t_badvaddr s)))"

definition tlb_walk_64 :: "u64 \<Rightarrow> u64 \<Rightarrow> (u64 \<Rightarrow> u64) \<Rightarrow> 64 mem \<Rightarrow> u64 \<Rightarrow> u64" where
  "tlb_walk_64 pgdir_slot_base cpuid slots mem badvaddr =
     (let k1 = slots (pgdir_slot_base + push_bit 3 cpuid)
      in if k1 = 0 then 0
         else let k0 = push_bit 3 (drop_bit 39 badvaddr AND PTXMASK_64); k1 = mem (k1 + k0)
         in if k1 = 0 then 0
            else let k0 = push_bit 3 (drop_bit 30 badvaddr AND PTXMASK_64); k1 = mem (k1 + k0)
            in if k1 = 0 then 0
               else let k0 = push_bit 3 (drop_bit 21 badvaddr AND PTXMASK_64) in mem (k1 + k0))"

text \<open>
  \<open>__tlb_entry\<close> for 32 bits: whether it ends with \<open>eret\<close>, or else goes to the general exception entry.
  \<open>slots\<close> is the memory of the directory slots, \<open>mem\<close> that of the page tables.
\<close>

definition tlb_refill :: "bool \<Rightarrow> u32 \<Rightarrow> u32 \<Rightarrow> (u32 \<Rightarrow> u32) \<Rightarrow> 32 mem \<Rightarrow> mips_tlb \<Rightarrow> bool \<times> mips_tlb" where
  "tlb_refill rev1 pgdir_slot_base cpuid slots mem s =
     (let k1 = tlb_walk pgdir_slot_base cpuid slots mem s
      in if k1 = 0 then (False, s)
         else let k0 = pair_offset (t_badvaddr s);
                  k1 = k1 + k0;
                  k0 = soft_shift rev1 (mem k1);
                  k1 = soft_shift rev1 (mem (k1 + 4));
                  s = write_c0_entrylo1 k1 (write_c0_entrylo0 k0 s);
                  k0 = (if drop_bit 12 (t_badvaddr s) AND 1 = 0 then k0 else t_entrylo1 s)
              in if k0 AND drop_bit PTE_SOFT_SHIFT PTE_VALID = 0 then (False, s) else (True, tlbwr s))"

definition ENTRYHI_DUMMY :: "u32 \<Rightarrow> u32" where
  "ENTRYHI_DUMMY idx = push_bit 13 idx"

definition msim_get_tlb_entries :: nat where "msim_get_tlb_entries = 48"

definition get_tlb_entries :: "u32 \<Rightarrow> nat" where
  "get_tlb_entries config1 = unat ((drop_bit 25 config1 AND 0x3f) + 1)"

definition tlb_flush :: "nat \<Rightarrow> mips_tlb \<Rightarrow> mips_tlb" where
  "tlb_flush nr_entries s =
     fold (\<lambda>i s. tlbwi (write_c0_entrylo1 0 (write_c0_entrylo0 0 (s\<lparr>t_index := of_nat i, t_entryhi := ENTRYHI_DUMMY (of_nat i)\<rparr>))))
       [0..<nr_entries] s"

definition mips_arch_mm_init :: "nat \<Rightarrow> mips_tlb \<Rightarrow> mips_tlb" where
  "mips_arch_mm_init nr_entries s = tlb_flush nr_entries s"

section \<open>Refill\<close>

text \<open>The fields of an entry of the tables whose software bits are clear.\<close>

lemma soft_shift_fields:
  assumes "e AND mask 6 = 0"
  shows "soft_shift rev1 e AND mask 30 = drop_bit 6 e" and "soft_shift rev1 e AND 2 = drop_bit 6 e AND 2"
proof -
  have z: "\<not> bit e n" if "n < 6" for n
    using that arg_cong [OF assms, of "\<lambda>w. bit w n"] by (simp add: bit_simps)
  have "soft_shift rev1 e = drop_bit 6 e"
  proof (rule bit_word_eqI)
    fix n assume n: "n < LENGTH(32)"
    have "bit e ((n + 6) mod 32) = bit e (6 + n)"
    proof (cases "n < 26")
      case False
      then have "(n + 6) mod 32 = n - 26" using n by (simp add: mod_if)
      then show ?thesis using False n z [of "n - 26"] by (auto dest: bit_imp_le_length)
    qed (simp add: add.commute)
    then show "bit (soft_shift rev1 e) n = bit (drop_bit 6 e) n"
      using n by (simp add: soft_shift_def PTE_SOFT_SHIFT_def bit_simps bit_word_rotr_iff)
  qed
  moreover have "drop_bit 6 e AND mask 30 = drop_bit 6 e"
    by (rule bit_word_eqI) (auto simp: bit_simps dest: bit_imp_le_length)
  ultimately show "soft_shift rev1 e AND mask 30 = drop_bit 6 e" "soft_shift rev1 e AND 2 = drop_bit 6 e AND 2" by simp_all
qed

lemma dir_offset_eq: "dir_offset v = 4 * mips_PDX v"
  by (simp only: dir_offset_def mips_PDX_def push_bit_eq_mult) simp

lemma pair_offset_eq: "pair_offset v = (if bit v 12 then 4 * mips_PTX v - 4 else 4 * mips_PTX v)"
proof -
  have "drop_bit 12 v AND 0x3ff = (drop_bit 12 v AND 0x3fe) + (if bit v 12 then 1 else 0)"
  proof -
    have "(drop_bit 12 v AND 0x3fe) AND (drop_bit 12 v AND 1) = (drop_bit 12 v AND drop_bit 12 v) AND (0x3fe AND 1)"
      by (simp only: ac_simps)
    then have d: "(drop_bit 12 v AND 0x3fe) AND (drop_bit 12 v AND 1) = 0" by simp
    have "drop_bit 12 v AND 0x3ff = (drop_bit 12 v AND 0x3fe) OR (drop_bit 12 v AND 1)"
      by (simp add: bit.conj_disj_distrib [symmetric])
    also have "\<dots> = (drop_bit 12 v AND 0x3fe) + (drop_bit 12 v AND 1)"
      by (rule disjunctive_add_eq_or [OF d, symmetric])
    finally show ?thesis by (simp add: and_one_eq odd_iff_mod_2_eq_one bit_iff_odd_drop_bit)
  qed
  then show ?thesis by (simp only: pair_offset_def mips_PTX_def push_bit_eq_mult) simp
qed

text \<open>What the handler writes for an address with a valid entry, and that it gives up without one.\<close>

text \<open>The assembly of 64 bits walks the tables that \<open>__getpagedesc\<close> walks.\<close>

lemma tlb_walk_64_tab:
  "tlb_walk_64 base cpu slots mem va = tab mem (slots (base + push_bit 3 cpu)) [PGX va, PUX va, PMX va]"
  by (simp add: tlb_walk_64_def Let_def cell_def PGX_def PUX_def PMX_def push_bit_eq_mult mult.commute)

lemma tlb_refill_loads:
  assumes "slots (base + push_bit 2 cpu) = pgindex" "pgindex \<noteq> 0" "v = t_badvaddr s"
    and e: "mips_lookup pgindex mem v = e" "bit e 7" "e AND mask 6 = 0"
  shows "\<exists>lo0 lo1. (if bit v 12 then lo1 else lo0) = drop_bit 6 e \<and>
    (\<exists>s'. tlb_refill rev1 base cpu slots mem s = (True, s') \<and> t_entries s' (unat (t_random s)) = (t_entryhi s, lo0, lo1))"
proof -
  define t where "t = mem (cell pgindex (mips_PDX v))"
  define a where "a = t + pair_offset v"
  have t: "t \<noteq> 0" "mem (cell t (mips_PTX v)) = e"
    using e(1,2) by (auto simp: mips_lookup_def t_def Let_def split: if_splits)
  have k1: "mem (pgindex + dir_offset v) = t" by (simp add: t_def cell_def dir_offset_eq)
  have own: "(if bit v 12 then mem (a + 4) else mem a) = e"
    using t(2) by (auto simp: a_def pair_offset_eq cell_def)
  have odd: "(drop_bit 12 v AND 1 = 0) = (\<not> bit v 12)"
    by (simp add: and_one_eq bit_iff_odd_drop_bit even_iff_mod_2_eq_zero)
  have valid: "drop_bit 6 e AND drop_bit PTE_SOFT_SHIFT PTE_VALID \<noteq> 0"
  proof
    assume "drop_bit 6 e AND drop_bit PTE_SOFT_SHIFT PTE_VALID = 0"
    from arg_cong [OF this, of "\<lambda>w. bit w 1"] e(2) show False
      by (simp add: PTE_SOFT_SHIFT_def PTE_VALID_def bit_simps)
  qed
  note f = soft_shift_fields [OF e(3), of rev1]
  have f2: "soft_shift rev1 e AND drop_bit PTE_SOFT_SHIFT PTE_VALID = drop_bit 6 e AND drop_bit PTE_SOFT_SHIFT PTE_VALID"
    using f(2) by (simp add: PTE_SOFT_SHIFT_def PTE_VALID_def drop_bit_eq_div)
  let ?lo0 = "soft_shift rev1 (mem a) AND mask 30" and ?lo1 = "soft_shift rev1 (mem (a + 4)) AND mask 30"
  have "\<exists>s'. tlb_refill rev1 base cpu slots mem s = (True, s') \<and> t_entries s' (unat (t_random s)) = (t_entryhi s, ?lo0, ?lo1)"
    using assms(2) t(1) own valid f(1) f2
    by (cases "bit v 12") (simp_all add: tlb_refill_def tlb_walk_def Let_def assms(1) assms(3) [symmetric] k1 a_def [symmetric] write_c0_entrylo0_def
        write_c0_entrylo1_def odd tlbwr_def tlb_write_def)
  moreover have "(if bit v 12 then ?lo1 else ?lo0) = drop_bit 6 e" using own f(1) by (auto split: if_splits)
  ultimately show ?thesis by blast
qed

lemma tlb_refill_misses:
  assumes "slots (base + push_bit 2 cpu) = pgindex" "mips_lookup pgindex mem (t_badvaddr s) = 0"
  shows "\<exists>s'. tlb_refill rev1 base cpu slots mem s = (False, s') \<and> t_entries s' = t_entries s"
proof -
  let ?v = "t_badvaddr s"
  define t where "t = mem (cell pgindex (mips_PDX ?v))"
  define a where "a = t + pair_offset ?v"
  have k1: "mem (pgindex + dir_offset ?v) = t" by (simp add: t_def cell_def dir_offset_eq)
  have own: "t \<noteq> 0 \<Longrightarrow> (if bit ?v 12 then mem (a + 4) else mem a) = 0"
  proof -
    assume "t \<noteq> 0"
    then have "mem (cell t (mips_PTX ?v)) = 0" using assms(2) by (simp add: mips_lookup_def t_def Let_def)
    then show ?thesis by (auto simp: a_def pair_offset_eq cell_def)
  qed
  have odd: "(drop_bit 12 ?v AND 1 = 0) = (\<not> bit ?v 12)"
    by (simp add: and_one_eq bit_iff_odd_drop_bit even_iff_mod_2_eq_zero)
  have z: "soft_shift rev1 0 = 0" by (simp add: soft_shift_def)
  show ?thesis
    using own by (cases "bit ?v 12") (simp_all add: tlb_refill_def tlb_walk_def Let_def assms(1) k1 a_def [symmetric] write_c0_entrylo0_def
        write_c0_entrylo1_def odd z)
qed

lemma loaded_translates:
  assumes "(if bit v 12 then lo1 else lo0) = drop_bit 6 e" "bit e 7" "drop_bit 13 hi = drop_bit 13 v"
  shows "entry_translates (hi AND 0xff) (hi, lo0, lo1) v = Some (ucast (e AND NOT (mask 12)) + ucast (v AND mask 12), bit e 8)"
proof -
  have "push_bit 12 (ucast (drop_bit 6 (drop_bit 6 e) AND mask 24)) = (ucast (e AND NOT (mask 12)) :: u64)"
    by (rule bit_word_eqI) (auto simp: bit_simps dest: bit_imp_le_length)
  then show ?thesis using assms by (auto simp: entry_translates_def entry_matches_def Let_def bit_simps)
qed

lemma page_low_bits:
  assumes "4096 dvd unat (p :: 'a :: len word)" "n < 12"
  shows "\<not> bit p n"
proof -
  have "p AND mask 12 = 0" using assms(1) unat_and_mask [of p 12] by (simp add: unat_eq_0 dvd_eq_mod_eq_0)
  from arg_cong [OF this, of "\<lambda>w. bit w n"] assms(2) show ?thesis by (auto simp: bit_simps dest: bit_imp_le_length)
qed

lemma perm_bits: "bit (mips_pgtable_perm flags) n \<longleftrightarrow> n \<in> {6, 7, 9, 10} \<or> n = 8 \<and> flags AND VMA_WRITE \<noteq> 0"
proof -
  have "mips_pgtable_perm flags = (if flags AND VMA_WRITE \<noteq> 0 then 0x7C0 else 0x6C0)"
    by (simp add: mips_pgtable_perm_def PTE_VALID_def PTE_GLOBAL_def PTE_CACHEABLE_def PTE_DIRTY_def mach_pgtable_perm_def)
  moreover have "(0x7C0 :: u32) = set_bit 6 (set_bit 7 (set_bit 8 (set_bit 9 (set_bit 10 0))))"
    "(0x6C0 :: u32) = set_bit 6 (set_bit 7 (set_bit 9 (set_bit 10 0)))"
    by (simp_all add: set_bit_eq_or push_bit_eq_mult)
  ultimately have "bit (mips_pgtable_perm flags) n \<longleftrightarrow> bit (if flags AND VMA_WRITE \<noteq> 0 then set_bit 6 (set_bit 7 (set_bit 8 (set_bit 9 (set_bit 10 0))))
      else set_bit 6 (set_bit 7 (set_bit 9 (set_bit 10 0))) :: u32) n"
    by (simp only:)
  also have "\<dots> \<longleftrightarrow> n \<in> {6, 7, 9, 10} \<or> n = 8 \<and> flags AND VMA_WRITE \<noteq> 0"
    by (cases "flags AND VMA_WRITE = 0"; simp only: if_True if_False bit_set_bit_iff bit_0_eq simp_thms; auto)
  finally show ?thesis .
qed

lemma pte_fields:
  assumes "4096 dvd unat p" "unat p < 2 ^ 32"
    and e_def: "e = ucast (p :: u64) OR mips_pgtable_perm flags"
  shows "bit e 7" "bit e 8 \<longleftrightarrow> flags AND VMA_WRITE \<noteq> 0" "e AND mask 6 = 0" "ucast (e AND NOT (mask 12)) = p"
proof -
  note low = page_low_bits [OF assms(1)]
  show "bit e 7" "bit e 8 \<longleftrightarrow> flags AND VMA_WRITE \<noteq> 0" using low [of 8] by (simp_all add: e_def bit_simps perm_bits)
  show "e AND mask 6 = 0" using low by (intro bit_word_eqI) (auto simp: e_def bit_simps perm_bits)
  have high: "n < 32" if "bit p n" for n
  proof -
    have "take_bit 32 p = p" using assms(2) by (simp add: word_unat_eq_iff unsigned_take_bit_eq take_bit_nat_eq_self_iff)
    then have "bit p n = bit (take_bit 32 p) n" by simp
    then show ?thesis using that by (simp add: bit_simps)
  qed
  show "ucast (e AND NOT (mask 12)) = p"
    using low by (intro bit_word_eqI) (auto simp: e_def bit_simps perm_bits not_less dest: high)
qed

section \<open>The properties\<close>

text \<open>
  C11: Mapping and the refill handler agree, while booting or later: \<open>map_pages\<close> of a page-aligned range of
  unmapped pages, with as many pages left as the range has (while booting every free page is left, later
  the pages of the first free block but its last), returns 0; then a miss on any address of the range
  is answered by an entry that translates the address to its physical page, writable exactly if
  the flags ask for it, on both revisions of the architecture; a miss on an address whose entry is
  empty goes to the general exception handler and leaves the TLB as it was.
\<close>

theorem tlb_refill_after_map:
  assumes "mips_wf (page_inv phase) (page_avail phase) pgindex s" "pgindex \<noteq> 0"
    and "\<forall>i < n. mips_lookup pgindex (fst s) (nth_page v i) = 0"
    and "n \<le> card (page_avail phase (snd s))"
    and "IS_ALIGNED v PAGE_SIZE" "IS_ALIGNED pa PAGE_SIZE" "unat sz = n * 4096"
    and "unat v + n * 4096 \<le> 2 ^ 32" "unat pa + n * 4096 \<le> 2 ^ 32"
    and slot: "slots (slot_base + push_bit 2 cpu) = pgindex"
  shows "\<exists>s'. mips_map_pages (pgalloc (by_ref (alloc_pages (kfree putpages))) junk) gfree pd pgindex v pa sz flags s = Ret (0, s') \<and>
    (\<forall>i < n. \<forall>t. page (t_badvaddr t) = page (nth_page v i) \<longrightarrow> drop_bit 13 (t_entryhi t) = drop_bit 13 (t_badvaddr t) \<longrightarrow>
       (\<exists>t'. tlb_refill rev1 slot_base cpu slots (fst s') t = (True, t') \<and>
          entry_translates (t_entryhi t AND 0xff) (t_entries t' (unat (t_random t))) (t_badvaddr t) =
            Some (pa + of_nat (i * 4096) + ucast (t_badvaddr t AND mask 12), flags AND VMA_WRITE \<noteq> 0))) \<and>
    (\<forall>t. mips_lookup pgindex (fst s') (t_badvaddr t) = 0 \<longrightarrow>
       (\<exists>t'. tlb_refill rev1 slot_base cpu slots (fst s') t = (False, t') \<and> t_entries t' = t_entries t))"
proof -
  have "unat pa + n * 4096 < 2 ^ 64" using assms(9) by simp
  from mips_map_pages_maps [OF assms(1,3-8) this]
  obtain s' where s': "mips_map_pages (pgalloc (by_ref (alloc_pages (kfree putpages))) junk) gfree pd pgindex v pa sz flags s = Ret (0, s')"
    "\<forall>i < n. mips_lookup pgindex (fst s') (nth_page v i) = ucast (pa + of_nat (i * 4096)) OR mips_pgtable_perm flags"
    by blast
  have "\<exists>t'. tlb_refill rev1 slot_base cpu slots (fst s') t = (True, t') \<and>
      entry_translates (t_entryhi t AND 0xff) (t_entries t' (unat (t_random t))) (t_badvaddr t) =
        Some (pa + of_nat (i * 4096) + ucast (t_badvaddr t AND mask 12), flags AND VMA_WRITE \<noteq> 0)"
    if i: "i < n" and b: "page (t_badvaddr t) = page (nth_page v i)" and hi: "drop_bit 13 (t_entryhi t) = drop_bit 13 (t_badvaddr t)" for i t
  proof -
    define p where "p = pa + of_nat (i * 4096)"
    define e where "e = ucast p OR mips_pgtable_perm flags"
    have u: "unat p = unat pa + i * 4096"
    proof -
      have "unat (of_nat (i * 4096) :: u64) = i * 4096"
        using i assms(9) by (simp add: unat_of_nat take_bit_nat_eq_self_iff del: of_nat_mult)
      then show ?thesis unfolding p_def using i assms(9) by (subst unat_add_no_overflow) (simp_all del: of_nat_mult)
    qed
    then have "4096 dvd unat p" "unat p < 2 ^ 32" using assms(6,9) i by (simp_all add: aligned_4096)
    note f = pte_fields [OF this e_def]
    have "mips_lookup pgindex (fst s') (t_badvaddr t) = e"
      using s'(2) i mips_same_page [OF b, of pgindex "fst s'"] by (simp add: mips_lookup_slot p_def e_def)
    from tlb_refill_loads [where slots = slots, OF slot assms(2) refl [of "t_badvaddr t"] this f(1,3)]
    obtain lo0 lo1 t' where "(if bit (t_badvaddr t) 12 then lo1 else lo0) = drop_bit 6 e"
      "tlb_refill rev1 slot_base cpu slots (fst s') t = (True, t')" "t_entries t' (unat (t_random t)) = (t_entryhi t, lo0, lo1)"
      by blast
    then show ?thesis using loaded_translates [OF _ f(1) hi] f(2,4) by (simp add: p_def)
  qed
  then show ?thesis using s'(1) tlb_refill_misses [where slots = slots, OF slot] by blast
qed

definition example_tlb :: mips_tlb where
  "example_tlb = \<lparr>t_index = 0, t_random = 7, t_entryhi = 0x400000, t_entrylo0 = 0, t_entrylo1 = 0, t_badvaddr = 0x400123, t_entries = (\<lambda>_. (0, 0, 0))\<rparr>"

theorem tlb_refill_after_map_witness:
  "\<exists>st s' t'. master_init_mm 10 0x80050000 7 example_memory kmem_reset = Ret st \<and>
    mips_map_pages (pgalloc (by_ref (alloc_pages (kfree (\<lambda>_ _. Hang)))) 0) (\<lambda>_ _. Hang)
      \<lparr>m_pdev = 0, m_ptev = 0, m_pdx = 0, m_ptx = 0\<rparr> 0x80200000 0x400000 0x300000 0x1000 VMA_WRITE (\<lambda>_. 0, st) = Ret (0, s') \<and>
    tlb_refill True 0x80000800 0 (\<lambda>_. 0x80200000) (fst s') example_tlb = (True, t') \<and>
    entry_translates 0 (t_entries t' 7) 0x400123 = Some (0x300123, True)"
proof -
  obtain st where st: "master_init_mm 10 0x80050000 7 example_memory kmem_reset = Ret st" "page_inv Running st"
    "0x101000 \<in> page_avail Running st" "\<forall>pa \<in> page_avail Running st. unat pa < 0x110000"
    by (rule example_running) blast
  then have "0 < card (page_avail Running st)" by (auto simp: card_gt_0_iff)
  then obtain s' where s': "mips_map_pages (pgalloc (by_ref (alloc_pages (kfree (\<lambda>_ _. Hang)))) 0) (\<lambda>_ _. Hang)
      \<lparr>m_pdev = 0, m_ptev = 0, m_pdx = 0, m_ptx = 0\<rparr> 0x80200000 0x400000 0x300000 0x1000 VMA_WRITE (\<lambda>_. 0, st) = Ret (0, s')"
    and r: "\<forall>i < 1. \<forall>t. page (t_badvaddr t) = page (nth_page 0x400000 i) \<longrightarrow> drop_bit 13 (t_entryhi t) = drop_bit 13 (t_badvaddr t) \<longrightarrow>
       (\<exists>t'. tlb_refill True 0x80000800 0 (\<lambda>_. 0x80200000) (fst s') t = (True, t') \<and>
          entry_translates (t_entryhi t AND 0xff) (t_entries t' (unat (t_random t))) (t_badvaddr t) =
            Some (0x300000 + of_nat (i * 4096) + ucast (t_badvaddr t AND mask 12), VMA_WRITE AND VMA_WRITE \<noteq> 0))"
    using tlb_refill_after_map [OF example_mips_wf(1) [OF st(2,4)], of 1 "0x400000" "0x300000" "0x1000" "\<lambda>_. 0x80200000" "0x80000800" 0 "\<lambda>_ _. Hang" 0
        "\<lambda>_ _. Hang" "\<lparr>m_pdev = 0, m_ptev = 0, m_pdx = 0, m_ptx = 0\<rparr>" VMA_WRITE True]
    by (auto simp: mips_lookup_def aligned_4096 simp del: page_avail.simps)
  have "page (0x400123 :: u32) = page (nth_page 0x400000 0)" "drop_bit 13 (0x400000 :: u32) = drop_bit 13 0x400123"
    by (simp_all add: page_def nth_page_def drop_bit_eq_div)
  then have "\<exists>t'. tlb_refill True 0x80000800 0 (\<lambda>_. 0x80200000) (fst s') example_tlb = (True, t') \<and>
    entry_translates 0 (t_entries t' 7) 0x400123 = Some (0x300123, True)"
    using r [rule_format, of 0 example_tlb] by (auto simp: example_tlb_def mask_eq_exp_minus_1 VMA_WRITE_def)
  with st(1) s' show ?thesis by blast
qed

lemma tlb_flush_entries:
  assumes "n \<le> 2 ^ 32"
  shows "t_entries (tlb_flush n s) i = (if i < n then (ENTRYHI_DUMMY (of_nat i), 0, 0) else t_entries s i)"
  using assms
proof (induction n arbitrary: i)
  case (Suc n)
  then have "unat (of_nat n :: u32) = n" by (simp add: unat_of_nat take_bit_nat_eq_self_iff)
  then show ?case using Suc
    by (auto simp: tlb_flush_def tlbwi_def tlb_write_def write_c0_entrylo0_def write_c0_entrylo1_def less_Suc_eq)
qed (simp add: tlb_flush_def)

text \<open>
  After \<open>mips_arch_mm_init\<close> no entry of the TLB translates any address in any address space, and the entries
  are for different pairs of pages, as the processor demands, for each of the sizes of the TLB that
  the code knows.
\<close>

theorem mips_arch_mm_init_flushes:
  assumes "n = msim_get_tlb_entries \<or> n = get_tlb_entries config1"
  shows "(\<forall>i < n. \<forall>asid v. entry_translates asid (t_entries (mips_arch_mm_init n s) i) v = None) \<and>
    inj_on (\<lambda>i. drop_bit 13 (fst (t_entries (mips_arch_mm_init n s) i))) {..<n}"
proof -
  have "unat ((x AND 0x3f) + 1 :: u32) \<le> 64" for x
  proof -
    have "unat (x AND mask 6) < 64" using unat_and_mask [of x 6] by simp
    moreover have "(0x3f :: u32) = mask 6" by (simp add: mask_eq_exp_minus_1)
    ultimately show ?thesis by (simp only:) (subst unat_add_no_overflow; simp)
  qed
  then have n: "n \<le> 64" using assms by (auto simp: msim_get_tlb_entries_def get_tlb_entries_def)
  have e: "t_entries (mips_arch_mm_init n s) i = (ENTRYHI_DUMMY (of_nat i), 0, 0)" if "i < n" for i
    using that n by (simp add: mips_arch_mm_init_def tlb_flush_entries)
  have d: "drop_bit 13 (ENTRYHI_DUMMY (of_nat i)) = of_nat i" if "i < n" for i
  proof -
    have "unat (of_nat i :: u32) = i" using that n by (simp add: unat_of_nat take_bit_nat_eq_self_iff)
    moreover from this have "unat (of_nat i * 8192 :: u32) = i * 8192" using that n by (simp add: unat_word_ariths)
    ultimately show ?thesis
      by (simp add: ENTRYHI_DUMMY_def word_unat_eq_iff drop_bit_eq_div push_bit_eq_mult unat_div)
  qed
  have "inj_on (\<lambda>i. drop_bit 13 (fst (t_entries (mips_arch_mm_init n s) i))) {..<n}"
  proof (rule inj_onI)
    fix i j assume ij: "i \<in> {..<n}" "j \<in> {..<n}"
      "drop_bit 13 (fst (t_entries (mips_arch_mm_init n s) i)) = drop_bit 13 (fst (t_entries (mips_arch_mm_init n s) j))"
    then have "unat (of_nat i :: u32) = unat (of_nat j :: u32)" using e d by simp
    then show "i = j" using ij n by (simp add: unat_of_nat take_bit_nat_eq_self_iff)
  qed
  then show ?thesis using e by (simp add: entry_translates_def)
qed

theorem mips_arch_mm_init_flushes_witness: "entry_translates 0 (t_entries (mips_arch_mm_init 48 example_tlb) 5) 0xA000 = None"
  using mips_arch_mm_init_flushes [of 48 0 example_tlb] by (simp add: msim_get_tlb_entries_def)

end
