(* ===== verification/EarlyInit.thy ===== *)
theory EarlyInit
  imports Serial ArmMm
begin

text \<open>
  The first stage of the kernel, \<open>kern/init/early_init.c\<close>, with the routines of the architectures that
  it calls (\<open>kern/arch/*/arch_init.c\<close>, \<open>mmu_init\<close> of \<open>kern/arch/*/mm.c\<close>): early mappings, the bus, the
  console, the boot page tables, the MMU and the jump to the upper addresses. Messages are left out.
\<close>

section \<open>early\_init.c\<close>

text \<open>
  What the architecture and the console driver provide: \<open>'p\<close> is the memory of page tables, \<open>'c\<close> the
  control registers, \<open>'d\<close> the devices. The addresses of variables are arguments.
\<close>

record ('p, 'c, 'd) arch_early =
  a_arch_init :: "serial_machine \<Rightarrow> serial_machine outcome"
  a_console_init :: "serial_machine \<Rightarrow> 'd \<Rightarrow> (serial_machine \<times> 'd) outcome"
  a_index_clear :: "u32 \<Rightarrow> 'p \<Rightarrow> 'p"
  a_early_map :: "u32 \<Rightarrow> addr_t \<Rightarrow> u32 \<Rightarrow> u32 \<Rightarrow> 'p \<Rightarrow> (int \<times> 'p) outcome"
  a_mmu_init :: "u32 \<Rightarrow> 'c \<Rightarrow> 'c"
  a_mmu_handlers :: "serial_machine \<Rightarrow> serial_machine"
  a_premap :: "u32 \<Rightarrow> u32"
  a_postmap :: "u32 \<Rightarrow> u32"
  a_kva2pa :: "u32 \<Rightarrow> u32"

text \<open>The result of \<open>page_index_init\<close> is not looked at.\<close>

definition early_mm_init :: "('p, 'c, 'd) arch_early \<Rightarrow> u32 \<Rightarrow> serial_machine \<Rightarrow> 'p \<Rightarrow> 'c \<Rightarrow> (serial_machine \<times> 'p \<times> 'c) outcome" where
  "early_mm_init a boot_page_index m p c =
     (let index = premap_addr (a_premap a) boot_page_index
      in obind (page_index_init (a_index_clear a index) (a_early_map a index) (sm_early m) p) (\<lambda>(_, p).
           let c = a_mmu_init a (a_kva2pa a (postmap_addr (a_postmap a) boot_page_index)) c
           in Ret (a_mmu_handlers a m, p, c)))"

text \<open>The last component of the result is the address that \<open>abs_jump\<close> gets.\<close>

definition master_early_init :: "('p, 'c, 'd) arch_early \<Rightarrow> u32 \<Rightarrow> u32 \<Rightarrow> serial_machine \<Rightarrow> 'p \<Rightarrow> 'c \<Rightarrow> 'd \<Rightarrow>
    (serial_machine \<times> 'p \<times> 'c \<times> 'd \<times> u32) outcome" where
  "master_early_init a boot_page_index master_upper_entry m p c d =
     (let m = m\<lparr>sm_early := early_mapping_clear (sm_early m)\<rparr>;
          m = m\<lparr>mach_mmu := mmu_handlers_clear (mach_mmu m)\<rparr>
      in obind (a_arch_init a m) (\<lambda>m.
         obind (a_console_init a m d) (\<lambda>(m, d).
         obind (early_mm_init a boot_page_index m p c) (\<lambda>(m, p, c).
           Ret (m, p, c, d, postmap_addr (a_postmap a) master_upper_entry)))))"

definition slave_early_init :: "unit outcome" where
  "slave_early_init = Panic"

section \<open>The architectures\<close>

subsection \<open>ARM\<close>

text \<open>The base of the tables, the domain access and the control register of coprocessor 15.\<close>

record arm_mmu =
  ttbr0 :: u32
  dacr :: u32
  sctlr :: u32

definition arm_mmu_init :: "u32 \<Rightarrow> arm_mmu \<Rightarrow> arm_mmu" where
  "arm_mmu_init index c = c\<lparr>ttbr0 := index, dacr := 0x1, sctlr := sctlr c OR 0x1\<rparr>"

text \<open>\<open>early_mach_init\<close> of Zynq does nothing.\<close>

definition arm_early_arch_init :: "u32 \<Rightarrow> addr_t \<Rightarrow> serial_machine \<Rightarrow> serial_machine outcome" where
  "arm_early_arch_init ram_physbase ram_size m =
     obind (io_mem_init early_memory_bus m) (\<lambda>m.
       let mem_base = (ucast ram_physbase :: addr_t);
           desc = \<lparr>em_paddr = mem_base, em_vaddr = ucast mem_base, em_size = ucast ram_size, em_type = EARLY_MAPPING_TEMP\<rparr>
       in obind (early_mapping_add desc (sm_early m)) (\<lambda>(_, e).
          obind (early_mapping_add_memory mem_base (ucast ram_size) e) (\<lambda>(_, e).
            Ret (m\<lparr>sm_early := e\<rparr>))))"

definition arm_early :: "u32 \<Rightarrow> addr_t \<Rightarrow> 'k arm_ops \<Rightarrow> 'd plat \<Rightarrow> uart_cfg \<Rightarrow> ('k astate, arm_mmu, 'd) arch_early" where
  "arm_early physbase sz u p cfg =
     \<lparr>a_arch_init = arm_early_arch_init physbase sz,
      a_console_init = zynq_console_init p cfg,
      a_index_clear = (\<lambda>index (mem, k). (arm_page_index_clear index mem, k)),
      a_early_map = arm_page_index_early_map u,
      a_mmu_init = arm_mmu_init,
      a_mmu_handlers = apply_mmu_handlers Zynq cfg,
      a_premap = arm_kva2pa physbase, a_postmap = arm_pa2kva physbase, a_kva2pa = arm_kva2pa physbase\<rparr>"

subsection \<open>MIPS\<close>

text \<open>
  The kernel runs at its final addresses from the start, so that the page index and the MMU are
  left alone and addresses are not changed. The machine is MSIM.
\<close>

definition mips_early_arch_init :: "(buses \<Rightarrow> buses) \<Rightarrow> serial_machine \<Rightarrow> serial_machine outcome" where
  "mips_early_arch_init early_mach_init m =
     obind (io_mem_init early_memory_bus m) (\<lambda>m. Ret (m\<lparr>mach_buses := early_mach_init (mach_buses m)\<rparr>))"

definition mips_page_index_early_map :: "u32 \<Rightarrow> addr_t \<Rightarrow> u32 \<Rightarrow> u32 \<Rightarrow> 'p \<Rightarrow> (int \<times> 'p) outcome" where
  "mips_page_index_early_map index pa va len p = Ret (0, p)"

definition msim_early :: "uart_cfg \<Rightarrow> ('p, 'c, 'd) arch_early" where
  "msim_early cfg =
     \<lparr>a_arch_init = mips_early_arch_init id,
      a_console_init = (\<lambda>m d. obind (msim_console_init cfg m) (\<lambda>m. Ret (m, d))),
      a_index_clear = (\<lambda>index p. p),
      a_early_map = mips_page_index_early_map,
      a_mmu_init = (\<lambda>index c. c),
      a_mmu_handlers = apply_mmu_handlers MSIM cfg,
      a_premap = id, a_postmap = id, a_kva2pa = mips_kva2pa\<rparr>"

subsection \<open>i386\<close>

record i386_cr =
  cr0 :: u32
  cr3 :: u32
  cr4 :: u32

definition CR0_WP :: u32 where "CR0_WP = 0x00010000"
definition CR0_PG :: u32 where "CR0_PG = 0x80000000"
definition CR4_PSE :: u32 where "CR4_PSE = 0x00000010"

definition i386_mmu_init :: "u32 \<Rightarrow> i386_cr \<Rightarrow> i386_cr" where
  "i386_mmu_init index c = c\<lparr>cr4 := cr4 c OR CR4_PSE, cr3 := index, cr0 := cr0 c OR (CR0_PG OR CR0_WP)\<rparr>"

text \<open>\<open>es\<close> are the entries of the memory map of the firmware; the size of memory is not kept here.\<close>

definition i386_early_arch_init :: "e820entry list \<Rightarrow> serial_machine \<Rightarrow> serial_machine outcome" where
  "i386_early_arch_init es m =
     obind (portio_bus_init portio_bus m) (\<lambda>m.
       obind (probe_memory es 0 (sm_early m)) (\<lambda>(mem_size, e). Ret (m\<lparr>sm_early := e\<rparr>)))"

definition i386_early :: "e820entry list \<Rightarrow> 'd plat \<Rightarrow> uart_cfg \<Rightarrow> (32 mem, i386_cr, 'd) arch_early" where
  "i386_early es p cfg =
     \<lparr>a_arch_init = i386_early_arch_init es,
      a_console_init = ns16550_console_init p cfg,
      a_index_clear = i386_page_index_clear,
      a_early_map = i386_page_index_early_map,
      a_mmu_init = i386_mmu_init,
      a_mmu_handlers = apply_mmu_handlers NS16550 cfg,
      a_premap = i386_premap, a_postmap = i386_postmap, a_kva2pa = i386_kva2pa\<rparr>"

section \<open>The early mappings of ARM\<close>

text \<open>The queues in zero-initialised memory.\<close>

definition boot_machine :: "serial_machine \<Rightarrow> bool" where
  "boot_machine m \<longleftrightarrow> h_count (mach_jump m) = 0 \<and> length (h_queue (mach_jump m)) = JUMP_HANDLER_QUEUE_LENGTH \<and>
     length (h_queue (mach_mmu m)) = MMU_HANDLER_QUEUE_LENGTH \<and> length (em_queue (sm_early m)) = EARLY_MAPPING_QUEUE_LENGTH"

lemma boot_machine_clear:
  assumes "boot_machine m"
  defines "m0 \<equiv> m\<lparr>sm_early := early_mapping_clear (sm_early m), mach_mmu := mmu_handlers_clear (mach_mmu m)\<rparr>"
  shows "fresh_machine m0" "sm_early m0 = early_mapping_clear (sm_early m)"
  using assms(1) by (simp_all add: m0_def fresh_machine_def boot_machine_def early_mapping_clear_def mmu_handlers_clear_def queue_defs)

definition arm_mappings :: "u32 \<Rightarrow> u32 \<Rightarrow> early_mapping list" where
  "arm_mappings physbase sz =
     [\<lparr>em_paddr = ucast physbase, em_vaddr = physbase, em_size = sz, em_type = EARLY_MAPPING_TEMP\<rparr>,
      \<lparr>em_paddr = ucast physbase, em_vaddr = KERN_BASE, em_size = sz, em_type = EARLY_MAPPING_MEMORY\<rparr>]"

lemma arm_mappings_added:
  assumes "length (em_queue e) = EARLY_MAPPING_QUEUE_LENGTH" and "ram \<le> KMMAP_BASE - KERN_BASE"
  shows "\<exists>e1 e2 r. early_mapping_add (arm_mappings physbase ram ! 0) (early_mapping_clear e) = Ret (0, e1) \<and>
    early_mapping_add_memory (ucast physbase) ram e1 = Ret (r, e2) \<and>
    early_wf e2 \<and> early_mappings e2 = arm_mappings physbase ram \<and> em_count e2 = 2 \<and> kmmap_top e2 = KMMAP_BASE"
proof -
  let ?c = "early_mapping_clear e" and ?a = "arm_mappings physbase ram ! 0" and ?b = "arm_mappings physbase ram ! 1"
  let ?e1 = "?c\<lparr>em_queue := (em_queue ?c)[em_count ?c := ?a], em_count := em_count ?c + 1\<rparr>"
  let ?e2 = "?e1\<lparr>em_queue := (em_queue ?e1)[em_count ?e1 := ?b], em_count := em_count ?e1 + 1\<rparr>"
  have c: "early_wf ?c" "em_count ?c = 0" "mem_top ?c = KERN_BASE" "kmmap_top ?c = KMMAP_BASE" "early_mappings ?c = []"
    using assms(1) by (simp_all add: early_mapping_clear_def early_wf_def early_mappings_def)
  have l: "em_count ?c < EARLY_MAPPING_QUEUE_LENGTH" "em_count ?e1 < EARLY_MAPPING_QUEUE_LENGTH"
    by (simp_all add: c(2) EARLY_MAPPING_QUEUE_LENGTH_def)
  note s1 = early_mapping_add_eq(2,3) [OF c(1) l(1), of ?a]
  note s2 = early_mapping_add_eq(2,3) [OF s1(2) l(2), of ?b]
  have "early_mapping_add ?a ?c = Ret (0, ?e1)" using l(1) by (simp add: early_mapping_add_def)
  moreover have "\<not> KMMAP_BASE \<le> KERN_BASE" by (simp add: KMMAP_BASE_def KERN_BASE_def)
  then have "early_mapping_add_memory (ucast physbase) ram ?e1 = Ret (ram, ?e2\<lparr>mem_top := KERN_BASE + ram\<rparr>)"
    using l(2) assms(2) c by (simp add: early_mapping_add_memory_def early_mapping_add_def Let_def arm_mappings_def leD)
  ultimately show ?thesis
    using s1 s2 c by (fastforce simp: early_wf_def early_mappings_def arm_mappings_def)
qed

definition uart_mapping :: early_mapping where
  "uart_mapping = \<lparr>em_paddr = UART0_PHYSBASE, em_vaddr = KMMAP_BASE, em_size = push_bit 20 1, em_type = EARLY_MAPPING_KMMAP\<rparr>"

text \<open>The machine after the initialisation of bus, mappings and console.\<close>

lemma arm_devices_ready:
  assumes "boot_machine m" and "ucast ram \<le> KMMAP_BASE - KERN_BASE"
    and m0: "m0 = m\<lparr>sm_early := early_mapping_clear (sm_early m), mach_mmu := mmu_handlers_clear (mach_mmu m)\<rparr>"
  shows "\<exists>m1 m2 d'. arm_early_arch_init physbase ram m0 = Ret m1 \<and> zynq_console_init p cfg m1 d = Ret (m2, d') \<and>
    early_wf (sm_early m2) \<and> early_mappings (sm_early m2) = arm_mappings physbase (ucast ram) @ [uart_mapping] \<and>
    cd_base (sm_uart (apply_mmu_handlers Zynq cfg m2)) = ucast (KMMAP_BASE + 0x1000) \<and>
    cd_bus (sm_uart (apply_mmu_handlers Zynq cfg m2)) = early_memory_bus \<and> mem_bus_ready (mach_buses (apply_mmu_handlers Zynq cfg m2))"
proof -
  have len: "length (em_queue (sm_early m)) = EARLY_MAPPING_QUEUE_LENGTH" using assms(1) by (simp add: boot_machine_def)
  obtain e1 e2 r where e: "early_mapping_add (arm_mappings physbase (ucast ram) ! 0) (early_mapping_clear (sm_early m)) = Ret (0, e1)"
    "early_mapping_add_memory (ucast physbase) (ucast ram) e1 = Ret (r, e2)"
    "early_wf e2" "early_mappings e2 = arm_mappings physbase (ucast ram)" "em_count e2 = 2" "kmmap_top e2 = KMMAP_BASE"
    using arm_mappings_added [OF len assms(2), of physbase] by blast
  have f0: "fresh_machine m0" using boot_machine_clear(1) [OF assms(1)] m0 by simp
  then have f: "fresh_machine (m0\<lparr>sm_early := e2\<rparr>)"
    using e(3,5,6) by (simp add: fresh_machine_def early_wf_def queue_defs)
  note i0 = io_mem_init_fresh [OF f0] and i = io_mem_init_fresh [OF f]
  define m1 where "m1 = m0\<lparr>sm_early := e2, mach_buses := set_getters early_memory_bus MemGetter (mach_buses m0),
    mach_jump := \<lparr>h_count = 1, h_queue = (h_queue (mach_jump m0))[0 := MemJump]\<rparr>\<rparr>"
  have a: "arm_early_arch_init physbase ram m0 = Ret m1"
    using i0 e(1,2) by (simp add: arm_early_arch_init_def Let_def arm_mappings_def m0 m1_def)
  have "io_mem_init early_memory_bus (m0\<lparr>sm_early := e2\<rparr>) = Ret m1" using i by (simp add: m1_def)
  from zynq_console_fresh [OF f this, of p cfg d] obtain d' where
    z: "zynq_console_init p cfg m1 d = Ret (zynq_registered cfg (m0\<lparr>sm_early := e2\<rparr>) m1, d')" by blast
  let ?m2 = "zynq_registered cfg (m0\<lparr>sm_early := e2\<rparr>) m1"
  have "em_count e2 < EARLY_MAPPING_QUEUE_LENGTH" by (simp add: e(5) EARLY_MAPPING_QUEUE_LENGTH_def)
  note s = early_mapping_add_eq(2,3) [OF e(3) this, of uart_mapping]
  have early: "sm_early ?m2 = e2\<lparr>em_queue := (em_queue e2)[em_count e2 := uart_mapping], em_count := em_count e2 + 1,
      kmmap_top := KMMAP_BASE + push_bit 20 1\<rparr>"
    by (simp add: zynq_registered_def uart_mapping_def del: push_bit_of_1)
  have "early_wf (sm_early ?m2)" "early_mappings (sm_early ?m2) = arm_mappings physbase (ucast ram) @ [uart_mapping]"
    using s e(4) unfolding early by (simp_all add: early_wf_def early_mappings_def)
  moreover have "apply_mmu_handlers Zynq cfg ?m2 = run_handler Zynq cfg UartMmu ?m2"
  proof -
    have "[0..<Suc 0] = [0]" "0 < length (h_queue (mach_mmu m0))" using f0 by (simp_all add: fresh_machine_def queue_defs)
    then show ?thesis by (simp add: apply_mmu_handlers_def mmu_handlers_apply_def named_handlers_def zynq_registered_def)
  qed
  moreover have "mem_bus_ready (mach_buses m1)" by (simp add: m1_def)
  ultimately show ?thesis using a z by (fastforce simp: zynq_mmu_handler_def zynq_registered_def)
qed

section \<open>The boot tables of ARM\<close>

lemma unat_widen: "unat (ucast (x :: u32) :: u64) = unat x"
  using unat_bound [of x] by (simp add: unsigned_ucast_eq unsigned_take_bit_eq take_bit_eq_mod)

lemma ucast_widen: "ucast (ucast (x :: u32) :: u64) = x"
  by (simp add: word_unat_eq_iff unsigned_ucast_eq unsigned_take_bit_eq take_bit_eq_mod)

text \<open>
  What the early mappings are for: memory at its physical addresses, where the code runs when the
  MMU comes on, memory at the addresses of the kernel, and the registers of the serial lines.
\<close>

definition arm_boot_translation :: "u32 \<Rightarrow> u32 \<Rightarrow> u32 \<Rightarrow> u32 option" where
  "arm_boot_translation physbase sz w =
     (if unat KMMAP_BASE \<le> unat w \<and> unat w < unat KMMAP_BASE + 2 ^ 20 then Some (ucast UART0_PHYSBASE + (w - KMMAP_BASE))
      else if unat KERN_BASE \<le> unat w \<and> unat w < unat KERN_BASE + unat sz then Some (arm_kva2pa physbase w)
      else if unat physbase \<le> unat w \<and> unat w < unat physbase + unat sz then Some w
      else None)"

lemma cleared_tables: "no_tables idx (arm_page_index_clear idx mem)" "arm_sect_walk idx (arm_page_index_clear idx mem) w = None"
proof -
  have z: "arm_page_index_clear idx mem (cell idx i) = 0" if "i < 4096" for i
  proof -
    have "unat (4 * i) = 4 * unat i" using that by (simp add: word_less_nat_alt unat_word_ariths)
    then show ?thesis using that by (simp add: arm_page_index_clear_def cell_def ARM_PT_L1_SIZE_def ARM_PT_L1_LENGTH_def word_less_nat_alt)
  qed
  then show "no_tables idx (arm_page_index_clear idx mem)" by (simp add: no_tables_def)
  have "drop_bit 20 w < 4096" using unat_bound [of w] by (simp add: word_less_nat_alt unat_l1_index less_mult_imp_div_less)
  then show "arm_sect_walk idx (arm_page_index_clear idx mem) w = None" by (simp add: arm_sect_walk_def z)
qed

lemma arm_boot_tables:
  assumes "2 ^ 20 dvd unat physbase" "2 ^ 20 dvd unat sz" and "unat physbase + unat sz \<le> unat KERN_BASE"
    and "unat KERN_BASE + unat sz \<le> unat KMMAP_BASE"
  shows "\<exists>mem'. map_all (arm_page_index_early_map u idx) (arm_mappings physbase sz @ [uart_mapping]) (arm_page_index_clear idx mem, k) =
      Ret (0, mem', k) \<and> (\<forall>w. arm_sect_walk idx mem' w = arm_boot_translation physbase sz w)"
proof -
  let ?pa = "ucast physbase :: u64"
  have pa: "2 ^ 20 dvd unat ?pa" using assms(1) by (simp only: unat_widen)
  have k: "2 ^ 20 dvd unat KERN_BASE" "2 ^ 20 dvd unat KMMAP_BASE" "2 ^ 20 dvd unat UART0_PHYSBASE" "2 ^ 20 dvd unat (push_bit 20 1 :: u32)"
    "unat (push_bit 20 1 :: u32) = 2 ^ 20"
    by (simp_all add: KERN_BASE_def KMMAP_BASE_def UART0_PHYSBASE_def push_bit_eq_mult)
  have b: "unat physbase + unat sz < 2 ^ 32" "unat KERN_BASE + unat sz < 2 ^ 32" "unat KMMAP_BASE + unat (push_bit 20 1 :: u32) < 2 ^ 32"
    using assms(3,4) by (simp_all add: k(5)) (simp_all add: KERN_BASE_def KMMAP_BASE_def)
  obtain m1 where m1: "arm_page_index_early_map u idx ?pa physbase sz (arm_page_index_clear idx mem, k) = Ret (0, m1, k)" "no_tables idx m1"
    "\<forall>w. arm_sect_walk idx m1 w = (if unat physbase \<le> unat w \<and> unat w < unat physbase + unat sz then Some (ucast ?pa + (w - physbase)) else None)"
    using arm_early_map_sections [OF assms(1) pa assms(2) b(1) cleared_tables(1), of u idx mem k] by (auto simp: cleared_tables(2))
  obtain m2 where m2: "arm_page_index_early_map u idx ?pa KERN_BASE sz (m1, k) = Ret (0, m2, k)" "no_tables idx m2"
    "\<forall>w. arm_sect_walk idx m2 w = (if unat KERN_BASE \<le> unat w \<and> unat w < unat KERN_BASE + unat sz then Some (ucast ?pa + (w - KERN_BASE))
       else arm_sect_walk idx m1 w)"
    using arm_early_map_sections [OF k(1) pa assms(2) b(2) m1(2), of u k] by blast
  obtain m3 where m3: "arm_page_index_early_map u idx UART0_PHYSBASE KMMAP_BASE (push_bit 20 1) (m2, k) = Ret (0, m3, k)" "no_tables idx m3"
    "\<forall>w. arm_sect_walk idx m3 w = (if unat KMMAP_BASE \<le> unat w \<and> unat w < unat KMMAP_BASE + 2 ^ 20
       then Some (ucast UART0_PHYSBASE + (w - KMMAP_BASE)) else arm_sect_walk idx m2 w)"
    using arm_early_map_sections [OF k(2,3,4) b(3) m2(2), of u k] unfolding k(5) by blast
  have c: "ucast ?pa = physbase" by (rule ucast_widen)
  have "arm_sect_walk idx m3 w = arm_boot_translation physbase sz w" for w
    using m1(3) m2(3) m3(3) by (simp add: arm_boot_translation_def c arm_kva2pa_def algebra_simps)
  moreover have "map_all (arm_page_index_early_map u idx) (arm_mappings physbase sz @ [uart_mapping]) (arm_page_index_clear idx mem, k) = Ret (0, m3, k)"
    using m1(1) m2(1) m3(1) by (simp add: arm_mappings_def uart_mapping_def EOF_def del: push_bit_of_1)
  ultimately show ?thesis by blast
qed

text \<open>
  C16: The first stage of the kernel on a Zynq, from the queues to the jump. With memory of whole
  sections below the kernel's addresses, \<open>master_early_init\<close> returns: the MMU is on with the boot page
  index, through which the processor finds memory at its physical addresses, memory at the addresses of
  the kernel, the serial lines at the top and nothing else. The jump goes to an address that is the
  entry in memory, and the console uses an address that is its line, on a bus that works.
\<close>

theorem arm_early_boot:
  assumes "boot_machine m" and "2 ^ 20 dvd unat physbase" "2 ^ 20 dvd unat ram"
    and "unat physbase + unat ram \<le> unat KERN_BASE" "unat KERN_BASE + unat ram \<le> unat KMMAP_BASE"
    and "KERN_BASE \<le> boot_page_index" and "unat KERN_BASE \<le> unat entry" "unat entry < unat KERN_BASE + unat ram"
  shows "\<exists>m' mem' c' d'. master_early_init (arm_early physbase (ucast ram) u p cfg) boot_page_index entry m (mem, k) c d =
      Ret (m', (mem', k), c', d', entry) \<and>
    c' = \<lparr>ttbr0 = arm_kva2pa physbase boot_page_index, dacr = 1, sctlr = sctlr c OR 1\<rparr> \<and>
    (\<forall>w. arm_sect_walk (ttbr0 c') mem' w = arm_boot_translation physbase ram w) \<and>
    arm_boot_translation physbase ram entry = Some (arm_kva2pa physbase entry) \<and>
    arm_boot_translation physbase ram (ucast (cd_base (sm_uart m'))) = Some (ucast UART1_PHYSBASE) \<and>
    cd_bus (sm_uart m') = early_memory_bus \<and> mem_bus_ready (mach_buses m')"
proof -
  let ?i = "arm_kva2pa physbase boot_page_index" and ?a = "arm_early physbase (ucast ram) u p cfg"
  have r: "ucast (ucast ram :: u64) = ram" by (rule ucast_widen)
  have "ram \<le> KMMAP_BASE - KERN_BASE" using assms(5) by (simp add: word_le_nat_alt KMMAP_BASE_def KERN_BASE_def)
  then have le: "ucast (ucast ram :: u64) \<le> KMMAP_BASE - KERN_BASE" by (simp only: r)
  obtain m1 m2 d' where m: "arm_early_arch_init physbase (ucast ram) (m\<lparr>sm_early := early_mapping_clear (sm_early m), mach_mmu := mmu_handlers_clear (mach_mmu m)\<rparr>) = Ret m1"
    "zynq_console_init p cfg m1 d = Ret (m2, d')" "early_wf (sm_early m2)" "early_mappings (sm_early m2) = arm_mappings physbase ram @ [uart_mapping]"
    "cd_base (sm_uart (apply_mmu_handlers Zynq cfg m2)) = ucast (KMMAP_BASE + 0x1000)"
    "cd_bus (sm_uart (apply_mmu_handlers Zynq cfg m2)) = early_memory_bus" "mem_bus_ready (mach_buses (apply_mmu_handlers Zynq cfg m2))"
    using arm_devices_ready [OF assms(1) le refl, of physbase p cfg d] unfolding r by blast
  obtain mem' where t: "map_all (arm_page_index_early_map u ?i) (arm_mappings physbase ram @ [uart_mapping]) (arm_page_index_clear ?i mem, k) =
      Ret (0, mem', k)" "\<forall>w. arm_sect_walk ?i mem' w = arm_boot_translation physbase ram w"
    using arm_boot_tables [OF assms(2-5), of u ?i mem k] by blast
  have "page_index_init (\<lambda>(mem, k). (arm_page_index_clear ?i mem, k)) (arm_page_index_early_map u ?i) (sm_early m2) (mem, k) = Ret (0, mem', k)"
    unfolding page_index_init_visits [OF m(3), THEN conjunct1] m(4) using t(1) by simp
  then have "early_mm_init ?a boot_page_index m2 (mem, k) c = Ret (apply_mmu_handlers Zynq cfg m2, (mem', k), arm_mmu_init ?i c)"
    using assms(6) by (simp add: early_mm_init_def arm_early_def premap_addr_def postmap_addr_def Let_def)
  moreover have "KERN_BASE \<le> entry" using assms(7) by (simp add: word_le_nat_alt)
  ultimately have "master_early_init ?a boot_page_index entry m (mem, k) c d =
      Ret (apply_mmu_handlers Zynq cfg m2, (mem', k), arm_mmu_init ?i c, d', entry)"
    using m(1,2) by (simp add: master_early_init_def arm_early_def Let_def postmap_addr_def)
  moreover have "\<not> (unat KMMAP_BASE \<le> unat entry)" using assms(5,8) by linarith
  then have "arm_boot_translation physbase ram entry = Some (arm_kva2pa physbase entry)"
    using assms(7,8) by (simp add: arm_boot_translation_def)
  moreover have "arm_boot_translation physbase ram (ucast (ucast (KMMAP_BASE + 0x1000) :: u64)) = Some (ucast UART1_PHYSBASE)"
    by (simp add: arm_boot_translation_def KMMAP_BASE_def UART0_PHYSBASE_def UART1_PHYSBASE_def)
  moreover have "arm_mmu_init ?i c = \<lparr>ttbr0 = ?i, dacr = 1, sctlr = sctlr c OR 1\<rparr>" by (simp add: arm_mmu_init_def)
  ultimately show ?thesis using t(2) m(5-7) by (intro exI [of _ "apply_mmu_handlers Zynq cfg m2"]) auto
qed

theorem arm_early_boot_witness:
  "\<exists>m' mem' d'. master_early_init (arm_early 0 0x10000000 \<lparr>l1_alloc = (\<lambda>s. Ret (0, s)), l1_free = (\<lambda>p s. Ret s),
        l2_alloc = (\<lambda>s. Ret (0, s)), l2_free = (\<lambda>p s. Ret s)\<rparr> echo_plat sim_cfg) 0x80004000 0x80008000
      (sim_machine\<lparr>mach_buses := initial_buses, mach_mmu := \<lparr>h_count = 3, h_queue = replicate 10 UartMmu\<rparr>,
        mach_jump := \<lparr>h_count = 0, h_queue = replicate 10 UartMmu\<rparr>,
        sm_early := \<lparr>em_count = 7, em_queue = replicate 10 \<lparr>em_paddr = 0, em_vaddr = 0, em_size = 0, em_type = 0\<rparr>, mem_top = 0, kmmap_top = 0\<rparr>\<rparr>)
      (\<lambda>_. 1, ()) \<lparr>ttbr0 = 0, dacr = 0, sctlr = 0x50\<rparr> [] =
      Ret (m', (mem', ()), \<lparr>ttbr0 = 0x4000, dacr = 1, sctlr = 0x51\<rparr>, d', 0x80008000) \<and>
    arm_sect_walk 0x4000 mem' 0x80123456 = Some 0x123456"
proof -
  let ?u = "\<lparr>l1_alloc = (\<lambda>s. Ret (0, s)), l1_free = (\<lambda>p s. Ret s), l2_alloc = (\<lambda>s. Ret (0, s)), l2_free = (\<lambda>p s. Ret s)\<rparr> :: unit arm_ops"
  let ?m = "sim_machine\<lparr>mach_buses := initial_buses, mach_mmu := \<lparr>h_count = 3, h_queue = replicate 10 UartMmu\<rparr>,
        mach_jump := \<lparr>h_count = 0, h_queue = replicate 10 UartMmu\<rparr>,
        sm_early := \<lparr>em_count = 7, em_queue = replicate 10 \<lparr>em_paddr = 0, em_vaddr = 0, em_size = 0, em_type = 0\<rparr>, mem_top = 0, kmmap_top = 0\<rparr>\<rparr>"
  have b: "boot_machine ?m" unfolding boot_machine_def by (intro conjI) (simp_all add: queue_defs)
  have h: "2 ^ 20 dvd unat (0 :: u32)" "2 ^ 20 dvd unat (0x10000000 :: u32)" "unat (0 :: u32) + unat (0x10000000 :: u32) \<le> unat KERN_BASE"
    "unat KERN_BASE + unat (0x10000000 :: u32) \<le> unat KMMAP_BASE" "KERN_BASE \<le> 0x80004000" "unat KERN_BASE \<le> unat (0x80008000 :: u32)"
    "unat (0x80008000 :: u32) < unat KERN_BASE + unat (0x10000000 :: u32)"
    by (simp_all add: KERN_BASE_def KMMAP_BASE_def)
  have i: "arm_kva2pa 0 0x80004000 = 0x4000" "0x50 OR 1 = (0x51 :: u32)"
    "arm_boot_translation 0 0x10000000 0x80123456 = Some 0x123456"
    by (simp_all add: arm_kva2pa_def arm_boot_translation_def KERN_BASE_def KMMAP_BASE_def)
  from arm_early_boot [OF b h, of ?u echo_plat sim_cfg "\<lambda>_. 1" "()" "\<lparr>ttbr0 = 0, dacr = 0, sctlr = 0x50\<rparr>" "[]"]
  show ?thesis unfolding i arm_mmu.simps using i by (force simp: ucast_widen)
qed

section \<open>MIPS\<close>

text \<open>On MSIM the first stage leaves tables and registers alone and makes the line the console.\<close>

lemma msim_early_boot:
  fixes p :: 'p and c :: 'c and d :: 'd
  assumes "boot_machine m"
  shows "\<exists>m'. master_early_init (msim_early cfg) boot_page_index entry m p c d = Ret (m', p, c, d, entry) \<and>
    cd_bus (sm_uart m') = early_memory_bus \<and> mem_bus_ready (mach_buses m') \<and>
    sm_con m' = \<lparr>con_putchar = fn_putchar cfg, con_puts = fn_kputs cfg\<rparr>"
proof -
  define m0 where "m0 = m\<lparr>sm_early := early_mapping_clear (sm_early m), mach_mmu := mmu_handlers_clear (mach_mmu m)\<rparr>"
  have f: "fresh_machine m0" using boot_machine_clear(1) [OF assms] by (simp add: m0_def)
  have q: "h_count (mach_mmu m0) = 0" "length (h_queue (mach_mmu m0)) = 10" using f by (simp_all add: fresh_machine_def queue_defs)
  define m1 where "m1 = m0\<lparr>mach_buses := set_getters early_memory_bus MemGetter (mach_buses m0),
    mach_jump := \<lparr>h_count = 1, h_queue = (h_queue (mach_jump m0))[0 := MemJump]\<rparr>\<rparr>"
  have a: "mips_early_arch_init id m0 = Ret m1"
    using io_mem_init_fresh [OF f] by (simp add: mips_early_arch_init_def m1_def)
  define m2 where "m2 = console_on cfg (m1\<lparr>sm_uart := (sm_uart m1)\<lparr>cd_bus := early_memory_bus\<rparr>, sm_kbd := (sm_kbd m1)\<lparr>cd_bus := early_memory_bus\<rparr>\<rparr>)"
  define m3 where "m3 = m2\<lparr>mach_mmu := \<lparr>h_count = 1, h_queue = (h_queue (mach_mmu m0))[0 := UartMmu]\<rparr>,
      mach_jump := \<lparr>h_count = 2, h_queue = (h_queue (mach_jump m1))[1 := UartJump]\<rparr>\<rparr>"
  have s2: "mach_mmu m2 = mach_mmu m0" "mach_jump m2 = mach_jump m1" by (simp_all add: m2_def m1_def console_on_def)
  have c: "msim_console_init cfg m1 = Ret m3"
    unfolding msim_console_init_def Let_def m2_def [symmetric] using add_handlers_fresh [of m2 Hang] s2 q by (simp add: m3_def m1_def)
  have "[0..<Suc 0] = [0]" by simp
  then have h: "apply_mmu_handlers MSIM cfg m3 = m3"
    using q by (simp add: apply_mmu_handlers_def mmu_handlers_apply_def named_handlers_def m3_def)
  have e: "sm_early m3 = early_mapping_clear (sm_early m)" by (simp add: m3_def m2_def m1_def m0_def console_on_def)
  have "early_wf (sm_early m3)" "early_mappings (sm_early m3) = []"
    using assms unfolding e by (simp_all add: boot_machine_def early_mapping_clear_def early_wf_def early_mappings_def)
  then have "page_index_init (\<lambda>p. p) (mips_page_index_early_map i) (sm_early m3) p = Ret (0, p)" for i
    using page_index_init_visits [of "sm_early m3" "\<lambda>p. p" "mips_page_index_early_map i" p, THEN conjunct1] by simp
  then have "early_mm_init (msim_early cfg :: ('p, 'c, 'd) arch_early) boot_page_index m3 p c = Ret (m3, p, c)"
    by (simp add: early_mm_init_def msim_early_def Let_def h)
  then have "master_early_init (msim_early cfg) boot_page_index entry m p c d = Ret (m3, p, c, d, entry)"
    using a c by (simp add: master_early_init_def msim_early_def Let_def m0_def [symmetric] postmap_addr_def)
  then show ?thesis by (simp add: m3_def m2_def m1_def console_on_def set_console_def)
qed

end
