(* ===== verification/Spec2Isabelle.thy ===== *)
theory Spec2Isabelle
  imports Hweight KernInit Slab Uvm Printf DevList Sync Atomic Firmware I386Trap ArmTrap MipsTrap MipsTlb MemReg EarlyInit
begin

text \<open>
  A verification development for AIMv6, a teaching operating system kernel in C for i386,
  MIPS and ARMv7-A. File names below are relative to the source tree.

  \<^bold>\<open>Conventions.\<close> \<open>Prelude\<close> has the machine integers, the error codes and the outcome of a
  routine: \<open>Ret\<close> a value, \<open>Panic\<close> a failed assertion, \<open>Fault\<close> an access or operation the program
  must not make, \<open>Hang\<close> a loop that does not end. Machines have 32-bit words and pointers unless a
  definition says otherwise, physical addresses have 64 bits. State is passed explicitly. A
  variable that the code reads before writing it is an argument, and so is what hardware does. Lists
  linked by \<open>struct list_head\<close> are lists of records that carry the address of their node. Definitions
  keep the names of the code, with the architecture or driver in front where several have one;
  constants keep the names of their macros.

  \<^bold>\<open>Parts: library.\<close> Each line names the theories, the code they model, and what is shown.
  \<^item> \<open>Util\<close>, \<open>Bitops\<close>, \<open>Hweight\<close>: \<open>include/util.h\<close>, \<open>include/bitops.h\<close> and the versions of the
    architectures. The searches for a bit are right, the Hamming weights count bits.
  \<^item> \<open>DList\<close>, \<open>NodeList\<close>: \<open>include/list.h\<close>, on a heap of pointers, and the same operations on
    lists of structures, which refine them.
  \<^item> \<open>Libc\<close>, \<open>Printf\<close>: \<open>lib/libc\<close>. \<open>memcpy\<close> copies, \<open>strcmp\<close> ends and orders, \<open>vsnprintf\<close> stays in
    its buffer, and printed digits denote the number.
  \<^item> \<open>Sync\<close>, \<open>Atomic\<close>: spinlocks and semaphores of \<open>kern/arch/*/sync.c\<close> and the counters of
    \<open>include/arch/*/atomic.h\<close> as relations of single instructions. Locales \<open>spinlock\<close> and
    \<open>atomic_counter\<close> are interpreted for the three architectures: mutual exclusion, and no lost update. On ARM
    mutual exclusion depends on a register that \<open>spin_lock\<close> tests without having written it; what it
    holds is an argument, and both outcomes are proved.

  \<^bold>\<open>Parts: memory.\<close>
  \<^item> \<open>Layout\<close>: page sizes and address conversion of the three architectures; round trips.
  \<^item> \<open>FreeList\<close>, \<open>KmemState\<close>, \<open>Pmm\<close>, \<open>Flff\<close>, \<open>BootHeap\<close>, \<open>Kmem\<close>: the page allocator
    \<open>kern/mm/pmm\<close>, the object allocator \<open>kern/mm/vmm/flff.c\<close> and their mutual dependence.
    Allocation and freeing act on the set of free pages as they should, in the boot phase, in which the
    bootstrap allocator serves the page allocator. Addresses of new pages are those of i386 (\<open>pa2kva\<close>
    adds \<open>KERN_BASE\<close>), which 32-bit MIPS shares for low memory and ARM for memory that starts at 0.
  \<^item> \<open>MemReg\<close>, \<open>KernInit\<close>: \<open>add_memory_pages\<close> of each architecture and the memory part of
    \<open>master_init\<close> (\<open>kern/init/init.c\<close>) with its test of the caches. From the bootstrap pool, exactly
    the memory behind the kernel is registered.
  \<^item> \<open>Slab\<close>: the caching allocator \<open>kern/mm/vmm/slab.c\<close> and its dispatch; an invariant, and what
    a sequence of allocations returns.
  \<^item> \<open>PageSource\<close>, \<open>PgTable\<close>, \<open>MipsPg\<close>, \<open>Mips64Pg\<close>, \<open>I386Pg\<close>: the page tables
    \<open>kern/arch/mips/pgtable.c\<close> (two levels for 32 bits, four for 64) and \<open>kern/arch/i386/pgtable.c\<close>.
    Locale \<open>page_source\<close> is what they ask of the page allocator, locale \<open>leaf_tables\<close> what the common
    loops ask of the descriptors; both are interpreted on the models, the first for the boot phase and for any
    later time, when single pages come from the front of a free block. Mapping and unmapping act on
    the entries that the processor looks at.
  \<^item> \<open>MipsTlb\<close>: the refill handler \<open>kern/arch/mips/tlbex.S\<close> and \<open>tlb_flush\<close>. After a mapping the handler
    loads an entry that translates.
  \<^item> \<open>EarlyMap\<close>: \<open>kern/mm/mmu.c\<close>, \<open>kern/arch/i386/mm.c\<close> and the probing of memory. Registered
    mappings of memory stay apart in every state that ARM and MIPS reach, i386 registers each range
    twice, and all are applied; the early map translates.
  \<^item> \<open>ArmMm\<close>: \<open>kern/arch/armv7a/mm.c\<close>. Mapping sections gives the translation asked for.
  \<^item> \<open>Uvm\<close>: the user memory maps \<open>kern/mm/uvm.c\<close> over page tables and allocators. The list of
    areas stays sorted where the words read from the list head do no harm, removal is exact, and what
    the failing path leaves is described.

  \<^bold>\<open>Parts: processor and start.\<close>
  \<^item> \<open>Segment\<close>, \<open>I386Trap\<close>: descriptors, gates and task state of i386 (\<open>kern/arch/i386/arch_init.c\<close>,
    \<open>include/arch/i386/segment.h\<close>), the vectors and \<open>trapentry.S\<close>. The processor finds the tables that
    are meant, and a trap gives the handler all registers and restores them.
  \<^item> \<open>ArmTrap\<close>, \<open>MipsTrap\<close>: \<open>vector.S\<close>, \<open>trapentry.S\<close>, \<open>trap.c\<close> and \<open>stack.h\<close> of the two architectures,
    with the same round trips.
  \<^item> \<open>EarlyInit\<close>: \<open>kern/init/early_init.c\<close> with \<open>early_arch_init\<close> and \<open>mmu_init\<close> of the architectures.
    On a Zynq the MMU comes on with the tables that the code, the jump and the console need.
  \<^item> \<open>Firmware\<close>, \<open>Boot\<close>: the disk service and start of the firmware (\<open>firmware/arch\<close>) and the boot loaders
    (\<open>boot/arch\<close>). Over locales \<open>byte_copy\<close> and \<open>sector_reader\<close>, interpreted on the disk drivers, the
    service reads what is asked for; segments are put in place.

  \<^bold>\<open>Parts: devices.\<close>
  \<^item> \<open>DevList\<close>: \<open>kern/dev/index\<close>. Locale \<open>device_registry\<close> is what the users of the index rely on.
  \<^item> \<open>Console\<close>: \<open>kern/dev/console.c\<close>, \<open>kern/debug/panic.c\<close>, \<open>kern/init/initcalls.c\<close>. Output of a
    string over locale \<open>char_output\<close>, which the serial drivers interpret.
  \<^item> \<open>Bus\<close>: \<open>drivers/io\<close> and the accessors of \<open>include/arch/*/io.h\<close>. Locale \<open>bus_access\<close> is what a driver
    relies on.
  \<^item> \<open>Serial\<close>: \<open>drivers/serial\<close>. A string arrives on the line byte by byte.
  \<^item> \<open>Disk\<close>, \<open>Sd\<close>, \<open>Timer\<close>: \<open>drivers/block\<close>, \<open>drivers/sd\<close>, \<open>drivers/timer\<close>. Transfers of
    sectors, and delays that end.

  \<^bold>\<open>How they interact.\<close> The two allocators call each other through the table \<open>kops\<close> of \<open>Kmem\<close>, and
  \<open>Slab\<close>, \<open>Uvm\<close>, \<open>DevList\<close>, \<open>MemReg\<close> call them through it; \<open>Uvm\<close> calls page tables through \<open>uvm_ops\<close>. The
  page tables of MIPS are what \<open>MipsTlb\<close> walks. Drivers call a bus, register handlers and early
  mappings; \<open>EarlyInit\<close> runs them with the boot tables of \<open>EarlyMap\<close> and \<open>ArmMm\<close>. The disk drivers are the
  drives of \<open>Firmware\<close>, whose service \<open>Boot\<close> uses. \<open>DevList\<close> compares names with \<open>strcmp\<close> of \<open>Libc\<close>;
  \<open>Console\<close> formats with \<open>vsnprintf\<close> of \<open>Printf\<close>, and the trap handlers print through it. A theorem
  about such a component holds for every table, or names what it asks of the table.

  \<^bold>\<open>Bounds.\<close> Loops that the code bounds only indirectly have a number of rounds as an argument
  and yield \<open>Hang\<close> when it runs out: \<open>map_check\<close>, \<open>map_fill\<close>, \<open>arm_map_loop\<close> (one per page and a
  final test), \<open>early_map_loop\<close> (1024 entries and a test), \<open>arm_early_loop\<close> (4096 entries),
  \<open>readdisk_loop\<close> (a byte per round at least), the loops that poll a device (as many rounds as the device
  is busy). The theorems show a returned value, so that the rounds are enough. \<open>linked\<close> is the
  depth to which the allocators call each other; two levels serve the boot phase. \<open>strcmp\<close>
  and the constructor loop of \<open>Slab\<close> are partial functions.

  \<^bold>\<open>Not modelled.\<close> Linker scripts and the entry code that sets up the first stack (\<open>entry.S\<close>, \<open>bootasm.S\<close>,
  \<open>fwasm.S\<close>), which consist of instructions for modes of the processors that no other part uses. Headers that
  only name registers (\<open>pci_regs.h\<close>, \<open>mipsregs.h\<close>, most of \<open>ata.h\<close>). \<open>drivers/ata/sata_ide.c\<close>, which is not
  built. \<open>kern/proc\<close>, whose only routine is a stub. The last steps of the refill handler in the 64-bit build. Weak
  memory: barriers have no effect in the models. Messages to the console inside other
  components, and self tests other than that of the caches.
\<close>

end
